(* ===== verification/Prelude.thy ===== *)
theory Prelude imports Main "HOL-Library.Word" begin

text \<open>
  Shared vocabulary of the development: the names of the machine integer types, the collections of
  simplification rules the component theories extend, and generic facts on lists, bits and words
  that more than one component needs.
\<close>

unbundle bit_operations_syntax

type_synonym u8 = "8 word"
type_synonym u16 = "16 word"
type_synonym u32 = "32 word"
type_synonym u64 = "64 word"

named_theorems onestl_simps "unfolding rules of the container operations"
named_theorems value_simps "unfolding rules of the constant arithmetic"
named_theorems ir_simps "unfolding rules of the intermediate representation"

subsection \<open>The two out-of-range positions\<close>

text \<open>
  \<open>BitSet::NoPos\<close> is \<open>size_t(-1)\<close>, while \<open>Graph::NoPos\<close>, \<open>NoReg\<close> and \<open>NoColor\<close> are
  \<open>uint32_t(-1)\<close>. Sizes and positions are natural numbers here: every size is bounded by the memory
  that holds the elements, so it never reaches \<open>NoPos64\<close>.
\<close>

definition NoPos64 :: nat where
  "NoPos64 = 2 ^ 64 - 1"

definition NoPos32 :: nat where
  "NoPos32 = 2 ^ 32 - 1"

lemma NoPos32_less_NoPos64: "NoPos32 < NoPos64"
  by (simp add: NoPos32_def NoPos64_def)

subsection \<open>Positions and words\<close>

lemma div_mod_64_eq: "i div 64 = j div 64 \<Longrightarrow> i mod 64 = j mod 64 \<Longrightarrow> i = (j::nat)"
  by (metis div_mult_mod_eq)

text \<open>A position is compared word by word first, then within the word.\<close>

lemma le_by_words:
  "(a::nat) \<le> b \<longleftrightarrow> a div 64 < b div 64 \<or> (a div 64 = b div 64 \<and> a mod 64 \<le> b mod 64)"
proof -
  have gen: "64 * q + r \<le> 64 * q' + r' \<longleftrightarrow> q < q' \<or> (q = q' \<and> r \<le> r')"
    if "r < 64" "r' < 64" for q r q' r' :: nat
    using that by (cases q q' rule: linorder_cases) auto
  show ?thesis
    using gen [of "a mod 64" "b mod 64" "a div 64" "b div 64"] by simp
qed

lemma less_by_words:
  "(a::nat) < b \<longleftrightarrow> a div 64 < b div 64 \<or> (a div 64 = b div 64 \<and> a mod 64 < b mod 64)"
  using le_by_words [of b a] by auto

lemma div64_less:
  assumes "stop mod 64 \<noteq> 0" and "stop \<le> 64 * (n::nat)"
  shows "stop div 64 < n"
proof -
  have "stop \<noteq> 64 * n" using assms(1) by auto
  with assms(2) show ?thesis by (simp add: less_mult_imp_div_less mult.commute)
qed

lemma words_needed_le: "m \<le> 64 * n \<Longrightarrow> (m + 63) div 64 \<le> (n::nat)"
  by arith

lemma le_words_needed: "m \<le> 64 * ((m + 63) div 64)" for m :: nat
  by arith

lemma div64_words_needed: "i < m \<Longrightarrow> i div 64 < (m + 63) div (64::nat)"
  using le_words_needed [of m] by (intro less_mult_imp_div_less) linarith

lemma div_mod_64_add:
  assumes "lo mod 64 + j < (64::nat)"
  shows "(lo + j) div 64 = lo div 64" and "(lo + j) mod 64 = lo mod 64 + j"
proof -
  have "lo + j = 64 * (lo div 64) + (lo mod 64 + j)"
    using mult_div_mod_eq [of 64 lo] by linarith
  then show "(lo + j) div 64 = lo div 64" and "(lo + j) mod 64 = lo mod 64 + j"
    using assms by (metis div_mult_self4 div_less add.right_neutral zero_neq_numeral,
        metis mod_mult_self4 mod_less)
qed

lemma or_nat_aligned:
  assumes "r < (64::nat)"
  shows "(64 * k) OR r = 64 * k + r"
proof -
  have "bit (64 * k) n \<Longrightarrow> \<not> bit r n" for n
  proof
    assume a: "bit (64 * k) n" and b: "bit r n"
    have "64 * k = push_bit 6 k" by (simp add: push_bit_eq_mult)
    with a have "6 \<le> n" by (simp add: bit_push_bit_iff)
    then have "(64::nat) \<le> 2 ^ n"
      using power_increasing [of 6 n "2::nat"] by simp
    with assms have "r < 2 ^ n" by linarith
    then have "r div 2 ^ n = 0" by simp
    with b show False by (simp add: bit_iff_odd)
  qed
  then have "(64 * k) AND r = 0"
    by (auto simp: bit_eq_iff bit_and_iff)
  then show ?thesis
    by (metis disjunctive_add_eq_or)
qed

lemma word64_eq_0_iff: "(w :: u64) = 0 \<longleftrightarrow> (\<forall>i<64. \<not> bit w i)"
  by (auto simp: bit_eq_iff dest: bit_imp_le_length)

lemma bit_max_word64 [simp]: "bit (- 1 :: u64) i \<longleftrightarrow> i < 64"
  by (simp add: bit_minus_1_iff)

subsection \<open>Least element of a filtered range\<close>

text \<open>
  \<open>first_in p lo hi\<close> is the least position of \<open>[lo..<hi]\<close> that satisfies \<open>p\<close>. It is the
  specification that the searches of the bit set and of the graph refine.
\<close>

definition first_in :: "(nat \<Rightarrow> bool) \<Rightarrow> nat \<Rightarrow> nat \<Rightarrow> nat option" where
  "first_in p lo hi = List.find p [lo..<hi]"

lemma first_in_Some_iff:
  "first_in p lo hi = Some i \<longleftrightarrow> lo \<le> i \<and> i < hi \<and> p i \<and> (\<forall>j. lo \<le> j \<and> j < i \<longrightarrow> \<not> p j)"
proof
  assume "first_in p lo hi = Some i"
  then obtain k where k: "k < hi - lo" "p (lo + k)" "i = lo + k" "\<forall>j<k. \<not> p (lo + j)"
    by (auto simp: first_in_def find_Some_iff)
  have "\<not> p j" if "lo \<le> j" "j < i" for j
    using k(3) k(4) [rule_format, of "j - lo"] that by auto
  with k show "lo \<le> i \<and> i < hi \<and> p i \<and> (\<forall>j. lo \<le> j \<and> j < i \<longrightarrow> \<not> p j)" by auto
next
  assume *: "lo \<le> i \<and> i < hi \<and> p i \<and> (\<forall>j. lo \<le> j \<and> j < i \<longrightarrow> \<not> p j)"
  then show "first_in p lo hi = Some i"
    unfolding first_in_def find_Some_iff by (intro exI [of _ "i - lo"]) auto
qed

lemma first_in_None_iff:
  "first_in p lo hi = None \<longleftrightarrow> (\<forall>j. lo \<le> j \<and> j < hi \<longrightarrow> \<not> p j)"
  by (auto simp: first_in_def find_None_iff)

lemma first_in_cong:
  "(\<And>j. lo \<le> j \<Longrightarrow> j < hi \<Longrightarrow> p j = q j) \<Longrightarrow> first_in p lo hi = first_in q lo hi"
  unfolding first_in_def by (rule find_cong) auto

lemma first_in_skip:
  assumes "lo \<le> mid" and "\<And>j. lo \<le> j \<Longrightarrow> j < mid \<Longrightarrow> \<not> p j"
  shows "first_in p lo hi = first_in p mid hi"
proof (cases "first_in p mid hi")
  case None
  have "\<not> p j" if "lo \<le> j" "j < hi" for j
    using None assms(2) that by (cases "j < mid") (auto simp: first_in_None_iff)
  with None show ?thesis by (metis first_in_None_iff)
next
  case (Some i)
  have "\<not> p j" if "lo \<le> j" "j < i" for j
    using Some assms(2) that by (cases "j < mid") (auto simp: first_in_Some_iff)
  with Some assms(1) have "first_in p lo hi = Some i"
    by (auto simp: first_in_Some_iff)
  with Some show ?thesis by simp
qed

lemma filter_upt_first_in:
  "filter p [i..<n] = (case first_in p i n of None \<Rightarrow> [] | Some k \<Rightarrow> k # filter p [Suc k..<n])"
proof (cases "first_in p i n")
  case None
  then have "filter p [i..<n] = []" by (auto simp: first_in_None_iff filter_empty_conv)
  with None show ?thesis by simp
next
  case (Some k)
  then have k: "i \<le> k" "k < n" "p k" and not: "\<forall>j. i \<le> j \<and> j < k \<longrightarrow> \<not> p j"
    by (auto simp: first_in_Some_iff)
  have "[i..<n] = [i..<k] @ k # [Suc k..<n]"
    using k by (metis upt_add_eq_append upt_conv_Cons le_add_diff_inverse less_imp_le)
  moreover have "filter p [i..<k] = []" using not by (auto simp: filter_empty_conv)
  ultimately show ?thesis using Some k by simp
qed

subsection \<open>Count of trailing zeros\<close>

text \<open>Number of the lowest bit that is set, and the width of the word when there is none.\<close>

definition ctz :: "'a::len word \<Rightarrow> nat" where
  "ctz w = (case first_in (bit w) 0 LENGTH('a) of Some i \<Rightarrow> i | None \<Rightarrow> LENGTH('a))"

lemma word_0_iff_first_in:
  "first_in (bit w) 0 LENGTH('a) = None \<longleftrightarrow> w = (0 :: 'a::len word)"
  by (auto simp: first_in_None_iff bit_eq_iff)

lemma ctz_less:
  fixes w :: "'a::len word"
  assumes "w \<noteq> 0"
  shows "ctz w < LENGTH('a)" and "bit w (ctz w)" and "i < ctz w \<Longrightarrow> \<not> bit w i"
proof -
  obtain k where k: "first_in (bit w) 0 LENGTH('a) = Some k"
    using assms by (metis not_None_eq word_0_iff_first_in)
  then have "ctz w = k" by (simp add: ctz_def)
  with k show "ctz w < LENGTH('a)" and "bit w (ctz w)" and "i < ctz w \<Longrightarrow> \<not> bit w i"
    by (auto simp: first_in_Some_iff)
qed

lemma ctz_eqI:
  fixes w :: "'a::len word"
  assumes "bit w k" and "\<And>i. i < k \<Longrightarrow> \<not> bit w i"
  shows "ctz w = k"
proof -
  have "w \<noteq> 0" using assms(1) by auto
  then have "bit w (ctz w)" and "\<not> k < ctz w"
    using ctz_less assms(1) by blast+
  then show ?thesis using assms(2) by (metis linorder_neqE_nat)
qed

end
