(* ===== verification/Containers.thy ===== *)
theory Containers imports Prelude begin

text \<open>
  The containers of \<open>src/onestl\<close>: \<open>View\<close> and \<open>Span\<close> (checked element access on an array of
  elements), \<open>ArrayHelper\<close> and \<open>Array\<close> (growth), \<open>Buffer\<close> (an array that remembers a failed
  allocation) and \<open>CRange\<close>/\<open>Range\<close> (an interval of an array that survives its reallocation).

  A view or a span is the list of its elements. An array is that list and its capacity; the cells
  between the size and the capacity are never read before they are written, so they are not part
  of the state. The result of \<open>malloc\<close>, \<open>calloc\<close> and \<open>realloc\<close> is a parameter
  \<open>ok :: nat \<Rightarrow> bool\<close>: whether an allocation of that many elements succeeds.
\<close>

subsection \<open>View and Span\<close>

text \<open>\<open>operator[]\<close>: the element, or the zero value \<open>z\<close> of the element type when out of bounds.\<close>

definition view_get :: "'a \<Rightarrow> 'a list \<Rightarrow> nat \<Rightarrow> 'a" where
  "view_get z xs i = (if i < length xs then xs ! i else z)"

definition view_sub :: "'a list \<Rightarrow> nat \<Rightarrow> nat \<Rightarrow> 'a list" where
  "view_sub xs start stop =
     (if start \<le> stop \<and> stop \<le> length xs then take (stop - start) (drop start xs) else [])"

definition view_truncate :: "'a list \<Rightarrow> nat \<Rightarrow> 'a list" where
  "view_truncate xs n = (if length xs > n then take n xs else xs)"

definition span_set :: "'a list \<Rightarrow> nat \<Rightarrow> 'a \<Rightarrow> 'a list" where
  "span_set xs i v = (if i < length xs then xs[i := v] else xs)"

definition span_inc :: "'a::plus list \<Rightarrow> nat \<Rightarrow> 'a \<Rightarrow> 'a list" where
  "span_inc xs i d = (if i < length xs then xs[i := xs ! i + d] else xs)"

definition span_dec :: "'a::minus list \<Rightarrow> nat \<Rightarrow> 'a \<Rightarrow> 'a list" where
  "span_dec xs i d = (if i < length xs then xs[i := xs ! i - d] else xs)"

definition span_copy :: "'a list \<Rightarrow> 'a list \<Rightarrow> 'a list" where
  "span_copy xs src = (let n = min (length xs) (length src) in take n src @ drop n xs)"

definition span_fill :: "'a list \<Rightarrow> 'a \<Rightarrow> 'a list" where
  "span_fill xs v = map (\<lambda>_. v) xs"

lemma span_set_eq [simp]: "span_set xs i v = xs[i := v]"
  by (simp add: span_set_def list_update_beyond)

lemma view_get_nth [simp]: "i < length xs \<Longrightarrow> view_get z xs i = xs ! i"
  by (simp add: view_get_def)

lemma view_get_beyond [simp]: "length xs \<le> i \<Longrightarrow> view_get z xs i = z"
  by (simp add: view_get_def)

lemma view_get_update:
  "view_get z (xs[i := v]) j = (if j = i \<and> i < length xs then v else view_get z xs j)"
  by (simp add: view_get_def)

lemma span_copy_same [simp]: "length src = length xs \<Longrightarrow> span_copy xs src = src"
  by (simp add: span_copy_def)

lemma span_fill_eq [simp]: "span_fill xs v = replicate (length xs) v"
  by (simp add: span_fill_def map_replicate_const)

subsection \<open>ArrayHelper and Array\<close>

record 'a arr =
  elems :: "'a list"
  acap :: nat

definition arr_empty :: "'a arr" where
  "arr_empty = \<lparr>elems = [], acap = 0\<rparr>"

definition arr_init :: "'a \<Rightarrow> (nat \<Rightarrow> bool) \<Rightarrow> nat \<Rightarrow> bool \<times> 'a arr" where
  "arr_init z ok n =
     (if n \<noteq> 0 \<and> \<not> ok n then (False, arr_empty) else (True, \<lparr>elems = replicate n z, acap = n\<rparr>))"

definition arr_reserve :: "(nat \<Rightarrow> bool) \<Rightarrow> nat \<Rightarrow> 'a arr \<Rightarrow> bool \<times> 'a arr" where
  "arr_reserve ok newcap a =
     (if newcap > acap a then
        (if ok newcap then (True, a\<lparr>acap := newcap\<rparr>) else (False, a))
      else (True, a))"

definition arr_grow_cap :: "(nat \<Rightarrow> bool) \<Rightarrow> nat \<Rightarrow> 'a arr \<Rightarrow> bool \<times> 'a arr" where
  "arr_grow_cap ok mincap a =
     (if acap a \<ge> mincap then (True, a)
      else let cap2 = (if acap a \<ge> 10 then acap a * 2 else 10)
           in arr_reserve ok (if mincap \<ge> cap2 then mincap else cap2) a)"

text \<open>\<open>z\<close> is the zero value for \<open>zerofill\<close>; without it the new cells hold any value, here \<open>z\<close> too.\<close>

definition arr_grow :: "'a \<Rightarrow> (nat \<Rightarrow> bool) \<Rightarrow> nat \<Rightarrow> 'a arr \<Rightarrow> bool \<times> 'a arr" where
  "arr_grow z ok n a =
     (let (good, a1) = arr_grow_cap ok n a
      in if \<not> good then (False, a1)
         else (True, a1\<lparr>elems := take n (elems a1) @ replicate (n - length (elems a1)) z\<rparr>))"

definition arr_dup :: "(nat \<Rightarrow> bool) \<Rightarrow> 'a list \<Rightarrow> 'a arr \<Rightarrow> bool \<times> 'a arr" where
  "arr_dup ok src a =
     (if length src \<noteq> 0 then
        (let (good, a1) = arr_grow_cap ok (length src) a
         in if \<not> good then (False, a1) else (True, a1\<lparr>elems := src\<rparr>))
      else (True, a\<lparr>elems := []\<rparr>))"

definition arr_append :: "'a \<Rightarrow> (nat \<Rightarrow> bool) \<Rightarrow> 'a list \<Rightarrow> 'a arr \<Rightarrow> bool \<times> 'a arr" where
  "arr_append z ok src a =
     (if length src \<noteq> 0 then
        (let oldn = length (elems a);
             (good, a1) = arr_grow z ok (oldn + length src) a
         in if \<not> good then (False, a1) else (True, a1\<lparr>elems := take oldn (elems a1) @ src\<rparr>))
      else (True, a))"

definition arr_resize :: "'a \<Rightarrow> (nat \<Rightarrow> bool) \<Rightarrow> nat \<Rightarrow> 'a arr \<Rightarrow> bool \<times> 'a arr" where
  "arr_resize z ok n a =
     (if length (elems a) \<ge> n then (True, a\<lparr>elems := take n (elems a)\<rparr>) else arr_grow z ok n a)"

definition arr_clear :: "'a arr \<Rightarrow> 'a arr" where
  "arr_clear a = a\<lparr>elems := []\<rparr>"

definition arr_truncate :: "nat \<Rightarrow> 'a arr \<Rightarrow> 'a arr" where
  "arr_truncate n a = a\<lparr>elems := view_truncate (elems a) n\<rparr>"

definition arr_ok :: "'a arr \<Rightarrow> bool" where
  "arr_ok a \<longleftrightarrow> length (elems a) \<le> acap a"

lemmas arr_defs = arr_empty_def arr_init_def arr_reserve_def arr_grow_cap_def arr_grow_def arr_dup_def
  arr_append_def arr_resize_def arr_clear_def arr_truncate_def view_truncate_def arr_ok_def Let_def

declare arr_defs [onestl_simps]

lemma arr_grow_cap_elems: "elems (snd (arr_grow_cap ok n a)) = elems a"
  by (simp add: arr_defs)

lemma arr_grow_cap_cap:
  "fst (arr_grow_cap ok n a) \<Longrightarrow> n \<le> acap (snd (arr_grow_cap ok n a))"
  by (auto simp: arr_defs split: if_splits)

lemma arr_grow_cap_fail:
  "\<not> fst (arr_grow_cap ok n a) \<Longrightarrow> snd (arr_grow_cap ok n a) = a"
  by (auto simp: arr_defs split: if_splits)

lemma arr_append_cases:
  "arr_append z ok src a =
     (if fst (arr_grow_cap ok (length (elems a) + length src) a) \<or> src = []
      then (True, (if src = [] then a
                   else (snd (arr_grow_cap ok (length (elems a) + length src) a))\<lparr>elems := elems a @ src\<rparr>))
      else (False, a))"
  using arr_grow_cap_elems [of ok "length (elems a) + length src" a]
    arr_grow_cap_fail [of ok "length (elems a) + length src" a]
  by (cases "arr_grow_cap ok (length (elems a) + length src) a")
    (auto simp: arr_append_def arr_grow_def)

lemma arr_append_success:
  "fst (arr_append z ok src a) \<Longrightarrow> elems (snd (arr_append z ok src a)) = elems a @ src"
  by (auto simp: arr_append_cases split: if_splits)

lemma arr_append_failure:
  "\<not> fst (arr_append z ok src a) \<Longrightarrow> snd (arr_append z ok src a) = a"
  by (auto simp: arr_append_cases split: if_splits)

lemma arr_append_ok: "arr_ok a \<Longrightarrow> arr_ok (snd (arr_append z ok src a))"
  using arr_grow_cap_cap [of ok "length (elems a) + length src" a]
  by (auto simp: arr_append_cases arr_ok_def)

lemma arr_resize_success:
  assumes "fst (arr_resize z ok n a)"
  shows "elems (snd (arr_resize z ok n a)) = take n (elems a) @ replicate (n - length (elems a)) z"
  using assms arr_grow_cap_elems [of ok n a]
  by (auto simp: arr_resize_def arr_grow_def split: prod.splits if_splits)

lemma arr_resize_ok: "arr_ok a \<Longrightarrow> arr_ok (snd (arr_resize z ok n a))"
  using arr_grow_cap_cap [of ok n a] arr_grow_cap_elems [of ok n a] arr_grow_cap_fail [of ok n a]
  by (auto simp: arr_resize_def arr_grow_def arr_ok_def split: prod.splits)

lemma arr_resize_failure:
  "\<not> fst (arr_resize z ok n a) \<Longrightarrow> snd (arr_resize z ok n a) = a"
  using arr_grow_cap_fail [of ok n a]
  by (auto simp: arr_resize_def arr_grow_def split: prod.splits if_splits)

subsection \<open>Buffer\<close>

text \<open>A \<open>Buffer\<close> is an array with the flag \<open>good_\<close>: once an allocation fails it drops every append.\<close>

record 'a buffer =
  bdata :: "'a arr"
  good :: bool

definition buf_new :: "'a buffer" where
  "buf_new = \<lparr>bdata = arr_empty, good = True\<rparr>"

definition buf_clearerr :: "'a buffer \<Rightarrow> 'a buffer" where
  "buf_clearerr b = b\<lparr>good := True\<rparr>"

definition buf_clear :: "'a buffer \<Rightarrow> 'a buffer" where
  "buf_clear b = buf_clearerr (b\<lparr>bdata := arr_clear (bdata b)\<rparr>)"

definition buf_truncate :: "nat \<Rightarrow> 'a buffer \<Rightarrow> 'a buffer" where
  "buf_truncate n b = b\<lparr>bdata := arr_truncate n (bdata b)\<rparr>"

definition buf_resize :: "'a \<Rightarrow> (nat \<Rightarrow> bool) \<Rightarrow> nat \<Rightarrow> 'a buffer \<Rightarrow> 'a buffer" where
  "buf_resize z ok n b =
     (if good b then (let (g, a) = arr_resize z ok n (bdata b) in \<lparr>bdata = a, good = g\<rparr>) else b)"

definition buf_reserve :: "(nat \<Rightarrow> bool) \<Rightarrow> nat \<Rightarrow> 'a buffer \<Rightarrow> 'a buffer" where
  "buf_reserve ok n b =
     (if good b then (let (g, a) = arr_reserve ok n (bdata b) in \<lparr>bdata = a, good = g\<rparr>) else b)"

definition buf_append :: "'a \<Rightarrow> (nat \<Rightarrow> bool) \<Rightarrow> 'a list \<Rightarrow> 'a buffer \<Rightarrow> 'a buffer" where
  "buf_append z ok src b =
     (if good b then (let (g, a) = arr_append z ok src (bdata b) in \<lparr>bdata = a, good = g\<rparr>) else b)"

lemma buf_append_prefix:
  "elems (bdata (buf_append z ok src b)) =
     (if good (buf_append z ok src b) then elems (bdata b) @ src else elems (bdata b))"
  using arr_append_success [of z ok src "bdata b"] arr_append_failure [of z ok src "bdata b"]
  by (auto simp: buf_append_def split: prod.splits)

subsection \<open>CRange and Range\<close>

text \<open>
  A range holds a pointer to its array and an interval; the array is passed as \<open>xs\<close> (\<open>None\<close> for a
  null pointer), because it may change between two uses of the range.
\<close>

record crange =
  r_start :: nat
  r_size :: nat

definition range_make :: "nat \<Rightarrow> nat \<Rightarrow> crange" where
  "range_make a_start a_end =
     \<lparr>r_start = a_start, r_size = (if a_end > a_start then a_end - a_start else 0)\<rparr>"

definition range_bool :: "'a list option \<Rightarrow> crange \<Rightarrow> bool" where
  "range_bool impl r =
     (case impl of None \<Rightarrow> False
      | Some xs \<Rightarrow> r_size r \<noteq> 0 \<and> r_size r \<le> length xs \<and> r_start r \<le> length xs - r_size r)"

definition range_get :: "'a \<Rightarrow> 'a list option \<Rightarrow> crange \<Rightarrow> nat \<Rightarrow> 'a" where
  "range_get z impl r i =
     (case impl of None \<Rightarrow> z
      | Some xs \<Rightarrow> if i < r_size r then view_get z xs (i + r_start r) else z)"

definition range_set :: "'a list option \<Rightarrow> crange \<Rightarrow> nat \<Rightarrow> 'a \<Rightarrow> 'a list option" where
  "range_set impl r i v =
     (case impl of None \<Rightarrow> None
      | Some xs \<Rightarrow> if i < r_size r then Some (span_set xs (i + r_start r) v) else Some xs)"

definition range_view :: "'a list option \<Rightarrow> crange \<Rightarrow> 'a list" where
  "range_view impl r =
     (if range_bool impl r then take (r_size r) (drop (r_start r) (the impl)) else [])"

lemma range_view_nth:
  assumes "range_bool impl r" and "i < r_size r"
  shows "range_view impl r ! i = range_get z impl r i"
  using assms by (auto simp: range_view_def range_bool_def range_get_def add.commute
      split: option.splits)

lemma length_range_view:
  "length (range_view impl r) = (if range_bool impl r then r_size r else 0)"
  by (auto simp: range_view_def range_bool_def split: option.splits)

subsection \<open>The interface of a checked vector\<close>

text \<open>
  What the clients of \<open>Array\<close> rely on: a checked read and a checked write over a fixed length.
  The facts about runs of writes are proved once, from these laws.
\<close>

locale checked_vector =
  fixes get :: "'v \<Rightarrow> nat \<Rightarrow> 'a" and set_at :: "'v \<Rightarrow> nat \<Rightarrow> 'a \<Rightarrow> 'v" and len :: "'v \<Rightarrow> nat"
  assumes len_set [simp]: "len (set_at v i x) = len v"
    and get_set: "get (set_at v i x) j = (if j = i \<and> i < len v then x else get v j)"
begin

lemma len_fold_set [simp]: "len (fold (\<lambda>i v. set_at v i (f i)) is v) = len v"
  by (induction "is" arbitrary: v) auto

lemma get_fold_set:
  "get (fold (\<lambda>i v. set_at v i (f i)) is v) j = (if j \<in> set is \<and> j < len v then f j else get v j)"
  by (induction "is" arbitrary: v) (auto simp: get_set)

end

interpretation arrv: checked_vector "view_get z" span_set length for z
  by unfold_locales (auto simp: view_get_update)

subsection \<open>Properties\<close>

definition buf_append_all :: "'a \<Rightarrow> ((nat \<Rightarrow> bool) \<times> 'a list) list \<Rightarrow> 'a buffer \<Rightarrow> 'a buffer" where
  "buf_append_all z cs b = fold (\<lambda>(ok, src). buf_append z ok src) cs b"

lemma buf_append_good: "good (buf_append z ok src b) \<Longrightarrow> good b"
  by (auto simp: buf_append_def split: if_splits)

lemma buf_append_all_not_good: "\<not> good b \<Longrightarrow> buf_append_all z cs b = b"
  unfolding buf_append_all_def by (induction cs) (auto simp: buf_append_def)

text \<open>A sequence of appends to a buffer, each with its own allocator behaviour, leaves in it
  the old elements followed by the chunks before the first append that failed, complete and in
  order; the error flag tells exactly whether a chunk was dropped.\<close>

lemma buffer_keeps_prefix:
  "\<exists>k\<le>length cs. elems (bdata (buf_append_all z cs b)) =
       elems (bdata b) @ (if good b then concat (map snd (take k cs)) else []) \<and>
     good (buf_append_all z cs b) = (good b \<and> k = length cs)"
proof (cases "good b")
  case False
  then show ?thesis by (auto simp: buf_append_all_not_good)
next
  case True
  then show ?thesis
  proof (induction cs arbitrary: b)
    case (Cons c cs)
    obtain ok src where c: "c = (ok, src)" by (cases c)
    have step: "buf_append_all z ((ok, src) # cs) b = buf_append_all z cs (buf_append z ok src b)"
      by (simp add: buf_append_all_def)
    show ?case
    proof (cases "good (buf_append z ok src b)")
      case True
      from Cons.IH [OF this] obtain k where "k \<le> length cs"
        "elems (bdata (buf_append_all z cs (buf_append z ok src b))) =
           elems (bdata (buf_append z ok src b)) @ concat (map snd (take k cs))"
        "good (buf_append_all z cs (buf_append z ok src b)) = (k = length cs)"
        using True by auto
      then show ?thesis
        using True Cons.prems by (intro exI [of _ "Suc k"]) (simp add: step buf_append_prefix c)
    next
      case False
      then show ?thesis
        using Cons.prems by (intro exI [of _ 0]) (simp add: step c buf_append_all_not_good buf_append_prefix)
    qed
  qed (simp add: buf_append_all_def)
qed

text \<open>An append to an array either adds all the elements or fails and changes nothing, and it
  keeps the size within the capacity.\<close>

theorem array_append_all_or_nothing:
  assumes "arr_ok a"
  shows "arr_ok (snd (arr_append z ok src a)) \<and>
    (if fst (arr_append z ok src a) then elems (snd (arr_append z ok src a)) = elems a @ src
     else snd (arr_append z ok src a) = a)"
  using assms by (simp add: arr_append_ok arr_append_success arr_append_failure)

lemma array_append_all_or_nothing_witness:
  "arr_ok (snd (arr_append 0 (\<lambda>n. n < 20) [7, 8] \<lparr>elems = [1, 2, 3 :: nat], acap = 4\<rparr>))"
  using array_append_all_or_nothing [of "\<lparr>elems = [1, 2, 3 :: nat], acap = 4\<rparr>" 0 "\<lambda>n. n < 20" "[7, 8]"]
  by (simp add: arr_ok_def)

end
