(* ===== verification/Bitset.thy ===== *)
theory Bitset imports Containers begin

text \<open>
  \<open>BitSet\<close> of \<open>src/onestl/bitset.hpp\<close> and \<open>bitset.cpp\<close>: a resizeable sequence of bits held in an
  array of 64-bit words, with its size and its capacity in bits. The operations work on whole words
  with masks, as the code does; \<open>bs_get\<close> (the checked \<open>operator[]\<close>) is the abstraction to a
  function from positions to bits, and every operation is specified through it.

  \<open>find_first_set\<close> has three versions, selected by the configure script: \<open>ffsl\<close> of the C library,
  \<open>ffs\<close> on the two halves, or a loop. They are the three values of \<open>ffs_config\<close>.
\<close>

unbundle bit_operations_syntax

declare push_bit_minus_one_eq_not_mask [simp del]

record bitset =
  bs_data :: "u64 list"
  bs_size :: nat
  bs_cap :: nat

definition bs_wf :: "bitset \<Rightarrow> bool" where
  "bs_wf b \<longleftrightarrow> bs_cap b = 64 * length (bs_data b) \<and> bs_size b \<le> bs_cap b"

subsection \<open>Element access\<close>

definition bs_word_get :: "u64 list \<Rightarrow> nat \<Rightarrow> bool" where
  "bs_word_get d i = bit (d ! (i div 64)) (i mod 64)"

definition bs_get :: "bitset \<Rightarrow> nat \<Rightarrow> bool" where
  "bs_get b i = (if i < bs_size b then bs_word_get (bs_data b) i else False)"

text \<open>The word \<open>T(-T(value))\<close>: all zeros or all ones.\<close>

definition bs_pattern :: "bool \<Rightarrow> u64" where
  "bs_pattern v = - of_bool v"

definition bs_set :: "bitset \<Rightarrow> nat \<Rightarrow> bool \<Rightarrow> bitset" where
  "bs_set b i v =
     (if i \<ge> bs_size b then b
      else let fillmask = push_bit (i mod 64) 1;
               keepmask = NOT fillmask;
               pattern = bs_pattern v;
               w = bs_data b ! (i div 64)
           in b\<lparr>bs_data := (bs_data b)[i div 64 := (w AND keepmask) OR (pattern AND fillmask)]\<rparr>)"

definition bs_clear :: "bitset \<Rightarrow> bitset" where
  "bs_clear b = b\<lparr>bs_size := 0\<rparr>"

definition bs_truncate :: "bitset \<Rightarrow> nat \<Rightarrow> bitset" where
  "bs_truncate b n = (if bs_size b > n then b\<lparr>bs_size := n\<rparr> else b)"

subsection \<open>Construction and growth\<close>

definition bs_init :: "(nat \<Rightarrow> bool) \<Rightarrow> nat \<Rightarrow> bool \<times> bitset" where
  "bs_init ok m =
     (let n = (m + 63) div 64
      in if n \<noteq> 0 \<and> \<not> ok n then (False, \<lparr>bs_data = [], bs_size = 0, bs_cap = 0\<rparr>)
         else (True, \<lparr>bs_data = replicate n 0, bs_size = m, bs_cap = n * 64\<rparr>))"

definition bs_realloc :: "(nat \<Rightarrow> bool) \<Rightarrow> nat \<Rightarrow> bitset \<Rightarrow> bool \<times> bitset" where
  "bs_realloc ok newcap b =
     (let oldn = (bs_cap b + 63) div 64;
          n = (newcap + 63) div 64
      in if n > oldn then
           (if \<not> ok n then (False, b)
            else (True, b\<lparr>bs_data := bs_data b @ replicate (n - oldn) 0, bs_cap := n * 64\<rparr>))
         else (True, b\<lparr>bs_cap := oldn * 64\<rparr>))"

definition bs_reserve :: "(nat \<Rightarrow> bool) \<Rightarrow> nat \<Rightarrow> bitset \<Rightarrow> bool \<times> bitset" where
  "bs_reserve ok newcap b = (if newcap \<le> bs_cap b then (True, b) else bs_realloc ok newcap b)"

definition bs_grow_cap :: "(nat \<Rightarrow> bool) \<Rightarrow> nat \<Rightarrow> bitset \<Rightarrow> bool \<times> bitset" where
  "bs_grow_cap ok mincap b =
     (let cap2 = (if bs_cap b \<ge> 64 then bs_cap b * 2 else 64)
      in bs_realloc ok (if mincap \<ge> cap2 then mincap else cap2) b)"

subsection \<open>fill\<close>

text \<open>One masked word: the bits of \<open>mask\<close> become those of \<open>pattern\<close>, the others stay.\<close>

definition bs_fill_word :: "u64 \<Rightarrow> u64 \<Rightarrow> u64 \<Rightarrow> u64 \<Rightarrow> u64" where
  "bs_fill_word pattern keepmask fillmask w = (w AND keepmask) OR (pattern AND fillmask)"

text \<open>\<open>start\<close> and \<open>stop\<close> lie in the same word.\<close>

definition bs_fill_same :: "u64 \<Rightarrow> nat \<Rightarrow> nat \<Rightarrow> u64 list \<Rightarrow> u64 list" where
  "bs_fill_same pattern start stop d =
     (let head = start mod 64;
          fillmask1 = push_bit head (- 1);
          keepmask1 = NOT fillmask1;
          tail = stop mod 64;
          keepmask2 = push_bit tail (- 1);
          fillmask2 = NOT keepmask2;
          keepmask = keepmask1 OR keepmask2;
          fillmask = fillmask1 AND fillmask2
      in d[start div 64 := bs_fill_word pattern keepmask fillmask (d ! (start div 64))])"

definition bs_fill_head :: "u64 \<Rightarrow> nat \<Rightarrow> u64 list \<Rightarrow> nat \<times> u64 list" where
  "bs_fill_head pattern start d =
     (let head = start mod 64
      in if head \<noteq> 0 then
           (let fillmask = push_bit head (- 1);
                keepmask = NOT fillmask
            in (start - head + 64,
                d[start div 64 := bs_fill_word pattern keepmask fillmask (d ! (start div 64))]))
         else (start, d))"

definition bs_fill_bulk :: "u64 \<Rightarrow> nat \<Rightarrow> nat \<Rightarrow> u64 list \<Rightarrow> u64 list" where
  "bs_fill_bulk pattern start stop d =
     (let nstart = start div 64; nend = stop div 64
      in if nstart < nend
         then take nstart d @ replicate (nend - nstart) pattern @ drop nend d
         else d)"

definition bs_fill_tail :: "u64 \<Rightarrow> nat \<Rightarrow> u64 list \<Rightarrow> u64 list" where
  "bs_fill_tail pattern stop d =
     (let tail = stop mod 64
      in if tail \<noteq> 0 then
           (let keepmask = push_bit tail (- 1);
                fillmask = NOT keepmask
            in d[stop div 64 := bs_fill_word pattern keepmask fillmask (d ! (stop div 64))])
         else d)"

definition bs_fill :: "bitset \<Rightarrow> bool \<Rightarrow> nat \<Rightarrow> nat \<Rightarrow> bitset" where
  "bs_fill b v start stop0 =
     (let stop = (if stop0 > bs_size b then bs_size b else stop0)
      in if start \<ge> stop then b
         else let pattern = bs_pattern v
              in if start div 64 = stop div 64
                 then b\<lparr>bs_data := bs_fill_same pattern start stop (bs_data b)\<rparr>
                 else let (start1, d1) = bs_fill_head pattern start (bs_data b)
                      in b\<lparr>bs_data := bs_fill_tail pattern stop
                                        (bs_fill_bulk pattern start1 stop d1)\<rparr>)"

definition bs_grow :: "(nat \<Rightarrow> bool) \<Rightarrow> nat \<Rightarrow> bitset \<Rightarrow> bool \<times> bitset" where
  "bs_grow ok newsize b =
     (let oldcap = bs_cap b;
          (grown, b1) = (if oldcap < newsize then bs_grow_cap ok newsize b else (True, b))
      in if \<not> grown then (False, b1)
         else let oldsize = bs_size b1;
                  b2 = b1\<lparr>bs_size := newsize\<rparr>;
                  toclear_end = min newsize oldcap
              in (True, if oldsize < toclear_end then bs_fill b2 False oldsize toclear_end else b2))"

definition bs_resize :: "(nat \<Rightarrow> bool) \<Rightarrow> nat \<Rightarrow> bitset \<Rightarrow> bool \<times> bitset" where
  "bs_resize ok n b = (if bs_size b \<ge> n then (True, b\<lparr>bs_size := n\<rparr>) else bs_grow ok n b)"

text \<open>\<open>copy\<close> throws when the sizes differ: \<open>None\<close>.\<close>

definition bs_copy :: "bitset \<Rightarrow> bitset \<Rightarrow> bitset option" where
  "bs_copy b src =
     (if bs_size src = bs_size b
      then let n = (bs_size b + 63) div 64
           in Some (b\<lparr>bs_data := take n (bs_data src) @ drop n (bs_data b)\<rparr>)
      else None)"

subsection \<open>find\<close>

datatype ffs_config = HAVE_FFSL | HAVE_FFS | NO_FFS

text \<open>
  The C library's \<open>ffsl\<close> and \<open>ffs\<close>: one plus the position of the lowest bit set, 0 for 0.
\<close>

definition libc_ffs :: "'a::len word \<Rightarrow> nat" where
  "libc_ffs w = (if w = 0 then 0 else 1 + ctz w)"

definition ffs_halves :: "u64 \<Rightarrow> nat" where
  "ffs_halves i =
     (let lo = libc_ffs (ucast i :: u32)
      in if lo \<noteq> 0 then lo
         else let shift = 32; hi = libc_ffs (ucast (drop_bit shift i) :: u32)
              in if hi \<noteq> 0 then hi + shift else 0)"

lemma unat_drop_bit_less:
  fixes i :: u64
  assumes "i \<noteq> 0" and "0 < k"
  shows "unat (drop_bit k i) < unat i"
proof -
  have "(1::nat) < 2 ^ k"
    by (rule one_less_power) (use assms(2) in auto)
  have "unat (drop_bit k i) = unat i div 2 ^ k"
    unfolding unat_drop_bit_eq by (rule drop_bit_eq_div)
  also have "\<dots> < unat i"
    using assms \<open>1 < 2 ^ k\<close> by (intro div_less_dividend) (auto simp: unat_gt_0)
  finally show ?thesis .
qed

text \<open>The loop used when the configure script finds neither function; it counts from 0.\<close>

function ffs_bits :: "nat \<Rightarrow> u64 \<Rightarrow> nat" where
  "ffs_bits ret i = (if i = 0 \<or> bit i 0 then ret else ffs_bits (ret + 1) (drop_bit 1 i))"
  by pat_completeness auto
termination
  by (relation "measure (\<lambda>(ret, i). unat i)") (auto intro: unat_drop_bit_less)

function ffs_bytes :: "nat \<Rightarrow> u64 \<Rightarrow> nat" where
  "ffs_bytes ret i =
     (if i = 0 then 0
      else if take_bit 8 i \<noteq> 0 then ffs_bits ret i
      else ffs_bytes (ret + 8) (drop_bit 8 i))"
  by pat_completeness auto
termination
  by (relation "measure (\<lambda>(ret, i). unat i)") (auto intro: unat_drop_bit_less)

declare ffs_bits.simps [simp del] ffs_bytes.simps [simp del]

definition find_first_set :: "ffs_config \<Rightarrow> u64 \<Rightarrow> nat" where
  "find_first_set cfg w =
     (case cfg of HAVE_FFSL \<Rightarrow> libc_ffs w | HAVE_FFS \<Rightarrow> ffs_halves w | NO_FFS \<Rightarrow> ffs_bytes 0 w)"

text \<open>\<open>find_first_set(bits) - 1\<close>, computed in \<open>unsigned\<close> as the code does.\<close>

definition ffs_minus_1 :: "ffs_config \<Rightarrow> u64 \<Rightarrow> nat" where
  "ffs_minus_1 cfg w = unat ((of_nat (find_first_set cfg w) :: u32) - 1)"

function bs_find_words :: "ffs_config \<Rightarrow> u64 list \<Rightarrow> u64 \<Rightarrow> nat \<Rightarrow> nat \<Rightarrow> nat" where
  "bs_find_words cfg d xor_pattern start stop =
     (if start < stop then
        let bits = xor_pattern XOR d ! (start div 64)
        in if bits \<noteq> 0 then
             (let s = start OR ffs_minus_1 cfg bits in if s < stop then s else NoPos64)
           else bs_find_words cfg d xor_pattern (start + 64) stop
      else NoPos64)"
  by pat_completeness auto
termination
  by (relation "measure (\<lambda>(cfg, d, x, start, stop). stop - start)") auto

declare bs_find_words.simps [simp del]

definition bs_find :: "ffs_config \<Rightarrow> bitset \<Rightarrow> bool \<Rightarrow> nat \<Rightarrow> nat \<Rightarrow> nat" where
  "bs_find cfg b v start stop0 =
     (let stop = (if stop0 > bs_size b then bs_size b else stop0)
      in if start < stop then
           let xor_pattern = of_bool v - 1;
               bits = xor_pattern XOR drop_bit (start mod 64) (bs_data b ! (start div 64))
           in if bits \<noteq> 0 then
                (let s = start + ffs_minus_1 cfg bits in if s < stop then s else NoPos64)
              else bs_find_words cfg (bs_data b) xor_pattern (64 + start div 64 * 64) stop
         else NoPos64)"

subsection \<open>Reads after writes\<close>

lemma bs_word_get_masked:
  assumes "k < length d"
  shows "bs_word_get (d[k := bs_fill_word p (NOT m) m (d ! k)]) i =
    (if i div 64 = k \<and> bit m (i mod 64) then bit p (i mod 64) else bs_word_get d i)"
  using assms
  by (auto simp: bs_word_get_def bs_fill_word_def nth_list_update bit_and_iff bit_or_iff bit_not_iff)

lemma bit_bs_pattern [simp]: "i < 64 \<Longrightarrow> bit (bs_pattern v) i = v"
  by (cases v) (auto simp: bs_pattern_def)

lemma mod64_less [simp]: "(i::nat) mod 64 < 64"
  by simp

lemma bs_get_beyond: "bs_size b \<le> i \<Longrightarrow> \<not> bs_get b i"
  by (simp add: bs_get_def)

lemma bs_get_set:
  assumes "bs_wf b"
  shows "bs_get (bs_set b i v) j = (if j = i \<and> i < bs_size b then v else bs_get b j)"
proof (cases "i < bs_size b")
  case True
  with assms have len: "i div 64 < length (bs_data b)"
    by (simp add: bs_wf_def less_mult_imp_div_less mult.commute)
  show ?thesis
    using True bs_word_get_masked [OF len, of "bs_pattern v" "push_bit (i mod 64) 1" j]
    by (auto simp: bs_get_def bs_set_def Let_def bs_fill_word_def [symmetric] bit_push_bit_iff bit_exp_iff
        dest: div_mod_64_eq)
qed (auto simp: bs_set_def)

lemma bs_size_set [simp]: "bs_size (bs_set b i v) = bs_size b"
  by (simp add: bs_set_def Let_def)

lemma bs_wf_set: "bs_wf b \<Longrightarrow> bs_wf (bs_set b i v)"
  by (simp add: bs_wf_def bs_set_def Let_def)

subsection \<open>Reads after fill\<close>

lemma length_bs_fill_parts [simp]:
  "length (bs_fill_same p start stop d) = length d"
  "length (snd (bs_fill_head p start d)) = length d"
  "length (bs_fill_tail p stop d) = length d"
  "stop div 64 \<le> length d \<Longrightarrow> length (bs_fill_bulk p start stop d) = length d"
  by (auto simp: bs_fill_same_def bs_fill_head_def bs_fill_tail_def bs_fill_bulk_def Let_def)

lemma bit_high_mask: "bit (push_bit k (- 1 :: u64)) i \<longleftrightarrow> k \<le> i \<and> i < 64"
  by (auto simp: bit_push_bit_iff simp del: push_bit_minus_one_eq_not_mask)

lemma bs_word_get_fill_same:
  assumes "start div 64 = stop div 64" and "start div 64 < length d"
  shows "bs_word_get (bs_fill_same (bs_pattern v) start stop d) i =
    (if start \<le> i \<and> i < stop then v else bs_word_get d i)"
proof -
  let ?m = "push_bit (start mod 64) (- 1) AND NOT (push_bit (stop mod 64) (- 1 :: u64))"
  have eq: "bs_fill_same (bs_pattern v) start stop d =
      d[start div 64 := bs_fill_word (bs_pattern v) (NOT ?m) ?m (d ! (start div 64))]"
    by (simp add: bs_fill_same_def Let_def bit_eq_iff bs_fill_word_def)
  have "(start \<le> i \<and> i < stop) \<longleftrightarrow>
      (i div 64 = start div 64 \<and> start mod 64 \<le> i mod 64 \<and> i mod 64 < stop mod 64)"
    using assms(1) by (auto simp: le_by_words [of start i] less_by_words [of i stop])
  then show ?thesis
    unfolding eq bs_word_get_masked [OF assms(2)]
    by (auto simp: bit_and_iff bit_not_iff bit_high_mask)
qed

lemma fst_bs_fill_head:
  "fst (bs_fill_head p start d) = 64 * (if start mod 64 = 0 then start div 64 else Suc (start div 64))"
  by (auto simp: bs_fill_head_def Let_def minus_mod_eq_mult_div)

lemma bs_word_get_fill_head:
  assumes "start div 64 < length d"
  shows "bs_word_get (snd (bs_fill_head (bs_pattern v) start d)) i =
    (if start \<le> i \<and> i < fst (bs_fill_head (bs_pattern v) start d) then v else bs_word_get d i)"
proof (cases "start mod 64 = 0")
  case False
  have "(start \<le> i \<and> i < 64 * Suc (start div 64)) \<longleftrightarrow>
      (i div 64 = start div 64 \<and> start mod 64 \<le> i mod 64)"
    unfolding le_by_words [of start i] less_by_words [of i "64 * Suc (start div 64)"] by auto
  moreover have "snd (bs_fill_head (bs_pattern v) start d) = d[start div 64 := bs_fill_word (bs_pattern v)
      (NOT (push_bit (start mod 64) (- 1))) (push_bit (start mod 64) (- 1)) (d ! (start div 64))]"
    using False by (simp add: bs_fill_head_def Let_def)
  ultimately show ?thesis
    using False bs_word_get_masked [OF assms, of "bs_pattern v" "push_bit (start mod 64) (- 1)" i]
    by (auto simp: fst_bs_fill_head bit_high_mask)
qed (auto simp: bs_fill_head_def)

lemma bs_word_get_fill_bulk:
  assumes "stop div 64 \<le> length d"
  shows "bs_word_get (bs_fill_bulk (bs_pattern v) (64 * k) stop d) i =
    (if 64 * k \<le> i \<and> i < 64 * (stop div 64) then v else bs_word_get d i)"
proof (cases "k < stop div 64")
  case True
  have in_iff: "(64 * k \<le> i \<and> i < 64 * (stop div 64)) \<longleftrightarrow> (k \<le> i div 64 \<and> i div 64 < stop div 64)"
    by (auto simp: le_by_words [of "64 * k" i] less_by_words [of i "64 * (stop div 64)"])
  have nth: "(take k d @ replicate (stop div 64 - k) (bs_pattern v) @ drop (stop div 64) d) ! j =
      (if k \<le> j \<and> j < stop div 64 then bs_pattern v else d ! j)" for j
    using True assms by (auto simp: nth_append min_def)
  show ?thesis
    unfolding in_iff using True by (simp add: bs_fill_bulk_def bs_word_get_def nth Let_def)
qed (auto simp: bs_fill_bulk_def)

lemma bs_word_get_fill_tail:
  assumes "stop mod 64 \<noteq> 0 \<Longrightarrow> stop div 64 < length d"
  shows "bs_word_get (bs_fill_tail (bs_pattern v) stop d) i =
    (if 64 * (stop div 64) \<le> i \<and> i < stop then v else bs_word_get d i)"
proof (cases "stop mod 64 = 0")
  case False
  let ?m = "NOT (push_bit (stop mod 64) (- 1 :: u64))"
  have "(64 * (stop div 64) \<le> i \<and> i < stop) \<longleftrightarrow> (i div 64 = stop div 64 \<and> i mod 64 < stop mod 64)"
    by (auto simp: le_by_words [of "64 * (stop div 64)" i] less_by_words [of i stop])
  with False show ?thesis
    using bs_word_get_masked [of "stop div 64" d "bs_pattern v" ?m i] assms
    by (auto simp: bs_fill_tail_def Let_def bit_high_mask bit_not_iff)
qed (auto simp: bs_fill_tail_def)

lemma bs_wf_words:
  assumes "bs_wf b" and "i < bs_size b" shows "i div 64 < length (bs_data b)"
  using assms by (simp add: bs_wf_def less_mult_imp_div_less mult.commute)

lemma bs_wf_fill: "bs_wf b \<Longrightarrow> bs_wf (bs_fill b v lo hi)"
  by (cases "bs_fill_head (bs_pattern v) lo (bs_data b)")
    (use length_bs_fill_parts(2) [of "bs_pattern v" lo "bs_data b"]
     in \<open>auto simp: bs_wf_def bs_fill_def Let_def div_le_mono min_def\<close>)

lemma bs_size_fill [simp]: "bs_size (bs_fill b v lo hi) = bs_size b"
  by (simp add: bs_fill_def Let_def split: prod.splits)

lemma bs_cap_fill [simp]: "bs_cap (bs_fill b v lo hi) = bs_cap b"
  by (simp add: bs_fill_def Let_def split: prod.splits)

lemma bs_get_fill:
  assumes wf: "bs_wf b"
  shows "bs_get (bs_fill b v lo hi) i =
    (if lo \<le> i \<and> i < hi \<and> i < bs_size b then v else bs_get b i)"
proof -
  define stop where "stop = min hi (bs_size b)"
  let ?d = "bs_data b" and ?p = "bs_pattern v"
  have stop: "(if hi > bs_size b then bs_size b else hi) = stop" by (simp add: stop_def)
  have len: "stop \<le> 64 * length ?d" using wf unfolding bs_wf_def stop_def by linarith
  consider (empty) "stop \<le> lo" | (same) "lo < stop" "lo div 64 = stop div 64"
    | (words) "lo < stop" "lo div 64 \<noteq> stop div 64" by linarith
  then have "i < bs_size b \<Longrightarrow> bs_word_get (bs_data (bs_fill b v lo hi)) i =
      (if lo \<le> i \<and> i < stop then v else bs_word_get ?d i)"
  proof cases
    case empty
    then show ?thesis by (auto simp: bs_fill_def stop)
  next
    case same
    then have "stop mod 64 \<noteq> 0" by (metis div_mult_mod_eq add.right_neutral le_add1 not_less)
    then have "stop div 64 < length ?d" using len by (rule div64_less)
    with same show ?thesis
      by (simp add: bs_fill_def stop bs_word_get_fill_same Let_def)
  next
    case words
    then have lt: "lo div 64 < stop div 64" by (meson div_le_mono le_neq_implies_less less_imp_le_nat)
    let ?s1 = "fst (bs_fill_head ?p lo ?d)" and ?d1 = "snd (bs_fill_head ?p lo ?d)"
    define k where "k = (if lo mod 64 = 0 then lo div 64 else Suc (lo div 64))"
    have s1: "?s1 = 64 * k" by (simp add: fst_bs_fill_head k_def)
    have k: "k \<le> stop div 64" using lt by (auto simp: k_def)
    have sl: "stop div 64 \<le> length ?d" using len by linarith
    have lo1: "lo div 64 < length ?d" using lt sl by linarith
    have "lo \<le> 64 * k" by (auto simp: k_def)
    have "bs_data (bs_fill b v lo hi) = bs_fill_tail ?p stop (bs_fill_bulk ?p (64 * k) stop ?d1)"
      using words s1 by (auto simp: bs_fill_def stop Let_def split: prod.splits)
    moreover have "bs_word_get (bs_fill_tail ?p stop (bs_fill_bulk ?p (64 * k) stop ?d1)) i =
      (if 64 * (stop div 64) \<le> i \<and> i < stop then v
       else if 64 * k \<le> i \<and> i < 64 * (stop div 64) then v
       else if lo \<le> i \<and> i < 64 * k then v else bs_word_get ?d i)"
      using bs_word_get_fill_tail [of stop "bs_fill_bulk ?p (64 * k) stop ?d1" v i]
        bs_word_get_fill_bulk [of stop ?d1 v k i] bs_word_get_fill_head [OF lo1, of v i]
        sl div64_less [OF _ len] by (simp add: s1)
    moreover have "64 * k \<le> 64 * (stop div 64)" "64 * (stop div 64) \<le> stop"
      using k by simp_all
    ultimately show ?thesis
      using \<open>lo \<le> 64 * k\<close> by (simp split: if_split) linarith
  qed
  then show ?thesis by (auto simp: bs_get_def stop_def)
qed

subsection \<open>The search\<close>

lemma bit_of_bool_minus_1:
  "i < 64 \<Longrightarrow> bit ((of_bool v - 1 :: u64) XOR w) i \<longleftrightarrow> bit w i = v"
  by (cases v) (auto simp: bit_xor_iff bit_not_iff)

lemma libc_ffs_half:
  fixes i :: u64 assumes "k < 32" "bit i (n + k)" "\<And>j. j < k \<Longrightarrow> \<not> bit i (n + j)"
  shows "libc_ffs (ucast (drop_bit n i) :: u32) = 1 + k"
proof -
  have b: "bit (ucast (drop_bit n i) :: u32) j \<longleftrightarrow> j < 32 \<and> bit i (n + j)" for j
    by (simp add: bit_ucast_iff bit_drop_bit_eq)
  have "ctz (ucast (drop_bit n i) :: u32) = k"
    by (rule ctz_eqI) (use assms b in auto)
  moreover have "(ucast (drop_bit n i) :: u32) \<noteq> 0" using b [of k] assms by auto
  ultimately show ?thesis by (simp add: libc_ffs_def)
qed

lemma ffs_halves_eq:
  assumes "i \<noteq> 0" shows "ffs_halves i = 1 + ctz i"
proof (cases "ctz i < 32")
  case True
  have "libc_ffs (ucast (drop_bit 0 i) :: u32) = 1 + ctz i"
    by (rule libc_ffs_half) (use True ctz_less [OF assms] in auto)
  then show ?thesis by (simp add: ffs_halves_def)
next
  case False
  have "\<not> bit i j" if "j < 32" for j using False ctz_less(3) [OF assms, of j] that by simp
  then have "(ucast i :: u32) = 0" by (auto simp: bit_eq_iff bit_ucast_iff)
  moreover have "libc_ffs (ucast (drop_bit 32 i) :: u32) = 1 + (ctz i - 32)"
    by (rule libc_ffs_half) (use False ctz_less [OF assms] in auto)
  ultimately show ?thesis using False by (simp add: ffs_halves_def libc_ffs_def)
qed

lemma ctz_drop_bit:
  fixes i :: u64
  assumes "i \<noteq> 0" and "n \<le> ctz i"
  shows "ctz (drop_bit n i) = ctz i - n" and "drop_bit n i \<noteq> 0"
proof -
  show *: "ctz (drop_bit n i) = ctz i - n"
    by (rule ctz_eqI) (use assms ctz_less [OF assms(1)] in \<open>auto simp: bit_drop_bit_eq\<close>)
  have "bit (drop_bit n i) (ctz i - n)"
    using assms ctz_less [OF assms(1)] by (simp add: bit_drop_bit_eq)
  then show "drop_bit n i \<noteq> 0" by auto
qed

lemma ffs_bits_eq: "i \<noteq> 0 \<Longrightarrow> ffs_bits ret i = ret + ctz i"
proof (induction ret i rule: ffs_bits.induct)
  case (1 ret i)
  show ?case
  proof (cases "bit i 0")
    case True
    then have "ctz i = 0" by (rule ctz_eqI) simp
    with True show ?thesis by (simp add: ffs_bits.simps)
  next
    case False
    with 1(2) have "1 \<le> ctz i" using ctz_less(2) [of i] by (cases "ctz i") auto
    with 1 False show ?thesis
      using ctz_drop_bit [of i 1] by (simp add: ffs_bits.simps [of ret i])
  qed
qed

lemma ffs_bytes_eq: "i \<noteq> 0 \<Longrightarrow> ffs_bytes ret i = ret + ctz i"
proof (induction ret i rule: ffs_bytes.induct)
  case (1 ret i)
  show ?case
  proof (cases "take_bit 8 i = 0")
    case True
    have "\<not> bit i j" if "j < 8" for j
      using arg_cong [OF True, of "\<lambda>w. bit w j"] that by (simp add: bit_take_bit_iff)
    with 1(2) have "8 \<le> ctz i" using ctz_less(2) [of i] not_less by blast
    with 1 True show ?thesis
      using ctz_drop_bit [of i 8] by (simp add: ffs_bytes.simps [of ret i])
  next
    case False
    with 1(2) show ?thesis by (simp add: ffs_bytes.simps [of ret i] ffs_bits_eq)
  qed
qed

lemma ffs_minus_1_eq:
  assumes "w \<noteq> 0"
  shows "cfg \<noteq> NO_FFS \<Longrightarrow> ffs_minus_1 cfg w = ctz w"
    and "ffs_minus_1 NO_FFS w = (if ctz w = 0 then NoPos32 else ctz w - 1)"
proof -
  have lt: "ctz w < 64" using ctz_less(1) [OF assms] by simp
  show "cfg \<noteq> NO_FFS \<Longrightarrow> ffs_minus_1 cfg w = ctz w"
    using assms lt by (cases cfg)
      (auto simp: ffs_minus_1_def find_first_set_def libc_ffs_def ffs_halves_eq unat_of_nat)
  have "ffs_minus_1 NO_FFS w = unat ((of_nat (ctz w) :: u32) - 1)"
    using assms by (simp add: ffs_minus_1_def find_first_set_def ffs_bytes_eq)
  also have "\<dots> = (if ctz w = 0 then NoPos32 else ctz w - 1)"
  proof (cases "ctz w")
    case 0
    then show ?thesis by (simp add: NoPos32_def unsigned_minus_1_eq_mask mask_eq_exp_minus_1)
  next
    case (Suc k)
    then have "(of_nat (ctz w) :: u32) - 1 = of_nat k" by simp
    with Suc lt show ?thesis by (simp add: unat_of_nat)
  qed
  finally show "ffs_minus_1 NO_FFS w = (if ctz w = 0 then NoPos32 else ctz w - 1)" .
qed

definition pos64 :: "nat option \<Rightarrow> nat" where
  "pos64 r = (case r of None \<Rightarrow> NoPos64 | Some i \<Rightarrow> i)"

lemma pos64_simps [simp]: "pos64 None = NoPos64" "pos64 (Some i) = i"
  by (simp_all add: pos64_def)

text \<open>One word of the search: \<open>r\<close> is the lowest bit set in the inverted word.\<close>

lemma first_in_word:
  assumes "bits \<noteq> 0" and bits: "\<And>j. j < n \<Longrightarrow> bit bits j \<longleftrightarrow> p (base + j)"
    and "ctz (bits :: u64) < n"
  shows "(if base + ctz bits < stop then base + ctz bits else NoPos64) = pos64 (first_in p base stop)"
proof -
  have p: "p (base + ctz bits)" using bits assms(3) ctz_less(2) [OF assms(1)] by blast
  have np: "\<not> p j" if "base \<le> j" "j < base + ctz bits" for j
    using bits [of "j - base"] ctz_less(3) [OF assms(1), of "j - base"] assms(3) that by auto
  show ?thesis
  proof (cases "base + ctz bits < stop")
    case True
    with p np have "first_in p base stop = Some (base + ctz bits)" by (simp add: first_in_Some_iff)
    with True show ?thesis by simp
  next
    case False
    with np have "first_in p base stop = None" by (auto simp: first_in_None_iff)
    with False show ?thesis by simp
  qed
qed

lemma bs_find_words_eq:
  assumes "cfg \<noteq> NO_FFS" and "64 * k = start"
  shows "bs_find_words cfg d (of_bool v - 1) start stop =
    pos64 (first_in (\<lambda>i. bs_word_get d i = v) start stop)"
  using assms(2)
proof (induction "stop - start" arbitrary: start k rule: less_induct)
  case less
  define bits where "bits = (of_bool v - 1 :: u64) XOR d ! (start div 64)"
  have k: "start div 64 = k" using less(2) by auto
  have bits_iff: "bit bits j \<longleftrightarrow> bs_word_get d (start + j) = v" if "j < 64" for j
    using that less(2) by (auto simp: bits_def bit_of_bool_minus_1 bs_word_get_def)
  have unfold: "bs_find_words cfg d (of_bool v - 1) start stop =
    (if start < stop then
       (if bits \<noteq> 0 then (if start OR ffs_minus_1 cfg bits < stop then start OR ffs_minus_1 cfg bits
                      else NoPos64)
        else bs_find_words cfg d (of_bool v - 1) (start + 64) stop)
     else NoPos64)"
    by (subst bs_find_words.simps) (simp add: bits_def Let_def)
  consider "\<not> start < stop" | (found) "start < stop" "bits \<noteq> 0" | (next_word) "start < stop" "bits = 0"
    by blast
  then show ?case
  proof cases
    case 1
    then show ?thesis by (simp add: unfold first_in_def)
  next
    case found
    have "ctz bits < 64" using ctz_less(1) [OF found(2)] by simp
    moreover from this have "start OR ctz bits = start + ctz bits"
      using or_nat_aligned less(2) by blast
    ultimately show ?thesis
      using found first_in_word [OF found(2), of 64 "\<lambda>i. bs_word_get d i = v" start stop] bits_iff
      by (simp only: unfold ffs_minus_1_eq(1) [OF found(2) assms(1)] if_True not_False_eq_True)
  next
    case next_word
    have "first_in (\<lambda>i. bs_word_get d i = v) start stop =
        first_in (\<lambda>i. bs_word_get d i = v) (start + 64) stop"
    proof (rule first_in_skip)
      fix j assume "start \<le> j" "j < start + 64"
      then show "\<not> (bs_word_get d j = v)"
        using bits_iff [of "j - start"] next_word(2) by simp
    qed simp
    moreover have "64 * (k + 1) = start + 64" using less(2) by simp
    ultimately show ?thesis
      using less(1) [of "start + 64" "k + 1"] next_word by (simp add: unfold)
  qed
qed

text \<open>
  The first fragment is shifted right, which brings zeros in from the left. Searching for a set bit
  that is harmless; searching for a clear bit the zeros look like clear bits, so the claim needs an
  aligned start.
\<close>

lemma bs_find_eq:
  assumes cfg: "cfg \<noteq> NO_FFS" and v: "v \<or> lo mod 64 = 0"
  shows "bs_find cfg b v lo hi =
    pos64 (first_in (\<lambda>i. bs_word_get (bs_data b) i = v) lo (min hi (bs_size b)))"
proof -
  define stop where "stop = min hi (bs_size b)"
  let ?p = "\<lambda>i. bs_word_get (bs_data b) i = v"
  define w where "w = bs_data b ! (lo div 64)"
  define bits where "bits = (of_bool v - 1) XOR drop_bit (lo mod 64) w"
  have stop: "(if hi > bs_size b then bs_size b else hi) = stop" by (simp add: stop_def)
  have wg: "?p (lo + j) \<longleftrightarrow> bit w (lo mod 64 + j) = v" if "j < 64 - lo mod 64" for j
  proof -
    have "lo mod 64 + j < 64" using that by simp
    note div_mod_64_add [OF this]
    then show ?thesis by (simp add: bs_word_get_def w_def)
  qed
  have bits_iff: "bit bits j \<longleftrightarrow> bit w (lo mod 64 + j) = v" if "j < 64" for j
    using that by (simp add: bits_def bit_of_bool_minus_1 bit_drop_bit_eq)
  have high: "\<not> bit bits j" if "64 - lo mod 64 \<le> j" "j < 64" for j
    using bits_iff [OF that(2)] that v by (auto dest: bit_imp_le_length)
  show ?thesis
  proof (cases "lo < stop")
    case False
    then show ?thesis by (simp add: bs_find_def Let_def stop flip: stop_def) (simp add: first_in_def)
  next
    case lt: True
    show ?thesis
    proof (cases "bits = 0")
      case False
      have "ctz bits < 64 - lo mod 64"
        using high [of "ctz bits"] ctz_less(1,2) [OF False] by fastforce
      then show ?thesis
        using first_in_word [OF False, of "64 - lo mod 64" ?p lo stop] bits_iff wg lt False
        by (simp add: bs_find_def Let_def stop ffs_minus_1_eq cfg flip: stop_def bits_def w_def)
    next
      case True
      have "first_in ?p lo stop = first_in ?p (64 * Suc (lo div 64)) stop"
      proof (rule first_in_skip)
        fix j assume j: "lo \<le> j" "j < 64 * Suc (lo div 64)"
        then have "j < 64 * (lo div 64) + 64" by simp
        then have "j - lo < 64 - lo mod 64" using j(1) mult_div_mod_eq [of 64 lo] by linarith
        then show "\<not> ?p j"
          using wg [of "j - lo"] bits_iff [of "j - lo"] True j by simp
      qed (simp add: dividend_less_times_div less_imp_le)
      then show ?thesis
        using bs_find_words_eq [OF cfg, of "Suc (lo div 64)" _ "bs_data b" v stop] lt True
        by (simp add: bs_find_def Let_def stop mult.commute flip: stop_def bits_def w_def)
    qed
  qed
qed

subsection \<open>Growth\<close>

lemma bs_word_get_append:
  assumes "i < 64 * (length d + m)"
  shows "bs_word_get (d @ replicate m 0) i = (i div 64 < length d \<and> bs_word_get d i)"
proof -
  have "i div 64 < length d + m" using assms by (simp add: less_mult_imp_div_less mult.commute)
  then show ?thesis by (auto simp: bs_word_get_def nth_append)
qed

lemma bs_realloc_success:
  assumes "bs_wf b" and "fst (bs_realloc ok newcap b)"
  shows "bs_wf (snd (bs_realloc ok newcap b))" and "newcap \<le> bs_cap (snd (bs_realloc ok newcap b))"
    and "bs_size (snd (bs_realloc ok newcap b)) = bs_size b"
    and "i < bs_cap (snd (bs_realloc ok newcap b)) \<Longrightarrow>
      bs_word_get (bs_data (snd (bs_realloc ok newcap b))) i = (i < bs_cap b \<and> bs_word_get (bs_data b) i)"
proof -
  let ?n = "(newcap + 63) div 64" and ?l = "length (bs_data b)"
  have cap: "(bs_cap b + 63) div 64 = ?l" and cap': "bs_cap b = 64 * ?l"
    using assms(1) by (auto simp: bs_wf_def)
  have n: "newcap \<le> 64 * ?n" by (rule le_words_needed)
  have eq: "snd (bs_realloc ok newcap b) =
      (if ?n > ?l then b\<lparr>bs_data := bs_data b @ replicate (?n - ?l) 0, bs_cap := ?n * 64\<rparr> else b)"
    using assms(2) cap cap' by (auto simp: bs_realloc_def Let_def split: if_splits)
  show "bs_wf (snd (bs_realloc ok newcap b))"
    using assms(1) unfolding eq by (auto simp: bs_wf_def)
  show "newcap \<le> bs_cap (snd (bs_realloc ok newcap b))" using n cap' unfolding eq by auto
  show "bs_size (snd (bs_realloc ok newcap b)) = bs_size b" unfolding eq by auto
  show "i < bs_cap (snd (bs_realloc ok newcap b)) \<Longrightarrow>
      bs_word_get (bs_data (snd (bs_realloc ok newcap b))) i = (i < bs_cap b \<and> bs_word_get (bs_data b) i)"
    unfolding eq using cap' bs_word_get_append [of i "bs_data b" "?n - ?l"]
    by (auto simp: less_mult_imp_div_less mult.commute div_less_iff_less_mult split: if_splits)
qed

lemma bs_realloc_failure: "\<not> fst (bs_realloc ok newcap b) \<Longrightarrow> snd (bs_realloc ok newcap b) = b"
  by (auto simp: bs_realloc_def Let_def split: if_splits)

lemma bs_grow_cap_eq:
  obtains m where "n \<le> m" "bs_grow_cap ok n b = bs_realloc ok m b"
proof
  let ?cap2 = "if bs_cap b \<ge> 64 then bs_cap b * 2 else 64"
  show "n \<le> (if n \<ge> ?cap2 then n else ?cap2)" by auto
  show "bs_grow_cap ok n b = bs_realloc ok (if n \<ge> ?cap2 then n else ?cap2) b"
    by (simp add: bs_grow_cap_def Let_def)
qed

lemma bs_get_resize:
  assumes wf: "bs_wf b" and good: "fst (bs_resize ok n b)"
  shows "bs_wf (snd (bs_resize ok n b))" and "bs_size (snd (bs_resize ok n b)) = n"
    and "bs_get (snd (bs_resize ok n b)) i = (i < n \<and> bs_get b i)"
proof -
  let ?r = "snd (bs_resize ok n b)"
  have "bs_wf ?r \<and> bs_size ?r = n \<and> (bs_get ?r i \<longleftrightarrow> i < n \<and> bs_get b i)"
  proof (cases "bs_size b \<ge> n")
    case True
    with wf show ?thesis by (auto simp: bs_resize_def bs_wf_def bs_get_def)
  next
    case less: False
    define b1 where "b1 = (if bs_cap b < n then snd (bs_grow_cap ok n b) else b)"
    have fst1: "bs_cap b < n \<Longrightarrow> fst (bs_grow_cap ok n b)"
      using good less by (auto simp: bs_resize_def bs_grow_def Let_def split: prod.splits if_splits)
    obtain m where m: "n \<le> m" "bs_grow_cap ok n b = bs_realloc ok m b"
      by (rule bs_grow_cap_eq)
    have b1: "bs_wf b1" "n \<le> bs_cap b1" "bs_size b1 = bs_size b"
      "i < bs_cap b1 \<Longrightarrow> bs_word_get (bs_data b1) i = (i < bs_cap b \<and> bs_word_get (bs_data b) i)"
      using bs_realloc_success [OF wf, of ok m] fst1 wf m
      by (auto simp: b1_def)
    let ?b2 = "b1\<lparr>bs_size := n\<rparr>"
    have r: "?r = (if bs_size b < min n (bs_cap b) then bs_fill ?b2 False (bs_size b) (min n (bs_cap b)) else ?b2)"
      using less fst1 b1(3)
      by (auto simp: bs_resize_def bs_grow_def Let_def b1_def split: prod.splits)
    have wf2: "bs_wf ?b2" using b1 by (simp add: bs_wf_def)
    have g2: "bs_get ?b2 i \<longleftrightarrow> i < n \<and> i < bs_cap b \<and> bs_word_get (bs_data b) i"
      using b1(2,4) by (auto simp: bs_get_def)
    have gb: "bs_get b i \<longleftrightarrow> i < bs_size b \<and> bs_word_get (bs_data b) i"
      by (simp add: bs_get_def)
    have "bs_size b \<le> bs_cap b" using wf by (simp add: bs_wf_def)
    then have "bs_get ?r i \<longleftrightarrow> i < n \<and> bs_get b i"
      unfolding r using less by (auto simp: bs_get_fill [OF wf2] g2 gb split: if_splits)
    moreover have "bs_wf ?r \<and> bs_size ?r = n"
      unfolding r using bs_wf_fill [OF wf2] wf2 by auto
    ultimately show ?thesis by blast
  qed
  then show "bs_wf ?r" "bs_size ?r = n" "bs_get ?r i = (i < n \<and> bs_get b i)" by auto
qed

lemma bs_resize_failure:
  assumes "\<not> fst (bs_resize ok n b)" shows "snd (bs_resize ok n b) = b"
proof -
  obtain m where m: "bs_grow_cap ok n b = bs_realloc ok m b" by (rule bs_grow_cap_eq)
  show ?thesis
    using assms bs_realloc_failure [of ok m b] m
    by (auto simp: bs_resize_def bs_grow_def Let_def split: prod.splits if_splits)
qed

lemma bs_init_success:
  assumes "fst (bs_init ok n)"
  shows "bs_wf (snd (bs_init ok n))" and "bs_size (snd (bs_init ok n)) = n"
    and "\<not> bs_get (snd (bs_init ok n)) i"
proof -
  from assms show "bs_wf (snd (bs_init ok n))" "bs_size (snd (bs_init ok n)) = n"
    using le_words_needed [of n]
    by (auto simp: bs_init_def bs_wf_def Let_def mult.commute split: if_splits)
  from assms show "\<not> bs_get (snd (bs_init ok n)) i"
    by (auto dest: div64_words_needed simp: bs_init_def bs_get_def bs_word_get_def Let_def split: if_splits)
qed

lemma bs_get_copy:
  assumes "bs_wf b" "bs_wf src" "bs_size src = bs_size b"
  obtains b' where "bs_copy b src = Some b'" "bs_wf b'" "bs_size b' = bs_size b"
    "bs_get b' = bs_get src"
proof
  let ?n = "(bs_size b + 63) div 64"
  let ?b' = "b\<lparr>bs_data := take ?n (bs_data src) @ drop ?n (bs_data b)\<rparr>"
  have len: "?n \<le> length (bs_data src)" "?n \<le> length (bs_data b)"
    using assms by (auto simp: bs_wf_def intro!: words_needed_le)
  show "bs_copy b src = Some ?b'" using assms(3) by (simp add: bs_copy_def Let_def)
  show "bs_wf ?b'" using assms(1) len by (simp add: bs_wf_def)
  show "bs_size ?b' = bs_size b" by simp
  have "i div 64 < ?n" if "i < bs_size b" for i
    using that by (rule div64_words_needed)
  with len assms(3) show "bs_get ?b' = bs_get src"
    by (auto simp: fun_eq_iff bs_get_def bs_word_get_def nth_append)
qed

subsection \<open>The interface of a bit vector\<close>

text \<open>
  What the graph and the register allocator rely on. The search for the lowest free position, which
  the allocator performs for every register, is proved once from the laws.
\<close>

locale bit_vector =
  fixes get :: "'v \<Rightarrow> nat \<Rightarrow> bool" and set_bit :: "'v \<Rightarrow> nat \<Rightarrow> bool \<Rightarrow> 'v"
    and fill_all :: "'v \<Rightarrow> bool \<Rightarrow> 'v" and find_true :: "'v \<Rightarrow> nat" and len :: "'v \<Rightarrow> nat"
    and invar :: "'v \<Rightarrow> bool"
  assumes get_set: "invar v \<Longrightarrow> get (set_bit v i x) j = (if j = i \<and> i < len v then x else get v j)"
    and get_fill: "invar v \<Longrightarrow> get (fill_all v x) i = (x \<and> i < len v)"
    and find_true: "invar v \<Longrightarrow> find_true v = pos64 (first_in (get v) 0 (len v))"
    and len_set [simp]: "len (set_bit v i x) = len v"
    and len_fill [simp]: "len (fill_all v x) = len v"
    and invar_set [simp]: "invar v \<Longrightarrow> invar (set_bit v i x)"
    and invar_fill [simp]: "invar v \<Longrightarrow> invar (fill_all v x)"
begin

definition clear_all :: "nat list \<Rightarrow> 'v \<Rightarrow> 'v" where
  "clear_all cs v = fold (\<lambda>c v. set_bit v c False) cs v"

lemma clear_all_invar [simp]: "invar v \<Longrightarrow> invar (clear_all cs v)"
  and clear_all_len [simp]: "len (clear_all cs v) = len v"
  unfolding clear_all_def by (induction cs arbitrary: v) auto

lemma get_clear_all: "invar v \<Longrightarrow> get (clear_all cs v) i = (get v i \<and> (i \<in> set cs \<longrightarrow> len v \<le> i))"
  unfolding clear_all_def by (induction cs arbitrary: v) (auto simp: get_set)

lemma find_lowest_free:
  assumes "invar v"
  shows "find_true (clear_all cs (fill_all v True)) = pos64 (first_in (\<lambda>c. c \<notin> set cs) 0 (len v))"
proof -
  have "first_in (get (clear_all cs (fill_all v True))) 0 (len v) = first_in (\<lambda>c. c \<notin> set cs) 0 (len v)"
    by (rule first_in_cong) (use assms in \<open>auto simp: get_clear_all get_fill\<close>)
  then show ?thesis using assms by (simp add: find_true)
qed

end

interpretation bsv: bit_vector bs_get bs_set "\<lambda>b v. bs_fill b v 0 NoPos64"
    "\<lambda>b. bs_find cfg b True 0 NoPos64" bs_size "\<lambda>b. bs_wf b \<and> bs_size b \<le> NoPos64 \<and> cfg \<noteq> NO_FFS"
  for cfg
proof unfold_locales
  fix b i x j
  assume inv: "bs_wf b \<and> bs_size b \<le> NoPos64 \<and> cfg \<noteq> NO_FFS"
  then show "bs_get (bs_set b i x) j = (if j = i \<and> i < bs_size b then x else bs_get b j)"
    and "bs_wf (bs_set b i x) \<and> bs_size (bs_set b i x) \<le> NoPos64 \<and> cfg \<noteq> NO_FFS"
    and "bs_wf (bs_fill b x 0 NoPos64) \<and> bs_size (bs_fill b x 0 NoPos64) \<le> NoPos64 \<and> cfg \<noteq> NO_FFS"
    by (simp_all add: bs_get_set bs_wf_set bs_wf_fill)
  show "bs_get (bs_fill b x 0 NoPos64) i = (x \<and> i < bs_size b)"
    using inv by (auto simp: bs_get_fill bs_get_beyond)
  have "first_in (\<lambda>i. bs_word_get (bs_data b) i = True) 0 (bs_size b) = first_in (bs_get b) 0 (bs_size b)"
    by (rule first_in_cong) (simp add: bs_get_def)
  then show "bs_find cfg b True 0 NoPos64 = pos64 (first_in (bs_get b) 0 (bs_size b))"
    using inv by (simp add: bs_find_eq min_absorb2)
qed auto

declare bsv.invar_set [simp del] bsv.invar_fill [simp del] bsv.clear_all_invar [simp del]

subsection \<open>Properties\<close>

definition bs_sample :: "nat \<Rightarrow> bitset" where
  "bs_sample n = bs_fill (snd (bs_init (\<lambda>_. True) n)) True 0 n"

lemma bs_sample_wf [simp]: "bs_wf (bs_sample n)" "bs_size (bs_sample n) = n"
  and bs_get_sample [simp]: "bs_get (bs_sample n) i \<longleftrightarrow> i < n"
proof -
  have ok: "fst (bs_init (\<lambda>_. True) n)" by (simp add: bs_init_def Let_def)
  note i = bs_init_success [OF ok]
  show "bs_wf (bs_sample n)" "bs_size (bs_sample n) = n" "bs_get (bs_sample n) i \<longleftrightarrow> i < n"
    using i by (auto simp: bs_sample_def bs_wf_fill bs_get_fill)
qed

text \<open>C14: with a find-first-set primitive of the C library, searching a bitset for a set bit returns
  the first one of the interval, clipped to the size, or the largest position when there is none.\<close>

theorem bitset_find_set_bit:
  assumes "cfg \<noteq> NO_FFS"
  shows "bs_find cfg b True lo hi = pos64 (first_in (bs_get b) lo (min hi (bs_size b)))"
proof -
  have "first_in (\<lambda>i. bs_word_get (bs_data b) i = True) lo (min hi (bs_size b)) =
      first_in (bs_get b) lo (min hi (bs_size b))"
    by (rule first_in_cong) (simp add: bs_get_def)
  then show ?thesis using bs_find_eq [OF assms, of True] by simp
qed

lemma bitset_find_set_bit_witness:
  "bs_find HAVE_FFS (bs_sample 100) True 70 90 = pos64 (first_in (bs_get (bs_sample 100)) 70 (min 90 100))"
  using bitset_find_set_bit [of HAVE_FFS "bs_sample 100" 70 90] by simp

text \<open>Searching for a clear bit from a position that is not the first of a word is wrong: in a
  bitset with all its 128 bits set, the search from position 1 answers 64, the first position of the
  next word, which is set.\<close>

theorem bitset_find_clear_bit_unaligned:
  "bs_find HAVE_FFSL (snd (bs_init (\<lambda>_. True) 128)\<lparr>bs_data := [- 1, - 1]\<rparr>) False 1 128 = 64 \<and>
   bs_get (snd (bs_init (\<lambda>_. True) 128)\<lparr>bs_data := [- 1, - 1]\<rparr>) 64"
proof
  show "bs_get (snd (bs_init (\<lambda>_. True) 128)\<lparr>bs_data := [- 1, - 1]\<rparr>) 64"
    by (simp add: bs_init_def Let_def bs_get_def bs_word_get_def)
  show "bs_find HAVE_FFSL (snd (bs_init (\<lambda>_. True) 128)\<lparr>bs_data := [- 1, - 1]\<rparr>) False 1 128 = 64"
  proof -
    have b: "bit (NOT (mask 63) :: u64) 63" and c: "ctz (NOT (mask 63) :: u64) = 63"
      by (simp add: bit_simps, rule ctz_eqI) (auto simp: bit_simps)
    then have "(NOT (mask 63) :: u64) \<noteq> 0" by (metis bit_0_eq bot_apply bot_bool_def)
    with c show ?thesis
      unfolding bs_init_def bs_find_def Let_def
      by (simp add: bs_find_words.simps Let_def ffs_minus_1_def find_first_set_def libc_ffs_def)
  qed
qed

text \<open>The fallback used without a find-first-set primitive counts from 0 where the other two
  count from 1: the position it finds in a word is one less than the lowest bit set, and wraps
  around when that is bit 0.\<close>

lemma find_first_set_configurations:
  assumes "w \<noteq> 0"
  shows "ffs_minus_1 HAVE_FFSL w = ctz w \<and> ffs_minus_1 HAVE_FFS w = ctz w \<and>
    ffs_minus_1 NO_FFS w = (if ctz w = 0 then NoPos32 else ctz w - 1)"
  using ffs_minus_1_eq [OF assms] by simp

lemma find_first_set_configurations_witness:
  "ffs_minus_1 HAVE_FFSL 8 = ctz (8 :: u64) \<and> ffs_minus_1 HAVE_FFS 8 = ctz (8 :: u64) \<and>
    ffs_minus_1 NO_FFS 8 = (if ctz (8 :: u64) = 0 then NoPos32 else ctz (8 :: u64) - 1)"
  using find_first_set_configurations [of 8] by simp

text \<open>C15: a fill writes exactly the bits of the interval that are inside the bitset.\<close>

theorem bitset_fill:
  assumes "bs_wf b"
  shows "bs_wf (bs_fill b v lo hi) \<and> bs_size (bs_fill b v lo hi) = bs_size b \<and>
    (\<forall>i. bs_get (bs_fill b v lo hi) i = (if lo \<le> i \<and> i < min hi (bs_size b) then v else bs_get b i))"
  using assms by (simp add: bs_wf_fill bs_get_fill)

lemma bitset_fill_witness:
  "\<forall>i. bs_get (bs_fill (bs_sample 200) False 3 140) i = (if 3 \<le> i \<and> i < min 140 200 then False else i < 200)"
  using bitset_fill [of "bs_sample 200" False 3 140] by simp



end
