(* ===== verification/Graph.thy ===== *)
theory Graph imports Bitset begin

text \<open>
  \<open>Graph\<close> of \<open>src/onestl/graph.hpp\<close> and \<open>graph.cpp\<close>: an undirected dense graph, stored as a
  square bit matrix and the array of the nodes' degrees. A self-connection counts twice in the
  degree. Nodes are natural numbers (\<open>uint32_t\<close> in the code), degrees are 32-bit words.

  \<open>graph_edge\<close> reads the matrix as a relation; it is the abstraction the operations are specified
  by. \<open>graph_wf\<close> is the representation invariant: symmetric matrix, degrees that count the edges.
\<close>

record graph =
  g_bits :: bitset
  g_degree :: "u32 arr"

definition graph_size :: "graph \<Rightarrow> nat" where
  "graph_size g = length (elems (g_degree g))"

definition graph_new :: "(nat \<Rightarrow> bool) \<Rightarrow> (nat \<Rightarrow> bool) \<Rightarrow> nat \<Rightarrow> graph" where
  "graph_new okb okd n = \<lparr>g_bits = snd (bs_init okb (n * n)), g_degree = snd (arr_init 0 okd n)\<rparr>"

text \<open>Reset to \<open>newn\<close> nodes and no edge; on a failed allocation the old size is restored.\<close>

definition graph_reset :: "(nat \<Rightarrow> bool) \<Rightarrow> (nat \<Rightarrow> bool) \<Rightarrow> nat \<Rightarrow> graph \<Rightarrow> bool \<times> graph" where
  "graph_reset okb okd newn g =
     (let oldn = graph_size g;
          (good1, deg) = arr_resize 0 okd newn (g_degree g)
      in if good1 then
           (let (good2, bits) = bs_resize okb (newn * newn) (g_bits g)
            in if good2 then
                 (True, \<lparr>g_bits = bs_fill bits False 0 NoPos64,
                         g_degree = deg\<lparr>elems := replicate newn 0\<rparr>\<rparr>)
               else (False, \<lparr>g_bits = bits, g_degree = snd (arr_resize 0 okd oldn deg)\<rparr>))
         else (False, g\<lparr>g_degree := deg\<rparr>))"

text \<open>\<open>operator()\<close>: the offset is computed in \<open>uint32_t\<close>.\<close>

definition graph_get :: "graph \<Rightarrow> nat \<Rightarrow> nat \<Rightarrow> bool" where
  "graph_get g a0 b0 =
     (let (a, b) = (if a0 < b0 then (b0, a0) else (a0, b0));
          n = graph_size g
      in if a \<ge> n then False else bs_get (g_bits g) ((a + b * n) mod 2 ^ 32))"

definition graph_set :: "graph \<Rightarrow> nat \<Rightarrow> nat \<Rightarrow> bool \<Rightarrow> graph" where
  "graph_set g a0 b0 v =
     (let (a, b) = (if a0 < b0 then (b0, a0) else (a0, b0));
          n = graph_size g
      in if a < n then
           (let offset = a + b * n;
                prev = bs_get (g_bits g) offset;
                delta = (of_bool v - of_bool prev :: u32)
            in if delta \<noteq> 0 then
                 (let deg1 = (elems (g_degree g))[a := elems (g_degree g) ! a + delta];
                      deg2 = deg1[b := deg1 ! b + delta];
                      bits1 = bs_set (g_bits g) offset v;
                      bits2 = (if a \<noteq> b then bs_set bits1 (b + a * n) v else bits1)
                  in \<lparr>g_bits = bits2, g_degree = (g_degree g)\<lparr>elems := deg2\<rparr>\<rparr>)
               else g)
         else g)"

definition graph_degree :: "graph \<Rightarrow> nat \<Rightarrow> u32" where
  "graph_degree g node = view_get 0 (elems (g_degree g)) node"

definition graph_first_set :: "ffs_config \<Rightarrow> graph \<Rightarrow> nat \<Rightarrow> nat \<Rightarrow> nat" where
  "graph_first_set cfg g node first_neighbor =
     (let n = graph_size g
      in if first_neighbor \<ge> n \<or> graph_degree g node = 0 then NoPos32
         else let y_offset = node * n;
                  offset = bs_find cfg (g_bits g) True (y_offset + first_neighbor) (y_offset + n)
              in if offset \<noteq> NoPos64 then offset - y_offset else NoPos32)"

text \<open>The loop of \<open>remove\<close>; the first argument is the counter \<open>deg\<close>.\<close>

fun graph_remove_loop :: "nat \<Rightarrow> ffs_config \<Rightarrow> nat \<Rightarrow> nat \<Rightarrow> graph \<Rightarrow> graph" where
  "graph_remove_loop 0 cfg node other g = g"
| "graph_remove_loop (Suc deg) cfg node other g =
     (let other1 = graph_first_set cfg g node other
      in if other1 \<noteq> NoPos32
         then graph_remove_loop deg cfg node (Suc other1) (graph_set g node other1 False)
         else g)"

definition graph_remove :: "ffs_config \<Rightarrow> graph \<Rightarrow> nat \<Rightarrow> graph" where
  "graph_remove cfg g node = graph_remove_loop (unat (graph_degree g node)) cfg node 0 g"

text \<open>\<open>dup\<close>: \<open>BitSet::copy\<close> throws on different sizes, which cannot happen after the reset.\<close>

definition graph_dup :: "(nat \<Rightarrow> bool) \<Rightarrow> (nat \<Rightarrow> bool) \<Rightarrow> graph \<Rightarrow> graph \<Rightarrow> (bool \<times> graph) option" where
  "graph_dup okb okd g other =
     (let (good, g1) = graph_reset okb okd (graph_size other) g
      in if \<not> good then Some (False, g1)
         else case bs_copy (g_bits g1) (g_bits other) of
                None \<Rightarrow> None
              | Some bits \<Rightarrow>
                  Some (True, \<lparr>g_bits = bits,
                    g_degree = (g_degree g1)\<lparr>elems := span_copy (elems (g_degree g1)) (elems (g_degree other))\<rparr>\<rparr>))"

subsection \<open>The relation and the invariant\<close>

definition graph_edge :: "graph \<Rightarrow> nat \<Rightarrow> nat \<Rightarrow> bool" where
  "graph_edge g a b \<longleftrightarrow>
     a < graph_size g \<and> b < graph_size g \<and> bs_get (g_bits g) (a * graph_size g + b)"

definition edge_weight :: "nat \<Rightarrow> nat \<Rightarrow> nat" where
  "edge_weight a b = (if a = b then 2 else 1)"

definition graph_count :: "graph \<Rightarrow> nat \<Rightarrow> nat" where
  "graph_count g a = (\<Sum>b<graph_size g. of_bool (graph_edge g a b) * edge_weight a b)"

definition graph_wf :: "graph \<Rightarrow> bool" where
  "graph_wf g \<longleftrightarrow>
     bs_wf (g_bits g) \<and> bs_size (g_bits g) = graph_size g * graph_size g \<and>
     graph_size g < NoPos32 \<and> arr_ok (g_degree g) \<and>
     (\<forall>a<graph_size g. \<forall>b<graph_size g. graph_edge g a b = graph_edge g b a) \<and>
     (\<forall>a<graph_size g. elems (g_degree g) ! a = of_nat (graph_count g a))"

lemma graph_edge_sym: "graph_wf g \<Longrightarrow> graph_edge g a b = graph_edge g b a"
  unfolding graph_wf_def by (metis graph_edge_def)

lemma graph_edge_bound: "graph_edge g a b \<Longrightarrow> a < graph_size g \<and> b < graph_size g"
  by (simp add: graph_edge_def)

lemma square_position:
  assumes "b < n" "d < (n::nat)"
  shows "a * n + b = c * n + d \<longleftrightarrow> a = c \<and> b = d"
proof
  assume eq: "a * n + b = c * n + d"
  have "(a * n + b) div n = a" "(c * n + d) div n = c" using assms by auto
  with eq have "a = c" by simp
  with eq show "a = c \<and> b = d" by simp
qed simp

lemma square_less:
  assumes "a < n" "b < (n::nat)" shows "a * n + b < n * n"
proof -
  have "a * n + b < Suc a * n" using assms(2) by simp
  also have "\<dots> \<le> n * n" using assms(1) by (intro mult_le_mono1) simp
  finally show ?thesis .
qed

lemma graph_size_set [simp]: "graph_size (graph_set g a b v) = graph_size g"
  by (simp add: graph_set_def graph_size_def Let_def)

lemma graph_count_bound: "graph_count g a \<le> graph_size g + 1"
proof -
  have "graph_count g a \<le> (\<Sum>b<graph_size g. edge_weight a b)"
    unfolding graph_count_def by (rule sum_mono) simp
  also have "\<dots> = (\<Sum>b<graph_size g. 1) + (\<Sum>b<graph_size g. if a = b then 1 else 0)"
    unfolding sum.distrib [symmetric] by (rule sum.cong) (auto simp: edge_weight_def)
  also have "\<dots> \<le> graph_size g + 1" by simp
  finally show ?thesis .
qed

lemma graph_count_0_iff: "graph_count g a = 0 \<longleftrightarrow> (\<forall>b. \<not> graph_edge g a b)"
  by (auto simp: graph_count_def edge_weight_def graph_edge_def)

lemma unat_graph_degree:
  assumes "graph_wf g" "a < graph_size g"
  shows "unat (graph_degree g a) = graph_count g a"
proof -
  have "graph_count g a < 2 ^ 32"
    using graph_count_bound [of g a] assms(1) by (simp add: graph_wf_def NoPos32_def)
  then show ?thesis
    using assms by (simp add: graph_degree_def graph_wf_def graph_size_def unat_of_nat)
qed

lemma graph_degree_0_iff:
  assumes "graph_wf g" shows "graph_degree g a = 0 \<longleftrightarrow> (\<forall>b. \<not> graph_edge g a b)"
proof (cases "a < graph_size g")
  case True
  then show ?thesis
    using unat_graph_degree [OF assms True] graph_count_0_iff by (metis unat_0 unat_eq_zero)
qed (auto simp: graph_degree_def graph_size_def dest!: graph_edge_bound)

subsection \<open>set\<close>

lemma graph_edge_set:
  assumes wf: "graph_wf g"
  shows "graph_edge (graph_set g a b v) x y =
    (if {x, y} = {a, b} \<and> a < graph_size g \<and> b < graph_size g then v else graph_edge g x y)"
proof -
  define p where "p = max a b"
  define q where "q = min a b"
  have pq: "(if a < b then (b, a) else (a, b)) = (p, q)" "{a, b} = {p, q}" "q \<le> p"
    "(a < graph_size g \<and> b < graph_size g) = (p < graph_size g)"
    by (auto simp: p_def q_def)
  let ?n = "graph_size g"
  have bw: "bs_wf (g_bits g)" "bs_size (g_bits g) = ?n * ?n" using wf by (auto simp: graph_wf_def)
  show ?thesis
  proof (cases "x < ?n \<and> y < ?n \<and> p < ?n")
    case False
    show ?thesis
    proof (cases "p < ?n")
      case p: True
      with False have "\<not> (x < ?n \<and> y < ?n)" by blast
      moreover from this have "{x, y} \<noteq> {a, b}" using pq(2,3) p by (auto simp: doubleton_eq_iff)
      ultimately show ?thesis by (auto simp: graph_edge_def)
    next
      case p: False
      then have "graph_set g a b v = g" by (simp add: graph_set_def pq(1) Let_def)
      then show ?thesis using p pq(4) by auto
    qed
  next
    case True
    then have q: "q < ?n" using pq(3) by simp
    have off: "p + q * ?n < ?n * ?n" "q + p * ?n < ?n * ?n"
      using square_less [of q ?n p] square_less [of p ?n q] True q by (auto simp: add.commute)
    have pos: "x * ?n + y = p + q * ?n \<longleftrightarrow> x = q \<and> y = p" "x * ?n + y = q + p * ?n \<longleftrightarrow> x = p \<and> y = q"
      using square_position [of y ?n p x q] square_position [of y ?n q x p] True q by (auto simp: add.commute)
    have sym: "graph_edge g q p = graph_edge g p q" using wf by (rule graph_edge_sym)
    have prev: "bs_get (g_bits g) (p + q * ?n) = graph_edge g q p"
      using True q by (simp add: graph_edge_def add.commute)
    show ?thesis
    proof (cases "v = graph_edge g q p")
      case same: True
      then have "graph_set g a b v = g" using prev by (simp add: graph_set_def pq(1) Let_def)
      then show ?thesis using same sym pq(2) by (auto simp: doubleton_eq_iff)
    next
      case False
      then have delta: "(of_bool v - of_bool (graph_edge g q p) :: u32) \<noteq> 0" by auto
      have bits: "g_bits (graph_set g a b v) = (if p \<noteq> q then bs_set (bs_set (g_bits g) (p + q * ?n) v) (q + p * ?n) v
          else bs_set (g_bits g) (p + q * ?n) v)"
        using True delta prev by (simp add: graph_set_def pq(1) Let_def)
      have "bs_get (g_bits (graph_set g a b v)) (x * ?n + y) =
          (if (x = q \<and> y = p) \<or> (x = p \<and> y = q) then v else bs_get (g_bits g) (x * ?n + y))"
        unfolding bits using bw off pos by (auto simp: bs_get_set bs_wf_set)
      moreover have "({x, y} = {a, b}) = ((x = q \<and> y = p) \<or> (x = p \<and> y = q))"
        unfolding pq(2) by (auto simp: doubleton_eq_iff)
      moreover have "graph_edge h x y = bs_get (g_bits h) (x * ?n + y)" if "graph_size h = ?n" for h
        using True that by (simp add: graph_edge_def)
      ultimately show ?thesis using True pq(4) by simp
    qed
  qed
qed

lemma of_nat_graph_count_update:
  assumes "b < graph_size g" "graph_size g' = graph_size g"
    and "\<And>y. y \<noteq> b \<Longrightarrow> graph_edge g' a y = graph_edge g a y"
  shows "(of_nat (graph_count g' a) :: u32) = of_nat (graph_count g a) +
     (of_bool (graph_edge g' a b) - of_bool (graph_edge g a b)) * of_nat (edge_weight a b)"
proof -
  let ?f = "\<lambda>g y. of_bool (graph_edge g a y) * edge_weight a y"
  have "graph_count g' a = ?f g' b + (\<Sum>y\<in>{..<graph_size g} - {b}. ?f g' y)"
    unfolding graph_count_def assms(2) by (rule sum.remove) (use assms(1) in auto)
  moreover have "graph_count g a = ?f g b + (\<Sum>y\<in>{..<graph_size g} - {b}. ?f g y)"
    unfolding graph_count_def by (rule sum.remove) (use assms(1) in auto)
  moreover have "(\<Sum>y\<in>{..<graph_size g} - {b}. ?f g' y) = (\<Sum>y\<in>{..<graph_size g} - {b}. ?f g y)"
    by (rule sum.cong) (use assms(3) in auto)
  ultimately show ?thesis by (auto simp: algebra_simps)
qed

lemma graph_wf_set:
  assumes wf: "graph_wf g"
  shows "graph_wf (graph_set g a b v)"
proof -
  let ?g = "graph_set g a b v" and ?n = "graph_size g"
  define p where "p = max a b"
  define q where "q = min a b"
  have pq: "(if a < b then (b, a) else (a, b)) = (p, q)" "{a, b} = {p, q}" "q \<le> p"
    by (auto simp: p_def q_def)
  have edge: "graph_edge ?g x y = (if {x, y} = {p, q} \<and> p < ?n then v else graph_edge g x y)" for x y
    using graph_edge_set [OF wf, of a b v x y] pq by (auto simp: p_def)
  have count: "(of_nat (graph_count ?g x) :: u32) = elems (g_degree ?g) ! x" if x: "x < ?n" for x
  proof (cases "p < ?n \<and> v \<noteq> graph_edge g q p")
    case False
    then have "?g = g"
      using wf by (auto simp: graph_set_def pq(1) Let_def graph_edge_def graph_wf_def add.commute
          intro: le_less_trans [OF pq(3)])
    then show ?thesis using wf x by (simp add: graph_wf_def)
  next
    case True
    then have q: "q < ?n" using pq(3) by simp
    have deg: "elems (g_degree g) ! y = of_nat (graph_count g y)" if "y < ?n" for y
      using wf that by (simp add: graph_wf_def)
    have prev: "bs_get (g_bits g) (p + q * ?n) = graph_edge g q p"
      using True q by (simp add: graph_edge_def add.commute)
    have sym: "graph_edge g q p = graph_edge g p q" using wf by (rule graph_edge_sym)
    define delta where "delta = (of_bool v - of_bool (graph_edge g q p) :: u32)"
    have "delta \<noteq> 0" using True by (auto simp: delta_def)
    then have "elems (g_degree ?g) = (elems (g_degree g))[p := elems (g_degree g) ! p + delta,
        q := (elems (g_degree g))[p := elems (g_degree g) ! p + delta] ! q + delta]"
      using True prev by (simp add: graph_set_def pq(1) Let_def delta_def)
    then have new: "elems (g_degree ?g) ! x = elems (g_degree g) ! x +
        (if p = q \<and> x = p then delta * 2 else if x = p \<or> x = q then delta else 0)"
      using x True q by (auto simp: nth_list_update graph_size_def)
    show ?thesis
    proof (cases "x = p \<or> x = q")
      case xpq: True
      define y where "y = (if x = p then q else p)"
      have "y < ?n" "{x, y} = {p, q}" using xpq True q by (auto simp: y_def)
      then have "(of_nat (graph_count ?g x) :: u32) = of_nat (graph_count g x) + delta * of_nat (edge_weight x y)"
        using of_nat_graph_count_update [of y g ?g x] xpq True sym
        by (auto simp: edge delta_def y_def doubleton_eq_iff)
      then show ?thesis
        using new deg [OF x] xpq by (auto simp: y_def edge_weight_def)
    next
      case False
      then have "graph_count ?g x = graph_count g x"
        by (simp add: graph_count_def edge doubleton_eq_iff)
      then show ?thesis using new deg [OF x] False by auto
    qed
  qed
  have "bs_wf (g_bits ?g) \<and> bs_size (g_bits ?g) = bs_size (g_bits g) \<and> arr_ok (g_degree ?g)"
    using wf by (auto simp: graph_set_def Let_def bs_wf_set graph_wf_def arr_ok_def)
  moreover have "graph_edge ?g x y = graph_edge ?g y x" for x y
    using graph_edge_sym [OF wf, of x y] by (simp add: edge insert_commute)
  ultimately show ?thesis
    using wf count unfolding graph_wf_def by simp
qed

subsection \<open>first_set\<close>

definition pos32 :: "nat option \<Rightarrow> nat" where
  "pos32 r = (case r of None \<Rightarrow> NoPos32 | Some i \<Rightarrow> i)"

lemma pos32_simps [simp]: "pos32 None = NoPos32" "pos32 (Some i) = i"
  by (simp_all add: pos32_def)

lemma first_in_shift: "first_in p (c + lo) (c + hi) = map_option ((+) c) (first_in (\<lambda>i. p (c + i)) lo hi)"
proof (cases "first_in (\<lambda>i. p (c + i)) lo hi")
  case None
  have "\<not> p j" if "c + lo \<le> j" "j < c + hi" for j
    using None [unfolded first_in_None_iff] spec [of _ "j - c"] that
    by (metis add_diff_inverse_nat diff_less_mono2 le_add_diff_inverse le_trans le_add1 not_less
        nat_add_left_cancel_le nat_add_left_cancel_less)
  then have "first_in p (c + lo) (c + hi) = None" by (simp add: first_in_None_iff)
  with None show ?thesis by simp
next
  case (Some i)
  have "\<not> p j" if "c + lo \<le> j" "j < c + i" for j
    using Some [unfolded first_in_Some_iff] that
    by (metis add_diff_inverse_nat le_trans le_add1 not_less nat_add_left_cancel_le nat_add_left_cancel_less)
  with Some have "first_in p (c + lo) (c + hi) = Some (c + i)" by (simp add: first_in_Some_iff)
  with Some show ?thesis by simp
qed

lemma graph_first_set_eq:
  assumes wf: "graph_wf g" and cfg: "cfg \<noteq> NO_FFS"
  shows "graph_first_set cfg g node i = pos32 (first_in (graph_edge g node) i (graph_size g))"
proof -
  let ?n = "graph_size g"
  have bits: "bs_wf (g_bits g)" "bs_size (g_bits g) = ?n * ?n" and n: "?n < NoPos32"
    using wf by (auto simp: graph_wf_def)
  show ?thesis
  proof (cases "i \<ge> ?n \<or> graph_degree g node = 0")
    case True
    then have "first_in (graph_edge g node) i ?n = None"
      using graph_degree_0_iff [OF wf, of node] by (auto simp: first_in_None_iff)
    with True show ?thesis by (simp add: graph_first_set_def Let_def)
  next
    case False
    then have node: "node < ?n"
      by (metis graph_degree_def graph_size_def not_less view_get_beyond)
    have row: "node * ?n + ?n \<le> ?n * ?n" using node by (metis Suc_leI add.commute mult_Suc mult_le_mono1)
    have "?n * ?n < NoPos64"
    proof -
      have "?n * ?n \<le> NoPos32 * NoPos32" using n by (intro mult_le_mono) simp_all
      also have "\<dots> < NoPos64" by (simp add: NoPos32_def NoPos64_def)
      finally show ?thesis .
    qed
    moreover have "first_in (\<lambda>j. bs_word_get (bs_data (g_bits g)) j = True) (node * ?n + i) (node * ?n + ?n) =
        first_in (bs_get (g_bits g)) (node * ?n + i) (node * ?n + ?n)"
      by (rule first_in_cong) (use row bits in \<open>auto simp: bs_get_def\<close>)
    moreover have "first_in (\<lambda>j. bs_get (g_bits g) (node * ?n + j)) i ?n = first_in (graph_edge g node) i ?n"
      by (rule first_in_cong) (use node in \<open>simp add: graph_edge_def\<close>)
    ultimately show ?thesis
      using False row bits
      by (cases "first_in (graph_edge g node) i ?n")
        (auto simp: graph_first_set_def Let_def bs_find_eq [OF cfg] min_absorb1 first_in_shift
          dest: first_in_Some_iff [THEN iffD1])
  qed
qed

lemma graph_first_set_cases:
  assumes wf: "graph_wf g" and cfg: "cfg \<noteq> NO_FFS"
  obtains (none) "graph_first_set cfg g node i = NoPos32" "\<And>j. i \<le> j \<Longrightarrow> \<not> graph_edge g node j"
  | (found) k where "graph_first_set cfg g node i = k" "k \<noteq> NoPos32" "i \<le> k" "k < graph_size g"
      "graph_edge g node k" "\<And>j. i \<le> j \<Longrightarrow> j < k \<Longrightarrow> \<not> graph_edge g node j"
proof (cases "first_in (graph_edge g node) i (graph_size g)")
  case None
  then have "\<not> graph_edge g node j" if "i \<le> j" for j
    using that graph_edge_bound [of g node j] by (auto simp: first_in_None_iff)
  moreover have "graph_first_set cfg g node i = NoPos32"
    using None by (simp add: graph_first_set_eq [OF wf cfg])
  ultimately show thesis by (rule none [rotated])
next
  case (Some k)
  then have "graph_first_set cfg g node i = k"
    by (simp add: graph_first_set_eq [OF wf cfg])
  moreover have "graph_size g < NoPos32" using wf by (simp add: graph_wf_def)
  ultimately show thesis
    using Some found [of k] by (auto simp: first_in_Some_iff)
qed

subsection \<open>remove\<close>

text \<open>
  The counter runs over the degree; there are at most that many neighbours left at or after
  \<open>other\<close>, so the loop visits every one of them.
\<close>

lemma card_edges_le_count:
  "card {j. graph_edge g a j} \<le> graph_count g a"
proof -
  have "{j. graph_edge g a j} = {j\<in>{..<graph_size g}. graph_edge g a j}"
    by (auto dest: graph_edge_bound)
  then have "card {j. graph_edge g a j} = (\<Sum>j<graph_size g. of_bool (graph_edge g a j))"
    by (simp add: Collect_conj_eq lessThan_def flip: sum.inter_filter)
  also have "\<dots> \<le> graph_count g a"
    unfolding graph_count_def by (rule sum_mono) (simp add: edge_weight_def)
  finally show ?thesis .
qed

lemma finite_edges [simp]: "finite {j. i \<le> j \<and> graph_edge g a j}"
  by (rule finite_subset [of _ "{..<graph_size g}"]) (auto dest: graph_edge_bound)

lemma graph_remove_loop_correct:
  assumes "graph_wf g" "cfg \<noteq> NO_FFS" "node < graph_size g"
    and "card {j. i \<le> j \<and> graph_edge g node j} \<le> deg" and "\<forall>j<i. \<not> graph_edge g node j"
  shows "graph_wf (graph_remove_loop deg cfg node i g) \<and>
    graph_size (graph_remove_loop deg cfg node i g) = graph_size g \<and>
    (\<forall>x y. graph_edge (graph_remove_loop deg cfg node i g) x y =
       (x \<noteq> node \<and> y \<noteq> node \<and> graph_edge g x y))"
  using assms
proof (induction deg arbitrary: i g)
  case 0
  then have "{j. i \<le> j \<and> graph_edge g node j} = {}" by (metis card_0_eq finite_edges le_zero_eq)
  with 0 have "\<not> graph_edge g node j" for j by (cases "j < i") auto
  with 0 show ?case using graph_edge_sym [OF 0(1)] by auto
next
  case (Suc deg)
  show ?case
  proof (cases rule: graph_first_set_cases [OF Suc.prems(1,2), of node i, case_names none found])
    case none
    with Suc.prems have "\<not> graph_edge g node j" for j by (cases "j < i") auto
    with Suc.prems none show ?thesis using graph_edge_sym [OF Suc.prems(1)] by auto
  next
    case (found k)
    let ?g = "graph_set g node k False"
    have e: "graph_edge ?g x y = (if {x, y} = {node, k} then False else graph_edge g x y)" for x y
      using graph_edge_set [OF Suc.prems(1), of node k False x y] found Suc.prems(3) by simp
    have "{j. Suc k \<le> j \<and> graph_edge ?g node j} \<subseteq> {j. i \<le> j \<and> graph_edge g node j} - {k}"
      using found(3) by (auto simp: e split: if_splits)
    then have "card {j. Suc k \<le> j \<and> graph_edge ?g node j} \<le> card ({j. i \<le> j \<and> graph_edge g node j} - {k})"
      by (rule card_mono [rotated]) simp
    also have "\<dots> \<le> deg" using Suc.prems(4) found by simp
    finally have c: "card {j. Suc k \<le> j \<and> graph_edge ?g node j} \<le> deg" .
    have "\<not> graph_edge ?g node j" if "j < Suc k" for j
      using that found(6) [of j] Suc.prems(5) by (cases "j < i"; cases "j = k") (auto simp: e)
    then show ?thesis
      using Suc.IH [OF graph_wf_set [OF Suc.prems(1), of node k False] Suc.prems(2) _ c] Suc.prems(3) found
      by (auto simp: e doubleton_eq_iff Let_def)
  qed
qed

lemma graph_remove_correct:
  assumes wf: "graph_wf g" and cfg: "cfg \<noteq> NO_FFS"
  shows "graph_wf (graph_remove cfg g node)" "graph_size (graph_remove cfg g node) = graph_size g"
    "graph_edge (graph_remove cfg g node) x y = (x \<noteq> node \<and> y \<noteq> node \<and> graph_edge g x y)"
proof -
  have "graph_wf (graph_remove cfg g node) \<and> graph_size (graph_remove cfg g node) = graph_size g \<and>
    (\<forall>x y. graph_edge (graph_remove cfg g node) x y = (x \<noteq> node \<and> y \<noteq> node \<and> graph_edge g x y))"
  proof (cases "node < graph_size g")
    case True
    then show ?thesis
      using graph_remove_loop_correct [OF wf cfg True, of 0 "unat (graph_degree g node)"]
        card_edges_le_count [of g node] unat_graph_degree [OF wf True]
      by (simp add: graph_remove_def)
  next
    case False
    then have "graph_remove cfg g node = g"
      by (simp add: graph_remove_def graph_degree_def graph_size_def)
    with wf False show ?thesis by (auto dest: graph_edge_bound)
  qed
  then show "graph_wf (graph_remove cfg g node)" "graph_size (graph_remove cfg g node) = graph_size g"
    "graph_edge (graph_remove cfg g node) x y = (x \<noteq> node \<and> y \<noteq> node \<and> graph_edge g x y)" by auto
qed

subsection \<open>Construction, reset, copy\<close>

lemma graph_empty_wf:
  assumes "bs_wf bits" "bs_size bits = n * n" "\<And>i. \<not> bs_get bits i"
    and "elems deg = replicate n 0" "arr_ok deg" "n < NoPos32"
  shows "graph_wf \<lparr>g_bits = bits, g_degree = deg\<rparr>"
    "graph_size \<lparr>g_bits = bits, g_degree = deg\<rparr> = n"
    "\<not> graph_edge \<lparr>g_bits = bits, g_degree = deg\<rparr> a b"
  using assms by (auto simp: graph_wf_def graph_size_def graph_edge_def graph_count_def)

lemma square_less_NoPos64: "n < NoPos32 \<Longrightarrow> n * n < NoPos64"
proof -
  assume "n < NoPos32"
  then have "n * n \<le> NoPos32 * NoPos32" by (intro mult_le_mono) simp_all
  also have "\<dots> < NoPos64" by (simp add: NoPos32_def NoPos64_def)
  finally show ?thesis .
qed

lemma graph_new_wf:
  assumes "n < NoPos32" "fst (bs_init okb (n * n))" "fst (arr_init (0::u32) okd n)"
  shows "graph_wf (graph_new okb okd n)" "graph_size (graph_new okb okd n) = n"
    "\<not> graph_edge (graph_new okb okd n) a b"
proof -
  have "elems (snd (arr_init (0::u32) okd n)) = replicate n 0" "arr_ok (snd (arr_init (0::u32) okd n))"
    using assms(3) by (auto simp: arr_init_def arr_ok_def split: if_splits)
  note * = graph_empty_wf [OF bs_init_success(1,2) [OF assms(2)] bs_init_success(3) [OF assms(2)] this assms(1)]
  then show "graph_wf (graph_new okb okd n)" "graph_size (graph_new okb okd n) = n"
    "\<not> graph_edge (graph_new okb okd n) a b"
    by (auto simp: graph_new_def)
qed

lemma graph_reset_correct:
  assumes bits: "bs_wf (g_bits g)" and arr: "arr_ok (g_degree g)" and n: "n < NoPos32"
    and good: "fst (graph_reset okb okd n g)"
  shows "graph_wf (snd (graph_reset okb okd n g))" "graph_size (snd (graph_reset okb okd n g)) = n"
    "\<not> graph_edge (snd (graph_reset okb okd n g)) a b"
proof -
  let ?bits = "snd (bs_resize okb (n * n) (g_bits g))"
  let ?deg = "snd (arr_resize 0 okd n (g_degree g))"
  have g1: "fst (arr_resize 0 okd n (g_degree g))" and g2: "fst (bs_resize okb (n * n) (g_bits g))"
    using good by (auto simp: graph_reset_def Let_def split: prod.splits if_splits)
  have eq: "snd (graph_reset okb okd n g) =
      \<lparr>g_bits = bs_fill ?bits False 0 NoPos64, g_degree = ?deg\<lparr>elems := replicate n 0\<rparr>\<rparr>"
    using g1 g2 by (auto simp: graph_reset_def Let_def split: prod.splits)
  note r = bs_get_resize [OF bits g2]
  have "arr_ok ?deg" using arr by (rule arr_resize_ok)
  moreover have "length (elems ?deg) = n" using arr_resize_success [OF g1] by simp
  ultimately have "arr_ok (?deg\<lparr>elems := replicate n 0\<rparr>)" by (simp add: arr_ok_def)
  moreover have "\<not> bs_get (bs_fill ?bits False 0 NoPos64) i" for i
    using bs_get_fill [OF r(1), of False 0 NoPos64 i] r(2) square_less_NoPos64 [OF n]
      bs_get_beyond [of ?bits i] by (auto split: if_splits)
  ultimately show "graph_wf (snd (graph_reset okb okd n g))" "graph_size (snd (graph_reset okb okd n g)) = n"
    "\<not> graph_edge (snd (graph_reset okb okd n g)) a b"
    unfolding eq using graph_empty_wf [OF bs_wf_fill [OF r(1), of False 0 NoPos64], of n _ ] r(2) n
    by auto
qed

text \<open>A failed reset keeps the size and the edges of a graph.\<close>

lemma graph_dup_correct:
  assumes bits: "bs_wf (g_bits g)" and arr: "arr_ok (g_degree g)" and wf: "graph_wf h"
    and good: "fst (graph_reset okb okd (graph_size h) g)"
  obtains g' where "graph_dup okb okd g h = Some (True, g')" "graph_wf g'" "graph_size g' = graph_size h"
    "graph_edge g' = graph_edge h"
proof -
  let ?n = "graph_size h" and ?g1 = "snd (graph_reset okb okd (graph_size h) g)"
  have n: "?n < NoPos32" using wf by (simp add: graph_wf_def)
  note r = graph_reset_correct [OF bits arr n good]
  have b: "bs_wf (g_bits ?g1)" "bs_wf (g_bits h)" "bs_size (g_bits h) = bs_size (g_bits ?g1)"
    using r(1,2) wf by (auto simp: graph_wf_def)
  obtain bits' where bits': "bs_copy (g_bits ?g1) (g_bits h) = Some bits'" "bs_wf bits'"
      "bs_size bits' = bs_size (g_bits ?g1)" "bs_get bits' = bs_get (g_bits h)"
    using bs_get_copy [OF b] by metis
  define g' where "g' = \<lparr>g_bits = bits', g_degree = (g_degree ?g1)\<lparr>elems := elems (g_degree h)\<rparr>\<rparr>"
  have len: "length (elems (g_degree h)) = length (elems (g_degree ?g1))"
    using r(2) by (simp add: graph_size_def)
  have "graph_dup okb okd g h = Some (True, g')"
    using good bits'(1) len by (auto simp: graph_dup_def Let_def g'_def split: prod.splits)
  moreover have size: "graph_size g' = ?n" by (simp add: g'_def graph_size_def)
  moreover have edge: "graph_edge g' = graph_edge h"
    using bits'(4) size by (simp add: fun_eq_iff graph_edge_def g'_def)
  moreover have "graph_count g' = graph_count h"
    by (simp add: fun_eq_iff graph_count_def edge size)
  moreover have "graph_wf g'"
    using wf bits' b r len size edge \<open>graph_count g' = graph_count h\<close>
    unfolding graph_wf_def by (auto simp: g'_def arr_ok_def)
  ultimately show thesis using that by blast
qed

subsection \<open>The interface of an interference graph\<close>

locale interference_graph =
  fixes size :: "'g \<Rightarrow> nat" and edge :: "'g \<Rightarrow> nat \<Rightarrow> nat \<Rightarrow> bool"
    and connect :: "'g \<Rightarrow> nat \<Rightarrow> nat \<Rightarrow> bool \<Rightarrow> 'g" and degree :: "'g \<Rightarrow> nat \<Rightarrow> nat"
    and first :: "'g \<Rightarrow> nat \<Rightarrow> nat \<Rightarrow> nat" and remove :: "'g \<Rightarrow> nat \<Rightarrow> 'g" and invar :: "'g \<Rightarrow> bool"
  assumes edge_sym: "invar g \<Longrightarrow> edge g a b = edge g b a"
    and edge_bound: "edge g a b \<Longrightarrow> a < size g \<and> b < size g"
    and edge_connect: "invar g \<Longrightarrow> edge (connect g a b v) x y =
      (if {x, y} = {a, b} \<and> a < size g \<and> b < size g then v else edge g x y)"
    and size_connect [simp]: "size (connect g a b v) = size g"
    and invar_connect [simp]: "invar g \<Longrightarrow> invar (connect g a b v)"
    and degree_eq: "invar g \<Longrightarrow>
      degree g a = card {b. edge g a b} + (if edge g a a then 1 else 0)"
    and first_eq: "invar g \<Longrightarrow> first g a i = pos32 (first_in (edge g a) i (size g))"
    and size_bound: "invar g \<Longrightarrow> size g < NoPos32"
    and edge_remove: "invar g \<Longrightarrow> edge (remove g a) x y = (x \<noteq> a \<and> y \<noteq> a \<and> edge g x y)"
    and size_remove [simp]: "invar g \<Longrightarrow> size (remove g a) = size g"
    and invar_remove [simp]: "invar g \<Longrightarrow> invar (remove g a)"
begin

lemma finite_neighbours: "finite {b. edge g a b}"
  by (rule finite_subset [of _ "{..<size g}"]) (auto dest: edge_bound)

lemma degree_0_iff: "invar g \<Longrightarrow> degree g a = 0 \<longleftrightarrow> (\<forall>b. \<not> edge g a b)"
  using finite_neighbours [of g a] by (auto simp: degree_eq)

lemma degree_self: "invar g \<Longrightarrow> edge g a a \<Longrightarrow> 2 \<le> degree g a"
  using finite_neighbours [of g a] card_gt_0_iff [of "{b. edge g a b}"] by (auto simp: degree_eq)

text \<open>The neighbours of a node at or after \<open>i\<close>, in the order in which \<open>first\<close> meets them.\<close>

definition neighbours :: "'g \<Rightarrow> nat \<Rightarrow> nat \<Rightarrow> nat list" where
  "neighbours g a i = filter (edge g a) [i..<size g]"

lemma set_neighbours: "set (neighbours g a i) = {j. i \<le> j \<and> edge g a j}"
  by (auto simp: neighbours_def dest: edge_bound)

lemma neighbours_step:
  assumes "invar g"
  shows "neighbours g a i = (if first g a i = NoPos32 then [] else first g a i # neighbours g a (Suc (first g a i)))"
proof (cases "first_in (edge g a) i (size g)")
  case None
  with assms show ?thesis by (simp add: neighbours_def filter_upt_first_in [of "edge g a" i] first_eq)
next
  case (Some k)
  then have "k < NoPos32" using size_bound [OF assms] by (auto simp: first_in_Some_iff)
  with assms Some show ?thesis by (simp add: neighbours_def filter_upt_first_in [of "edge g a" i] first_eq)
qed

lemma first_bounds:
  "invar g \<Longrightarrow> first g a i \<noteq> NoPos32 \<Longrightarrow> i \<le> first g a i \<and> first g a i < size g"
  by (cases "first_in (edge g a) i (size g)") (auto simp: first_eq dest: first_in_Some_iff [THEN iffD1])

end

lemma graph_count_eq:
  "graph_count g a = card {b. graph_edge g a b} + (if graph_edge g a a then 1 else 0)"
proof -
  let ?e = "\<lambda>b. of_bool (graph_edge g a b) :: nat"
  have "graph_count g a = (\<Sum>b<graph_size g. ?e b + (if b = a then ?e a else 0))"
    unfolding graph_count_def by (rule sum.cong) (auto simp: edge_weight_def)
  also have "\<dots> = (\<Sum>b<graph_size g. ?e b) + (if a < graph_size g then ?e a else 0)"
    by (simp add: sum.distrib)
  also have "(\<Sum>b<graph_size g. ?e b) = card {b. b < graph_size g \<and> graph_edge g a b}"
    by (simp add: Collect_conj_eq lessThan_def flip: sum.inter_filter)
  also have "{b. b < graph_size g \<and> graph_edge g a b} = {b. graph_edge g a b}"
    by (auto dest: graph_edge_bound)
  finally show ?thesis by (auto dest: graph_edge_bound)
qed

interpretation ig: interference_graph graph_size graph_edge graph_set "\<lambda>g a. unat (graph_degree g a)"
    "graph_first_set cfg" "graph_remove cfg" "\<lambda>g. graph_wf g \<and> cfg \<noteq> NO_FFS"
  for cfg
proof unfold_locales
  fix g a b v x y i
  assume inv: "graph_wf g \<and> cfg \<noteq> NO_FFS"
  then show "graph_edge g a b = graph_edge g b a" by (simp add: graph_edge_sym)
  show "graph_edge (graph_set g a b v) x y =
      (if {x, y} = {a, b} \<and> a < graph_size g \<and> b < graph_size g then v else graph_edge g x y)"
    using inv by (simp add: graph_edge_set)
  show "graph_wf (graph_set g a b v) \<and> cfg \<noteq> NO_FFS" using inv by (simp add: graph_wf_set)
  show "unat (graph_degree g a) = card {b. graph_edge g a b} + (if graph_edge g a a then 1 else 0)"
  proof (cases "a < graph_size g")
    case True
    then show ?thesis using inv by (simp add: unat_graph_degree graph_count_eq)
  next
    case False
    then have "{b. graph_edge g a b} = {}" "\<not> graph_edge g a a" by (auto dest: graph_edge_bound)
    with False show ?thesis by (simp add: graph_degree_def graph_size_def)
  qed
  show "graph_first_set cfg g a i = pos32 (first_in (graph_edge g a) i (graph_size g))"
    using inv by (simp add: graph_first_set_eq)
  show "graph_size g < NoPos32" using inv by (simp add: graph_wf_def)
  show "graph_edge (graph_remove cfg g a) x y = (x \<noteq> a \<and> y \<noteq> a \<and> graph_edge g x y)"
    and "graph_size (graph_remove cfg g a) = graph_size g"
    and "graph_wf (graph_remove cfg g a) \<and> cfg \<noteq> NO_FFS"
    using inv by (simp_all add: graph_remove_correct)
qed (auto dest: graph_edge_bound)

declare ig.invar_connect [simp del] ig.size_remove [simp del] ig.invar_remove [simp del]

text \<open>\<open>operator()\<close> agrees with the relation while the offset fits 32 bits.\<close>

lemma graph_get_eq:
  assumes wf: "graph_wf g" and small: "graph_size g \<le> 65536"
  shows "graph_get g a b = graph_edge g a b"
proof -
  let ?n = "graph_size g"
  define p where "p = max a b"
  define q where "q = min a b"
  have pq: "(if a < b then (b, a) else (a, b)) = (p, q)" by (auto simp: p_def q_def)
  have eq: "graph_edge g a b = graph_edge g q p"
    using graph_edge_sym [OF wf, of a b] by (auto simp: p_def q_def max_def min_def)
  show ?thesis
  proof (cases "p < ?n")
    case True
    then have q: "q < ?n" by (auto simp: p_def q_def)
    have "p + q * ?n < ?n * ?n" using square_less [OF q True] by (simp add: add.commute)
    also have "\<dots> \<le> 65536 * 65536" using small by (intro mult_le_mono)
    finally have "(p + q * ?n) mod 2 ^ 32 = p + q * ?n" by simp
    with True q show ?thesis
      unfolding eq by (simp add: graph_get_def pq graph_edge_def add.commute)
  next
    case False
    then show ?thesis unfolding eq by (simp add: graph_get_def pq graph_edge_def)
  qed
qed

subsection \<open>Properties\<close>

definition graph_sample :: "nat \<Rightarrow> graph" where
  "graph_sample n = graph_new (\<lambda>_. True) (\<lambda>_. True) n"

lemma graph_sample_wf:
  assumes "n < NoPos32"
  shows "graph_wf (graph_sample n)" "graph_size (graph_sample n) = n" "\<not> graph_edge (graph_sample n) a b"
proof -
  have "fst (bs_init (\<lambda>_. True) (n * n))" "fst (arr_init (0::u32) (\<lambda>_. True) n)"
    by (simp_all add: bs_init_def arr_init_def Let_def)
  from graph_new_wf [OF assms this]
  show "graph_wf (graph_sample n)" "graph_size (graph_sample n) = n" "\<not> graph_edge (graph_sample n) a b"
    by (simp_all add: graph_sample_def)
qed

text \<open>C11: connecting or disconnecting two nodes changes exactly that edge, in both directions of the
  matrix, and keeps the degrees equal to the number of edges of each node.\<close>

theorem graph_set_refines_relation:
  assumes "graph_wf g"
  shows "graph_wf (graph_set g a b v) \<and> graph_size (graph_set g a b v) = graph_size g \<and>
    (\<forall>x y. graph_edge (graph_set g a b v) x y =
      (if {x, y} = {a, b} \<and> a < graph_size g \<and> b < graph_size g then v else graph_edge g x y))"
  using assms by (simp add: graph_wf_set graph_edge_set)

lemma graph_set_refines_relation_witness: "graph_edge (graph_set (graph_sample 5) 1 3 True) 3 1"
  using graph_set_refines_relation [of "graph_sample 5" 1 3 True] graph_sample_wf [of 5]
  by (simp add: NoPos32_def insert_commute)

text \<open>C12: removing a node disconnects it from every node, itself included, and touches no other
  edge: the counter of the loop, the degree, is never too small.\<close>

theorem graph_remove_isolates:
  assumes "graph_wf g" "cfg \<noteq> NO_FFS"
  shows "graph_wf (graph_remove cfg g node) \<and> graph_size (graph_remove cfg g node) = graph_size g \<and>
    (\<forall>x y. graph_edge (graph_remove cfg g node) x y = (x \<noteq> node \<and> y \<noteq> node \<and> graph_edge g x y))"
  using graph_remove_correct [OF assms] by simp

lemma graph_remove_isolates_witness: "\<not> graph_edge (graph_remove HAVE_FFS (graph_set (graph_sample 5) 1 3 True) 1) 3 1"
  using graph_remove_isolates [of "graph_set (graph_sample 5) 1 3 True" HAVE_FFS 1] graph_sample_wf [of 5]
    graph_wf_set [of "graph_sample 5" 1 3 True]
  by (simp add: NoPos32_def)

text \<open>C13: the scan for the next neighbour returns the first node at or after the given one that is
  connected to it, and stays inside the row of the matrix.\<close>

theorem graph_first_set_next_neighbour:
  assumes "graph_wf g" "cfg \<noteq> NO_FFS"
  shows "graph_first_set cfg g node i = pos32 (first_in (graph_edge g node) i (graph_size g))"
  by (rule graph_first_set_eq [OF assms])

lemma graph_first_set_next_neighbour_witness:
  "graph_first_set HAVE_FFSL (graph_set (graph_sample 5) 1 3 True) 1 2 =
   pos32 (first_in (graph_edge (graph_set (graph_sample 5) 1 3 True) 1) 2 5)"
  using graph_first_set_next_neighbour [of "graph_set (graph_sample 5) 1 3 True" HAVE_FFSL 1 2] graph_sample_wf [of 5]
    graph_wf_set [of "graph_sample 5" 1 3 True]
  by (simp add: NoPos32_def)

text \<open>The query of an edge computes the position in 32 bits: on a graph of 65537 nodes, asking
  for the edge between the nodes 65536 and 65535 reads the edge between 0 and 65535 instead.\<close>

theorem graph_get_wraps:
  assumes "graph_wf g" "graph_size g = 65537"
  shows "graph_get g 65536 65535 = graph_edge g 0 65535"
  using assms by (simp add: graph_get_def graph_edge_def)

lemma graph_get_wraps_witness: "\<not> graph_get (graph_sample 65537) 65536 65535"
  using graph_get_wraps [of "graph_sample 65537"] graph_sample_wf [of 65537] by (simp add: NoPos32_def)

end
