(* ===== verification/Allocator.thy ===== *)
theory Allocator imports Graph begin

text \<open>
  The register allocator of \<open>src/onejit/reg/allocator.hpp\<close> and \<open>allocator.cpp\<close>: Chaitin's
  algorithm on an interference graph. Registers and colours are \<open>uint32_t\<close> positions, here natural
  numbers; \<open>NoReg\<close> and \<open>NoColor\<close> are \<open>NoPos32\<close>. Degrees are 32-bit words.

  The simplify phase and the scans over the neighbours of a register are loops whose end depends on
  the graph, so they are partial functions to \<open>option\<close>; that they return is proved.

  The lemmas follow the phases: what one push and one coloring step do, the invariant of the
  simplify loop, the invariant of the coloring loop, and the properties of the whole allocation.
\<close>

abbreviation "NoReg \<equiv> NoPos32"
abbreviation "NoColor \<equiv> NoPos32"

record allocator =
  al_g :: graph
  al_g2 :: graph
  al_stack :: "nat arr"
  al_hints :: "nat arr"
  al_colors :: "nat arr"
  al_avail :: bitset

text \<open>
  \<open>ok k n\<close> tells whether the \<open>k\<close>-th allocation of an operation succeeds for \<open>n\<close> elements.
\<close>

type_synonym alloc_oracle = "nat \<Rightarrow> nat \<Rightarrow> bool"

definition al_size :: "allocator \<Rightarrow> nat" where
  "al_size a = graph_size (al_g a)"

definition al_new :: "alloc_oracle \<Rightarrow> nat \<Rightarrow> allocator" where
  "al_new ok n =
     \<lparr>al_g = graph_new (ok 0) (ok 1) n, al_g2 = graph_new (ok 2) (ok 3) n,
      al_stack = snd (arr_init 0 (ok 4) n),
      al_hints = snd (arr_reserve (ok 5) n arr_empty),
      al_colors = snd (arr_init 0 (ok 6) n),
      al_avail = snd (bs_init (ok 7) n)\<rparr>"

text \<open>The conjunction of \<open>reset\<close> stops at the first operation that fails.\<close>

definition al_reset :: "alloc_oracle \<Rightarrow> nat \<Rightarrow> allocator \<Rightarrow> bool \<times> allocator" where
  "al_reset ok n a0 =
     (let a1 = a0\<lparr>al_hints := arr_clear (al_hints a0)\<rparr>;
          (b1, g) = graph_reset (ok 0) (ok 1) n (al_g a1);
          a2 = a1\<lparr>al_g := g\<rparr>
      in if \<not> b1 then (False, a2) else
      let (b2, g2) = graph_reset (ok 2) (ok 3) n (al_g2 a2);
          a3 = a2\<lparr>al_g2 := g2\<rparr>
      in if \<not> b2 then (False, a3) else
      let (b3, st) = arr_resize 0 (ok 4) n (al_stack a3);
          a4 = a3\<lparr>al_stack := st\<rparr>
      in if \<not> b3 then (False, a4) else
      let (b4, hs) = arr_reserve (ok 5) n (al_hints a4);
          a5 = a4\<lparr>al_hints := hs\<rparr>
      in if \<not> b4 then (False, a5) else
      let (b5, cs) = arr_resize 0 (ok 6) n (al_colors a5);
          a6 = a5\<lparr>al_colors := cs\<rparr>
      in if \<not> b5 then (False, a6) else
      let (b6, av) = bs_resize (ok 7) n (al_avail a6)
      in (b6, a6\<lparr>al_avail := av\<rparr>))"

definition al_add_hint :: "alloc_oracle \<Rightarrow> nat \<Rightarrow> nat \<Rightarrow> allocator \<Rightarrow> allocator" where
  "al_add_hint ok reg color a =
     (let a1 = (if elems (al_hints a) = []
                then let hs = snd (arr_resize 0 (ok 0) (al_size a) (al_hints a))
                     in a\<lparr>al_hints := hs\<lparr>elems := span_fill (elems hs) NoColor\<rparr>\<rparr>
                else a);
          hs1 = al_hints a1
      in a1\<lparr>al_hints := hs1\<lparr>elems := span_set (elems hs1) reg color\<rparr>\<rparr>)"

subsection \<open>The simplify phase\<close>

definition al_init_step :: "nat \<Rightarrow> allocator \<Rightarrow> allocator" where
  "al_init_step reg a =
     a\<lparr>al_g := graph_set (al_g a) reg reg True,
       al_colors := (al_colors a)\<lparr>elems := span_set (elems (al_colors a)) reg NoColor\<rparr>\<rparr>"

definition al_init_loop :: "allocator \<Rightarrow> allocator" where
  "al_init_loop a = fold al_init_step [0..<al_size a] a"

definition al_init :: "alloc_oracle \<Rightarrow> allocator \<Rightarrow> allocator option" where
  "al_init ok a =
     (let a1 = al_init_loop (a\<lparr>al_stack := arr_clear (al_stack a)\<rparr>)
      in case graph_dup (ok 0) (ok 1) (al_g2 a1) (al_g a1) of
           None \<Rightarrow> None
         | Some (_, g2) \<Rightarrow> Some (a1\<lparr>al_g2 := g2\<rparr>))"

definition al_find_degree_less_than :: "u32 \<Rightarrow> allocator \<Rightarrow> nat" where
  "al_find_degree_less_than deg a =
     pos32 (first_in (\<lambda>i. let d = graph_degree (al_g a) i in 2 \<le> d \<and> d < 2 + deg) 0 (al_size a))"

definition al_pick :: "allocator \<Rightarrow> nat" where
  "al_pick a = fst (fold (\<lambda>i (reg, deg). let d = graph_degree (al_g a) i
                          in if d > deg then (i, d) else (reg, deg))
                      [0..<al_size a] (NoReg, 0))"

text \<open>The two statements \<open>stack_.append(reg); g_.remove(reg);\<close>.\<close>

definition al_push :: "ffs_config \<Rightarrow> alloc_oracle \<Rightarrow> nat \<Rightarrow> allocator \<Rightarrow> allocator" where
  "al_push cfg ok reg a = a\<lparr>al_stack := snd (arr_append 0 (ok 2) [reg] (al_stack a)),
                          al_g := graph_remove cfg (al_g a) reg\<rparr>"

text \<open>The inner \<open>while\<close> loop, then the \<open>for\<close> loop, of \<open>allocate_regs\<close>.\<close>

partial_function (option) al_reduce ::
    "ffs_config \<Rightarrow> alloc_oracle \<Rightarrow> u32 \<Rightarrow> allocator \<Rightarrow> allocator option" where
  "al_reduce cfg ok k a =
     (let reg = al_find_degree_less_than k a
      in if reg = NoReg then Some a else al_reduce cfg ok k (al_push cfg ok reg a))"

partial_function (option) al_simplify ::
    "ffs_config \<Rightarrow> alloc_oracle \<Rightarrow> u32 \<Rightarrow> allocator \<Rightarrow> allocator option" where
  "al_simplify cfg ok k a =
     Option.bind (al_reduce cfg ok k a)
       (\<lambda>a1. let reg = al_pick a1
             in if reg = NoReg then Some a1 else al_simplify cfg ok k (al_push cfg ok reg a1))"

subsection \<open>The coloring phase\<close>

text \<open>
  The loop \<open>while ((neighbor = g2_.first_set(reg, neighbor)) != NoReg) { body; ++neighbor; }\<close>.
\<close>

partial_function (option) al_scan ::
    "ffs_config \<Rightarrow> graph \<Rightarrow> nat \<Rightarrow> (nat \<Rightarrow> 's \<Rightarrow> 's) \<Rightarrow> nat \<Rightarrow> 's \<Rightarrow> 's option" where
  "al_scan cfg g2 reg body neighbor s =
     (let nb = graph_first_set cfg g2 reg neighbor
      in if nb = NoReg then Some s else al_scan cfg g2 reg body (Suc nb) (body nb s))"

definition al_reconnect :: "nat \<Rightarrow> nat \<Rightarrow> allocator \<Rightarrow> allocator" where
  "al_reconnect reg nb a =
     (if graph_degree (al_g a) nb \<noteq> 0
      then a\<lparr>al_g := graph_set (al_g a) reg nb True,
             al_avail := bs_set (al_avail a) (view_get 0 (elems (al_colors a)) nb) False\<rparr>
      else a)"

definition al_hint_of :: "allocator \<Rightarrow> nat \<Rightarrow> nat" where
  "al_hint_of a reg = view_get 0 (elems (al_hints a)) reg"

definition al_color_of :: "allocator \<Rightarrow> nat \<Rightarrow> nat" where
  "al_color_of a reg = view_get 0 (elems (al_colors a)) reg"

text \<open>\<open>avail_colors_.find(true)\<close>, converted to the 32 bits of a \<open>Color\<close>.\<close>

definition al_lowest :: "ffs_config \<Rightarrow> allocator \<Rightarrow> nat" where
  "al_lowest cfg a = bs_find cfg (al_avail a) True 0 NoPos64 mod 2 ^ 32"

definition al_unclobber :: "nat \<Rightarrow> allocator \<Rightarrow> allocator" where
  "al_unclobber nb a =
     (if al_color_of a nb = NoColor
      then let h = al_hint_of a nb
           in if h \<noteq> NoColor then a\<lparr>al_avail := bs_set (al_avail a) h False\<rparr> else a
      else a)"

definition al_try_satisfy_hints :: "ffs_config \<Rightarrow> nat \<Rightarrow> allocator \<Rightarrow> (nat \<times> allocator) option" where
  "al_try_satisfy_hints cfg reg a =
     (let h = al_hint_of a reg
      in if h \<noteq> NoColor \<and> bs_get (al_avail a) h then Some (h, a)
         else case al_scan cfg (al_g2 a) reg al_unclobber 0 a of
                None \<Rightarrow> None
              | Some a1 \<Rightarrow> Some (al_lowest cfg a1, a1))"

definition al_set_color :: "nat \<Rightarrow> nat \<Rightarrow> allocator \<Rightarrow> allocator" where
  "al_set_color reg color a =
     a\<lparr>al_colors := (al_colors a)\<lparr>elems := span_set (elems (al_colors a)) reg color\<rparr>\<rparr>"

text \<open>
  One iteration of \<open>assign_colors\<close>: the second half, from the search of the lowest color, and the
  whole.
\<close>

definition al_choose_color :: "ffs_config \<Rightarrow> u32 \<Rightarrow> nat \<Rightarrow> allocator \<Rightarrow> allocator option" where
  "al_choose_color cfg k reg a =
     (let color = al_lowest cfg a
      in if elems (al_hints a) \<noteq> []
         then case al_try_satisfy_hints cfg reg a of
                None \<Rightarrow> None
              | Some (alt, a1) \<Rightarrow>
                  Some (al_set_color reg
                    (if alt \<noteq> NoColor \<and> (alt < unat k \<or> unat k \<le> color) then alt else color) a1)
         else Some (al_set_color reg color a))"

definition al_assign_color :: "ffs_config \<Rightarrow> u32 \<Rightarrow> nat \<Rightarrow> allocator \<Rightarrow> allocator option" where
  "al_assign_color cfg k reg a0 =
     (let a1 = a0\<lparr>al_avail := bs_fill (al_avail a0) True 0 NoPos64\<rparr>
      in case al_scan cfg (al_g2 a1) reg (al_reconnect reg) 0 a1 of
           None \<Rightarrow> None
         | Some a2 \<Rightarrow>
             al_choose_color cfg k reg (a2\<lparr>al_g := graph_set (al_g a2) reg reg True\<rparr>))"

text \<open>The loop runs over the positions of the stack from the last one to the first.\<close>

fun al_assign_loop :: "ffs_config \<Rightarrow> u32 \<Rightarrow> nat list \<Rightarrow> allocator \<Rightarrow> allocator option" where
  "al_assign_loop cfg k [] a = Some a"
| "al_assign_loop cfg k (reg # regs) a =
     (case al_assign_color cfg k reg a of None \<Rightarrow> None | Some a1 \<Rightarrow> al_assign_loop cfg k regs a1)"

definition al_assign_colors :: "ffs_config \<Rightarrow> u32 \<Rightarrow> allocator \<Rightarrow> allocator option" where
  "al_assign_colors cfg k a = al_assign_loop cfg k (rev (elems (al_stack a))) a"

definition al_allocate_regs :: "ffs_config \<Rightarrow> alloc_oracle \<Rightarrow> u32 \<Rightarrow> allocator \<Rightarrow> allocator option" where
  "al_allocate_regs cfg ok k a =
     Option.bind (al_init ok a) (\<lambda>a1.
     Option.bind (al_simplify cfg ok k a1) (\<lambda>a2. al_assign_colors cfg k a2))"


subsection \<open>Well-formed allocators\<close>

text \<open>
  The invariant of an allocator for \<open>n\<close> registers: the stack and the hints have the capacity that
  makes the appends and the resize of \<open>add_hint\<close> succeed without allocating.
\<close>

definition al_ok :: "nat \<Rightarrow> allocator \<Rightarrow> bool" where
  "al_ok n a \<longleftrightarrow>
     graph_wf (al_g a) \<and> graph_size (al_g a) = n \<and> graph_wf (al_g2 a) \<and> graph_size (al_g2 a) = n \<and>
     arr_ok (al_stack a) \<and> n \<le> acap (al_stack a) \<and>
     arr_ok (al_hints a) \<and> n \<le> acap (al_hints a) \<and>
     (elems (al_hints a) = [] \<or> length (elems (al_hints a)) = n) \<and>
     arr_ok (al_colors a) \<and> length (elems (al_colors a)) = n \<and>
     bs_wf (al_avail a) \<and> bs_size (al_avail a) = n"

lemma al_ok_size: "al_ok n a \<Longrightarrow> n < NoPos32" "al_ok n a \<Longrightarrow> al_size a = n"
  by (auto simp: al_ok_def al_size_def graph_wf_def)

lemma al_ok_new:
  assumes "n < NoPos32" "\<And>k m. ok k m"
  shows "al_ok n (al_new ok n)" "\<not> graph_edge (al_g (al_new ok n)) x y" "elems (al_hints (al_new ok n)) = []"
proof -
  have "fst (bs_init (ok i) m)" and "fst (arr_init z (ok i) m)" for i m and z :: "'b"
    using assms(2) by (auto simp: bs_init_def arr_init_def Let_def)
  note ini = this
  note g = graph_new_wf [OF assms(1) ini(1) ini(2)]
  show "al_ok n (al_new ok n)" "\<not> graph_edge (al_g (al_new ok n)) x y" "elems (al_hints (al_new ok n)) = []"
    using g bs_init_success [OF ini(1), of 7 n] assms(2)
    by (auto simp: al_ok_def al_new_def arr_defs)
qed

lemma al_ok_reset:
  assumes wf: "al_ok m a" and n: "n < NoPos32" and good: "fst (al_reset ok n a)"
  shows "al_ok n (snd (al_reset ok n a))" "\<not> graph_edge (al_g (snd (al_reset ok n a))) x y"
    "elems (al_hints (snd (al_reset ok n a))) = []"
proof -
  let ?g = "graph_reset (ok 0) (ok 1) n (al_g a)" and ?g2 = "graph_reset (ok 2) (ok 3) n (al_g2 a)"
  let ?st = "arr_resize 0 (ok 4) n (al_stack a)" and ?hs = "arr_reserve (ok 5) n (arr_clear (al_hints a))"
  let ?cs = "arr_resize 0 (ok 6) n (al_colors a)" and ?av = "bs_resize (ok 7) n (al_avail a)"
  have all: "fst ?g" "fst ?g2" "fst ?st" "fst ?hs" "fst ?cs" "fst ?av"
    and eq: "snd (al_reset ok n a) = \<lparr>al_g = snd ?g, al_g2 = snd ?g2, al_stack = snd ?st,
      al_hints = snd ?hs, al_colors = snd ?cs, al_avail = snd ?av\<rparr>"
    using good by (simp_all add: al_reset_def Let_def case_prod_beta split: if_splits)
  have gw: "bs_wf (g_bits (al_g a))" "arr_ok (g_degree (al_g a))" "bs_wf (g_bits (al_g2 a))"
    "arr_ok (g_degree (al_g2 a))" "bs_wf (al_avail a)" "arr_ok (al_stack a)" "arr_ok (al_colors a)"
    using wf by (auto simp: al_ok_def graph_wf_def)
  note g = graph_reset_correct [OF gw(1,2) n all(1)] graph_reset_correct [OF gw(3,4) n all(2)]
  have st: "arr_ok (snd ?st)" "length (elems (snd ?st)) = n" "arr_ok (snd ?cs)" "length (elems (snd ?cs)) = n"
    using arr_resize_ok [OF gw(6), of 0 "ok 4" n] arr_resize_ok [OF gw(7), of 0 "ok 6" n]
      arr_resize_success [OF all(3)] arr_resize_success [OF all(5)] by auto
  then have "n \<le> acap (snd ?st)" by (simp add: arr_ok_def)
  moreover have "elems (snd ?hs) = []" "n \<le> acap (snd ?hs)"
    using all(4) by (auto simp: arr_reserve_def arr_clear_def split: if_splits)
  ultimately show "al_ok n (snd (al_reset ok n a))" "\<not> graph_edge (al_g (snd (al_reset ok n a))) x y"
    "elems (al_hints (snd (al_reset ok n a))) = []"
    unfolding eq using g st bs_get_resize(1,2) [OF gw(5) all(6)]
    by (simp_all add: al_ok_def) (simp add: arr_ok_def)
qed

text \<open>\<open>add_hint\<close> never fails: the resize stays within the capacity.\<close>

lemma al_add_hint_eq:
  assumes "al_ok n a"
  shows "al_add_hint ok reg color a = a\<lparr>al_hints := (al_hints a)\<lparr>elems :=
    (if elems (al_hints a) = [] then replicate n NoColor else elems (al_hints a))[reg := color]\<rparr>\<rparr>"
  using assms by (auto simp: al_add_hint_def al_ok_def arr_defs al_size_def)

lemma al_ok_add_hint: "al_ok n a \<Longrightarrow> al_ok n (al_add_hint ok reg color a)"
  by (auto simp: al_add_hint_eq) (auto simp: al_ok_def arr_ok_def)

lemma al_hint_of_add_hint:
  assumes "al_ok n a" "reg < n" "r < n"
  shows "al_hint_of (al_add_hint ok reg color a) r =
    (if r = reg then color else if elems (al_hints a) = [] then NoColor else al_hint_of a r)"
  using assms by (auto simp: al_add_hint_eq al_hint_of_def al_ok_def)

subsection \<open>Initialization\<close>

definition al_init_inv :: "nat \<Rightarrow> allocator \<Rightarrow> allocator \<Rightarrow> bool" where
  "al_init_inv m a b \<longleftrightarrow>
    graph_wf (al_g b) \<and> graph_size (al_g b) = graph_size (al_g a) \<and>
    (\<forall>x y. graph_edge (al_g b) x y = (graph_edge (al_g a) x y \<or> x = y \<and> x < m)) \<and>
    al_g2 b = al_g2 a \<and> al_stack b = al_stack a \<and> al_hints b = al_hints a \<and> al_avail b = al_avail a \<and>
    acap (al_colors b) = acap (al_colors a) \<and>
    elems (al_colors b) = replicate m NoColor @ drop m (elems (al_colors a))"

lemma al_init_fold:
  assumes "graph_wf (al_g a)" "m \<le> graph_size (al_g a)" "length (elems (al_colors a)) = graph_size (al_g a)"
  shows "al_init_inv m a (fold al_init_step [0..<m] a)"
  using assms(2)
proof (induction m)
  case (Suc m)
  define c where "c = fold al_init_step [0..<m] a"
  have inv: "al_init_inv m a c" using Suc by (simp add: c_def)
  then have IH: "graph_wf (al_g c)" "graph_size (al_g c) = graph_size (al_g a)"
    "\<And>x y. graph_edge (al_g c) x y = (graph_edge (al_g a) x y \<or> x = y \<and> x < m)"
    "elems (al_colors c) = replicate m NoColor @ drop m (elems (al_colors a))"
    by (auto simp: al_init_inv_def)
  have colors: "(replicate m NoColor @ drop m (elems (al_colors a)))[m := NoColor] =
      replicate (Suc m) NoColor @ drop (Suc m) (elems (al_colors a))"
    using Suc.prems assms(3)
    by (simp add: list_update_append drop_Suc tl_drop Cons_nth_drop_Suc [symmetric] replicate_append_same [symmetric])
  have edges: "graph_edge (graph_set (al_g c) m m True) x y = (graph_edge (al_g a) x y \<or> x = y \<and> x < Suc m)" for x y
    using graph_edge_set [OF IH(1), of m m True x y] Suc.prems IH(2,3) by auto
  have "elems (al_colors (al_init_step m c)) = replicate (Suc m) NoColor @ drop (Suc m) (elems (al_colors a))"
    unfolding al_init_step_def span_set_eq IH(4) colors by simp
  moreover have "\<forall>x y. graph_edge (al_g (al_init_step m c)) x y = (graph_edge (al_g a) x y \<or> x = y \<and> x < Suc m)"
    using edges by (simp add: al_init_step_def)
  moreover have "graph_wf (al_g (al_init_step m c)) \<and> graph_size (al_g (al_init_step m c)) = graph_size (al_g a) \<and>
    al_g2 (al_init_step m c) = al_g2 a \<and> al_stack (al_init_step m c) = al_stack a \<and>
    al_hints (al_init_step m c) = al_hints a \<and> al_avail (al_init_step m c) = al_avail a \<and>
    acap (al_colors (al_init_step m c)) = acap (al_colors a)"
    using inv graph_wf_set [OF IH(1), of m m True] by (simp add: al_init_step_def al_init_inv_def)
  ultimately have "al_init_inv (Suc m) a (al_init_step m c)" unfolding al_init_inv_def by blast
  then show ?case by (simp add: c_def)
qed (use assms in \<open>auto simp: al_init_inv_def\<close>)

text \<open>The edges of an interference graph with the self-connections that \<open>init\<close> adds.\<close>

definition looped :: "nat \<Rightarrow> graph \<Rightarrow> nat \<Rightarrow> nat \<Rightarrow> bool" where
  "looped n g x y \<longleftrightarrow> graph_edge g x y \<or> x = y \<and> x < n"

lemma looped_sym: "graph_wf g \<Longrightarrow> looped n g x y = looped n g y x"
  by (auto simp: looped_def graph_edge_sym)

lemma looped_bound: "graph_size g = n \<Longrightarrow> looped n g x y \<Longrightarrow> x < n \<and> y < n"
  by (auto simp: looped_def dest: graph_edge_bound)

lemma graph_reset_same_size:
  assumes "graph_wf g" shows "fst (graph_reset okb okd (graph_size g) g)"
  using assms by (auto simp: graph_wf_def graph_reset_def bs_resize_def arr_resize_def graph_size_def Let_def)

lemma al_init_correct:
  assumes ok: "al_ok n a"
  obtains a' where "al_init okk a = Some a'" "al_ok n a'" "elems (al_stack a') = []"
    "graph_edge (al_g a') = looped n (al_g a)" "graph_edge (al_g2 a') = looped n (al_g a)"
    "elems (al_colors a') = replicate n NoColor" "al_hints a' = al_hints a"
proof -
  let ?a0 = "a\<lparr>al_stack := arr_clear (al_stack a)\<rparr>"
  define a1 where "a1 = al_init_loop ?a0"
  have size: "al_size ?a0 = n" using ok by (simp add: al_ok_def al_size_def)
  have f: "graph_wf (al_g a1)" "graph_size (al_g a1) = n"
    "\<And>x y. graph_edge (al_g a1) x y = looped n (al_g a) x y"
    "al_g2 a1 = al_g2 a" "al_stack a1 = arr_clear (al_stack a)" "al_hints a1 = al_hints a"
    "al_avail a1 = al_avail a" "elems (al_colors a1) = replicate n NoColor"
    "acap (al_colors a1) = acap (al_colors a)"
    using al_init_fold [of ?a0 n] ok size
    by (auto simp: a1_def al_init_loop_def al_ok_def looped_def al_size_def al_init_inv_def)
  have g2: "bs_wf (g_bits (al_g2 a1))" "arr_ok (g_degree (al_g2 a1))"
    "fst (graph_reset (okk 0) (okk 1) (graph_size (al_g a1)) (al_g2 a1))"
    using ok f(2,4) graph_reset_same_size [of "al_g2 a"] by (auto simp: al_ok_def graph_wf_def)
  obtain g' where g': "graph_dup (okk 0) (okk 1) (al_g2 a1) (al_g a1) = Some (True, g')" "graph_wf g'"
    "graph_size g' = graph_size (al_g a1)" "graph_edge g' = graph_edge (al_g a1)"
    by (rule graph_dup_correct [OF g2(1,2) f(1) g2(3)])
  have e: "graph_edge (al_g a1) = looped n (al_g a)" using f(3) by (intro ext)
  show thesis
  proof (rule that [of "a1\<lparr>al_g2 := g'\<rparr>"])
    show "al_init okk a = Some (a1\<lparr>al_g2 := g'\<rparr>)"
      using g'(1) by (simp add: al_init_def a1_def Let_def)
    show "al_ok n (a1\<lparr>al_g2 := g'\<rparr>)"
      using ok f g' by (auto simp: al_ok_def arr_defs)
  qed (use f g' e in \<open>auto simp: arr_clear_def\<close>)
qed

subsection \<open>The simplify loops\<close>

text \<open>
  The state of the simplify loops: the graph is the given relation without the registers on the
  stack, which are different and are never more than the stack can hold.
\<close>

definition al_simpl :: "nat \<Rightarrow> (nat \<Rightarrow> nat \<Rightarrow> bool) \<Rightarrow> allocator \<Rightarrow> allocator \<Rightarrow> bool" where
  "al_simpl n G a0 a \<longleftrightarrow>
     al_ok n a \<and> distinct (elems (al_stack a)) \<and> set (elems (al_stack a)) \<subseteq> {..<n} \<and>
     (\<forall>x y. graph_edge (al_g a) x y \<longleftrightarrow>
        G x y \<and> x \<notin> set (elems (al_stack a)) \<and> y \<notin> set (elems (al_stack a))) \<and>
     al_g2 a = al_g2 a0 \<and> al_hints a = al_hints a0 \<and> al_colors a = al_colors a0"

text \<open>The append cannot fail: the capacity of the stack is the number of registers.\<close>

lemma al_push_stack:
  assumes "al_ok n a" "length (elems (al_stack a)) < n"
  shows "al_stack (al_push cfg ok r a) = (al_stack a)\<lparr>elems := elems (al_stack a) @ [r]\<rparr>"
  using assms by (simp add: al_push_def al_ok_def arr_append_def arr_grow_def arr_grow_cap_def Let_def)

lemma length_less_of_subset: "distinct xs \<Longrightarrow> set xs \<subseteq> {..<n} \<Longrightarrow> r \<notin> set xs \<Longrightarrow> r < n \<Longrightarrow> length xs < n"
proof -
  assume *: "distinct xs" "set xs \<subseteq> {..<n}" "r \<notin> set xs" "r < n"
  then have "card (set xs) \<le> card ({..<n} - {r})" by (intro card_mono) auto
  with * show ?thesis by (simp add: distinct_card)
qed

lemma al_simpl_push:
  assumes inv: "al_simpl n G a0 a" and cfg: "cfg \<noteq> NO_FFS"
    and r: "r < n" "r \<notin> set (elems (al_stack a))"
  shows "al_simpl n G a0 (al_push cfg ok r a)"
    "elems (al_stack (al_push cfg ok r a)) = elems (al_stack a) @ [r]"
proof -
  have ok: "al_ok n a" and len: "length (elems (al_stack a)) < n"
    using inv r length_less_of_subset by (auto simp: al_simpl_def)
  note st = al_push_stack [OF ok len, of cfg ok r]
  then show "elems (al_stack (al_push cfg ok r a)) = elems (al_stack a) @ [r]" by simp
  have "graph_wf (al_g a)" using ok by (simp add: al_ok_def)
  note g = graph_remove_correct [OF this cfg, of r]
  have "al_ok n (al_push cfg ok r a)"
    using ok g(1,2) st len by (simp add: al_ok_def) (simp add: al_push_def arr_ok_def)
  then show "al_simpl n G a0 (al_push cfg ok r a)"
    using inv r st g(3) unfolding al_simpl_def by (auto simp: al_push_def)
qed

lemma al_find_degree_cases:
  assumes "al_ok n a"
  obtains (none) "al_find_degree_less_than k a = NoReg"
      "\<And>i. i < n \<Longrightarrow> \<not> (2 \<le> graph_degree (al_g a) i \<and> graph_degree (al_g a) i < 2 + k)"
  | (found) r where "al_find_degree_less_than k a = r" "r < n" "r \<noteq> NoReg"
      "2 \<le> graph_degree (al_g a) r" "graph_degree (al_g a) r < 2 + k"
proof (cases "first_in (\<lambda>i. let d = graph_degree (al_g a) i in 2 \<le> d \<and> d < 2 + k) 0 n")
  case None
  then have "al_find_degree_less_than k a = NoReg"
    using al_ok_size [OF assms] by (simp add: al_find_degree_less_than_def)
  with None show thesis using none by (simp add: first_in_None_iff Let_def)
next
  case (Some r)
  then have "al_find_degree_less_than k a = r"
    using al_ok_size [OF assms] by (simp add: al_find_degree_less_than_def)
  with Some show thesis
    using found [of r] al_ok_size [OF assms] by (simp add: first_in_Some_iff Let_def)
qed

text \<open>\<open>pick\<close>: the first register of highest degree, \<open>NoReg\<close> when all degrees are zero.\<close>

lemma al_pick_fold:
  fixes d :: "nat \<Rightarrow> u32"
  defines "f \<equiv> (\<lambda>i (reg, deg). let di = d i in if di > deg then (i, di) else (reg, deg))"
  shows "(\<forall>i<m. d i = 0) \<and> fold f [0..<m] (NoReg, 0) = (NoReg, 0) \<or>
    (\<exists>r<m. fold f [0..<m] (NoReg, 0) = (r, d r) \<and> d r \<noteq> 0 \<and> (\<forall>i<m. d i \<le> d r) \<and> (\<forall>i<r. d i < d r))"
proof (induction m)
  case (Suc m)
  then show ?case
  proof (elim disjE conjE exE)
    assume *: "\<forall>i<m. d i = 0" "fold f [0..<m] (NoReg, 0) = (NoReg, 0)"
    show ?thesis
    proof (cases "d m = 0")
      case True
      with * show ?thesis by (simp add: f_def less_Suc_eq)
    next
      case False
      then have "0 < d m" by (simp add: word_neq_0_conv)
      with * False show ?thesis by (intro disjI2 exI [of _ m]) (auto simp: f_def less_Suc_eq)
    qed
  next
    fix r
    assume *: "r < m" "fold f [0..<m] (NoReg, 0) = (r, d r)" "d r \<noteq> 0" "\<forall>i<m. d i \<le> d r" "\<forall>i<r. d i < d r"
    show ?thesis
    proof (cases "d r < d m")
      case True
      then have "d m \<noteq> 0" "\<forall>i<m. d i < d m" using *(4) by (auto intro: le_less_trans)
      with * True show ?thesis by (intro disjI2 exI [of _ m]) (auto simp: f_def less_Suc_eq Let_def)
    next
      case False
      with * show ?thesis by (intro disjI2 exI [of _ r]) (auto simp: f_def less_Suc_eq Let_def not_less)
    qed
  qed
qed simp

lemma al_pick_cases:
  assumes "al_ok n a"
  obtains (none) "al_pick a = NoReg" "\<And>i. i < n \<Longrightarrow> graph_degree (al_g a) i = 0"
  | (found) r where "al_pick a = r" "r < n" "r \<noteq> NoReg" "graph_degree (al_g a) r \<noteq> 0"
      "\<And>i. i < n \<Longrightarrow> graph_degree (al_g a) i \<le> graph_degree (al_g a) r"
      "\<And>i. i < r \<Longrightarrow> graph_degree (al_g a) i < graph_degree (al_g a) r"
  using al_pick_fold [of n "graph_degree (al_g a)"] al_ok_size [OF assms]
  by (force simp: al_pick_def)

lemma al_present:
  assumes "al_simpl n G a0 a" "graph_degree (al_g a) r \<noteq> 0"
  shows "r \<notin> set (elems (al_stack a))"
  using assms graph_degree_0_iff [of "al_g a" r] by (auto simp: al_simpl_def al_ok_def)

text \<open>
  The neighbours, other than itself, that a register has among those not in \<open>S\<close>; a stack is
  \<open>k\<close>-reducible when every register had less than \<open>k\<close> of them at the time it was pushed.
\<close>

definition others :: "(nat \<Rightarrow> nat \<Rightarrow> bool) \<Rightarrow> nat \<Rightarrow> nat set \<Rightarrow> nat set" where
  "others G r S = {b. G r b \<and> b \<noteq> r \<and> b \<notin> S}"

definition reducible :: "nat \<Rightarrow> (nat \<Rightarrow> nat \<Rightarrow> bool) \<Rightarrow> nat list \<Rightarrow> bool" where
  "reducible k G st \<longleftrightarrow> (\<forall>i<length st. card (others G (st ! i) (set (take i st))) < k)"

lemma reducible_Nil [simp]: "reducible k G []" by (simp add: reducible_def)

lemma reducible_snoc: "reducible k G (st @ [r]) \<longleftrightarrow> reducible k G st \<and> card (others G r (set st)) < k"
  by (auto simp: reducible_def nth_append less_Suc_eq)

lemma al_degree_others:
  assumes inv: "al_simpl n G a0 a" and r: "G r r" "r \<notin> set (elems (al_stack a))"
  shows "unat (graph_degree (al_g a) r) = card (others G r (set (elems (al_stack a)))) + 2"
proof -
  have wf: "graph_wf (al_g a)" and size: "graph_size (al_g a) = n"
    and e: "\<And>x y. graph_edge (al_g a) x y \<longleftrightarrow> G x y \<and> x \<notin> set (elems (al_stack a)) \<and> y \<notin> set (elems (al_stack a))"
    using inv by (auto simp: al_simpl_def al_ok_def)
  have self: "graph_edge (al_g a) r r" using e r by simp
  have "{b. graph_edge (al_g a) r b} = insert r (others G r (set (elems (al_stack a))))"
    using r by (auto simp: e others_def)
  moreover have "finite (others G r (set (elems (al_stack a))))"
    by (rule finite_subset [OF _ ig.finite_neighbours [of "al_g a" r]]) (use r in \<open>auto simp: others_def e\<close>)
  moreover have "r \<notin> others G r (set (elems (al_stack a)))" by (simp add: others_def)
  ultimately show ?thesis
    using unat_graph_degree [OF wf, of r] graph_edge_bound [OF self] self by (simp add: graph_count_eq)
qed

lemma al_reduce_correct:
  assumes "al_simpl n G a0 a" "cfg \<noteq> NO_FFS" "\<And>x. x < n \<Longrightarrow> G x x" "\<And>x y. G x y \<Longrightarrow> x < n \<and> y < n"
    "unat k < 2 ^ 32 - 2"
  shows "\<exists>a'. al_reduce cfg ok k a = Some a' \<and> al_simpl n G a0 a' \<and>
    length (elems (al_stack a)) \<le> length (elems (al_stack a')) \<and>
    (reducible (unat k) G (elems (al_stack a)) \<longrightarrow> reducible (unat k) G (elems (al_stack a'))) \<and>
    (\<forall>r<n. r \<notin> set (elems (al_stack a')) \<longrightarrow>
       unat k \<le> card (others G r (set (elems (al_stack a')))))"
  using assms(1)
proof (induction "n - length (elems (al_stack a))" arbitrary: a rule: less_induct)
  case less
  have ok: "al_ok n a" using less.prems by (simp add: al_simpl_def)
  have k2: "unat (2 + k) = unat k + 2" using assms(5) by (simp add: unat_word_ariths)
  have small: "graph_degree (al_g a) r < 2 + k \<longleftrightarrow> card (others G r (set (elems (al_stack a)))) < unat k"
    and big: "2 \<le> graph_degree (al_g a) r"
    if "r < n" "r \<notin> set (elems (al_stack a))" for r
    using al_degree_others [OF less.prems assms(3) [OF that(1)] that(2)]
    by (simp_all add: word_less_nat_alt word_le_nat_alt k2)
  show ?case
  proof (cases rule: al_find_degree_cases [OF ok, of k, case_names none found])
    case none
    then have "al_reduce cfg ok k a = Some a" by (subst al_reduce.simps) (simp add: Let_def)
    moreover have "unat k \<le> card (others G r (set (elems (al_stack a))))"
      if "r < n" "r \<notin> set (elems (al_stack a))" for r
      using none(2) [OF that(1)] small [OF that] big [OF that] by (simp add: not_less)
    ultimately show ?thesis using less.prems by auto
  next
    case (found r)
    have "graph_degree (al_g a) r \<noteq> 0"
    proof
      assume "graph_degree (al_g a) r = 0"
      with found(4) show False by simp
    qed
    then have new: "r \<notin> set (elems (al_stack a))" by (rule al_present [OF less.prems])
    note p = al_simpl_push [OF less.prems assms(2) found(2) new, of ok]
    have eq: "al_reduce cfg ok k a = al_reduce cfg ok k (al_push cfg ok r a)"
      using found by (subst al_reduce.simps) (simp add: Let_def)
    have "length (elems (al_stack a)) < n"
      using less.prems found new length_less_of_subset by (auto simp: al_simpl_def)
    then have "n - length (elems (al_stack (al_push cfg ok r a))) < n - length (elems (al_stack a))"
      using p(2) by simp
    from less.hyps [OF this p(1)] obtain a' where "al_reduce cfg ok k (al_push cfg ok r a) = Some a'" "al_simpl n G a0 a'"
      "Suc (length (elems (al_stack a))) \<le> length (elems (al_stack a'))"
      "reducible (unat k) G (elems (al_stack a) @ [r]) \<longrightarrow> reducible (unat k) G (elems (al_stack a'))"
      "\<forall>r<n. r \<notin> set (elems (al_stack a')) \<longrightarrow> unat k \<le> card (others G r (set (elems (al_stack a'))))"
      unfolding p(2) by auto
    then show ?thesis
      using eq small [OF found(2) new] found by (auto simp: reducible_snoc)
  qed
qed

text \<open>A relation that can be taken apart by removing registers with less than \<open>k\<close> neighbours.\<close>

definition degenerate :: "nat \<Rightarrow> nat \<Rightarrow> (nat \<Rightarrow> nat \<Rightarrow> bool) \<Rightarrow> bool" where
  "degenerate n k G \<longleftrightarrow> (\<forall>S \<subset> {..<n}. \<exists>r<n. r \<notin> S \<and> card (others G r S) < k)"

lemma al_simplify_correct:
  assumes "al_simpl n G a0 a" "cfg \<noteq> NO_FFS" "\<And>x. x < n \<Longrightarrow> G x x" "\<And>x y. G x y \<Longrightarrow> x < n \<and> y < n"
    "unat k < 2 ^ 32 - 2"
  shows "\<exists>a'. al_simplify cfg ok k a = Some a' \<and> al_simpl n G a0 a' \<and> set (elems (al_stack a')) = {..<n} \<and>
    (degenerate n (unat k) G \<and> reducible (unat k) G (elems (al_stack a)) \<longrightarrow>
      reducible (unat k) G (elems (al_stack a')))"
  using assms(1)
proof (induction "n - length (elems (al_stack a))" arbitrary: a rule: less_induct)
  case less
  obtain a1 where a1: "al_reduce cfg ok k a = Some a1" "al_simpl n G a0 a1"
    "length (elems (al_stack a)) \<le> length (elems (al_stack a1))"
    "reducible (unat k) G (elems (al_stack a)) \<longrightarrow> reducible (unat k) G (elems (al_stack a1))"
    "\<And>r. r < n \<Longrightarrow> r \<notin> set (elems (al_stack a1)) \<Longrightarrow> unat k \<le> card (others G r (set (elems (al_stack a1))))"
    using al_reduce_correct [OF less.prems assms(2-5), of ok] by blast
  have sub: "set (elems (al_stack a1)) \<subseteq> {..<n}" and ok: "al_ok n a1" and dist: "distinct (elems (al_stack a1))"
    using a1(2) by (auto simp: al_simpl_def)
  show ?case
  proof (cases rule: al_pick_cases [OF ok, case_names none found])
    case none
    have "r \<in> set (elems (al_stack a1))" if "r < n" for r
      using al_degree_others [OF a1(2) assms(3) [OF that]] none(2) [OF that] by (cases "r \<in> set (elems (al_stack a1))") auto
    then have "set (elems (al_stack a1)) = {..<n}" using sub by auto
    moreover have "al_simplify cfg ok k a = Some a1"
      using a1(1) none by (subst al_simplify.simps) (simp add: Let_def)
    ultimately show ?thesis using a1 by auto
  next
    case (found r)
    have new: "r \<notin> set (elems (al_stack a1))" using al_present [OF a1(2)] found by auto
    note p = al_simpl_push [OF a1(2) assms(2) found(2) new, of ok]
    have eq: "al_simplify cfg ok k a = al_simplify cfg ok k (al_push cfg ok r a1)"
      using a1(1) found by (subst al_simplify.simps) (simp add: Let_def)
    have nondeg: "\<not> degenerate n (unat k) G"
    proof
      assume "degenerate n (unat k) G"
      moreover have "set (elems (al_stack a1)) \<subset> {..<n}" using sub new found(2) by auto
      ultimately obtain s where "s < n" "s \<notin> set (elems (al_stack a1))"
        "card (others G s (set (elems (al_stack a1)))) < unat k" by (auto simp: degenerate_def)
      with a1(5) [of s] show False by simp
    qed
    have "length (elems (al_stack a1)) < n"
      by (rule length_less_of_subset [OF dist sub new found(2)])
    then have "n - length (elems (al_stack (al_push cfg ok r a1))) < n - length (elems (al_stack a))"
      using a1(3) p(2) by simp
    from less.hyps [OF this p(1)] obtain a' where "al_simplify cfg ok k (al_push cfg ok r a1) = Some a'"
      "al_simpl n G a0 a'" "set (elems (al_stack a')) = {..<n}" by blast
    then show ?thesis using eq nondeg by auto
  qed
qed

subsection \<open>Scanning the neighbours\<close>

lemma al_scan_eq:
  assumes "graph_wf g" "cfg \<noteq> NO_FFS"
  shows "al_scan cfg g r body i s = Some (fold body (ig.neighbours g r i) s)"
proof (induction "graph_size g - i" arbitrary: i s rule: less_induct)
  case less
  let ?nb = "graph_first_set cfg g r i"
  have inv: "graph_wf g \<and> cfg \<noteq> NO_FFS" using assms by simp
  show ?case
  proof (cases "?nb = NoReg")
    case True
    then show ?thesis
      using ig.neighbours_step [OF inv, of r i] by (subst al_scan.simps) simp
  next
    case False
    then have "graph_size g - Suc ?nb < graph_size g - i" using ig.first_bounds [OF inv, of r i] by auto
    then show ?thesis
      using False ig.neighbours_step [OF inv, of r i] less [of "Suc ?nb" "body ?nb s"]
      by (subst al_scan.simps) (simp add: Let_def)
  qed
qed

lemma first_in_finite:
  assumes "finite F" "card F < n"
  obtains c where "first_in (\<lambda>c. c \<notin> F) 0 n = Some c" "c \<le> card F" "c \<notin> F" "c < n"
proof (cases "first_in (\<lambda>c. c \<notin> F) 0 n")
  case None
  then have "{..<n} \<subseteq> F" by (auto simp: first_in_None_iff)
  from card_mono [OF assms(1) this] have "n \<le> card F" by simp
  with assms(2) show thesis by simp
next
  case (Some c)
  then have "{..<c} \<subseteq> F" by (auto simp: first_in_Some_iff)
  from card_mono [OF assms(1) this] have "c \<le> card F" by simp
  with Some that show thesis by (auto simp: first_in_Some_iff)
qed

lemma al_lowest_eq:
  assumes "al_ok n a" "cfg \<noteq> NO_FFS"
  shows "al_lowest cfg a = pos32 (first_in (bs_get (al_avail a)) 0 n)"
proof -
  have n: "n < NoPos32" by (rule al_ok_size [OF assms(1)])
  then have "bs_wf (al_avail a) \<and> bs_size (al_avail a) \<le> NoPos64 \<and> cfg \<noteq> NO_FFS" "bs_size (al_avail a) = n"
    using assms NoPos32_less_NoPos64 by (auto simp: al_ok_def)
  then have "al_lowest cfg a = pos64 (first_in (bs_get (al_avail a)) 0 n) mod 2 ^ 32"
    using bsv.find_true [of "al_avail a" cfg] by (simp add: al_lowest_def)
  also have "\<dots> = pos32 (first_in (bs_get (al_avail a)) 0 n)"
  proof (cases "first_in (bs_get (al_avail a)) 0 n")
    case (Some c)
    then have "c < n" by (simp add: first_in_Some_iff)
    with Some n show ?thesis by (simp add: NoPos32_def)
  qed (simp add: NoPos64_def NoPos32_def)
  finally show ?thesis .
qed

subsection \<open>One coloring step\<close>

text \<open>The scans change nothing but the graph and the available colors.\<close>

definition al_same :: "allocator \<Rightarrow> allocator \<Rightarrow> bool" where
  "al_same a b \<longleftrightarrow> al_g2 a = al_g2 b \<and> al_stack a = al_stack b \<and> al_hints a = al_hints b \<and>
     al_colors a = al_colors b"

text \<open>
  The scan that adds a register back: \<open>S\<close> are the neighbours seen so far, \<open>D\<close> the registers colored
  before. The self-connection of \<open>r\<close> may or may not be there already.
\<close>

definition al_scanned :: "nat \<Rightarrow> (nat \<Rightarrow> nat \<Rightarrow> bool) \<Rightarrow> nat set \<Rightarrow> nat \<Rightarrow> nat set \<Rightarrow> allocator \<Rightarrow> allocator \<Rightarrow> bool" where
  "al_scanned n G D r S a0 a \<longleftrightarrow>
     al_ok n a \<and> al_same a0 a \<and>
     (\<forall>x y. (x, y) \<noteq> (r, r) \<longrightarrow> graph_edge (al_g a) x y \<longleftrightarrow>
        G x y \<and> x \<in> D \<and> y \<in> D \<or> x = r \<and> y \<in> S \<inter> D \<or> y = r \<and> x \<in> S \<inter> D) \<and>
     (\<forall>c. bs_get (al_avail a) c \<longleftrightarrow> c < n \<and> c \<notin> al_color_of a0 ` (S \<inter> D))"

lemma al_scanned_step:
  assumes inv: "al_scanned n G D r S a0 a" and r: "r < n" "r \<notin> D" and nb: "nb < n"
    and G: "\<And>x. x < n \<Longrightarrow> G x x" and nocolor: "al_color_of a0 r = NoColor"
  shows "al_scanned n G D r (insert nb S) a0 (al_reconnect r nb a)"
proof -
  have ok: "al_ok n a" and n: "n < NoColor" and gwf: "graph_wf (al_g a)" and gs: "graph_size (al_g a) = n"
    using inv al_ok_size by (auto simp: al_scanned_def al_ok_def)
  have e: "graph_edge (al_g a) x y \<longleftrightarrow> G x y \<and> x \<in> D \<and> y \<in> D \<or> x = r \<and> y \<in> S \<inter> D \<or> y = r \<and> x \<in> S \<inter> D"
    if "(x, y) \<noteq> (r, r)" for x y
    using inv that by (auto simp: al_scanned_def)
  have av: "bs_get (al_avail a) c \<longleftrightarrow> c < n \<and> c \<notin> al_color_of a0 ` (S \<inter> D)" for c
    using inv by (auto simp: al_scanned_def)
  have colors: "al_colors a = al_colors a0" using inv by (auto simp: al_scanned_def al_same_def)
  show ?thesis
  proof (cases "graph_degree (al_g a) nb = 0")
    case True
    then have "nb \<notin> D" using e [of nb nb] r(2) G [OF nb] by (auto simp: graph_degree_0_iff [OF gwf])
    then have "insert nb S \<inter> D = S \<inter> D" by auto
    with True inv show ?thesis by (simp add: al_scanned_def al_reconnect_def)
  next
    case False
    then obtain y where y: "graph_edge (al_g a) nb y" by (auto simp: graph_degree_0_iff [OF gwf])
    have nbD: "nb \<in> D \<or> nb = r" using y e [of nb y] by (cases "nb = r") auto
    let ?a = "al_reconnect r nb a"
    have a: "?a = a\<lparr>al_g := graph_set (al_g a) r nb True, al_avail := bs_set (al_avail a) (al_color_of a0 nb) False\<rparr>"
      using False by (simp add: al_reconnect_def al_color_of_def colors)
    have ok': "al_ok n ?a"
      using ok graph_wf_set [OF gwf] unfolding a by (simp add: al_ok_def bs_wf_set)
    moreover have "al_same a0 ?a"
      using inv unfolding a al_scanned_def al_same_def by simp
    moreover have "graph_edge (al_g ?a) x y \<longleftrightarrow> G x y \<and> x \<in> D \<and> y \<in> D \<or>
        x = r \<and> y \<in> insert nb S \<inter> D \<or> y = r \<and> x \<in> insert nb S \<inter> D" if "(x, y) \<noteq> (r, r)" for x y
      using e [OF that] nbD that r nb gs graph_edge_set [OF gwf, of r nb True x y]
      unfolding a by (auto simp: doubleton_eq_iff)
    moreover have "bs_get (al_avail ?a) c \<longleftrightarrow> c < n \<and> c \<notin> al_color_of a0 ` (insert nb S \<inter> D)" for c
    proof (cases "nb = r")
      case True
      then have "insert nb S \<inter> D = S \<inter> D" using r(2) by auto
      moreover have "bs_set (al_avail a) NoColor False = al_avail a"
        using ok n by (simp add: bs_set_def al_ok_def)
      ultimately show ?thesis using True av nocolor unfolding a by simp
    next
      case F: False
      have "bs_wf (al_avail a)" "bs_size (al_avail a) = n" using ok by (auto simp: al_ok_def)
      then show ?thesis using F nbD av unfolding a by (auto simp: bs_get_set)
    qed
    ultimately show ?thesis unfolding al_scanned_def by blast
  qed
qed

lemma al_scanned_fold:
  assumes "al_scanned n G D r S a0 a" "r < n" "r \<notin> D" "set ns \<subseteq> {..<n}"
    and "\<And>x. x < n \<Longrightarrow> G x x" "al_color_of a0 r = NoColor"
  shows "al_scanned n G D r (S \<union> set ns) a0 (fold (al_reconnect r) ns a)"
  using assms(1,4)
proof (induction ns arbitrary: S a)
  case (Cons nb ns)
  then have "al_scanned n G D r (insert nb S) a0 (al_reconnect r nb a)"
    using assms by (intro al_scanned_step) auto
  then show ?case using Cons.IH [of "insert nb S"] Cons.prems by simp
qed simp

text \<open>The scan that clears the hints of uncolored neighbours only makes colors unavailable.\<close>

lemma al_unclobber_fold:
  assumes "al_ok n a"
  shows "al_ok n (fold al_unclobber ns a) \<and> al_same a (fold al_unclobber ns a) \<and>
    al_g (fold al_unclobber ns a) = al_g a \<and>
    (\<forall>c. bs_get (al_avail (fold al_unclobber ns a)) c \<longrightarrow> bs_get (al_avail a) c)"
  using assms
proof (induction ns arbitrary: a)
  case Nil
  then show ?case by (simp add: al_same_def)
next
  case (Cons nb ns)
  have wf: "bs_wf (al_avail a)" using Cons.prems by (simp add: al_ok_def)
  have "al_ok n (al_unclobber nb a)" "al_same a (al_unclobber nb a)" "al_g (al_unclobber nb a) = al_g a"
    "\<And>c. bs_get (al_avail (al_unclobber nb a)) c \<Longrightarrow> bs_get (al_avail a) c"
    using Cons.prems by (auto simp: al_unclobber_def Let_def al_ok_def bs_wf_set bs_get_set [OF wf]
        al_same_def split: if_splits)
  note step = this
  from Cons.IH [OF step(1)] show ?case using step(2-4) by (auto simp: al_same_def)
qed

text \<open>
  The state of the coloring loop: \<open>D\<close> are the registers colored so far. The graph is the relation
  \<open>G\<close> restricted to them, their coloring is proper, and the hints of those that could have theirs
  are honoured.
\<close>

definition hint_kept :: "nat \<Rightarrow> u32 \<Rightarrow> (nat \<Rightarrow> nat \<Rightarrow> bool) \<Rightarrow> nat set \<Rightarrow> allocator \<Rightarrow> nat \<Rightarrow> bool" where
  "hint_kept n k G D a r \<longleftrightarrow>
     (elems (al_hints a) \<noteq> [] \<and> al_hint_of a r < n \<and> al_hint_of a r < unat k \<longrightarrow>
        al_color_of a r = al_hint_of a r \<or> (\<exists>b\<in>D. b \<noteq> r \<and> G r b \<and> al_color_of a b = al_hint_of a r))"

definition al_coloring :: "nat \<Rightarrow> (nat \<Rightarrow> nat \<Rightarrow> bool) \<Rightarrow> u32 \<Rightarrow> nat set \<Rightarrow> allocator \<Rightarrow> bool" where
  "al_coloring n G k D a \<longleftrightarrow>
     al_ok n a \<and> D \<subseteq> {..<n} \<and> graph_edge (al_g2 a) = G \<and>
     (\<forall>x y. graph_edge (al_g a) x y \<longleftrightarrow> G x y \<and> x \<in> D \<and> y \<in> D) \<and>
     (\<forall>r<n. r \<notin> D \<longrightarrow> al_color_of a r = NoColor) \<and>
     (\<forall>r\<in>D. al_color_of a r < n) \<and>
     (\<forall>x\<in>D. \<forall>y\<in>D. x \<noteq> y \<longrightarrow> G x y \<longrightarrow> al_color_of a x \<noteq> al_color_of a y) \<and>
     (\<forall>r\<in>D. hint_kept n k G D a r)"

lemma al_assign_color_scan:
  assumes inv: "al_coloring n G k D a" and cfg: "cfg \<noteq> NO_FFS" and r: "r < n" "r \<notin> D"
    and G: "\<And>x. x < n \<Longrightarrow> G x x" "\<And>x y. G x y = G y x"
  obtains a3 where "al_ok n a3" "al_same a a3"
    "\<And>x y. graph_edge (al_g a3) x y \<longleftrightarrow> G x y \<and> x \<in> insert r D \<and> y \<in> insert r D"
    "\<And>c. bs_get (al_avail a3) c \<longleftrightarrow> c < n \<and> c \<notin> al_color_of a ` {b\<in>D. G r b}"
    "al_assign_color cfg k r a = al_choose_color cfg k r a3"
proof -
  define a1 where "a1 = a\<lparr>al_avail := bs_fill (al_avail a) True 0 NoPos64\<rparr>"
  define ns where "ns = ig.neighbours (al_g2 a1) r 0"
  define a2 where "a2 = fold (al_reconnect r) ns a1"
  define a3 where "a3 = a2\<lparr>al_g := graph_set (al_g a2) r r True\<rparr>"
  have ok: "al_ok n a" and g2: "graph_wf (al_g2 a1)" "graph_edge (al_g2 a1) = G" "graph_size (al_g2 a1) = n"
    using inv by (auto simp: al_coloring_def al_ok_def a1_def)
  have ns: "set ns = {b. G r b}" "set ns \<subseteq> {..<n}"
    unfolding ns_def ig.set_neighbours g2 using graph_edge_bound [of "al_g2 a1"] g2 by auto
  have ok1: "al_ok n a1" using ok by (simp add: al_ok_def a1_def bs_wf_fill)
  have n: "n \<le> NoPos64" using al_ok_size [OF ok] NoPos32_less_NoPos64 by simp
  have av1: "bs_get (al_avail a1) c \<longleftrightarrow> c < n" for c
    using ok n bs_get_fill [of "al_avail a" True 0 NoPos64 c] bs_get_beyond [of "al_avail a" c]
    by (auto simp: a1_def al_ok_def split: if_splits)
  have "al_scanned n G D r {} a1 a1"
    using inv ok1 av1 unfolding al_scanned_def al_coloring_def
    by (auto simp: a1_def al_same_def)
  then have "al_scanned n G D r ({} \<union> set ns) a1 a2"
    unfolding a2_def using r G(1) inv ns(2)
    by (intro al_scanned_fold) (auto simp: a1_def al_coloring_def al_color_of_def)
  then have sc: "al_ok n a2" "al_same a1 a2"
    "\<And>x y. (x, y) \<noteq> (r, r) \<Longrightarrow> graph_edge (al_g a2) x y \<longleftrightarrow>
        G x y \<and> x \<in> D \<and> y \<in> D \<or> x = r \<and> y \<in> set ns \<inter> D \<or> y = r \<and> x \<in> set ns \<inter> D"
    "\<And>c. bs_get (al_avail a2) c \<longleftrightarrow> c < n \<and> c \<notin> al_color_of a1 ` (set ns \<inter> D)"
    by (auto simp: al_scanned_def)
  have gwf: "graph_wf (al_g a2)" "graph_size (al_g a2) = n" using sc(1) by (auto simp: al_ok_def)
  show thesis
  proof (rule that [of a3])
    show "al_ok n a3" using sc(1) graph_wf_set [OF gwf(1)] by (simp add: al_ok_def a3_def)
    show "al_same a a3" using sc(2) by (simp add: a3_def a1_def al_same_def)
    show "graph_edge (al_g a3) x y \<longleftrightarrow> G x y \<and> x \<in> insert r D \<and> y \<in> insert r D" for x y
    proof (cases "(x, y) = (r, r)")
      case True
      then show ?thesis
        using graph_edge_set [OF gwf(1), of r r True r r] gwf(2) r(1) G(1) [OF r(1)] by (simp add: a3_def)
    next
      case False
      then have "graph_edge (al_g a3) x y = graph_edge (al_g a2) x y"
        using graph_edge_set [OF gwf(1), of r r True x y] by (auto simp: a3_def)
      also have "\<dots> \<longleftrightarrow> G x y \<and> x \<in> D \<and> y \<in> D \<or> x = r \<and> G x y \<and> y \<in> D \<or> y = r \<and> G y x \<and> x \<in> D"
        unfolding sc(3) [OF False] ns(1) by blast
      finally show ?thesis using False G(2) [of x y] by blast
    qed
    have "set ns \<inter> D = {b\<in>D. G r b}" using ns by auto
    then show "bs_get (al_avail a3) c \<longleftrightarrow> c < n \<and> c \<notin> al_color_of a ` {b\<in>D. G r b}" for c
      using sc(4) [of c] by (simp add: a3_def a1_def al_color_of_def)
    have "al_scan cfg (al_g2 a1) r (al_reconnect r) 0 a1 = Some a2"
      unfolding a2_def ns_def by (rule al_scan_eq [OF g2(1) cfg])
    then show "al_assign_color cfg k r a = al_choose_color cfg k r a3"
      unfolding al_assign_color_def Let_def a1_def [symmetric]
      by (simp only: option.case a3_def [symmetric])
  qed
qed

lemma pos32_available:
  assumes "n < NoColor" "pos32 (first_in P 0 n) \<noteq> NoColor"
  shows "P (pos32 (first_in P 0 n))" "pos32 (first_in P 0 n) < n"
proof -
  obtain c where c: "first_in P 0 n = Some c" using assms(2) by (cases "first_in P 0 n") simp_all
  then have "P c" "c < n" by (simp_all add: first_in_Some_iff)
  with c show "P (pos32 (first_in P 0 n))" "pos32 (first_in P 0 n) < n" by simp_all
qed

lemma al_try_satisfy_hints_correct:
  assumes ok: "al_ok n a" and cfg: "cfg \<noteq> NO_FFS"
  obtains alt a' where "al_try_satisfy_hints cfg r a = Some (alt, a')" "al_ok n a'" "al_same a a'" "al_g a' = al_g a"
    "alt \<noteq> NoColor \<Longrightarrow> bs_get (al_avail a) alt"
    "bs_get (al_avail a) (al_hint_of a r) \<Longrightarrow> alt = al_hint_of a r"
proof (cases "al_hint_of a r \<noteq> NoColor \<and> bs_get (al_avail a) (al_hint_of a r)")
  case True
  then show thesis
    using that [of "al_hint_of a r" a] ok by (simp add: al_try_satisfy_hints_def Let_def al_same_def)
next
  case False
  let ?a = "fold al_unclobber (ig.neighbours (al_g2 a) r 0) a"
  have n: "n < NoColor" by (rule al_ok_size [OF ok])
  note un = al_unclobber_fold [OF ok, of "ig.neighbours (al_g2 a) r 0"]
  have "al_scan cfg (al_g2 a) r al_unclobber 0 a = Some ?a"
    by (rule al_scan_eq [OF _ cfg]) (use ok in \<open>simp add: al_ok_def\<close>)
  then have "al_try_satisfy_hints cfg r a = Some (al_lowest cfg ?a, ?a)"
    using False by (auto simp: al_try_satisfy_hints_def Let_def)
  moreover have "al_lowest cfg ?a \<noteq> NoColor \<Longrightarrow> bs_get (al_avail a) (al_lowest cfg ?a)"
    using pos32_available(1) [OF n, of "bs_get (al_avail ?a)"] un al_lowest_eq [of n ?a, OF _ cfg] by simp
  moreover have "\<not> bs_get (al_avail a) NoColor"
    using ok n bs_get_beyond [of "al_avail a" NoColor] by (simp add: al_ok_def)
  ultimately show thesis
    using that [of "al_lowest cfg ?a" ?a] un False by metis
qed

lemma al_assign_color_correct:
  assumes inv: "al_coloring n G k D a" and cfg: "cfg \<noteq> NO_FFS" and r: "r < n" "r \<notin> D"
    and G: "\<And>x. x < n \<Longrightarrow> G x x" "\<And>x y. G x y = G y x"
  obtains a' where "al_assign_color cfg k r a = Some a'" "al_coloring n G k (insert r D) a'"
    "al_hints a' = al_hints a" "al_stack a' = al_stack a"
    "\<And>x. x \<in> D \<Longrightarrow> al_color_of a' x = al_color_of a x"
    "card {b\<in>D. G r b} < unat k \<Longrightarrow> al_color_of a' r < unat k"
proof -
  let ?F = "al_color_of a ` {b\<in>D. G r b}"
  obtain a3 where a3: "al_ok n a3" "al_same a a3"
    "\<And>x y. graph_edge (al_g a3) x y \<longleftrightarrow> G x y \<and> x \<in> insert r D \<and> y \<in> insert r D"
    "\<And>c. bs_get (al_avail a3) c \<longleftrightarrow> c < n \<and> c \<notin> ?F"
    and step: "al_assign_color cfg k r a = al_choose_color cfg k r a3"
    using al_assign_color_scan [OF inv cfg r G] by blast
  have n: "n < NoColor" by (rule al_ok_size [OF a3(1)])
  have D: "D \<subseteq> {..<n}" "finite D" using inv finite_subset by (auto simp: al_coloring_def)
  have F: "finite ?F" "card ?F \<le> card {b\<in>D. G r b}" using D(2) by (auto intro: card_image_le)
  have "card {b\<in>D. G r b} < n"
  proof -
    have "{b\<in>D. G r b} \<subseteq> {..<n} - {r}" using D(1) r by auto
    then have "card {b\<in>D. G r b} \<le> card ({..<n} - {r})" by (rule card_mono [rotated]) simp
    with r(1) show ?thesis by simp
  qed
  with F(2) have "card ?F < n" by (rule le_less_trans)
  obtain low where
    low: "first_in (\<lambda>c. c \<notin> ?F) 0 n = Some low" "low \<le> card ?F" "low \<notin> ?F" "low < n"
    by (rule first_in_finite [OF F(1) \<open>card ?F < n\<close>])
  have "first_in (bs_get (al_avail a3)) 0 n = first_in (\<lambda>c. c \<notin> ?F) 0 n"
    by (rule first_in_cong) (simp add: a3(4))
  then have color: "al_lowest cfg a3 = low" using al_lowest_eq [OF a3(1) cfg] low(1) by simp
  obtain alt a4 where a4: "al_try_satisfy_hints cfg r a3 = Some (alt, a4)" "al_ok n a4" "al_same a3 a4" "al_g a4 = al_g a3"
    "alt \<noteq> NoColor \<Longrightarrow> bs_get (al_avail a3) alt"
    "bs_get (al_avail a3) (al_hint_of a3 r) \<Longrightarrow> alt = al_hint_of a3 r"
    using al_try_satisfy_hints_correct [OF a3(1) cfg, of r] by blast
  define hinted where "hinted \<longleftrightarrow> elems (al_hints a3) \<noteq> []"
  define b where "b = (if hinted then a4 else a3)"
  define c where "c = (if hinted \<and> alt \<noteq> NoColor \<and> (alt < unat k \<or> unat k \<le> low) then alt else low)"
  have eq: "al_assign_color cfg k r a = Some (al_set_color r c b)"
    unfolding step by (simp add: al_choose_color_def b_def c_def hinted_def color a4(1) Let_def)
  have b: "al_ok n b" "al_same a b" "al_g b = al_g a3" using a3 a4 by (auto simp: b_def al_same_def)
  have c: "c < n" "c \<notin> ?F" using a4(5) a3(4) low by (auto simp: c_def)
  have small: "c < unat k" if "card {b\<in>D. G r b} < unat k"
    using that low(2) F(2) by (auto simp: c_def)
  have hint: "c = al_hint_of a r" if "hinted" "al_hint_of a r < n" "al_hint_of a r < unat k" "al_hint_of a r \<notin> ?F"
  proof -
    have "al_hint_of a3 r = al_hint_of a r" using a3(2) by (simp add: al_hint_of_def al_same_def)
    then have "alt = al_hint_of a r" using a4(6) a3(4) that by simp
    with that n show ?thesis by (simp add: c_def)
  qed
  let ?a' = "al_set_color r c b"
  have len: "length (elems (al_colors b)) = n" using b(1) by (simp add: al_ok_def)
  have col: "al_color_of ?a' x = (if x = r then c else al_color_of a x)" for x
    using r(1) len b(2) by (auto simp: al_color_of_def al_set_color_def al_same_def view_get_update)
  have frame: "al_hints ?a' = al_hints a" "al_stack ?a' = al_stack a" "al_g2 ?a' = al_g2 a" "al_g ?a' = al_g a3"
    using b by (auto simp: al_set_color_def al_same_def)
  have "hint_kept n k G (insert r D) ?a' x" if "x \<in> insert r D" for x
  proof (cases "x = r")
    case True
    have "c = al_hint_of a r \<or> (\<exists>b\<in>D. b \<noteq> r \<and> G r b \<and> al_color_of a b = al_hint_of a r)"
      if "hinted" "al_hint_of a r < n" "al_hint_of a r < unat k"
      using hint [OF that] r(2) by (cases "al_hint_of a r \<in> ?F") auto
    moreover have "hinted \<longleftrightarrow> elems (al_hints a) \<noteq> []" "al_hint_of ?a' r = al_hint_of a r"
      using a3(2) by (auto simp: hinted_def al_same_def al_hint_of_def frame)
    ultimately show ?thesis
      using True r(2) unfolding hint_kept_def frame col by auto
  next
    case False
    then have "hint_kept n k G D a x" using that inv by (simp add: al_coloring_def)
    then show ?thesis using False r(2) by (auto simp: hint_kept_def col frame al_hint_of_def)
  qed
  moreover have "al_color_of ?a' x \<noteq> al_color_of ?a' y"
    if "x \<in> insert r D" "y \<in> insert r D" "x \<noteq> y" "G x y" for x y
    using that c(2) r(2) inv G(2) unfolding col al_coloring_def by auto
  moreover have "al_ok n ?a'" using b(1) by (simp add: al_ok_def al_set_color_def arr_ok_def)
  ultimately have coloring: "al_coloring n G k (insert r D) ?a'"
    using inv r a3(3) c(1) unfolding al_coloring_def by (auto simp: col frame)
  show thesis
  proof (rule that [OF eq coloring frame(1,2)])
    show "al_color_of ?a' x = al_color_of a x" if "x \<in> D" for x using that r(2) by (auto simp: col)
    show "al_color_of ?a' r < unat k" if "card {b\<in>D. G r b} < unat k" using small [OF that] by (simp add: col)
  qed
qed

text \<open>
  The registers are colored in the order opposite to the one in which they were pushed, so the
  colored neighbours of a register are those that were present when it was pushed.
\<close>

lemma al_assign_loop_correct:
  assumes "al_coloring n G k D a" "cfg \<noteq> NO_FFS" "distinct regs" "set regs \<subseteq> {..<n} - D"
    and G: "\<And>x. x < n \<Longrightarrow> G x x" "\<And>x y. G x y = G y x"
  shows "\<exists>a'. al_assign_loop cfg k regs a = Some a' \<and> al_coloring n G k (D \<union> set regs) a' \<and>
    al_hints a' = al_hints a \<and> al_stack a' = al_stack a \<and>
    (\<forall>x\<in>D. al_color_of a' x = al_color_of a x) \<and>
    ((\<forall>i<length regs. card {b \<in> D \<union> set (take i regs). G (regs ! i) b} < unat k) \<longrightarrow>
       (\<forall>r\<in>set regs. al_color_of a' r < unat k))"
  using assms(1,3,4)
proof (induction regs arbitrary: D a)
  case (Cons r regs)
  obtain a1 where a1: "al_assign_color cfg k r a = Some a1" "al_coloring n G k (insert r D) a1"
    "al_hints a1 = al_hints a" "al_stack a1 = al_stack a"
    "\<And>x. x \<in> D \<Longrightarrow> al_color_of a1 x = al_color_of a x"
    "card {b\<in>D. G r b} < unat k \<Longrightarrow> al_color_of a1 r < unat k"
    by (rule al_assign_color_correct [OF Cons.prems(1) assms(2) _ _ G, of r]) (use Cons.prems in auto)
  obtain a' where a': "al_assign_loop cfg k regs a1 = Some a'" "al_coloring n G k (insert r D \<union> set regs) a'"
    "al_hints a' = al_hints a1" "al_stack a' = al_stack a1"
    "\<forall>x\<in>insert r D. al_color_of a' x = al_color_of a1 x"
    "(\<forall>i<length regs. card {b \<in> insert r D \<union> set (take i regs). G (regs ! i) b} < unat k) \<longrightarrow>
       (\<forall>r\<in>set regs. al_color_of a' r < unat k)"
    using Cons.IH [OF a1(2)] Cons.prems by auto
  have "al_color_of a' x < unat k"
    if *: "\<forall>i<length (r # regs). card {b \<in> D \<union> set (take i (r # regs)). G ((r # regs) ! i) b} < unat k"
      and x: "x \<in> set (r # regs)" for x
  proof -
    have "card {b \<in> D. G r b} < unat k" using * [rule_format, of 0] by simp
    then have "al_color_of a' r < unat k" using a1(6) a'(5) by simp
    moreover have "\<forall>i<length regs. card {b \<in> insert r D \<union> set (take i regs). G (regs ! i) b} < unat k"
    proof (intro allI impI)
      fix i assume "i < length regs"
      with * [rule_format, of "Suc i"]
      show "card {b \<in> insert r D \<union> set (take i regs). G (regs ! i) b} < unat k" by simp
    qed
    ultimately show ?thesis using a'(6) x by auto
  qed
  then show ?case using a1 a' by auto
qed simp

lemma reducible_rev:
  assumes "reducible k G st" "distinct st" "i < length st" "\<And>x. finite {b. G x b}"
  shows "card {b \<in> set (take i (rev st)). G (rev st ! i) b} < k"
proof -
  define j where "j = length st - Suc i"
  have j: "j < length st" "rev st ! i = st ! j" "take i (rev st) = rev (drop (Suc j) st)"
    using assms(3) Suc_diff_Suc [OF assms(3)] by (auto simp: j_def rev_nth take_rev)
  have disj: "set (take j st) \<inter> set (drop (Suc j) st) = {}" "st ! j \<notin> set (drop (Suc j) st)"
    using assms(2) set_take_disj_set_drop_if_distinct [of st j "Suc j"] id_take_nth_drop [OF j(1)]
    by (auto simp: distinct_append) (metis distinct.simps(2) distinct_append)
  then have "{b \<in> set (drop (Suc j) st). G (st ! j) b} \<subseteq> others G (st ! j) (set (take j st))"
    by (auto simp: others_def)
  moreover have "finite (others G (st ! j) (set (take j st)))"
    by (rule finite_subset [OF _ assms(4) [of "st ! j"]]) (auto simp: others_def)
  ultimately have "card {b \<in> set (drop (Suc j) st). G (st ! j) b} \<le> card (others G (st ! j) (set (take j st)))"
    by (rule card_mono [rotated])
  also have "\<dots> < k" using assms(1) j(1) by (simp add: reducible_def)
  finally show ?thesis by (simp add: j(2,3))
qed

lemma others_looped: "others (looped n g) r S = others (graph_edge g) r S"
  by (auto simp: others_def looped_def)

subsection \<open>The allocation\<close>

lemma al_allocate_correct:
  assumes ok: "al_ok n a" and cfg: "cfg \<noteq> NO_FFS" and k: "unat k < 2 ^ 32 - 2"
  obtains a' where "al_allocate_regs cfg okk k a = Some a'" "al_hints a' = al_hints a"
    "al_coloring n (looped n (al_g a)) k {..<n} a'"
    "distinct (elems (al_stack a'))" "set (elems (al_stack a')) = {..<n}"
    "degenerate n (unat k) (graph_edge (al_g a)) \<Longrightarrow> \<forall>r<n. al_color_of a' r < unat k"
proof -
  let ?G = "looped n (al_g a)"
  have wf: "graph_wf (al_g a)" "graph_size (al_g a) = n" using ok by (auto simp: al_ok_def)
  have G: "\<And>x. x < n \<Longrightarrow> ?G x x" "\<And>x y. ?G x y \<Longrightarrow> x < n \<and> y < n" "\<And>x y. ?G x y = ?G y x"
    by (simp add: looped_def, rule looped_bound [OF wf(2)], assumption, rule looped_sym [OF wf(1)])
  obtain a1 where a1: "al_init okk a = Some a1" "al_ok n a1" "elems (al_stack a1) = []"
    "graph_edge (al_g a1) = ?G" "graph_edge (al_g2 a1) = ?G"
    "elems (al_colors a1) = replicate n NoColor" "al_hints a1 = al_hints a"
    by (rule al_init_correct [OF ok])
  have inv: "al_simpl n ?G a1 a1" using a1 by (simp add: al_simpl_def)
  obtain a2 where a2: "al_simplify cfg okk k a1 = Some a2" "al_simpl n ?G a1 a2" "set (elems (al_stack a2)) = {..<n}"
    "degenerate n (unat k) ?G \<Longrightarrow> reducible (unat k) ?G (elems (al_stack a2))"
    using al_simplify_correct [OF inv cfg G(1,2) k] a1(3) by auto
  have st: "distinct (elems (al_stack a2))" using a2(2) by (simp add: al_simpl_def)
  have "al_coloring n ?G k {} a2"
    using a2(2,3) a1 G(2) unfolding al_coloring_def al_simpl_def by (auto simp: al_color_of_def)
  from al_assign_loop_correct [OF this cfg _ _ G(1,3), of "rev (elems (al_stack a2))"] st a2(3)
  obtain a' where a': "al_assign_colors cfg k a2 = Some a'" "al_coloring n ?G k {..<n} a'"
    "al_hints a' = al_hints a2" "al_stack a' = al_stack a2"
    "(\<forall>i<length (elems (al_stack a2)).
       card {b \<in> set (take i (rev (elems (al_stack a2)))). ?G (rev (elems (al_stack a2)) ! i) b} < unat k) \<Longrightarrow>
     \<forall>r<n. al_color_of a' r < unat k"
    unfolding al_assign_colors_def by auto
  have fin: "finite {b. ?G x b}" for x by (rule finite_subset [of _ "{..<n}"]) (auto dest: G(2))
  show thesis
  proof (rule that [of a'])
    show "al_allocate_regs cfg okk k a = Some a'" using a1(1) a2(1) a'(1) by (simp add: al_allocate_regs_def)
    show "al_hints a' = al_hints a" using a'(3) a2(2) a1(7) by (simp add: al_simpl_def)
    assume deg: "degenerate n (unat k) (graph_edge (al_g a))"
    from deg have "reducible (unat k) ?G (elems (al_stack a2))"
      by (intro a2(4)) (simp add: degenerate_def others_looped)
    from reducible_rev [OF this st _ fin] a'(5) show "\<forall>r<n. al_color_of a' r < unat k" by blast
  qed (use a' a2(3) st in auto)
qed

lemma few_neighbours_degenerate:
  assumes "graph_size g = n" "\<And>r. r < n \<Longrightarrow> card {b. graph_edge g r b \<and> b \<noteq> r} < k"
  shows "degenerate n k (graph_edge g)"
  unfolding degenerate_def
proof (intro allI impI)
  fix S assume "S \<subset> {..<n}"
  then obtain r where r: "r < n" "r \<notin> S" by auto
  have "finite {b. graph_edge g r b \<and> b \<noteq> r}"
    by (rule finite_subset [OF _ ig.finite_neighbours [of g r]]) auto
  then have "card (others (graph_edge g) r S) \<le> card {b. graph_edge g r b \<and> b \<noteq> r}"
    by (rule card_mono) (auto simp: others_def)
  with r assms(2) [OF r(1)] show "\<exists>r<n. r \<notin> S \<and> card (others (graph_edge g) r S) < k" by auto
qed

subsection \<open>Properties\<close>

definition alloc_sample :: allocator where
  "alloc_sample =
     (let a = al_new (\<lambda>_ _. True) 3;
          b = al_add_hint (\<lambda>_ _. True) 2 1 a
      in b\<lparr>al_g := graph_set (graph_set (al_g b) 0 1 True) 1 2 True\<rparr>)"

lemma al_ok_connect: "al_ok n a \<Longrightarrow> al_ok n (a\<lparr>al_g := graph_set (al_g a) x y v\<rparr>)"
  by (simp add: al_ok_def graph_wf_set)

lemma alloc_sample_ok: "al_ok 3 alloc_sample"
  and alloc_sample_edge: "graph_edge (al_g alloc_sample) 0 1"
  and alloc_sample_hint: "al_hint_of alloc_sample 2 = 1" "elems (al_hints alloc_sample) \<noteq> []"
proof -
  let ?a = "al_new (\<lambda>_ _. True) 3"
  let ?b = "al_add_hint (\<lambda>_ _. True) 2 1 ?a"
  have new: "al_ok 3 ?a" by (rule al_ok_new) (simp_all add: NoPos32_def)
  have b: "al_ok 3 ?b" by (rule al_ok_add_hint [OF new])
  have "al_ok 3 (?b\<lparr>al_g := graph_set (graph_set (al_g ?b) 0 1 True) 1 2 True\<rparr>)"
    using al_ok_connect [OF al_ok_connect [OF b, of 0 1 True], of 1 2 True] by simp
  then show "al_ok 3 alloc_sample" by (simp add: alloc_sample_def Let_def)
  have wf: "graph_wf (al_g ?b)" "graph_size (al_g ?b) = 3" using b by (auto simp: al_ok_def)
  show "graph_edge (al_g alloc_sample) 0 1"
    using wf by (simp add: alloc_sample_def Let_def graph_edge_set graph_wf_set doubleton_eq_iff)
  show "al_hint_of alloc_sample 2 = 1"
    using al_hint_of_add_hint [OF new, of 2 2 "\<lambda>_ _. True" 1] by (simp add: alloc_sample_def Let_def al_hint_of_def)
  show "elems (al_hints alloc_sample) \<noteq> []"
    using al_ok_new(3) [of 3 "\<lambda>_ _. True"] by (simp add: alloc_sample_def Let_def al_add_hint_eq [OF new])
qed

lemma card_others_less: "graph_size g = n \<Longrightarrow> r < n \<Longrightarrow> card {b. graph_edge g r b \<and> b \<noteq> r} < n"
proof -
  assume n: "graph_size g = n" "r < n"
  have "card {b. graph_edge g r b \<and> b \<noteq> r} \<le> card ({..<n} - {r})"
    by (rule card_mono) (use n graph_edge_bound in auto)
  with n show ?thesis by simp
qed

text \<open>C4: register allocation always returns, every register gets a color below the number of
  registers, and two different registers that are connected in the interference graph never get the
  same color, whatever the number of colors and the hints.\<close>

theorem allocation_proper:
  assumes "al_ok n a" "cfg \<noteq> NO_FFS" "unat k < 2 ^ 32 - 2"
  shows "\<exists>a'. al_allocate_regs cfg ok k a = Some a' \<and> (\<forall>r<n. al_color_of a' r < n) \<and>
    (\<forall>x y. graph_edge (al_g a) x y \<and> x \<noteq> y \<longrightarrow> al_color_of a' x \<noteq> al_color_of a' y)"
proof -
  obtain a' where a': "al_allocate_regs cfg ok k a = Some a'" "al_coloring n (looped n (al_g a)) k {..<n} a'"
    using al_allocate_correct [OF assms] by metis
  have "x < n \<and> y < n" if "graph_edge (al_g a) x y" for x y
    using graph_edge_bound [OF that] assms(1) by (simp add: al_ok_def)
  with a' show ?thesis by (auto simp: al_coloring_def looped_def)
qed

lemma allocation_proper_witness:
  "\<exists>a'. al_allocate_regs HAVE_FFSL (\<lambda>_ _. False) 1 alloc_sample = Some a' \<and> al_color_of a' 0 \<noteq> al_color_of a' 1"
  using allocation_proper [OF alloc_sample_ok, of HAVE_FFSL 1 "\<lambda>_ _. False"] alloc_sample_edge by auto

text \<open>C8: Chaitin's guarantee. When the interference graph can be taken apart by repeatedly removing a
  register with less than k remaining neighbours, no register is spilled: all colors are below k,
  also when hints are followed.\<close>

theorem allocation_spills_nothing:
  assumes "al_ok n a" "cfg \<noteq> NO_FFS" "unat k < 2 ^ 32 - 2" "degenerate n (unat k) (graph_edge (al_g a))"
  shows "\<exists>a'. al_allocate_regs cfg ok k a = Some a' \<and> (\<forall>r<n. al_color_of a' r < unat k)"
  using al_allocate_correct [OF assms(1-3)] assms(4) by metis

lemma allocation_spills_nothing_witness:
  "\<exists>a'. al_allocate_regs HAVE_FFSL (\<lambda>_ _. False) 3 alloc_sample = Some a' \<and> (\<forall>r<3. al_color_of a' r < 3)"
proof -
  have "degenerate 3 3 (graph_edge (al_g alloc_sample))"
    using alloc_sample_ok by (intro few_neighbours_degenerate card_others_less) (simp_all add: al_ok_def)
  then show ?thesis
    using allocation_spills_nothing [OF alloc_sample_ok, of HAVE_FFSL 3 "\<lambda>_ _. False"] by simp
qed

text \<open>C9: hints are honoured. A register whose hint is an existing color gets it, unless a register
  it is connected to ends up with that color.\<close>

theorem allocation_honours_hints:
  assumes "al_ok n a" "cfg \<noteq> NO_FFS" "unat k < 2 ^ 32 - 2" "elems (al_hints a) \<noteq> []"
    and "r < n" "al_hint_of a r < n" "al_hint_of a r < unat k"
  shows "\<exists>a'. al_allocate_regs cfg ok k a = Some a' \<and>
    (al_color_of a' r = al_hint_of a r \<or>
     (\<exists>b. graph_edge (al_g a) r b \<and> b \<noteq> r \<and> al_color_of a' b = al_hint_of a r))"
proof -
  obtain a' where a': "al_allocate_regs cfg ok k a = Some a'" "al_hints a' = al_hints a"
    "al_coloring n (looped n (al_g a)) k {..<n} a'"
    using al_allocate_correct [OF assms(1-3)] by metis
  have "hint_kept n k (looped n (al_g a)) {..<n} a' r" using a'(3) assms(5) by (simp add: al_coloring_def)
  moreover have "al_hint_of a' r = al_hint_of a r" using a'(2) by (simp add: al_hint_of_def)
  ultimately show ?thesis
    using a' assms(4,6,7) unfolding hint_kept_def by (auto simp: looped_def)
qed

lemma allocation_honours_hints_witness:
  "\<exists>a'. al_allocate_regs HAVE_FFSL (\<lambda>_ _. False) 2 alloc_sample = Some a' \<and>
    (al_color_of a' 2 = 1 \<or> (\<exists>b. graph_edge (al_g alloc_sample) 2 b \<and> b \<noteq> 2 \<and> al_color_of a' b = 1))"
  using allocation_honours_hints [OF alloc_sample_ok, of HAVE_FFSL 2 2 "\<lambda>_ _. False"] alloc_sample_hint by simp

text \<open>C10: the allocation leaves the allocator well formed, puts back every edge it removed from the
  interference graph (adding the self-connections), and its stack is an order of all the registers.\<close>

theorem allocation_restores_graph:
  assumes "al_ok n a" "cfg \<noteq> NO_FFS" "unat k < 2 ^ 32 - 2"
  shows "\<exists>a'. al_allocate_regs cfg ok k a = Some a' \<and> al_ok n a' \<and>
    (\<forall>x y. graph_edge (al_g a') x y \<longleftrightarrow> graph_edge (al_g a) x y \<or> x = y \<and> x < n) \<and>
    distinct (elems (al_stack a')) \<and> set (elems (al_stack a')) = {..<n}"
proof -
  obtain a' where a': "al_allocate_regs cfg ok k a = Some a'" "al_coloring n (looped n (al_g a)) k {..<n} a'"
    "distinct (elems (al_stack a'))" "set (elems (al_stack a')) = {..<n}"
    using al_allocate_correct [OF assms] by metis
  have "x < n \<and> y < n" if "looped n (al_g a) x y" for x y
    using looped_bound [OF _ that] assms(1) by (simp add: al_ok_def)
  then have "graph_edge (al_g a') x y \<longleftrightarrow> looped n (al_g a) x y" for x y
    using a'(2) by (auto simp: al_coloring_def)
  with a' show ?thesis by (auto simp: al_coloring_def looped_def)
qed

lemma allocation_restores_graph_witness:
  "\<exists>a'. al_allocate_regs HAVE_FFSL (\<lambda>_ _. False) 1 alloc_sample = Some a' \<and> graph_edge (al_g a') 0 1"
  using allocation_restores_graph [OF alloc_sample_ok, of HAVE_FFSL 1 "\<lambda>_ _. False"] alloc_sample_edge by auto

end
