(* ===== verification/Kinds.thy ===== *)
theory Kinds imports Prelude begin

text \<open>
  \<open>Bits\<close>, \<open>Group\<close> and \<open>Kind\<close> of \<open>src/onejit/bits.hpp\<close>, \<open>group.hpp\<close>, \<open>kind.hpp\<close> and
  \<open>kind.cpp\<close>, and the saturating arithmetic of \<open>math.hpp\<close>.

  A \<open>Bits\<close> is the base-2 logarithm of a size, 255 for the size 0. A \<open>Kind\<close> is a byte: the base kind
  in the low 4 bits, the logarithm of the SIMD repetitions in the high ones. The enumeration's
  constants are abbreviations, so that the simplifier computes with them.
\<close>

subsection \<open>Bits\<close>

type_synonym bits = u8

abbreviation "eBits0 \<equiv> (255 :: bits)"
abbreviation "eBits1 \<equiv> (0 :: bits)"
abbreviation "eBits8 \<equiv> (3 :: bits)"
abbreviation "eBits16 \<equiv> (4 :: bits)"
abbreviation "eBits32 \<equiv> (5 :: bits)"
abbreviation "eBits64 \<equiv> (6 :: bits)"
abbreviation "eBits128 \<equiv> (7 :: bits)"

definition bits_is_zero :: "bits \<Rightarrow> bool" where
  "bits_is_zero b \<longleftrightarrow> b = eBits0"

text \<open>The size as a natural number; \<open>size_t(1) << val_\<close> is defined for logarithms below 64.\<close>

definition bits_val :: "bits \<Rightarrow> nat" where
  "bits_val b = (if bits_is_zero b then 0 else 2 ^ unat b)"

function uintlog2 :: "nat \<Rightarrow> u8 \<Rightarrow> u8" where
  "uintlog2 n accum = (if n = 0 then accum else uintlog2 (n div 2) (accum + 1))"
  by pat_completeness auto
termination by (relation "measure fst") auto

declare uintlog2.simps [simp del]

definition bits_of_size :: "nat \<Rightarrow> bits" where
  "bits_of_size n = uintlog2 n (- 1)"

definition bits_less :: "bits \<Rightarrow> bits \<Rightarrow> bool" where
  "bits_less a b \<longleftrightarrow> 1 + a < 1 + b"

definition bits_mul :: "bits \<Rightarrow> bits \<Rightarrow> bits" where
  "bits_mul a b = (if bits_is_zero a \<or> bits_is_zero b then eBits0 else a + b)"

definition bits_div :: "bits \<Rightarrow> bits \<Rightarrow> bits" where
  "bits_div a b = (if bits_is_zero a \<or> bits_less a b then eBits0 else a - b)"

lemma bits_less_iff:
  assumes "unat a < 64 \<or> bits_is_zero a" "unat b < 64 \<or> bits_is_zero b"
  shows "bits_less a b \<longleftrightarrow> bits_val a < bits_val b"
proof -
  have suc: "unat (1 + x) = Suc (unat x)" if "unat x < 64" for x :: bits
    using that by (simp add: unat_word_ariths)
  have zero: "(1 :: bits) + 255 = 0" by simp
  show ?thesis
    using assms
    by (auto simp: bits_less_def bits_val_def bits_is_zero_def word_less_nat_alt suc)
qed

lemma bits_val_mul:
  assumes "unat a < 64 \<or> bits_is_zero a" "unat b < 64 \<or> bits_is_zero b"
  shows "bits_val (bits_mul a b) = bits_val a * bits_val b"
proof (cases "bits_is_zero a \<or> bits_is_zero b")
  case False
  with assms have *: "unat (a + b) = unat a + unat b" "unat a + unat b < 128"
    by (auto simp: unat_word_ariths)
  then have "a + b \<noteq> 255" by auto
  with False * show ?thesis by (simp add: bits_mul_def bits_val_def bits_is_zero_def power_add)
qed (auto simp: bits_mul_def bits_val_def bits_is_zero_def)

lemma uintlog2_power: "2 ^ k \<le> n \<Longrightarrow> n < 2 ^ Suc k \<Longrightarrow> uintlog2 n a = a + of_nat (Suc k)"
proof (induction k arbitrary: n a)
  case 0
  then have "n = Suc 0" by simp
  then show ?case by (simp add: uintlog2.simps [of "Suc 0"] uintlog2.simps [of 0])
next
  case (Suc k)
  then have "uintlog2 (n div 2) (a + 1) = a + 1 + of_nat (Suc k)" by (intro Suc.IH) auto
  then show ?case using Suc.prems by (subst uintlog2.simps) auto
qed

lemma bits_val_of_size: "k < 64 \<Longrightarrow> bits_val (bits_of_size (2 ^ k)) = 2 ^ k"
proof -
  assume k: "k < 64"
  have "bits_of_size (2 ^ k) = of_nat k" 
    using uintlog2_power [of k "2 ^ k" "- 1"] by (simp add: bits_of_size_def)
  moreover have u: "unat (of_nat k :: bits) = k" using k by (simp add: unat_of_nat)
  moreover have "(of_nat k :: bits) \<noteq> 255"
  proof
    assume "(of_nat k :: bits) = 255"
    then have "unat (of_nat k :: bits) = 255" by simp
    with u k show False by simp
  qed
  ultimately show ?thesis using k by (simp add: bits_val_def bits_is_zero_def)
qed

subsection \<open>Group\<close>

datatype group = gVoid | gBool | gInt | gUint | gFloat | gPtr

subsection \<open>Kind\<close>

type_synonym kind = u8

abbreviation "eBad \<equiv> (0 :: kind)"
abbreviation "eVoid \<equiv> (1 :: kind)"
abbreviation "eBool \<equiv> (2 :: kind)"
abbreviation "eInt8 \<equiv> (3 :: kind)"
abbreviation "eInt16 \<equiv> (4 :: kind)"
abbreviation "eInt32 \<equiv> (5 :: kind)"
abbreviation "eInt64 \<equiv> (6 :: kind)"
abbreviation "eUint8 \<equiv> (7 :: kind)"
abbreviation "eUint16 \<equiv> (8 :: kind)"
abbreviation "eUint32 \<equiv> (9 :: kind)"
abbreviation "eUint64 \<equiv> (10 :: kind)"
abbreviation "eFloat16 \<equiv> (11 :: kind)"
abbreviation "eFloat32 \<equiv> (12 :: kind)"
abbreviation "eFloat64 \<equiv> (13 :: kind)"
abbreviation "eFloat128 \<equiv> (14 :: kind)"
abbreviation "ePtr \<equiv> (15 :: kind)"

definition kbits :: "bits list" where
  "kbits = [eBits0, eBits0, eBits1, eBits8, eBits16, eBits32, eBits64, eBits8, eBits16, eBits32, eBits64,
     eBits16, eBits32, eBits64, eBits128, eBits64]"

definition kgroup :: "group list" where
  "kgroup = [gVoid, gVoid, gBool, gInt, gInt, gInt, gInt, gUint, gUint, gUint, gUint,
     gFloat, gFloat, gFloat, gFloat, gPtr]"

definition kind_nosimd :: "kind \<Rightarrow> kind" where
  "kind_nosimd k = k AND 15"

definition kind_simdn :: "kind \<Rightarrow> bits" where
  "kind_simdn k = drop_bit 4 k"

definition kind_with_simdn :: "kind \<Rightarrow> bits \<Rightarrow> kind" where
  "kind_with_simdn k simd_n = (k AND 15) OR push_bit 4 simd_n"

definition kind_bits :: "kind \<Rightarrow> bits" where
  "kind_bits k = bits_mul (kbits ! unat (k AND 15)) (kind_simdn k)"

definition kind_bitsize :: "kind \<Rightarrow> nat" where
  "kind_bitsize k = bits_val (kind_bits k)"

definition kind_group :: "kind \<Rightarrow> group" where
  "kind_group k = kgroup ! unat (k AND 15)"

definition kind_is :: "kind \<Rightarrow> group list \<Rightarrow> bool" where
  "kind_is k gs \<longleftrightarrow> kind_group k \<in> set gs"

definition kind_is_float :: "kind \<Rightarrow> bool" where
  "kind_is_float k \<longleftrightarrow> k AND 15 = eFloat32 \<or> k AND 15 = eFloat64"

definition kind_is_integer :: "kind \<Rightarrow> bool" where
  "kind_is_integer k \<longleftrightarrow> kind_is k [gInt, gUint]"

definition kind_is_integer_or_ptr :: "kind \<Rightarrow> bool" where
  "kind_is_integer_or_ptr k \<longleftrightarrow> kind_is k [gInt, gUint, gPtr]"

definition kind_is_signed :: "kind \<Rightarrow> bool" where
  "kind_is_signed k \<longleftrightarrow> kind_is k [gInt, gFloat]"

definition kind_is_unsigned :: "kind \<Rightarrow> bool" where
  "kind_is_unsigned k \<longleftrightarrow> \<not> kind_is_signed k"

definition kind_is_ordered :: "kind \<Rightarrow> bool" where
  "kind_is_ordered k \<longleftrightarrow> kind_is k [gInt, gUint, gFloat, gPtr]"

lemmas kind_defs = kbits_def kgroup_def kind_nosimd_def kind_simdn_def kind_bits_def kind_bitsize_def
  kind_group_def kind_is_def kind_is_float_def kind_is_integer_def kind_is_integer_or_ptr_def
  kind_is_signed_def kind_is_unsigned_def kind_is_ordered_def bits_mul_def bits_val_def bits_is_zero_def

text \<open>The kinds without SIMD repetitions are the bytes below 16.\<close>

definition scalar_kinds :: "kind list" where
  "scalar_kinds = [0, 1, 2, 3, 4, 5, 6, 7, 8, 9, 10, 11, 12, 13, 14, 15]"

lemma kind_scalar: "k < (16 :: kind) \<Longrightarrow> k \<in> set scalar_kinds"
proof -
  assume "k < (16 :: kind)"
  then have "unat k < 16" by (simp add: word_less_nat_alt)
  then have "unat k \<in> set [0..<16]" by simp
  then have "word_of_nat (unat k) \<in> (word_of_nat ` set [0..<16] :: kind set)" by (rule imageI)
  then show ?thesis by (simp add: scalar_kinds_def upt_rec)
qed

subsection \<open>Saturating arithmetic\<close>

definition saturate_uint16 :: "u64 \<Rightarrow> u16" where
  "saturate_uint16 a = (if ucast (ucast a :: u16) = a then ucast a else - 1)"

definition saturate_uint32 :: "u64 \<Rightarrow> u32" where
  "saturate_uint32 a = (if ucast (ucast a :: u32) = a then ucast a else - 1)"

definition sub_uint16 :: "u64 \<Rightarrow> u64 \<Rightarrow> u16" where
  "sub_uint16 a b = (if a \<ge> b then saturate_uint16 (a - b) else 0)"

definition add_uint32 :: "u64 \<Rightarrow> u64 \<Rightarrow> u32" where
  "add_uint32 a b = saturate_uint32 (a + b)"

definition mul_uint32 :: "u64 \<Rightarrow> u64 \<Rightarrow> u32" where
  "mul_uint32 a b = saturate_uint32 (a * b)"

definition sub_uint32 :: "u64 \<Rightarrow> u64 \<Rightarrow> u32" where
  "sub_uint32 a b = (if a \<ge> b then saturate_uint32 (a - b) else 0)"

lemma unat_saturate_uint32: "unat (saturate_uint32 a) = min (unat a) (2 ^ 32 - 1)"
proof (cases "unat a < 2 ^ 32")
  case True
  then have "unat (ucast a :: u32) = unat a" by (simp add: unsigned_ucast_eq take_bit_nat_eq_self)
  then have "unat (ucast (ucast a :: u32) :: u64) = unat a"
    by (simp add: unsigned_ucast_eq unsigned_take_bit_eq take_bit_nat_eq_self)
  then have "ucast (ucast a :: u32) = a" by (simp add: word_unat_eq_iff)
  with True show ?thesis by (simp add: saturate_uint32_def unsigned_ucast_eq take_bit_nat_eq_self)
next
  case False
  have "unat (ucast (ucast a :: u32) :: u64) = take_bit 32 (unat a)"
    by (simp add: unsigned_ucast_eq unsigned_take_bit_eq)
  then have "unat (ucast (ucast a :: u32) :: u64) < 2 ^ 32"
    using take_bit_nat_less_exp [of 32 "unat a"] by (simp only:)
  with False have "ucast (ucast a :: u32) \<noteq> a" by auto
  with False show ?thesis by (simp add: saturate_uint32_def unsigned_minus_1_eq_mask mask_eq_exp_minus_1)
qed

end
