(* ===== verification/Ops.thy ===== *)
theory Ops imports Prelude begin

text \<open>
  The operators of expressions: \<open>Op1\<close>, \<open>Op2\<close> and \<open>OpN\<close> of \<open>src/onejit/op.hpp\<close> and \<open>op.cpp\<close>.
  The constants whose names are Isabelle syntax have the suffix of their enumeration.
\<close>

datatype op1 = BAD1 | XOR1 | NOT1 | NEG1 | CAST | BITCOPY

datatype op2 = BAD2 | SUB | QUO | REM | SHL | SHR | LAND | LOR | LSS | LEQ | NEQ | EQL | GTR | GEQ

datatype opn = BADN | ADDN | MULN | ANDN | ORN | XORN | MAXN | MINN | COMMA | CALL | MEM_OP
  | MIR_MEM | X86_MEM | ARM64_MEM | MIR_RETS

definition is_comparison :: "op2 \<Rightarrow> bool" where
  "is_comparison op \<longleftrightarrow> op \<in> {LSS, LEQ, NEQ, EQL, GTR, GEQ}"

fun swap_comparison :: "op2 \<Rightarrow> op2" where
  "swap_comparison LSS = GTR"
| "swap_comparison LEQ = GEQ"
| "swap_comparison GTR = LSS"
| "swap_comparison GEQ = LEQ"
| "swap_comparison op = op"

fun not_comparison :: "op2 \<Rightarrow> op2" where
  "not_comparison LSS = GEQ"
| "not_comparison LEQ = GTR"
| "not_comparison NEQ = EQL"
| "not_comparison EQL = NEQ"
| "not_comparison GTR = LEQ"
| "not_comparison GEQ = LSS"
| "not_comparison op = op"

definition is_arithmetic :: "opn \<Rightarrow> bool" where
  "is_arithmetic op \<longleftrightarrow> op \<in> {ADDN, MULN, ANDN, ORN, XORN, MAXN, MINN, COMMA}"

definition is_associative :: "opn \<Rightarrow> bool" where
  "is_associative op \<longleftrightarrow> op \<in> {ADDN, MULN, ANDN, ORN, XORN, MAXN, MINN, COMMA}"

definition is_commutative :: "opn \<Rightarrow> bool" where
  "is_commutative op \<longleftrightarrow> op \<in> {ADDN, MULN, ANDN, ORN, XORN, MAXN, MINN}"

definition is_bitwise :: "opn \<Rightarrow> bool" where
  "is_bitwise op \<longleftrightarrow> op \<in> {ANDN, ORN, XORN}"

lemmas op_class_defs = is_comparison_def is_arithmetic_def is_associative_def is_commutative_def is_bitwise_def

lemma swap_comparison_involutive [simp]: "swap_comparison (swap_comparison op) = op"
  by (cases op) simp_all

lemma not_comparison_involutive [simp]: "not_comparison (not_comparison op) = op"
  by (cases op) simp_all

end
