(* ===== verification/Floats.thy ===== *)
theory Floats imports Prelude begin

text \<open>
  The C++ types \<open>float\<close> and \<open>double\<close> as \<open>src/onejit/value.cpp\<close> uses them: IEEE 754 binary32 and
  binary64 with rounding to nearest, ties to even. The arithmetic is exact on the decoded numbers
  and rounds once. The language leaves the bits of a not-a-number result open; here they are those
  of the positive quiet one. A conversion to an integer type that cannot hold the truncated value
  is undefined behaviour: \<open>None\<close>.

  A format is the number \<open>fb\<close> of fraction bits and \<open>eb\<close> of exponent bits: 23 and 8, or 52 and 11.
\<close>

datatype fp = NaN | Inf bool | Fin bool nat int

text \<open>\<open>Fin s m e\<close> is \<open>(- 1) ^ s * m * 2 ^ e\<close>.\<close>

function bitlen :: "nat \<Rightarrow> nat" where
  "bitlen n = (if n = 0 then 0 else Suc (bitlen (n div 2)))"
  by pat_completeness auto
termination by (relation "measure id") auto

declare bitlen.simps [simp del]

definition fp_bias :: "nat \<Rightarrow> nat" where
  "fp_bias eb = 2 ^ (eb - 1) - 1"

text \<open>The exponent of the smallest positive number.\<close>

definition fp_emin :: "nat \<Rightarrow> nat \<Rightarrow> int" where
  "fp_emin fb eb = 1 - int (fp_bias eb) - int fb"

definition fp_decode :: "nat \<Rightarrow> nat \<Rightarrow> nat \<Rightarrow> fp" where
  "fp_decode fb eb n =
     (let s = n div 2 ^ (fb + eb) mod 2 = 1;
          x = n div 2 ^ fb mod 2 ^ eb;
          f = n mod 2 ^ fb
      in if x = 2 ^ eb - 1 then (if f = 0 then Inf s else NaN)
         else if x = 0 then Fin s f (fp_emin fb eb)
         else Fin s (2 ^ fb + f) (fp_emin fb eb + int x - 1))"

text \<open>Division of \<open>m\<close> by \<open>2 ^ d\<close>, to nearest, ties to even.\<close>

definition round_shift :: "nat \<Rightarrow> nat \<Rightarrow> nat" where
  "round_shift m d =
     (let q = m div 2 ^ d; r = m mod 2 ^ d
      in if 2 * r > 2 ^ d \<or> 2 * r = 2 ^ d \<and> odd q then Suc q else q)"

definition fp_sign_bit :: "nat \<Rightarrow> nat \<Rightarrow> bool \<Rightarrow> nat" where
  "fp_sign_bit fb eb s = (if s then 2 ^ (fb + eb) else 0)"

definition fp_encode :: "nat \<Rightarrow> nat \<Rightarrow> fp \<Rightarrow> nat" where
  "fp_encode fb eb x =
     (case x of
        NaN \<Rightarrow> (2 ^ eb - 1) * 2 ^ fb + 2 ^ (fb - 1)
      | Inf s \<Rightarrow> fp_sign_bit fb eb s + (2 ^ eb - 1) * 2 ^ fb
      | Fin s m e \<Rightarrow>
          fp_sign_bit fb eb s +
          (if m = 0 then 0
           else let q = max (e + int (bitlen m) - int (Suc fb)) (fp_emin fb eb);
                    m' = (if q \<le> e then m * 2 ^ nat (e - q) else round_shift m (nat (q - e)));
                    packed = nat (q - fp_emin fb eb) * 2 ^ fb + m'
                in min packed ((2 ^ eb - 1) * 2 ^ fb)))"

definition fp_neg :: "fp \<Rightarrow> fp" where
  "fp_neg x = (case x of NaN \<Rightarrow> NaN | Inf s \<Rightarrow> Inf (\<not> s) | Fin s m e \<Rightarrow> Fin (\<not> s) m e)"

definition fp_scaled :: "bool \<Rightarrow> nat \<Rightarrow> nat \<Rightarrow> int" where
  "fp_scaled s m d = (if s then - int (m * 2 ^ d) else int (m * 2 ^ d))"

definition fp_add :: "fp \<Rightarrow> fp \<Rightarrow> fp" where
  "fp_add x y =
     (case x of
        NaN \<Rightarrow> NaN
      | Inf s \<Rightarrow> (case y of NaN \<Rightarrow> NaN | Inf t \<Rightarrow> (if s = t then Inf s else NaN) | Fin t n f \<Rightarrow> Inf s)
      | Fin s m e \<Rightarrow>
          (case y of
             NaN \<Rightarrow> NaN
           | Inf t \<Rightarrow> Inf t
           | Fin t n f \<Rightarrow>
               (let g = min e f;
                    z = fp_scaled s m (nat (e - g)) + fp_scaled t n (nat (f - g))
                in if z = 0 then Fin (s \<and> t) 0 g else Fin (z < 0) (nat \<bar>z\<bar>) g)))"

definition fp_sub :: "fp \<Rightarrow> fp \<Rightarrow> fp" where
  "fp_sub x y = fp_add x (fp_neg y)"

definition fp_mul :: "fp \<Rightarrow> fp \<Rightarrow> fp" where
  "fp_mul x y =
     (case x of
        NaN \<Rightarrow> NaN
      | Inf s \<Rightarrow> (case y of NaN \<Rightarrow> NaN | Inf t \<Rightarrow> Inf (s \<noteq> t)
                 | Fin t n f \<Rightarrow> (if n = 0 then NaN else Inf (s \<noteq> t)))
      | Fin s m e \<Rightarrow>
          (case y of NaN \<Rightarrow> NaN | Inf t \<Rightarrow> (if m = 0 then NaN else Inf (s \<noteq> t))
           | Fin t n f \<Rightarrow> Fin (s \<noteq> t) (m * n) (e + f)))"

text \<open>The quotient has more than \<open>fb + 2\<close> bits and a last bit for the remainder, then is rounded.\<close>

definition fp_div :: "nat \<Rightarrow> fp \<Rightarrow> fp \<Rightarrow> fp" where
  "fp_div fb x y =
     (case x of
        NaN \<Rightarrow> NaN
      | Inf s \<Rightarrow> (case y of NaN \<Rightarrow> NaN | Inf t \<Rightarrow> NaN | Fin t n f \<Rightarrow> Inf (s \<noteq> t))
      | Fin s m e \<Rightarrow>
          (case y of NaN \<Rightarrow> NaN | Inf t \<Rightarrow> Fin (s \<noteq> t) 0 e
           | Fin t n f \<Rightarrow>
               (if n = 0 then (if m = 0 then NaN else Inf (s \<noteq> t))
                else let k = fb + 3 + bitlen n;
                         a = m * 2 ^ k;
                         q = 2 * (a div n) + (if a mod n = 0 then 0 else 1)
                     in Fin (s \<noteq> t) q (e - f - int k - 1))))"

definition fp_compare :: "fp \<Rightarrow> fp \<Rightarrow> (int \<Rightarrow> int \<Rightarrow> bool) \<Rightarrow> bool" where
  "fp_compare x y rel =
     (case x of
        NaN \<Rightarrow> False
      | Inf s \<Rightarrow> (case y of NaN \<Rightarrow> False
                 | Inf t \<Rightarrow> rel (if s then - 1 else 1) (if t then - 1 else 1)
                 | Fin t n f \<Rightarrow> rel (if s then - 1 else 1) 0)
      | Fin s m e \<Rightarrow>
          (case y of NaN \<Rightarrow> False | Inf t \<Rightarrow> rel 0 (if t then - 1 else 1)
           | Fin t n f \<Rightarrow>
               (let g = min e f
                in rel (fp_scaled s m (nat (e - g))) (fp_scaled t n (nat (f - g))))))"

definition fp_eq :: "fp \<Rightarrow> fp \<Rightarrow> bool" where "fp_eq x y = fp_compare x y (=)"
definition fp_less :: "fp \<Rightarrow> fp \<Rightarrow> bool" where "fp_less x y = fp_compare x y (<)"
definition fp_le :: "fp \<Rightarrow> fp \<Rightarrow> bool" where "fp_le x y = fp_compare x y (\<le>)"

definition fp_of_int :: "int \<Rightarrow> fp" where
  "fp_of_int i = Fin (i < 0) (nat \<bar>i\<bar>) 0"

text \<open>Conversion to an integer type with the given bounds: truncation towards zero.\<close>

definition fp_to_int :: "int \<Rightarrow> int \<Rightarrow> fp \<Rightarrow> int option" where
  "fp_to_int lo hi x =
     (case x of
        Fin s m e \<Rightarrow>
          (let a = (if 0 \<le> e then int (m * 2 ^ nat e) else int (m div 2 ^ nat (- e)));
               i = (if s then - a else a)
           in if lo \<le> i \<and> i \<le> hi then Some i else None)
      | _ \<Rightarrow> None)"

subsection \<open>binary32 and binary64\<close>

definition f32_decode :: "u32 \<Rightarrow> fp" where "f32_decode w = fp_decode 23 8 (unat w)"
definition f32_encode :: "fp \<Rightarrow> u32" where "f32_encode x = of_nat (fp_encode 23 8 x)"
definition f64_decode :: "u64 \<Rightarrow> fp" where "f64_decode w = fp_decode 52 11 (unat w)"
definition f64_encode :: "fp \<Rightarrow> u64" where "f64_encode x = of_nat (fp_encode 52 11 x)"

lemmas fp_defs = fp_decode_def fp_encode_def fp_bias_def fp_emin_def fp_sign_bit_def fp_neg_def fp_add_def
  fp_sub_def fp_mul_def fp_div_def fp_compare_def fp_eq_def fp_less_def fp_le_def fp_of_int_def
  fp_to_int_def fp_scaled_def round_shift_def

subsection \<open>Round trip\<close>

lemma bitlen_bounds: "n \<noteq> 0 \<Longrightarrow> 2 ^ (bitlen n - 1) \<le> n \<and> n < 2 ^ bitlen n \<and> 0 < bitlen n"
proof (induction n rule: bitlen.induct)
  case (1 n)
  show ?case
  proof (cases "n div 2 = 0")
    case True
    with 1 have "n = 1" by auto
    then show ?thesis by (simp add: bitlen.simps [of "Suc 0"] bitlen.simps [of 0])
  next
    case False
    with 1 have IH: "2 ^ (bitlen (n div 2) - 1) \<le> n div 2" "n div 2 < 2 ^ bitlen (n div 2)" "0 < bitlen (n div 2)" by auto
    have b: "bitlen n = Suc (bitlen (n div 2))" using 1(2) by (simp add: bitlen.simps [of n])
    obtain j where j: "bitlen (n div 2) = Suc j" using IH(3) by (cases "bitlen (n div 2)") auto
    show ?thesis using IH unfolding b j by auto
  qed
qed

lemma bitlen_le: "n < 2 ^ k \<Longrightarrow> bitlen n \<le> k"
proof (cases "n = 0")
  case False
  assume "n < 2 ^ k"
  with bitlen_bounds [OF False] have "(2::nat) ^ (bitlen n - 1) < 2 ^ k" by linarith
  then have "bitlen n - 1 < k" by simp
  then show ?thesis by simp
qed (simp add: bitlen.simps)

lemma bitlen_eq: "2 ^ k \<le> n \<Longrightarrow> n < 2 ^ Suc k \<Longrightarrow> bitlen n = Suc k"
proof -
  assume n: "2 ^ k \<le> n" "n < 2 ^ Suc k"
  then have nz: "n \<noteq> 0" by (metis le_zero_eq power_not_zero zero_neq_numeral)
  have "(2::nat) ^ k < 2 ^ bitlen n" using bitlen_bounds [OF nz] n by linarith
  then have "k < bitlen n" by simp
  with bitlen_le [OF n(2)] show ?thesis by simp
qed

text \<open>Decoding then encoding gives back the bits of every number that is not a not-a-number.\<close>

lemma fp_encode_decode:
  assumes fb: "0 < fb" and eb: "1 < eb" and n: "n < 2 ^ Suc (fb + eb)" and num: "fp_decode fb eb n \<noteq> NaN"
  shows "fp_encode fb eb (fp_decode fb eb n) = n"
proof -
  define x where "x = n div 2 ^ fb mod 2 ^ eb"
  define f where "f = n mod 2 ^ fb"
  define t where "t = n div 2 ^ (fb + eb)"
  have "n div 2 ^ (fb + eb) < 2" using n by (simp add: less_mult_imp_div_less)
  then have t: "t < 2" by (simp add: t_def)
  have split: "n = t * 2 ^ (fb + eb) + x * 2 ^ fb + f"
  proof -
    have "n div 2 ^ fb = t * 2 ^ eb + x"
      unfolding x_def t_def power_add div_mult2_eq by (rule div_mult_mod_eq [symmetric])
    moreover have "n = n div 2 ^ fb * 2 ^ fb + f" unfolding f_def by (rule div_mult_mod_eq [symmetric])
    ultimately have "n = (t * 2 ^ eb + x) * 2 ^ fb + f" by (simp only:)
    also have "\<dots> = t * 2 ^ (fb + eb) + x * 2 ^ fb + f" by (simp add: power_add algebra_simps)
    finally show ?thesis .
  qed
  have s: "fp_sign_bit fb eb (t mod 2 = 1) = t * 2 ^ (fb + eb)"
    using t by (cases "t = 0") (auto simp: fp_sign_bit_def)
  have f: "f < 2 ^ fb" by (simp add: f_def)
  have x: "x < 2 ^ eb" by (simp add: x_def)
  have fits: "x * 2 ^ fb + f < (2 ^ eb - 1) * 2 ^ fb" if "x \<noteq> 2 ^ eb - 1"
  proof -
    have "Suc x \<le> 2 ^ eb - 1" using x that by linarith
    then have "Suc x * 2 ^ fb \<le> (2 ^ eb - 1) * 2 ^ fb" by (rule mult_le_mono1)
    with f show ?thesis by simp
  qed
  consider (inf) "x = 2 ^ eb - 1" "f = 0" | (sub) "x \<noteq> 2 ^ eb - 1" "x = 0" | (norm) "x \<noteq> 2 ^ eb - 1" "x \<noteq> 0"
  proof -
    have "f = 0" if "x = 2 ^ eb - 1"
      using num that unfolding fp_decode_def Let_def x_def [symmetric] f_def [symmetric]
      by (simp split: if_splits)
    with inf sub norm show thesis by blast
  qed
  then show ?thesis
  proof cases
    case inf
    then have "fp_decode fb eb n = Inf (t mod 2 = 1)" by (simp add: fp_decode_def Let_def x_def f_def t_def)
    then show ?thesis using split inf by (simp add: fp_encode_def s [simplified])
  next
    case sub
    then have d: "fp_decode fb eb n = Fin (t mod 2 = 1) f (fp_emin fb eb)"
      by (simp add: fp_decode_def Let_def x_def f_def t_def)
    have "max (fp_emin fb eb + int (bitlen f) - int (Suc fb)) (fp_emin fb eb) = fp_emin fb eb"
      using bitlen_le [OF f] by simp
    then have "fp_encode fb eb (Fin (t mod 2 = 1) f (fp_emin fb eb)) = t * 2 ^ (fb + eb) + x * 2 ^ fb + f"
      using sub fits by (simp add: fp_encode_def s [simplified] Let_def)
    then show ?thesis unfolding d using split by (simp only:)
  next
    case norm
    then have d: "fp_decode fb eb n = Fin (t mod 2 = 1) (2 ^ fb + f) (fp_emin fb eb + int x - 1)"
      by (simp add: fp_decode_def Let_def x_def f_def t_def)
    have "bitlen (2 ^ fb + f) = Suc fb" using f by (intro bitlen_eq) simp_all
    then have q: "max (fp_emin fb eb + int x - 1 + int (bitlen (2 ^ fb + f)) - int (Suc fb)) (fp_emin fb eb) =
        fp_emin fb eb + int x - 1"
      using norm(2) by simp
    have "nat (int x - 1) * 2 ^ fb + (2 ^ fb + f) = x * 2 ^ fb + f"
      using norm(2) by (cases x) simp_all
    then have "fp_encode fb eb (Fin (t mod 2 = 1) (2 ^ fb + f) (fp_emin fb eb + int x - 1)) =
        t * 2 ^ (fb + eb) + x * 2 ^ fb + f"
      using norm fits unfolding fp_encode_def fp.case q Let_def s by (simp add: min_def)
    then show ?thesis unfolding d using split by (simp only:)
  qed
qed

end
