(* ===== verification/Values.thy ===== *)
theory Values imports Kinds Ops Floats "HOL-Library.Signed_Division" begin

text \<open>
  The constants of the IR: class \<open>Value\<close> of \<open>src/onejit/value.hpp\<close> and \<open>value.cpp\<close>, 64 bits and a
  kind. Values narrower than 64 bits are kept sign-extended (signed kinds) or zero-extended.

  An operation is a partial function: \<open>None\<close> is undefined behaviour of C++ (a division by zero or
  \<open>INT64_MIN / -1\<close>, a shift by 64 or more, a conversion from floating point out of range, a mask of
  a kind wider than 64 bits). The invalid value \<open>Value{}\<close> is \<open>bad_value\<close>.
\<close>

record val =
  vbits :: u64
  vkind :: kind

definition mk_val :: "kind \<Rightarrow> u64 \<Rightarrow> val" where
  "mk_val k b = \<lparr>vbits = b, vkind = k\<rparr>"

lemma mk_val_simps [simp]: "vbits (mk_val k b) = b" "vkind (mk_val k b) = k"
  by (simp_all add: mk_val_def)

lemma mk_val_eq_iff [simp]: "mk_val k b = mk_val k' b' \<longleftrightarrow> k = k' \<and> b = b'"
  by (auto simp: mk_val_def)

lemma val_eq_iff: "v = w \<longleftrightarrow> vkind v = vkind w \<and> vbits v = vbits w" for v w :: val
  by (cases v; cases w) auto

definition bad_value :: val where
  "bad_value = mk_val eBad 0"

definition val_is_valid :: "val \<Rightarrow> bool" where
  "val_is_valid v \<longleftrightarrow> vkind v \<noteq> eBad"

definition val_bool :: "bool \<Rightarrow> val" where
  "val_bool b = mk_val eBool (of_bool b)"

definition val_float32 :: "fp \<Rightarrow> val" where
  "val_float32 x = mk_val eFloat32 (ucast (f32_encode x))"

definition val_float64 :: "fp \<Rightarrow> val" where
  "val_float64 x = mk_val eFloat64 (f64_encode x)"

definition float32_of :: "val \<Rightarrow> fp" where
  "float32_of v = f32_decode (ucast (vbits v))"

definition float64_of :: "val \<Rightarrow> fp" where
  "float64_of v = f64_decode (vbits v)"

definition extend_or_truncate :: "kind \<Rightarrow> u64 \<Rightarrow> val option" where
  "extend_or_truncate k bits =
     (let bitsize = kind_bitsize k
      in if bitsize = 0 then Some (mk_val k 0)
         else if bitsize > 64 then None
         else let lomask = drop_bit (64 - bitsize) (- 1);
                  b = bits AND lomask
              in Some (mk_val k (if kind_is k [gInt] \<and> b AND drop_bit 1 lomask \<noteq> b
                                 then b OR NOT lomask else b)))"

definition val_bitcopy :: "val \<Rightarrow> kind \<Rightarrow> val option" where
  "val_bitcopy v to = extend_or_truncate to (vbits v)"

subsection \<open>cast\<close>

text \<open>
  The operand of a conversion to \<open>float\<close> or \<open>double\<close>; \<open>None\<close> is the \<open>default\<close> of the switches.
\<close>

definition cast_operand :: "val \<Rightarrow> fp option" where
  "cast_operand v =
     (let from = vkind v
      in if from = eVoid then Some (Fin False 0 0)
         else if from = eBool then Some (fp_of_int (of_bool (vbits v \<noteq> 0)))
         else if from \<in> {eInt8, eInt16, eInt32, eInt64} then Some (fp_of_int (sint (vbits v)))
         else if from \<in> {eUint8, eUint16, eUint32, eUint64, ePtr} then Some (fp_of_int (uint (vbits v)))
         else if from = eFloat32 then Some (float32_of v)
         else if from = eFloat64 \<or> from = eFloat128 then Some (float64_of v)
         else None)"

definition int_bounds :: "kind \<Rightarrow> (int \<times> int) option" where
  "int_bounds to =
     (if to = eInt8 then Some (- (2 ^ 7), 2 ^ 7 - 1)
      else if to = eInt16 then Some (- (2 ^ 15), 2 ^ 15 - 1)
      else if to = eInt32 then Some (- (2 ^ 31), 2 ^ 31 - 1)
      else if to = eInt64 then Some (- (2 ^ 63), 2 ^ 63 - 1)
      else if to = eUint8 then Some (0, 2 ^ 8 - 1)
      else if to = eUint16 then Some (0, 2 ^ 16 - 1)
      else if to = eUint32 then Some (0, 2 ^ 32 - 1)
      else if to = eUint64 \<or> to = ePtr then Some (0, 2 ^ 64 - 1)
      else None)"

text \<open>The two switches on the target kind, from \<open>float\<close> and from \<open>double\<close>.\<close>

definition cast_from_float :: "fp \<Rightarrow> kind \<Rightarrow> val option" where
  "cast_from_float f to =
     (if to = eVoid then Some (mk_val to 0)
      else if to = eBool then Some (mk_val to (of_bool (\<not> fp_eq f (Fin False 0 0))))
      else case int_bounds to of
        Some (lo, hi) \<Rightarrow> map_option (\<lambda>i. mk_val to (word_of_int i)) (fp_to_int lo hi f)
      | None \<Rightarrow>
          (if to = eFloat32 then Some (mk_val to (ucast (f32_encode f)))
           else if to = eFloat64 \<or> to = eFloat128 then Some (mk_val to (f64_encode f))
           else Some bad_value))"

definition val_cast :: "val \<Rightarrow> kind \<Rightarrow> val option" where
  "val_cast v to =
     (let from = vkind v
      in if from = to then Some v
         else if to = eFloat32 then
           Some (case cast_operand v of Some f \<Rightarrow> val_float32 f | None \<Rightarrow> bad_value)
         else if to = eFloat64 then
           Some (case cast_operand v of Some f \<Rightarrow> val_float64 f | None \<Rightarrow> bad_value)
         else if from = eFloat32 then cast_from_float (float32_of v) to
         else if from = eFloat64 then cast_from_float (float64_of v) to
         else extend_or_truncate to (vbits v))"

subsection \<open>Distinguished values\<close>

definition val_zero :: "kind \<Rightarrow> val" where
  "val_zero k = mk_val k 0"

definition val_one :: "kind \<Rightarrow> val option" where
  "val_one k = val_cast (mk_val eInt32 1) k"

definition val_minus_one :: "kind \<Rightarrow> val option" where
  "val_minus_one k = val_cast (mk_val eInt32 (- 1)) k"

definition val_max :: "kind \<Rightarrow> val option" where
  "val_max k =
     (if k = eFloat32 then Some (val_float32 (Inf False))
      else if k = eFloat64 then Some (val_float64 (Inf False))
      else let bitsize = kind_bitsize k
           in if bitsize > 64 then None
              else let bits = (if bitsize = 0 then 0 else drop_bit (64 - bitsize) (- 1))
                   in Some (mk_val k (if kind_is_signed k then drop_bit 1 bits else bits)))"

definition val_min :: "kind \<Rightarrow> val option" where
  "val_min k =
     (if kind_is_unsigned k then Some (val_zero k)
      else if k = eFloat32 then Some (val_float32 (Inf True))
      else if k = eFloat64 then Some (val_float64 (Inf True))
      else if kind_bitsize k = 0 \<or> kind_bitsize k > 64 then None
      else Some (mk_val k (push_bit (kind_bitsize k - 1) 1)))"

definition val_identity2 :: "kind \<Rightarrow> op2 \<Rightarrow> val option" where
  "val_identity2 k op =
     (case op of
        SUB \<Rightarrow> val_cast (mk_val eUint64 0) k
      | SHL \<Rightarrow> val_cast (mk_val eUint64 0) k
      | SHR \<Rightarrow> val_cast (mk_val eUint64 0) k
      | QUO \<Rightarrow> val_cast (mk_val eUint64 1) k
      | _ \<Rightarrow> Some bad_value)"

definition val_identity :: "kind \<Rightarrow> opn \<Rightarrow> val option" where
  "val_identity k op =
     (if is_bitwise op \<and> kind_is_float k then Some bad_value
      else case op of
        ADDN \<Rightarrow> val_cast (mk_val eUint64 0) k
      | ORN \<Rightarrow> val_cast (mk_val eUint64 0) k
      | XORN \<Rightarrow> val_cast (mk_val eUint64 0) k
      | MULN \<Rightarrow> val_cast (mk_val eUint64 1) k
      | ANDN \<Rightarrow> val_cast (mk_val eUint64 (- 1)) k
      | MAXN \<Rightarrow> val_min k
      | MINN \<Rightarrow> val_max k
      | COMMA \<Rightarrow> val_cast (mk_val eUint64 0) k
      | _ \<Rightarrow> Some bad_value)"

definition val_absorbing :: "kind \<Rightarrow> opn \<Rightarrow> val option" where
  "val_absorbing k op =
     (if is_bitwise op \<and> kind_is_float k then Some bad_value
      else case op of
        ORN \<Rightarrow> val_cast (mk_val eUint64 (- 1)) k
      | MULN \<Rightarrow> val_cast (mk_val eUint64 0) k
      | ANDN \<Rightarrow> val_cast (mk_val eUint64 0) k
      | MAXN \<Rightarrow> val_max k
      | MINN \<Rightarrow> val_min k
      | _ \<Rightarrow> Some bad_value)"

subsection \<open>Operators\<close>

definition is_float_kind :: "kind \<Rightarrow> bool" where
  "is_float_kind k \<longleftrightarrow> k = eFloat32 \<or> k = eFloat64"

definition val_not :: "val \<Rightarrow> val option" where
  "val_not a =
     (if is_float_kind (vkind a) then Some bad_value else extend_or_truncate (vkind a) (NOT (vbits a)))"

text \<open>The negation of a floating point number flips its sign bit.\<close>

definition val_neg :: "val \<Rightarrow> val option" where
  "val_neg a =
     (if vkind a = eFloat32 then Some (mk_val eFloat32 (ucast ((ucast (vbits a) :: u32) XOR push_bit 31 1)))
      else if vkind a = eFloat64 then Some (mk_val eFloat64 (vbits a XOR push_bit 63 1))
      else extend_or_truncate (vkind a) (- vbits a))"

text \<open>The scheme that \<open>+\<close>, \<open>-\<close> and \<open>*\<close> share.\<close>

definition val_arith :: "(fp \<Rightarrow> fp \<Rightarrow> fp) \<Rightarrow> (u64 \<Rightarrow> u64 \<Rightarrow> u64) \<Rightarrow> val \<Rightarrow> val \<Rightarrow> val option" where
  "val_arith ff fi a b =
     (if vkind a \<noteq> vkind b then Some bad_value
      else if vkind a = eFloat32 then Some (val_float32 (ff (float32_of a) (float32_of b)))
      else if vkind a = eFloat64 then Some (val_float64 (ff (float64_of a) (float64_of b)))
      else extend_or_truncate (vkind a) (fi (vbits a) (vbits b)))"

definition val_add :: "val \<Rightarrow> val \<Rightarrow> val option" where
  "val_add a b = val_arith fp_add (+) a b"

definition val_sub :: "val \<Rightarrow> val \<Rightarrow> val option" where
  "val_sub a b = val_arith fp_sub (-) a b"

definition val_mul :: "val \<Rightarrow> val \<Rightarrow> val option" where
  "val_mul a b = val_arith fp_mul (*) a b"

text \<open>Division of \<open>int64_t\<close> truncates towards zero and is undefined by 0 and on overflow.\<close>

definition int64_defined :: "u64 \<Rightarrow> u64 \<Rightarrow> bool" where
  "int64_defined a b \<longleftrightarrow> b \<noteq> 0 \<and> \<not> (sint a = - (2 ^ 63) \<and> sint b = - 1)"

definition val_quo :: "val \<Rightarrow> val \<Rightarrow> val option" where
  "val_quo a b =
     (if vkind a \<noteq> vkind b then Some bad_value
      else if vkind a = eFloat32 then Some (val_float32 (fp_div 23 (float32_of a) (float32_of b)))
      else if vkind a = eFloat64 then Some (val_float64 (fp_div 52 (float64_of a) (float64_of b)))
      else if kind_is (vkind a) [gInt] then
        (if int64_defined (vbits a) (vbits b)
         then extend_or_truncate (vkind a) (word_of_int (sint (vbits a) sdiv sint (vbits b))) else None)
      else if vbits b = 0 then None
      else extend_or_truncate (vkind a) (vbits a div vbits b))"

definition val_rem :: "val \<Rightarrow> val \<Rightarrow> val option" where
  "val_rem a b =
     (if vkind a \<noteq> vkind b \<or> is_float_kind (vkind a) then Some bad_value
      else if kind_is (vkind a) [gInt] then
        (if int64_defined (vbits a) (vbits b)
         then extend_or_truncate (vkind a) (word_of_int (sint (vbits a) smod sint (vbits b))) else None)
      else if vbits b = 0 then None
      else extend_or_truncate (vkind a) (vbits a mod vbits b))"

definition val_bitwise :: "(u64 \<Rightarrow> u64 \<Rightarrow> u64) \<Rightarrow> val \<Rightarrow> val \<Rightarrow> val option" where
  "val_bitwise f a b =
     (if vkind a \<noteq> vkind b \<or> is_float_kind (vkind a) then Some bad_value
      else Some (mk_val (vkind a) (f (vbits a) (vbits b))))"

definition val_and :: "val \<Rightarrow> val \<Rightarrow> val option" where
  "val_and a b = val_bitwise (AND) a b"

definition val_or :: "val \<Rightarrow> val \<Rightarrow> val option" where
  "val_or a b = val_bitwise (OR) a b"

definition val_xor :: "val \<Rightarrow> val \<Rightarrow> val option" where
  "val_xor a b = val_bitwise (XOR) a b"

definition val_shl :: "val \<Rightarrow> val \<Rightarrow> val option" where
  "val_shl a b =
     (if vkind a \<noteq> vkind b \<or> is_float_kind (vkind a) then Some bad_value
      else if unat (vbits b) \<ge> 64 then None
      else extend_or_truncate (vkind a) (push_bit (unat (vbits b)) (vbits a)))"

definition val_shr :: "val \<Rightarrow> val \<Rightarrow> val option" where
  "val_shr a b =
     (if vkind a \<noteq> vkind b \<or> is_float_kind (vkind a) then Some bad_value
      else if unat (vbits b) \<ge> 64 then None
      else if kind_is (vkind a) [gInt]
      then extend_or_truncate (vkind a) (signed_drop_bit (unat (vbits b)) (vbits a))
      else extend_or_truncate (vkind a) (drop_bit (unat (vbits b)) (vbits a)))"

definition val_eq :: "val \<Rightarrow> val \<Rightarrow> val" where
  "val_eq a b =
     (if vkind a \<noteq> vkind b then bad_value
      else if vkind a = eFloat32 then val_bool (fp_eq (float32_of a) (float32_of b))
      else if vkind a = eFloat64 then val_bool (fp_eq (float64_of a) (float64_of b))
      else val_bool (vbits a = vbits b))"

definition val_ne :: "val \<Rightarrow> val \<Rightarrow> val" where
  "val_ne a b =
     (if vkind a \<noteq> vkind b then bad_value
      else if vkind a = eFloat32 then val_bool (\<not> fp_eq (float32_of a) (float32_of b))
      else if vkind a = eFloat64 then val_bool (\<not> fp_eq (float64_of a) (float64_of b))
      else val_bool (vbits a \<noteq> vbits b))"

definition val_less :: "val \<Rightarrow> val \<Rightarrow> val" where
  "val_less a b =
     (if vkind a \<noteq> vkind b then bad_value
      else if vkind a = eFloat32 then val_bool (fp_less (float32_of a) (float32_of b))
      else if vkind a = eFloat64 then val_bool (fp_less (float64_of a) (float64_of b))
      else if kind_is (vkind a) [gInt] then val_bool (sint (vbits a) < sint (vbits b))
      else val_bool (vbits a < vbits b))"

definition val_le :: "val \<Rightarrow> val \<Rightarrow> val" where
  "val_le a b =
     (if vkind a \<noteq> vkind b then bad_value
      else if vkind a = eFloat32 then val_bool (fp_le (float32_of a) (float32_of b))
      else if vkind a = eFloat64 then val_bool (fp_le (float64_of a) (float64_of b))
      else if kind_is (vkind a) [gInt] then val_bool (sint (vbits a) \<le> sint (vbits b))
      else val_bool (vbits a \<le> vbits b))"

definition val_identical :: "val \<Rightarrow> val \<Rightarrow> bool" where
  "val_identical a b \<longleftrightarrow> vkind a = vkind b \<and> vbits a = vbits b"

definition val_land :: "val \<Rightarrow> val \<Rightarrow> val" where
  "val_land a b =
     (if vkind a = eBool \<and> vkind b = eBool then val_bool (vbits a \<noteq> 0 \<and> vbits b \<noteq> 0) else bad_value)"

definition val_lor :: "val \<Rightarrow> val \<Rightarrow> val" where
  "val_lor a b =
     (if vkind a = eBool \<and> vkind b = eBool then val_bool (vbits a \<noteq> 0 \<or> vbits b \<noteq> 0) else bad_value)"

text \<open>\<open>operator bool\<close> and \<open>operator !\<close>.\<close>

definition val_truth :: "val \<Rightarrow> bool" where
  "val_truth v \<longleftrightarrow> vbits (val_ne v (val_zero (vkind v))) \<noteq> 0"

definition val_lnot :: "val \<Rightarrow> val" where
  "val_lnot v = val_eq v (val_zero (vkind v))"


subsection \<open>The integers a value stands for\<close>

text \<open>
  The value of the bits of an integer kind, and the wrap-around to the range of a kind: on signed
  kinds both read the two's complement.
\<close>

definition kind_wrap :: "kind \<Rightarrow> int \<Rightarrow> int" where
  "kind_wrap k i =
     (if kind_bitsize k = 0 then 0
      else if kind_is k [gInt] then signed_take_bit (kind_bitsize k - 1) i
      else take_bit (kind_bitsize k) i)"

definition val_int :: "val \<Rightarrow> int" where
  "val_int v = (if kind_is (vkind v) [gInt] then sint (vbits v) else uint (vbits v))"

text \<open>The kinds whose values are integers of at most 64 bits.\<close>

definition int_kind :: "kind \<Rightarrow> bool" where
  "int_kind k \<longleftrightarrow> k < 16 \<and> k \<noteq> eFloat32 \<and> k \<noteq> eFloat64 \<and> k \<noteq> eFloat128"

definition canonical :: "val \<Rightarrow> bool" where
  "canonical v \<longleftrightarrow> extend_or_truncate (vkind v) (vbits v) = Some v"

lemma scalar_bitsize: "k < (16 :: kind) \<Longrightarrow> k \<noteq> eFloat128 \<Longrightarrow> kind_bitsize k \<le> 64"
  using kind_scalar [of k] by (auto simp: scalar_kinds_def kind_defs)

lemma int_kind_bitsize: "int_kind k \<Longrightarrow> kind_bitsize k \<le> 64"
  by (simp add: int_kind_def scalar_bitsize)

lemma int_kind_not_float: "int_kind k \<Longrightarrow> \<not> is_float_kind k \<and> k \<noteq> eFloat32 \<and> k \<noteq> eFloat64"
  by (simp add: int_kind_def is_float_kind_def)

definition ext_word :: "kind \<Rightarrow> u64 \<Rightarrow> u64" where
  "ext_word k b =
     (if kind_bitsize k = 0 then 0
      else if kind_is k [gInt] then signed_take_bit (kind_bitsize k - 1) b else take_bit (kind_bitsize k) b)"

lemma extend_or_truncate_eq:
  assumes "kind_bitsize k \<le> 64"
  shows "extend_or_truncate k b = Some (mk_val k (ext_word k b))"
proof (cases "kind_bitsize k = 0")
  case True
  then show ?thesis by (simp add: extend_or_truncate_def ext_word_def)
next
  case False
  define n where "n = kind_bitsize k"
  have n: "0 < n" "n \<le> 64" using False assms by (simp_all add: n_def)
  define lomask where "lomask = drop_bit (64 - n) (- 1 :: u64)"
  have lo: "lomask = mask n"
    using n by (intro bit_word_eqI) (auto simp: lomask_def bit_simps)
  have hi: "drop_bit 1 lomask = mask (n - 1)"
    using n unfolding lo by (intro bit_word_eqI) (auto simp: bit_simps)
  have b: "b AND lomask = take_bit n b" by (simp add: lo take_bit_eq_mask)
  have set: "(b AND lomask) AND drop_bit 1 lomask \<noteq> b AND lomask \<longleftrightarrow> bit b (n - 1)"
  proof
    assume "bit b (n - 1)"
    moreover have "\<not> bit ((b AND lomask) AND drop_bit 1 lomask) (n - 1)" unfolding hi by (simp add: bit_simps)
    moreover have "bit (b AND lomask) (n - 1) = bit b (n - 1)" using n unfolding lo by (auto simp: bit_simps)
    ultimately show "(b AND lomask) AND drop_bit 1 lomask \<noteq> b AND lomask" by metis
  next
    assume ne: "(b AND lomask) AND drop_bit 1 lomask \<noteq> b AND lomask"
    show "bit b (n - 1)"
    proof (rule ccontr)
      assume "\<not> bit b (n - 1)"
      then have less: "i < n - Suc 0" if "bit b i" "i < n" for i
        using that n by (cases "i = n - 1") auto
      then have "(b AND lomask) AND drop_bit 1 lomask = b AND lomask"
        unfolding hi lo by (intro bit_word_eqI) (use n in \<open>auto simp: bit_simps dest: less\<close>)
      with ne show False by simp
    qed
  qed
  have "signed_take_bit (n - 1) b = (if bit b (n - 1) then take_bit n b OR NOT lomask else take_bit n b)"
  proof (rule bit_word_eqI)
    fix i assume i: "i < LENGTH(64)"
    consider "i < n - 1" | "i = n - 1" | "n \<le> i" using n by linarith
    then show "bit (signed_take_bit (n - 1) b) i =
        bit (if bit b (n - 1) then take_bit n b OR NOT lomask else take_bit n b) i"
      using i n unfolding lo by cases (auto simp: bit_simps min_def)
  qed
  then show ?thesis
    using n set unfolding extend_or_truncate_def Let_def ext_word_def n_def [symmetric] lomask_def [symmetric] b [symmetric]
    by (auto simp: not_le)
qed

lemma kind_wrap_cong:
  assumes "kind_bitsize k \<le> 64" "i mod 2 ^ 64 = j mod 2 ^ 64"
  shows "kind_wrap k i = kind_wrap k j"
proof -
  have "take_bit 64 i = take_bit 64 j" using assms(2) by (simp add: take_bit_eq_mod)
  then have "take_bit (kind_bitsize k) (take_bit 64 i) = take_bit (kind_bitsize k) (take_bit 64 j)" by simp
  then have "take_bit (kind_bitsize k) i = take_bit (kind_bitsize k) j"
    using assms(1) by (simp add: min_def)
  moreover from this have "kind_bitsize k \<noteq> 0 \<Longrightarrow>
      signed_take_bit (kind_bitsize k - 1) i = signed_take_bit (kind_bitsize k - 1) j"
    by (simp add: signed_take_bit_eq_iff_take_bit_eq)
  ultimately show ?thesis by (simp add: kind_wrap_def)
qed

lemma val_int_mk_ext:
  assumes "kind_bitsize k \<le> 64"
  shows "val_int (mk_val k (ext_word k b)) = kind_wrap k (uint b)"
proof (cases "kind_bitsize k \<noteq> 0 \<and> kind_is k [gInt]")
  case True
  have "sint (signed_take_bit (kind_bitsize k - 1) b) = signed_take_bit (kind_bitsize k - 1) (uint b)"
    using assms True
    by (intro bit_eqI) (auto simp: bit_sint_iff bit_signed_take_bit_iff bit_uint_iff min_def)
  with True show ?thesis by (simp add: val_int_def ext_word_def kind_wrap_def)
next
  case False
  then show ?thesis
    by (auto simp: val_int_def ext_word_def kind_wrap_def unsigned_take_bit_eq)
qed

lemma ext_word_idem: "kind_bitsize k \<le> 64 \<Longrightarrow> ext_word k (ext_word k b) = ext_word k b"
  by (auto simp: ext_word_def)

lemma canonical_iff: "kind_bitsize (vkind v) \<le> 64 \<Longrightarrow> canonical v \<longleftrightarrow> ext_word (vkind v) (vbits v) = vbits v"
  by (simp add: canonical_def extend_or_truncate_eq val_eq_iff)

lemma canonical_mk_ext: "kind_bitsize k \<le> 64 \<Longrightarrow> canonical (mk_val k (ext_word k b))"
  by (simp add: canonical_iff ext_word_idem)

lemma val_int_mod: "val_int v mod 2 ^ 64 = uint (vbits v) mod 2 ^ 64"
proof -
  have "sint w mod 2 ^ 64 = uint w mod 2 ^ 64" for w :: u64
    using uint_sint [of w] by (simp add: take_bit_eq_mod)
  then show ?thesis by (simp add: val_int_def)
qed

lemma canonical_wrap: "canonical v \<Longrightarrow> kind_bitsize (vkind v) \<le> 64 \<Longrightarrow> kind_wrap (vkind v) (val_int v) = val_int v"
proof -
  assume v: "canonical v" "kind_bitsize (vkind v) \<le> 64"
  then have "ext_word (vkind v) (vbits v) = vbits v" by (simp add: canonical_iff)
  then have "mk_val (vkind v) (ext_word (vkind v) (vbits v)) = v" by (simp add: val_eq_iff)
  then have "val_int v = kind_wrap (vkind v) (uint (vbits v))" using val_int_mk_ext [OF v(2)] by metis
  also have "\<dots> = kind_wrap (vkind v) (val_int v)" by (rule kind_wrap_cong [OF v(2)]) (simp only: val_int_mod)
  finally show ?thesis by simp
qed

text \<open>
  What every operation of the form "compute 64 bits, then extend or truncate" does: the bits only
  have to be right modulo \<open>2 ^ 64\<close>.
\<close>

lemma extend_or_truncate_wraps:
  assumes "kind_bitsize k \<le> 64" "uint b mod 2 ^ 64 = i mod 2 ^ 64"
  obtains v where "extend_or_truncate k b = Some v" "vkind v = k" "canonical v" "val_int v = kind_wrap k i"
proof
  show "extend_or_truncate k b = Some (mk_val k (ext_word k b))" by (rule extend_or_truncate_eq [OF assms(1)])
  show "canonical (mk_val k (ext_word k b))" by (rule canonical_mk_ext [OF assms(1)])
  show "val_int (mk_val k (ext_word k b)) = kind_wrap k i"
    unfolding val_int_mk_ext [OF assms(1)] by (rule kind_wrap_cong [OF assms])
qed simp

definition wraps_to :: "kind \<Rightarrow> int \<Rightarrow> val option \<Rightarrow> bool" where
  "wraps_to k i r \<longleftrightarrow> (\<exists>v. r = Some v \<and> vkind v = k \<and> canonical v \<and> val_int v = kind_wrap k i)"

lemma wraps_to_extI:
  "kind_bitsize k \<le> 64 \<Longrightarrow> uint b mod 2 ^ 64 = i mod 2 ^ 64 \<Longrightarrow> wraps_to k i (extend_or_truncate k b)"
  unfolding wraps_to_def using extend_or_truncate_wraps by metis

lemma uint_arith_mod:
  fixes a b :: u64
  assumes "uint a mod 2 ^ 64 = i mod 2 ^ 64" "uint b mod 2 ^ 64 = j mod 2 ^ 64"
  shows "uint (a + b) mod 2 ^ 64 = (i + j) mod 2 ^ 64" "uint (a - b) mod 2 ^ 64 = (i - j) mod 2 ^ 64"
    "uint (a * b) mod 2 ^ 64 = (i * j) mod 2 ^ 64" "uint (- a) mod 2 ^ 64 = (- i) mod 2 ^ 64"
proof -
  have w: "uint (a + b) mod 2 ^ 64 = (uint a + uint b) mod 2 ^ 64" "uint (a - b) mod 2 ^ 64 = (uint a - uint b) mod 2 ^ 64"
    "uint (a * b) mod 2 ^ 64 = (uint a * uint b) mod 2 ^ 64" "uint (- a) mod 2 ^ 64 = (- uint a) mod 2 ^ 64"
    by (simp_all add: uint_word_arith_bintrs take_bit_eq_mod)
  show "uint (a + b) mod 2 ^ 64 = (i + j) mod 2 ^ 64" unfolding w by (rule mod_add_cong [OF assms])
  show "uint (a - b) mod 2 ^ 64 = (i - j) mod 2 ^ 64" unfolding w by (rule mod_diff_cong [OF assms])
  show "uint (a * b) mod 2 ^ 64 = (i * j) mod 2 ^ 64" unfolding w by (rule mod_mult_cong [OF assms])
  show "uint (- a) mod 2 ^ 64 = (- i) mod 2 ^ 64" unfolding w using mod_diff_cong [OF refl assms(1), of 0] by simp
qed

text \<open>The operators on integer kinds are arithmetic modulo the size of the kind.\<close>

lemma val_arith_wraps:
  assumes "int_kind (vkind a)" "vkind b = vkind a"
  shows "wraps_to (vkind a) (val_int a + val_int b) (val_add a b)"
    "wraps_to (vkind a) (val_int a - val_int b) (val_sub a b)"
    "wraps_to (vkind a) (val_int a * val_int b) (val_mul a b)"
    "wraps_to (vkind a) (- val_int a) (val_neg a)"
proof -
  note bs = int_kind_bitsize [OF assms(1)]
  note u = uint_arith_mod [OF val_int_mod [of a, symmetric] val_int_mod [of b, symmetric]]
  have "val_add a b = extend_or_truncate (vkind a) (vbits a + vbits b)"
    "val_sub a b = extend_or_truncate (vkind a) (vbits a - vbits b)"
    "val_mul a b = extend_or_truncate (vkind a) (vbits a * vbits b)"
    "val_neg a = extend_or_truncate (vkind a) (- vbits a)"
    using assms(2) int_kind_not_float [OF assms(1)]
    by (simp_all add: val_add_def val_sub_def val_mul_def val_neg_def val_arith_def)
  then show "wraps_to (vkind a) (val_int a + val_int b) (val_add a b)"
    "wraps_to (vkind a) (val_int a - val_int b) (val_sub a b)"
    "wraps_to (vkind a) (val_int a * val_int b) (val_mul a b)"
    "wraps_to (vkind a) (- val_int a) (val_neg a)"
    using wraps_to_extI [OF bs u(1)] wraps_to_extI [OF bs u(2)] wraps_to_extI [OF bs u(3)] wraps_to_extI [OF bs u(4)]
    by (simp_all only:)
qed

lemma sint_range64: "- (2 ^ 63) \<le> sint (w :: u64) \<and> sint w < 2 ^ 63"
  using sint_ge [of w] sint_lt [of w] by simp

lemma val_int_signed: "kind_is (vkind v) [gInt] \<Longrightarrow> val_int v = sint (vbits v)"
  and val_int_unsigned: "\<not> kind_is (vkind v) [gInt] \<Longrightarrow> val_int v = uint (vbits v)"
  by (simp_all add: val_int_def)

lemma val_quo_rem_wraps:
  assumes "int_kind (vkind a)" "vkind b = vkind a" "val_int b \<noteq> 0"
    and "\<not> (vkind a = eInt64 \<and> val_int a = - (2 ^ 63) \<and> val_int b = - 1)" "canonical a"
  shows "wraps_to (vkind a) (val_int a sdiv val_int b) (val_quo a b)"
    "wraps_to (vkind a) (val_int a smod val_int b) (val_rem a b)"
proof -
  note nf = int_kind_not_float [OF assms(1)] and bs = int_kind_bitsize [OF assms(1)]
  have modw: "uint (word_of_int i :: u64) mod 2 ^ 64 = i mod 2 ^ 64" for i
    by (simp add: uint_word_of_int take_bit_eq_mod)
  have "wraps_to (vkind a) (val_int a sdiv val_int b) (val_quo a b) \<and>
    wraps_to (vkind a) (val_int a smod val_int b) (val_rem a b)"
  proof (cases "kind_is (vkind a) [gInt]")
    case True
    have i: "val_int a = sint (vbits a)" "val_int b = sint (vbits b)"
      using True assms(2) by (simp_all add: val_int_def)
    have "vkind a = eInt64" if "sint (vbits a) = - (2 ^ 63)"
    proof (rule ccontr)
      assume ne: "vkind a \<noteq> eInt64"
      have k: "vkind a \<in> set scalar_kinds" using assms(1) kind_scalar by (simp add: int_kind_def)
      have "val_int a = kind_wrap (vkind a) (val_int a)" using canonical_wrap [OF assms(5) bs] by simp
      then have "val_int a = signed_take_bit (kind_bitsize (vkind a) - 1) (val_int a)" "kind_bitsize (vkind a) \<noteq> 0"
        using True that i(1) by (auto simp: kind_wrap_def split: if_splits)
      moreover have "kind_bitsize (vkind a) - 1 \<le> 31"
        using k True ne by (auto simp: scalar_kinds_def kind_defs)
      ultimately have "- (2 ^ (kind_bitsize (vkind a) - 1)) \<le> val_int a"
        using signed_take_bit_int_greater_eq_minus_exp by metis
      moreover have "(2 :: int) ^ (kind_bitsize (vkind a) - 1) \<le> 2 ^ 31"
        using \<open>kind_bitsize (vkind a) - 1 \<le> 31\<close> by (intro power_increasing) simp_all
      ultimately show False using that i by simp
    qed
    moreover have "vbits b \<noteq> 0" using assms(3) i(2) by auto
    ultimately have "int64_defined (vbits a) (vbits b)" using assms(4) i by (auto simp: int64_defined_def)
    then show ?thesis
      using True assms(2) nf bs modw by (auto simp: val_quo_def val_rem_def i intro!: wraps_to_extI)
  next
    case False
    have i: "val_int a = uint (vbits a)" "val_int b = uint (vbits b)"
      using False assms(2) by (simp_all add: val_int_def)
    have "vbits b \<noteq> 0" using assms(3) i(2) by auto
    moreover have "0 < uint (vbits b)" "0 \<le> uint (vbits a)"
      using assms(3) i(2) by (simp_all add: less_le)
    then have "uint (vbits a) sdiv uint (vbits b) = uint (vbits a div vbits b)"
      "uint (vbits a) smod uint (vbits b) = uint (vbits a mod vbits b)"
      by (auto simp: signed_divide_int_def signed_modulo_int_def sgn_if uint_div uint_mod less_le)
    ultimately show ?thesis
      using False assms(2) nf bs by (auto simp: val_quo_def val_rem_def i intro!: wraps_to_extI)
  qed
  then show "wraps_to (vkind a) (val_int a sdiv val_int b) (val_quo a b)"
    "wraps_to (vkind a) (val_int a smod val_int b) (val_rem a b)" by auto
qed

lemma ext_word_bitwise:
  "ext_word k (a AND b) = ext_word k a AND ext_word k b"
  "ext_word k (a OR b) = ext_word k a OR ext_word k b"
  "ext_word k (a XOR b) = ext_word k a XOR ext_word k b"
  by (auto simp: ext_word_def bit_eq_iff bit_simps)

lemma ext_word_0 [simp]: "ext_word k 0 = 0"
  by (simp add: ext_word_def)

lemma canonical_ext: "canonical v \<Longrightarrow> int_kind (vkind v) \<Longrightarrow> ext_word (vkind v) (vbits v) = vbits v"
  by (simp add: canonical_iff int_kind_bitsize)

lemma val_bitwise_canonical:
  assumes "int_kind (vkind a)" "vkind b = vkind a" "canonical a" "canonical b"
  shows "\<exists>v. val_and a b = Some v \<and> vkind v = vkind a \<and> canonical v \<and> vbits v = vbits a AND vbits b"
    "\<exists>v. val_or a b = Some v \<and> vkind v = vkind a \<and> canonical v \<and> vbits v = vbits a OR vbits b"
    "\<exists>v. val_xor a b = Some v \<and> vkind v = vkind a \<and> canonical v \<and> vbits v = vbits a XOR vbits b"
  using assms canonical_ext [of a] canonical_ext [of b] int_kind_not_float [OF assms(1)]
  by (simp_all add: val_and_def val_or_def val_xor_def val_bitwise_def canonical_iff int_kind_bitsize ext_word_bitwise)

lemma val_int_uint_bits:
  "canonical v \<Longrightarrow> int_kind (vkind v) \<Longrightarrow> \<not> kind_is (vkind v) [gInt] \<Longrightarrow> val_int v = uint (vbits v)"
  by (simp add: val_int_def)

text \<open>The left shift multiplies, the right shift divides rounding down.\<close>

lemma val_shift_wraps:
  assumes "int_kind (vkind a)" "vkind b = vkind a" "unat (vbits b) < 64"
  shows "wraps_to (vkind a) (val_int a * 2 ^ unat (vbits b)) (val_shl a b)"
    "wraps_to (vkind a) (val_int a div 2 ^ unat (vbits b)) (val_shr a b)"
proof -
  note nf = int_kind_not_float [OF assms(1)] and bs = int_kind_bitsize [OF assms(1)]
  let ?n = "unat (vbits b)"
  have "uint (push_bit ?n (vbits a)) mod 2 ^ 64 = take_bit 64 (push_bit ?n (uint (vbits a))) mod 2 ^ 64"
    by (simp only: unsigned_push_bit_eq len_bit0 len_num1 mult_1_right mult_numeral_1_right numeral_times_numeral semiring_norm)
  also have "\<dots> = (uint (vbits a) * 2 ^ ?n) mod 2 ^ 64"
    by (simp add: push_bit_eq_mult take_bit_eq_mod)
  also have "\<dots> = (val_int a * 2 ^ ?n) mod 2 ^ 64"
    by (rule mod_mult_cong [OF val_int_mod [symmetric] refl])
  finally have "wraps_to (vkind a) (val_int a * 2 ^ ?n) (extend_or_truncate (vkind a) (push_bit ?n (vbits a)))"
    by (rule wraps_to_extI [OF bs])
  then show "wraps_to (vkind a) (val_int a * 2 ^ ?n) (val_shl a b)"
    using assms nf by (simp add: val_shl_def)
  have shr: "val_shr a b = extend_or_truncate (vkind a)
      (if kind_is (vkind a) [gInt] then signed_drop_bit ?n (vbits a) else drop_bit ?n (vbits a))"
    using assms nf by (simp add: val_shr_def)
  have "uint (if kind_is (vkind a) [gInt] then signed_drop_bit ?n (vbits a) else drop_bit ?n (vbits a)) mod 2 ^ 64 =
      (val_int a div 2 ^ ?n) mod 2 ^ 64"
  proof (cases "kind_is (vkind a) [gInt]")
    case True
    have "sint (signed_drop_bit ?n (vbits a)) = sint (vbits a) div 2 ^ ?n"
      by (simp add: sint_signed_drop_bit_eq drop_bit_eq_div)
    moreover have "uint w mod 2 ^ 64 = sint w mod 2 ^ 64" for w :: u64
      using uint_sint [of w] by (simp add: take_bit_eq_mod)
    ultimately show ?thesis using True by (simp add: val_int_def)
  next
    case False
    have "uint (drop_bit ?n (vbits a)) = drop_bit ?n (uint (vbits a))"
      by (rule bit_eqI) (auto simp: bit_simps)
    also have "\<dots> = uint (vbits a) div 2 ^ ?n" by (rule drop_bit_eq_div)
    finally have "uint (drop_bit ?n (vbits a)) = uint (vbits a) div 2 ^ ?n" .
    with False show ?thesis by (simp only: val_int_def if_False)
  qed
  then show "wraps_to (vkind a) (val_int a div 2 ^ ?n) (val_shr a b)"
    unfolding shr by (rule wraps_to_extI [OF bs])
qed

lemma sint_eq_iff: "sint a = sint b \<longleftrightarrow> a = b" for a b :: u64
proof
  assume "sint a = sint b"
  then have "word_of_int (sint a) = (word_of_int (sint b) :: u64)" by simp
  then show "a = b" by simp
qed simp

text \<open>Comparisons compare the integers.\<close>

lemma val_compare_eq:
  assumes "int_kind (vkind a)" "vkind b = vkind a"
  shows "val_less a b = val_bool (val_int a < val_int b)" "val_le a b = val_bool (val_int a \<le> val_int b)"
    "val_eq a b = val_bool (val_int a = val_int b)" "val_ne a b = val_bool (val_int a \<noteq> val_int b)"
proof -
  have "val_int a = val_int b \<longleftrightarrow> vbits a = vbits b"
    using assms(2) sint_eq_iff [of "vbits a" "vbits b"] word_uint_eq_iff [of "vbits a" "vbits b"]
    by (auto simp: val_int_def)
  then show "val_eq a b = val_bool (val_int a = val_int b)" "val_ne a b = val_bool (val_int a \<noteq> val_int b)"
    using assms int_kind_not_float [OF assms(1)] by (simp_all add: val_eq_def val_ne_def)
  show "val_less a b = val_bool (val_int a < val_int b)" "val_le a b = val_bool (val_int a \<le> val_int b)"
    using assms int_kind_not_float [OF assms(1)]
    by (simp_all add: val_less_def val_le_def val_int_def word_less_def word_le_def)
qed

subsection \<open>Identity and absorbing elements\<close>

lemma val_cast_uint64:
  assumes "int_kind k" shows "val_cast (mk_val eUint64 c) k = Some (mk_val k (ext_word k c))"
proof (cases "k = eUint64")
  case True
  then show ?thesis by (simp add: val_cast_def ext_word_def kind_defs take_bit_word_eq_self)
next
  case False
  then show ?thesis
    using assms int_kind_not_float [OF assms] int_kind_bitsize [OF assms]
    by (auto simp: val_cast_def Let_def extend_or_truncate_eq)
qed

lemma mk_val_self [simp]: "mk_val (vkind v) (vbits v) = v"
  by (simp add: val_eq_iff)

lemma canonical_Some: "canonical v \<Longrightarrow> extend_or_truncate (vkind v) (vbits v) = Some v"
  by (simp add: canonical_def)

text \<open>The operators of \<open>OpN\<close> that \<open>eval.cpp\<close> folds two values with, \<open>MAX\<close> and \<open>MIN\<close> apart.\<close>

definition val_opn :: "opn \<Rightarrow> val \<Rightarrow> val \<Rightarrow> val option" where
  "val_opn op a b =
     (case op of ADDN \<Rightarrow> val_add a b | MULN \<Rightarrow> val_mul a b | ANDN \<Rightarrow> val_and a b | ORN \<Rightarrow> val_or a b
      | XORN \<Rightarrow> val_xor a b | _ \<Rightarrow> Some bad_value)"

lemma ext_word_1_mult:
  assumes "int_kind k" shows "ext_word k (ext_word k 1 * b) = ext_word k b"
proof (cases "kind_bitsize k = 0")
  case False
  have "k \<in> set scalar_kinds" "k \<noteq> 12" "k \<noteq> 13" "k \<noteq> 14" using assms kind_scalar by (auto simp: int_kind_def)
  then have "ext_word k 1 = 1"
    using False by (auto simp: scalar_kinds_def ext_word_def kind_defs)
  then show ?thesis by simp
qed (simp add: ext_word_def)

lemma val_identity_left:
  assumes "int_kind (vkind v)" "canonical v" "op \<in> {ADDN, MULN, ANDN, ORN, XORN}"
  shows "\<exists>e. val_identity (vkind v) op = Some e \<and> val_opn op e v = Some v"
proof -
  let ?k = "vkind v"
  note cast = val_cast_uint64 [OF assms(1)] and nf = int_kind_not_float [OF assms(1)]
    and ext = extend_or_truncate_eq [OF int_kind_bitsize [OF assms(1)]]
  have f: "\<not> (is_bitwise op \<and> kind_is_float ?k)"
  proof -
    have "?k \<in> set scalar_kinds" using assms(1) kind_scalar by (simp add: int_kind_def)
    then have "kind_is_float ?k \<Longrightarrow> ?k = eFloat32 \<or> ?k = eFloat64"
      by (auto simp: scalar_kinds_def kind_is_float_def)
    with nf show ?thesis by blast
  qed
  have c: "ext_word ?k (vbits v) = vbits v" using assms by (simp add: canonical_ext)
  have m1: "ext_word ?k (- 1) AND vbits v = vbits v"
    using ext_word_bitwise(1) [of ?k "- 1" "vbits v"] c by simp
  from assms(3) nf f show ?thesis
    by (auto simp: val_identity_def cast val_opn_def val_add_def val_mul_def val_arith_def val_and_def val_or_def
        val_xor_def val_bitwise_def ext c m1 ext_word_1_mult [OF assms(1)])
qed

lemma val_absorbing_left:
  assumes "int_kind (vkind v)" "canonical v" "op \<in> {MULN, ANDN, ORN}"
  shows "\<exists>e. val_absorbing (vkind v) op = Some e \<and> val_opn op e v = Some e"
proof -
  let ?k = "vkind v"
  note cast = val_cast_uint64 [OF assms(1)] and nf = int_kind_not_float [OF assms(1)]
    and ext = extend_or_truncate_eq [OF int_kind_bitsize [OF assms(1)]]
  have f: "\<not> (is_bitwise op \<and> kind_is_float ?k)"
  proof -
    have "?k \<in> set scalar_kinds" using assms(1) kind_scalar by (simp add: int_kind_def)
    then have "kind_is_float ?k \<Longrightarrow> ?k = eFloat32 \<or> ?k = eFloat64"
      by (auto simp: scalar_kinds_def kind_is_float_def)
    with nf show ?thesis by blast
  qed
  have c: "ext_word ?k (vbits v) = vbits v" using assms by (simp add: canonical_ext)
  have m1: "ext_word ?k (- 1) OR vbits v = ext_word ?k (- 1)"
    using ext_word_bitwise(2) [of ?k "- 1" "vbits v"] c by simp
  from assms(3) nf f show ?thesis
    by (auto simp: val_absorbing_def cast val_opn_def val_mul_def val_arith_def val_and_def val_or_def
        val_bitwise_def ext m1)
qed

subsection \<open>Properties\<close>

lemma kind_bitsize_eqs [simp]:
  "kind_bitsize eBool = 1" "kind_bitsize eInt8 = 8" "kind_bitsize eInt16 = 16" "kind_bitsize eInt32 = 32"
  "kind_bitsize eInt64 = 64" "kind_bitsize eUint8 = 8" "kind_bitsize eUint16 = 16" "kind_bitsize eUint32 = 32"
  "kind_bitsize eUint64 = 64" "kind_bitsize ePtr = 64" "kind_bitsize eFloat32 = 32" "kind_bitsize eFloat64 = 64"
  by (simp_all add: kind_defs)

lemma kind_is_eqs [simp]:
  "kind_is eInt8 [gInt]" "kind_is eInt16 [gInt]" "kind_is eInt32 [gInt]" "kind_is eInt64 [gInt]"
  "\<not> kind_is eBool [gInt]" "\<not> kind_is eUint8 [gInt]" "\<not> kind_is eUint64 [gInt]"
  by (simp_all add: kind_defs)

text \<open>C17: on every kind that holds an integer of at most 64 bits, the operators plus, minus, times
  and negation never fail, keep the representation canonical (sign or zero extended) and compute the
  exact result wrapped around to the size and signedness of the kind.\<close>

theorem value_arithmetic_wraps:
  assumes "int_kind (vkind a)" "vkind b = vkind a"
  shows "wraps_to (vkind a) (val_int a + val_int b) (val_add a b) \<and>
    wraps_to (vkind a) (val_int a - val_int b) (val_sub a b) \<and>
    wraps_to (vkind a) (val_int a * val_int b) (val_mul a b) \<and>
    wraps_to (vkind a) (- val_int a) (val_neg a)"
  using val_arith_wraps [OF assms] by blast

lemma value_arithmetic_wraps_witness:
  "wraps_to eInt8 (100 + 100) (val_add (mk_val eInt8 100) (mk_val eInt8 100)) \<and> kind_wrap eInt8 200 = - 56"
  using value_arithmetic_wraps [of "mk_val eInt8 100" "mk_val eInt8 100"]
  by (simp add: int_kind_def val_int_def kind_wrap_def signed_take_bit_eq_take_bit_shift take_bit_eq_mod)

text \<open>C18: division and remainder of canonical integers truncate towards zero and are defined unless the
  divisor is zero or the quotient overflows 64 bits. In particular the most negative value of a
  narrower signed kind can be divided by minus one, and wraps.\<close>

theorem value_division_truncates:
  assumes "int_kind (vkind a)" "vkind b = vkind a" "canonical a" "val_int b \<noteq> 0"
    and "\<not> (vkind a = eInt64 \<and> val_int a = - (2 ^ 63) \<and> val_int b = - 1)"
  shows "wraps_to (vkind a) (val_int a sdiv val_int b) (val_quo a b) \<and>
    wraps_to (vkind a) (val_int a smod val_int b) (val_rem a b)"
  using val_quo_rem_wraps [OF assms(1,2,4,5,3)] by blast

lemma value_division_truncates_witness:
  "wraps_to eInt8 (- 128 sdiv - 1) (val_quo (mk_val eInt8 (- 128)) (mk_val eInt8 (- 1)))"
proof -
  have i: "val_int (mk_val eInt8 (- 128)) = - 128" "val_int (mk_val eInt8 (- 1)) = - 1"
    by (simp_all add: val_int_def)
  have "canonical (mk_val eInt8 (- 128))"
    by (simp add: canonical_def extend_or_truncate_eq ext_word_def)
  with value_division_truncates [of "mk_val eInt8 (- 128)" "mk_val eInt8 (- 1)"] i
  show ?thesis by (simp add: int_kind_def)
qed

text \<open>The identity element the code gives for an operator and a kind is neutral on every canonical
  value, and the absorbing element absorbs it.\<close>

lemma value_neutral_and_absorbing:
  assumes "int_kind (vkind v)" "canonical v"
  shows "(\<forall>op\<in>{ADDN, MULN, ANDN, ORN, XORN}. \<exists>e. val_identity (vkind v) op = Some e \<and> val_opn op e v = Some v) \<and>
    (\<forall>op\<in>{MULN, ANDN, ORN}. \<exists>e. val_absorbing (vkind v) op = Some e \<and> val_opn op e v = Some e)"
  using val_identity_left [OF assms] val_absorbing_left [OF assms] by blast

lemma value_neutral_and_absorbing_witness:
  "\<exists>e. val_identity eUint8 ANDN = Some e \<and> val_opn ANDN e (mk_val eUint8 77) = Some (mk_val eUint8 77)"
proof -
  have "canonical (mk_val eUint8 77)"
    by (simp add: canonical_def extend_or_truncate_eq ext_word_def)
  then show ?thesis using value_neutral_and_absorbing [of "mk_val eUint8 77"] by (simp add: int_kind_def)
qed

text \<open>C19: on integer kinds the relational operators compare the integers.\<close>

theorem value_comparisons:
  assumes "int_kind (vkind a)" "vkind b = vkind a"
  shows "val_less a b = val_bool (val_int a < val_int b) \<and> val_le a b = val_bool (val_int a \<le> val_int b) \<and>
    val_eq a b = val_bool (val_int a = val_int b) \<and> val_ne a b = val_bool (val_int a \<noteq> val_int b)"
  using val_compare_eq [OF assms] by blast

lemma value_comparisons_witness: "val_less (mk_val eInt16 (- 3)) (mk_val eInt16 2) = val_bool True"
  using value_comparisons [of "mk_val eInt16 (- 3)" "mk_val eInt16 2"] by (simp add: int_kind_def val_int_def)

text \<open>The minimum the code gives for a signed kind narrower than 64 bits is not sign-extended: the
  minimum of the 8-bit signed kind is not canonical and compares greater than the maximum, so it is no
  identity of the maximum operator.\<close>

theorem value_min_not_least:
  "val_min eInt8 = Some (mk_val eInt8 128) \<and> val_max eInt8 = Some (mk_val eInt8 127) \<and>
   val_less (mk_val eInt8 127) (mk_val eInt8 128) = val_bool True \<and> \<not> canonical (mk_val eInt8 128)"
proof -
  have "drop_bit (Suc 0) (mask 8) = (127 :: u64)" by (simp add: mask_eq_exp_minus_1 drop_bit_eq_div)
  then show ?thesis
    by (simp add: val_min_def val_max_def kind_is_unsigned_def kind_is_signed_def kind_group_def kind_is_def
      kgroup_def val_less_def canonical_def extend_or_truncate_eq ext_word_def val_eq_iff)
qed

text \<open>A \<open>double\<close> and a \<open>float\<close> that are numbers keep their bits through the decoding and the rounding
  of the arithmetic model: a result that is representable is exact, and both zeros and the
  subnormal numbers are distinguished.\<close>

lemma float_bits_round_trip:
  "(f64_decode x \<noteq> NaN \<longrightarrow> f64_encode (f64_decode x) = x) \<and> (f32_decode y \<noteq> NaN \<longrightarrow> f32_encode (f32_decode y) = y)"
proof -
  have "unat x < 2 ^ Suc (52 + 11)" "unat y < 2 ^ Suc (23 + 8)"
    using unsigned_less [of x] unsigned_less [of y] by simp_all
  with fp_encode_decode [of 52 11 "unat x"] fp_encode_decode [of 23 8 "unat y"]
  show ?thesis by (simp add: f64_decode_def f64_encode_def f32_decode_def f32_encode_def)
qed

lemma float_bits_round_trip_witness: "f64_encode (f64_decode 0x8000000000000001) = 0x8000000000000001"
proof -
  have "f64_decode 0x8000000000000001 \<noteq> NaN"
    by (simp add: f64_decode_def fp_decode_def Let_def)
  then show ?thesis using float_bits_round_trip [of "0x8000000000000001" 0] by blast
qed

end
