(* ===== verification/Encodings.thy ===== *)
theory Encodings imports Values begin

text \<open>
  The bit-level encodings of the IR: node types (\<open>src/onejit/type.hpp\<close>, \<open>type.cpp\<close>), node headers
  (\<open>ir/header.hpp\<close>), identifiers of variables (\<open>id.hpp\<close>), local variables (\<open>local.hpp\<close>) and
  immediate constants (\<open>imm.hpp\<close>). The type \<open>CONST\<close> is \<open>CONSTN\<close>, because the name is Isabelle syntax. Each has an encoder and a decoder; the lemmas are the round trips,
  the bounds under which they hold, and the disjointness of the tags that tell the encodings apart.
\<close>

subsection \<open>Type\<close>

datatype ntype = STMT_0 | STMT_1 | STMT_2 | STMT_3 | STMT_4 | STMT_N
  | VAR | MEM | UNARY | BINARY | TUPLE | LABEL | CONSTN | FTYPE | NAME

definition ntype_list :: "ntype list" where
  "ntype_list = [STMT_0, STMT_1, STMT_2, STMT_3, STMT_4, STMT_N, VAR, MEM, UNARY, BINARY, TUPLE,
     LABEL, CONSTN, FTYPE, NAME]"

fun ntype_code :: "ntype \<Rightarrow> nat" where
  "ntype_code STMT_0 = 0"
| "ntype_code STMT_1 = 1"
| "ntype_code STMT_2 = 2"
| "ntype_code STMT_3 = 3"
| "ntype_code STMT_4 = 4"
| "ntype_code STMT_N = 5"
| "ntype_code VAR = 6"
| "ntype_code MEM = 7"
| "ntype_code UNARY = 8"
| "ntype_code BINARY = 9"
| "ntype_code TUPLE = 10"
| "ntype_code LABEL = 11"
| "ntype_code CONSTN = 12"
| "ntype_code FTYPE = 13"
| "ntype_code NAME = 14"

text \<open>The inverse; 15 is not the code of a type.\<close>

definition ntype_of :: "nat \<Rightarrow> ntype option" where
  "ntype_of n = (if n < 15 then Some (ntype_list ! n) else None)"

lemma ntype_of_code [simp]: "ntype_of (ntype_code t) = Some t"
  by (cases t) (simp_all add: ntype_of_def ntype_list_def)

lemma ntype_code_less: "ntype_code t < 15"
  by (cases t) simp_all

lemma ntype_code_eq_iff [simp]: "ntype_code s = ntype_code t \<longleftrightarrow> s = t"
  by (metis ntype_of_code option.inject)

definition is_list_type :: "ntype \<Rightarrow> bool" where
  "is_list_type t \<longleftrightarrow> t = STMT_N \<or> t = MEM \<or> t = TUPLE \<or> t = FTYPE"

text \<open>The table \<open>tchildren\<close>; -1 is read as a 32-bit number.\<close>

definition to_children :: "ntype \<Rightarrow> nat" where
  "to_children t =
     (case t of STMT_0 \<Rightarrow> 0 | STMT_1 \<Rightarrow> 1 | STMT_2 \<Rightarrow> 2 | STMT_3 \<Rightarrow> 3 | STMT_4 \<Rightarrow> 4 | STMT_N \<Rightarrow> 2 ^ 32 - 1
      | VAR \<Rightarrow> 0 | MEM \<Rightarrow> 1 | UNARY \<Rightarrow> 1 | BINARY \<Rightarrow> 2 | TUPLE \<Rightarrow> 2 ^ 32 - 1 | LABEL \<Rightarrow> 0 | CONSTN \<Rightarrow> 0
      | FTYPE \<Rightarrow> 0 | NAME \<Rightarrow> 0)"

subsection \<open>Header\<close>

record header =
  htype :: ntype
  hkind :: kind
  hop :: u16

definition mk_header :: "ntype \<Rightarrow> kind \<Rightarrow> u16 \<Rightarrow> header" where
  "mk_header t k op = \<lparr>htype = t, hkind = k, hop = op\<rparr>"

lemma mk_header_simps [simp]:
  "htype (mk_header t k op) = t" "hkind (mk_header t k op) = k" "hop (mk_header t k op) = op"
  by (simp_all add: mk_header_def)

definition bad_header :: header where
  "bad_header = mk_header STMT_0 eBad 0"

definition header_valid :: "header \<Rightarrow> bool" where
  "header_valid h \<longleftrightarrow> hkind h \<noteq> eBad"

definition header_item :: "header \<Rightarrow> u32" where
  "header_item h = 0xE OR push_bit 4 (of_nat (ntype_code (htype h))) OR push_bit 8 (ucast (hkind h)) OR
     push_bit 16 (ucast (hop h))"

text \<open>\<open>None\<close> for the code 15, which is no constant of the enumeration.\<close>

definition header_of_item :: "u32 \<Rightarrow> header option" where
  "header_of_item item =
     map_option (\<lambda>t. mk_header t (ucast (drop_bit 8 item)) (ucast (drop_bit 16 item)))
       (ntype_of (unat (drop_bit 4 item AND 15)))"

definition header_order :: "header \<Rightarrow> nat" where
  "header_order h = ntype_code (htype h) * 2 ^ 24 + unat (hkind h) * 2 ^ 16 + unat (hop h)"

definition header_less :: "header \<Rightarrow> header \<Rightarrow> bool" where
  "header_less a b \<longleftrightarrow> header_order a < header_order b"

lemma and_15: "(w :: 'a::len word) AND 15 = take_bit 4 w"
proof -
  have "(15 :: 'a word) = mask 4" by (simp add: mask_eq_exp_minus_1)
  then show ?thesis by (simp only: take_bit_eq_mask)
qed

lemma bit_14: "bit (14 :: u32) i \<longleftrightarrow> 1 \<le> i \<and> i < 4"
proof -
  have "(14 :: u32) = push_bit 1 (mask 3)" by (simp add: mask_eq_exp_minus_1)
  then show ?thesis by (simp only: bit_push_bit_iff bit_mask_iff) auto
qed

lemma ntype_code_bits: "bit (of_nat (ntype_code t) :: u32) i \<Longrightarrow> i < 4"
proof -
  assume b: "bit (of_nat (ntype_code t) :: u32) i"
  have "(of_nat (ntype_code t) :: u32) = take_bit 4 (of_nat (ntype_code t))" by (cases t) simp_all
  with b have "bit (take_bit 4 (of_nat (ntype_code t)) :: u32) i" by simp
  then show "i < 4" by (simp add: bit_take_bit_iff)
qed

lemma packed_fields:
  fixes c k p :: u32
  assumes "\<And>i. bit c i \<Longrightarrow> i < 4" "\<And>i. bit k i \<Longrightarrow> i < 8" "\<And>i. bit p i \<Longrightarrow> i < 16"
  defines "x \<equiv> 14 OR push_bit 4 c OR push_bit 8 k OR push_bit 16 p"
  shows "take_bit 4 (drop_bit 4 x) = c" "take_bit 8 (drop_bit 8 x) = k" "drop_bit 16 x = p" "take_bit 4 x = 14"
proof -
  have b: "bit x i \<longleftrightarrow> (1 \<le> i \<and> i < 4) \<or> (4 \<le> i \<and> bit c (i - 4)) \<or> (8 \<le> i \<and> bit k (i - 8)) \<or>
      (16 \<le> i \<and> bit p (i - 16))" if "i < 32" for i
    using that unfolding x_def bit_or_iff bit_14 by (auto simp: bit_push_bit_iff)
  show "take_bit 4 (drop_bit 4 x) = c"
  proof (rule bit_word_eqI)
    fix i assume "i < LENGTH(32)"
    show "bit (take_bit 4 (drop_bit 4 x)) i = bit c i"
      using assms(1) [of i] b [of "4 + i"] by (cases "i < 4") (auto simp: bit_take_bit_iff bit_drop_bit_eq)
  qed
  show "take_bit 8 (drop_bit 8 x) = k"
  proof (rule bit_word_eqI)
    fix i assume "i < LENGTH(32)"
    show "bit (take_bit 8 (drop_bit 8 x)) i = bit k i"
      using assms(1) [of "8 + i - 4"] assms(2) [of i] b [of "8 + i"]
      by (cases "i < 8") (auto simp: bit_take_bit_iff bit_drop_bit_eq)
  qed
  show "drop_bit 16 x = p"
  proof (rule bit_word_eqI)
    fix i assume "i < LENGTH(32)"
    show "bit (drop_bit 16 x) i = bit p i"
      using assms(1) [of "16 + i - 4"] assms(2) [of "16 + i - 8"] assms(3) [of i] b [of "16 + i"]
      by (cases "16 + i < 32") (auto simp: bit_drop_bit_eq dest: bit_imp_le_length)
  qed
  show "take_bit 4 x = 14"
  proof (rule bit_word_eqI)
    fix i assume "i < LENGTH(32)"
    then show "bit (take_bit 4 x) i = bit (14 :: u32) i"
      using b [of i] bit_14 [of i] by (cases "i < 4") (auto simp: bit_take_bit_iff)
  qed
qed

lemma header_item_fields:
  "take_bit 4 (drop_bit 4 (header_item h)) = of_nat (ntype_code (htype h))"
  "ucast (drop_bit 8 (header_item h)) = hkind h"
  "ucast (drop_bit 16 (header_item h)) = hop h"
  "take_bit 4 (header_item h) = 14"
proof -
  have kind: "bit (ucast (hkind h) :: u32) i \<Longrightarrow> i < 8" and op: "bit (ucast (hop h) :: u32) i \<Longrightarrow> i < 16" for i
    using bit_imp_le_length [of "hkind h" i] bit_imp_le_length [of "hop h" i] by (simp_all add: bit_ucast_iff)
  note f = packed_fields [OF ntype_code_bits [of "htype h"] kind op]
  show "take_bit 4 (drop_bit 4 (header_item h)) = of_nat (ntype_code (htype h))"
    unfolding header_item_def by (rule f(1))
  show "take_bit 4 (header_item h) = 14" unfolding header_item_def by (rule f(4))
  have tk: "ucast w = (ucast (take_bit 8 w) :: kind)" for w :: u32
    by (rule bit_word_eqI) (simp add: bit_ucast_iff bit_take_bit_iff)
  have t8: "take_bit 8 (drop_bit 8 (header_item h)) = ucast (hkind h)"
    unfolding header_item_def by (rule f(2))
  have "ucast (drop_bit 8 (header_item h)) = (ucast (take_bit 8 (drop_bit 8 (header_item h))) :: kind)" by (rule tk)
  also have "\<dots> = hkind h" unfolding t8 by (rule bit_word_eqI) (auto simp: bit_ucast_iff)
  finally show "ucast (drop_bit 8 (header_item h)) = hkind h" .
  have "drop_bit 16 (header_item h) = ucast (hop h)" unfolding header_item_def by (rule f(3))
  then show "ucast (drop_bit 16 (header_item h)) = hop h"
    by (intro bit_word_eqI) (auto simp: bit_ucast_iff)
qed

lemma header_round_trip: "header_of_item (header_item h) = Some h"
proof -
  have "unat (drop_bit 4 (header_item h) AND 15) = ntype_code (htype h)"
    unfolding and_15 header_item_fields(1) by (cases "htype h") simp_all
  then show ?thesis
    by (simp add: header_of_item_def header_item_fields(2,3) mk_header_def)
qed


subsection \<open>Id and Local\<close>

text \<open>An \<open>Id\<close> is 24 bits. A \<open>Local\<close> is a kind in the low byte and an \<open>Id\<close> in the other three.\<close>

definition id_make :: "u32 \<Rightarrow> u32" where
  "id_make val = val AND 0xFFFFFF"

definition local_make :: "kind \<Rightarrow> u32 \<Rightarrow> u32" where
  "local_make k i = ucast k OR push_bit 8 i"

definition local_kind :: "u32 \<Rightarrow> kind" where
  "local_kind l = ucast l"

definition local_id :: "u32 \<Rightarrow> u32" where
  "local_id l = id_make (drop_bit 8 l)"

definition local_is_direct :: "u32 \<Rightarrow> bool" where
  "local_is_direct l \<longleftrightarrow> drop_bit 29 l = 0"

definition local_direct :: "u32 \<Rightarrow> u32" where
  "local_direct l = 2 OR push_bit 3 l"

definition local_parse_direct_kind :: "u32 \<Rightarrow> kind" where
  "local_parse_direct_kind item = ucast (drop_bit 3 item)"

definition local_parse_direct :: "u32 \<Rightarrow> u32" where
  "local_parse_direct item = drop_bit 3 item"

definition local_indirect :: "u32 \<Rightarrow> u32" where
  "local_indirect l = drop_bit 8 l"

definition local_parse_indirect :: "kind \<Rightarrow> u32 \<Rightarrow> u32" where
  "local_parse_indirect k item = ucast k OR push_bit 8 item"

lemma bit_2: "bit (2 :: u32) i \<longleftrightarrow> i = 1"
proof -
  have "(2 :: u32) = push_bit 1 (mask 1)" by (simp add: mask_eq_exp_minus_1)
  then show ?thesis by (simp only: bit_push_bit_iff bit_mask_iff) auto
qed

lemma local_direct_round_trip:
  assumes "local_is_direct l"
  shows "local_parse_direct (local_direct l) = l" "local_parse_direct_kind (local_direct l) = local_kind l"
    "take_bit 3 (local_direct l) = 2"
proof -
  have hi: "\<not> bit l i" if "29 \<le> i" for i
  proof -
    have "\<not> bit (drop_bit 29 l) (i - 29)" using assms by (simp add: local_is_direct_def)
    with that show ?thesis by (simp add: bit_drop_bit_eq)
  qed
  have b: "bit (local_direct l) i \<longleftrightarrow> i = 1 \<or> (3 \<le> i \<and> i < 32 \<and> bit l (i - 3))" for i
    unfolding local_direct_def bit_or_iff bit_2 by (auto simp: bit_push_bit_iff)
  show p: "local_parse_direct (local_direct l) = l"
  proof (rule bit_word_eqI)
    fix i assume "i < LENGTH(32)"
    then show "bit (local_parse_direct (local_direct l)) i = bit l i"
      using hi [of i] b [of "3 + i"] by (cases "i < 29") (auto simp: local_parse_direct_def bit_drop_bit_eq)
  qed
  then show "local_parse_direct_kind (local_direct l) = local_kind l"
    by (simp add: local_parse_direct_kind_def local_parse_direct_def local_kind_def)
  show "take_bit 3 (local_direct l) = 2"
  proof (rule bit_word_eqI)
    fix i assume "i < LENGTH(32)"
    show "bit (take_bit 3 (local_direct l)) i = bit (2 :: u32) i"
      using b [of i] bit_2 [of i] by (auto simp: bit_take_bit_iff)
  qed
qed

lemma bit_less_exp:
  assumes "bit (w :: 'a::len word) j" shows "2 ^ j \<le> unat w"
proof (rule ccontr)
  assume "\<not> 2 ^ j \<le> unat w"
  then have "take_bit j (unat w) = unat w" by (simp add: take_bit_nat_eq_self)
  moreover have "bit (unat w) j" using assms by (simp add: bit_unsigned_iff)
  ultimately show False by (metis bit_take_bit_iff less_irrefl)
qed

lemma local_indirect_round_trip: "local_parse_indirect (local_kind l) (local_indirect l) = l"
proof (rule bit_word_eqI)
  fix i assume "i < LENGTH(32)"
  then show "bit (local_parse_indirect (local_kind l) (local_indirect l)) i = bit l i"
    by (cases "i < 8") (auto simp: local_parse_indirect_def local_kind_def local_indirect_def bit_simps)
qed

lemma local_make_fields:
  assumes "i < 2 ^ 24"
  shows "local_kind (local_make k i) = k" "local_id (local_make k i) = i"
proof -
  have hi: "\<not> bit i j" if "24 \<le> j" for j
  proof
    assume "bit i j"
    then have "2 ^ j \<le> unat i" by (rule bit_less_exp)
    moreover have "(2 :: nat) ^ 24 \<le> 2 ^ j" by (rule power_increasing [OF that]) simp
    moreover have "unat i < 2 ^ 24" using assms by (simp add: word_less_nat_alt)
    ultimately show False by linarith
  qed
  show "local_kind (local_make k i) = k"
    by (rule bit_word_eqI) (auto simp: local_kind_def local_make_def bit_simps)
  have m: "(0xFFFFFF :: u32) = mask 24" by (simp add: mask_eq_exp_minus_1)
  show "local_id (local_make k i) = i"
  proof (rule bit_word_eqI)
    fix j assume "j < LENGTH(32)"
    then show "bit (local_id (local_make k i)) j = bit i j"
      using hi [of j] bit_imp_le_length [of k "8 + j"]
      by (cases "j < 24") (auto simp: local_id_def id_make_def local_make_def m bit_simps)
  qed
qed

subsection \<open>Imm\<close>

text \<open>
  A constant that fits 32 bits is encoded directly: the low bit set, the kind in 4 bits, the rotation
  (in bytes) in 3 bits, 23 bits of payload, and the top bit to tell whether the payload is inverted.
  A shift by 64, which \<open>rrot\<close> performs on the last attempt, is undefined in C++; it is taken modulo
  64, as the processors \<open>onejit\<close> runs on do.
\<close>

definition imm_rrot :: "u64 \<Rightarrow> nat \<Rightarrow> u64" where
  "imm_rrot v r = (if r = 0 then v else drop_bit (r mod 64) v OR push_bit ((64 - r) mod 64) v)"

definition imm_lrot :: "u64 \<Rightarrow> nat \<Rightarrow> u64" where
  "imm_lrot v r = (if r = 0 then v else push_bit (r mod 64) v OR drop_bit ((64 - r) mod 64) v)"

definition imm_can_direct :: "kind \<Rightarrow> u64 \<Rightarrow> nat \<Rightarrow> u64 \<Rightarrow> bool" where
  "imm_can_direct k bits r xm \<longleftrightarrow> k \<le> eVoid \<or> imm_rrot (bits XOR xm) r \<le> 0x7FFFFF"

definition imm_make_direct :: "kind \<Rightarrow> u64 \<Rightarrow> nat \<Rightarrow> u64 \<Rightarrow> u32" where
  "imm_make_direct k bits r xm =
     1 OR push_bit 1 (ucast (k AND 15)) OR
     (if k \<le> eVoid then 0
      else push_bit 5 (of_nat (r div 8)) OR push_bit 8 (ucast (imm_rrot (bits XOR xm) r)) OR
           ucast (xm AND push_bit 31 1))"

function imm_recurse :: "kind \<Rightarrow> u64 \<Rightarrow> nat \<Rightarrow> u64 \<Rightarrow> u32" where
  "imm_recurse k bits r xm =
     (if imm_can_direct k bits r xm then imm_make_direct k bits r xm
      else if xm = 0 then imm_recurse k bits r (NOT xm)
      else if r < 64 then imm_recurse k bits (r + 8) (NOT xm)
      else 0)"
  by pat_completeness auto
termination
  by (relation "measure (\<lambda>(k, bits, r, xm). 2 * (64 - r) + (if xm = 0 then 1 else 0))") auto

declare imm_recurse.simps [simp del]

text \<open>The item of a constant, 0 when it has none.\<close>

definition imm_direct :: "val \<Rightarrow> u32" where
  "imm_direct v = (if vkind v AND 0xF0 \<noteq> 0 then 0 else imm_recurse (vkind v) (vbits v) 0 0)"

definition imm_parse_direct_kind :: "u32 \<Rightarrow> kind" where
  "imm_parse_direct_kind item = ucast (drop_bit 1 item AND 15)"

definition imm_parse_direct :: "u32 \<Rightarrow> val" where
  "imm_parse_direct item =
     (let xor_mask = (- ucast (drop_bit 31 item) :: u64);
          imm = ucast (drop_bit 8 item AND 0x7FFFFF);
          rotation = unat (drop_bit 2 (item AND 0xE0))
      in mk_val (imm_parse_direct_kind item) (xor_mask XOR imm_lrot imm rotation))"

text \<open>A constant that is not direct is written after its header, in one or two items.\<close>

definition imm_write_indirect :: "val \<Rightarrow> u32 list" where
  "imm_write_indirect v =
     (if kind_bitsize (vkind v) = 64 then [ucast (vbits v), ucast (drop_bit 32 (vbits v))]
      else [ucast (vbits v)])"

definition imm_parse_indirect :: "kind \<Rightarrow> u32 list \<Rightarrow> val" where
  "imm_parse_indirect k items =
     mk_val k (if kind_bitsize k = 64 then ucast (items ! 0) OR push_bit 32 (ucast (items ! 1)) else ucast (items ! 0))"

text \<open>Storing a constant in a node and reading it back.\<close>

definition imm_store :: "val \<Rightarrow> u32 + u32 list" where
  "imm_store v = (if imm_direct v \<noteq> 0 then Inl (imm_direct v) else Inr (imm_write_indirect v))"

definition imm_load :: "kind \<Rightarrow> u32 + u32 list \<Rightarrow> val" where
  "imm_load k s = (case s of Inl item \<Rightarrow> imm_parse_direct item | Inr items \<Rightarrow> imm_parse_indirect k items)"

lemma bit_1_word: "bit (1 :: 'a::len word) i \<longleftrightarrow> i = 0"
  by (simp add: bit_1_iff)

lemma imm_lrot_rrot:
  assumes "r < 64" shows "imm_lrot (imm_rrot x r) r = x"
proof (rule bit_word_eqI)
  fix i assume "i < LENGTH(64)"
  with assms show "bit (imm_lrot (imm_rrot x r) r) i = bit x i"
    by (cases "i < r") (auto simp: imm_lrot_def imm_rrot_def bit_simps)
qed

text \<open>The fields of a direct constant do not overlap.\<close>

lemma imm_fields:
  fixes k q p t :: u32
  assumes "\<And>i. bit k i \<Longrightarrow> i < 4" "\<And>i. bit q i \<Longrightarrow> i < 3" "\<And>i. bit p i \<Longrightarrow> i < 23" "\<And>i. bit t i \<Longrightarrow> i = 31"
  defines "x \<equiv> 1 OR push_bit 1 k OR push_bit 5 q OR push_bit 8 p OR t"
  shows "take_bit 4 (drop_bit 1 x) = k" "take_bit 3 (drop_bit 5 x) = q" "take_bit 23 (drop_bit 8 x) = p"
    "drop_bit 31 x = drop_bit 31 t"
proof -
  have b: "bit x i \<longleftrightarrow> i = 0 \<or> (1 \<le> i \<and> bit k (i - 1)) \<or> (5 \<le> i \<and> bit q (i - 5)) \<or>
      (8 \<le> i \<and> bit p (i - 8)) \<or> bit t i" if "i < 32" for i
    using that unfolding x_def bit_or_iff bit_1_word bit_push_bit_iff by auto
  show "take_bit 4 (drop_bit 1 x) = k"
  proof (rule bit_word_eqI)
    fix i assume "i < LENGTH(32)"
    show "bit (take_bit 4 (drop_bit 1 x)) i = bit k i"
      using assms(1) [of i] assms(4) [of "1 + i"] b [of "1 + i"] by (cases "i < 4") (auto simp: bit_take_bit_iff bit_drop_bit_eq)
  qed
  show "take_bit 3 (drop_bit 5 x) = q"
  proof (rule bit_word_eqI)
    fix i assume "i < LENGTH(32)"
    show "bit (take_bit 3 (drop_bit 5 x)) i = bit q i"
      using assms(1) [of "4 + i"] assms(2) [of i] assms(4) [of "5 + i"] b [of "5 + i"]
      by (cases "i < 3") (auto simp: bit_take_bit_iff bit_drop_bit_eq)
  qed
  show "take_bit 23 (drop_bit 8 x) = p"
  proof (rule bit_word_eqI)
    fix i assume "i < LENGTH(32)"
    show "bit (take_bit 23 (drop_bit 8 x)) i = bit p i"
      using assms(1) [of "7 + i"] assms(2) [of "3 + i"] assms(3) [of i] assms(4) [of "8 + i"] b [of "8 + i"]
      by (cases "i < 23") (auto simp: bit_take_bit_iff bit_drop_bit_eq)
  qed
  show "drop_bit 31 x = drop_bit 31 t"
  proof (rule bit_word_eqI)
    fix i assume "i < LENGTH(32)"
    show "bit (drop_bit 31 x) i = bit (drop_bit 31 t) i"
      using assms(1) [of "30 + i"] assms(2) [of "26 + i"] assms(3) [of "23 + i"] b [of "31 + i"]
      by (cases "i = 0") (auto simp: bit_drop_bit_eq dest: bit_imp_le_length)
  qed
qed

lemma bit_less_width: "unat w < 2 ^ n \<Longrightarrow> bit (w :: 'a::len word) i \<Longrightarrow> i < n"
  by (meson bit_less_exp le_less_trans nat_power_less_imp_less zero_less_numeral)

lemma imm_make_direct_round_trip:
  assumes "imm_can_direct k bits r xm" "k < 16" "r mod 8 = 0" "r < 64" "xm \<in> {0, - 1}" "k \<le> eVoid \<Longrightarrow> bits = 0"
  shows "imm_parse_direct (imm_make_direct k bits r xm) = mk_val k bits"
    "bit (imm_make_direct k bits r xm) 0"
proof -
  define void where "void = (k \<le> eVoid)"
  define y where "y = (if void then 0 else imm_rrot (bits XOR xm) r)"
  define q :: u32 where "q = (if void then 0 else of_nat (r div 8))"
  define t :: u32 where "t = (if void then 0 else ucast (xm AND push_bit 31 1))"
  have "unat k < 2 ^ 4" using assms(2) by (simp add: word_less_nat_alt)
  then have k: "bit k i \<Longrightarrow> i < 4" for i by (rule bit_less_width)
  then have k15: "k AND 15 = k"
    unfolding and_15 by (auto simp: bit_eq_iff bit_take_bit_iff)
  have bk: "bit (ucast (k AND 15) :: u32) i \<Longrightarrow> i < 4" for i
    unfolding k15 using k [of i] by (simp add: bit_ucast_iff)
  have rq: "r div 8 < 8" using assms(4) by simp
  then have uq: "unat q = (if void then 0 else r div 8)" by (simp add: q_def unat_of_nat)
  then have "unat q < 2 ^ 3" using rq by simp
  then have bq: "bit q i \<Longrightarrow> i < 3" for i by (rule bit_less_width)
  have "y \<le> 0x7FFFFF" using assms(1) by (auto simp: y_def void_def imm_can_direct_def)
  then have "unat y < 2 ^ 23" by (simp add: word_le_nat_alt)
  then have by64: "bit y i \<Longrightarrow> i < 23" for i by (rule bit_less_width)
  then have bp: "bit (ucast y :: u32) i \<Longrightarrow> i < 23" for i by (simp add: bit_ucast_iff)
  have bt: "bit t i \<Longrightarrow> i = 31" for i
    unfolding t_def by (auto simp: bit_ucast_iff bit_and_iff bit_push_bit_iff bit_1_word simp del: push_bit_of_1 push_bit_numeral split: if_splits)
  have item: "imm_make_direct k bits r xm = 1 OR push_bit 1 (ucast (k AND 15)) OR push_bit 5 q OR push_bit 8 (ucast y) OR t"
    by (simp add: imm_make_direct_def y_def q_def t_def void_def or.assoc)
  have f: "take_bit 4 (drop_bit 1 (imm_make_direct k bits r xm)) = ucast k"
    "take_bit 3 (drop_bit 5 (imm_make_direct k bits r xm)) = q"
    "take_bit 23 (drop_bit 8 (imm_make_direct k bits r xm)) = ucast y"
    "drop_bit 31 (imm_make_direct k bits r xm) = drop_bit 31 t"
    unfolding item using imm_fields [OF bk bq bp bt] k15 by simp_all
  show "bit (imm_make_direct k bits r xm) 0" unfolding item by (simp add: bit_simps)
  have kind: "imm_parse_direct_kind (imm_make_direct k bits r xm) = k"
    unfolding imm_parse_direct_kind_def and_15 f(1) by (rule bit_word_eqI) (auto simp: bit_ucast_iff)
  have m23: "(0x7FFFFF :: u32) = mask 23" by (simp add: mask_eq_exp_minus_1)
  have imm: "(ucast (drop_bit 8 (imm_make_direct k bits r xm) AND 0x7FFFFF) :: u64) = y"
    unfolding m23 take_bit_eq_mask [symmetric] f(3)
  proof (rule bit_word_eqI)
    fix i assume "i < LENGTH(64)"
    then show "bit (ucast (ucast y :: u32) :: u64) i = bit y i"
      using by64 [of i] by (auto simp: bit_ucast_iff)
  qed
  have e0: "(0xE0 :: u32) = push_bit 5 (mask 3)" by (simp add: mask_eq_exp_minus_1)
  have "drop_bit 2 (x AND 0xE0) = push_bit 3 (take_bit 3 (drop_bit 5 x))" for x :: u32
    unfolding e0 by (rule bit_word_eqI) (auto simp: bit_simps)
  then have "unat (drop_bit 2 (imm_make_direct k bits r xm AND 0xE0)) = unat (push_bit 3 q)"
    by (simp only: f(2))
  also have "\<dots> = 8 * unat q" using rq uq by (simp add: push_bit_eq_mult unat_word_ariths)
  also have "\<dots> = (if void then 0 else r)" using assms(3) uq by auto
  finally have rot: "unat (drop_bit 2 (imm_make_direct k bits r xm AND 0xE0)) = (if void then 0 else r)" .
  have xm: "(- ucast (drop_bit 31 (imm_make_direct k bits r xm)) :: u64) = (if void then 0 else xm)"
    unfolding f(4) using assms(5) by (auto simp: t_def)
  have "xm XOR imm_lrot (imm_rrot (bits XOR xm) r) r = bits"
    unfolding imm_lrot_rrot [OF assms(4)] by (auto simp: bit_eq_iff bit_xor_iff)
  moreover have "imm_lrot 0 0 = 0" by (simp add: imm_lrot_def)
  ultimately have "(if void then 0 else xm) XOR imm_lrot y (if void then 0 else r) = bits"
    using assms(6) by (simp add: void_def y_def)
  then show "imm_parse_direct (imm_make_direct k bits r xm) = mk_val k bits"
    unfolding imm_parse_direct_def Let_def kind imm rot xm by simp
qed

subsection \<open>Constants stored and reloaded\<close>

lemma imm_can_direct_64: "imm_can_direct k bits 64 xm = imm_can_direct k bits 0 xm"
  by (simp add: imm_can_direct_def imm_rrot_def)

lemma imm_recurse_cases:
  assumes "r mod 8 = 0" "r \<le> 64" "xm \<in> {0, - 1}"
  shows "imm_recurse k bits r xm = 0 \<or>
    (\<exists>r' xm'. imm_recurse k bits r xm = imm_make_direct k bits r' xm' \<and> imm_can_direct k bits r' xm' \<and>
       r' mod 8 = 0 \<and> r' \<le> 64 \<and> xm' \<in> {0, - 1})"
  using assms
proof (induction k bits r xm rule: imm_recurse.induct)
  case (1 k bits r xm)
  consider (direct) "imm_can_direct k bits r xm" | (flip) "\<not> imm_can_direct k bits r xm" "xm = 0"
    | (rot) "\<not> imm_can_direct k bits r xm" "xm \<noteq> 0" "r < 64" | (none) "\<not> imm_can_direct k bits r xm" "xm \<noteq> 0" "\<not> r < 64"
    by blast
  then show ?case
  proof cases
    case direct
    then have "imm_recurse k bits r xm = imm_make_direct k bits r xm" by (subst imm_recurse.simps) simp
    with direct "1.prems" show ?thesis by metis
  next
    case flip
    then have "imm_recurse k bits r xm = imm_recurse k bits r (- 1)" by (subst imm_recurse.simps) simp
    with flip "1.IH"(1) "1.prems" show ?thesis by simp
  next
    case rot
    have "(r + 8) mod 8 = 0" "r + 8 \<le> 64" using "1.prems" rot(3) by presburger+
    moreover have "imm_recurse k bits r xm = imm_recurse k bits (r + 8) (NOT xm)"
      using rot by (subst imm_recurse.simps) simp
    moreover have "NOT xm \<in> {0, - 1}" using "1.prems"(3) by auto
    ultimately show ?thesis using rot "1.IH"(2) by simp
  next
    case none
    then show ?thesis by (subst imm_recurse.simps) simp
  qed
qed

text \<open>The last attempt, with a rotation by 64 bits, never succeeds: it repeats the first.\<close>

lemma imm_direct_cases:
  assumes "imm_direct v \<noteq> 0"
  obtains r xm where "imm_direct v = imm_make_direct (vkind v) (vbits v) r xm"
    "imm_can_direct (vkind v) (vbits v) r xm" "r mod 8 = 0" "r < 64" "xm \<in> {0, - 1}" "vkind v AND 0xF0 = 0"
proof -
  let ?k = "vkind v" and ?b = "vbits v"
  from assms have k: "?k AND 0xF0 = 0" and d: "imm_direct v = imm_recurse ?k ?b 0 0"
    by (auto simp: imm_direct_def split: if_splits)
  show ?thesis
  proof (cases "imm_can_direct ?k ?b 0 0 \<or> imm_can_direct ?k ?b 0 (- 1)")
    case True
    then have "imm_direct v = imm_make_direct ?k ?b 0 (if imm_can_direct ?k ?b 0 0 then 0 else - 1)"
      unfolding d by (auto simp: imm_recurse.simps [of ?k ?b 0])
    with True k that show ?thesis by (auto split: if_splits)
  next
    case False
    with imm_recurse_cases [of 0 0 ?k ?b] assms obtain r xm where
      "imm_direct v = imm_make_direct ?k ?b r xm" "imm_can_direct ?k ?b r xm" "r mod 8 = 0" "r \<le> 64" "xm \<in> {0, - 1}"
      unfolding d by auto
    moreover from this False have "r \<noteq> 64" by (auto simp: imm_can_direct_64)
    ultimately show ?thesis using k that [of r xm] by simp
  qed
qed

lemma kind_no_simd_less: "(k :: kind) AND 0xF0 = 0 \<Longrightarrow> k < 16"
proof -
  assume k: "k AND 0xF0 = 0"
  have f0: "(0xF0 :: kind) = push_bit 4 (mask 4)" by (simp add: mask_eq_exp_minus_1)
  have "bit k i \<Longrightarrow> i < 4" for i
  proof (rule ccontr)
    assume "bit k i" "\<not> i < 4"
    then have "bit (k AND 0xF0) i"
      unfolding f0 bit_and_iff bit_push_bit_iff bit_mask_iff by (auto dest: bit_imp_le_length)
    with k show False by simp
  qed
  then have "take_bit 4 k = k" by (auto simp: bit_eq_iff bit_take_bit_iff)
  then have "unat k < 2 ^ 4" by (metis unsigned_take_bit_eq take_bit_nat_less_exp)
  then show ?thesis by (simp add: word_less_nat_alt)
qed

lemma imm_direct_round_trip:
  assumes "imm_direct v \<noteq> 0" "vkind v \<le> eVoid \<Longrightarrow> vbits v = 0"
  shows "imm_parse_direct (imm_direct v) = v" "bit (imm_direct v) 0"
proof -
  obtain r xm where d: "imm_direct v = imm_make_direct (vkind v) (vbits v) r xm"
    "imm_can_direct (vkind v) (vbits v) r xm" "r mod 8 = 0" "r < 64" "xm \<in> {0, - 1}" "vkind v AND 0xF0 = 0"
    by (rule imm_direct_cases [OF assms(1)])
  note m = imm_make_direct_round_trip [OF d(2) kind_no_simd_less [OF d(6)] d(3-5) assms(2)]
  show "imm_parse_direct (imm_direct v) = v" unfolding d(1) by (rule trans [OF m(1)]) (simp_all add: val_eq_iff)
  show "bit (imm_direct v) 0" unfolding d(1) by (rule m(2))
qed

lemma imm_parse_write_indirect:
  "imm_parse_indirect (vkind v) (imm_write_indirect v) =
     mk_val (vkind v) (if kind_bitsize (vkind v) = 64 then vbits v else take_bit 32 (vbits v))"
proof -
  have "(ucast (ucast b :: u32) :: u64) OR push_bit 32 (ucast (ucast (drop_bit 32 b) :: u32)) = b" for b :: u64
  proof (rule bit_word_eqI)
    fix i assume "i < LENGTH(64)"
    then show "bit ((ucast (ucast b :: u32) :: u64) OR push_bit 32 (ucast (ucast (drop_bit 32 b) :: u32))) i = bit b i"
      by (cases "i < 32") (auto simp: bit_simps)
  qed
  moreover have "(ucast (ucast b :: u32) :: u64) = take_bit 32 b" for b :: u64
    by (rule bit_word_eqI) (auto simp: bit_simps)
  ultimately show ?thesis by (auto simp: imm_parse_indirect_def imm_write_indirect_def)
qed

text \<open>Every integer of at most 16 bits is encoded directly.\<close>

lemma imm_direct_small:
  assumes "vkind v AND 0xF0 = 0" "vbits v \<le> 0x7FFFFF \<or> NOT (vbits v) \<le> 0x7FFFFF"
  shows "imm_direct v \<noteq> 0"
proof -
  have "imm_make_direct k b r xm \<noteq> 0" for k b r xm
  proof -
    have "bit (imm_make_direct k b r xm) 0"
      by (auto simp: imm_make_direct_def bit_simps)
    then show ?thesis by auto
  qed
  with assms show ?thesis
    by (auto simp: imm_direct_def imm_recurse.simps [of _ _ 0] imm_can_direct_def imm_rrot_def)
qed

lemma imm_load_store:
  assumes "vkind v \<le> eVoid \<Longrightarrow> vbits v = 0"
  shows "imm_load (vkind v) (imm_store v) =
    (if imm_direct v \<noteq> 0 \<or> kind_bitsize (vkind v) = 64 then v else mk_val (vkind v) (take_bit 32 (vbits v)))"
  using imm_direct_round_trip(1) [OF _ assms] imm_parse_write_indirect [of v]
  by (auto simp: imm_load_def imm_store_def val_eq_iff)

text \<open>The bits above the low 32 of a canonical constant of at most 32 bits.\<close>

lemma canonical_high_bits:
  assumes "canonical v" "kind_bitsize (vkind v) \<le> 32" "\<not> kind_is (vkind v) [gInt]"
  shows "take_bit 32 (vbits v) = vbits v"
proof -
  have "take_bit (kind_bitsize (vkind v)) (vbits v) = vbits v"
    using assms canonical_iff [of v] by (auto simp: ext_word_def split: if_splits)
  then show ?thesis
    by (metis assms(2) min.absorb2 take_bit_take_bit)
qed

lemma canonical_int_high_bits:
  assumes "canonical v" "kind_bitsize (vkind v) \<le> 32" "kind_is (vkind v) [gInt]" "kind_bitsize (vkind v) \<noteq> 0"
  shows "take_bit 32 (vbits v) = vbits v \<longleftrightarrow> 0 \<le> val_int v"
proof -
  let ?n = "kind_bitsize (vkind v)"
  have s: "signed_take_bit (?n - 1) (vbits v) = vbits v"
    using assms canonical_iff [of v] by (auto simp: ext_word_def split: if_splits)
  have b: "bit (vbits v) i = bit (vbits v) (?n - 1)" if "?n - 1 \<le> i" "i < 64" for i
  proof -
    have "bit (signed_take_bit (?n - 1) (vbits v)) i = bit (vbits v) (?n - 1)"
      using that by (simp add: bit_signed_take_bit_iff min.absorb2)
    then show ?thesis unfolding s .
  qed
  have "take_bit 32 (vbits v) = vbits v \<longleftrightarrow> \<not> bit (vbits v) 63"
  proof
    assume e: "take_bit 32 (vbits v) = vbits v"
    then have "bit (vbits v) 63 = bit (take_bit 32 (vbits v)) 63" by simp
    then show "\<not> bit (vbits v) 63" by (simp add: bit_take_bit_iff)
  next
    assume n: "\<not> bit (vbits v) 63"
    show "take_bit 32 (vbits v) = vbits v"
    proof (rule bit_word_eqI)
      fix i assume "i < LENGTH(64)"
      then show "bit (take_bit 32 (vbits v)) i = bit (vbits v) i"
        using n b [of i] b [of 63] assms(2) by (cases "i < 32") (auto simp: bit_take_bit_iff)
    qed
  qed
  also have "\<dots> \<longleftrightarrow> 0 \<le> val_int v"
    using assms(3) bit_last_iff [of "vbits v"] by (auto simp: val_int_def)
  finally show ?thesis .
qed

subsection \<open>Properties\<close>

text \<open>A node header survives its encoding in 32 bits: type, kind and operator are recovered, for
  every header.\<close>

lemma header_encoding_round_trip:
  "header_of_item (header_item h) = Some h \<and> header_item h AND 15 = 14"
  using header_round_trip [of h] header_item_fields(4) [of h] by (simp add: and_15)

text \<open>A local variable is recovered from the item that stands for it in a node, whichever of the
  two encodings the code selects: directly when its top 3 bits are zero, and else indirectly, with the
  kind taken from the header. A local variable made from a kind and an identifier of 24 bits keeps
  both.\<close>

theorem local_encoding_round_trip:
  assumes "i < 2 ^ 24"
  shows "(let l = local_make k i
     in local_kind l = k \<and> local_id l = i \<and>
        (if local_is_direct l
         then local_parse_direct (local_direct l) = l \<and> local_parse_direct_kind (local_direct l) = k
         else local_parse_indirect k (local_indirect l) = l))"
  using local_make_fields [OF assms, of k] local_direct_round_trip [of "local_make k i"]
    local_indirect_round_trip [of "local_make k i"]
  by (simp add: Let_def)

lemma local_encoding_round_trip_witness:
  "\<not> local_is_direct (local_make eInt64 0x200000) \<and>
   local_parse_indirect eInt64 (local_indirect (local_make eInt64 0x200000)) = local_make eInt64 0x200000"
  using local_encoding_round_trip [of "0x200000" eInt64]
  by (simp add: local_is_direct_def local_make_def Let_def)

text \<open>A canonical constant of a kind of at most 64 bits that is stored in a node, directly or after
  its header, is read back unchanged, except for a negative constant of a signed kind narrower than 64
  bits that has no direct encoding: its upper half is lost.\<close>

lemma const_encoding_round_trip:
  assumes "canonical v" "vkind v \<in> set scalar_kinds - {eFloat128}"
  shows "imm_load (vkind v) (imm_store v) = v \<longleftrightarrow>
    imm_direct v \<noteq> 0 \<or> \<not> (kind_is (vkind v) [gInt] \<and> kind_bitsize (vkind v) < 64 \<and> val_int v < 0)"
proof -
  have sz: "kind_bitsize (vkind v) \<le> 32 \<or> kind_bitsize (vkind v) = 64"
    and i0: "kind_is (vkind v) [gInt] \<Longrightarrow> kind_bitsize (vkind v) \<noteq> 0"
    using assms(2) by (auto simp: scalar_kinds_def kind_defs)
  have "vbits v = 0" if "vkind v \<le> eVoid"
  proof -
    have "vkind v = eBad \<or> vkind v = eVoid" using that assms(2) by (auto simp: scalar_kinds_def word_le_nat_alt)
    then have "kind_bitsize (vkind v) = 0" by (auto simp: kind_defs)
    with assms(1) show ?thesis by (simp add: canonical_def extend_or_truncate_def val_eq_iff)
  qed
  then have *: "imm_load (vkind v) (imm_store v) =
    (if imm_direct v \<noteq> 0 \<or> kind_bitsize (vkind v) = 64 then v else mk_val (vkind v) (take_bit 32 (vbits v)))"
    by (rule imm_load_store)
  show ?thesis
    using sz i0 canonical_high_bits [OF assms(1)] canonical_int_high_bits [OF assms(1)]
    by (cases "kind_is (vkind v) [gInt]") (auto simp: * val_eq_iff)
qed

lemma const_encoding_round_trip_witness:
  "imm_load eUint32 (imm_store (mk_val eUint32 0xDEADBEEF)) = mk_val eUint32 0xDEADBEEF"
proof -
  have "canonical (mk_val eUint32 0xDEADBEEF)"
    by (simp add: canonical_iff ext_word_def kind_is_def kind_group_def kgroup_def)
  with const_encoding_round_trip [of "mk_val eUint32 0xDEADBEEF"] show ?thesis
    by (simp add: scalar_kinds_def kind_is_def kind_group_def kgroup_def)
qed

text \<open>The exception is real: the 32-bit constant -2000000000 has no direct encoding, and is read
  back as the 64-bit pattern of 2294967296.\<close>

theorem const_int32_loses_sign:
  "canonical (mk_val eInt32 (- 2000000000)) \<and>
   imm_load eInt32 (imm_store (mk_val eInt32 (- 2000000000))) = mk_val eInt32 2294967296"
proof -
  have "imm_direct (mk_val eInt32 (- 2000000000)) = 0"
    by (simp add: imm_direct_def imm_recurse.simps imm_can_direct_def imm_rrot_def word_le_nat_alt)
  then show ?thesis
    by (simp add: imm_load_def imm_store_def imm_write_indirect_def imm_parse_indirect_def canonical_iff ext_word_def)
qed

end
