(* ===== verification/Codes.thy ===== *)
theory Codes imports Containers Encodings begin

text \<open>
  The buffer that holds the nodes of a program: class \<open>Code\<close> of \<open>src/onejit/code.hpp\<close>, \<open>code.cpp\<close>.
  It is a \<open>Buffer\<close> of 32-bit items, addressed by byte offsets of 32 bits; \<open>ok\<close> is the behaviour of the
  allocator, as in the theory of the containers. \<open>Code\<close> stores 64-bit numbers with \<open>memcpy\<close>: the model is the
  little-endian one.
\<close>

type_synonym code = "u32 buffer"

abbreviation items :: "code \<Rightarrow> u32 list" where
  "items c \<equiv> elems (bdata c)"

subsection \<open>Reading\<close>

definition code_get :: "code \<Rightarrow> u32 \<Rightarrow> u32" where
  "code_get c byte_offset = view_get 0 (items c) (unat byte_offset div 4)"

definition code_uint64 :: "code \<Rightarrow> u32 \<Rightarrow> u64" where
  "code_uint64 c byte_offset =
     (let index = unat byte_offset div 4
      in if index + 1 < length (items c)
         then ucast (items c ! index) OR push_bit 32 (ucast (items c ! (index + 1))) else 0)"

text \<open>The length in bytes; an \<open>Offset\<close> has 32 bits, so it wraps around at 4 GB.\<close>

definition code_length :: "code \<Rightarrow> u32" where
  "code_length c = of_nat (4 * length (items c))"

subsection \<open>Writing\<close>

definition code_add_items :: "(nat \<Rightarrow> bool) \<Rightarrow> u32 list \<Rightarrow> code \<Rightarrow> code" where
  "code_add_items ok data c = buf_append 0 ok data c"

definition code_add_item :: "(nat \<Rightarrow> bool) \<Rightarrow> u32 \<Rightarrow> code \<Rightarrow> code" where
  "code_add_item ok item c = code_add_items ok [item] c"

definition code_add_uint64 :: "(nat \<Rightarrow> bool) \<Rightarrow> u64 \<Rightarrow> code \<Rightarrow> code" where
  "code_add_uint64 ok w c = code_add_items ok [ucast w, ucast (drop_bit 32 w)] c"

definition code_add_header :: "(nat \<Rightarrow> bool) \<Rightarrow> header \<Rightarrow> code \<Rightarrow> code" where
  "code_add_header ok h c = code_add_item ok (header_item h) c"

text \<open>A kind is saved wrapped in a direct variable.\<close>

definition code_add_kind :: "(nat \<Rightarrow> bool) \<Rightarrow> kind \<Rightarrow> code \<Rightarrow> code" where
  "code_add_kind ok k c = code_add_item ok (local_direct (local_make k 0)) c"

fun code_add_kinds :: "(nat \<Rightarrow> bool) \<Rightarrow> kind list \<Rightarrow> code \<Rightarrow> code" where
  "code_add_kinds ok [] c = c"
| "code_add_kinds ok (k # ks) c =
     (let c1 = code_add_kind ok k c in if good c1 then code_add_kinds ok ks c1 else c1)"

text \<open>Four characters fill an item, from the lowest byte; the last item is padded with zeros.\<close>

fun pack_bytes :: "u8 list \<Rightarrow> u32" where
  "pack_bytes [] = 0"
| "pack_bytes (b # bs) = ucast b OR push_bit 8 (pack_bytes bs)"

definition code_add_chars :: "(nat \<Rightarrow> bool) \<Rightarrow> u8 list \<Rightarrow> code \<Rightarrow> code" where
  "code_add_chars ok chars c =
     (let n = length chars; whole = n div 4;
          c1 = (if n \<ge> 4 then code_add_items ok (map (\<lambda>i. pack_bytes (take 4 (drop (4 * i) chars))) [0..<whole]) c else c);
          rest = drop (4 * whole) chars
      in if n \<ge> 4 \<and> \<not> good c1 then c1
         else if rest = [] then c1
         else code_add_item ok (pack_bytes rest) c1)"

definition code_truncate :: "u32 \<Rightarrow> code \<Rightarrow> code" where
  "code_truncate length_bytes c =
     (let n = unat length_bytes div 4 in if length (items c) > n then buf_truncate n c else c)"

definition code_clear :: "code \<Rightarrow> code" where
  "code_clear c = code_truncate 8 (buf_clearerr c)"

definition code_init :: "(nat \<Rightarrow> bool) \<Rightarrow> code \<Rightarrow> code" where
  "code_init ok c = code_add_item ok 0x54494A31
     (code_add_header ok (mk_header CONSTN (kind_with_simdn eUint8 (bits_of_size 4)) 0) c)"

definition code_new :: "(nat \<Rightarrow> bool) \<Rightarrow> nat \<Rightarrow> code" where
  "code_new ok capacity =
     (let c = buf_reserve ok capacity buf_new in if good c then code_init ok c else c)"

lemmas code_add_defs = code_add_items_def code_add_item_def code_add_uint64_def code_add_header_def code_add_kind_def

subsection \<open>Facts\<close>

text \<open>The effect of an append, by the error flag it leaves.\<close>

lemma code_add_items_effect:
  "items (code_add_items ok data c) = (if good (code_add_items ok data c) then items c @ data else items c)"
  unfolding code_add_items_def by (rule buf_append_prefix)

lemma code_add_items_good: "good (code_add_items ok data c) \<Longrightarrow> good c"
  unfolding code_add_items_def by (rule buf_append_good)

lemma code_add_items_bad [simp]: "\<not> good c \<Longrightarrow> code_add_items ok data c = c"
  by (simp add: code_add_items_def buf_append_def)

text \<open>A sequence of appends that leaves no error has added everything, in order.\<close>

definition adds :: "u32 list \<Rightarrow> code \<Rightarrow> code \<Rightarrow> bool" where
  "adds xs c c' \<longleftrightarrow> (good c' \<longrightarrow> good c \<and> items c' = items c @ xs) \<and>
     (\<exists>k. items c' = items c @ take k xs)"

lemma adds_refl: "adds [] c c"
  by (simp add: adds_def)

lemma adds_items: "adds xs c (code_add_items ok xs c)"
  using code_add_items_effect [of ok xs c] code_add_items_good [of ok xs c]
  by (cases "good (code_add_items ok xs c)") (auto simp: adds_def intro: exI [of _ "length xs"] exI [of _ 0])

lemma adds_trans:
  assumes "adds xs c1 c2" "adds ys c2 c3" "\<not> good c2 \<Longrightarrow> c3 = c2"
  shows "adds (xs @ ys) c1 c3"
proof (cases "good c2")
  case True
  with assms(1) have c: "good c1" "items c2 = items c1 @ xs" by (auto simp: adds_def)
  from assms(2) obtain k where k: "items c3 = items c2 @ take k ys" by (auto simp: adds_def)
  with c have "items c3 = items c1 @ take (length xs + k) (xs @ ys)" by simp
  then have "\<exists>k. items c3 = items c1 @ take k (xs @ ys)" by blast
  moreover have "good c3 \<longrightarrow> good c1 \<and> items c3 = items c1 @ xs @ ys"
    using c assms(2) by (auto simp: adds_def)
  ultimately show ?thesis by (simp add: adds_def)
next
  case False
  with assms(1,3) obtain k where "c3 = c2" "items c2 = items c1 @ take k xs" by (auto simp: adds_def)
  then have "items c3 = items c1 @ take (min k (length xs)) (xs @ ys)" by (simp add: min_def)
  then have "\<exists>k. items c3 = items c1 @ take k (xs @ ys)" by blast
  with False \<open>c3 = c2\<close> show ?thesis by (simp add: adds_def)
qed

lemma adds_item: "adds [x] c (code_add_item ok x c)"
  unfolding code_add_item_def by (rule adds_items)

lemma code_add_item_bad [simp]: "\<not> good c \<Longrightarrow> code_add_item ok x c = c"
  by (simp add: code_add_item_def)

lemma code_get_append: "4 * n < 2 ^ 32 \<Longrightarrow> n < length (items c) \<Longrightarrow> code_get c (of_nat (4 * n)) = items c ! n"
proof -
  assume n: "4 * n < 2 ^ 32" "n < length (items c)"
  then have "unat (of_nat (4 * n) :: u32) = 4 * n" by (simp only: unat_of_nat) (simp add: take_bit_nat_eq_self)
  with n show ?thesis by (simp add: code_get_def view_get_def)
qed

end
