(* ===== verification/OpStmts.thy ===== *)
theory OpStmts imports Ops begin

text \<open>
  The operations of statements: the enumerations \<open>OpStmt0\<close> to \<open>OpStmt4\<close> and \<open>OpStmtN\<close> of
  \<open>src/onejit/opstmt0.hpp\<close> ... \<open>opstmtn.hpp\<close>, and the tables and functions on them of
  \<open>src/onejit/opstmt.cpp\<close>.

  An operation is its 16-bit code, as in the header of a node. The enumerators and the strings they
  are printed as come from the same lists of macro invocations \<open>x(NAME, name)\<close>; a row of a table is
  an enumerator and its string, and the code of an enumerator is its position.
\<close>

type_synonym opcode = u16

subsection \<open>The lists of macro invocations\<close>

definition opstmt0_x86 :: "(string \<times> string) list" where
  "opstmt0_x86 =
    [(''CLC'', ''clc''), (''CLD'', ''cld''), (''CMC'', ''cmc''), (''INT3'', ''int3''), (''LOCK'', ''lock''),
     (''NOP'', ''nop''), (''PAUSE'', ''pause''), (''POPF'', ''popf''), (''PUSHF'', ''pushf''),
     (''REP'', ''rep''), (''REPNE'', ''repne''), (''STC'', ''stc''), (''STD'', ''std''),
     (''SYSCALL'', ''syscall''), (''SYSENTER'', ''sysenter''), (''SYSEXIT'', ''sysexit''),
     (''SYSRET'', ''sysret''), (''UD2'', ''ud2''), (''XACQUIRE'', ''xacquire''), (''XRELEASE'', ''xrelease''),
     (''LFENCE'', ''lfence''), (''MFENCE'', ''mfence''), (''SFENCE'', ''sfence''), (''XEND'', ''xend''),
     (''XTEST'', ''xtest'')]"

definition opstmt1_mir :: "(string \<times> string) list" where
  "opstmt1_mir =
    [(''JMP'', ''jmp'')]"

definition opstmt1_x86 :: "(string \<times> string) list" where
  "opstmt1_x86 =
    [(''BSWAP'', ''bswap''), (''CALL'', ''call''), (''CBW'', ''cbw''), (''DEC'', ''dec''), (''INC'', ''inc''),
     (''INT'', ''int''), (''JA'', ''ja''), (''JAE'', ''jae''), (''JB'', ''jb''), (''JBE'', ''jbe''),
     (''JE'', ''je''), (''JG'', ''jg''), (''JGE'', ''jge''), (''JL'', ''jl''), (''JLE'', ''jle''),
     (''JNE'', ''jne''), (''JNO'', ''jno''), (''JNP'', ''jnp''), (''JNS'', ''jns''), (''JO'', ''jo''),
     (''JP'', ''jp''), (''JS'', ''js''), (''JMP'', ''jmp''), (''NEG'', ''neg''), (''NOT'', ''not''),
     (''POP'', ''pop''), (''PUSH'', ''push''), (''RDTSC'', ''rdtsc''), (''SETA'', ''seta''),
     (''SETAE'', ''setae''), (''SETB'', ''setb''), (''SETBE'', ''setbe''), (''SETE'', ''sete''),
     (''SETG'', ''setg''), (''SETGE'', ''setge''), (''SETL'', ''setl''), (''SETLE'', ''setle''),
     (''SETNE'', ''setne''), (''SETNO'', ''setno''), (''SETNP'', ''setnp''), (''SETNS'', ''setns''),
     (''SETO'', ''seto''), (''SETP'', ''setp''), (''SETS'', ''sets''), (''CLFLUSH'', ''clflush''),
     (''CLFLUSHOPT'', ''clflushopt''), (''CLWB'', ''clwb''), (''XABORT'', ''xabort'')]"

definition opstmt2_mir :: "(string \<times> string) list" where
  "opstmt2_mir =
    [(''MOV'', ''mov''), (''FMOV'', ''fmov''), (''DMOV'', ''dmov''), (''LDMOV'', ''ldmov''),
     (''EXT8'', ''ext8''), (''EXT16'', ''ext16''), (''EXT32'', ''ext32''), (''UEXT8'', ''uext8''),
     (''UEXT16'', ''uext16''), (''UEXT32'', ''uext32''), (''I2F'', ''i2f''), (''I2D'', ''i2d''),
     (''I2LD'', ''i2ld''), (''UI2F'', ''ui2f''), (''UI2D'', ''ui2d''), (''UI2LD'', ''ui2ld''),
     (''F2I'', ''f2i''), (''D2I'', ''d2i''), (''LD2I'', ''ld2i''), (''F2D'', ''f2d''), (''F2LD'', ''f2ld''),
     (''D2F'', ''d2f''), (''D2LD'', ''d2ld''), (''LD2F'', ''ld2f''), (''LD2D'', ''ld2d''), (''NEG'', ''neg''),
     (''NEGS'', ''negs''), (''FNEG'', ''fneg''), (''DNEG'', ''dneg''), (''LDNEG'', ''ldneg''),
     (''ALLOCA'', ''alloca'')]"

definition opstmt2_x86 :: "(string \<times> string) list" where
  "opstmt2_x86 =
    [(''ADD'', ''add''), (''ADC'', ''adc''), (''AND'', ''and''), (''BSF'', ''bsf''), (''BSR'', ''bsr''),
     (''BT'', ''bt''), (''BTC'', ''btc''), (''BTR'', ''btr''), (''BTS'', ''bts''), (''CMOVA'', ''cmova''),
     (''CMOVAE'', ''cmovae''), (''CMOVB'', ''cmovb''), (''CMOVBE'', ''cmovbe''), (''CMOVE'', ''cmove''),
     (''CMOVG'', ''cmovg''), (''CMOVGE'', ''cmovge''), (''CMOVL'', ''cmovl''), (''CMOVLE'', ''cmovle''),
     (''CMOVNE'', ''cmovne''), (''CMOVNO'', ''cmovno''), (''CMOVNP'', ''cmovnp''), (''CMOVNS'', ''cmovns''),
     (''CMOVO'', ''cmovo''), (''CMOVP'', ''cmovp''), (''CMOVS'', ''cmovs''), (''CMP'', ''cmp''),
     (''CMPXCHG'', ''cmpxchg''), (''CMPXCHG8B'', ''cmpxchg8b''), (''CMPXCHG16B'', ''cmpxchg16b''),
     (''DIV'', ''div''), (''IDIV'', ''idiv''), (''IMUL'', ''imul''), (''LEA'', ''lea''), (''LODS'', ''lods''),
     (''MOV'', ''mov''), (''MOVNTI'', ''movnti''), (''MOVS'', ''movs''), (''MOVSX'', ''movsx''),
     (''MOVZX'', ''movzx''), (''MUL'', ''mul''), (''OR'', ''or''), (''RCL'', ''rcl''), (''RCR'', ''rcr''),
     (''ROL'', ''rol''), (''ROR'', ''ror''), (''SAR'', ''sar''), (''SHL'', ''shl''), (''SHR'', ''shr''),
     (''SBB'', ''sbb''), (''SUB'', ''sub''), (''TEST'', ''test''), (''XADD'', ''xadd''), (''XCHG'', ''xchg''),
     (''XOR'', ''xor''), (''MOVHLPD'', ''movhlpd''), (''MOVHPD'', ''movhpd''), (''MOVLHPD'', ''movlhpd''),
     (''MOVLPD'', ''movlpd''), (''MOVHLPS'', ''movhlps''), (''MOVHPS'', ''movhps''),
     (''MOVLHPS'', ''movlhps''), (''MOVLPS'', ''movlps''), (''CVTSD2SI'', ''cvtsd2si''),
     (''CVTSD2SS'', ''cvtsd2ss''), (''CVTSI2SD'', ''cvtsi2sd''), (''CVTSI2SS'', ''cvtsi2ss''),
     (''CVTSS2SD'', ''cvtss2sd''), (''CVTSS2SI'', ''cvtss2si''), (''DIVSD'', ''divsd''),
     (''DIVSS'', ''divss''), (''MAXPD'', ''maxpd''), (''MAXPS'', ''maxps''), (''MAXSD'', ''maxsd''),
     (''MAXSS'', ''maxss''), (''MINPD'', ''minpd''), (''MINPS'', ''minps''), (''MINSD'', ''minsd''),
     (''MINSS'', ''minss''), (''MOVAPD'', ''movapd''), (''MOVAPS'', ''movaps''), (''MOVD'', ''movd''),
     (''MOVDQA'', ''movdqa''), (''MOVDQU'', ''movdqu''), (''MOVMKSPD'', ''movmkspd''),
     (''MOVMKSPS'', ''movmksps''), (''MOVNTDQ'', ''movntdq''), (''MOVNTPD'', ''movntpd''),
     (''MOVNTPS'', ''movntps''), (''MOVQ'', ''movq''), (''MOVSD'', ''movsd''), (''MOVSS'', ''movss''),
     (''MOVUPD'', ''movupd''), (''MOVUPS'', ''movups''), (''MULPD'', ''mulpd''), (''MULPS'', ''mulps''),
     (''PAND'', ''pand''), (''PANDN'', ''pandn''), (''POR'', ''por''), (''PXOR'', ''pxor''),
     (''LDDQU'', ''lddqu''), (''MOVNTDQA'', ''movntdqa''), (''CRC32'', ''crc32''), (''LZCNT'', ''lzcnt''),
     (''MOVBE'', ''movbe''), (''POPCNT'', ''popcnt''), (''XBEGIN'', ''xbegin'')]"

definition opstmt3_asm :: "(string \<times> string) list" where
  "opstmt3_asm =
    [(''JA'', ''ja''), (''JAE'', ''jae''), (''JB'', ''jb''), (''JBE'', ''jbe''), (''JE'', ''je''),
     (''JG'', ''jg''), (''JGE'', ''jge''), (''JL'', ''jl''), (''JLE'', ''jle''), (''JNE'', ''jne'')]"

definition opstmt3_mir :: "(string \<times> string) list" where
  "opstmt3_mir =
    [(''ADD'', ''add''), (''ADDS'', ''adds''), (''FADD'', ''fadd''), (''DADD'', ''dadd''),
     (''LDADD'', ''ldadd''), (''SUB'', ''sub''), (''SUBS'', ''subs''), (''FSUB'', ''fsub''),
     (''DSUB'', ''dsub''), (''LDSUB'', ''ldsub''), (''MUL'', ''mul''), (''MULS'', ''muls''),
     (''FMUL'', ''fmul''), (''DMUL'', ''dmul''), (''LDMUL'', ''ldmul''), (''DIV'', ''div''),
     (''DIVS'', ''divs''), (''UDIV'', ''udiv''), (''UDIVS'', ''udivs''), (''FDIV'', ''fdiv''),
     (''DDIV'', ''ddiv''), (''LDDIV'', ''lddiv''), (''MOD'', ''mod''), (''MODS'', ''mods''),
     (''UMOD'', ''umod''), (''UMODS'', ''umods''), (''AND'', ''and''), (''ANDS'', ''ands''), (''OR'', ''or''),
     (''ORS'', ''ors''), (''XOR'', ''xor''), (''XORS'', ''xors''), (''LSH'', ''lsh''), (''LSHS'', ''lshs''),
     (''RSH'', ''rsh''), (''RSHS'', ''rshs''), (''URSH'', ''ursh''), (''URSHS'', ''urshs''), (''EQ'', ''eq''),
     (''EQS'', ''eqs''), (''FEQ'', ''feq''), (''DEQ'', ''deq''), (''LDEQ'', ''ldeq''), (''NE'', ''ne''),
     (''NES'', ''nes''), (''FNE'', ''fne''), (''DNE'', ''dne''), (''LDNE'', ''ldne''), (''LT'', ''lt''),
     (''LTS'', ''lts''), (''ULT'', ''ult''), (''ULTS'', ''ults''), (''FLT'', ''flt''), (''DLT'', ''dlt''),
     (''LDLT'', ''ldlt''), (''LE'', ''le''), (''LES'', ''les''), (''ULE'', ''ule''), (''ULES'', ''ules''),
     (''FLE'', ''fle''), (''DLE'', ''dle''), (''LDLE'', ''ldle''), (''GT'', ''gt''), (''GTS'', ''gts''),
     (''UGT'', ''ugt''), (''UGTS'', ''ugts''), (''FGT'', ''fgt''), (''DGT'', ''dgt''), (''LDGT'', ''ldgt''),
     (''GE'', ''ge''), (''GES'', ''ges''), (''UGE'', ''uge''), (''UGES'', ''uges''), (''FGE'', ''fge''),
     (''DGE'', ''dge''), (''LDGE'', ''ldge''), (''BEQ'', ''beq''), (''BEQS'', ''beqs''), (''FBEQ'', ''fbeq''),
     (''DBEQ'', ''dbeq''), (''LDBEQ'', ''ldbeq''), (''BNE'', ''bne''), (''BNES'', ''bnes''),
     (''FBNE'', ''dbne''), (''DBNE'', ''dbne''), (''LDBNE'', ''dbne''), (''BLT'', ''blt''),
     (''BLTS'', ''blts''), (''UBLT'', ''ublt''), (''UBLTS'', ''ublts''), (''FBLT'', ''dblt''),
     (''DBLT'', ''dblt''), (''LDBLT'', ''dblt''), (''BLE'', ''ble''), (''BLES'', ''bles''),
     (''UBLE'', ''uble''), (''UBLES'', ''ubles''), (''FBLE'', ''dble''), (''DBLE'', ''dble''),
     (''LDBLE'', ''dble''), (''BGT'', ''bgt''), (''BGTS'', ''bgts''), (''UBGT'', ''ubgt''),
     (''UBGTS'', ''ubgts''), (''FBGT'', ''dbgt''), (''DBGT'', ''dbgt''), (''LDBGT'', ''dbgt''),
     (''BGE'', ''bge''), (''BGES'', ''bges''), (''UBGE'', ''ubge''), (''UBGES'', ''ubges''),
     (''FBGE'', ''dbge''), (''DBGE'', ''dbge''), (''LDBGE'', ''dbge'')]"

definition opstmt3_x86 :: "(string \<times> string) list" where
  "opstmt3_x86 =
    [(''IMUL3'', ''imul3''), (''SHLD'', ''shld''), (''SHRD'', ''shrd''), (''PEXTRW'', ''pextrw''),
     (''EXTRACTPS'', ''extractps''), (''INSERTPS'', ''insertps''), (''PINSR'', ''pinsr'')]"

definition opstmtn_mir :: "(string \<times> string) list" where
  "opstmtn_mir =
    [(''SWITCH'', ''switch''), (''CALL'', ''call''), (''RET'', ''ret'')]"

definition opstmtn_x86 :: "(string \<times> string) list" where
  "opstmtn_x86 =
    [(''CALL_'', ''call_''), (''RET'', ''ret'')]"


subsection \<open>Enumerations\<close>

definition enum_rows :: "string \<Rightarrow> string \<Rightarrow> (string \<times> string) list \<Rightarrow> (string \<times> string) list" where
  "enum_rows P p xs = map (\<lambda>(N, n). (P @ N, p @ n)) xs"

definition opstmt0_rows :: "(string \<times> string) list" where
  "opstmt0_rows =
    [(''BAD'', ''_''), (''BREAK'', ''break''), (''CONTINUE'', ''continue''), (''FALLTHROUGH'', ''fallthrough'')] @
    enum_rows ''X86_'' ''x86_'' opstmt0_x86"

definition opstmt1_rows :: "(string \<times> string) list" where
  "opstmt1_rows =
    [(''BAD_ST1'', ''?''), (''GOTO'', ''goto''), (''INC'', ''++''), (''DEC'', ''--'')] @
    enum_rows ''MIR_'' ''mir_'' opstmt1_mir @ enum_rows ''X86_'' ''x86_'' opstmt1_x86"

definition opstmt2_rows :: "(string \<times> string) list" where
  "opstmt2_rows =
    [(''BAD_ST2'', ''?''), (''ADD_ASSIGN'', ''+=''), (''SUB_ASSIGN'', ''-=''), (''MUL_ASSIGN'', ''*=''),
     (''QUO_ASSIGN'', ''/=''), (''REM_ASSIGN'', ''%=''), (''AND_ASSIGN'', ''&=''), (''OR_ASSIGN'', ''|=''),
     (''XOR_ASSIGN'', ''^=''), (''SHL_ASSIGN'', ''<<=''), (''SHR_ASSIGN'', ''>>=''), (''ASSIGN'', ''=''),
     (''CASE'', ''case''), (''DEFAULT'', ''default''), (''JUMP_IF'', ''jump_if'')] @
    enum_rows ''MIR_'' ''mir_'' opstmt2_mir @ enum_rows ''X86_'' ''x86_'' opstmt2_x86"

definition opstmt3_rows :: "(string \<times> string) list" where
  "opstmt3_rows =
    [(''BAD_ST3'', ''?''), (''IF'', ''if'')] @ enum_rows ''ASM_'' ''asm_'' opstmt3_asm @
    enum_rows ''MIR_'' ''mir_'' opstmt3_mir @ enum_rows ''X86_'' ''x86_'' opstmt3_x86"

definition opstmt4_rows :: "(string \<times> string) list" where
  "opstmt4_rows = [(''BAD_ST4'', ''?''), (''FOR'', ''for'')]"

definition opstmtn_rows :: "(string \<times> string) list" where
  "opstmtn_rows =
    [(''BAD_STN'', ''?''), (''ASSIGN_CALL'', ''=tuple''), (''BLOCK'', ''block''), (''COND'', ''cond''),
     (''RETURN'', ''return''), (''SWITCH'', ''switch''), (''SET_'', ''_set'')] @
    enum_rows ''MIR_'' ''mir_'' opstmtn_mir @ enum_rows ''X86_'' ''x86_'' opstmtn_x86"

text \<open>The position of an enumerator, and the number of rows when there is none.\<close>

fun row_index :: "(string \<times> string) list \<Rightarrow> string \<Rightarrow> nat" where
  "row_index [] N = 0"
| "row_index ((M, m) # rows) N = (if M = N then 0 else Suc (row_index rows N))"

definition enum_code :: "(string \<times> string) list \<Rightarrow> string \<Rightarrow> opcode" where
  "enum_code rows N = of_nat (row_index rows N)"

lemma row_index_nth: "N \<in> fst ` set rows \<Longrightarrow> row_index rows N < length rows \<and> fst (rows ! row_index rows N) = N"
  by (induction rows N rule: row_index.induct) auto

lemma row_index_distinct:
  "distinct (map fst rows) \<Longrightarrow> i < length rows \<Longrightarrow> row_index rows (fst (rows ! i)) = i"
proof (induction rows arbitrary: i)
  case (Cons r rows)
  then show ?case by (cases r; cases i) (auto simp: nth_mem image_iff)
qed simp

subsection \<open>Printing\<close>

text \<open>The functions \<open>to_string\<close>; the default is the first row, but the last of its table for \<open>OpStmt0\<close>.\<close>

definition print_op0 :: "opcode \<Rightarrow> string" where
  "print_op0 op = (let strings = map snd opstmt0_rows @ [''?'']; i = unat op
     in strings ! (if i \<ge> length strings then length strings - 1 else i))"

definition print_row :: "(string \<times> string) list \<Rightarrow> opcode \<Rightarrow> string" where
  "print_row rows op = (let strings = map snd rows; i = (if unat op < length strings then unat op else 0) in strings ! i)"

definition print_op1 :: "opcode \<Rightarrow> string" where "print_op1 = print_row opstmt1_rows"
definition print_op2 :: "opcode \<Rightarrow> string" where "print_op2 = print_row opstmt2_rows"
definition print_op3 :: "opcode \<Rightarrow> string" where "print_op3 = print_row opstmt3_rows"
definition print_op4 :: "opcode \<Rightarrow> string" where "print_op4 = print_row opstmt4_rows"
definition print_opn :: "opcode \<Rightarrow> string" where "print_opn = print_row opstmtn_rows"

subsection \<open>The codes the other components use\<close>

abbreviation "BREAK \<equiv> (1 :: opcode)"
abbreviation "CONTINUE \<equiv> (2 :: opcode)"
abbreviation "FALLTHROUGH \<equiv> (3 :: opcode)"
abbreviation "GOTO \<equiv> (1 :: opcode)"
abbreviation "INC \<equiv> (2 :: opcode)"
abbreviation "DEC \<equiv> (3 :: opcode)"
abbreviation "BAD_ST2 \<equiv> (0 :: opcode)"
abbreviation "ADD_ASSIGN \<equiv> (1 :: opcode)"
abbreviation "SUB_ASSIGN \<equiv> (2 :: opcode)"
abbreviation "MUL_ASSIGN \<equiv> (3 :: opcode)"
abbreviation "QUO_ASSIGN \<equiv> (4 :: opcode)"
abbreviation "REM_ASSIGN \<equiv> (5 :: opcode)"
abbreviation "AND_ASSIGN \<equiv> (6 :: opcode)"
abbreviation "OR_ASSIGN \<equiv> (7 :: opcode)"
abbreviation "XOR_ASSIGN \<equiv> (8 :: opcode)"
abbreviation "SHL_ASSIGN \<equiv> (9 :: opcode)"
abbreviation "SHR_ASSIGN \<equiv> (10 :: opcode)"
abbreviation "ASSIGN \<equiv> (11 :: opcode)"
abbreviation "CASEST \<equiv> (12 :: opcode)"
abbreviation "DEFAULT \<equiv> (13 :: opcode)"
abbreviation "JUMP_IF \<equiv> (14 :: opcode)"
abbreviation "IFST \<equiv> (1 :: opcode)"
abbreviation "ASM_JA \<equiv> (2 :: opcode)"
abbreviation "ASM_JAE \<equiv> (3 :: opcode)"
abbreviation "ASM_JB \<equiv> (4 :: opcode)"
abbreviation "ASM_JBE \<equiv> (5 :: opcode)"
abbreviation "ASM_JE \<equiv> (6 :: opcode)"
abbreviation "ASM_JG \<equiv> (7 :: opcode)"
abbreviation "ASM_JGE \<equiv> (8 :: opcode)"
abbreviation "ASM_JL \<equiv> (9 :: opcode)"
abbreviation "ASM_JLE \<equiv> (10 :: opcode)"
abbreviation "ASM_JNE \<equiv> (11 :: opcode)"
abbreviation "FORST \<equiv> (1 :: opcode)"
abbreviation "ASSIGN_CALL \<equiv> (1 :: opcode)"
abbreviation "BLOCK \<equiv> (2 :: opcode)"
abbreviation "CONDST \<equiv> (3 :: opcode)"
abbreviation "RETURN \<equiv> (4 :: opcode)"
abbreviation "SWITCH \<equiv> (5 :: opcode)"

definition is_assign :: "opcode \<Rightarrow> bool" where
  "is_assign op \<longleftrightarrow> op \<ge> ADD_ASSIGN \<and> op \<le> ASSIGN"

text \<open>The conversions between assignment operations and operators.\<close>

definition to_op2 :: "opcode \<Rightarrow> op2" where
  "to_op2 op = (if op = SUB_ASSIGN then SUB else if op = QUO_ASSIGN then QUO else if op = REM_ASSIGN then REM
     else if op = SHL_ASSIGN then SHL else if op = SHR_ASSIGN then SHR else BAD2)"

definition to_opn :: "opcode \<Rightarrow> opn" where
  "to_opn op = (if op = ADD_ASSIGN then ADDN else if op = MUL_ASSIGN then MULN else if op = AND_ASSIGN then ANDN
     else if op = OR_ASSIGN then ORN else if op = XOR_ASSIGN then XORN else BADN)"

fun to_assign_op2 :: "op2 \<Rightarrow> opcode" where
  "to_assign_op2 SUB = SUB_ASSIGN"
| "to_assign_op2 QUO = QUO_ASSIGN"
| "to_assign_op2 REM = REM_ASSIGN"
| "to_assign_op2 SHL = SHL_ASSIGN"
| "to_assign_op2 SHR = SHR_ASSIGN"
| "to_assign_op2 _ = BAD_ST2"

fun to_assign_opn :: "opn \<Rightarrow> opcode" where
  "to_assign_opn ADDN = ADD_ASSIGN"
| "to_assign_opn MULN = MUL_ASSIGN"
| "to_assign_opn ANDN = AND_ASSIGN"
| "to_assign_opn ORN = OR_ASSIGN"
| "to_assign_opn XORN = XOR_ASSIGN"
| "to_assign_opn _ = BAD_ST2"

definition negate_condjump :: "opcode \<Rightarrow> opcode" where
  "negate_condjump op =
     (if op = ASM_JA then ASM_JBE else if op = ASM_JAE then ASM_JB else if op = ASM_JB then ASM_JAE
      else if op = ASM_JBE then ASM_JA else if op = ASM_JE then ASM_JNE else if op = ASM_JG then ASM_JLE
      else if op = ASM_JGE then ASM_JL else if op = ASM_JNE then ASM_JE else op)"

text \<open>The condition of a conditional jump after comparing \<open>x\<close> with \<open>y\<close>, as a mathematical relation: above and
  below compare unsigned numbers, greater and less signed ones.\<close>

definition condjump_holds :: "opcode \<Rightarrow> u64 \<Rightarrow> u64 \<Rightarrow> bool" where
  "condjump_holds op x y \<longleftrightarrow>
     (if op = ASM_JA then x > y else if op = ASM_JAE then x \<ge> y else if op = ASM_JB then x < y
      else if op = ASM_JBE then x \<le> y else if op = ASM_JE then x = y else if op = ASM_JG then sint x > sint y
      else if op = ASM_JGE then sint x \<ge> sint y else if op = ASM_JL then sint x < sint y
      else if op = ASM_JLE then sint x \<le> sint y else x \<noteq> y)"

text \<open>The codes above are those of the tables.\<close>

lemma opstmt_codes:
  "map (enum_code opstmt0_rows) [''BREAK'', ''CONTINUE'', ''FALLTHROUGH''] = [BREAK, CONTINUE, FALLTHROUGH]"
  "map (enum_code opstmt1_rows) [''GOTO'', ''INC'', ''DEC''] = [GOTO, INC, DEC]"
  "map (enum_code opstmt2_rows) [''ADD_ASSIGN'', ''SUB_ASSIGN'', ''MUL_ASSIGN'', ''QUO_ASSIGN'', ''REM_ASSIGN'',
     ''AND_ASSIGN'', ''OR_ASSIGN'', ''XOR_ASSIGN'', ''SHL_ASSIGN'', ''SHR_ASSIGN'', ''ASSIGN'', ''CASE'', ''DEFAULT'', ''JUMP_IF''] =
   [ADD_ASSIGN, SUB_ASSIGN, MUL_ASSIGN, QUO_ASSIGN, REM_ASSIGN, AND_ASSIGN, OR_ASSIGN, XOR_ASSIGN, SHL_ASSIGN,
     SHR_ASSIGN, ASSIGN, CASEST, DEFAULT, JUMP_IF]"
  "map (enum_code opstmt3_rows) [''IF'', ''ASM_JA'', ''ASM_JAE'', ''ASM_JB'', ''ASM_JBE'', ''ASM_JE'', ''ASM_JG'', ''ASM_JGE'',
     ''ASM_JL'', ''ASM_JLE'', ''ASM_JNE''] =
   [IFST, ASM_JA, ASM_JAE, ASM_JB, ASM_JBE, ASM_JE, ASM_JG, ASM_JGE, ASM_JL, ASM_JLE, ASM_JNE]"
  "map (enum_code opstmtn_rows) [''ASSIGN_CALL'', ''BLOCK'', ''COND'', ''RETURN'', ''SWITCH''] =
   [ASSIGN_CALL, BLOCK, CONDST, RETURN, SWITCH]"
  by (simp_all add: enum_code_def opstmt0_rows_def opstmt1_rows_def opstmt2_rows_def opstmt3_rows_def
      enum_rows_def opstmt3_asm_def opstmtn_rows_def)

subsection \<open>Properties\<close>

lemma print_row_enum:
  assumes "N \<in> fst ` set rows" "length rows < 2 ^ 16"
  shows "(N, print_row rows (enum_code rows N)) \<in> set rows"
proof -
  let ?i = "row_index rows N"
  have i: "?i < length rows" "fst (rows ! ?i) = N" using row_index_nth [OF assms(1)] by simp_all
  then have "unat (of_nat ?i :: opcode) = ?i" using assms(2) by (simp add: unat_of_nat)
  with i have "print_row rows (enum_code rows N) = snd (rows ! ?i)"
    by (simp add: print_row_def enum_code_def)
  then have "(N, print_row rows (enum_code rows N)) = rows ! ?i" using i(2) by (metis prod.collapse)
  with i(1) show ?thesis by (metis nth_mem)
qed

lemma enum_rows_names: "map fst (enum_rows P p xs) = map ((@) P) (map fst xs)"
  by (auto simp: enum_rows_def)

lemma distinct_enum_rows: "distinct (map fst (enum_rows P p xs)) = distinct (map fst xs)"
proof -
  have "inj_on ((@) P) A" for A by (auto simp: inj_on_def)
  then show ?thesis unfolding enum_rows_names by (simp only: distinct_map simp_thms)
qed

lemma enum_rows_prefix: "N \<in> set (map fst (enum_rows P p xs)) \<Longrightarrow> take (length P) N = P"
  unfolding enum_rows_names by auto

text \<open>Two groups of rows with different prefixes of four characters share no name.\<close>

lemma distinct_prefixed:
  assumes "distinct (map fst base)" "distinct (map fst xs)" "distinct (map fst ys)" "length P = 4" "length Q = 4"
    "P \<noteq> Q" "P \<notin> take 4 ` set (map fst base)" "Q \<notin> take 4 ` set (map fst base)"
  shows "distinct (map fst (base @ enum_rows P p xs @ enum_rows Q q ys))"
proof -
  have x: "take 4 N = P" if "N \<in> set (map fst (enum_rows P p xs))" for N
    using enum_rows_prefix [OF that] assms(4) by simp
  have y: "take 4 N = Q" if "N \<in> set (map fst (enum_rows Q q ys))" for N
    using enum_rows_prefix [OF that] assms(5) by simp
  have "set (map fst base) \<inter> set (map fst (enum_rows P p xs)) = {}"
    "set (map fst base) \<inter> set (map fst (enum_rows Q q ys)) = {}"
    "set (map fst (enum_rows P p xs)) \<inter> set (map fst (enum_rows Q q ys)) = {}"
    using x y assms(6-8) by blast+
  then show ?thesis
    using assms(1-3) by (simp add: distinct_enum_rows Int_Un_distrib)
qed

lemma opstmt2_x86_distinct: "distinct (map fst opstmt2_x86)"
  by (simp add: opstmt2_x86_def)

lemma opstmt3_mir_distinct: "distinct (map fst opstmt3_mir)"
  by (simp add: opstmt3_mir_def)

lemma opstmt1_x86_distinct: "distinct (map fst opstmt1_x86)"
  by (simp add: opstmt1_x86_def)

lemma macro_names_distinct:
  "distinct (map fst opstmt0_x86)" "distinct (map fst opstmt1_mir)" "distinct (map fst opstmt1_x86)"
  "distinct (map fst opstmt2_mir)" "distinct (map fst opstmt2_x86)" "distinct (map fst opstmt3_asm)"
  "distinct (map fst opstmt3_mir)" "distinct (map fst opstmt3_x86)" "distinct (map fst opstmtn_mir)"
  "distinct (map fst opstmtn_x86)"
  by (simp_all add: opstmt1_x86_distinct opstmt2_x86_distinct opstmt3_mir_distinct opstmt0_x86_def opstmt1_mir_def
      opstmt2_mir_def opstmt3_asm_def opstmt3_x86_def opstmtn_mir_def opstmtn_x86_def)

lemma opstmt_rows_distinct:
  "distinct (map fst opstmt0_rows)" "distinct (map fst opstmt1_rows)" "distinct (map fst opstmt2_rows)"
  "distinct (map fst opstmt3_rows)" "distinct (map fst opstmtn_rows)"
proof -
  have e: "enum_rows P p [] = []" for P p by (simp add: enum_rows_def)
  have three: "opstmt3_rows = ([(''BAD_ST3'', ''?''), (''IF'', ''if'')] @ enum_rows ''ASM_'' ''asm_'' opstmt3_asm) @
      enum_rows ''MIR_'' ''mir_'' opstmt3_mir @ enum_rows ''X86_'' ''x86_'' opstmt3_x86"
    by (simp add: opstmt3_rows_def)
  show "distinct (map fst opstmt0_rows)"
    using distinct_prefixed [of "[(''BAD'', ''_''), (''BREAK'', ''break''), (''CONTINUE'', ''continue''), (''FALLTHROUGH'', ''fallthrough'')]"
        "opstmt0_x86" "[]" "''X86_''" "''MIR_''" "''x86_''"] macro_names_distinct(1)
    by (simp add: opstmt0_rows_def e)
  show "distinct (map fst opstmt1_rows)"
    unfolding opstmt1_rows_def by (rule distinct_prefixed) (simp_all add: macro_names_distinct)
  show "distinct (map fst opstmt2_rows)"
    unfolding opstmt2_rows_def by (rule distinct_prefixed) (simp_all add: macro_names_distinct)
  have a: "distinct (map fst ([(''BAD_ST3'', ''?''), (''IF'', ''if'')] @ enum_rows ''ASM_'' ''asm_'' opstmt3_asm))"
    using distinct_prefixed [of "[(''BAD_ST3'', ''?''), (''IF'', ''if'')]" "opstmt3_asm" "[]" "''ASM_''" "''MIR_''" "''asm_''"]
      macro_names_distinct(6) by (simp add: e)
  have "''MIR_'' \<notin> take 4 ` set (map fst ([(''BAD_ST3'', ''?''), (''IF'', ''if'')] @ enum_rows ''ASM_'' ''asm_'' opstmt3_asm))"
    "''X86_'' \<notin> take 4 ` set (map fst ([(''BAD_ST3'', ''?''), (''IF'', ''if'')] @ enum_rows ''ASM_'' ''asm_'' opstmt3_asm))"
    by (auto simp: enum_rows_def)
  then show "distinct (map fst opstmt3_rows)"
    unfolding three by (intro distinct_prefixed a macro_names_distinct) simp_all
  show "distinct (map fst opstmtn_rows)"
    unfolding opstmtn_rows_def by (rule distinct_prefixed) (simp_all add: macro_names_distinct)
qed

lemma opstmt_rows_length:
  "length opstmt0_rows = 29" "length opstmt1_rows = 53" "length opstmt2_rows = 152" "length opstmt3_rows = 133"
  "length opstmtn_rows = 12"
  by code_simp+

definition prints_as :: "(string \<times> string) list \<Rightarrow> (opcode \<Rightarrow> string) \<Rightarrow> bool" where
  "prints_as rows print \<longleftrightarrow> (\<forall>i<length rows. enum_code rows (fst (rows ! i)) = of_nat i \<and> print (of_nat i) = snd (rows ! i))"

lemma prints_as_row:
  assumes "distinct (map fst rows)" "length rows < 2 ^ 16"
  shows "prints_as rows (print_row rows)"
  unfolding prints_as_def
proof (intro allI impI conjI)
  fix i assume i: "i < length rows"
  show "enum_code rows (fst (rows ! i)) = of_nat i"
    using row_index_distinct [OF assms(1) i] by (simp add: enum_code_def)
  have "unat (of_nat i :: opcode) = i" using i assms(2) by (simp add: unat_of_nat)
  with i show "print_row rows (of_nat i) = snd (rows ! i)" by (simp add: print_row_def)
qed

text \<open>In each of the enumerations of statements the names are distinct, and printing the code of an
  enumerator gives the string written next to it: enumerations and printing tables are aligned.\<close>

theorem opstmt_tables_aligned:
  "prints_as opstmt0_rows print_op0 \<and> prints_as opstmt1_rows print_op1 \<and> prints_as opstmt2_rows print_op2 \<and>
   prints_as opstmt3_rows print_op3 \<and> prints_as opstmt4_rows print_op4 \<and> prints_as opstmtn_rows print_opn"
proof (intro conjI)
  have "print_op0 (of_nat i) = snd (opstmt0_rows ! i)" if "i < length opstmt0_rows" for i
  proof -
    have "unat (of_nat i :: opcode) = i" using that by (simp add: unat_of_nat opstmt_rows_length)
    with that show ?thesis by (simp add: print_op0_def Let_def nth_append)
  qed
  then show "prints_as opstmt0_rows print_op0"
    using row_index_distinct [OF opstmt_rows_distinct(1)] by (simp add: prints_as_def enum_code_def)
qed (auto simp: print_op1_def print_op2_def print_op3_def print_op4_def print_opn_def opstmt_rows_length
    opstmt_rows_distinct opstmt4_rows_def intro!: prints_as_row)

lemma print_row_member:
  assumes "distinct (map fst rows)" "length rows < 2 ^ 16" "(N, s) \<in> set rows"
  shows "print_row rows (enum_code rows N) = s"
proof -
  have "N \<in> fst ` set rows" using assms(3) by force
  then have "(N, print_row rows (enum_code rows N)) \<in> set rows" using assms(2) by (rule print_row_enum)
  with assms(1,3) show ?thesis by (metis map_of_eq_Some_iff option.inject)
qed

lemma enum_code_inj:
  assumes "length rows < 2 ^ 16" "M \<in> fst ` set rows" "N \<in> fst ` set rows" "M \<noteq> N"
  shows "enum_code rows M \<noteq> enum_code rows N"
proof
  assume "enum_code rows M = enum_code rows N"
  moreover have "unat (of_nat (row_index rows L) :: opcode) = row_index rows L" if "L \<in> fst ` set rows" for L
    using row_index_nth [OF that] assms(1) by (simp add: unat_of_nat)
  ultimately have "row_index rows M = row_index rows N"
    using assms(2,3) by (metis enum_code_def)
  with row_index_nth [OF assms(2)] row_index_nth [OF assms(3)] assms(4) show False by metis
qed

lemma opstmt3_mir_row: "(N, n) \<in> set opstmt3_mir \<Longrightarrow> (''MIR_'' @ N, ''mir_'' @ n) \<in> set opstmt3_rows"
  by (force simp: opstmt3_rows_def enum_rows_def)

text \<open>Different operations of \<open>OpStmt3\<close> print as the same string: the branches of the intermediate
  language on \<open>float\<close> and \<open>long double\<close> have the names of those on \<open>double\<close>.\<close>

theorem opstmt3_printing_not_injective:
  "list_all (\<lambda>(M, N). enum_code opstmt3_rows M \<noteq> enum_code opstmt3_rows N \<and>
       print_op3 (enum_code opstmt3_rows M) = print_op3 (enum_code opstmt3_rows N))
     [(''MIR_FBNE'', ''MIR_DBNE''), (''MIR_LDBNE'', ''MIR_DBNE''), (''MIR_FBLT'', ''MIR_DBLT''), (''MIR_FBGE'', ''MIR_DBGE'')]"
proof -
  have rows: "(''FBNE'', ''dbne'') \<in> set opstmt3_mir" "(''DBNE'', ''dbne'') \<in> set opstmt3_mir"
    "(''LDBNE'', ''dbne'') \<in> set opstmt3_mir" "(''FBLT'', ''dblt'') \<in> set opstmt3_mir"
    "(''DBLT'', ''dblt'') \<in> set opstmt3_mir" "(''FBGE'', ''dbge'') \<in> set opstmt3_mir"
    "(''DBGE'', ''dbge'') \<in> set opstmt3_mir"
    by (simp_all add: opstmt3_mir_def)
  have len: "length opstmt3_rows < 2 ^ 16" by (simp add: opstmt_rows_length)
  have p: "enum_code opstmt3_rows (''MIR_'' @ M) \<noteq> enum_code opstmt3_rows (''MIR_'' @ N) \<and>
      print_op3 (enum_code opstmt3_rows (''MIR_'' @ M)) = print_op3 (enum_code opstmt3_rows (''MIR_'' @ N))"
    if "(M, s) \<in> set opstmt3_mir" "(N, s) \<in> set opstmt3_mir" "M \<noteq> N" for M N s
  proof -
    note m = opstmt3_mir_row [OF that(1)] opstmt3_mir_row [OF that(2)]
    then have "''MIR_'' @ M \<in> fst ` set opstmt3_rows" "''MIR_'' @ N \<in> fst ` set opstmt3_rows" by force+
    then have "enum_code opstmt3_rows (''MIR_'' @ M) \<noteq> enum_code opstmt3_rows (''MIR_'' @ N)"
      using that(3) by (intro enum_code_inj [OF len]) simp_all
    with print_row_member [OF opstmt_rows_distinct(4) len] m show ?thesis by (simp add: print_op3_def)
  qed
  show ?thesis
    using p [OF rows(1,2)] p [OF rows(3,2)] p [OF rows(4,5)] p [OF rows(6,7)] by simp
qed



text \<open>The assignment operation of an operator leads back to the operator, no assignment operation
  belongs to two operators, and plain assignment belongs to none.\<close>

lemma assign_op_round_trip:
  "(to_assign_op2 a \<noteq> BAD_ST2 \<longrightarrow> to_op2 (to_assign_op2 a) = a \<and> to_opn (to_assign_op2 a) = BADN \<and> is_assign (to_assign_op2 a)) \<and>
   (to_assign_opn b \<noteq> BAD_ST2 \<longrightarrow> to_opn (to_assign_opn b) = b \<and> to_op2 (to_assign_opn b) = BAD2 \<and> is_assign (to_assign_opn b)) \<and>
   to_op2 ASSIGN = BAD2 \<and> to_opn ASSIGN = BADN"
  by (cases a; cases b) (simp_all add: to_op2_def to_opn_def is_assign_def word_le_nat_alt)

lemma assign_op_round_trip_witness: "to_op2 (to_assign_op2 SHR) = SHR \<and> to_opn (to_assign_opn MULN) = MULN"
  using assign_op_round_trip [of SHR MULN] by simp

end
