(* ===== verification/Nodes.thy ===== *)
theory Nodes imports Codes OpStmts begin

text \<open>
  The nodes of the intermediate representation: class \<open>Node\<close> and its subclasses, \<open>src/onejit/ir/\<close>.

  A C++ \<open>Node\<close> is a header, an offset (or the encoding of a direct node) and a pointer to the \<open>Code\<close>
  that holds the rest, null for direct nodes. Here it also carries what the offset leads to: the nodes
  its children decode to, and the raw items of a leaf (the value of a constant, the address of a
  label, the characters of a name). All nodes of a function live in one \<open>Code\<close>. The functions \<open>mem_*\<close> are the
  decoding from the buffer, as the code has it; \<open>stored c n\<close> says that \<open>c\<close> holds \<open>n\<close>, and the theorems show that
  creating a node makes it held, that later appends keep it held, and that decoding then gives back
  exactly the children and the data the node carries.
\<close>

datatype node = Node (nhead: header) (noff: u32) (nind: bool) (ndata: "u32 list") (nkids: "node list")

abbreviation nty :: "node \<Rightarrow> ntype" where "nty n \<equiv> htype (nhead n)"
abbreviation nkind :: "node \<Rightarrow> kind" where "nkind n \<equiv> hkind (nhead n)"
abbreviation nop :: "node \<Rightarrow> u16" where "nop n \<equiv> hop (nhead n)"

definition bad_node :: node where
  "bad_node = Node bad_header 0 False [] []"

definition node_valid :: "node \<Rightarrow> bool" where
  "node_valid n \<longleftrightarrow> header_valid (nhead n)"

lemma bad_node_invalid [simp]: "\<not> node_valid bad_node"
  by (simp add: node_valid_def bad_node_def bad_header_def header_valid_def)

text \<open>\<open>operator ==\<close>: the same node, not an equal tree.\<close>

definition node_same :: "node \<Rightarrow> node \<Rightarrow> bool" where
  "node_same a b \<longleftrightarrow> nhead a = nhead b \<and> noff a = noff b \<and> nind a = nind b"

definition children :: "node \<Rightarrow> nat" where
  "children n = length (nkids n)"

definition child :: "node \<Rightarrow> nat \<Rightarrow> node" where
  "child n i = (if i < children n then nkids n ! i else bad_node)"

lemma child_kid [simp]: "i < length (nkids n) \<Longrightarrow> child n i = nkids n ! i"
  by (simp add: child_def children_def)

subsection \<open>Downcasts\<close>

text \<open>\<open>node.is<T>()\<close> is the node itself, or an invalid node.\<close>

definition downcast :: "(node \<Rightarrow> bool) \<Rightarrow> node \<Rightarrow> node" where
  "downcast allowed n = (if allowed n then n else bad_node)"

definition is_expr_type :: "ntype \<Rightarrow> bool" where
  "is_expr_type t \<longleftrightarrow> ntype_code VAR \<le> ntype_code t \<and> ntype_code t \<le> ntype_code CONSTN"

definition as_expr :: "node \<Rightarrow> node" where "as_expr = downcast (\<lambda>n. is_expr_type (nty n))"
definition as_var :: "node \<Rightarrow> node" where "as_var = downcast (\<lambda>n. nty n = VAR)"
definition as_const :: "node \<Rightarrow> node" where "as_const = downcast (\<lambda>n. nty n = CONSTN)"
definition as_label :: "node \<Rightarrow> node" where "as_label = downcast (\<lambda>n. nty n = LABEL)"
definition as_unary :: "node \<Rightarrow> node" where "as_unary = downcast (\<lambda>n. nty n = UNARY)"
definition as_binary :: "node \<Rightarrow> node" where "as_binary = downcast (\<lambda>n. nty n = BINARY)"
definition as_tuple :: "node \<Rightarrow> node" where "as_tuple = downcast (\<lambda>n. nty n = TUPLE \<or> nty n = MEM)"
definition as_mem :: "node \<Rightarrow> node" where "as_mem = downcast (\<lambda>n. nty n = MEM \<and> nop n \<ge> 10)"
definition as_call :: "node \<Rightarrow> node" where "as_call = downcast (\<lambda>n. (nty n = TUPLE \<or> nty n = MEM) \<and> nop n = 9)"
definition as_assign :: "node \<Rightarrow> node" where "as_assign = downcast (\<lambda>n. nty n = STMT_2 \<and> is_assign (nop n))"
definition as_case :: "node \<Rightarrow> node" where
  "as_case = downcast (\<lambda>n. nty n = STMT_2 \<and> (nop n = CASEST \<or> nop n = DEFAULT))"

lemmas downcast_defs = downcast_def as_expr_def as_var_def as_const_def as_label_def as_unary_def as_binary_def
  as_tuple_def as_mem_def as_call_def as_assign_def as_case_def

text \<open>The operator in a header. A number that is no enumerator takes the default branch of every switch, as
  the enumerator 0 does.\<close>

definition op1_list :: "op1 list" where
  "op1_list = [BAD1, XOR1, NOT1, NEG1, CAST, BITCOPY]"

definition op2_list :: "op2 list" where
  "op2_list = [BAD2, SUB, QUO, REM, SHL, SHR, LAND, LOR, LSS, LEQ, NEQ, EQL, GTR, GEQ]"

definition opn_list :: "opn list" where
  "opn_list = [BADN, ADDN, MULN, ANDN, ORN, XORN, MAXN, MINN, COMMA, CALL, MEM_OP, MIR_MEM, X86_MEM,
     ARM64_MEM, MIR_RETS]"

definition node_op1 :: "node \<Rightarrow> op1" where
  "node_op1 n = (if unat (nop n) < length op1_list then op1_list ! unat (nop n) else BAD1)"

definition node_op2 :: "node \<Rightarrow> op2" where
  "node_op2 n = (if unat (nop n) < length op2_list then op2_list ! unat (nop n) else BAD2)"

definition node_opn :: "node \<Rightarrow> opn" where
  "node_opn n = (if unat (nop n) < length opn_list then opn_list ! unat (nop n) else BADN)"

fun op1_code :: "op1 \<Rightarrow> u16" where
  "op1_code BAD1 = 0" | "op1_code XOR1 = 1" | "op1_code NOT1 = 2" | "op1_code NEG1 = 3"
| "op1_code CAST = 4" | "op1_code BITCOPY = 5"

fun op2_code :: "op2 \<Rightarrow> u16" where
  "op2_code BAD2 = 0" | "op2_code SUB = 1" | "op2_code QUO = 2" | "op2_code REM = 3" | "op2_code SHL = 4"
| "op2_code SHR = 5" | "op2_code LAND = 6" | "op2_code LOR = 7" | "op2_code LSS = 8" | "op2_code LEQ = 9"
| "op2_code NEQ = 10" | "op2_code EQL = 11" | "op2_code GTR = 12" | "op2_code GEQ = 13"

fun opn_code :: "opn \<Rightarrow> u16" where
  "opn_code BADN = 0" | "opn_code ADDN = 1" | "opn_code MULN = 2" | "opn_code ANDN = 3" | "opn_code ORN = 4"
| "opn_code XORN = 5" | "opn_code MAXN = 6" | "opn_code MINN = 7" | "opn_code COMMA = 8" | "opn_code CALL = 9"
| "opn_code MEM_OP = 10" | "opn_code MIR_MEM = 11" | "opn_code X86_MEM = 12" | "opn_code ARM64_MEM = 13"
| "opn_code MIR_RETS = 14"

lemma node_op_code [simp]:
  "nop n = op1_code op1 \<Longrightarrow> node_op1 n = op1" "nop n = op2_code op2 \<Longrightarrow> node_op2 n = op2"
  "nop n = opn_code opn \<Longrightarrow> node_opn n = opn"
  by (cases op1; simp add: node_op1_def op1_list_def; fail | cases op2; simp add: node_op2_def op2_list_def; fail
    | cases opn; simp add: node_opn_def opn_list_def; fail)+

subsection \<open>Functions\<close>

text \<open>
  The parts of a \<open>Func\<close> that change while nodes are made: the code, and the tables of variables and
  labels, each with its allocator. The pointer \<open>holder_\<close> is not null.
\<close>

record func =
  fcode :: code
  fvars :: "node arr"
  flabels :: "node arr"
  alloc_code :: "nat \<Rightarrow> bool"
  alloc_vars :: "nat \<Rightarrow> bool"
  alloc_labels :: "nat \<Rightarrow> bool"

definition func_ok :: "func \<Rightarrow> bool" where
  "func_ok f \<longleftrightarrow> good (fcode f)"

subsection \<open>Creating nodes with children\<close>

text \<open>The item that stands for a node in its parent.\<close>

definition node_item :: "node \<Rightarrow> u32 \<Rightarrow> u32" where
  "node_item n parent_offset = (if nind n then noff n - parent_offset else noff n)"

definition code_add_node :: "(nat \<Rightarrow> bool) \<Rightarrow> node \<Rightarrow> u32 \<Rightarrow> code \<Rightarrow> code" where
  "code_add_node ok n parent_offset c = code_add_item ok (node_item n parent_offset) c"

fun code_add_nodes :: "(nat \<Rightarrow> bool) \<Rightarrow> node list \<Rightarrow> u32 \<Rightarrow> code \<Rightarrow> code" where
  "code_add_nodes ok [] parent_offset c = c"
| "code_add_nodes ok (n # ns) parent_offset c =
     (let c1 = code_add_node ok n parent_offset c
      in if good c1 then code_add_nodes ok ns parent_offset c1 else c1)"

text \<open>
  The loop \<open>while (holder && ...)\<close> of \<open>Node::create_indirect\<close> ends when the node is complete, or after an
  append other than the first failed. When the header itself cannot be appended nothing leaves the loop
  or changes the condition, and the next round fails in the same way: \<open>None\<close> is a call that does not
  return.
\<close>

partial_function (option) create_loop :: "(nat \<Rightarrow> bool) \<Rightarrow> header \<Rightarrow> node list \<Rightarrow> code \<Rightarrow> (code \<times> node) option" where
  "create_loop ok h kids c =
     (let offset = code_length c;
          c1 = code_add_header ok h c
      in if good c1 then
           let c2 = (if is_list_type (htype h) then code_add_item ok (of_nat (length kids)) c1 else c1);
               c3 = (if good c2 then code_add_nodes ok kids offset c2 else c2)
           in if good c3 then Some (c3, Node h offset True [] kids)
              else Some (code_truncate offset c3, bad_node)
         else create_loop ok h kids c1)"

definition create_indirect :: "func \<Rightarrow> header \<Rightarrow> node list \<Rightarrow> (func \<times> node) option" where
  "create_indirect f h kids =
     (if length kids < 2 ^ 32
      then map_option (\<lambda>(c, n). (f\<lparr>fcode := c\<rparr>, n)) (create_loop (alloc_code f) h kids (fcode f))
      else Some (f, bad_node))"

text \<open>A range of children of a node: the node, the first child and the number of children.\<close>

type_synonym childrange = "node \<times> nat \<times> nat"

definition childrange_valid :: "childrange \<Rightarrow> bool" where
  "childrange_valid r = (case r of (n, start, m) \<Rightarrow>
     node_valid n \<and> m \<noteq> 0 \<and> m \<le> children n \<and> start \<le> children n - m)"

definition childrange_get :: "childrange \<Rightarrow> nat \<Rightarrow> node" where
  "childrange_get r i = (case r of (n, start, m) \<Rightarrow> if i < m then child n (i + start) else bad_node)"

definition childrange_nodes :: "childrange \<Rightarrow> node list" where
  "childrange_nodes r = map (childrange_get r) [0..<snd (snd r)]"

text \<open>
  \<open>create_indirect_from_ranges\<close>: the number of children is written for lists only. The number of children of the
  ranges is at most \<open>2 ^ 32 - 1\<close>, or else the loop does not end either.
\<close>

definition create_indirect_from_ranges :: "func \<Rightarrow> header \<Rightarrow> childrange list \<Rightarrow> (func \<times> node) option" where
  "create_indirect_from_ranges f h ranges =
     (let kids = concat (map childrange_nodes ranges)
      in if is_list_type (htype h) \<and> length kids \<ge> 2 ^ 32 then None
         else map_option (\<lambda>(c, n). (f\<lparr>fcode := c\<rparr>, n)) (create_loop (alloc_code f) h kids (fcode f)))"

text \<open>
  The subclasses with an intermediate argument (\<open>Call::create\<close>, \<open>AssignCall::create\<close>, \<open>Switch::create\<close>) append their
  parts in one chain, and leave the loop whatever happens.
\<close>

definition create_list :: "func \<Rightarrow> header \<Rightarrow> u32 \<Rightarrow> node list \<Rightarrow> func \<times> node" where
  "create_list f h count kids =
     (let ok = alloc_code f; c = fcode f;
          offset = code_length c;
          c1 = code_add_header ok h c;
          c2 = (if good c1 then code_add_item ok count c1 else c1);
          c3 = (if good c2 then code_add_nodes ok kids offset c2 else c2)
      in if good c3 then (f\<lparr>fcode := c3\<rparr>, Node h offset True [] kids)
         else (f\<lparr>fcode := code_truncate offset c3\<rparr>, bad_node))"

subsection \<open>Constants\<close>

definition const_header :: "kind \<Rightarrow> header" where
  "const_header k = mk_header CONSTN k 0"

definition const_create :: "func \<Rightarrow> val \<Rightarrow> func \<times> node" where
  "const_create f v =
     (if val_is_valid v then
        let h = const_header (vkind v)
        in if imm_direct v \<noteq> 0 then (f, Node h (imm_direct v) False [] [])
           else let ok = alloc_code f; c = fcode f;
                    offset = code_length c;
                    c1 = code_add_header ok h c;
                    c2 = (if good c1 then code_add_items ok (imm_write_indirect v) c1 else c1)
                in if good c2 then (f\<lparr>fcode := c2\<rparr>, Node h offset True (imm_write_indirect v) [])
                   else (f\<lparr>fcode := code_truncate offset c2\<rparr>, bad_node)
      else (f, bad_node))"

text \<open>The constructors from small numbers, which are always direct.\<close>

definition const_small :: "kind \<Rightarrow> u16 \<Rightarrow> node" where
  "const_small k w = Node (const_header (kind_nosimd k)) (imm_make_direct k (ucast w) 0 0) False [] []"

definition const_small_signed :: "kind \<Rightarrow> u16 \<Rightarrow> node" where
  "const_small_signed k w = Node (const_header (kind_nosimd k))
     (imm_make_direct k (scast w) 0 (if sint w < 0 then - 1 else 0)) False [] []"

definition const_bool :: "bool \<Rightarrow> node" where
  "const_bool b = Node (const_header eBool) (imm_make_direct eBool (of_bool b) 0 0) False [] []"

definition void_const :: node where "void_const = const_small eVoid 0"
definition true_const :: node where "true_const = const_bool True"
definition false_const :: node where "false_const = const_bool False"
definition zero_const :: "kind \<Rightarrow> node" where "zero_const k = const_small k 0"

definition one_const :: "func \<Rightarrow> kind \<Rightarrow> func \<times> node" where
  "one_const f k =
     (if k = eFloat32 then const_create f (val_float32 (fp_of_int 1))
      else if k = eFloat64 \<or> k = eFloat128 then const_create f (val_float64 (fp_of_int 1))
      else (f, const_small k 1))"

definition two_const :: "func \<Rightarrow> kind \<Rightarrow> func \<times> node" where
  "two_const f k =
     (if k = eFloat32 then const_create f (val_float32 (fp_of_int 2))
      else if k = eFloat64 \<or> k = eFloat128 then const_create f (val_float64 (fp_of_int 2))
      else (f, const_small k 2))"

definition minus_one_const :: "func \<Rightarrow> kind \<Rightarrow> (func \<times> node) option" where
  "minus_one_const f k = map_option (const_create f) (val_minus_one k)"

definition const_val :: "node \<Rightarrow> val" where
  "const_val n = (if nind n then imm_parse_indirect (nkind n) (ndata n) else imm_parse_direct (noff n))"

subsection \<open>Variables and labels\<close>

definition var_header :: "kind \<Rightarrow> header" where
  "var_header k = mk_header VAR k 0"

definition var_direct :: "u32 \<Rightarrow> node" where
  "var_direct l = Node (var_header (local_kind l)) (local_direct l) False [] []"

definition var_create :: "func \<Rightarrow> u32 \<Rightarrow> func \<times> node" where
  "var_create f l =
     (if local_is_direct l then (f, var_direct l)
      else let ok = alloc_code f; c = fcode f;
               offset = code_length c;
               c1 = code_add_header ok (var_header (local_kind l)) c;
               c2 = (if good c1 then code_add_item ok (local_indirect l) c1 else c1)
           in if good c2 then (f\<lparr>fcode := c2\<rparr>, Node (var_header (local_kind l)) offset True [local_indirect l] [])
              else (f\<lparr>fcode := code_truncate offset c2\<rparr>, bad_node))"

definition node_local :: "node \<Rightarrow> u32" where
  "node_local n = (if nind n then local_parse_indirect (nkind n) (ndata n ! 0) else local_parse_direct (noff n))"

text \<open>Identifiers start at \<open>Id::FIRST\<close> and have 24 bits; all variables of kind \<open>Void\<close> share the identifier 0.\<close>

definition id_first :: nat where
  "id_first = 0x1000"

definition func_new_var :: "func \<Rightarrow> kind \<Rightarrow> func \<times> node" where
  "func_new_var f k =
     (if k \<noteq> eBad then
        let n = length (elems (fvars f)) + id_first; i = id_make (of_nat n)
        in if k = eVoid \<or> unat i = n then
             let (f1, v) = var_create f (local_make k (if k = eVoid then 0 else i))
             in if node_valid v then
                  let (appended, vs) = arr_append bad_node (alloc_vars f1) [v] (fvars f1)
                  in (f1\<lparr>fvars := vs\<rparr>, if appended then v else bad_node)
                else (f1, bad_node)
           else (f, bad_node)
      else (f, bad_node))"

definition trivial_hash32 :: "u32 \<Rightarrow> u16" where
  "trivial_hash32 w = ucast (w XOR drop_bit 16 w) OR 1"

definition trivial_hash64 :: "u64 \<Rightarrow> u16" where
  "trivial_hash64 w = trivial_hash32 (ucast (w XOR drop_bit 32 w))"

definition label_create :: "func \<Rightarrow> u64 \<Rightarrow> u16 \<Rightarrow> func \<times> node" where
  "label_create f address index =
     (let i = (if index = 0 \<and> address \<noteq> 0 then trivial_hash64 address else index);
          h = mk_header LABEL eVoid i; ok = alloc_code f; c = fcode f;
          offset = code_length c;
          c1 = code_add_header ok h c;
          c2 = (if good c1 then code_add_uint64 ok address c1 else c1)
      in if good c2 then (f\<lparr>fcode := c2\<rparr>, Node h offset True [ucast address, ucast (drop_bit 32 address)] [])
         else (f\<lparr>fcode := code_truncate offset c2\<rparr>, bad_node))"

definition label_index :: "node \<Rightarrow> u16" where
  "label_index n = nop n"

text \<open>\<open>Label::address\<close> passes an absolute offset to \<open>Node::uint64\<close>, which adds the offset of the node again.\<close>

definition label_address :: "code \<Rightarrow> node \<Rightarrow> u64" where
  "label_address c n = (if nind n then code_uint64 c (noff n + (noff n + 4)) else 0)"

definition func_new_label :: "func \<Rightarrow> func \<times> node" where
  "func_new_label f =
     (let i = length (elems (flabels f))
      in if i \<le> 0xFFFF then
           let (f1, l) = label_create f 0 (of_nat i)
           in if node_valid l then
                let (appended, ls) = arr_append bad_node (alloc_labels f1) [l] (flabels f1)
                in (f1\<lparr>flabels := ls\<rparr>, if appended then l else bad_node)
              else (f1, l)
         else (f, bad_node))"

subsection \<open>Names and function types\<close>

definition name_create :: "func \<Rightarrow> u8 list \<Rightarrow> func \<times> node" where
  "name_create f str =
     (if length str \<le> 0xFFFF then
        let h = mk_header NAME eVoid (of_nat (length str)); ok = alloc_code f; c = fcode f;
            offset = code_length c;
            c1 = code_add_header ok h c;
            c2 = (if good c1 then code_add_chars ok str c1 else c1)
        in if good c2 then (f\<lparr>fcode := c2\<rparr>, Node h offset True (drop (Suc (length (items c))) (items c2)) [])
           else (f\<lparr>fcode := code_truncate offset c2\<rparr>, bad_node)
      else (f, bad_node))"

definition item_bytes :: "u32 \<Rightarrow> u8 list" where
  "item_bytes w = [ucast w, ucast (drop_bit 8 w), ucast (drop_bit 16 w), ucast (drop_bit 24 w)]"

text \<open>\<open>None\<close> is a view beyond the end of the code: the check counts items where the length is in bytes.\<close>

definition name_chars :: "code \<Rightarrow> node \<Rightarrow> u8 list option" where
  "name_chars c n =
     (if nind n then
        let start = add_uint32 (ucast (noff n)) 4; stop = code_length c; len = (ucast (nop n) :: u32);
            bytes = concat (map item_bytes (items c))
        in if stop \<ge> start \<and> stop - start \<ge> (len + 3) div 4 then
             (if unat start + unat len \<le> length bytes then Some (take (unat len) (drop (unat start) bytes)) else None)
           else Some []
      else Some [])"

definition functype_can_represent :: "nat \<Rightarrow> nat \<Rightarrow> bool" where
  "functype_can_represent param_n result_n \<longleftrightarrow> param_n OR result_n \<le> 0xFFFF"

text \<open>The child that stands for a kind.\<close>

definition kind_node :: "kind \<Rightarrow> node" where
  "kind_node k = var_direct (local_make k 0)"

definition functype_create :: "func \<Rightarrow> kind list \<Rightarrow> kind list \<Rightarrow> func \<times> node" where
  "functype_create f params results =
     (if functype_can_represent (length params) (length results) then
        let h = mk_header FTYPE (if results = [] then eVoid else results ! 0) (of_nat (length results));
            ok = alloc_code f; c = fcode f;
            offset = code_length c;
            c1 = code_add_header ok h c;
            c2 = (if good c1 then code_add_item ok (of_nat (length params + length results)) c1 else c1);
            c3 = (if good c2 then code_add_kinds ok results c2 else c2);
            c4 = (if good c3 then code_add_kinds ok params c3 else c3)
        in if good c4 then (f\<lparr>fcode := c4\<rparr>, Node h offset True [] (map kind_node (results @ params)))
           else (f\<lparr>fcode := code_truncate offset c4\<rparr>, bad_node)
      else (f, bad_node))"

definition functype_result_n :: "node \<Rightarrow> u16" where
  "functype_result_n n = nop n"

definition functype_param_n :: "node \<Rightarrow> u16" where
  "functype_param_n n = sub_uint16 (of_nat (children n)) (ucast (functype_result_n n))"

definition functype_param :: "node \<Rightarrow> u16 \<Rightarrow> kind" where
  "functype_param n i = nkind (child n (unat i + unat (functype_result_n n)))"

definition functype_result :: "node \<Rightarrow> u16 \<Rightarrow> kind" where
  "functype_result n i = (if i \<ge> functype_result_n n then eBad else nkind (child n (unat i)))"

subsection \<open>Expressions\<close>

definition unary_create_kind :: "func \<Rightarrow> kind \<Rightarrow> op1 \<Rightarrow> node \<Rightarrow> (func \<times> node) option" where
  "unary_create_kind f k op x = create_indirect f (mk_header UNARY k (op1_code op)) [x]"

definition unary_create :: "func \<Rightarrow> op1 \<Rightarrow> node \<Rightarrow> (func \<times> node) option" where
  "unary_create f op x = unary_create_kind f (if op = NOT1 then eBool else nkind x) op x"

definition binary_kind :: "op2 \<Rightarrow> node \<Rightarrow> kind" where
  "binary_kind op left =
     (if op = BAD2 then eBad else if op \<in> {SUB, QUO, REM, SHL, SHR} then nkind left else eBool)"

definition binary_create :: "func \<Rightarrow> op2 \<Rightarrow> node \<Rightarrow> node \<Rightarrow> (func \<times> node) option" where
  "binary_create f op left right =
     create_indirect f (mk_header BINARY (binary_kind op left) (op2_code op)) [left, right]"

definition tuple_create :: "func \<Rightarrow> kind \<Rightarrow> opn \<Rightarrow> node list \<Rightarrow> (func \<times> node) option" where
  "tuple_create f k op nodes = create_indirect f (mk_header TUPLE k (opn_code op)) nodes"

definition tuple_create_range :: "func \<Rightarrow> kind \<Rightarrow> opn \<Rightarrow> childrange \<Rightarrow> (func \<times> node) option" where
  "tuple_create_range f k op r = create_indirect_from_ranges f (mk_header TUPLE k (opn_code op)) [r]"

text \<open>The constructors with one or two arguments take the kind of the first.\<close>

definition tuple1 :: "func \<Rightarrow> opn \<Rightarrow> node \<Rightarrow> (func \<times> node) option" where
  "tuple1 f op x = tuple_create f (nkind x) op [x]"

definition tuple2 :: "func \<Rightarrow> opn \<Rightarrow> node \<Rightarrow> node \<Rightarrow> (func \<times> node) option" where
  "tuple2 f op x y = tuple_create f (nkind x) op [x, y]"

definition comma_create :: "func \<Rightarrow> node list \<Rightarrow> (func \<times> node) option" where
  "comma_create f args = tuple_create f eVoid COMMA args"

definition mem_create :: "func \<Rightarrow> kind \<Rightarrow> opn \<Rightarrow> node list \<Rightarrow> (func \<times> node) option" where
  "mem_create f k op args = create_indirect f (mk_header MEM k (opn_code op)) args"

definition call_create :: "func \<Rightarrow> node \<Rightarrow> node \<Rightarrow> node list \<Rightarrow> func \<times> node" where
  "call_create f ftype address args =
     (if length args < 2 ^ 32 then
        create_list f (mk_header TUPLE (if functype_param_n ftype = 0 then eVoid else functype_param ftype 0) (opn_code CALL))
          (add_uint32 2 (of_nat (length args))) (ftype # address # args)
      else (f, bad_node))"

definition call_arg :: "node \<Rightarrow> u32 \<Rightarrow> node" where
  "call_arg n i = as_expr (child n (unat (add_uint32 2 (ucast i))))"

subsection \<open>Statements\<close>

definition stmt0 :: "opcode \<Rightarrow> node" where
  "stmt0 op = Node (mk_header STMT_0 eVoid op) (push_bit 4 (ucast op) OR 6) False [] []"

definition stmt0_parse_direct_op :: "u32 \<Rightarrow> opcode" where
  "stmt0_parse_direct_op item = ucast (drop_bit 4 item)"

definition stmt1_create :: "func \<Rightarrow> node \<Rightarrow> opcode \<Rightarrow> (func \<times> node) option" where
  "stmt1_create f arg op = create_indirect f (mk_header STMT_1 eVoid op) [arg]"

definition stmt2_create :: "func \<Rightarrow> opcode \<Rightarrow> node \<Rightarrow> node \<Rightarrow> (func \<times> node) option" where
  "stmt2_create f op a b = create_indirect f (mk_header STMT_2 eVoid op) [a, b]"

definition stmt3_create :: "func \<Rightarrow> opcode \<Rightarrow> node list \<Rightarrow> (func \<times> node) option" where
  "stmt3_create f op nodes = create_indirect f (mk_header STMT_3 eVoid op) nodes"

definition stmt4_create :: "func \<Rightarrow> opcode \<Rightarrow> node \<Rightarrow> node \<Rightarrow> node \<Rightarrow> node \<Rightarrow> (func \<times> node) option" where
  "stmt4_create f op a b c d = create_indirect f (mk_header STMT_4 eVoid op) [a, b, c, d]"

definition stmtn_create :: "func \<Rightarrow> opcode \<Rightarrow> node list \<Rightarrow> (func \<times> node) option" where
  "stmtn_create f op nodes = create_indirect f (mk_header STMT_N eVoid op) nodes"

definition stmtn_create_ranges :: "func \<Rightarrow> opcode \<Rightarrow> childrange list \<Rightarrow> (func \<times> node) option" where
  "stmtn_create_ranges f op ranges = create_indirect_from_ranges f (mk_header STMT_N eVoid op) ranges"

definition assign_call_create :: "func \<Rightarrow> node list \<Rightarrow> node \<Rightarrow> func \<times> node" where
  "assign_call_create f assign_to call =
     (if length assign_to < 2 ^ 32 then
        create_list f (mk_header STMT_N eVoid ASSIGN_CALL) (add_uint32 1 (of_nat (length assign_to))) (assign_to @ [call])
      else (f, bad_node))"

definition switch_create :: "func \<Rightarrow> node \<Rightarrow> node list \<Rightarrow> func \<times> node" where
  "switch_create f expr cases =
     (if length cases < 2 ^ 32 then
        create_list f (mk_header STMT_N eVoid SWITCH) (add_uint32 1 (of_nat (length cases))) (expr # cases)
      else (f, bad_node))"

definition switch_case :: "node \<Rightarrow> u32 \<Rightarrow> node" where
  "switch_case n i = as_case (child n (unat (add_uint32 1 (ucast i))))"

subsection \<open>Decoding from the buffer\<close>

text \<open>What the C++ class holds: header, offset or direct encoding, and whether it points to a \<open>Code\<close>.\<close>

record mref =
  mhead :: header
  moff :: u32
  mind :: bool

definition mref_of :: "node \<Rightarrow> mref" where
  "mref_of n = \<lparr>mhead = nhead n, moff = noff n, mind = nind n\<rparr>"

lemma mref_of_simps [simp]: "mhead (mref_of n) = nhead n" "moff (mref_of n) = noff n" "mind (mref_of n) = nind n"
  by (simp_all add: mref_of_def)

definition mem_get :: "code \<Rightarrow> mref \<Rightarrow> u32 \<Rightarrow> u32" where
  "mem_get c r byte_offset = (if mind r then code_get c (moff r + byte_offset) else 0)"

definition mem_uint64 :: "code \<Rightarrow> mref \<Rightarrow> u32 \<Rightarrow> u64" where
  "mem_uint64 c r byte_offset = (if mind r then code_uint64 c (moff r + byte_offset) else 0)"

definition mem_children :: "code \<Rightarrow> mref \<Rightarrow> nat" where
  "mem_children c r = (if is_list_type (htype (mhead r)) then unat (mem_get c r 4) else to_children (htype (mhead r)))"

text \<open>\<open>None\<close> stands for a header whose type is no enumerator.\<close>

definition mem_child :: "code \<Rightarrow> mref \<Rightarrow> nat \<Rightarrow> mref option" where
  "mem_child c r i =
     (if i \<ge> mem_children c r then Some (mref_of bad_node)
      else let item = mem_get c r (of_nat (4 * (i + (if is_list_type (htype (mhead r)) then 2 else 1))))
           in if item AND 1 \<noteq> 0 then Some \<lparr>mhead = const_header (imm_parse_direct_kind item), moff = item, mind = False\<rparr>
              else if item AND 7 = 2 then Some \<lparr>mhead = var_header (local_parse_direct_kind item), moff = item, mind = False\<rparr>
              else if item AND 15 = 6 then
                Some \<lparr>mhead = mk_header STMT_0 eVoid (stmt0_parse_direct_op item), moff = item, mind = False\<rparr>
              else if item \<noteq> 0 \<and> item AND 3 = 0 then
                map_option (\<lambda>h. \<lparr>mhead = h, moff = moff r + item, mind = True\<rparr>) (header_of_item (code_get c (moff r + item)))
              else Some (mref_of bad_node))"

definition mem_const_val :: "code \<Rightarrow> mref \<Rightarrow> val" where
  "mem_const_val c r =
     (if mind r then mk_val (hkind (mhead r))
        (if kind_bitsize (hkind (mhead r)) = 64 then code_uint64 c (moff r + 4) else ucast (code_get c (moff r + 4)))
      else imm_parse_direct (moff r))"

definition mem_local :: "code \<Rightarrow> mref \<Rightarrow> u32" where
  "mem_local c r =
     (if mind r then local_parse_indirect (hkind (mhead r)) (mem_get c r 4) else local_parse_direct (moff r))"

definition mem_length_items :: "code \<Rightarrow> mref \<Rightarrow> u32" where
  "mem_length_items c r =
     (let len = add_uint32 1 (of_nat (mem_children c r)); t = htype (mhead r);
          plus = (if t = VAR then 1
                  else if t = CONSTN then of_nat ((kind_bitsize (hkind (mhead r)) + 31) div 32)
                  else if t = LABEL then 2
                  else if t = NAME then of_nat ((unat (hop (mhead r)) + 3) div 4)
                  else if is_list_type t then 1 else 0)
      in add_uint32 (ucast len) plus)"

text \<open>The sequential reader of a \<open>Code\<close>: class \<open>CodeParser\<close>; its state is the offset of the next node.\<close>

definition codeparser_next :: "code \<Rightarrow> u32 \<Rightarrow> (mref \<times> u32) option" where
  "codeparser_next c offset =
     (if offset \<ge> code_length c then Some (mref_of bad_node, offset)
      else map_option (\<lambda>h. let r = \<lparr>mhead = h, moff = offset, mind = True\<rparr>
             in (r, add_uint32 (ucast offset) (ucast (mul_uint32 (ucast (mem_length_items c r)) 4))))
           (header_of_item (code_get c offset)))"

subsection \<open>Nodes held by a buffer\<close>

definition node_image :: "node \<Rightarrow> u32 list" where
  "node_image n =
     header_item (nhead n) # (if is_list_type (nty n) then [of_nat (children n)] else []) @
     map (\<lambda>k. node_item k (noff n)) (nkids n) @ ndata n"

definition data_items :: "header \<Rightarrow> nat" where
  "data_items h =
     (if htype h = VAR then 1 else if htype h = CONSTN then (if kind_bitsize (hkind h) = 64 then 2 else 1)
      else if htype h = LABEL then 2 else if htype h = NAME then (unat (hop h) + 3) div 4 else 0)"

definition shape_ok :: "header \<Rightarrow> u32 list \<Rightarrow> node list \<Rightarrow> bool" where
  "shape_ok h data kids \<longleftrightarrow> length data = data_items h \<and>
     (if is_list_type (htype h) then length kids < 2 ^ 32 else length kids = to_children (htype h))"

definition direct_ok :: "header \<Rightarrow> u32 \<Rightarrow> bool" where
  "direct_ok h item \<longleftrightarrow>
     (item AND 1 \<noteq> 0 \<and> h = const_header (imm_parse_direct_kind item)) \<or>
     (item AND 7 = 2 \<and> h = var_header (local_parse_direct_kind item)) \<or>
     (item AND 15 = 6 \<and> h = mk_header STMT_0 eVoid (stmt0_parse_direct_op item)) \<or>
     (item = 0 \<and> h = bad_header)"

fun stored :: "u32 list \<Rightarrow> node \<Rightarrow> bool" where
  "stored xs (Node h off ind data kids) \<longleftrightarrow>
     (if ind then
        4 dvd unat off \<and> shape_ok h data kids \<and>
        (\<exists>pre post. xs = pre @ node_image (Node h off ind data kids) @ post \<and> unat off = 4 * length pre) \<and>
        (\<forall>k\<in>set kids. stored xs k \<and> (nind k \<longrightarrow> unat (noff k) < unat off))
      else direct_ok h off \<and> data = [] \<and> kids = [])"

declare stored.simps [simp del]

definition small :: "code \<Rightarrow> bool" where
  "small c \<longleftrightarrow> 4 * length (items c) < 2 ^ 32"

lemma stored_indirect:
  "nind n \<Longrightarrow> stored xs n \<longleftrightarrow> 4 dvd unat (noff n) \<and> shape_ok (nhead n) (ndata n) (nkids n) \<and>
     (\<exists>pre post. xs = pre @ node_image n @ post \<and> unat (noff n) = 4 * length pre) \<and>
     (\<forall>k\<in>set (nkids n). stored xs k \<and> (nind k \<longrightarrow> unat (noff k) < unat (noff n)))"
  by (cases n) (simp add: stored.simps)

lemma stored_direct:
  "\<not> nind n \<Longrightarrow> stored xs n \<longleftrightarrow> direct_ok (nhead n) (noff n) \<and> ndata n = [] \<and> nkids n = []"
  by (cases n) (simp add: stored.simps)

lemma stored_append: "stored xs n \<Longrightarrow> stored (xs @ ys) n"
proof (induction n)
  case (Node h off ind data kids)
  show ?case
  proof (cases ind)
    case True
    with Node.prems obtain pre post where p: "4 dvd unat off" "shape_ok h data kids"
      "xs = pre @ node_image (Node h off ind data kids) @ post" "unat off = 4 * length pre"
      "\<forall>k\<in>set kids. stored xs k \<and> (nind k \<longrightarrow> unat (noff k) < unat off)"
      by (auto simp: stored.simps)
    then have "xs @ ys = pre @ node_image (Node h off ind data kids) @ post @ ys" by simp
    moreover have "\<forall>k\<in>set kids. stored (xs @ ys) k \<and> (nind k \<longrightarrow> unat (noff k) < unat off)"
      using Node.IH p(5) by auto
    ultimately show ?thesis using True p(1,2,4) unfolding stored.simps by auto
  next
    case False
    with Node.prems show ?thesis by (simp add: stored.simps)
  qed
qed

lemma mem_get_image:
  assumes "stored (items c) n" "nind n" "small c" "j < length (node_image n)"
  shows "mem_get c (mref_of n) (of_nat (4 * j)) = node_image n ! j"
proof -
  from assms(1,2) obtain pre post where p: "items c = pre @ node_image n @ post" "unat (noff n) = 4 * length pre"
    by (auto simp: stored_indirect)
  have len: "length pre + j < length (items c)" using assms(4) p(1) by simp
  then have s: "4 * (length pre + j) < 2 ^ 32" using assms(3) by (simp add: small_def)
  have "noff n = of_nat (4 * length pre)" using p(2) by (metis of_nat_unat ucast_id)
  then have "moff (mref_of n) + of_nat (4 * j) = of_nat (4 * (length pre + j))"
    by (simp add: mref_of_def)
  then have "mem_get c (mref_of n) (of_nat (4 * j)) = items c ! (length pre + j)"
    using assms(2) code_get_append [OF s len] by (simp add: mem_get_def mref_of_def)
  also have "\<dots> = node_image n ! j" using assms(4) p(1) by (simp add: nth_append)
  finally show ?thesis .
qed

lemma mem_children_stored:
  assumes "stored (items c) n" "small c"
  shows "mem_children c (mref_of n) = children n"
proof (cases "nind n")
  case True
  then have sh: "shape_ok (nhead n) (ndata n) (nkids n)" using assms(1) by (simp add: stored_indirect)
  show ?thesis
  proof (cases "is_list_type (nty n)")
    case l: True
    then have "node_image n ! 1 = of_nat (children n)" "1 < length (node_image n)" by (simp_all add: node_image_def)
    with mem_get_image [OF assms(1) True assms(2), of 1] have "mem_get c (mref_of n) 4 = of_nat (children n)" by simp
    with sh l show ?thesis
      by (simp add: mem_children_def mref_of_def shape_ok_def children_def unat_of_nat take_bit_nat_eq_self)
  next
    case False
    with sh show ?thesis by (simp add: mem_children_def mref_of_def shape_ok_def children_def)
  qed
next
  case False
  with assms(1) have "direct_ok (nhead n) (noff n)" "nkids n = []" by (simp_all add: stored_direct)
  then show ?thesis
    by (auto simp: direct_ok_def mem_children_def mref_of_def children_def const_header_def var_header_def
        bad_header_def is_list_type_def to_children_def)
qed

text \<open>Each kind of item is told from the others by its low bits.\<close>

lemma low_bits:
  fixes x :: u32
  shows "x AND 1 = take_bit 1 x" "x AND 3 = take_bit 2 x" "x AND 7 = take_bit 3 x" "x AND 15 = take_bit 4 x"
proof -
  have "(1 :: u32) = mask 1" "(3 :: u32) = mask 2" "(7 :: u32) = mask 3" by (simp_all add: mask_eq_exp_minus_1)
  then show "x AND 1 = take_bit 1 x" "x AND 3 = take_bit 2 x" "x AND 7 = take_bit 3 x" "x AND 15 = take_bit 4 x"
    by (simp_all only: take_bit_eq_mask and_15)
qed

lemma take_bit_less: "m \<le> n \<Longrightarrow> take_bit n (x :: u32) = y \<Longrightarrow> take_bit m x = take_bit m y"
  by (metis min.absorb1 take_bit_take_bit)

lemma tag_disjoint:
  fixes x :: u32
  shows "x AND 7 = 2 \<Longrightarrow> x AND 1 = 0" "x AND 15 = 6 \<Longrightarrow> x AND 1 = 0 \<and> x AND 7 \<noteq> 2" "x AND 3 = 0 \<Longrightarrow> x AND 1 = 0"
    "x AND 3 = 0 \<Longrightarrow> x AND 7 \<noteq> 2 \<and> x AND 15 \<noteq> 6"
proof -
  show "x AND 7 = 2 \<Longrightarrow> x AND 1 = 0" unfolding low_bits using take_bit_less [of 1 3 x 2] by simp
  show "x AND 15 = 6 \<Longrightarrow> x AND 1 = 0 \<and> x AND 7 \<noteq> 2"
    unfolding low_bits using take_bit_less [of 1 4 x 6] take_bit_less [of 3 4 x 6] by simp
  show "x AND 3 = 0 \<Longrightarrow> x AND 1 = 0" unfolding low_bits using take_bit_less [of 1 2 x 0] by simp
  show "x AND 3 = 0 \<Longrightarrow> x AND 7 \<noteq> 2 \<and> x AND 15 \<noteq> 6"
    unfolding low_bits using take_bit_less [of 2 3 x 2] take_bit_less [of 2 4 x 6] by auto
qed

lemma relative_offset:
  assumes "4 dvd unat (a :: u32)" "4 dvd unat b" "unat a < unat b"
  shows "(a - b) AND 3 = 0" "a - b \<noteq> 0" "b + (a - b) = a"
proof -
  have d: "unat (a - b) = 2 ^ 32 - (unat b - unat a)"
    using assms(3) unsigned_less [of b] by (simp add: unat_sub_if' word_less_nat_alt split: if_splits)
  obtain k l where kl: "unat a = 4 * k" "unat b = 4 * l" using assms(1,2) by (elim dvdE)
  have "unat (a - b) = 4 * (2 ^ 30 - (l - k))" unfolding d kl by (simp add: diff_mult_distrib2)
  then have "unat (a - b) mod 4 = 0" by simp
  moreover have "unat (take_bit 2 (a - b)) = unat (a - b) mod 2 ^ 2" 
    unfolding unsigned_take_bit_eq by (rule take_bit_eq_mod)
  ultimately have "unat (take_bit 2 (a - b)) = 0" by simp
  then show "(a - b) AND 3 = 0" unfolding low_bits by (simp add: unat_eq_zero)
  show "a - b \<noteq> 0" using assms(3) by auto
  show "b + (a - b) = a" by simp
qed

lemma header_at:
  assumes "stored (items c) n" "nind n" "small c"
  shows "header_of_item (code_get c (noff n)) = Some (nhead n)"
proof -
  have "mem_get c (mref_of n) (of_nat (4 * 0)) = node_image n ! 0"
    by (rule mem_get_image [OF assms]) (simp add: node_image_def)
  then have "code_get c (noff n) = header_item (nhead n)"
    using assms(2) by (simp add: mem_get_def mref_of_def node_image_def)
  then show ?thesis by (simp add: header_round_trip)
qed

lemma mem_child_stored:
  assumes "stored (items c) n" "small c"
  shows "mem_child c (mref_of n) i = Some (mref_of (child n i))"
proof (cases "i < children n")
  case False
  with mem_children_stored [OF assms] show ?thesis by (simp add: mem_child_def child_def)
next
  case True
  then have ind: "nind n" using assms(1) stored_direct [of n] by (cases "nind n") (auto simp: children_def)
  let ?j = "i + (if is_list_type (nty n) then 2 else 1)"
  let ?k = "nkids n ! i"
  define item where "item = mem_get c (mref_of n) (of_nat (4 * ?j))"
  have k: "?k \<in> set (nkids n)" "child n i = ?k" using True by (simp_all add: children_def)
  have "?j < length (node_image n)" using True by (simp add: node_image_def children_def)
  then have "item = node_image n ! ?j" unfolding item_def by (rule mem_get_image [OF assms(1) ind assms(2)])
  then have it: "item = node_item ?k (noff n)"
    using True by (auto simp: node_image_def children_def nth_append)
  have st: "stored (items c) ?k" "nind ?k \<Longrightarrow> unat (noff ?k) < unat (noff n)"
    using assms(1) ind k(1) by (auto simp: stored_indirect)
  have mc: "mem_child c (mref_of n) i =
      (if item AND 1 \<noteq> 0 then Some \<lparr>mhead = const_header (imm_parse_direct_kind item), moff = item, mind = False\<rparr>
       else if item AND 7 = 2 then Some \<lparr>mhead = var_header (local_parse_direct_kind item), moff = item, mind = False\<rparr>
       else if item AND 15 = 6 then
         Some \<lparr>mhead = mk_header STMT_0 eVoid (stmt0_parse_direct_op item), moff = item, mind = False\<rparr>
       else if item \<noteq> 0 \<and> item AND 3 = 0 then
         map_option (\<lambda>h. \<lparr>mhead = h, moff = noff n + item, mind = True\<rparr>) (header_of_item (code_get c (noff n + item)))
       else Some (mref_of bad_node))"
    unfolding mem_child_def item_def using True mem_children_stored [OF assms] by (simp add: mref_of_def Let_def)
  show ?thesis
  proof (cases "nind ?k")
    case True
    then have "4 dvd unat (noff ?k)" "4 dvd unat (noff n)" using st(1) assms(1) ind by (simp_all add: stored_indirect)
    note rel = relative_offset [OF this st(2) [OF True]]
    have "item = noff ?k - noff n" using it True by (simp add: node_item_def)
    with rel tag_disjoint(3,4) [of item] header_at [OF st(1) True assms(2)] show ?thesis
      unfolding mc k(2) using True by (simp add: mref_of_def)
  next
    case False
    then have d: "direct_ok (nhead ?k) (noff ?k)" and "item = noff ?k"
      using st(1) it by (simp_all add: stored_direct node_item_def)
    then have d: "direct_ok (nhead ?k) item" and o: "noff ?k = item" by simp_all
    from d show ?thesis
      unfolding mc k(2) unfolding mref_of_def o using False tag_disjoint(1,2) [of item]
      by (auto simp: direct_ok_def mref_of_def bad_node_def)
  qed
qed

text \<open>The items of a held node, from its offset.\<close>

lemma stored_items:
  assumes "stored (items c) n" "nind n" "j < length (node_image n)"
  shows "unat (noff n) div 4 + j < length (items c)" "items c ! (unat (noff n) div 4 + j) = node_image n ! j"
proof -
  from assms(1,2) obtain pre post where "items c = pre @ node_image n @ post" "unat (noff n) = 4 * length pre"
    by (auto simp: stored_indirect)
  with assms(3) show "unat (noff n) div 4 + j < length (items c)" "items c ! (unat (noff n) div 4 + j) = node_image n ! j"
    by (simp_all add: nth_append)
qed

subsection \<open>What creating a node leaves in the buffer\<close>

lemma adds_nodes: "adds (map (\<lambda>k. node_item k p) ns) c (code_add_nodes ok ns p c)"
proof (induction ns arbitrary: c)
  case (Cons n ns)
  have "adds ([node_item n p] @ map (\<lambda>k. node_item k p) ns) c
      (if good (code_add_node ok n p c) then code_add_nodes ok ns p (code_add_node ok n p c) else code_add_node ok n p c)"
  proof (rule adds_trans)
    show "adds [node_item n p] c (code_add_node ok n p c)" unfolding code_add_node_def by (rule adds_item)
    show "adds (map (\<lambda>k. node_item k p) ns) (code_add_node ok n p c)
        (if good (code_add_node ok n p c) then code_add_nodes ok ns p (code_add_node ok n p c) else code_add_node ok n p c)"
      using Cons.IH by (auto simp: adds_def intro: exI [of _ 0])
  qed simp
  then show ?case by (simp add: Let_def)
qed (simp add: adds_refl)

text \<open>A chain of appends, each made only when the ones before succeeded.\<close>

lemma adds_then:
  assumes "adds xs c c1" "good c1 \<Longrightarrow> adds ys c1 c2"
  shows "adds (xs @ ys) c (if good c1 then c2 else c1)"
  using assms by (intro adds_trans [OF assms(1)]) (auto simp: adds_def intro: exI [of _ 0])

definition parent_items :: "header \<Rightarrow> u32 \<Rightarrow> node list \<Rightarrow> u32 \<Rightarrow> u32 list" where
  "parent_items h count kids offset =
     [header_item h] @ (if is_list_type (htype h) then [count] else []) @ map (\<lambda>k. node_item k offset) kids"

lemma adds_parent:
  fixes c :: code and ok h kids count
  defines "offset \<equiv> code_length c"
  defines "c1 \<equiv> code_add_header ok h c"
  defines "c2 \<equiv> (if is_list_type (htype h) then code_add_item ok count c1 else c1)"
  assumes "good c1"
  shows "adds (parent_items h count kids offset) c (if good c2 then code_add_nodes ok kids offset c2 else c2)"
proof -
  have 1: "adds [header_item h] c c1" unfolding c1_def code_add_header_def by (rule adds_item)
  have 2: "adds (if is_list_type (htype h) then [count] else []) c1 c2"
    unfolding c2_def by (auto simp: adds_item adds_refl)
  have "adds ([header_item h] @ (if is_list_type (htype h) then [count] else [])) c c2"
    using adds_trans [OF 1 2] assms(4) by simp
  from adds_then [OF this adds_nodes] show ?thesis by (simp add: parent_items_def)
qed

text \<open>Truncating to the length before the appends restores the items.\<close>

lemma code_truncate_restores:
  assumes "adds xs c c'" "small c"
  shows "items (code_truncate (code_length c) c') = items c" "good (code_truncate (code_length c) c') = good c'"
proof -
  from assms(1) obtain k where k: "items c' = items c @ take k xs" by (auto simp: adds_def)
  have "unat (code_length c) div 4 = length (items c)"
    using assms(2) by (simp add: code_length_def small_def unat_of_nat take_bit_nat_eq_self del: of_nat_mult)
  with k show "items (code_truncate (code_length c) c') = items c" "good (code_truncate (code_length c) c') = good c'"
    by (auto simp: code_truncate_def buf_truncate_def arr_truncate_def view_truncate_def Let_def)
qed

lemma code_length_small: "small c \<Longrightarrow> unat (code_length c) = 4 * length (items c)"
  by (simp add: code_length_def small_def unat_of_nat take_bit_nat_eq_self del: of_nat_mult)

text \<open>A node just appended is held, when its children are.\<close>

lemma stored_new:
  assumes "small c" "items c' = items c @ parent_items h (of_nat (length kids)) kids (code_length c) @ data"
    "shape_ok h data kids" "\<forall>k\<in>set kids. stored (items c) k \<and> (nind k \<longrightarrow> unat (noff k) < 4 * length (items c))"
  shows "stored (items c') (Node h (code_length c) True data kids)"
proof -
  let ?n = "Node h (code_length c) True data kids"
  have img: "node_image ?n = parent_items h (of_nat (length kids)) kids (code_length c) @ data"
    by (simp add: node_image_def parent_items_def children_def)
  have "\<exists>pre post. items c' = pre @ node_image ?n @ post \<and> unat (code_length c) = 4 * length pre"
    using assms(2) code_length_small [OF assms(1)] by (intro exI [of _ "items c"] exI [of _ "[]"]) (simp add: img)
  moreover have "stored (items c') k \<and> (nind k \<longrightarrow> unat (noff k) < unat (code_length c))" if "k \<in> set kids" for k
    using assms(4) that stored_append code_length_small [OF assms(1)] unfolding assms(2) by auto
  ultimately show ?thesis
    using assms(3) code_length_small [OF assms(1)] by (simp add: stored.simps)
qed

text \<open>The whole loop: it does not return exactly when the header cannot be appended.\<close>

lemma create_loop_stuck:
  assumes "\<not> good c" shows "create_loop ok h kids c = None"
proof -
  have "good c" if "create_loop ok h kids c = Some r" for r
    using that
  proof (rule create_loop.raw_induct [where P = "\<lambda>ok h kids c r. good c", rotated])
    fix loop ok h kids c r
    assume ih: "\<And>ok h kids c y. loop ok h kids c = Some y \<Longrightarrow> good c"
      and step: "(let offset = code_length c; c1 = code_add_header ok h c
        in if good c1 then
             let c2 = (if is_list_type (htype h) then code_add_item ok (word_of_nat (length kids)) c1 else c1);
                 c3 = (if good c2 then code_add_nodes ok kids offset c2 else c2)
             in if good c3 then Some (c3, Node h offset True [] kids) else Some (code_truncate offset c3, bad_node)
           else loop ok h kids c1) = Some r"
    have "good (code_add_header ok h c)"
    proof (rule ccontr)
      assume n: "\<not> good (code_add_header ok h c)"
      with step have "loop ok h kids (code_add_header ok h c) = Some r" by (simp add: Let_def)
      from ih [OF this] n show False by simp
    qed
    then show "good c"
      unfolding code_add_header_def code_add_item_def by (rule code_add_items_good)
  qed
  with assms have "create_loop ok h kids c \<noteq> Some r" for r by blast
  then show ?thesis by (cases "create_loop ok h kids c") auto
qed

lemma create_loop_eq:
  "create_loop ok h kids c =
     (let offset = code_length c;
          c1 = code_add_header ok h c;
          c2 = (if is_list_type (htype h) then code_add_item ok (of_nat (length kids)) c1 else c1);
          c3 = (if good c2 then code_add_nodes ok kids offset c2 else c2)
      in if \<not> good c1 then None
         else if good c3 then Some (c3, Node h offset True [] kids)
         else Some (code_truncate offset c3, bad_node))"
  by (subst create_loop.simps) (simp add: create_loop_stuck Let_def)

subsection \<open>Properties\<close>

definition example_func :: func where
  "example_func = \<lparr>fcode = code_new (\<lambda>n. True) 64, fvars = arr_empty, flabels = arr_empty,
     alloc_code = (\<lambda>n. True), alloc_vars = (\<lambda>n. True), alloc_labels = (\<lambda>n. True)\<rparr>"

lemma example_func_code:
  "fcode example_func = \<lparr>bdata = \<lparr>elems = [header_item (mk_header CONSTN (kind_with_simdn eUint8 (bits_of_size 4)) 0), 0x54494A31],
      acap = 64\<rparr>, good = True\<rparr>"
  by (simp add: example_func_def code_new_def code_init_def code_add_defs buf_reserve_def buf_append_def buf_new_def arr_defs)

definition kids_stored :: "func \<Rightarrow> node list \<Rightarrow> bool" where
  "kids_stored f kids \<longleftrightarrow>
     (\<forall>k\<in>set kids. stored (items (fcode f)) k \<and> (nind k \<longrightarrow> unat (noff k) < 4 * length (items (fcode f))))"

lemma create_indirect_cases:
  assumes "create_indirect f h kids = Some (f', n)" "small (fcode f)"
  shows "(n = Node h (code_length (fcode f)) True [] kids \<and> good (fcode f) \<and> good (fcode f') \<and>
      items (fcode f') = items (fcode f) @ parent_items h (of_nat (length kids)) kids (code_length (fcode f)) \<and>
      f' = f\<lparr>fcode := fcode f'\<rparr>) \<or>
    (n = bad_node \<and> items (fcode f') = items (fcode f) \<and> (length kids < 2 ^ 32 \<longrightarrow> \<not> good (fcode f')) \<and>
      f' = f\<lparr>fcode := fcode f'\<rparr>)"
proof (cases "length kids < 2 ^ 32")
  case True
  let ?c = "fcode f" and ?ok = "alloc_code f"
  define c1 where "c1 = code_add_header ?ok h ?c"
  define c2 where "c2 = (if is_list_type (htype h) then code_add_item ?ok (of_nat (length kids)) c1 else c1)"
  define c3 where "c3 = (if good c2 then code_add_nodes ?ok kids (code_length ?c) c2 else c2)"
  have l: "create_loop ?ok h kids ?c =
      (if \<not> good c1 then None else if good c3 then Some (c3, Node h (code_length ?c) True [] kids)
       else Some (code_truncate (code_length ?c) c3, bad_node))"
    unfolding create_loop_eq Let_def c1_def c2_def c3_def by simp
  with assms(1) True have g: "good c1" by (auto simp: create_indirect_def split: if_splits)
  then have "adds (parent_items h (of_nat (length kids)) kids (code_length ?c)) ?c c3"
    unfolding c3_def c2_def c1_def by (rule adds_parent)
  with l g assms True code_truncate_restores [OF this assms(2)] show ?thesis
    by (auto simp: create_indirect_def adds_def)
next
  case False
  with assms(1) show ?thesis by (auto simp: create_indirect_def)
qed

text \<open>C21: a node made by \<open>Node::create_indirect\<close> is held by the code, which keeps everything it held before;
  reading it back from the buffer gives its number of children and, for every index, the same child, or
  an invalid node beyond the last one.\<close>

theorem create_indirect_reads_back:
  assumes "create_indirect f h kids = Some (f', n)" "node_valid n"
    and "small (fcode f)" "small (fcode f')" "kids_stored f kids" "shape_ok h [] kids"
  shows "stored (items (fcode f')) n \<and>
    mem_children (fcode f') (mref_of n) = length kids \<and>
    (\<forall>i. mem_child (fcode f') (mref_of n) i = Some (mref_of (if i < length kids then kids ! i else bad_node))) \<and>
    (\<forall>m. stored (items (fcode f)) m \<longrightarrow> stored (items (fcode f')) m)"
proof -
  have nb: "n \<noteq> bad_node" using assms(2) by (auto simp: node_valid_def bad_node_def header_valid_def bad_header_def)
  with create_indirect_cases [OF assms(1,3)]
  have n: "n = Node h (code_length (fcode f)) True [] kids"
    and it: "items (fcode f') = items (fcode f) @ parent_items h (of_nat (length kids)) kids (code_length (fcode f)) @ []"
    by auto
  have st: "stored (items (fcode f')) n"
    unfolding n by (rule stored_new [OF assms(3) it assms(6)]) (use assms(5) in \<open>simp add: kids_stored_def\<close>)
  have "stored (items (fcode f')) m" if "stored (items (fcode f)) m" for m
    unfolding it using that by (rule stored_append)
  then show ?thesis
    using st mem_children_stored [OF st assms(4)] mem_child_stored [OF st assms(4)] n
    by (simp add: children_def child_def)
qed

lemma create_indirect_reads_back_witness:
  "\<exists>f' n. create_indirect example_func (mk_header UNARY eInt32 3) [const_small eInt32 7] = Some (f', n) \<and>
   mem_child (fcode f') (mref_of n) 0 = Some (mref_of (const_small eInt32 7))"
proof -
  let ?h = "mk_header UNARY eInt32 3" and ?k = "const_small eInt32 7" and ?f = "example_func"
  have cr: "create_indirect ?f ?h [?k] = Some (?f\<lparr>fcode := \<lparr>bdata = \<lparr>elems = items (fcode ?f) @ [header_item ?h, noff ?k], acap = 64\<rparr>, good = True\<rparr>\<rparr>,
      Node ?h 8 True [] [?k])"
    unfolding create_indirect_def create_loop_eq example_func_code
    by (simp add: example_func_def code_length_def is_list_type_def code_add_node_def code_add_defs node_item_def const_small_def
        buf_append_def arr_defs Let_def)
  have d: "direct_ok (nhead ?k) (noff ?k)"
    by (simp add: const_small_def direct_ok_def imm_make_direct_def imm_rrot_def imm_parse_direct_kind_def const_header_def
        kind_nosimd_def word_le_nat_alt)
  have "kids_stored ?f [?k]" using d by (simp add: kids_stored_def stored_direct const_small_def)
  then show ?thesis
    using create_indirect_reads_back [OF cr] unfolding cr
    by (auto simp: node_valid_def header_valid_def small_def example_func_code shape_ok_def data_items_def is_list_type_def to_children_def)
qed

text \<open>C22: when memory runs out \<open>Node::create_indirect\<close> either gives an invalid node, with the code as it was and its
  error flag set, or never returns: the latter exactly when the first append, of the header, is the one that fails, or
  when the code had failed before.\<close>

theorem create_indirect_out_of_memory:
  assumes "length kids < 2 ^ 32" "small (fcode f)"
  shows "(create_indirect f h kids = None \<longleftrightarrow> \<not> good (code_add_header (alloc_code f) h (fcode f))) \<and>
    (\<not> good (fcode f) \<longrightarrow> create_indirect f h kids = None) \<and>
    (\<forall>f'. create_indirect f h kids = Some (f', bad_node) \<and> header_valid h \<longrightarrow>
       items (fcode f') = items (fcode f) \<and> \<not> good (fcode f'))"
proof (intro conjI allI impI)
  show 1: "create_indirect f h kids = None \<longleftrightarrow> \<not> good (code_add_header (alloc_code f) h (fcode f))"
    using assms(1) by (auto simp: create_indirect_def create_loop_eq Let_def)
  show "create_indirect f h kids = None" if "\<not> good (fcode f)"
    using that 1 by (simp add: code_add_header_def)
next
  fix f' assume "create_indirect f h kids = Some (f', bad_node) \<and> header_valid h"
  then have "create_indirect f h kids = Some (f', bad_node)" "header_valid h" by simp_all
  moreover from this(2) have "bad_node \<noteq> Node h (code_length (fcode f)) True [] kids"
    by (auto simp: bad_node_def)
  ultimately show "items (fcode f') = items (fcode f)" "\<not> good (fcode f')"
    using create_indirect_cases [of f h kids f' bad_node] assms by auto
qed

lemma create_indirect_out_of_memory_witness:
  "create_indirect \<lparr>fcode = \<lparr>bdata = \<lparr>elems = [1, 2], acap = 2\<rparr>, good = True\<rparr>, fvars = arr_empty, flabels = arr_empty,
       alloc_code = (\<lambda>n. False), alloc_vars = (\<lambda>n. True), alloc_labels = (\<lambda>n. True)\<rparr>
     (mk_header UNARY eInt32 3) [const_small eInt32 7] = None"
proof -
  let ?f = "\<lparr>fcode = \<lparr>bdata = \<lparr>elems = [1, 2 :: u32], acap = 2\<rparr>, good = True\<rparr>, fvars = arr_empty, flabels = arr_empty,
       alloc_code = (\<lambda>n. False), alloc_vars = (\<lambda>n. True), alloc_labels = (\<lambda>n. True)\<rparr>"
  have "\<not> good (code_add_header (alloc_code ?f) (mk_header UNARY eInt32 3) (fcode ?f))"
    by (simp add: code_add_defs buf_append_def arr_defs)
  with create_indirect_out_of_memory [of "[const_small eInt32 7]" ?f "mk_header UNARY eInt32 3"] show ?thesis
    by (simp add: small_def)
qed

subsection \<open>Leaves\<close>

lemma adds_leaf:
  fixes ok h c
  defines "c1 \<equiv> code_add_header ok h c"
  shows "adds (header_item h # data) c (if good c1 then code_add_items ok data c1 else c1)"
proof -
  have 1: "adds [header_item h] c c1" unfolding c1_def code_add_header_def by (rule adds_item)
  show ?thesis using adds_then [OF 1 adds_items, of data ok] by simp
qed

lemma stored_leaf:
  assumes "small c" "good c'" "adds (header_item h # data) c c'" "shape_ok h data []" "\<not> is_list_type (htype h)"
  shows "stored (items c') (Node h (code_length c) True data [])"
proof -
  have "items c' = items c @ parent_items h (of_nat (length ([]::node list))) [] (code_length c) @ data"
    using assms(2,3,5) by (simp add: adds_def parent_items_def)
  from stored_new [OF assms(1) this assms(4)] show ?thesis by simp
qed

lemma const_create_stored:
  assumes "const_create f v = (f', n)" "node_valid n" "small (fcode f)" "vkind v \<le> eVoid \<Longrightarrow> vbits v = 0"
  shows "stored (items (fcode f')) n \<and> const_val n = imm_load (vkind v) (imm_store v) \<and> nkind n = vkind v"
proof (cases "imm_direct v \<noteq> 0")
  case True
  with assms(1,2) have n: "n = Node (const_header (vkind v)) (imm_direct v) False [] []"
    by (auto simp: const_create_def node_valid_def bad_node_def bad_header_def header_valid_def Let_def split: if_splits)
  note rt = imm_direct_round_trip [OF True assms(4)]
  have "imm_parse_direct_kind (imm_direct v) = vkind v"
    using arg_cong [OF rt(1), of vkind] by (simp add: imm_parse_direct_def Let_def)
  moreover have "imm_direct v AND 1 \<noteq> 0"
  proof
    assume "imm_direct v AND 1 = 0"
    then have "\<not> bit (imm_direct v AND 1) 0" by simp
    with rt(2) show False by (simp add: bit_and_iff)
  qed
  ultimately have "direct_ok (const_header (vkind v)) (imm_direct v)"
    by (simp add: direct_ok_def)
  with True show ?thesis
    by (simp add: n stored_direct const_val_def imm_load_def imm_store_def const_header_def)
next
  case False
  let ?c = "fcode f" and ?h = "const_header (vkind v)" and ?d = "imm_write_indirect v"
  define c2 where "c2 = (if good (code_add_header (alloc_code f) ?h ?c) then code_add_items (alloc_code f) ?d
      (code_add_header (alloc_code f) ?h ?c) else code_add_header (alloc_code f) ?h ?c)"
  have a: "adds (header_item ?h # ?d) ?c c2" unfolding c2_def by (rule adds_leaf)
  have "good c2 \<and> n = Node ?h (code_length ?c) True ?d [] \<and> f' = f\<lparr>fcode := c2\<rparr>"
    using assms(1,2) False
    by (auto simp: const_create_def node_valid_def bad_node_def bad_header_def header_valid_def Let_def c2_def
        split: if_splits)
  moreover have "shape_ok ?h ?d []"
    by (simp add: shape_ok_def data_items_def const_header_def imm_write_indirect_def is_list_type_def to_children_def)
  ultimately show ?thesis
    using stored_leaf [OF assms(3) _ a] False
    by (simp add: const_val_def imm_load_def imm_store_def const_header_def is_list_type_def)
qed

lemma mem_const_val_stored:
  assumes "stored (items c) n" "nty n = CONSTN" "small c"
  shows "mem_const_val c (mref_of n) = const_val n"
proof (cases "nind n")
  case True
  let ?k = "nkind n"
  have sh: "length (ndata n) = (if kind_bitsize ?k = 64 then 2 else 1)" "nkids n = []"
    using assms(1,2) True by (simp_all add: stored_indirect shape_ok_def data_items_def is_list_type_def to_children_def)
  then have img: "node_image n = header_item (nhead n) # ndata n"
    using assms(2) by (simp add: node_image_def is_list_type_def)
  define i where "i = unat (noff n) div 4"
  have o: "unat (noff n) = 4 * i" using assms(1) True unfolding i_def by (auto simp: stored_indirect)
  have at: "i + j < length (items c) \<and> items c ! (i + j) = ndata n ! (j - 1)" if "1 \<le> j" "j \<le> length (ndata n)" for j
    using stored_items [OF assms(1) True, of j] that unfolding i_def img by (auto simp: nth_Cons')
  have "i + length (ndata n) < length (items c)" using at [of "length (ndata n)"] sh(1) by (auto split: if_splits)
  then have "4 * i + 4 < 2 ^ 32" using assms(3) sh(1) unfolding small_def by (auto split: if_splits)
  then have "unat (noff n + 4) = 4 * i + 4" using o by (simp add: unat_word_ariths)
  then have ix: "unat (noff n + 4) div 4 = i + 1" by simp
  show ?thesis
  proof (cases "kind_bitsize ?k = 64")
    case 64: True
    then have "i + 1 < length (items c)" "items c ! (i + 1) = ndata n ! 0" "i + 2 < length (items c)" "items c ! (i + 2) = ndata n ! 1"
      using at [of 1] at [of 2] sh by simp_all
    with True 64 ix show ?thesis
      by (simp add: mem_const_val_def const_val_def mref_of_def imm_parse_indirect_def code_uint64_def Let_def)
  next
    case False
    then have "i + 1 < length (items c)" "items c ! (i + 1) = ndata n ! 0" using at [of 1] sh by simp_all
    with True False ix show ?thesis
      by (simp add: mem_const_val_def const_val_def mref_of_def imm_parse_indirect_def code_get_def view_get_def)
  qed
next
  case False
  then show ?thesis by (simp add: mem_const_val_def const_val_def mref_of_def)
qed



subsection \<open>Function types and calls\<close>

lemma kind_node_kind [simp]: "nkind (kind_node k) = k"
  using local_make_fields(1) [of 0 k] by (simp add: kind_node_def var_direct_def var_header_def)

lemma functype_create_node:
  assumes "functype_create f params results = (f', n)" "node_valid n"
  shows "n = Node (mk_header FTYPE (if results = [] then eVoid else results ! 0) (of_nat (length results)))
    (code_length (fcode f)) True [] (map kind_node (results @ params))"
  using assms
  by (auto simp: functype_create_def node_valid_def bad_node_def bad_header_def header_valid_def Let_def split: if_splits)



subsection \<open>Walking the code\<close>

lemma unat_of_nat_small: "a < 2 ^ 32 \<Longrightarrow> unat (of_nat a :: u32) = a"
  by (simp add: unat_of_nat take_bit_nat_eq_self)

lemma add_uint32_nat:
  assumes "a + b < 2 ^ 32"
  shows "add_uint32 (of_nat a) (of_nat b) = of_nat (a + b)"
proof -
  have "(of_nat a :: u64) + of_nat b = of_nat (a + b)" by simp
  then have "unat (add_uint32 (of_nat a) (of_nat b)) = min (unat (of_nat (a + b) :: u64)) (2 ^ 32 - 1)"
    unfolding add_uint32_def unat_saturate_uint32 by simp
  also have "\<dots> = a + b"
    using assms by (simp add: unat_of_nat take_bit_nat_eq_self del: of_nat_add)
  finally show ?thesis by (metis of_nat_unat ucast_id)
qed

lemma ucast_of_nat_small: "a < 2 ^ 32 \<Longrightarrow> (ucast (of_nat a :: u32) :: u64) = of_nat a"
  by (metis of_nat_unat unat_of_nat_small)

lemma mul_uint32_nat:
  assumes "4 * a < 2 ^ 32" shows "mul_uint32 (of_nat a) 4 = of_nat (4 * a)"
proof -
  have "(of_nat a :: u64) * 4 = of_nat (4 * a)" by simp
  then have "unat (mul_uint32 (of_nat a) 4) = min (unat (of_nat (4 * a) :: u64)) (2 ^ 32 - 1)"
    by (simp only: mul_uint32_def unat_saturate_uint32)
  also have "\<dots> = 4 * a"
    using assms by (simp add: unat_of_nat take_bit_nat_eq_self del: of_nat_mult)
  finally show ?thesis by (metis of_nat_unat ucast_id)
qed

definition parsable :: "node \<Rightarrow> bool" where
  "parsable n \<longleftrightarrow> nty n = CONSTN \<longrightarrow> 0 < kind_bitsize (nkind n) \<and> (kind_bitsize (nkind n) \<le> 32 \<or> kind_bitsize (nkind n) = 64)"

lemma mem_length_items_stored:
  assumes "stored (items c) n" "nind n" "small c" "parsable n"
  shows "mem_length_items c (mref_of n) = of_nat (length (node_image n))"
proof -
  have sh: "shape_ok (nhead n) (ndata n) (nkids n)" using assms(1,2) by (simp add: stored_indirect)
  let ?plus = "if nty n = VAR then 1 else if nty n = CONSTN then (kind_bitsize (nkind n) + 31) div 32
     else if nty n = LABEL then 2 else if nty n = NAME then (unat (nop n) + 3) div 4 else if is_list_type (nty n) then 1 else 0"
  have len: "length (node_image n) = 1 + children n + ?plus"
  proof -
    have "(kind_bitsize (nkind n) + 31) div 32 = (if kind_bitsize (nkind n) = 64 then 2 else 1)" if "nty n = CONSTN"
      using assms(4) that by (auto simp: parsable_def)
    with sh show ?thesis by (auto simp: node_image_def children_def shape_ok_def data_items_def is_list_type_def)
  qed
  have "length (node_image n) \<le> length (items c)"
    using stored_items(1) [OF assms(1,2), of "length (node_image n) - 1"] by (simp add: node_image_def)
  with assms(3) len have b: "1 + children n + ?plus < 2 ^ 32" by (simp add: small_def)
  have "add_uint32 1 (of_nat (children n)) = of_nat (1 + children n)"
    using add_uint32_nat [of 1 "children n"] b by simp
  then have "mem_length_items c (mref_of n) = add_uint32 (of_nat (1 + children n)) (of_nat ?plus)"
    using ucast_of_nat_small [of "1 + children n"] b
    by (simp add: mem_length_items_def mem_children_stored [OF assms(1,3)] Let_def)
  also have "\<dots> = of_nat (1 + children n + ?plus)" by (rule add_uint32_nat [OF b])
  finally show ?thesis using len by simp
qed

text \<open>C25: reading the code sequentially from the offset of a node gives that node, and the offset just after the
  last of its items, for every type of node; constants of 128 bits, whose stored length differs, are
  excepted.\<close>

theorem codeparser_steps_over_node:
  assumes "stored (items c) n" "nind n" "small c" "parsable n"
  shows "codeparser_next c (noff n) = Some (mref_of n, noff n + 4 * of_nat (length (node_image n)))"
proof -
  let ?l = "length (node_image n)"
  have st: "unat (noff n) div 4 + (?l - 1) < length (items c)" "4 dvd unat (noff n)"
    using stored_items(1) [OF assms(1,2), of "?l - 1"] assms(1,2) by (simp_all add: node_image_def stored_indirect)
  have l0: "0 < ?l" by (simp add: node_image_def)
  have fit: "unat (noff n) + 4 * ?l < 2 ^ 32"
  proof -
    have "unat (noff n) + 4 * ?l \<le> 4 * length (items c)" using st l0 by (elim dvdE) simp
    with assms(3) show ?thesis by (simp add: small_def)
  qed
  have "unat (noff n) < 4 * length (items c)" using st by (elim dvdE) simp
  then have in_code: "\<not> noff n \<ge> code_length c"
    using code_length_small [OF assms(3)] by (simp add: word_le_nat_alt)
  have m: "mul_uint32 (ucast (mem_length_items c (mref_of n))) 4 = of_nat (4 * ?l)"
  proof -
    have "4 * ?l < 2 ^ 32" using fit by simp
    moreover from this have "(ucast (of_nat ?l :: u32) :: u64) = of_nat ?l" by (intro ucast_of_nat_small) simp
    ultimately show ?thesis
      using mul_uint32_nat [of ?l] by (simp only: mem_length_items_stored [OF assms])
  qed
  have ab: "add_uint32 (of_nat (unat (noff n))) (of_nat (4 * ?l)) = of_nat (unat (noff n) + 4 * ?l)"
    by (rule add_uint32_nat [OF fit])
  have a: "add_uint32 (ucast (noff n)) (ucast (of_nat (4 * ?l) :: u32)) = noff n + 4 * of_nat ?l"
  proof -
    have "(ucast (of_nat (4 * ?l) :: u32) :: u64) = of_nat (4 * ?l)" using fit by (intro ucast_of_nat_small) simp
    moreover have "(ucast (noff n) :: u64) = of_nat (unat (noff n))" by simp
    ultimately have "add_uint32 (ucast (noff n)) (ucast (of_nat (4 * ?l) :: u32)) = of_nat (unat (noff n) + 4 * ?l)"
      using ab by (simp only:)
    then show ?thesis by simp
  qed
  have r: "\<lparr>mhead = nhead n, moff = noff n, mind = True\<rparr> = mref_of n" using assms(2) by (simp add: mref_of_def)
  show ?thesis
    unfolding codeparser_next_def using in_code header_at [OF assms(1-3)]
    by (simp only: if_False option.map r m a Let_def)
qed

lemma codeparser_steps_over_node_witness:
  "codeparser_next (fcode (fst (label_create example_func 0x1234 5))) 8 =
     Some (mref_of (snd (label_create example_func 0x1234 5)), 20)"
proof -
  have e: "label_create example_func 0x1234 5 = (example_func\<lparr>fcode := \<lparr>bdata = \<lparr>elems = items (fcode example_func) @
      [header_item (mk_header LABEL eVoid 5), 0x1234, 0], acap = 64\<rparr>, good = True\<rparr>\<rparr>, Node (mk_header LABEL eVoid 5) 8 True [0x1234, 0] [])"
    unfolding label_create_def example_func_code
    by (simp add: code_add_defs buf_append_def arr_defs Let_def code_length_def example_func_def)
  let ?n = "Node (mk_header LABEL eVoid 5) 8 True [0x1234, 0] []"
  let ?c = "fcode (fst (label_create example_func 0x1234 5))"
  have img: "node_image ?n = [header_item (mk_header LABEL eVoid 5), 0x1234, 0]"
    by (simp add: node_image_def is_list_type_def)
  have "\<exists>pre post. items ?c = pre @ node_image ?n @ post \<and> 8 = 4 * length pre"
    unfolding img e by (intro exI [of _ "items (fcode example_func)"] exI [of _ "[]"]) (simp add: example_func_code)
  then have "stored (items ?c) ?n"
    by (simp add: stored.simps shape_ok_def data_items_def is_list_type_def to_children_def)
  from codeparser_steps_over_node [OF this] show ?thesis
    by (simp add: e img small_def parsable_def example_func_code)
qed

text \<open>The address of a label is not the one it was created with.\<close>

lemma label_address_wrong:
  "label_address (fcode (fst (label_create example_func 0x1234 5))) (snd (label_create example_func 0x1234 5)) = 0 \<and>
   mem_uint64 (fcode (fst (label_create example_func 0x1234 5))) (mref_of (snd (label_create example_func 0x1234 5))) 4 = 0x1234"
  unfolding label_create_def example_func_code
  by (simp add: code_add_defs buf_append_def arr_defs Let_def code_length_def example_func_def label_address_def
      mem_uint64_def mref_of_def code_uint64_def code_get_def)

end
