(* ===== verification/Eval.thy ===== *)
theory Eval imports Nodes "HOL-Library.Multiset" begin

text \<open>
  The evaluation of constant expressions, \<open>src/onejit/eval.cpp\<close>: \<open>is_const\<close>, \<open>eval_const\<close> and the operators on
  values. A result \<open>None\<close> is undefined behaviour of the operation on values (see \<open>Values\<close>).

  The reference is the meaning of an expression, \<open>ev\<close>: it reads variables in an environment, evaluates the
  operands of \<open>&&\<close> and \<open>||\<close> from the left as far as needed, and folds the n-ary operators. The expressions
  it is about are the well-kinded ones, \<open>wk\<close>: kinds of integers of at most 64 bits, every operand of the
  kind its operator wants. The lemmas show that evaluation keeps kinds and canonical values, that only a
  division or a shift can be undefined, and that the n-ary operators are commutative monoids, through
  the locale \<open>monoid_on\<close>, interpreted on the operators of the code.
\<close>

subsection \<open>The operators on values\<close>

definition eval_unary_op :: "kind \<Rightarrow> op1 \<Rightarrow> val \<Rightarrow> val option" where
  "eval_unary_op k op x =
     (case op of XOR1 \<Rightarrow> val_not x | NOT1 \<Rightarrow> Some (val_lnot x) | NEG1 \<Rightarrow> val_neg x | CAST \<Rightarrow> val_cast x k
      | BITCOPY \<Rightarrow> val_bitcopy x k | _ \<Rightarrow> Some bad_value)"

definition eval_binary_op :: "op2 \<Rightarrow> val \<Rightarrow> val \<Rightarrow> val option" where
  "eval_binary_op op x y =
     (case op of SUB \<Rightarrow> val_sub x y | QUO \<Rightarrow> val_quo x y | REM \<Rightarrow> val_rem x y | SHL \<Rightarrow> val_shl x y | SHR \<Rightarrow> val_shr x y
      | LAND \<Rightarrow> Some (val_land x y) | LOR \<Rightarrow> Some (val_lor x y) | LSS \<Rightarrow> Some (val_less x y) | LEQ \<Rightarrow> Some (val_le x y)
      | NEQ \<Rightarrow> Some (val_ne x y) | EQL \<Rightarrow> Some (val_eq x y) | GTR \<Rightarrow> Some (val_less y x) | GEQ \<Rightarrow> Some (val_le y x)
      | _ \<Rightarrow> Some bad_value)"

text \<open>The loops \<open>for (const Value &v : vs)\<close>; those of \<open>MAX\<close> and \<open>MIN\<close> return as soon as the values cannot be compared.\<close>

fun eval_fold :: "(val \<Rightarrow> val \<Rightarrow> val option) \<Rightarrow> val list \<Rightarrow> val \<Rightarrow> val option" where
  "eval_fold f [] x = Some x"
| "eval_fold f (v # vs) x = Option.bind (f x v) (eval_fold f vs)"

fun eval_max :: "val list \<Rightarrow> val \<Rightarrow> val" where
  "eval_max [] x = x"
| "eval_max (v # vs) x =
     (let cmp = val_less x v in if val_is_valid cmp then eval_max vs (if val_truth cmp then v else x) else bad_value)"

fun eval_min :: "val list \<Rightarrow> val \<Rightarrow> val" where
  "eval_min [] x = x"
| "eval_min (v # vs) x =
     (let cmp = val_less x v in if val_is_valid cmp then eval_min vs (if val_truth cmp then x else v) else bad_value)"

definition eval_tuple_op :: "kind \<Rightarrow> opn \<Rightarrow> val list \<Rightarrow> val option" where
  "eval_tuple_op k op vs =
     Option.bind (val_identity k op) (\<lambda>x.
       case op of ADDN \<Rightarrow> eval_fold val_add vs x | MULN \<Rightarrow> eval_fold val_mul vs x | ANDN \<Rightarrow> eval_fold val_and vs x
       | ORN \<Rightarrow> eval_fold val_or vs x | XORN \<Rightarrow> eval_fold val_xor vs x
       | MAXN \<Rightarrow> Some (eval_max vs x) | MINN \<Rightarrow> Some (eval_min vs x)
       | COMMA \<Rightarrow> Some (if vs = [] then x else if \<not> list_all val_is_valid vs then bad_value else last vs)
       | _ \<Rightarrow> Some x)"

subsection \<open>Constant expressions\<close>

text \<open>The size of a node, with the invalid node below every other, for the recursion through \<open>child\<close>.\<close>

definition node_measure :: "node \<Rightarrow> nat" where
  "node_measure n = (if n = bad_node then 0 else size n)"

lemma nth_size_less: "i < length ks \<Longrightarrow> size (ks ! i) < Suc (size_list size ks)" for ks :: "node list"
  using size_list_estimation' [of "ks ! i" ks "size (ks ! i)" size] by (simp add: less_Suc_eq_le)

lemma as_expr_measure: "node_measure (as_expr n) \<le> node_measure n"
  by (simp add: node_measure_def as_expr_def downcast_def)

lemma child_measure [simp]:
  assumes "i < children n \<or> nty n \<noteq> STMT_0"
  shows "node_measure (as_expr (child n i)) < node_measure n"
proof -
  have n: "n \<noteq> bad_node" using assms by (auto simp: bad_node_def bad_header_def children_def)
  have "node_measure (child n i) < node_measure n"
  proof (cases n)
    case (Node h off ind d ks)
    then show ?thesis using n nth_size_less [of i ks] by (auto simp: node_measure_def child_def children_def)
  qed
  with as_expr_measure show ?thesis by (rule le_less_trans)
qed

text \<open>
  \<open>is_const\<close>: in the case \<open>TUPLE\<close> the \<open>break\<close> after an argument that is not constant leaves the inner loop only,
  and the function returns \<open>true\<close> for every arithmetic tuple.
\<close>

function is_const :: "node \<Rightarrow> bool" where
  "is_const n =
     (if nty n = UNARY then is_const (as_expr (child n 0))
      else if nty n = BINARY then is_const (as_expr (child n 0)) \<and> is_const (as_expr (child n 1))
      else if nty n = CONSTN then True
      else if nty n = TUPLE then is_arithmetic (node_opn n)
      else False)"
  by pat_completeness auto
termination by (relation "measure node_measure") simp_all

declare is_const.simps [simp del]

text \<open>The loop over the arguments of a tuple stops at the first invalid value.\<close>

function eval_const :: "node \<Rightarrow> val option"
  and eval_args :: "node \<Rightarrow> nat \<Rightarrow> val \<Rightarrow> val option" where
  "eval_const n =
     (if nty n = UNARY then
        Option.bind (eval_const (as_expr (child n 0))) (eval_unary_op (nkind n) (node_op1 n))
      else if nty n = BINARY then
        Option.bind (eval_const (as_expr (child n 0))) (\<lambda>x.
          Option.bind (eval_const (as_expr (child n 1))) (\<lambda>y. eval_binary_op (node_op2 n) x y))
      else if nty n = TUPLE \<and> is_arithmetic (node_opn n) then
        Option.bind (val_identity (nkind n) (node_opn n)) (eval_args n 0)
      else if nty n = CONSTN then Some (const_val n)
      else Some bad_value)"
| "eval_args n i v =
     (if val_is_valid v \<and> i < children n then
        Option.bind (eval_const (as_expr (child n i))) (\<lambda>vi.
          Option.bind (eval_tuple_op (nkind n) (node_opn n) [v, vi]) (eval_args n (Suc i)))
      else Some v)"
  by pat_completeness auto
termination
  by (relation "measures [\<lambda>x. case x of Inl n \<Rightarrow> node_measure n | Inr (n, i, v) \<Rightarrow> node_measure n,
        \<lambda>x. case x of Inl n \<Rightarrow> Suc (children n) | Inr (n, i, v) \<Rightarrow> children n - i]") auto

declare eval_const.simps [simp del] eval_args.simps [simp del]

subsection \<open>The meaning of an expression\<close>

type_synonym env = "u32 \<Rightarrow> val"

definition ev_and_or :: "op2 \<Rightarrow> val \<Rightarrow> val option \<Rightarrow> val option" where
  "ev_and_or op x ry =
     (if op = LAND \<and> x = val_bool False \<or> op = LOR \<and> x = val_bool True then Some x
      else Option.bind ry (eval_binary_op op x))"

definition arg1 :: "'a option list \<Rightarrow> 'a option" where
  "arg1 rs = (case rs of r # _ \<Rightarrow> r | [] \<Rightarrow> None)"

definition arg2 :: "'a option list \<Rightarrow> 'a option" where
  "arg2 rs = (case rs of _ # r # _ \<Rightarrow> r | _ \<Rightarrow> None)"

lemma args [simp]: "arg1 (r # rs) = r" "arg2 (q # r # rs) = r"
  by (simp_all add: arg1_def arg2_def)

fun ev :: "env \<Rightarrow> node \<Rightarrow> val option" where
  "ev env (Node h off ind d ks) =
     (let n = Node h off ind d ks; rs = map (ev env) ks
      in case htype h of
           VAR \<Rightarrow> Some (env (node_local n))
         | CONSTN \<Rightarrow> Some (const_val n)
         | UNARY \<Rightarrow> Option.bind (arg1 rs) (eval_unary_op (hkind h) (node_op1 n))
         | BINARY \<Rightarrow> Option.bind (arg1 rs) (\<lambda>x. ev_and_or (node_op2 n) x (arg2 rs))
         | TUPLE \<Rightarrow> Option.bind (those rs) (eval_tuple_op (hkind h) (node_opn n))
         | _ \<Rightarrow> None)"

declare ev.simps [simp del]

text \<open>The operators a kind has a reduction for: \<open>MAX\<close> and \<open>MIN\<close> only when unsigned (theorem \<open>value_min_not_least\<close>).\<close>

definition foldable :: "kind \<Rightarrow> opn \<Rightarrow> bool" where
  "foldable k op \<longleftrightarrow> int_kind k \<and>
     (op \<in> {ADDN, MULN, ANDN, ORN, XORN} \<or> op \<in> {MAXN, MINN} \<and> kind_is_unsigned k)"

definition wk_binary :: "op2 \<Rightarrow> kind \<Rightarrow> kind \<Rightarrow> bool" where
  "wk_binary op k kx \<longleftrightarrow> op \<noteq> BAD2 \<and>
     (if op \<in> {SUB, QUO, REM, SHL, SHR} then k = kx else k = eBool \<and> (op \<in> {LAND, LOR} \<longrightarrow> kx = eBool))"

definition wk_unary :: "op1 \<Rightarrow> kind \<Rightarrow> kind \<Rightarrow> bool" where
  "wk_unary op k kx \<longleftrightarrow> op \<noteq> BAD1 \<and> (op = NOT1 \<longrightarrow> k = eBool) \<and> (op = XOR1 \<or> op = NEG1 \<longrightarrow> k = kx)"

fun wk :: "node \<Rightarrow> bool" where
  "wk (Node h off ind d ks) \<longleftrightarrow>
     (let n = Node h off ind d ks
      in int_kind (hkind h) \<and> hkind h \<noteq> eBad \<and> list_all wk ks \<and>
         (case htype h of
            VAR \<Rightarrow> ks = [] \<and> local_kind (node_local n) = hkind h
          | CONSTN \<Rightarrow> ks = [] \<and> vkind (const_val n) = hkind h \<and> canonical (const_val n)
          | UNARY \<Rightarrow> length ks = 1 \<and> wk_unary (node_op1 n) (hkind h) (nkind (ks ! 0))
          | BINARY \<Rightarrow> length ks = 2 \<and> nkind (ks ! 1) = nkind (ks ! 0) \<and> wk_binary (node_op2 n) (hkind h) (nkind (ks ! 0))
          | TUPLE \<Rightarrow> foldable (hkind h) (node_opn n) \<and> list_all (\<lambda>c. nkind c = hkind h) ks
          | _ \<Rightarrow> False))"

declare wk.simps [simp del]

definition env_ok :: "env \<Rightarrow> bool" where
  "env_ok env \<longleftrightarrow> (\<forall>l. vkind (env l) = local_kind l \<and> (int_kind (local_kind l) \<longrightarrow> canonical (env l)))"

subsection \<open>Kinds of results\<close>

definition has_kind :: "kind \<Rightarrow> val option \<Rightarrow> bool" where
  "has_kind k r \<longleftrightarrow> (case r of Some v \<Rightarrow> vkind v = k \<and> canonical v | None \<Rightarrow> False)"

lemma has_kindI: "r = Some v \<Longrightarrow> vkind v = k \<Longrightarrow> canonical v \<Longrightarrow> has_kind k r"
  by (simp add: has_kind_def)

lemma has_kindD: "has_kind k r \<Longrightarrow> \<exists>v. r = Some v \<and> vkind v = k \<and> canonical v"
  by (simp add: has_kind_def split: option.splits)

lemma wraps_has_kind: "wraps_to k i r \<Longrightarrow> has_kind k r"
  by (auto simp: wraps_to_def has_kind_def)

lemma ext_has_kind [simp]: "int_kind k \<Longrightarrow> has_kind k (extend_or_truncate k b)"
  using canonical_mk_ext [OF int_kind_bitsize] by (simp add: has_kind_def extend_or_truncate_eq int_kind_bitsize)

lemma int_kind_eqs [simp]: "int_kind eBool" "int_kind eInt8" "int_kind eInt16" "int_kind eInt32" "int_kind eInt64"
  "int_kind eUint8" "int_kind eUint16" "int_kind eUint32" "int_kind eUint64" "int_kind ePtr"
  by (simp_all add: int_kind_def)

lemma val_bool_kind [simp]: "vkind (val_bool b) = eBool" "vbits (val_bool b) = of_bool b"
  by (simp_all add: val_bool_def)

lemma val_bool_canonical [simp]: "canonical (val_bool b)"
  by (simp add: canonical_iff ext_word_def)

lemma val_bool_eq [simp]: "val_bool b = val_bool c \<longleftrightarrow> b = c"
  by (simp add: val_bool_def)

lemma val_bool_cases:
  assumes "vkind v = eBool" "canonical v" shows "v = val_bool (vbits v \<noteq> 0)"
proof -
  have "take_bit 1 (vbits v) = vbits v" using assms by (simp add: canonical_iff ext_word_def)
  then have "vbits v = of_bool (odd (vbits v))" by (simp add: take_bit_Suc mod_2_eq_odd)
  then have "vbits v = 0 \<or> vbits v = 1" by (cases "odd (vbits v)") simp_all
  then show ?thesis using assms by (auto simp: val_eq_iff)
qed

lemma val_bool_has_kind [simp]: "has_kind eBool (Some (val_bool b))"
  by (simp add: has_kind_def)

lemma val_lnot_bool: "int_kind (vkind v) \<Longrightarrow> val_lnot v = val_bool (vbits v = 0)"
  using int_kind_not_float [of "vkind v"] by (simp add: val_lnot_def val_eq_def val_zero_def)

lemma val_cast_int:
  assumes "int_kind (vkind v)" "int_kind k" "canonical v"
  shows "has_kind k (val_cast v k)"
  using assms int_kind_not_float [of k] int_kind_not_float [of "vkind v"]
  by (auto simp: val_cast_def Let_def has_kindI)

lemma eval_unary_kind:
  assumes "int_kind (vkind x)" "canonical x" "int_kind k" "wk_unary op k (vkind x)"
  shows "has_kind k (eval_unary_op k op x)"
  using assms int_kind_not_float [OF assms(1)] val_cast_int [OF assms(1,3,2)]
    wraps_has_kind [OF val_arith_wraps(4) [OF assms(1) refl]]
  by (cases op) (auto simp: eval_unary_op_def wk_unary_def val_not_def val_bitcopy_def val_lnot_bool)

text \<open>A division or a shift can be undefined, the other operators cannot.\<close>

definition partial_op :: "op2 \<Rightarrow> bool" where
  "partial_op op \<longleftrightarrow> op \<in> {QUO, REM, SHL, SHR}"

lemma eval_binary_kind:
  assumes "int_kind (vkind x)" "canonical x" "vkind y = vkind x" "canonical y" "wk_binary op k (vkind x)"
  shows "\<not> partial_op op \<or> eval_binary_op op x y \<noteq> None \<Longrightarrow> has_kind k (eval_binary_op op x y)"
proof -
  assume d: "\<not> partial_op op \<or> eval_binary_op op x y \<noteq> None"
  have e: "has_kind (vkind x) (extend_or_truncate (vkind x) b)" for b using assms(1) by simp
  have y: "int_kind (vkind y)" using assms by simp
  note cmp = val_compare_eq [OF assms(1,3)] val_compare_eq [OF y assms(3) [symmetric]]
  show ?thesis
    using assms d e cmp int_kind_not_float [OF assms(1)] wraps_has_kind [OF val_arith_wraps(2) [OF assms(1,3)]]
    by (cases op) (auto simp: eval_binary_op_def wk_binary_def partial_op_def val_quo_def val_rem_def val_shl_def
        val_shr_def val_land_def val_lor_def split: if_splits)
qed

subsection \<open>The n-ary operators are commutative monoids\<close>

text \<open>What a reduction may do with its operands: any order, any grouping, and dropping neutral elements.\<close>

locale monoid_on =
  fixes C :: "'a set" and f :: "'a \<Rightarrow> 'a \<Rightarrow> 'a" and e :: 'a
  assumes closed: "x \<in> C \<Longrightarrow> y \<in> C \<Longrightarrow> f x y \<in> C"
    and assoc: "x \<in> C \<Longrightarrow> y \<in> C \<Longrightarrow> z \<in> C \<Longrightarrow> f (f x y) z = f x (f y z)"
    and comm: "x \<in> C \<Longrightarrow> y \<in> C \<Longrightarrow> f x y = f y x"
    and unit: "x \<in> C \<Longrightarrow> e \<in> C"
    and neutral: "x \<in> C \<Longrightarrow> f e x = x"
begin

lemma neutral_right: "x \<in> C \<Longrightarrow> f x e = x"
  using comm [of x e] unit neutral by simp

lemma fold_closed: "set xs \<subseteq> C \<Longrightarrow> x \<in> C \<Longrightarrow> foldl f x xs \<in> C"
  by (induction xs arbitrary: x) (simp_all add: closed)

lemma fold_start: "set xs \<subseteq> C \<Longrightarrow> x \<in> C \<Longrightarrow> foldl f x xs = f x (foldl f e xs)"
proof (induction xs arbitrary: x)
  case (Cons y ys)
  then have y: "y \<in> C" "set ys \<subseteq> C" by simp_all
  with Cons have "foldl f (f x y) ys = f (f x y) (foldl f e ys)" "foldl f y ys = f y (foldl f e ys)"
    by (simp_all add: closed)
  then show ?case
    using Cons.prems y fold_closed [OF y(2) unit [OF y(1)]] by (simp add: neutral assoc)
qed (simp add: neutral_right)

lemma fold_Cons: "set xs \<subseteq> C \<Longrightarrow> x \<in> C \<Longrightarrow> foldl f e (x # xs) = f x (foldl f e xs)"
  using fold_start [of xs x] by (simp add: neutral)

lemma fold_append:
  "set xs \<subseteq> C \<Longrightarrow> set ys \<subseteq> C \<Longrightarrow> e \<in> C \<Longrightarrow> foldl f e (xs @ ys) = f (foldl f e xs) (foldl f e ys)"
  using fold_start [of ys "foldl f e xs"] fold_closed [of xs e] by simp

lemma fold_remove:
  assumes "set xs \<subseteq> C" "x \<in> set xs"
  shows "foldl f e xs = f x (foldl f e (remove1 x xs))"
  using assms
proof (induction xs)
  case (Cons y ys)
  show ?case
  proof (cases "x = y")
    case True
    with Cons.prems show ?thesis using fold_Cons [of ys x] by simp
  next
    case False
    with Cons have x: "x \<in> set ys" "x \<in> C" "y \<in> C" "set ys \<subseteq> C" by auto
    then have r: "set (remove1 x ys) \<subseteq> C" using set_remove1_subset [of x ys] by blast
    let ?r = "foldl f e (remove1 x ys)"
    have rc: "?r \<in> C" using fold_closed [OF r unit [OF x(2)]] .
    have "foldl f e (y # ys) = f y (f x ?r)" using Cons.IH [OF x(4,1)] fold_Cons [OF x(4,3)] by simp
    also have "\<dots> = f x (f y ?r)" using assoc comm x rc by metis
    also have "\<dots> = f x (foldl f e (remove1 x (y # ys)))" using fold_Cons [OF r x(3)] False by simp
    finally show ?thesis .
  qed
qed simp

lemma fold_mset: "mset xs = mset ys \<Longrightarrow> set xs \<subseteq> C \<Longrightarrow> foldl f e xs = foldl f e ys"
proof (induction xs arbitrary: ys)
  case (Cons x xs)
  then have x: "x \<in> set ys" "set ys \<subseteq> C" by (metis list.set_intros(1) set_mset_mset, metis set_mset_mset)
  have "mset xs = mset (remove1 x ys)" using Cons.prems(1) by (metis add_mset_remove_trivial mset.simps(2) mset_remove1)
  with Cons have "foldl f e xs = foldl f e (remove1 x ys)" by simp
  then show ?case using fold_remove [OF x(2,1)] fold_Cons [of xs x] Cons.prems(2) by simp
qed simp

lemma fold_concat:
  "(\<And>xs. xs \<in> set xss \<Longrightarrow> set xs \<subseteq> C) \<Longrightarrow> e \<in> C \<Longrightarrow> foldl f e (concat xss) = foldl f e (map (foldl f e) xss)"
proof (induction xss)
  case (Cons xs xss)
  then have "set (concat xss) \<subseteq> C" "set (map (foldl f e) xss) \<subseteq> C" "foldl f e xs \<in> C"
    using fold_closed by auto
  with Cons show ?case using fold_append [of xs "concat xss"] fold_Cons [of "map (foldl f e) xss" "foldl f e xs"] by simp
qed simp

end

definition opn_fun :: "opn \<Rightarrow> val \<Rightarrow> val \<Rightarrow> val" where
  "opn_fun op a b =
     (case op of MAXN \<Rightarrow> (if val_truth (val_less a b) then b else a) | MINN \<Rightarrow> (if val_truth (val_less a b) then a else b)
      | _ \<Rightarrow> the (val_opn op a b))"

definition opn_unit :: "kind \<Rightarrow> opn \<Rightarrow> val" where
  "opn_unit k op = the (val_identity k op)"

text \<open>The values an operator on a kind works on.\<close>

definition opn_carrier :: "kind \<Rightarrow> opn \<Rightarrow> val set" where
  "opn_carrier k op = {v. foldable k op \<and> vkind v = k \<and> canonical v}"

lemma val_truth_bool [simp]: "val_truth (val_bool b) = b"
  by (simp add: val_truth_def val_ne_def val_zero_def)

lemma kind_wrap_eq_iff: "kind_wrap k i = kind_wrap k j \<longleftrightarrow> i mod 2 ^ kind_bitsize k = j mod 2 ^ kind_bitsize k"
proof (cases "kind_bitsize k")
  case (Suc n)
  then show ?thesis
    by (auto simp: kind_wrap_def signed_take_bit_eq_iff_take_bit_eq take_bit_eq_mod simp del: power_Suc)
qed (simp add: kind_wrap_def)

lemma kind_wrap_mod: "kind_wrap k i mod 2 ^ kind_bitsize k = i mod 2 ^ kind_bitsize k"
proof (cases "kind_bitsize k")
  case (Suc n)
  have "take_bit (Suc n) (signed_take_bit n i) = take_bit (Suc n) i" by (simp add: take_bit_signed_take_bit)
  then show ?thesis by (auto simp: kind_wrap_def Suc take_bit_eq_mod simp del: power_Suc)
qed simp

lemma kind_wrap_absorb:
  "kind_wrap k (kind_wrap k i + j) = kind_wrap k (i + j)" "kind_wrap k (i + kind_wrap k j) = kind_wrap k (i + j)"
  "kind_wrap k (kind_wrap k i * j) = kind_wrap k (i * j)" "kind_wrap k (i * kind_wrap k j) = kind_wrap k (i * j)"
  "kind_wrap k (kind_wrap k i) = kind_wrap k i"
  unfolding kind_wrap_eq_iff
  by (rule mod_add_cong mod_mult_cong; simp only: kind_wrap_mod | simp only: kind_wrap_mod)+

lemma val_int_inj: "vkind v = vkind w \<Longrightarrow> val_int v = val_int w \<Longrightarrow> v = w"
  using sint_eq_iff [of "vbits v" "vbits w"] word_uint_eq_iff [of "vbits v" "vbits w"]
  by (auto simp: val_eq_iff val_int_def split: if_splits)

lemma opn_fun_spec:
  assumes "a \<in> opn_carrier k op" "b \<in> opn_carrier k op"
  shows "opn_fun op a b \<in> opn_carrier k op"
    "op = ADDN \<Longrightarrow> val_int (opn_fun op a b) = kind_wrap k (val_int a + val_int b)"
    "op = MULN \<Longrightarrow> val_int (opn_fun op a b) = kind_wrap k (val_int a * val_int b)"
    "op = ANDN \<Longrightarrow> vbits (opn_fun op a b) = vbits a AND vbits b"
    "op = ORN \<Longrightarrow> vbits (opn_fun op a b) = vbits a OR vbits b"
    "op = XORN \<Longrightarrow> vbits (opn_fun op a b) = vbits a XOR vbits b"
    "op = MAXN \<Longrightarrow> val_int (opn_fun op a b) = max (val_int a) (val_int b)"
    "op = MINN \<Longrightarrow> val_int (opn_fun op a b) = min (val_int a) (val_int b)"
proof -
  have k: "foldable k op" "int_kind k" and a: "vkind a = k" "canonical a" and b: "vkind b = k" "canonical b"
    using assms by (auto simp: opn_carrier_def foldable_def)
  have ka: "int_kind (vkind a)" "vkind b = vkind a" using k a b by simp_all
  note w = val_arith_wraps [OF ka] and bw = val_bitwise_canonical [OF ka a(2) b(2)] and l = val_compare_eq(1) [OF ka]
  show "opn_fun op a b \<in> opn_carrier k op"
    using k(1) w(1,3) bw l a b
    by (cases op) (auto simp: opn_carrier_def foldable_def opn_fun_def val_opn_def wraps_to_def)
  show "op = ADDN \<Longrightarrow> val_int (opn_fun op a b) = kind_wrap k (val_int a + val_int b)"
    "op = MULN \<Longrightarrow> val_int (opn_fun op a b) = kind_wrap k (val_int a * val_int b)"
    using w a by (auto simp: opn_fun_def val_opn_def wraps_to_def)
  show "op = ANDN \<Longrightarrow> vbits (opn_fun op a b) = vbits a AND vbits b"
    "op = ORN \<Longrightarrow> vbits (opn_fun op a b) = vbits a OR vbits b"
    "op = XORN \<Longrightarrow> vbits (opn_fun op a b) = vbits a XOR vbits b"
    using bw by (auto simp: opn_fun_def val_opn_def)
  show "op = MAXN \<Longrightarrow> val_int (opn_fun op a b) = max (val_int a) (val_int b)"
    "op = MINN \<Longrightarrow> val_int (opn_fun op a b) = min (val_int a) (val_int b)"
    using l by (auto simp: opn_fun_def)
qed

lemma unsigned_not_int: "kind_is_unsigned k \<Longrightarrow> \<not> kind_is k [gInt]"
  by (auto simp: kind_is_unsigned_def kind_is_signed_def kind_is_def)

lemma scalar_not_kind_float: "int_kind k \<Longrightarrow> \<not> kind_is_float k"
proof -
  assume k: "int_kind k"
  then have "k \<in> set scalar_kinds" using kind_scalar by (simp add: int_kind_def)
  then show ?thesis using k by (auto simp: scalar_kinds_def kind_is_float_def int_kind_def)
qed

text \<open>The neutral elements of \<open>MAX\<close> and \<open>MIN\<close> on unsigned kinds.\<close>

lemma val_identity_max_min:
  assumes "int_kind k" "kind_is_unsigned k"
  shows "val_identity k MAXN = Some (mk_val k 0)" "val_identity k MINN = Some (mk_val k (mask (kind_bitsize k)))"
proof -
  have "drop_bit (64 - kind_bitsize k) (- 1 :: u64) = mask (kind_bitsize k)"
    using int_kind_bitsize [OF assms(1)] by (intro bit_word_eqI) (auto simp: bit_simps)
  with assms int_kind_not_float [OF assms(1)] int_kind_bitsize [OF assms(1)]
  show "val_identity k MAXN = Some (mk_val k 0)" "val_identity k MINN = Some (mk_val k (mask (kind_bitsize k)))"
    by (auto simp: val_identity_def is_bitwise_def val_min_def val_max_def val_zero_def kind_is_unsigned_def Let_def)
qed

lemma ext_word_unsigned: "kind_is_unsigned k \<Longrightarrow> ext_word k b = take_bit (kind_bitsize k) b"
  by (simp add: ext_word_def unsigned_not_int)

lemma opn_unit_spec:
  assumes "foldable k op"
  shows "val_identity k op = Some (opn_unit k op)" "opn_unit k op \<in> opn_carrier k op"
proof -
  have k: "int_kind k" "kind_bitsize k \<le> 64" using assms by (simp_all add: foldable_def int_kind_bitsize)
  have nf: "\<not> kind_is_float k" using k(1) by (rule scalar_not_kind_float)
  have "\<exists>v. val_identity k op = Some v \<and> v \<in> opn_carrier k op"
  proof (cases "op \<in> {MAXN, MINN}")
    case True
    then have u: "kind_is_unsigned k" using assms by (auto simp: foldable_def)
    with True val_identity_max_min [OF k(1) u] k(2) assms show ?thesis
      by (auto simp: opn_carrier_def canonical_iff ext_word_unsigned)
  next
    case False
    with assms nf show ?thesis
      using canonical_mk_ext [OF k(2), of 0]
      by (auto simp: foldable_def opn_carrier_def val_identity_def val_cast_uint64 canonical_mk_ext k)
  qed
  then show "val_identity k op = Some (opn_unit k op)" "opn_unit k op \<in> opn_carrier k op"
    by (auto simp: opn_unit_def)
qed

lemma val_int_unsigned_bound:
  assumes "int_kind (vkind v)" "kind_is_unsigned (vkind v)" "canonical v"
  shows "0 \<le> val_int v" "val_int v \<le> val_int (mk_val (vkind v) (mask (kind_bitsize (vkind v))))"
proof -
  let ?n = "kind_bitsize (vkind v)"
  have n: "?n \<le> 64" using assms(1) by (rule int_kind_bitsize)
  have "take_bit ?n (vbits v) = vbits v" using canonical_ext [OF assms(3,1)] assms(2) by (simp add: ext_word_unsigned)
  then have "vbits v = vbits v AND mask ?n" by (simp add: take_bit_eq_mask)
  then have "vbits v \<le> mask ?n" by (metis word_and_le1)
  then have "uint (vbits v) \<le> uint (mask ?n :: u64)" by (simp add: word_le_def)
  then show "0 \<le> val_int v" "val_int v \<le> val_int (mk_val (vkind v) (mask ?n))"
    using unsigned_not_int [OF assms(2)] by (simp_all add: val_int_def)
qed

lemma opn_neutral:
  assumes "x \<in> opn_carrier k op" shows "opn_fun op (opn_unit k op) x = x"
proof -
  have x: "foldable k op" "int_kind k" "vkind x = k" "canonical x"
    using assms by (auto simp: opn_carrier_def foldable_def)
  note e = opn_unit_spec [OF x(1)]
  show ?thesis
  proof (cases "op \<in> {MAXN, MINN}")
    case True
    then have u: "kind_is_unsigned k" using x(1) by (auto simp: foldable_def)
    have b: "0 \<le> val_int x" "val_int x \<le> val_int (mk_val k (mask (kind_bitsize k)))" "val_int (mk_val k 0) = 0"
      using val_int_unsigned_bound [of x] x u by (simp_all add: val_int_def)
    have "val_int (opn_fun op (opn_unit k op) x) = val_int x"
      using True opn_fun_spec(7,8) [OF e(2) assms] e(1) val_identity_max_min [OF x(2) u] b by auto
    with opn_fun_spec(1) [OF e(2) assms] x show ?thesis by (intro val_int_inj) (simp_all add: opn_carrier_def)
  next
    case False
    with x(1) have "op \<in> {ADDN, MULN, ANDN, ORN, XORN}" by (auto simp: foldable_def)
    with val_identity_left [of x op] x e(1) show ?thesis by (auto simp: opn_fun_def)
  qed
qed

lemma opn_assoc_comm:
  assumes "x \<in> opn_carrier k op" "y \<in> opn_carrier k op" "z \<in> opn_carrier k op"
  shows "opn_fun op (opn_fun op x y) z = opn_fun op x (opn_fun op y z)" "opn_fun op x y = opn_fun op y x"
proof -
  have k: "foldable k op" using assms by (simp add: opn_carrier_def)
  note s = opn_fun_spec(2-) [OF assms(1,2)] opn_fun_spec(2-) [OF assms(2,1)] opn_fun_spec(2-) [OF assms(2,3)]
  note c = opn_fun_spec(1) [OF assms(1,2)] opn_fun_spec(1) [OF assms(2,3)] opn_fun_spec(1) [OF assms(2,1)]
  note t = opn_fun_spec [OF c(1) assms(3)] opn_fun_spec [OF assms(1) c(2)]
  have kinds: "vkind (opn_fun op (opn_fun op x y) z) = vkind (opn_fun op x (opn_fun op y z))"
    "vkind (opn_fun op x y) = vkind (opn_fun op y x)"
    using c t by (simp_all add: opn_carrier_def)
  have "op \<in> {ADDN, MULN, MAXN, MINN} \<or> op \<in> {ANDN, ORN, XORN}" using k by (auto simp: foldable_def)
  then have "(val_int (opn_fun op (opn_fun op x y) z) = val_int (opn_fun op x (opn_fun op y z)) \<and>
      val_int (opn_fun op x y) = val_int (opn_fun op y x)) \<or>
    (vbits (opn_fun op (opn_fun op x y) z) = vbits (opn_fun op x (opn_fun op y z)) \<and>
      vbits (opn_fun op x y) = vbits (opn_fun op y x))"
    using s t
    by (elim disjE insertE emptyE) (simp_all add: kind_wrap_absorb ac_simps max.assoc max.commute min.assoc min.commute
        and.assoc and.commute or.assoc or.commute xor.assoc xor.commute)
  with kinds show "opn_fun op (opn_fun op x y) z = opn_fun op x (opn_fun op y z)" "opn_fun op x y = opn_fun op y x"
    by (metis val_int_inj val_eq_iff)+
qed

interpretation opn: monoid_on "opn_carrier k op" "opn_fun op" "opn_unit k op" for k op
proof
  show "x \<in> opn_carrier k op \<Longrightarrow> opn_unit k op \<in> opn_carrier k op" for x
    using opn_unit_spec(2) [of k op] by (simp add: opn_carrier_def)
qed (auto intro: opn_fun_spec(1) opn_neutral opn_assoc_comm)

lemma eval_fold_foldl:
  assumes "\<And>a b. a \<in> C \<Longrightarrow> b \<in> C \<Longrightarrow> f a b = Some (g a b) \<and> g a b \<in> C"
  shows "set vs \<subseteq> C \<Longrightarrow> x \<in> C \<Longrightarrow> eval_fold f vs x = Some (foldl g x vs)"
  using assms by (induction vs arbitrary: x) auto

lemma eval_max_min_foldl:
  assumes "set vs \<subseteq> opn_carrier k op" "x \<in> opn_carrier k op"
  shows "op = MAXN \<Longrightarrow> eval_max vs x = foldl (opn_fun op) x vs"
    "op = MINN \<Longrightarrow> eval_min vs x = foldl (opn_fun op) x vs"
proof -
  have v: "val_is_valid (val_less a b)" if "a \<in> opn_carrier k op" "b \<in> opn_carrier k op" for a b
    using that val_compare_eq(1) [of a b] by (auto simp: opn_carrier_def foldable_def val_is_valid_def)
  show "op = MAXN \<Longrightarrow> eval_max vs x = foldl (opn_fun op) x vs" "op = MINN \<Longrightarrow> eval_min vs x = foldl (opn_fun op) x vs"
    using assms
    by (induction vs arbitrary: x) (simp_all add: v opn_fun_def)
qed

lemma opn_fun_some:
  assumes "a \<in> opn_carrier k op" "b \<in> opn_carrier k op" "op \<notin> {MAXN, MINN}"
  shows "val_opn op a b = Some (opn_fun op a b) \<and> opn_fun op a b \<in> opn_carrier k op"
proof -
  have k: "int_kind (vkind a)" "vkind b = vkind a" "canonical a" "canonical b" "foldable k op"
    using assms by (auto simp: opn_carrier_def foldable_def)
  show ?thesis
    using assms(3) k(5) opn_fun_spec(1) [OF assms(1,2)] val_arith_wraps [OF k(1,2)] val_bitwise_canonical [OF k(1-4)]
    by (cases op) (auto simp: opn_fun_def val_opn_def wraps_to_def foldable_def)
qed

lemma eval_tuple_op_eq:
  assumes "foldable k op" "set vs \<subseteq> opn_carrier k op"
  shows "eval_tuple_op k op vs = Some (foldl (opn_fun op) (opn_unit k op) vs)"
proof (cases "op \<in> {MAXN, MINN}")
  case True
  with eval_max_min_foldl [OF assms(2) opn_unit_spec(2) [OF assms(1)]] opn_unit_spec [OF assms(1)]
  show ?thesis by (auto simp: eval_tuple_op_def)
next
  case False
  have "eval_fold (val_opn op) vs (opn_unit k op) = Some (foldl (opn_fun op) (opn_unit k op) vs)"
    using eval_fold_foldl [of "opn_carrier k op" "val_opn op" "opn_fun op"] opn_fun_some False assms(2)
      opn_unit_spec(2) [OF assms(1)] by blast
  moreover have "val_opn op = (case op of ADDN \<Rightarrow> val_add | MULN \<Rightarrow> val_mul | ANDN \<Rightarrow> val_and | ORN \<Rightarrow> val_or
      | XORN \<Rightarrow> val_xor | _ \<Rightarrow> (\<lambda>_ _. Some bad_value))"
    by (cases op) (auto simp: val_opn_def fun_eq_iff)
  ultimately show ?thesis
    using False assms(1) opn_unit_spec [OF assms(1)] by (auto simp: eval_tuple_op_def foldable_def)
qed

text \<open>The integer an operator reduces a list of integers to.\<close>

definition opn_reference :: "kind \<Rightarrow> opn \<Rightarrow> int list \<Rightarrow> int" where
  "opn_reference k op is =
     (case op of ADDN \<Rightarrow> kind_wrap k (sum_list is) | MULN \<Rightarrow> kind_wrap k (prod_list is)
      | ANDN \<Rightarrow> foldr (AND) is (kind_wrap k (- 1)) | ORN \<Rightarrow> foldr (OR) is 0 | XORN \<Rightarrow> foldr (XOR) is 0
      | MAXN \<Rightarrow> foldr max is 0 | MINN \<Rightarrow> foldr min is (2 ^ kind_bitsize k - 1) | _ \<Rightarrow> 0)"

lemma val_int_bitwise:
  assumes "vkind b = vkind a" "vkind c = vkind a"
  shows "vbits c = vbits a AND vbits b \<Longrightarrow> val_int c = val_int a AND val_int b"
    "vbits c = vbits a OR vbits b \<Longrightarrow> val_int c = val_int a OR val_int b"
    "vbits c = vbits a XOR vbits b \<Longrightarrow> val_int c = val_int a XOR val_int b"
  using assms
  by (auto simp: val_int_def signed_and_eq signed_or_eq signed_xor_eq unsigned_and_eq unsigned_or_eq unsigned_xor_eq)

lemma val_int_unit:
  assumes "foldable k op" shows "val_int (opn_unit k op) = opn_reference k op []"
proof (cases "op \<in> {MAXN, MINN}")
  case True
  with assms have u: "int_kind k" "kind_is_unsigned k" by (auto simp: foldable_def)
  have "uint (mask (kind_bitsize k) :: u64) = mask (kind_bitsize k)"
    using int_kind_bitsize [OF u(1)] by (intro bit_eqI) (auto simp: bit_simps)
  then have "uint (mask (kind_bitsize k) :: u64) = 2 ^ kind_bitsize k - 1" by (simp add: mask_eq_exp_minus_1)
  with True val_identity_max_min [OF u] opn_unit_spec(1) [OF assms] unsigned_not_int [OF u(2)]
  show ?thesis by (auto simp: opn_reference_def val_int_def)
next
  case False
  have k: "int_kind k" "kind_bitsize k \<le> 64" "\<not> kind_is_float k"
    using assms by (simp_all add: foldable_def int_kind_bitsize scalar_not_kind_float)
  have w: "kind_wrap k 0 = 0" by (simp add: kind_wrap_def)
  have m: "kind_wrap k (uint (- 1 :: u64)) = kind_wrap k (- 1)"
    by (rule kind_wrap_cong [OF k(2)]) (simp add: unsigned_minus_1_eq_mask mask_eq_exp_minus_1)
  from False assms opn_unit_spec(1) [OF assms] k val_int_mk_ext [OF k(2), of 0] val_int_mk_ext [OF k(2), of 1]
    val_int_mk_ext [OF k(2), of "- 1"] w m
  show ?thesis by (auto simp: foldable_def val_identity_def val_cast_uint64 opn_reference_def)
qed

lemma opn_reference_Cons:
  assumes "foldable k op"
  shows "opn_reference k op (i # is) =
    (case op of ADDN \<Rightarrow> kind_wrap k (i + opn_reference k op is) | MULN \<Rightarrow> kind_wrap k (i * opn_reference k op is)
     | ANDN \<Rightarrow> i AND opn_reference k op is | ORN \<Rightarrow> i OR opn_reference k op is | XORN \<Rightarrow> i XOR opn_reference k op is
     | MAXN \<Rightarrow> max i (opn_reference k op is) | MINN \<Rightarrow> min i (opn_reference k op is))"
  using assms by (cases op) (auto simp: foldable_def opn_reference_def kind_wrap_absorb)

lemma fold_reference:
  assumes "foldable k op"
  shows "set vs \<subseteq> opn_carrier k op \<Longrightarrow>
    val_int (foldl (opn_fun op) (opn_unit k op) vs) = opn_reference k op (map val_int vs)"
proof (induction vs)
  case Nil
  then show ?case using val_int_unit [OF assms] by simp
next
  case (Cons v vs)
  let ?r = "foldl (opn_fun op) (opn_unit k op) vs"
  have v: "v \<in> opn_carrier k op" "set vs \<subseteq> opn_carrier k op" using Cons.prems by simp_all
  then have r: "?r \<in> opn_carrier k op" by (intro opn.fold_closed opn.unit)
  note s = opn_fun_spec [OF v(1) r]
  have "vkind ?r = vkind v" "vkind (opn_fun op v ?r) = vkind v"
    using v(1) r s(1) by (simp_all add: opn_carrier_def)
  then have "val_int (opn_fun op v ?r) = opn_reference k op (val_int v # map val_int vs)"
    unfolding opn_reference_Cons [OF assms] using s(2-) Cons.IH [OF v(2)] assms val_int_bitwise [of ?r v "opn_fun op v ?r"]
    by (auto simp: foldable_def)
  then show ?case using opn.fold_Cons [OF v(2,1)] by simp
qed

subsection \<open>Evaluation of well-kinded expressions\<close>

fun total_ops :: "node \<Rightarrow> bool" where
  "total_ops (Node h off ind d ks) \<longleftrightarrow>
     list_all total_ops ks \<and> (htype h = BINARY \<longrightarrow> \<not> partial_op (node_op2 (Node h off ind d ks)))"

fun closed_expr :: "node \<Rightarrow> bool" where
  "closed_expr (Node h off ind d ks) \<longleftrightarrow> list_all closed_expr ks \<and> htype h \<noteq> VAR"

declare total_ops.simps [simp del] closed_expr.simps [simp del]

lemma wk_expr: "wk n \<Longrightarrow> as_expr n = n"
  by (cases n; cases "nty n") (simp_all add: wk.simps Let_def as_expr_def downcast_def is_expr_type_def)

lemma wk_kind: "wk n \<Longrightarrow> int_kind (nkind n) \<and> nkind n \<noteq> eBad"
  by (cases n) (auto simp: wk.simps Let_def)

lemma wk_kids: "wk n \<Longrightarrow> x \<in> set (nkids n) \<Longrightarrow> wk x"
  by (cases n) (auto simp: wk.simps Let_def list_all_iff)

lemma wk_cases [consumes 1, case_names VAR CONST UNARY BINARY TUPLE]:
  assumes "wk n"
  obtains "nty n = VAR" "nkids n = []" "local_kind (node_local n) = nkind n"
  | "nty n = CONSTN" "nkids n = []" "vkind (const_val n) = nkind n" "canonical (const_val n)"
  | x where "nty n = UNARY" "nkids n = [x]" "wk x" "wk_unary (node_op1 n) (nkind n) (nkind x)"
  | x y where "nty n = BINARY" "nkids n = [x, y]" "wk x" "wk y" "nkind y = nkind x"
      "wk_binary (node_op2 n) (nkind n) (nkind x)"
  | "nty n = TUPLE" "foldable (nkind n) (node_opn n)" "\<And>x. x \<in> set (nkids n) \<Longrightarrow> wk x \<and> nkind x = nkind n"
proof (cases n)
  case (Node h off ind d ks)
  then show ?thesis
    using assms that
    by (cases "htype h") (auto simp: wk.simps Let_def list_all_iff length_Suc_conv numeral_2_eq_2)
qed

lemma ev_eqs:
  "nty n = VAR \<Longrightarrow> ev env n = Some (env (node_local n))"
  "nty n = CONSTN \<Longrightarrow> ev env n = Some (const_val n)"
  "nty n = UNARY \<Longrightarrow> nkids n = [x] \<Longrightarrow> ev env n = Option.bind (ev env x) (eval_unary_op (nkind n) (node_op1 n))"
  "nty n = BINARY \<Longrightarrow> nkids n = [x, y] \<Longrightarrow>
    ev env n = Option.bind (ev env x) (\<lambda>v. ev_and_or (node_op2 n) v (ev env y))"
  "nty n = TUPLE \<Longrightarrow>
    ev env n = Option.bind (those (map (ev env) (nkids n))) (eval_tuple_op (nkind n) (node_opn n))"
  by (cases n; simp add: ev.simps Let_def)+

lemma those_Some: "those rs = Some vs \<longleftrightarrow> rs = map Some vs"
proof (induction rs arbitrary: vs)
  case (Cons r rs)
  then show ?case by (cases r; cases vs) (auto split: option.splits)
qed auto

lemma those_map: "those (map f xs) = (if \<exists>x\<in>set xs. f x = None then None else Some (map (the \<circ> f) xs))"
proof (induction xs)
  case (Cons x xs)
  then show ?case by (cases "f x") auto
qed simp

lemma env_okD: "env_ok env \<Longrightarrow> int_kind (local_kind l) \<Longrightarrow> vkind (env l) = local_kind l \<and> canonical (env l)"
  by (simp add: env_ok_def)

lemma ev_and_or_kind:
  assumes "int_kind (vkind x)" "canonical x" "wk_binary op k (vkind x)"
    and "\<And>y. ry = Some y \<Longrightarrow> vkind y = vkind x \<and> canonical y"
  shows "ev_and_or op x ry = Some v \<Longrightarrow> vkind v = k \<and> canonical v"
    "\<not> partial_op op \<Longrightarrow> ry \<noteq> None \<Longrightarrow> ev_and_or op x ry \<noteq> None"
proof -
  show "vkind v = k \<and> canonical v" if "ev_and_or op x ry = Some v"
  proof (cases "op = LAND \<and> x = val_bool False \<or> op = LOR \<and> x = val_bool True")
    case True
    with that assms(3) show ?thesis by (auto simp: ev_and_or_def wk_binary_def)
  next
    case False
    with that obtain y where "ry = Some y" "eval_binary_op op x y = Some v"
      by (auto simp: ev_and_or_def bind_eq_Some_conv)
    with eval_binary_kind [OF assms(1,2) _ _ assms(3), of y] assms(4) show ?thesis by (auto simp: has_kind_def)
  qed
  show "ev_and_or op x ry \<noteq> None" if total: "\<not> partial_op op" and some: "ry \<noteq> None"
  proof -
    from some obtain y where "ry = Some y" by auto
    with eval_binary_kind [OF assms(1,2) _ _ assms(3), of y] assms(4) total show ?thesis
      by (auto simp: ev_and_or_def has_kind_def split: option.splits)
  qed
qed

lemma tuple_args:
  assumes "\<And>x. x \<in> set xs \<Longrightarrow> nkind x = k \<and> (\<forall>v. ev env x = Some v \<longrightarrow> vkind v = nkind x \<and> canonical v)"
    and "foldable k op" "those (map (ev env) xs) = Some vs"
  shows "set vs \<subseteq> opn_carrier k op"
proof
  fix v assume "v \<in> set vs"
  then have "Some v \<in> set (map (ev env) xs)" using assms(3) by (simp add: those_Some)
  then show "v \<in> opn_carrier k op" using assms(1,2) by (fastforce simp: opn_carrier_def)
qed

lemma ev_kind: "wk n \<Longrightarrow> env_ok env \<Longrightarrow> ev env n = Some v \<Longrightarrow> vkind v = nkind n \<and> canonical v"
proof (induction n arbitrary: v)
  case (Node h off ind d ks)
  let ?n = "Node h off ind d ks"
  have IH: "wk x \<Longrightarrow> ev env x = Some v \<Longrightarrow> vkind v = nkind x \<and> canonical v" if "x \<in> set (nkids ?n)" for x v
    using Node.IH [of x v] Node.prems(2) that by simp
  note k = wk_kind [OF Node.prems(1)] and prems = Node.prems
  show ?case
    using prems(1)
  proof (cases rule: wk_cases)
    case VAR
    then show ?thesis using ev_eqs(1) [OF VAR(1)] prems(2,3) k env_okD by auto
  next
    case CONST
    then show ?thesis using ev_eqs(2) [OF CONST(1)] prems(3) by simp
  next
    case (UNARY x)
    then obtain vx where "ev env x = Some vx" "eval_unary_op (nkind ?n) (node_op1 ?n) vx = Some v"
      using ev_eqs(3) [OF UNARY(1,2)] prems(3) by (auto simp: bind_eq_Some_conv)
    moreover from this have "vkind vx = nkind x" "canonical vx" using IH [of x vx] UNARY by simp_all
    then have "has_kind (nkind ?n) (eval_unary_op (nkind ?n) (node_op1 ?n) vx)"
      using UNARY k wk_kind [OF UNARY(3)] by (intro eval_unary_kind) simp_all
    ultimately show ?thesis by (metis has_kindD option.inject)
  next
    case (BINARY x y)
    then obtain vx where vx: "ev env x = Some vx" "ev_and_or (node_op2 ?n) vx (ev env y) = Some v"
      using ev_eqs(4) [OF BINARY(1,2)] prems(3) by (auto simp: bind_eq_Some_conv)
    have x: "vkind vx = nkind x" "canonical vx" using IH [of x vx] vx(1) BINARY by simp_all
    show ?thesis
    proof (rule ev_and_or_kind(1) [OF _ x(2) _ _ vx(2)])
      show "int_kind (vkind vx)" "wk_binary (node_op2 ?n) (nkind ?n) (vkind vx)"
        using x BINARY wk_kind [OF BINARY(3)] by simp_all
      show "vkind w = vkind vx \<and> canonical w" if "ev env y = Some w" for w
        using IH [of y w] that BINARY x(1) by simp
    qed
  next
    case TUPLE
    then obtain vs where vs: "those (map (ev env) (nkids ?n)) = Some vs" "eval_tuple_op (nkind ?n) (node_opn ?n) vs = Some v"
      using ev_eqs(5) [OF TUPLE(1)] prems(3) by (auto simp: bind_eq_Some_conv)
    then have c: "set vs \<subseteq> opn_carrier (nkind ?n) (node_opn ?n)"
      using tuple_args [of "nkids ?n" "nkind ?n" env] TUPLE IH by blast
    from eval_tuple_op_eq [OF TUPLE(2) c] opn.fold_closed [OF c opn_unit_spec(2) [OF TUPLE(2)]] vs(2)
    show ?thesis by (auto simp: opn_carrier_def)
  qed
qed

lemma ev_total: "wk n \<Longrightarrow> env_ok env \<Longrightarrow> total_ops n \<Longrightarrow> \<exists>v. ev env n = Some v"
proof (induction n)
  case (Node h off ind d ks)
  let ?n = "Node h off ind d ks"
  have tk: "\<And>x. x \<in> set ks \<Longrightarrow> total_ops x" "nty ?n = BINARY \<Longrightarrow> \<not> partial_op (node_op2 ?n)"
    using Node.prems(3) by (simp_all add: total_ops.simps list_all_iff)
  have IH: "wk x \<Longrightarrow> \<exists>v. ev env x = Some v \<and> vkind v = nkind x \<and> canonical v" if "x \<in> set (nkids ?n)" for x
    using Node.IH [of x] Node.prems(2) tk that ev_kind [of x env] by auto
  note k = wk_kind [OF Node.prems(1)]
  show ?case
    using Node.prems(1)
  proof (cases rule: wk_cases)
    case (UNARY x)
    then obtain vx where vx: "ev env x = Some vx" "vkind vx = nkind x" "canonical vx" using IH [of x] by auto
    then have "has_kind (nkind ?n) (eval_unary_op (nkind ?n) (node_op1 ?n) vx)"
      using UNARY k wk_kind [OF UNARY(3)] by (intro eval_unary_kind) simp_all
    with has_kindD obtain w where "eval_unary_op (nkind ?n) (node_op1 ?n) vx = Some w" by blast
    with vx show ?thesis using ev_eqs(3) [OF UNARY(1,2)] by simp
  next
    case (BINARY x y)
    then obtain vx vy where v: "ev env x = Some vx" "vkind vx = nkind x" "canonical vx"
      "ev env y = Some vy" "vkind vy = nkind x" "canonical vy"
      using IH [of x] IH [of y] by auto
    then have "ev_and_or (node_op2 ?n) vx (ev env y) \<noteq> None"
      using BINARY wk_kind [OF BINARY(3)] tk(2) [OF BINARY(1)] by (intro ev_and_or_kind(2)) simp_all
    with v show ?thesis using ev_eqs(4) [OF BINARY(1,2)] by auto
  next
    case TUPLE
    then have "\<not> (\<exists>x\<in>set (nkids ?n). ev env x = None)" using IH by fastforce
    then obtain vs where vs: "those (map (ev env) (nkids ?n)) = Some vs" by (simp add: those_map)
    then have "set vs \<subseteq> opn_carrier (nkind ?n) (node_opn ?n)"
      using tuple_args [of "nkids ?n" "nkind ?n" env] TUPLE ev_kind Node.prems(2) by blast
    from eval_tuple_op_eq [OF TUPLE(2) this] vs ev_eqs(5) [OF TUPLE(1)] show ?thesis by simp
  qed (use ev_eqs in blast)+
qed

lemma eval_args_eq:
  assumes "foldable (nkind n) (node_opn n)" "nkind n \<noteq> eBad"
    and "\<And>j w. j < children n \<Longrightarrow> eval_const (as_expr (child n j)) = Some w \<Longrightarrow>
      w \<in> opn_carrier (nkind n) (node_opn n)"
  shows "v \<in> opn_carrier (nkind n) (node_opn n) \<Longrightarrow>
    eval_args n i v = map_option (foldl (opn_fun (node_opn n)) v)
      (those (map (\<lambda>j. eval_const (as_expr (child n j))) [i..<children n]))"
proof (induction "children n - i" arbitrary: i v)
  case 0
  then show ?case by (simp add: eval_args.simps)
next
  case (Suc m)
  let ?k = "nkind n" and ?op = "node_opn n"
  have i: "i < children n" "[i..<children n] = i # [Suc i..<children n]" using Suc(2) by (simp_all add: upt_rec)
  have v: "val_is_valid v" using Suc.prems assms(2) by (auto simp: opn_carrier_def val_is_valid_def)
  show ?case
  proof (cases "eval_const (as_expr (child n i))")
    case None
    then show ?thesis using i v by (simp add: eval_args.simps [of n i])
  next
    case (Some w)
    then have w: "w \<in> opn_carrier ?k ?op" using assms(3) i(1) by blast
    then have "eval_tuple_op ?k ?op [v, w] = Some (opn_fun ?op v w)"
      using eval_tuple_op_eq [OF assms(1), of "[v, w]"] Suc.prems by (simp add: opn.neutral)
    then have "eval_args n i v = eval_args n (Suc i) (opn_fun ?op v w)"
      using i(1) v Some by (simp add: eval_args.simps [of n i])
    also have "\<dots> = map_option (foldl (opn_fun ?op) (opn_fun ?op v w))
      (those (map (\<lambda>j. eval_const (as_expr (child n j))) [Suc i..<children n]))"
      using Suc(1) [of "Suc i"] Suc(2) Suc.prems w by (simp add: opn.closed)
    finally show ?thesis using i(2) Some
      by (simp add: option.map_comp comp_def)
  qed
qed

lemma eval_const_eqs:
  "nty n = UNARY \<Longrightarrow> eval_const n = Option.bind (eval_const (as_expr (child n 0))) (eval_unary_op (nkind n) (node_op1 n))"
  "nty n = BINARY \<Longrightarrow> eval_const n = Option.bind (eval_const (as_expr (child n 0))) (\<lambda>x.
     Option.bind (eval_const (as_expr (child n 1))) (\<lambda>y. eval_binary_op (node_op2 n) x y))"
  "nty n = CONSTN \<Longrightarrow> eval_const n = Some (const_val n)"
  "nty n = TUPLE \<Longrightarrow> is_arithmetic (node_opn n) \<Longrightarrow>
     eval_const n = Option.bind (val_identity (nkind n) (node_opn n)) (eval_args n 0)"
  by (subst eval_const.simps; simp)+

lemma eval_and_or:
  assumes "int_kind (vkind x)" "canonical x" "canonical y" "vkind y = vkind x" "op \<in> {LAND, LOR} \<longrightarrow> vkind x = eBool"
  shows "ev_and_or op x (Some y) = eval_binary_op op x y"
  using assms val_bool_cases [of x] val_bool_cases [of y]
  by (cases op) (auto simp: ev_and_or_def eval_binary_op_def val_land_def val_lor_def val_eq_iff)

lemma foldable_arithmetic: "foldable k op \<Longrightarrow> is_arithmetic op"
  by (auto simp: foldable_def is_arithmetic_def)

lemma eval_const_ev_total:
  assumes "env_ok env"
  shows "wk n \<Longrightarrow> closed_expr n \<Longrightarrow>
    (\<forall>v. eval_const n = Some v \<longrightarrow> ev env n = Some v) \<and> (total_ops n \<longrightarrow> eval_const n \<noteq> None)"
proof (induction n)
  case (Node h off ind d ks)
  let ?n = "Node h off ind d ks"
  have sub: "closed_expr x" "total_ops ?n \<Longrightarrow> total_ops x" if "x \<in> set (nkids ?n)" for x
    using Node.prems(2) that by (simp_all add: closed_expr.simps total_ops.simps list_all_iff)
  have IH: "eval_const x = Some v \<Longrightarrow> ev env x = Some v \<and> vkind v = nkind x \<and> canonical v"
      "total_ops ?n \<Longrightarrow> eval_const x \<noteq> None" if "x \<in> set (nkids ?n)" "wk x" for x v
    using Node.IH [of x] that sub [OF that(1)] ev_kind [OF that(2) assms] by auto
  note k = wk_kind [OF Node.prems(1)]
  show ?case
    using Node.prems(1)
  proof (cases rule: wk_cases)
    case VAR
    then show ?thesis using Node.prems(2) by (simp add: closed_expr.simps)
  next
    case CONST
    then show ?thesis using ev_eqs(2) [OF CONST(1)] eval_const_eqs(3) [OF CONST(1)] by simp
  next
    case (UNARY x)
    have c: "as_expr (child ?n 0) = x" using UNARY wk_expr by simp
    have d: "eval_unary_op (nkind ?n) (node_op1 ?n) v \<noteq> None" if "eval_const x = Some v" for v
      using IH(1) [OF _ UNARY(3) that] UNARY k wk_kind [OF UNARY(3)] eval_unary_kind [of v "nkind ?n" "node_op1 ?n"]
      by (auto simp: has_kind_def split: option.splits)
    show ?thesis
      using eval_const_eqs(1) [OF UNARY(1)] ev_eqs(3) [OF UNARY(1,2)] IH [of x] d UNARY(2,3) unfolding c
      by (auto simp: bind_eq_Some_conv)
  next
    case (BINARY x y)
    have c: "as_expr (child ?n 0) = x" "as_expr (child ?n 1) = y"
      using BINARY wk_expr by (simp_all add: child_def children_def)
    note e = eval_const_eqs(2) [OF BINARY(1), unfolded c] and r = ev_eqs(4) [OF BINARY(1,2), of env]
    have op: "node_op2 ?n \<in> {LAND, LOR} \<longrightarrow> nkind x = eBool"
      using BINARY(6) by (auto simp: wk_binary_def)
    have xy: "ev env x = Some vx \<and> ev env y = Some vy \<and> vkind vx = nkind x \<and> vkind vy = nkind x \<and> canonical vx \<and> canonical vy"
      if "eval_const x = Some vx" "eval_const y = Some vy" for vx vy
      using IH(1) [of x vx] IH(1) [of y vy] that BINARY by simp
    have "ev env ?n = Some v" if v: "eval_const ?n = Some v" for v
    proof -
      from v obtain vx vy where w: "eval_const x = Some vx" "eval_const y = Some vy" "eval_binary_op (node_op2 ?n) vx vy = Some v"
        unfolding e by (auto simp: bind_eq_Some_conv)
      note q = xy [OF w(1,2)]
      have "ev_and_or (node_op2 ?n) vx (Some vy) = eval_binary_op (node_op2 ?n) vx vy"
        using q op wk_kind [OF BINARY(3)] by (intro eval_and_or) simp_all
      with q w(3) show ?thesis unfolding r by simp
    qed
    moreover have "eval_const ?n \<noteq> None" if t: "total_ops ?n"
    proof -
      obtain vx vy where w: "eval_const x = Some vx" "eval_const y = Some vy"
        using IH(2) [of x] IH(2) [of y] t BINARY by auto
      note q = xy [OF w]
      have "\<not> partial_op (node_op2 ?n)" using t BINARY(1) by (simp add: total_ops.simps)
      then have "has_kind (nkind ?n) (eval_binary_op (node_op2 ?n) vx vy)"
        using q BINARY wk_kind [OF BINARY(3)] by (intro eval_binary_kind) simp_all
      with w show ?thesis unfolding e by (auto simp: has_kind_def split: option.splits)
    qed
    ultimately show ?thesis by blast
  next
    case TUPLE
    let ?k = "nkind ?n" and ?op = "node_opn ?n" and ?ks = "nkids ?n"
    have kid: "x \<in> set ?ks \<Longrightarrow> as_expr x = x" for x using TUPLE(3) wk_expr by blast
    have cs: "map (\<lambda>j. eval_const (as_expr (child ?n j))) [0..<children ?n] = map eval_const ?ks"
      using kid by (intro nth_equalityI) (simp_all add: children_def child_def)
    have cr: "w \<in> opn_carrier ?k ?op" if j: "j < children ?n" and w: "eval_const (as_expr (child ?n j)) = Some w" for j w
    proof -
      have m: "?ks ! j \<in> set ?ks" "child ?n j = ?ks ! j" using j by (simp_all add: children_def child_def)
      then show ?thesis using IH(1) [OF m(1), of w] TUPLE(2) TUPLE(3) [OF m(1)] w kid by (simp add: opn_carrier_def)
    qed
    have args: "eval_args ?n 0 (opn_unit ?k ?op) =
        map_option (foldl (opn_fun ?op) (opn_unit ?k ?op)) (those (map eval_const ?ks))"
      unfolding cs [symmetric] using k by (intro eval_args_eq TUPLE(2) cr opn_unit_spec(2)) simp_all
    have e: "eval_const ?n = map_option (foldl (opn_fun ?op) (opn_unit ?k ?op)) (those (map eval_const ?ks))"
      using eval_const_eqs(4) [OF TUPLE(1) foldable_arithmetic [OF TUPLE(2)]] opn_unit_spec(1) [OF TUPLE(2)] args by simp
    have "ev env ?n = Some v" if v: "eval_const ?n = Some v" for v
    proof -
      from v obtain vs where vs: "map eval_const ?ks = map Some vs" "v = foldl (opn_fun ?op) (opn_unit ?k ?op) vs"
        unfolding e by (auto simp: those_Some)
      have l: "length vs = length ?ks" using vs(1) by (metis length_map)
      have "ev env (?ks ! i) = Some (vs ! i)" if "i < length ?ks" for i
      proof -
        have "eval_const (?ks ! i) = Some (vs ! i)" using vs(1) l that by (metis nth_map)
        then show ?thesis using IH(1) [of "?ks ! i" "vs ! i"] TUPLE(3) [of "?ks ! i"] that by simp
      qed
      then have r: "those (map (ev env) ?ks) = Some vs"
        using l by (auto simp: those_Some intro!: nth_equalityI)
      then have "set vs \<subseteq> opn_carrier ?k ?op"
        using tuple_args [of ?ks ?k env] TUPLE ev_kind [OF _ assms] by blast
      from eval_tuple_op_eq [OF TUPLE(2) this] r vs(2) show ?thesis using ev_eqs(5) [OF TUPLE(1), of env] by simp
    qed
    moreover have "eval_const ?n \<noteq> None" if "total_ops ?n"
    proof -
      have "\<not> (\<exists>x\<in>set ?ks. eval_const x = None)" using IH(2) that TUPLE(3) by blast
      then show ?thesis unfolding e by (simp add: those_map)
    qed
    ultimately show ?thesis by blast
  qed
qed

subsection \<open>Properties\<close>




text \<open>The constants made of small numbers.\<close>

lemma scalar_nosimd: "k < 16 \<Longrightarrow> kind_nosimd k = k"
  using kind_scalar [of k] by (auto simp: scalar_kinds_def kind_nosimd_def)

lemma const_small_val:
  assumes "k < 16" "eVoid < k"
  shows "const_val (const_small k w) = mk_val k (ucast w)" "nhead (const_small k w) = const_header k"
proof -
  have "unat (ucast w :: u64) < 2 ^ 16"
    using unsigned_less [of w, where ?'a = nat] by (simp add: unsigned_ucast_eq take_bit_nat_eq_self)
  then have "(ucast w :: u64) \<le> 0x7FFFFF" by (simp add: word_le_nat_alt)
  then have "imm_can_direct k (ucast w) 0 0" by (simp add: imm_can_direct_def imm_rrot_def)
  with assms imm_make_direct_round_trip(1) [of k "ucast w" 0 0]
  show "const_val (const_small k w) = mk_val k (ucast w)" "nhead (const_small k w) = const_header k"
    by (simp_all add: const_val_def const_small_def scalar_nosimd)
qed

text \<open>An example: the sum of a variable and a constant.\<close>

definition example_var :: node where
  "example_var = var_direct (local_make eInt16 0x1000)"

definition example_sum :: node where
  "example_sum = Node (mk_header TUPLE eInt16 (opn_code ADDN)) 0 True [] [example_var, const_small eInt16 5]"

definition zero_env :: env where
  "zero_env l = mk_val (local_kind l) 0"

lemma zero_env_ok: "env_ok zero_env"
  by (simp add: env_ok_def zero_env_def canonical_iff int_kind_bitsize)

lemma example_var_spec: "local_kind (node_local example_var) = eInt16" "nhead example_var = mk_header VAR eInt16 0"
  by (simp_all add: example_var_def var_direct_def node_local_def var_header_def local_make_def local_kind_def
      local_direct_def local_parse_direct_def)

lemma example_wk: "wk example_sum" "total_ops example_sum" "is_const example_sum"
proof -
  have "canonical (mk_val eInt16 5)" by (simp add: canonical_iff ext_word_def)
  then have k: "wk example_var" "wk (const_small eInt16 5)" "nkind example_var = eInt16" "nkind (const_small eInt16 5) = eInt16"
      "total_ops example_var" "total_ops (const_small eInt16 5)"
    using const_small_val [of eInt16 5] example_var_spec
    by (cases example_var; cases "const_small eInt16 5"; simp add: wk.simps total_ops.simps const_header_def Let_def
        const_small_def example_var_def var_direct_def)+
  then show "wk example_sum" "total_ops example_sum" "is_const example_sum"
    by (simp_all add: example_sum_def wk.simps total_ops.simps Let_def foldable_def is_const.simps is_arithmetic_def)
qed



definition example_const :: node where
  "example_const = Node (mk_header TUPLE eInt16 (opn_code ADDN)) 0 True [] [const_small eInt16 5, const_small eInt16 7]"


text \<open>\<open>is_const\<close> says that every arithmetic tuple is constant, whatever its arguments: it accepts the sum of a
  variable and a constant, which \<open>eval_const\<close> does not evaluate.\<close>

theorem is_const_accepts_variables:
  "is_const example_sum \<and> eval_const example_sum = Some bad_value"
proof -
  have v: "eval_const example_var = Some bad_value"
    by (simp add: eval_const.simps [of example_var] example_var_spec)
  have e: "as_expr example_var = example_var"
    by (simp add: as_expr_def downcast_def is_expr_type_def example_var_spec)
  have s: "nkids example_sum = [example_var, const_small eInt16 5]" "nhead example_sum = mk_header TUPLE eInt16 1"
    by (simp_all add: example_sum_def)
  have op: "node_opn example_sum = ADDN" by (simp add: s)
  have id: "val_identity eInt16 ADDN = Some (mk_val eInt16 0)"
    by (simp add: val_identity_def is_bitwise_def val_cast_uint64)
  have "eval_tuple_op eInt16 ADDN [mk_val eInt16 0, bad_value] = Some bad_value"
    by (simp add: eval_tuple_op_def id val_add_def val_arith_def bad_value_def extend_or_truncate_eq ext_word_def)
  then have "eval_args example_sum 0 (mk_val eInt16 0) = Some bad_value"
    by (simp add: eval_args.simps [of _ 0] eval_args.simps [of _ "Suc 0"] s op v e children_def child_def
        val_is_valid_def bad_value_def)
  then have "eval_const example_sum = Some bad_value"
    using eval_const_eqs(4) [of example_sum] by (simp add: s op id is_arithmetic_def)
  then show ?thesis using example_wk(3) by simp
qed

end
