(* ===== verification/Deep.thy ===== *)
theory Deep imports Eval begin

text \<open>
  The recursive comparisons of nodes, \<open>src/onejit/ir/node.cpp\<close> and \<open>ir/allow.hpp\<close>: \<open>deep_equal\<close>, \<open>deep_compare\<close> and
  \<open>deep_pure\<close>. The lemmas show that on the nodes a \<open>Code\<close> holds the comparison is a total preorder, as
  \<open>std::sort\<close> requires, whose equivalence is \<open>deep_equal\<close>; and that expressions of kinds of at most 16 bits
  that are deep-equal have the same meaning. On wider kinds they need not: the data of a leaf that has no
  direct encoding is never compared.
\<close>

subsection \<open>Definitions\<close>

abbreviation "AllowDivision \<equiv> (1 :: u8)"
abbreviation "AllowMemAccess \<equiv> (2 :: u8)"
abbreviation "AllowCall \<equiv> (4 :: u8)"
abbreviation "AllowAll \<equiv> (255 :: u8)"

definition is_allowed :: "ntype \<Rightarrow> u16 \<Rightarrow> u8 \<Rightarrow> bool" where
  "is_allowed t op allow \<longleftrightarrow>
     (allow AND AllowDivision \<noteq> 0 \<or> t \<noteq> BINARY \<or> op < op2_code QUO \<or> op > op2_code REM) \<and>
     (allow AND AllowMemAccess \<noteq> 0 \<or> t \<noteq> MEM) \<and>
     (allow AND AllowCall \<noteq> 0 \<or> t \<noteq> TUPLE \<or> op \<noteq> opn_code CALL)"

text \<open>All nodes are in one \<open>Code\<close>: the pointers of two indirect nodes are equal.\<close>

fun deep_equal :: "u8 \<Rightarrow> node \<Rightarrow> node \<Rightarrow> bool" where
  "deep_equal allow (Node h off ind d ks) other \<longleftrightarrow>
     ind = nind other \<and> h = nhead other \<and> is_allowed (htype h) (hop h) allow \<and>
     (if \<not> ind then off = noff other
      else off = noff other \<or> list_all2 (deep_equal allow) ks (nkids other))"

definition compare_nat :: "nat \<Rightarrow> nat \<Rightarrow> int" where
  "compare_nat a b = (if a < b then - 1 else if a > b then 1 else 0)"

text \<open>The loop over the children up to the smaller number, then the comparison of the numbers.\<close>

fun deep_compare :: "node \<Rightarrow> node \<Rightarrow> int"
  and compare_kids :: "node list \<Rightarrow> node list \<Rightarrow> int" where
  "deep_compare (Node h off ind d ks) (Node h' off' ind' d' ks') =
     (if h \<noteq> h' then (if header_less h h' then - 1 else 1)
      else if ind \<noteq> ind' then (if \<not> ind then - 1 else 1)
      else if \<not> ind then compare_nat (unat off) (unat off')
      else if off = off' then 0
      else compare_kids ks ks')"
| "compare_kids [] ks = compare_nat 0 (length ks)"
| "compare_kids ks [] = compare_nat (length ks) 0"
| "compare_kids (k # ks) (l # ls) = (let cmp = deep_compare k l in if cmp \<noteq> 0 then cmp else compare_kids ks ls)"

fun deep_pure :: "u8 \<Rightarrow> node \<Rightarrow> bool" where
  "deep_pure allow (Node h off ind d ks) \<longleftrightarrow>
     (let t = htype h
      in if t = VAR \<or> ntype_code t \<ge> ntype_code LABEL then True
         else if ntype_code t \<le> ntype_code STMT_N \<or> \<not> is_allowed t (hop h) allow then False
         else list_all (deep_pure allow) ks)"

declare deep_equal.simps [simp del] deep_compare.simps [simp del] compare_kids.simps [simp del] deep_pure.simps [simp del]

lemma deep_equal_unfold:
  "deep_equal allow a b \<longleftrightarrow> nind a = nind b \<and> nhead a = nhead b \<and> is_allowed (nty a) (nop a) allow \<and>
     (if \<not> nind a then noff a = noff b
      else noff a = noff b \<or> list_all2 (deep_equal allow) (nkids a) (nkids b))"
  by (cases a) (simp add: deep_equal.simps)

lemma deep_compare_unfold:
  "deep_compare a b =
     (if nhead a \<noteq> nhead b then (if header_less (nhead a) (nhead b) then - 1 else 1)
      else if nind a \<noteq> nind b then (if \<not> nind a then - 1 else 1)
      else if \<not> nind a then compare_nat (unat (noff a)) (unat (noff b))
      else if noff a = noff b then 0 else compare_kids (nkids a) (nkids b))"
  by (cases a; cases b) (simp add: deep_compare.simps)

subsection \<open>A node is determined by its reference\<close>

lemma node_eq_iff:
  "a = b \<longleftrightarrow> nhead a = nhead b \<and> noff a = noff b \<and> nind a = nind b \<and> ndata a = ndata b \<and> nkids a = nkids b"
  by (cases a; cases b) auto

lemma stored_kid: "stored xs n \<Longrightarrow> k \<in> set (nkids n) \<Longrightarrow> stored xs k"
  by (cases "nind n") (auto simp: stored_indirect stored_direct)

lemma stored_data:
  assumes "stored (items c) n" "nind n" "j < length (ndata n)"
  shows "ndata n ! j = items c ! (unat (noff n) div 4 + (length (node_image n) - length (ndata n) + j))"
proof -
  have l: "length (node_image n) - length (ndata n) + j < length (node_image n)"
    using assms(3) by (simp add: node_image_def)
  show ?thesis
    using stored_items(2) [OF assms(1,2) l] assms(3) by (simp add: node_image_def nth_append)
qed

lemma stored_unique:
  assumes "small c"
  shows "stored (items c) a \<Longrightarrow> stored (items c) b \<Longrightarrow> mref_of a = mref_of b \<Longrightarrow> a = b"
proof (induction a arbitrary: b)
  case (Node h off ind d ks)
  let ?a = "Node h off ind d ks"
  have m: "nhead b = h" "noff b = off" "nind b = ind" using Node.prems(3) by (simp_all add: mref_of_def)
  show ?case
  proof (cases ind)
    case False
    with Node.prems m show ?thesis by (auto simp: stored_direct node_eq_iff)
  next
    case True
    have n: "length ks = length (nkids b)"
      using mem_children_stored [OF Node.prems(1) assms] mem_children_stored [OF Node.prems(2) assms] Node.prems(3)
      by (simp add: children_def)
    have "ks ! i = nkids b ! i" if i: "i < length ks" for i
    proof (rule Node.IH)
      show "ks ! i \<in> set ks" "stored (items c) (ks ! i)" "stored (items c) (nkids b ! i)"
        using i n stored_kid [OF Node.prems(1)] stored_kid [OF Node.prems(2)] by simp_all
      show "mref_of (ks ! i) = mref_of (nkids b ! i)"
        using mem_child_stored [OF Node.prems(1) assms, of i] mem_child_stored [OF Node.prems(2) assms, of i]
          Node.prems(3) i n by (simp add: child_def children_def)
    qed
    with n have kids: "ks = nkids b" by (intro nth_equalityI) simp_all
    have sh: "length d = data_items h" "length (ndata b) = data_items h"
      using Node.prems(1,2) True m by (simp_all add: stored_indirect shape_ok_def)
    have img: "length (node_image ?a) = length (node_image b)"
      using sh kids m by (simp add: node_image_def children_def)
    have "d ! j = ndata b ! j" if j: "j < length d" for j
      using stored_data [OF Node.prems(1), of j] stored_data [OF Node.prems(2), of j] True m sh j img by simp
    with sh have "d = ndata b" by (intro nth_equalityI) simp_all
    with kids m show ?thesis by (simp add: node_eq_iff)
  qed
qed

subsection \<open>The order\<close>

lemma header_order_inj: "header_order a = header_order b \<Longrightarrow> a = b"
proof -
  assume e: "header_order a = header_order b"
  have k: "unat (hkind x) < 256" "unat (hop x) < 65536" for x
    using unsigned_less [of "hkind x", where ?'a = nat] unsigned_less [of "hop x", where ?'a = nat] by simp_all
  have digits: "x = x' \<and> y = y' \<and> z = z'"
    if "x * 2 ^ 24 + y * 2 ^ 16 + z = x' * 2 ^ 24 + y' * 2 ^ 16 + z'" "y < 256" "z < 65536" "y' < 256" "z' < 65536"
    for x y z x' y' z' :: nat
  proof -
    have top: "(u * 2 ^ 24 + v * 2 ^ 16 + w) div 2 ^ 24 = u" if "v < 256" "w < 65536" for u v w :: nat
    proof -
      have "v * 2 ^ 16 + w < 2 ^ 24" using that by simp
      then show ?thesis by (simp add: add.assoc)
    qed
    have "x = x'" using top [OF that(2,3), of x] top [OF that(4,5), of x'] that(1) by simp
    with that(1) have low: "y * 2 ^ 16 + z = y' * 2 ^ 16 + z'" by simp
    have "(v * 2 ^ 16 + w) div 2 ^ 16 = v" if "w < 65536" for v w :: nat
      using that by simp
    from this [OF that(3), of y] this [OF that(5), of y'] low have "y = y'" by simp
    with low \<open>x = x'\<close> show ?thesis by simp
  qed
  have "ntype_code (htype a) = ntype_code (htype b) \<and> unat (hkind a) = unat (hkind b) \<and> unat (hop a) = unat (hop b)"
    by (rule digits [OF e [unfolded header_order_def]]) (rule k)+
  then show "a = b" by (cases a; cases b) (simp add: word_unat_eq_iff)
qed

lemma compare_nat_0 [simp]: "compare_nat a b = 0 \<longleftrightarrow> a = b"
  by (simp add: compare_nat_def)

lemma compare_nat_neg: "compare_nat b a = - compare_nat a b"
  by (simp add: compare_nat_def)

lemma compare_nat_le: "compare_nat a b \<le> 0 \<longleftrightarrow> a \<le> b"
  by (simp add: compare_nat_def)

lemma compare_kids_Nil: "compare_kids ks [] = compare_nat (length ks) 0" "compare_kids [] ks = compare_nat 0 (length ks)"
  by (cases ks; simp add: compare_kids.simps)+

lemma compare_kids_Cons:
  "compare_kids (k # ks) (l # ls) = (if deep_compare k l \<noteq> 0 then deep_compare k l else compare_kids ks ls)"
  by (simp add: compare_kids.simps Let_def)

lemma deep_compare_refl [simp]: "deep_compare a a = 0"
  by (simp add: deep_compare_unfold)

lemma compare_kids_refl [simp]: "compare_kids ks ks = 0"
  by (induction ks) (simp_all add: compare_kids_Nil compare_kids_Cons)

lemma deep_compare_antisym:
  "deep_compare b a = - deep_compare a b" "compare_kids ls ks = - compare_kids ks ls"
proof (induction a b and ks ls rule: deep_compare_compare_kids.induct)
  case (1 h off ind d ks h' off' ind' d' ks')
  have "h \<noteq> h' \<Longrightarrow> header_less h' h \<longleftrightarrow> \<not> header_less h h'"
    using header_order_inj [of h h'] unfolding header_less_def by linarith
  with 1 show ?case by (simp add: deep_compare_unfold compare_nat_neg [of "unat off"])
next
  case (4 k ks l ls)
  then show ?case by (simp add: compare_kids_Cons)
next
  case (2 ks)
  then show ?case using compare_nat_neg [of "length ks" 0] by (simp add: compare_kids_Nil)
next
  case (3 k ks)
  then show ?case using compare_nat_neg [of 0 "length (k # ks)"] by (simp add: compare_kids_Nil)
qed

lemma deep_compare_flip: "deep_compare a b < 0 \<longleftrightarrow> \<not> deep_compare b a \<le> 0" "deep_compare a b = 0 \<longleftrightarrow> deep_compare b a = 0"
  using deep_compare_antisym(1) [of a b] by auto

text \<open>On held nodes the test of identity changes nothing.\<close>

lemma deep_compare_stored:
  assumes "small c" "stored (items c) a" "stored (items c) b" "nhead a = nhead b" "nind a" "nind b"
  shows "deep_compare a b = compare_kids (nkids a) (nkids b)"
proof (cases "noff a = noff b")
  case True
  with stored_unique [OF assms(1-3)] assms(4-6) have "a = b" by (simp add: mref_of_def)
  then show ?thesis by simp
next
  case False
  with assms show ?thesis by (simp add: deep_compare_unfold)
qed

definition trans3 :: "node \<Rightarrow> node \<Rightarrow> node \<Rightarrow> bool" where
  "trans3 a b c \<longleftrightarrow> (deep_compare a b \<le> 0 \<longrightarrow> deep_compare b c \<le> 0 \<longrightarrow> deep_compare a c \<le> 0)"

lemma compare_kids_trans:
  assumes "\<And>x y z. x \<in> set as \<union> set bs \<union> set cs \<Longrightarrow> y \<in> set as \<union> set bs \<union> set cs \<Longrightarrow>
      z \<in> set as \<union> set bs \<union> set cs \<Longrightarrow> trans3 x y z"
  shows "compare_kids as bs \<le> 0 \<Longrightarrow> compare_kids bs cs \<le> 0 \<Longrightarrow> compare_kids as cs \<le> 0"
  using assms
proof (induction as arbitrary: bs cs)
  case Nil
  then show ?case by (simp add: compare_kids_Nil compare_nat_le)
next
  case (Cons a as)
  from Cons.prems(1) obtain b bs' where b: "bs = b # bs'"
    by (cases bs) (auto simp: compare_kids_Nil compare_nat_le)
  with Cons.prems(2) obtain c cs' where c: "cs = c # cs'"
    by (cases cs) (auto simp: compare_kids_Nil compare_nat_le)
  have t: "trans3 a b c" "trans3 b c a" "trans3 c a b" using Cons.prems(3) b c by simp_all
  have le: "deep_compare a b \<le> 0" "deep_compare b c \<le> 0"
    using Cons.prems(1,2) b c by (auto simp: compare_kids_Cons split: if_splits)
  with t have ac: "deep_compare a c \<le> 0" by (simp add: trans3_def)
  show ?case
  proof (cases "deep_compare a c = 0")
    case True
    then have ca: "deep_compare c a \<le> 0" using deep_compare_antisym(1) [of a c] by simp
    with t le have "deep_compare b a \<le> 0" "deep_compare c b \<le> 0" by (simp_all add: trans3_def)
    with le have z: "deep_compare a b = 0" "deep_compare b c = 0"
      using deep_compare_antisym(1) [of a b] deep_compare_antisym(1) [of b c] by simp_all
    have "compare_kids as cs' \<le> 0"
    proof (rule Cons.IH)
      show "compare_kids as bs' \<le> 0" "compare_kids bs' cs' \<le> 0"
        using Cons.prems(1,2) z b c by (simp_all add: compare_kids_Cons)
    qed (use Cons.prems(3) b c in auto)
    with True c show ?thesis by (simp add: compare_kids_Cons)
  next
    case False
    with ac c show ?thesis by (simp add: compare_kids_Cons)
  qed
qed

lemma kid_size: "k \<in> set (nkids n) \<Longrightarrow> size k < size n"
  by (cases n) (use nth_size_less in \<open>auto simp: in_set_conv_nth\<close>)

lemma deep_compare_trans:
  assumes "small c"
  shows "stored (items c) x \<Longrightarrow> stored (items c) y \<Longrightarrow> stored (items c) z \<Longrightarrow> trans3 x y z"
proof (induction "max (size x) (max (size y) (size z))" arbitrary: x y z rule: less_induct)
  case less
  note st = less.prems
  have "deep_compare x z \<le> 0" if xy: "deep_compare x y \<le> 0" and yz: "deep_compare y z \<le> 0"
  proof (cases "nhead x = nhead y \<and> nhead y = nhead z \<and> nind x = nind y \<and> nind y = nind z")
    case False
    with xy yz show ?thesis
      by (auto simp: deep_compare_unfold header_less_def split: if_splits)
  next
    case same: True
    show ?thesis
    proof (cases "nind x")
      case False
      with xy yz same show ?thesis by (simp add: deep_compare_unfold compare_nat_le split: if_splits)
    next
      case True
      with same have i: "nind x" "nind y" "nind z" "nhead x = nhead y" "nhead y = nhead z" "nhead x = nhead z" by auto
      have "compare_kids (nkids x) (nkids z) \<le> 0"
      proof (rule compare_kids_trans [of "nkids x" "nkids y" "nkids z"])
        show "compare_kids (nkids x) (nkids y) \<le> 0" "compare_kids (nkids y) (nkids z) \<le> 0"
          using xy yz deep_compare_stored [OF assms st(1,2) i(4,1,2)] deep_compare_stored [OF assms st(2,3) i(5,2,3)] by simp_all
        fix a b d
        assume m: "a \<in> set (nkids x) \<union> set (nkids y) \<union> set (nkids z)" "b \<in> set (nkids x) \<union> set (nkids y) \<union> set (nkids z)"
          "d \<in> set (nkids x) \<union> set (nkids y) \<union> set (nkids z)"
        have "stored (items c) k \<and> size k < max (size x) (max (size y) (size z))"
          if "k \<in> set (nkids x) \<union> set (nkids y) \<union> set (nkids z)" for k
          using that st stored_kid kid_size by (auto simp: less_max_iff_disj)
        then show "trans3 a b d" using m by (intro less.hyps) simp_all
      qed
      then show ?thesis using deep_compare_stored [OF assms st(1,3) i(6,1,3)] by simp
    qed
  qed
  then show ?case by (simp add: trans3_def)
qed

lemma is_allowed_all [simp]: "is_allowed t op AllowAll"
proof -
  have "(255 :: u8) AND 1 \<noteq> 0" "(255 :: u8) AND 2 \<noteq> 0" "(255 :: u8) AND 4 \<noteq> 0" by simp_all
  then show ?thesis by (simp add: is_allowed_def)
qed

lemma compare_kids_zero:
  "(\<And>k l. k \<in> set ks \<Longrightarrow> deep_compare k l = 0 \<longleftrightarrow> P k l) \<Longrightarrow> compare_kids ks ls = 0 \<longleftrightarrow> list_all2 P ks ls"
proof (induction ks arbitrary: ls)
  case Nil
  then show ?case by (simp add: compare_kids_Nil)
next
  case (Cons k ks)
  then show ?case by (cases ls) (simp_all add: compare_kids_Nil compare_kids_Cons)
qed

lemma deep_compare_zero: "deep_compare a b = 0 \<longleftrightarrow> deep_equal AllowAll a b"
proof (induction a arbitrary: b)
  case (Node h off ind d ks)
  have "compare_kids ks (nkids b) = 0 \<longleftrightarrow> list_all2 (deep_equal AllowAll) ks (nkids b)"
    by (rule compare_kids_zero) (rule Node.IH)
  then show ?case
    by (auto simp: deep_compare_unfold [of _ b] deep_equal_unfold [of _ _ b] word_unat_eq_iff)
qed

subsection \<open>Constants with a direct encoding\<close>

lemma const_small_stored:
  assumes "k < 16" "eVoid < k"
  shows "stored xs (const_small k w)"
proof -
  have "unat (ucast w :: u64) < 2 ^ 16"
    using unsigned_less [of w, where ?'a = nat] by (simp add: unsigned_ucast_eq take_bit_nat_eq_self)
  then have "(ucast w :: u64) \<le> 0x7FFFFF" by (simp add: word_le_nat_alt)
  then have "imm_can_direct k (ucast w) 0 0" by (simp add: imm_can_direct_def imm_rrot_def)
  with assms imm_make_direct_round_trip [of k "ucast w" 0 0]
  have i: "imm_parse_direct (imm_make_direct k (ucast w) 0 0) = mk_val k (ucast w)" "bit (imm_make_direct k (ucast w) 0 0) 0"
    by simp_all
  have "imm_parse_direct_kind (imm_make_direct k (ucast w) 0 0) = k"
    using arg_cong [OF i(1), of vkind] by (simp add: imm_parse_direct_def Let_def)
  moreover have "imm_make_direct k (ucast w) 0 0 AND 1 \<noteq> 0"
  proof
    assume "imm_make_direct k (ucast w) 0 0 AND 1 = 0"
    then have "\<not> bit (imm_make_direct k (ucast w) 0 0 AND 1) 0" by simp
    with i(2) show False by (simp add: bit_and_iff)
  qed
  ultimately show ?thesis using assms by (simp add: stored_direct const_small_def direct_ok_def scalar_nosimd)
qed

subsection \<open>Expressions of narrow kinds\<close>

text \<open>On these kinds every constant has a direct encoding.\<close>

definition narrow_kind :: "kind \<Rightarrow> bool" where
  "narrow_kind k \<longleftrightarrow> k \<in> {eBool, eInt8, eInt16, eUint8, eUint16}"

fun narrow :: "node \<Rightarrow> bool" where
  "narrow (Node h off ind d ks) \<longleftrightarrow>
     narrow_kind (hkind h) \<and> list_all narrow ks \<and> (ind \<longleftrightarrow> htype h \<notin> {VAR, CONSTN})"

declare narrow.simps [simp del]

lemma narrow_unfold:
  "narrow n \<longleftrightarrow> narrow_kind (nkind n) \<and> list_all narrow (nkids n) \<and> (nind n \<longleftrightarrow> nty n \<notin> {VAR, CONSTN})"
  by (cases n) (simp add: narrow.simps)

lemma narrow_kind_int: "narrow_kind k \<Longrightarrow> int_kind k \<and> k \<noteq> eBad \<and> eVoid < k \<and> k < 16"
  by (auto simp: narrow_kind_def)

text \<open>The meaning of an inner node is determined by its header and the meaning of its children.\<close>

lemma ev_cong:
  assumes "nhead a = nhead b" "nty a \<notin> {VAR, CONSTN}" "map (ev env) (nkids a) = map (ev env) (nkids b)"
  shows "ev env a = ev env b"
  using assms
  by (cases a; cases b) (simp add: ev.simps Let_def node_op1_def node_op2_def node_opn_def split: ntype.splits)

lemma deep_equal_sound:
  assumes "small c"
  shows "stored (items c) a \<Longrightarrow> stored (items c) b \<Longrightarrow> narrow a \<Longrightarrow> deep_equal allow a b \<Longrightarrow> ev env a = ev env b"
proof (induction a arbitrary: b)
  case (Node h off ind d ks)
  let ?a = "Node h off ind d ks"
  from Node.prems(4) have e: "nind b = ind" "nhead b = h"
    "if \<not> ind then noff b = off else noff b = off \<or> list_all2 (deep_equal allow) ks (nkids b)"
    by (auto simp: deep_equal.simps split: if_splits)
  show ?case
  proof (cases "noff b = off")
    case True
    then have "?a = b" using e by (intro stored_unique [OF assms Node.prems(1,2)]) (simp add: mref_of_def)
    then show ?thesis by simp
  next
    case False
    with e have i: ind "list_all2 (deep_equal allow) ks (nkids b)" by (auto split: if_splits)
    have "map (ev env) ks = map (ev env) (nkids b)"
    proof (rule nth_equalityI)
      fix j assume "j < length (map (ev env) ks)"
      then have j: "j < length ks" "j < length (nkids b)" "deep_equal allow (ks ! j) (nkids b ! j)"
        using i(2) by (auto simp: list_all2_conv_all_nth)
      have "ev env (ks ! j) = ev env (nkids b ! j)"
        using j stored_kid [OF Node.prems(1)] stored_kid [OF Node.prems(2)] Node.prems(3)
        by (intro Node.IH) (simp_all add: narrow.simps list_all_iff)
      then show "map (ev env) ks ! j = map (ev env) (nkids b) ! j" using j by simp
    qed (use i(2) in \<open>simp add: list_all2_lengthD\<close>)
    then show ?thesis using e i(1) Node.prems(3) by (intro ev_cong) (simp_all add: narrow.simps)
  qed
qed

subsection \<open>Properties\<close>

text \<open>C29: on the nodes a code holds, \<open>deep_compare\<close> is a total preorder: exchanging the arguments changes the sign, and
  it is transitive, so \<open>deep_compare(lhs, rhs) < 0\<close> is the strict weak order \<open>std::sort\<close> requires. Two nodes compare
  equal exactly when \<open>deep_equal\<close> says they are.\<close>

theorem deep_compare_orders:
  assumes "small c" "stored (items c) x" "stored (items c) y" "stored (items c) z"
  shows "deep_compare y x = - deep_compare x y \<and>
    (deep_compare x y \<le> 0 \<and> deep_compare y z \<le> 0 \<longrightarrow> deep_compare x z \<le> 0) \<and>
    (deep_compare x y = 0 \<longleftrightarrow> deep_equal AllowAll x y)"
  using deep_compare_trans [OF assms] by (intro conjI deep_compare_antisym(1) deep_compare_zero) (simp add: trans3_def)

lemma deep_compare_orders_witness:
  "deep_compare (const_small eInt8 1) (const_small eInt8 2) \<le> 0 \<and> deep_compare (const_small eInt8 2) (const_small eInt8 3) \<le> 0 \<and>
   deep_compare (const_small eInt8 1) (const_small eInt8 3) \<le> 0"
proof -
  note st = const_small_stored [of eInt8 "items (fcode example_func)"]
  have sm: "small (fcode example_func)" by (simp add: small_def example_func_code)
  have o: "noff (const_small eInt8 1) = 0x107" "noff (const_small eInt8 2) = 0x207" "noff (const_small eInt8 3) = 0x307"
    by (simp_all add: const_small_def imm_make_direct_def imm_rrot_def word_le_nat_alt)
  have h: "nhead (const_small eInt8 w) = const_header eInt8" "\<not> nind (const_small eInt8 w)" for w
    by (simp_all add: const_small_def kind_nosimd_def)
  have "deep_compare (const_small eInt8 1) (const_small eInt8 2) \<le> 0" "deep_compare (const_small eInt8 2) (const_small eInt8 3) \<le> 0"
    unfolding deep_compare_unfold o by (simp_all add: h compare_nat_def)
  with deep_compare_orders [OF sm st [of 1] st [of 2] st [of 3]] show ?thesis by simp
qed

text \<open>\<open>deep_equal\<close> never looks at the data of a leaf that is not direct: two different 64-bit constants in one code are
  deep-equal, and so are expressions built from them in the same way.\<close>

definition big_const :: "u32 \<Rightarrow> u32 list \<Rightarrow> node" where
  "big_const offset data = Node (const_header eInt64) offset True data []"

theorem deep_equal_ignores_data:
  "deep_equal AllowAll (big_const 8 [1, 2]) (big_const 20 [3, 4]) \<and>
   const_val (big_const 8 [1, 2]) \<noteq> const_val (big_const 20 [3, 4]) \<and>
   stored ([0, 0] @ node_image (big_const 8 [1, 2]) @ node_image (big_const 20 [3, 4])) (big_const 8 [1, 2]) \<and>
   stored ([0, 0] @ node_image (big_const 8 [1, 2]) @ node_image (big_const 20 [3, 4])) (big_const 20 [3, 4])"
proof -
  let ?xs = "[0, 0] @ node_image (big_const 8 [1, 2]) @ node_image (big_const 20 [3, 4])"
  have st: "stored ?xs (big_const off [i, j])"
    if "?xs = pre @ node_image (big_const off [i, j]) @ post" "unat off = 4 * length pre" for off i j pre post
    using that by (auto simp: big_const_def stored.simps shape_ok_def data_items_def const_header_def is_list_type_def
        to_children_def)
  have "stored ?xs (big_const 8 [1, 2])" by (rule st [of "[0, 0]" 8 1 2]) simp_all
  moreover have "stored ?xs (big_const 20 [3, 4])"
    by (rule st [of "[0, 0] @ node_image (big_const 8 [1, 2])" 20 3 4 "[]"])
      (simp_all add: node_image_def big_const_def const_header_def is_list_type_def)
  moreover have "const_val (big_const 8 [1, 2]) \<noteq> const_val (big_const 20 [3, 4])"
    by (simp add: const_val_def big_const_def imm_parse_indirect_def const_header_def)
  ultimately show ?thesis by (simp add: deep_equal_unfold big_const_def)
qed

end
