(* ===== verification/Optimizer.thy ===== *)
theory Optimizer imports Deep begin

text \<open>
  The optimizer, class \<open>Optimizer\<close> of \<open>src/onejit/optimizer.hpp\<close>, \<open>optimizer.cpp\<close>, \<open>optimizer_binary.cpp\<close> and
  \<open>optimizer_tuple.cpp\<close>: constant folding and algebraic simplification of expressions and assignments, the
  flattening, sorting and folding of n-ary operators, and the recursion over a tree.

  A function that may create nodes takes the \<open>func\<close> and returns it with the new node, an invalid node
  standing for "no simplification", or an error: \<open>Undefined\<close> when the compiler itself executes undefined
  behaviour (it folds a division by zero), \<open>Forever\<close> when creating a node does not return (see \<open>Nodes\<close>),
  \<open>OutOfFuel\<close> when the fuel that bounds the depth of the recursion is spent, which theorem
  \<open>optimize_terminates\<close> excludes. The stack of nodes \<open>nodes_\<close> is the lists passed around here; its
  allocations are taken to succeed.
\<close>

subsection \<open>Results\<close>

datatype oerror = Undefined | Forever | OutOfFuel

type_synonym 'a res = "oerror + 'a"

definition rbind :: "'a res \<Rightarrow> ('a \<Rightarrow> 'b res) \<Rightarrow> 'b res" where
  "rbind r k = (case r of Inl e \<Rightarrow> Inl e | Inr x \<Rightarrow> k x)"

definition from_option :: "oerror \<Rightarrow> 'a option \<Rightarrow> 'a res" where
  "from_option e r = (case r of None \<Rightarrow> Inl e | Some x \<Rightarrow> Inr x)"

abbreviation ub :: "'a option \<Rightarrow> 'a res" where "ub \<equiv> from_option Undefined"
abbreviation looping :: "'a option \<Rightarrow> 'a res" where "looping \<equiv> from_option Forever"

lemma rbind_simps [simp]: "rbind (Inl e) k = Inl e" "rbind (Inr x) k = k x"
  by (simp_all add: rbind_def)

lemma rbind_Inr: "rbind r k = Inr y \<longleftrightarrow> (\<exists>x. r = Inr x \<and> k x = Inr y)"
  by (cases r) simp_all

lemma rbind_Inl: "rbind r k = Inl e \<longleftrightarrow> r = Inl e \<or> (\<exists>x. r = Inr x \<and> k x = Inl e)"
  by (cases r) auto

lemma from_option_simps [simp]: "from_option e (Some x) = Inr x" "from_option e None = Inl e"
  "from_option e r = Inr y \<longleftrightarrow> r = Some y" "Inr y = from_option e r \<longleftrightarrow> r = Some y"
  by (auto simp: from_option_def split: option.splits)

lemma rbind_cong [fundef_cong]:
  "r = r' \<Longrightarrow> (\<And>x. r' = Inr x \<Longrightarrow> k x = k' x) \<Longrightarrow> rbind r k = rbind r' k'"
  by (cases r') simp_all

type_synonym new_node = "(func \<times> node) res"

subsection \<open>Configuration\<close>

record opts =
  ocheck :: u8
  oflags :: u16

definition fold_constant :: "opts \<Rightarrow> bool" where "fold_constant o1 \<longleftrightarrow> oflags o1 AND 1 \<noteq> 0"
definition simplify_expr :: "opts \<Rightarrow> bool" where "simplify_expr o1 \<longleftrightarrow> oflags o1 AND 2 \<noteq> 0"
definition fast_math :: "opts \<Rightarrow> bool" where "fast_math o1 \<longleftrightarrow> oflags o1 AND 8 \<noteq> 0"

definition allow_mask_pure :: "opts \<Rightarrow> u8" where
  "allow_mask_pure o1 = NOT (ocheck o1) AND NOT AllowCall"

definition same_children :: "node \<Rightarrow> node list \<Rightarrow> bool" where
  "same_children n kids \<longleftrightarrow> list_all2 node_same (nkids n) kids"

subsection \<open>Unary expressions\<close>

definition simplify_cast :: "kind \<Rightarrow> op1 \<Rightarrow> node \<Rightarrow> node" where
  "simplify_cast k op x = (if (op = CAST \<or> op = BITCOPY) \<and> k = nkind x then x else bad_node)"

definition simplify_unary :: "func \<Rightarrow> kind \<Rightarrow> op1 \<Rightarrow> node \<Rightarrow> new_node" where
  "simplify_unary f k op x =
     (let u = as_unary x; b = as_binary x; xx = as_expr (child u 0); xop = node_op1 u
      in if node_valid u then
           (if node_valid xx \<and> op = XOR1 \<and> xop = XOR1 then Inr (f, xx)
            else if node_valid xx \<and> op = NEG1 \<and> xop = NEG1 then Inr (f, xx)
            else if node_valid xx \<and> op = NEG1 \<and> xop = XOR1 then
              (let (f1, one) = one_const f (nkind xx) in looping (tuple2 f1 ADDN xx one))
            else if node_valid xx \<and> op = XOR1 \<and> xop = NEG1 then
              (let (f1, one) = one_const f (nkind xx) in looping (binary_create f1 SUB xx one))
            else Inr (f, simplify_cast k op x))
         else if node_valid b \<and> op = NOT1 \<and> is_comparison (node_op2 b) then
           looping (binary_create f (not_comparison (node_op2 b)) (as_expr (child b 0)) (as_expr (child b 1)))
         else Inr (f, simplify_cast k op x))"

definition try_unary :: "opts \<Rightarrow> func \<Rightarrow> node \<Rightarrow> node list \<Rightarrow> new_node" where
  "try_unary o1 f n kids =
     (let x = as_expr (view_get bad_node kids 0)
      in if node_valid n \<and> length kids = 1 \<and> node_valid x then
           rbind (if fold_constant o1 \<and> nty x = CONSTN \<and> val_is_valid (const_val x)
                  then ub (eval_unary_op (nkind n) (node_op1 n) (const_val x)) else Inr bad_value)
             (\<lambda>ve. if val_is_valid ve then Inr (const_create f ve)
                   else if simplify_expr o1 then simplify_unary f (nkind n) (node_op1 n) x
                   else Inr (f, bad_node))
         else Inr (f, bad_node))"

subsection \<open>Binary expressions\<close>

definition partial_eval_binary :: "func \<Rightarrow> op2 \<Rightarrow> node \<Rightarrow> node \<Rightarrow> new_node" where
  "partial_eval_binary f op x y =
     (let changed = ntype_code (nty x) > ntype_code (nty y) \<and> is_comparison op;
          op' = (if changed then swap_comparison op else op);
          x' = (if changed then y else x);
          y' = (if changed then x else y)
      in rbind (if node_valid (as_const y') then ub (val_identity2 (nkind x') op') else Inr bad_value)
           (\<lambda>identity.
              if node_valid (as_const y') \<and> val_is_valid identity \<and> val_truth (val_eq identity (const_val y'))
              then Inr (f, x')
              else if changed \<and> node_valid x' \<and> node_valid y' then looping (binary_create f op' x' y')
              else Inr (f, bad_node)))"

definition simplify_sub :: "opts \<Rightarrow> func \<Rightarrow> node \<Rightarrow> node \<Rightarrow> func \<times> node" where
  "simplify_sub o1 f x y = (f, if deep_equal (allow_mask_pure o1) x y then zero_const (nkind x) else bad_node)"

definition simplify_quo :: "opts \<Rightarrow> func \<Rightarrow> node \<Rightarrow> node \<Rightarrow> func \<times> node" where
  "simplify_quo o1 f x y = (if deep_equal (allow_mask_pure o1) x y then one_const f (nkind x) else (f, bad_node))"

definition simplify_rem :: "opts \<Rightarrow> func \<Rightarrow> node \<Rightarrow> node \<Rightarrow> func \<times> node" where
  "simplify_rem o1 f x y = (f, if deep_equal (allow_mask_pure o1) x y then zero_const (nkind x) else bad_node)"

definition simplify_shift :: "func \<Rightarrow> func \<times> node" where
  "simplify_shift f = (f, bad_node)"

definition simplify_comma :: "opts \<Rightarrow> func \<Rightarrow> node list \<Rightarrow> new_node" where
  "simplify_comma o1 f args =
     (if args = [] then Inr (f, void_const)
      else let kept = filter (\<lambda>a. \<not> deep_pure (allow_mask_pure o1) a) (butlast args)
           in if kept = [] then Inr (f, last args) else looping (comma_create f (kept @ [last args])))"

definition simplify_boolean :: "opts \<Rightarrow> func \<Rightarrow> op2 \<Rightarrow> node \<Rightarrow> node \<Rightarrow> new_node" where
  "simplify_boolean o1 f op x y =
     (let xc = as_const x; yc = as_const y
      in if op = LAND then
           (if node_valid xc then Inr (f, if val_truth (const_val xc) then y else x)
            else if node_valid yc then (if val_truth (const_val yc) then Inr (f, x) else simplify_comma o1 f [x, y])
            else Inr (f, bad_node))
         else if op = LOR then
           (if node_valid xc then Inr (f, if val_truth (const_val xc) then x else y)
            else if node_valid yc then (if val_truth (const_val yc) then simplify_comma o1 f [x, y] else Inr (f, x))
            else Inr (f, bad_node))
         else Inr (f, bad_node))"

definition simplify_comparison :: "opts \<Rightarrow> func \<Rightarrow> op2 \<Rightarrow> node \<Rightarrow> node \<Rightarrow> new_node" where
  "simplify_comparison o1 f op x y =
     (if node_valid (as_const y) then
        (if kind_is_unsigned (nkind y) \<and> val_truth (val_lnot (const_val (as_const y))) then
           (case op of LSS \<Rightarrow> simplify_comma o1 f [x, false_const]
            | LEQ \<Rightarrow> looping (binary_create f EQL x y)
            | GEQ \<Rightarrow> simplify_comma o1 f [x, true_const]
            | GTR \<Rightarrow> looping (binary_create f NEQ x y)
            | _ \<Rightarrow> Inr (f, bad_node))
         else Inr (f, bad_node))
      else if deep_equal (allow_mask_pure o1) x y then
        (case op of LSS \<Rightarrow> Inr (f, false_const) | NEQ \<Rightarrow> Inr (f, false_const) | GTR \<Rightarrow> Inr (f, false_const)
         | LEQ \<Rightarrow> Inr (f, true_const) | EQL \<Rightarrow> Inr (f, true_const) | GEQ \<Rightarrow> Inr (f, true_const)
         | _ \<Rightarrow> Inr (f, bad_node))
      else Inr (f, bad_node))"

definition simplify_op2 :: "opts \<Rightarrow> func \<Rightarrow> op2 \<Rightarrow> node \<Rightarrow> node \<Rightarrow> new_node" where
  "simplify_op2 o1 f op x y =
     (if op = SUB then Inr (simplify_sub o1 f x y)
      else if op = QUO then Inr (simplify_quo o1 f x y)
      else if op = REM then Inr (simplify_rem o1 f x y)
      else if op = SHL \<or> op = SHR then Inr (simplify_shift f)
      else if op = LAND \<or> op = LOR then simplify_boolean o1 f op x y
      else if is_comparison op then simplify_comparison o1 f op x y
      else Inr (f, bad_node))"

definition simplify_binary :: "opts \<Rightarrow> func \<Rightarrow> op2 \<Rightarrow> node \<Rightarrow> node \<Rightarrow> new_node" where
  "simplify_binary o1 f op x y =
     rbind (partial_eval_binary f op x y) (\<lambda>(f1, e).
       let be = as_binary e
       in if node_valid e \<and> \<not> node_valid be then Inr (f1, e)
          else rbind (if node_valid e then simplify_op2 o1 f1 (node_op2 be) (as_expr (child be 0)) (as_expr (child be 1))
                      else simplify_op2 o1 f1 op x y)
                 (\<lambda>(f2, e2). Inr (f2, if node_valid e2 then e2 else e)))"

definition try_binary :: "opts \<Rightarrow> func \<Rightarrow> node \<Rightarrow> node list \<Rightarrow> new_node" where
  "try_binary o1 f n kids =
     (let x = as_expr (view_get bad_node kids 0); y = as_expr (view_get bad_node kids 1); op = node_op2 n
      in if node_valid n \<and> length kids = 2 \<and> node_valid x \<and> node_valid y then
           rbind (if fold_constant o1 \<and> nty x = CONSTN \<and> nty y = CONSTN \<and> val_is_valid (const_val x) \<and> val_is_valid (const_val y)
                  then ub (eval_binary_op op (const_val x) (const_val y)) else Inr bad_value)
             (\<lambda>ve. if val_is_valid ve then Inr (const_create f ve)
                   else if simplify_expr o1 then simplify_binary o1 f op x y
                   else Inr (f, bad_node))
         else Inr (f, bad_node))"

subsection \<open>Assignments\<close>

definition simplify_assign :: "opts \<Rightarrow> func \<Rightarrow> opcode \<Rightarrow> node \<Rightarrow> val \<Rightarrow> new_node" where
  "simplify_assign o1 f assign_op dst v =
     (let k = nkind dst; op = to_opn assign_op; op2 = to_op2 assign_op; pure = deep_pure (allow_mask_pure o1) dst
      in if op \<noteq> BADN then
           rbind (ub (val_absorbing k op)) (\<lambda>absorbing.
             if val_truth (val_eq v absorbing) then
               (let (f1, c) = const_create f absorbing in looping (stmt2_create f1 ASSIGN dst c))
             else rbind (ub (val_identity k op)) (\<lambda>identity.
               if val_truth (val_eq v identity) \<and> pure then Inr (f, void_const)
               else if op = ADDN then
                 rbind (ub (val_one k)) (\<lambda>one.
                   if val_truth (val_eq v one) then looping (stmt1_create f dst INC)
                   else rbind (ub (val_minus_one k)) (\<lambda>minus_one.
                     if val_truth (val_eq v minus_one) then looping (stmt1_create f dst DEC) else Inr (f, bad_node)))
               else Inr (f, bad_node)))
         else if op2 \<noteq> BAD2 then
           rbind (ub (val_identity2 k op2)) (\<lambda>identity.
             if val_truth (val_eq v identity) \<and> pure then Inr (f, void_const)
             else if op2 = SUB then
               rbind (ub (val_one k)) (\<lambda>one.
                 if val_truth (val_eq v one) then looping (stmt1_create f dst DEC)
                 else rbind (ub (val_minus_one k)) (\<lambda>minus_one.
                   if val_truth (val_eq v minus_one) then looping (stmt1_create f dst INC) else Inr (f, bad_node)))
             else Inr (f, bad_node))
         else Inr (f, bad_node))"

text \<open>\<open>(op= expr expr)\<close>.\<close>

definition assign_self :: "func \<Rightarrow> opcode \<Rightarrow> node \<Rightarrow> new_node" where
  "assign_self f assign_op dst =
     (let k = nkind dst
      in if assign_op = ADD_ASSIGN then (let (f1, two) = two_const f k in looping (stmt2_create f1 MUL_ASSIGN dst two))
         else if assign_op = SUB_ASSIGN \<or> assign_op = REM_ASSIGN \<or> assign_op = XOR_ASSIGN
           then looping (stmt2_create f ASSIGN dst (zero_const k))
         else if assign_op = QUO_ASSIGN then (let (f1, one) = one_const f k in looping (stmt2_create f1 ASSIGN dst one))
         else if assign_op = AND_ASSIGN \<or> assign_op = OR_ASSIGN \<or> assign_op = ASSIGN then Inr (f, void_const)
         else Inr (f, bad_node))"

lemma to_assign_not_ASSIGN [simp]: "to_assign_op2 op \<noteq> ASSIGN" "to_assign_opn op' \<noteq> ASSIGN"
  by (cases op; simp) (cases op'; simp)

text \<open>
  \<open>try_optimize(op, dst, src)\<close> and \<open>make_assign\<close> call each other, at most once: the operator found in the source of a
  plain assignment is not a plain assignment.
\<close>

function try_assign :: "opts \<Rightarrow> func \<Rightarrow> opcode \<Rightarrow> node \<Rightarrow> node \<Rightarrow> new_node"
  and make_assign :: "opts \<Rightarrow> func \<Rightarrow> opcode \<Rightarrow> node \<Rightarrow> node \<Rightarrow> new_node" where
  "try_assign o1 f assign_op dst src =
     (if node_valid src \<and> node_valid dst then
        (if node_valid (as_const src) then simplify_assign o1 f assign_op dst (const_val (as_const src))
         else if deep_equal (allow_mask_pure o1) dst src then assign_self f assign_op dst
         else if assign_op = ASSIGN then
           (let b = as_binary src; t = as_tuple src
            in if node_valid b then
                 (let op = to_assign_op2 (node_op2 b)
                  in if op \<noteq> 0 \<and> deep_equal (allow_mask_pure o1) dst (as_expr (child b 0))
                     then make_assign o1 f op dst (as_expr (child b 1)) else Inr (f, bad_node))
               else if node_valid t then
                 (let op = to_assign_opn (node_opn t)
                  in if op \<noteq> 0 \<and> children t = 2 \<and> deep_equal (allow_mask_pure o1) dst (as_expr (child t 0))
                     then make_assign o1 f op dst (as_expr (child t 1)) else Inr (f, bad_node))
               else Inr (f, bad_node))
         else Inr (f, bad_node))
      else Inr (f, bad_node))"
| "make_assign o1 f assign_op dst src =
     rbind (try_assign o1 f assign_op dst src) (\<lambda>(f1, r).
       if node_valid r then Inr (f1, r) else looping (stmt2_create f1 assign_op dst src))"
  by pat_completeness auto
termination
  by (relation "measure (\<lambda>x. case x of Inl (o1, f, op, dst, src) \<Rightarrow> (if op = ASSIGN then 2 else 0)
        | Inr (o1, f, op, dst, src) \<Rightarrow> (if op = ASSIGN then 3 else 1))") auto

declare try_assign.simps [simp del] make_assign.simps [simp del]

subsection \<open>N-ary expressions\<close>

text \<open>\<open>std::sort\<close> by \<open>deep_compare(lhs, rhs) < 0\<close>; nodes that compare equal are left in their order.\<close>

fun insert_node :: "node \<Rightarrow> node list \<Rightarrow> node list" where
  "insert_node x [] = [x]"
| "insert_node x (y # ys) = (if deep_compare y x < 0 then y # insert_node x ys else x # y # ys)"

definition sort_nodes :: "node list \<Rightarrow> node list" where
  "sort_nodes xs = foldr insert_node xs []"

text \<open>The loop from the last child on, over the reversed list: the value so far and the children not consumed.\<close>

fun fold_trailing :: "kind \<Rightarrow> opn \<Rightarrow> node list \<Rightarrow> val \<Rightarrow> (val \<times> node list) option" where
  "fold_trailing k op [] v = Some (v, [])"
| "fold_trailing k op (c # cs) v =
     (if node_valid (as_const c)
      then Option.bind (eval_tuple_op k op [const_val (as_const c), v]) (fold_trailing k op cs)
      else Some (v, c # cs))"

definition rebuild_tuple :: "func \<Rightarrow> node \<Rightarrow> node list \<Rightarrow> new_node" where
  "rebuild_tuple f n kids =
     (if same_children n kids then Inr (f, n) else looping (tuple_create f (nkind n) (node_opn n) kids))"

definition finish_tuple :: "func \<Rightarrow> node \<Rightarrow> node list \<Rightarrow> val \<Rightarrow> new_node" where
  "finish_tuple f n kids v =
     (case kids of [] \<Rightarrow> Inr (const_create f v) | [x] \<Rightarrow> Inr (f, as_expr x) | _ \<Rightarrow> rebuild_tuple f n kids)"

definition partial_eval_tuple :: "opts \<Rightarrow> func \<Rightarrow> node \<Rightarrow> node list \<Rightarrow> new_node" where
  "partial_eval_tuple o1 f n children0 =
     (let op = node_opn n; k = nkind n
      in if is_associative op \<and> (fast_math o1 \<or> \<not> kind_is_float k) then
           rbind (ub (val_identity k op)) (\<lambda>identity.
             if children0 = [] then Inr (const_create f identity)
             else let kids = (if length children0 > 1 \<and> is_commutative op then sort_nodes children0 else children0)
                  in if fold_constant o1 then
                       rbind (ub (fold_trailing k op (rev kids) identity)) (\<lambda>(v, rest).
                         if length rest < length kids \<and> val_truth (val_ne v identity) then
                           (let (f1, c) = const_create f v
                            in rbind (ub (val_absorbing k op)) (\<lambda>absorbing.
                                 if val_truth (val_eq v absorbing) \<and> list_all (\<lambda>x. node_valid (as_var x)) (rev rest)
                                 then Inr (f1, c)
                                 else finish_tuple f1 n (rev rest @ [c]) v))
                         else finish_tuple f n (rev rest) v)
                     else finish_tuple f n kids identity)
         else rebuild_tuple f n children0)"

subsection \<open>The recursion over a tree\<close>

definition try_node :: "opts \<Rightarrow> func \<Rightarrow> node \<Rightarrow> node list \<Rightarrow> new_node" where
  "try_node o1 f n kids =
     (if node_valid (as_unary n) then try_unary o1 f (as_unary n) kids
      else if node_valid (as_binary n) then try_binary o1 f (as_binary n) kids
      else if node_valid (as_assign n) then
        try_assign o1 f (nop n) (as_expr (view_get bad_node kids 0)) (as_expr (view_get bad_node kids 1))
      else Inr (f, bad_node))"

text \<open>
  \<open>flatten_children_tobuf\<close> does not ask whether the operator is associative. A child that has the header of the tuple
  after it was optimized is flattened again, which optimizes its children once more.
\<close>

function optimize_node :: "nat \<Rightarrow> opts \<Rightarrow> func \<Rightarrow> node \<Rightarrow> new_node"
  and optimize_children :: "nat \<Rightarrow> opts \<Rightarrow> func \<Rightarrow> node list \<Rightarrow> (func \<times> node list) res"
  and flatten :: "nat \<Rightarrow> opts \<Rightarrow> bool \<Rightarrow> header \<Rightarrow> func \<Rightarrow> node list \<Rightarrow> (func \<times> node list) res" where
  "optimize_node fuel o1 f n =
     (case fuel of 0 \<Rightarrow> Inl OutOfFuel | Suc m \<Rightarrow>
        if \<not> good (fcode f) then Inr (f, n)
        else if ntype_code (nty n) \<ge> ntype_code LABEL \<and> children n = 0 then Inr (f, n)
        else if nty n = TUPLE then
          (if node_valid n \<and> simplify_expr o1 then
             rbind (flatten m o1 True (nhead n) f (nkids n)) (\<lambda>(f1, kids).
               rbind (partial_eval_tuple o1 f1 n kids) (\<lambda>(f2, r). Inr (f2, if node_valid r then r else n)))
           else Inr (f, n))
        else if children n = 0 then Inr (f, n)
        else rbind (optimize_children m o1 f (nkids n)) (\<lambda>(f1, kids).
          rbind (try_node o1 f1 n kids) (\<lambda>(f2, r).
            rbind (if \<not> node_valid r \<and> \<not> same_children n kids
                   then looping (create_indirect f2 (nhead n) kids) else Inr (f2, r)) (\<lambda>(f3, r').
              Inr (f3, if node_valid r' then r' else n)))))"
| "optimize_children fuel o1 f [] = Inr (f, [])"
| "optimize_children fuel o1 f (x # xs) =
     rbind (optimize_node fuel o1 f x) (\<lambda>(f1, y).
       rbind (optimize_children fuel o1 f1 xs) (\<lambda>(f2, ys). Inr (f2, y # ys)))"
| "flatten fuel o1 opt h f [] = Inr (f, [])"
| "flatten fuel o1 opt h f (x # xs) =
     rbind (if nhead x = h then (case fuel of 0 \<Rightarrow> Inl OutOfFuel | Suc m \<Rightarrow> flatten m o1 opt h f (nkids x))
            else rbind (if opt then (case fuel of 0 \<Rightarrow> Inl OutOfFuel | Suc m \<Rightarrow> optimize_node m o1 f x) else Inr (f, x))
              (\<lambda>(f1, y). if nhead y = h
                 then (case fuel of 0 \<Rightarrow> Inl OutOfFuel | Suc m \<Rightarrow> flatten m o1 opt h f1 (nkids y))
                 else Inr (f1, [y])))
       (\<lambda>(f2, ys). rbind (flatten fuel o1 opt h f2 xs) (\<lambda>(f3, zs). Inr (f3, ys @ zs)))"
  by pat_completeness auto
termination
  by (relation "measures [\<lambda>x. case x of Inl (m, _) \<Rightarrow> m | Inr (Inl (m, _)) \<Rightarrow> m | Inr (Inr (m, _)) \<Rightarrow> m,
        \<lambda>x. case x of Inl _ \<Rightarrow> 0 | Inr (Inl (_, _, _, xs)) \<Rightarrow> Suc (length xs) | Inr (Inr (_, _, _, _, _, xs)) \<Rightarrow> length xs]")
    auto

declare optimize_node.simps [simp del] optimize_children.simps [simp del] flatten.simps [simp del]

definition optimize :: "nat \<Rightarrow> opts \<Rightarrow> func \<Rightarrow> node \<Rightarrow> new_node" where
  "optimize fuel o1 f n =
     (if good (fcode f) \<and> node_valid n \<and> oflags o1 \<noteq> 0 then optimize_node fuel o1 f n else Inr (f, n))"

end
