(* ===== verification/Simplify.thy ===== *)
theory Simplify imports Optimizer begin

text \<open>
  What the simplifications of one node promise (\<open>simplify_*\<close>, \<open>partial_eval_binary\<close>, \<open>try_*\<close> of \<open>Optimizer\<close>): on
  expressions of kinds of at most 16 bits, predicate \<open>makes\<close>: the code of the function only grows, and a node given in
  return has the kind of the original and its value, wherever that has one. \<open>Optimizer_Sound\<close> lifts it to trees.
\<close>

subsection \<open>Laws of the operators on values\<close>

lemma kind_wrap_minus: "kind_wrap k (- kind_wrap k i - j) = kind_wrap k (- i - j)"
proof -
  have "(- kind_wrap k i) mod 2 ^ kind_bitsize k = (- i) mod 2 ^ kind_bitsize k"
    using mod_diff_cong [OF refl kind_wrap_mod, of 0 k i] by simp
  then show ?thesis unfolding kind_wrap_eq_iff by (rule mod_diff_cong) simp
qed

lemma kind_wrap_minus0: "kind_wrap k (- kind_wrap k i) = kind_wrap k (- i)"
  using kind_wrap_minus [of k i 0] by simp

lemma val_not_wraps:
  assumes "int_kind (vkind a)" shows "wraps_to (vkind a) (- val_int a - 1) (val_not a)"
proof -
  have n: "NOT (vbits a) = - vbits a - 1" by (simp add: not_eq_complement)
  have "uint (- vbits a - 1) mod 2 ^ 64 = (- val_int a - 1) mod 2 ^ 64"
    by (rule uint_arith_mod(2) [OF uint_arith_mod(4) [OF val_int_mod [symmetric]]]) simp_all
  then show ?thesis
    using wraps_to_extI [OF int_kind_bitsize [OF assms]] int_kind_not_float [OF assms] by (simp add: val_not_def n)
qed

lemma wraps_to_unique:
  assumes "wraps_to k i r" "wraps_to k j s" "kind_wrap k i = kind_wrap k j" shows "r = s"
  using assms val_int_inj unfolding wraps_to_def by force

text \<open>The double operators of \<open>simplify_unary\<close>.\<close>

lemma unary_laws:
  assumes "int_kind (vkind v)" "canonical v"
  shows "Option.bind (val_not v) val_not = Some v"
    "Option.bind (val_neg v) val_neg = Some v"
    "val_int (mk_val (vkind v) c) = 1 \<Longrightarrow> Option.bind (val_not v) val_neg = val_add v (mk_val (vkind v) c)"
    "val_int (mk_val (vkind v) c) = 1 \<Longrightarrow> Option.bind (val_neg v) val_not = val_sub v (mk_val (vkind v) c)"
proof -
  let ?k = "vkind v" and ?i = "val_int v"
  obtain p where p: "val_not v = Some p" "vkind p = ?k" "val_int p = kind_wrap ?k (- ?i - 1)"
    using val_not_wraps [OF assms(1)] by (auto simp: wraps_to_def)
  obtain m where m: "val_neg v = Some m" "vkind m = ?k" "val_int m = kind_wrap ?k (- ?i)"
    using val_arith_wraps(4) [OF assms(1) refl] by (auto simp: wraps_to_def)
  have i: "wraps_to ?k ?i (Some v)"
    using assms canonical_wrap int_kind_bitsize by (simp add: wraps_to_def)
  have w: "wraps_to ?k (- val_int p - 1) (val_not p)" "wraps_to ?k (- val_int p) (val_neg p)"
    "wraps_to ?k (- val_int m - 1) (val_not m)" "wraps_to ?k (- val_int m) (val_neg m)"
    using val_not_wraps [of p] val_arith_wraps(4) [of p p] val_not_wraps [of m] val_arith_wraps(4) [of m m] p(2) m(2) assms(1)
    by simp_all
  have wr: "kind_wrap ?k (- val_int p - 1) = kind_wrap ?k ?i" "kind_wrap ?k (- val_int m) = kind_wrap ?k ?i"
    "kind_wrap ?k (- val_int p) = kind_wrap ?k (?i + 1)" "kind_wrap ?k (- val_int m - 1) = kind_wrap ?k (?i - 1)"
    using kind_wrap_minus [of ?k "- ?i - 1" 1] kind_wrap_minus0 [of ?k "- ?i - 1"] kind_wrap_minus0 [of ?k "- ?i"]
      kind_wrap_minus [of ?k "- ?i" 1] p(3) m(3) by (simp_all add: add.commute)
  show "Option.bind (val_not v) val_not = Some v" "Option.bind (val_neg v) val_neg = Some v"
    using wraps_to_unique [OF w(1) i wr(1)] wraps_to_unique [OF w(4) i wr(2)] p(1) m(1) by simp_all
  assume one: "val_int (mk_val ?k c) = 1"
  have "wraps_to ?k (?i + 1) (val_add v (mk_val ?k c))" "wraps_to ?k (?i - 1) (val_sub v (mk_val ?k c))"
    using val_arith_wraps(1,2) [OF assms(1), of "mk_val ?k c"] one by simp_all
  with wraps_to_unique [OF w(2) _ wr(3)] wraps_to_unique [OF w(3) _ wr(4)] p(1) m(1)
  show "Option.bind (val_not v) val_neg = val_add v (mk_val ?k c)" "Option.bind (val_neg v) val_not = val_sub v (mk_val ?k c)"
    by simp_all
qed

lemma cast_same:
  assumes "int_kind (vkind v)" "canonical v"
  shows "val_cast v (vkind v) = Some v" "val_bitcopy v (vkind v) = Some v"
  using assms by (simp_all add: val_cast_def val_bitcopy_def canonical_Some)

lemma comparison_laws:
  assumes "int_kind (vkind x)" "vkind y = vkind x"
  shows "is_comparison op \<Longrightarrow> eval_binary_op (swap_comparison op) y x = eval_binary_op op x y"
    "is_comparison op \<Longrightarrow> \<exists>b. eval_binary_op op x y = Some (val_bool b) \<and> eval_binary_op (not_comparison op) x y = Some (val_bool (\<not> b))"
proof -
  have y: "int_kind (vkind y)" using assms by simp
  note c = val_compare_eq [OF assms] val_compare_eq [OF y assms(2) [symmetric]]
  show "is_comparison op \<Longrightarrow> eval_binary_op (swap_comparison op) y x = eval_binary_op op x y"
    by (cases op) (auto simp: is_comparison_def eval_binary_op_def c)
  show "is_comparison op \<Longrightarrow> \<exists>b. eval_binary_op op x y = Some (val_bool b) \<and> eval_binary_op (not_comparison op) x y = Some (val_bool (\<not> b))"
    by (cases op) (auto simp: is_comparison_def eval_binary_op_def c not_less not_le)
qed

lemma val_lnot_not: "val_lnot (val_bool b) = val_bool (\<not> b)"
  by (simp add: val_lnot_bool)

text \<open>An operation on a value and its identity, and on a value and itself.\<close>

lemma narrow_kind_cases:
  assumes "narrow_kind k"
  obtains "k = eBool" | "k = eInt8" | "k = eInt16" | "k = eUint8" | "k = eUint16"
  using assms by (auto simp: narrow_kind_def)

lemma narrow_one: "narrow_kind k \<Longrightarrow> ext_word k 1 = 1" "narrow_kind k \<Longrightarrow> val_int (mk_val k 1) = 1"
  "narrow_kind k \<Longrightarrow> canonical (mk_val k 1)" "narrow_kind k \<Longrightarrow> canonical (mk_val k 0)"
  by (elim narrow_kind_cases; simp add: ext_word_def val_int_def canonical_iff)+

lemma val_identity2_law:
  assumes "narrow_kind (vkind x)" "canonical x" "val_identity2 (vkind x) op = Some e" "val_is_valid e"
  shows "eval_binary_op op x e = Some x" "op \<notin> {LAND, LOR}" "\<not> is_comparison op"
proof -
  have ik: "int_kind (vkind x)" using assms(1) narrow_kind_int by blast
  have e: "e = mk_val (vkind x) (if op = QUO then 1 else 0)" "op \<in> {SUB, SHL, SHR, QUO}"
    using assms val_cast_uint64 [OF ik] narrow_one(1) [OF assms(1)]
    by (auto simp: val_identity2_def bad_value_def val_is_valid_def split: op2.splits)
  then show "op \<notin> {LAND, LOR}" "\<not> is_comparison op" by (auto simp: is_comparison_def)
  have ext: "extend_or_truncate (vkind x) (vbits x) = Some x" using assms(2) by (rule canonical_Some)
  note nf = int_kind_not_float [OF ik]
  have one: "int64_defined a 1" "sint (1 :: u64) = 1" "sint a sdiv 1 = sint a" for a :: u64
    by (simp_all add: int64_defined_def signed_divide_int_def mult_sgn_abs)
  show "eval_binary_op op x e = Some x"
    using e nf ext one
    by (auto simp: eval_binary_op_def val_sub_def val_arith_def val_shl_def val_shr_def val_quo_def)
qed

lemma val_self_laws:
  assumes "narrow_kind (vkind x)" "canonical x"
  shows "val_sub x x = Some (mk_val (vkind x) 0)"
    "val_quo x x = Some v \<Longrightarrow> v = mk_val (vkind x) 1" "val_rem x x = Some v \<Longrightarrow> v = mk_val (vkind x) 0"
proof -
  have ik: "int_kind (vkind x)" using assms(1) narrow_kind_int by blast
  note nf = int_kind_not_float [OF ik] and ext = extend_or_truncate_eq [OF int_kind_bitsize [OF ik]]
  have z: "sint a \<noteq> 0" if "a \<noteq> 0" for a :: u64 using that sint_eq_iff [of a 0] by auto
  have u: "uint a \<noteq> 0" if "a \<noteq> 0" for a :: u64 using that unsigned_0 [where ?'a = int] word_uint_eqI [of a 0] by auto
  have d: "sint a sdiv sint a = 1" "sint a smod sint a = 0" "a div a = 1" "a mod a = 0" if "a \<noteq> 0" for a :: u64
    using z [OF that] u [OF that] that by (auto simp: signed_divide_int_def signed_modulo_int_def sgn_if word_div_def word_mod_def)
  show "val_sub x x = Some (mk_val (vkind x) 0)" by (simp add: val_sub_def val_arith_def nf ext)
  show "val_quo x x = Some v \<Longrightarrow> v = mk_val (vkind x) 1" "val_rem x x = Some v \<Longrightarrow> v = mk_val (vkind x) 0"
    using nf d narrow_one(1) [OF assms(1)]
    by (auto simp: val_quo_def val_rem_def ext int64_defined_def split: if_splits)
qed

subsection \<open>The state\<close>

text \<open>
  The allocator never grants \<open>2 ^ 32\<close> bytes: the offsets of nodes have 32 bits. Then the code stays small, and a
  function only adds to it.
\<close>

definition bounded :: "func \<Rightarrow> bool" where
  "bounded f \<longleftrightarrow> arr_ok (bdata (fcode f)) \<and> 4 * acap (bdata (fcode f)) < 2 ^ 32 \<and> (\<forall>n. alloc_code f n \<longrightarrow> 4 * n < 2 ^ 32)"

definition grows :: "func \<Rightarrow> func \<Rightarrow> bool" where
  "grows f f' \<longleftrightarrow> bounded f' \<and> (\<exists>ys. items (fcode f') = items (fcode f) @ ys)"

definition held :: "func \<Rightarrow> node \<Rightarrow> bool" where
  "held f n \<longleftrightarrow> stored (items (fcode f)) n"

text \<open>The expressions the theorem is about, in the code of the function.\<close>

definition expr_ok :: "func \<Rightarrow> node \<Rightarrow> bool" where
  "expr_ok f n \<longleftrightarrow> held f n \<and> wk n \<and> narrow n"

lemma bounded_small: "bounded f \<Longrightarrow> small (fcode f)"
  by (simp add: bounded_def small_def arr_ok_def)

lemma grows_refl: "bounded f \<Longrightarrow> grows f f"
  by (simp add: grows_def)

lemma grows_trans: "grows f g \<Longrightarrow> grows g h \<Longrightarrow> grows f h"
  by (auto simp: grows_def)

lemma grows_held: "grows f f' \<Longrightarrow> held f n \<Longrightarrow> held f' n"
  by (auto simp: grows_def held_def stored_append)

lemma grows_expr_ok: "grows f f' \<Longrightarrow> expr_ok f n \<Longrightarrow> expr_ok f' n"
  by (simp add: expr_ok_def grows_held)

definition code_bounded :: "(nat \<Rightarrow> bool) \<Rightarrow> code \<Rightarrow> bool" where
  "code_bounded ok c \<longleftrightarrow> arr_ok (bdata c) \<and> 4 * acap (bdata c) < 2 ^ 32 \<and> (\<forall>n. ok n \<longrightarrow> 4 * n < 2 ^ 32)"

lemma code_bounded_add: "code_bounded ok c \<Longrightarrow> code_bounded ok (code_add_items ok xs c)"
proof -
  assume b: "code_bounded ok c"
  let ?r = "arr_append 0 ok xs (bdata c)"
  have "arr_ok (snd ?r)" using b by (simp add: code_bounded_def arr_append_ok)
  moreover have "4 * acap (snd ?r) < 2 ^ 32"
  proof (cases "acap (snd ?r) = acap (bdata c)")
    case False
    then have "ok (acap (snd ?r))"
      by (auto simp: arr_append_cases arr_grow_cap_def arr_reserve_def Let_def split: if_splits)
    with b show ?thesis by (simp add: code_bounded_def)
  qed (use b in \<open>simp add: code_bounded_def\<close>)
  ultimately show ?thesis using b by (auto simp: code_bounded_def code_add_items_def buf_append_def split: prod.splits)
qed

lemma code_bounded_nodes: "code_bounded ok c \<Longrightarrow> code_bounded ok (code_add_nodes ok ns p c)"
  by (induction ns arbitrary: c) (simp_all add: code_add_node_def code_add_item_def Let_def code_bounded_add)

lemma code_bounded_truncate: "code_bounded ok c \<Longrightarrow> code_bounded ok (code_truncate n c)"
  by (auto simp: code_bounded_def code_truncate_def buf_truncate_def arr_truncate_def view_truncate_def arr_ok_def Let_def)

lemma bounded_code: "bounded f \<longleftrightarrow> code_bounded (alloc_code f) (fcode f)"
  by (simp add: bounded_def code_bounded_def)

lemma create_indirect_bounded:
  assumes "create_indirect f h kids = Some (f', n)" "bounded f" shows "bounded f'"
proof -
  have "code_bounded (alloc_code f) c" if "create_loop (alloc_code f) h kids (fcode f) = Some (c, m)" for c m
    using that assms(2) unfolding create_loop_eq Let_def bounded_code
    by (auto simp: code_add_header_def code_add_item_def code_bounded_add code_bounded_nodes code_bounded_truncate
        split: if_splits)
  with assms show ?thesis by (auto simp: create_indirect_def bounded_code split: if_splits)
qed

lemma stored_bound:
  assumes "stored xs n" "nind n" shows "unat (noff n) < 4 * length xs"
  using assms by (auto simp: stored_indirect node_image_def)

text \<open>What creating a node does.\<close>

lemma create_indirect_held:
  assumes "create_indirect f h kids = Some (f', n)" "bounded f" "\<And>k. k \<in> set kids \<Longrightarrow> held f k" "shape_ok h [] kids"
  shows "grows f f'" "n = bad_node \<or> held f' n \<and> nhead n = h \<and> nkids n = kids \<and> nind n"
proof -
  note s = bounded_small [OF assms(2)] and b = create_indirect_bounded [OF assms(1,2)]
  from create_indirect_cases [OF assms(1) s]
  show g: "grows f f'" using b by (auto simp: grows_def)
  show "n = bad_node \<or> held f' n \<and> nhead n = h \<and> nkids n = kids \<and> nind n"
  proof (cases "n = bad_node")
    case False
    with create_indirect_cases [OF assms(1) s] have n: "n = Node h (code_length (fcode f)) True [] kids"
      and it: "items (fcode f') = items (fcode f) @ parent_items h (of_nat (length kids)) kids (code_length (fcode f)) @ []"
      by auto
    have "stored (items (fcode f')) n"
      unfolding n by (rule stored_new [OF s it assms(4)]) (use assms(3) stored_bound in \<open>auto simp: held_def\<close>)
    with n show ?thesis by (simp add: held_def)
  qed simp
qed

subsection \<open>New nodes\<close>

text \<open>
  What a function that makes a node promises: it only adds to the code, and when it gives a valid node, it is an
  expression of the kind \<open>k\<close> with the value \<open>m\<close>, wherever \<open>m\<close> has one.
\<close>

definition makes :: "func \<Rightarrow> kind \<Rightarrow> (env \<Rightarrow> val option) \<Rightarrow> func \<times> node \<Rightarrow> bool" where
  "makes f k m r \<longleftrightarrow> grows f (fst r) \<and>
     (node_valid (snd r) \<longrightarrow> expr_ok (fst r) (snd r) \<and> nkind (snd r) = k \<and>
        (\<forall>env v. env_ok env \<longrightarrow> m env = Some v \<longrightarrow> ev env (snd r) = Some v))"

lemma makes_none [intro]: "bounded f \<Longrightarrow> makes f k m (f, bad_node)"
  by (simp add: makes_def grows_refl)

lemma makes_existing:
  "bounded f \<Longrightarrow> expr_ok f x \<Longrightarrow> nkind x = k \<Longrightarrow> (\<And>env v. env_ok env \<Longrightarrow> m env = Some v \<Longrightarrow> ev env x = Some v) \<Longrightarrow>
    makes f k m (f, x)"
  by (simp add: makes_def grows_refl)

lemma makes_mono:
  "makes f k m r \<Longrightarrow> (\<And>env v. env_ok env \<Longrightarrow> m' env = Some v \<Longrightarrow> m env = Some v) \<Longrightarrow> makes f k m' r"
  by (simp add: makes_def)

lemma makes_after: "grows f f1 \<Longrightarrow> makes f1 k m r \<Longrightarrow> makes f k m r"
  using grows_trans by (auto simp: makes_def)

lemma expr_okD: "expr_ok f x \<Longrightarrow> wk x \<and> narrow x \<and> held f x \<and> narrow_kind (nkind x) \<and> node_valid x"
  using wk_kind by (auto simp: expr_ok_def narrow_unfold [of x] node_valid_def header_valid_def)

lemma expr_ok_as: "expr_ok f x \<Longrightarrow> as_expr x = x"
  using expr_okD wk_expr by blast

lemma expr_ok_kid: "expr_ok f n \<Longrightarrow> x \<in> set (nkids n) \<Longrightarrow> expr_ok f x"
  using stored_kid wk_kids by (auto simp: expr_ok_def held_def narrow_unfold [of n] list_all_iff)

lemma expr_ok_kind: "expr_ok f x \<Longrightarrow> env_ok env \<Longrightarrow> ev env x = Some v \<Longrightarrow> vkind v = nkind x \<and> canonical v"
  using ev_kind by (auto simp: expr_ok_def)

lemma narrow_direct:
  assumes "narrow_kind (vkind v)" "canonical v"
  shows "vbits v \<le> 0x7FFFFF \<or> NOT (vbits v) \<le> 0x7FFFFF" "vkind v AND 0xF0 = 0"
proof -
  have ik: "int_kind (vkind v)" using assms(1) narrow_kind_int by blast
  have e: "ext_word (vkind v) (vbits v) = vbits v" using canonical_ext [OF assms(2) ik] .
  have bs: "kind_bitsize (vkind v) \<noteq> 0" "kind_bitsize (vkind v) \<le> 16"
    using assms(1) by (elim narrow_kind_cases; simp)+
  let ?n = "kind_bitsize (vkind v)"
  have m: "w \<le> 0x7FFFFF" if "\<And>i. bit w i \<Longrightarrow> i < 16" for w :: u64
  proof -
    have "take_bit 16 w = w" using that by (auto simp: bit_eq_iff bit_take_bit_iff)
    then have "unat w < 2 ^ 16" by (metis take_bit_nat_less_exp unsigned_take_bit_eq)
    then show ?thesis by (simp add: word_le_nat_alt)
  qed
  show "vbits v \<le> 0x7FFFFF \<or> NOT (vbits v) \<le> 0x7FFFFF"
  proof (cases "kind_is (vkind v) [gInt] \<and> bit (vbits v) (?n - 1)")
    case True
    then have s: "signed_take_bit (?n - 1) (vbits v) = vbits v" using e bs by (simp add: ext_word_def)
    have "bit (NOT (vbits v)) i \<Longrightarrow> i < 16" for i
      using True bs by (subst (asm) s [symmetric]) (auto simp: bit_simps min_def split: if_splits)
    then show ?thesis using m by blast
  next
    case False
    have "i < 16" if b: "bit (vbits v) i" for i
    proof -
      have "bit (ext_word (vkind v) (vbits v)) i" unfolding e by (rule b)
      with False bs show ?thesis by (auto simp: ext_word_def bit_simps min_def split: if_splits)
    qed
    then show ?thesis using m by blast
  qed
  show "vkind v AND 0xF0 = 0" using assms(1) by (elim narrow_kind_cases; simp)
qed

lemma const_create_narrow:
  assumes "narrow_kind (vkind v)" "canonical v"
  obtains n where "const_create f v = (f, n)" "expr_ok f n" "nkind n = vkind v" "const_val n = v" "nty n = CONSTN" "node_valid n"
proof
  let ?n = "Node (const_header (vkind v)) (imm_direct v) False [] []"
  have k: "vkind v \<noteq> 0" "eVoid < vkind v" "int_kind (vkind v)" using narrow_kind_int [OF assms(1)] by simp_all
  have d: "imm_direct v \<noteq> 0" using narrow_direct [OF assms] by (intro imm_direct_small)
  show c: "const_create f v = (f, ?n)"
    using d k(1) by (simp add: const_create_def val_is_valid_def)
  have rt: "imm_parse_direct (imm_direct v) = v" "bit (imm_direct v) 0"
    using imm_direct_round_trip [OF d] k(2) by simp_all
  then show cv: "const_val ?n = v" by (simp add: const_val_def)
  have "imm_parse_direct_kind (imm_direct v) = vkind v"
    using arg_cong [OF rt(1), of vkind] by (simp add: imm_parse_direct_def Let_def)
  moreover have "imm_direct v AND 1 \<noteq> 0"
  proof
    assume "imm_direct v AND 1 = 0"
    then have "\<not> bit (imm_direct v AND 1) 0" by simp
    with rt(2) show False by (simp add: bit_and_iff)
  qed
  ultimately have "held f ?n" by (simp add: held_def stored.simps direct_ok_def)
  with cv k assms show "expr_ok f ?n"
    by (simp add: expr_ok_def wk.simps narrow.simps const_header_def)
  show "nkind ?n = vkind v" "nty ?n = CONSTN" "node_valid ?n" using k(1)
    by (simp_all add: const_header_def node_valid_def header_valid_def)
qed

lemma makes_const:
  assumes "bounded f" "narrow_kind (vkind v)" "canonical v" "\<And>env w. env_ok env \<Longrightarrow> m env = Some w \<Longrightarrow> w = v"
  shows "makes f (vkind v) m (const_create f v)"
proof -
  obtain n where n: "const_create f v = (f, n)" "expr_ok f n" "nkind n = vkind v" "const_val n = v" "nty n = CONSTN"
    using const_create_narrow [OF assms(2,3)] by metis
  show ?thesis unfolding n(1) using assms(4) n ev_eqs(2) [OF n(5)] by (intro makes_existing assms(1)) auto
qed

lemma wk_constI:
  "nty n = CONSTN \<Longrightarrow> nkids n = [] \<Longrightarrow> int_kind (nkind n) \<Longrightarrow> nkind n \<noteq> eBad \<Longrightarrow> vkind (const_val n) = nkind n \<Longrightarrow>
    canonical (const_val n) \<Longrightarrow> wk n"
  by (cases n) (simp add: wk.simps)

lemma small_expr_ok:
  assumes "narrow_kind k" "canonical (mk_val k (ucast w))"
  shows "expr_ok f (const_small k w)" "nkind (const_small k w) = k" "ev env (const_small k w) = Some (mk_val k (ucast w))"
proof -
  have k: "k < 16" "eVoid < k" "int_kind k" "k \<noteq> 0" using narrow_kind_int [OF assms(1)] by simp_all
  note v = const_small_val [OF k(1,2), of w]
  have n: "nkids (const_small k w) = []" "\<not> nind (const_small k w)" by (simp_all add: const_small_def)
  have "wk (const_small k w)" using v n assms k by (intro wk_constI) (simp_all add: const_header_def)
  moreover have "narrow (const_small k w)" using v n assms(1) by (simp add: narrow_unfold const_header_def)
  ultimately have "wk (const_small k w)" "narrow (const_small k w)" .
  then show "expr_ok f (const_small k w)" using const_small_stored [OF k(1,2)] by (simp add: expr_ok_def held_def)
  show "nkind (const_small k w) = k" "ev env (const_small k w) = Some (mk_val k (ucast w))"
    using v ev_eqs(2) [of "const_small k w"] by (simp_all add: const_header_def)
qed

lemma wk_cong:
  assumes "nhead a = nhead b" "nkids a = nkids b" "nty a \<notin> {VAR, CONSTN}" shows "wk a = wk b"
  using assms
  by (cases a; cases b; cases "nty a") (simp_all add: wk.simps Let_def node_op1_def node_op2_def node_opn_def)

text \<open>Creating an inner node, given that the node would be well-kinded and mean what is wanted.\<close>

lemma create_expr:
  assumes "create_indirect f h kids = Some r" "bounded f" "\<And>k. k \<in> set kids \<Longrightarrow> expr_ok f k"
    and "wk (Node h 0 True [] kids)" "narrow_kind (hkind h)" "htype h \<notin> {VAR, CONSTN}"
    and "\<And>env v. env_ok env \<Longrightarrow> m env = Some v \<Longrightarrow> ev env (Node h 0 True [] kids) = Some v"
  shows "makes f (hkind h) m r"
proof (cases "length kids < 2 ^ 32")
  case True
  obtain f' n where r: "r = (f', n)" by (cases r)
  have t: "htype h \<in> {UNARY, BINARY, TUPLE}" using wk_cases [OF assms(4)] assms(6) by force
  have "shape_ok h [] kids"
    using assms(4) True t by (auto simp: shape_ok_def data_items_def is_list_type_def to_children_def wk.simps Let_def)
  with create_indirect_held [OF assms(1) [unfolded r] assms(2)] assms(3)
  have g: "grows f f'" and n: "n = bad_node \<or> held f' n \<and> nhead n = h \<and> nkids n = kids \<and> nind n"
    by (auto simp: expr_ok_def)
  show ?thesis
  proof (cases "n = bad_node")
    case False
    with n have n: "held f' n" "nhead n = h" "nkids n = kids" "nind n" by auto
    have "wk n = wk (Node h 0 True [] kids)" using n assms(6) by (intro wk_cong) simp_all
    moreover have "ev env n = ev env (Node h 0 True [] kids)" for env using n assms(6) by (intro ev_cong) simp_all
    moreover have "narrow n" using n assms(3,5,6) by (auto simp: narrow_unfold [of n] list_all_iff expr_ok_def)
    ultimately show ?thesis using g n assms(4,7) r by (simp add: makes_def expr_ok_def)
  qed (use g r in \<open>simp add: makes_def\<close>)
next
  case False
  with assms(1) have "r = (f, bad_node)" by (simp add: create_indirect_def)
  with assms(2) show ?thesis by auto
qed

lemma ev_inner:
  "htype h = UNARY \<Longrightarrow> ev env (Node h off ind d [x]) =
     Option.bind (ev env x) (eval_unary_op (hkind h) (node_op1 (Node h off ind d [x])))"
  "htype h = BINARY \<Longrightarrow> ev env (Node h off ind d [x, y]) =
     Option.bind (ev env x) (\<lambda>v. ev_and_or (node_op2 (Node h off ind d [x, y])) v (ev env y))"
  "htype h = TUPLE \<Longrightarrow> ev env (Node h off ind d ks) =
     Option.bind (those (map (ev env) ks)) (eval_tuple_op (hkind h) (node_opn (Node h off ind d ks)))"
  by (simp_all add: ev_eqs)

definition mean2 :: "op2 \<Rightarrow> node \<Rightarrow> node \<Rightarrow> env \<Rightarrow> val option" where
  "mean2 op x y env = Option.bind (ev env x) (\<lambda>v. ev_and_or op v (ev env y))"

definition meann :: "kind \<Rightarrow> opn \<Rightarrow> node list \<Rightarrow> env \<Rightarrow> val option" where
  "meann k op ks env = Option.bind (those (map (ev env) ks)) (eval_tuple_op k op)"

lemma makes_binary:
  assumes "binary_create f op x y = Some r" "bounded f" "expr_ok f x" "expr_ok f y" "nkind y = nkind x"
    and "wk_binary op k (nkind x)" "narrow_kind k"
    and "\<And>env v. env_ok env \<Longrightarrow> m env = Some v \<Longrightarrow> mean2 op x y env = Some v"
  shows "makes f k m r"
proof -
  have bk: "binary_kind op x = k" using assms(6) by (cases op) (auto simp: wk_binary_def binary_kind_def)
  let ?h = "mk_header BINARY k (op2_code op)"
  have "makes f (hkind ?h) m r"
  proof (rule create_expr)
    show "create_indirect f ?h [x, y] = Some r" using assms(1) by (simp add: binary_create_def bk)
    show "wk (Node ?h 0 True [] [x, y])"
      using assms expr_okD [OF assms(3)] expr_okD [OF assms(4)] narrow_kind_int [OF assms(7)] by (simp add: wk.simps Let_def)
    show "ev env (Node ?h 0 True [] [x, y]) = Some v" if "env_ok env" "m env = Some v" for env v
      using assms(8) [OF that] by (simp add: ev_inner mean2_def)
  qed (use assms in auto)
  then show ?thesis by simp
qed

lemma makes_tuple:
  assumes "tuple_create f k op ks = Some r" "bounded f" "\<And>x. x \<in> set ks \<Longrightarrow> expr_ok f x \<and> nkind x = k"
    and "foldable k op" "narrow_kind k" "\<And>env v. env_ok env \<Longrightarrow> m env = Some v \<Longrightarrow> meann k op ks env = Some v"
  shows "makes f k m r"
proof -
  let ?h = "mk_header TUPLE k (opn_code op)"
  have "makes f (hkind ?h) m r"
  proof (rule create_expr)
    show "create_indirect f ?h ks = Some r" using assms(1) by (simp add: tuple_create_def)
    show "wk (Node ?h 0 True [] ks)"
      using assms(3-5) expr_okD narrow_kind_int [OF assms(5)] by (auto simp: wk.simps Let_def list_all_iff)
    show "ev env (Node ?h 0 True [] ks) = Some v" if "env_ok env" "m env = Some v" for env v
      using assms(6) [OF that] by (simp add: ev_inner meann_def)
  qed (use assms in auto)
  then show ?thesis by simp
qed

text \<open>\<open>One\<close> on a narrow kind.\<close>

lemma one_narrow:
  assumes "narrow_kind k"
  shows "one_const f k = (f, const_small k 1)" "expr_ok f' (const_small k 1)" "nkind (const_small k 1) = k"
    "ev env (const_small k 1) = Some (mk_val k 1)"
  using assms small_expr_ok [of k 1] narrow_one(3) [of k] by (auto simp: one_const_def narrow_kind_def)

lemma zero_narrow:
  assumes "narrow_kind k"
  shows "expr_ok f (zero_const k)" "nkind (zero_const k) = k" "ev env (zero_const k) = Some (mk_val k 0)"
  using assms small_expr_ok [of k 0] narrow_one(4) [of k] by (simp_all add: zero_const_def)

lemma bool_consts:
  "expr_ok f false_const" "nkind false_const = eBool" "ev env false_const = Some (val_bool False)"
  "expr_ok f true_const" "nkind true_const = eBool" "ev env true_const = Some (val_bool True)"
proof -
  have "const_bool b = const_small eBool (of_bool b)" for b
    by (simp add: const_bool_def const_small_def kind_nosimd_def const_header_def)
  then have c: "false_const = zero_const eBool" "true_const = const_small eBool 1"
    by (simp_all add: false_const_def true_const_def zero_const_def)
  have k: "narrow_kind eBool" by (simp add: narrow_kind_def)
  show "expr_ok f false_const" "nkind false_const = eBool" "ev env false_const = Some (val_bool False)"
    "expr_ok f true_const" "nkind true_const = eBool" "ev env true_const = Some (val_bool True)"
    using zero_narrow [OF k] one_narrow(2-4) [OF k] by (simp_all add: c val_bool_def)
qed

subsection \<open>Unary expressions\<close>

definition mean1 :: "kind \<Rightarrow> op1 \<Rightarrow> node \<Rightarrow> env \<Rightarrow> val option" where
  "mean1 k op x env = Option.bind (ev env x) (eval_unary_op k op)"

lemma simplify_cast_sound:
  assumes "bounded f" "expr_ok f x"
  shows "makes f k (mean1 k op x) (f, simplify_cast k op x)"
proof (cases "(op = CAST \<or> op = BITCOPY) \<and> k = nkind x")
  case True
  have "ev env x = Some v" if "env_ok env" "mean1 k op x env = Some v" for env v
  proof -
    from that obtain w where w: "ev env x = Some w" "eval_unary_op k op w = Some v"
      by (auto simp: mean1_def bind_eq_Some_conv)
    with expr_ok_kind [OF assms(2) that(1)] True expr_okD [OF assms(2)] wk_kind cast_same [of w] show ?thesis
      by (auto simp: eval_unary_op_def)
  qed
  with True assms show ?thesis by (auto simp: simplify_cast_def intro!: makes_existing)
next
  case False
  with assms show ?thesis by (auto simp: simplify_cast_def)
qed

lemma ev_unary_kid:
  assumes "expr_ok f x" "nty x = UNARY"
  obtains y where "nkids x = [y]" "expr_ok f y" "wk_unary (node_op1 x) (nkind x) (nkind y)"
    "\<And>env. ev env x = mean1 (nkind x) (node_op1 x) y env" "as_expr (child x 0) = y"
proof -
  have "wk x" using expr_okD [OF assms(1)] by blast
  then show ?thesis
  proof (cases rule: wk_cases)
    case (UNARY y)
    moreover have "expr_ok f y" using expr_ok_kid [OF assms(1)] UNARY by simp
    ultimately show ?thesis
      using that [of y] ev_eqs(3) [OF UNARY(1,2)] wk_expr [OF UNARY(3)] by (simp add: mean1_def)
  qed (use assms(2) in simp_all)
qed

lemma ev_binary_kids:
  assumes "expr_ok f x" "nty x = BINARY"
  obtains y z where "nkids x = [y, z]" "expr_ok f y" "expr_ok f z" "nkind z = nkind y"
    "wk_binary (node_op2 x) (nkind x) (nkind y)" "\<And>env. ev env x = mean2 (node_op2 x) y z env"
    "as_expr (child x 0) = y" "as_expr (child x 1) = z"
proof -
  have "wk x" using expr_okD [OF assms(1)] by blast
  then show ?thesis
  proof (cases rule: wk_cases)
    case (BINARY y z)
    moreover have "expr_ok f y" "expr_ok f z" using expr_ok_kid [OF assms(1)] BINARY by simp_all
    ultimately show ?thesis
      using that [of y z] ev_eqs(4) [OF BINARY(1,2)] wk_expr [OF BINARY(3)] wk_expr [OF BINARY(4)]
      by (simp add: mean2_def child_def children_def)
  qed (use assms(2) in simp_all)
qed

lemma as_type:
  "node_valid (as_unary x) \<longleftrightarrow> nty x = UNARY \<and> node_valid x" "nty x = UNARY \<Longrightarrow> as_unary x = x"
  "node_valid (as_binary x) \<longleftrightarrow> nty x = BINARY \<and> node_valid x" "nty x = BINARY \<Longrightarrow> as_binary x = x"
  "node_valid (as_const x) \<longleftrightarrow> nty x = CONSTN \<and> node_valid x" "nty x = CONSTN \<Longrightarrow> as_const x = x"
  by (simp_all add: downcast_defs)

text \<open>Two nested operators.\<close>

lemma mean1_nested:
  assumes "env_ok env" "expr_ok f y" "\<And>env. ev env x = mean1 k1 op1 y env" "mean1 k op x env = Some v"
  obtains w where "ev env y = Some w" "vkind w = nkind y" "canonical w"
    "Option.bind (eval_unary_op k1 op1 w) (eval_unary_op k op) = Some v"
proof -
  from assms(3,4) obtain w where w: "ev env y = Some w" "Option.bind (eval_unary_op k1 op1 w) (eval_unary_op k op) = Some v"
    by (auto simp: mean1_def bind_eq_Some_conv)
  with expr_ok_kind [OF assms(2,1)] that show ?thesis by blast
qed

lemma eval_unary_eqs: "eval_unary_op k XOR1 = val_not" "eval_unary_op k NEG1 = val_neg"
  "eval_unary_op k NOT1 = (\<lambda>v. Some (val_lnot v))"
  by (simp_all add: fun_eq_iff eval_unary_op_def)

lemma simplify_unary_sound:
  assumes "simplify_unary f k op x = Inr r" "bounded f" "expr_ok f x" "narrow_kind k" "wk_unary op k (nkind x)"
  shows "makes f k (mean1 k op x) r"
proof -
  have xv: "node_valid x" using expr_okD [OF assms(3)] by blast
  consider (un) "nty x = UNARY" | (bin) "nty x = BINARY" | (other) "nty x \<noteq> UNARY" "nty x \<noteq> BINARY" by blast
  then show ?thesis
  proof cases
    case un
    obtain y where y: "nkids x = [y]" "expr_ok f y" "wk_unary (node_op1 x) (nkind x) (nkind y)"
      "\<And>env. ev env x = mean1 (nkind x) (node_op1 x) y env" "as_expr (child x 0) = y"
      by (rule ev_unary_kid [OF assms(3) un]) blast
    have yv: "node_valid y" "int_kind (nkind y)" "narrow_kind (nkind y)"
      using expr_okD [OF y(2)] narrow_kind_int by blast+
    note one = one_narrow [OF yv(3)]
    note nest = mean1_nested [OF _ y(2) y(4), of _ k op]
    let ?xop = "node_op1 x"
    have r: "Inr r = (if op = XOR1 \<and> ?xop = XOR1 then Inr (f, y) else if op = NEG1 \<and> ?xop = NEG1 then Inr (f, y)
        else if op = NEG1 \<and> ?xop = XOR1 then looping (tuple2 f ADDN y (const_small (nkind y) 1))
        else if op = XOR1 \<and> ?xop = NEG1 then looping (binary_create f SUB y (const_small (nkind y) 1))
        else Inr (f, simplify_cast k op x))"
      unfolding assms(1) [symmetric] using un xv yv(1) by (simp add: simplify_unary_def as_type Let_def y(5) one(1))
    have kk: "op \<in> {XOR1, NEG1} \<Longrightarrow> ?xop \<in> {XOR1, NEG1} \<Longrightarrow> k = nkind y"
      using assms(5) y(3) by (auto simp: wk_unary_def)
    consider (xx) "op = XOR1" "?xop = XOR1" | (nn) "op = NEG1" "?xop = NEG1" | (nx) "op = NEG1" "?xop = XOR1"
      | (xn) "op = XOR1" "?xop = NEG1" | (no) "r = (f, simplify_cast k op x)"
      using r by (auto split: if_splits)
    then show ?thesis
    proof cases
      case xx
      with r kk have "r = (f, y)" "nkind y = k" by simp_all
      moreover have "ev env y = Some v" if e: "env_ok env" "mean1 k op x env = Some v" for env v
      proof -
        obtain w where w: "ev env y = Some w" "vkind w = nkind y" "canonical w"
          "Option.bind (eval_unary_op (nkind x) ?xop w) (eval_unary_op k op) = Some v" by (rule nest [OF e])
        then have "Option.bind (val_not w) val_not = Some v" using xx by (simp add: eval_unary_eqs)
        with w unary_laws(1) [of w] yv(2) show ?thesis by simp
      qed
      ultimately show ?thesis using assms(2) y(2) by (auto intro: makes_existing)
    next
      case nn
      with r kk have "r = (f, y)" "nkind y = k" by simp_all
      moreover have "ev env y = Some v" if e: "env_ok env" "mean1 k op x env = Some v" for env v
      proof -
        obtain w where w: "ev env y = Some w" "vkind w = nkind y" "canonical w"
          "Option.bind (eval_unary_op (nkind x) ?xop w) (eval_unary_op k op) = Some v" by (rule nest [OF e])
        then have "Option.bind (val_neg w) val_neg = Some v" using nn by (simp add: eval_unary_eqs)
        with w unary_laws(2) [of w] yv(2) show ?thesis by simp
      qed
      ultimately show ?thesis using assms(2) y(2) by (auto intro: makes_existing)
    next
      case nx
      with r kk have t: "tuple_create f k ADDN [y, const_small k 1] = Some r" "nkind y = k" by (simp_all add: tuple2_def)
      show ?thesis
      proof (rule makes_tuple [OF t(1) assms(2) _ _ assms(4)])
        show "foldable k ADDN" using yv t(2) by (simp add: foldable_def)
        fix env v assume e: "env_ok env" "mean1 k op x env = Some v"
        obtain w where w0: "ev env y = Some w" "vkind w = nkind y" "canonical w"
          "Option.bind (eval_unary_op (nkind x) ?xop w) (eval_unary_op k op) = Some v" by (rule nest [OF e])
        then have w: "ev env y = Some w" "vkind w = k" "canonical w" "Option.bind (val_not w) val_neg = Some v"
          using nx t(2) by (simp_all add: eval_unary_eqs)
        have c: "{w, mk_val k 1} \<subseteq> opn_carrier k ADDN"
          using w yv t(2) narrow_one(3) [OF assms(4)] by (simp add: opn_carrier_def foldable_def)
        have "val_add w (mk_val k 1) = Some v"
          using unary_laws(3) [of w 1] w narrow_one(2) [OF assms(4)] yv t(2) by simp
        then have "opn_fun ADDN w (mk_val k 1) = v" by (simp add: opn_fun_def val_opn_def)
        then show "meann k ADDN [y, const_small k 1] env = Some v"
          using eval_tuple_op_eq [of k ADDN "[w, mk_val k 1]"] c w(1) one(4) t(2) yv
          by (simp add: meann_def opn.neutral foldable_def)
      qed (use y(2) one t(2) in auto)
    next
      case xn
      with r kk have t: "binary_create f SUB y (const_small k 1) = Some r" "nkind y = k" by simp_all
      show ?thesis
      proof (rule makes_binary [OF t(1) assms(2) y(2) _ _ _ assms(4)])
        fix env v assume e: "env_ok env" "mean1 k op x env = Some v"
        obtain w where w0: "ev env y = Some w" "vkind w = nkind y" "canonical w"
          "Option.bind (eval_unary_op (nkind x) ?xop w) (eval_unary_op k op) = Some v" by (rule nest [OF e])
        then have w: "ev env y = Some w" "vkind w = k" "canonical w" "Option.bind (val_neg w) val_not = Some v"
          using xn t(2) by (simp_all add: eval_unary_eqs)
        have "val_sub w (mk_val k 1) = Some v"
          using unary_laws(4) [of w 1] w narrow_one(2) [OF assms(4)] yv t(2) by simp
        then show "mean2 SUB y (const_small k 1) env = Some v"
          using w(1) one(4) t(2) by (simp add: mean2_def ev_and_or_def eval_binary_op_def)
      qed (use one t(2) in \<open>auto simp: wk_binary_def\<close>)
    qed (use simplify_cast_sound [OF assms(2,3)] in simp)
  next
    case bin
    obtain y z where yz: "nkids x = [y, z]" "expr_ok f y" "expr_ok f z" "nkind z = nkind y"
      "wk_binary (node_op2 x) (nkind x) (nkind y)" "\<And>env. ev env x = mean2 (node_op2 x) y z env"
      "as_expr (child x 0) = y" "as_expr (child x 1) = z"
      by (rule ev_binary_kids [OF assms(3) bin]) blast
    show ?thesis
    proof (cases "op = NOT1 \<and> is_comparison (node_op2 x)")
      case True
      then have t: "binary_create f (not_comparison (node_op2 x)) y z = Some r" "k = eBool"
        using assms(1,5) bin xv yz(7,8) by (simp_all add: simplify_unary_def as_type wk_unary_def)
      show ?thesis
      proof (rule makes_binary [OF t(1) assms(2) yz(2-4) _ assms(4)])
        have "not_comparison (node_op2 x) \<in> {LSS, LEQ, NEQ, EQL, GTR, GEQ}"
          using True by (auto simp: is_comparison_def)
        then show "wk_binary (not_comparison (node_op2 x)) k (nkind y)" using t(2) by (auto simp: wk_binary_def)
        fix env v assume e: "env_ok env" "mean1 k op x env = Some v"
        then obtain a b where ab: "ev env y = Some a" "ev env z = Some b"
          "Option.bind (eval_binary_op (node_op2 x) a b) (\<lambda>w. Some (val_lnot w)) = Some v"
          using True yz(6) by (auto simp: mean1_def mean2_def ev_and_or_def bind_eq_Some_conv is_comparison_def eval_unary_op_def)
        have k: "int_kind (vkind a)" "vkind b = vkind a"
          using expr_ok_kind [OF yz(2) e(1) ab(1)] expr_ok_kind [OF yz(3) e(1) ab(2)] yz(4) expr_okD [OF yz(2)] narrow_kind_int by auto
        from comparison_laws(2) [OF k, of "node_op2 x"] True ab(3)
        have "eval_binary_op (not_comparison (node_op2 x)) a b = Some v" by (auto simp: val_lnot_not)
        moreover have "ev_and_or (not_comparison (node_op2 x)) a (Some b) = eval_binary_op (not_comparison (node_op2 x)) a b"
          using True by (auto simp: ev_and_or_def is_comparison_def)
        ultimately show "mean2 (not_comparison (node_op2 x)) y z env = Some v" using ab by (simp add: mean2_def)
      qed
    next
      case False
      then have "r = (f, simplify_cast k op x)"
        using assms(1) bin xv by (auto simp: simplify_unary_def as_type Let_def)
      with simplify_cast_sound [OF assms(2,3)] show ?thesis by simp
    qed
  next
    case other
    then have "r = (f, simplify_cast k op x)"
      using assms(1) by (auto simp: simplify_unary_def as_type Let_def)
    with simplify_cast_sound [OF assms(2,3)] show ?thesis by simp
  qed
qed

lemma try_unary_sound:
  assumes "try_unary o1 f n [x] = Inr r" "bounded f" "expr_ok f x" "narrow_kind (nkind n)"
    "wk_unary (node_op1 n) (nkind n) (nkind x)"
  shows "makes f (nkind n) (mean1 (nkind n) (node_op1 n) x) r"
proof -
  let ?k = "nkind n" and ?op = "node_op1 n"
  have x: "as_expr x = x" "node_valid x" "wk x" "int_kind (nkind x)"
    using expr_okD [OF assms(3)] wk_kind [of x] by (simp_all add: expr_ok_as [OF assms(3)])
  have k: "int_kind ?k" "?k \<noteq> 0" using narrow_kind_int [OF assms(4)] by simp_all
  show ?thesis
  proof (cases "fold_constant o1 \<and> nty x = CONSTN \<and> val_is_valid (const_val x) \<and> node_valid n")
    case True
    have c: "vkind (const_val x) = nkind x" "canonical (const_val x)"
      using x(3) True by (auto elim: wk_cases)
    obtain v where v: "eval_unary_op ?k ?op (const_val x) = Some v" "vkind v = ?k" "canonical v"
      using eval_unary_kind [of "const_val x" ?k ?op] c x(4) k(1) assms(5) by (auto dest!: has_kindD)
    then have r: "r = const_create f v"
      using assms(1) True x k(2) by (simp add: try_unary_def view_get_def val_is_valid_def)
    show ?thesis
      unfolding r v(2) [symmetric]
    proof (rule makes_const [OF assms(2)])
      show "w = v" if "mean1 (vkind v) ?op x env = Some w" for env w
        using that v ev_eqs(2) [of x env] True by (simp add: mean1_def)
    qed (use v assms(4) in simp_all)
  next
    case False
    then have "r = (f, bad_node) \<or> simplify_unary f ?k ?op x = Inr r"
      using assms(1) x
      by (auto simp: try_unary_def view_get_def bad_value_def val_is_valid_def Let_def split: if_splits)
    with simplify_unary_sound [OF _ assms(2-5)] makes_none [OF assms(2)] show ?thesis by metis
  qed
qed

subsection \<open>Binary expressions\<close>

lemma deep_equal_same:
  "bounded f \<Longrightarrow> expr_ok f x \<Longrightarrow> expr_ok f y \<Longrightarrow> deep_equal allow x y \<Longrightarrow> ev env x = ev env y"
  using deep_equal_sound [OF bounded_small] by (auto simp: expr_ok_def held_def)

lemma deep_equal_kind: "deep_equal allow x y \<Longrightarrow> nkind y = nkind x"
  using deep_equal_unfold by auto

lemma deep_pure_wk: "ocheck o1 = 0 \<Longrightarrow> wk n \<Longrightarrow> deep_pure (allow_mask_pure o1) n"
proof (induction n)
  case (Node h off ind d ks)
  have m: "allow_mask_pure o1 = 251" using Node.prems(1) by (simp add: allow_mask_pure_def)
  have a: "is_allowed t op 251 \<longleftrightarrow> t \<noteq> TUPLE \<or> op \<noteq> 9" for t op
    by (simp add: is_allowed_def)
  have "list_all (deep_pure (allow_mask_pure o1)) ks"
    using Node.IH Node.prems by (auto simp: wk.simps Let_def list_all_iff)
  moreover have "hop h \<noteq> 9" if "htype h = TUPLE"
  proof
    assume "hop h = 9"
    then have "node_opn (Node h off ind d ks) = CALL" by (simp add: node_opn_def opn_list_def)
    with Node.prems(2) that show False by (simp add: wk.simps foldable_def)
  qed
  ultimately show ?case
    using Node.prems(2) by (cases "htype h") (simp_all add: deep_pure.simps wk.simps Let_def m a)
qed

text \<open>A comparison is strict in both operands.\<close>

lemma mean2_strict:
  assumes "mean2 op x y env = Some v" "op \<notin> {LAND, LOR}"
  obtains a b where "ev env x = Some a" "ev env y = Some b" "eval_binary_op op a b = Some v"
  using assms that by (auto simp: mean2_def ev_and_or_def bind_eq_Some_conv)

lemma mean2_values:
  "ev env x = Some a \<Longrightarrow> ev env y = Some b \<Longrightarrow> op \<notin> {LAND, LOR} \<Longrightarrow> mean2 op x y env = eval_binary_op op a b"
  by (auto simp: mean2_def ev_and_or_def)

lemma partial_eval_binary_sound:
  assumes "partial_eval_binary f op x y = Inr r" "bounded f" "expr_ok f x" "expr_ok f y" "nkind y = nkind x"
    "wk_binary op k (nkind x)" "narrow_kind k"
  shows "makes f k (mean2 op x y) r"
proof -
  have kx: "narrow_kind (nkind x)" "int_kind (nkind x)" "node_valid x" "node_valid y"
    using expr_okD [OF assms(3)] expr_okD [OF assms(4)] narrow_kind_int by blast+
  let ?changed = "ntype_code (nty x) > ntype_code (nty y) \<and> is_comparison op"
  define x' where "x' = (if ?changed then y else x)"
  define y' where "y' = (if ?changed then x else y)"
  define op' where "op' = (if ?changed then swap_comparison op else op)"
  have ok': "expr_ok f x'" "expr_ok f y'" "nkind x' = nkind x" "nkind y' = nkind x"
    using assms by (simp_all add: x'_def y'_def)
  have m: "mean2 op' x' y' env = Some v" if e: "env_ok env" "mean2 op x y env = Some v" for env v
  proof (cases ?changed)
    case True
    then have ops: "op \<notin> {LAND, LOR}" "swap_comparison op \<notin> {LAND, LOR}" "is_comparison op"
      by (auto simp: is_comparison_def)
    obtain a b where ab: "ev env x = Some a" "ev env y = Some b" "eval_binary_op op a b = Some v"
      by (rule mean2_strict [OF e(2) ops(1)])
    have "int_kind (vkind a)" "vkind b = vkind a"
      using expr_ok_kind [OF assms(3) e(1) ab(1)] expr_ok_kind [OF assms(4) e(1) ab(2)] kx(2) assms(5) by simp_all
    with comparison_laws(1) [of a b op] ab ops show ?thesis
      using True mean2_values [OF ab(2,1) ops(2)] by (simp add: op'_def x'_def y'_def)
  next
    case False
    with e show ?thesis by (simp only: op'_def x'_def y'_def if_False)
  qed
  have wk': "wk_binary op' k (nkind x')"
  proof (cases ?changed)
    case True
    then have "swap_comparison op \<in> {LSS, LEQ, NEQ, EQL, GTR, GEQ}" "op \<in> {LSS, LEQ, NEQ, EQL, GTR, GEQ}"
      by (auto simp: is_comparison_def)
    with True assms(6) ok'(3) show ?thesis by (auto simp: op'_def wk_binary_def)
  next
    case False
    with assms(6) show ?thesis by (simp only: op'_def x'_def if_False)
  qed
  from assms(1) have r: "rbind (if node_valid (as_const y') then ub (val_identity2 (nkind x') op') else Inr bad_value)
      (\<lambda>identity. if node_valid (as_const y') \<and> val_is_valid identity \<and> val_truth (val_eq identity (const_val y'))
         then Inr (f, x') else if ?changed \<and> node_valid x' \<and> node_valid y' then looping (binary_create f op' x' y')
         else Inr (f, bad_node)) = Inr r"
    unfolding partial_eval_binary_def Let_def x'_def y'_def op'_def .
  then obtain e where e': "(if node_valid (as_const y') then ub (val_identity2 (nkind x') op') else Inr bad_value) = Inr e"
    and r2: "(if node_valid (as_const y') \<and> val_is_valid e \<and> val_truth (val_eq e (const_val y'))
         then Inr (f, x') else if ?changed \<and> node_valid x' \<and> node_valid y' then looping (binary_create f op' x' y')
         else Inr (f, bad_node)) = Inr r"
    unfolding rbind_Inr by blast
  from e' have e: "node_valid (as_const y') \<Longrightarrow> val_identity2 (nkind x') op' = Some e" by simp
  show ?thesis
  proof (cases "node_valid (as_const y') \<and> val_is_valid e \<and> val_truth (val_eq e (const_val y'))")
    case True
    then have r: "r = (f, x')" using r2 by simp
    have c: "nty y' = CONSTN" using True as_type(5) by blast
    have cy: "vkind (const_val y') = nkind x" "canonical (const_val y')" "ev env y' = Some (const_val y')" for env
      using expr_okD [OF ok'(2)] c ok'(4) ev_eqs(2) [OF c] by (auto elim: wk_cases)
    have id: "val_identity2 (nkind x) op' = Some e" using e True ok'(3) by simp
    have ek: "vkind e = nkind x" "const_val y' = e"
    proof -
      have "vkind e = vkind (const_val y')"
        using True by (auto simp: val_eq_def val_truth_def bad_value_def val_ne_def val_zero_def split: if_splits)
      then show ek: "vkind e = nkind x" using cy by simp
      with True cy(1) show "const_val y' = e"
        using val_compare_eq(3) [of e "const_val y'"] kx(2) by (intro val_int_inj) simp_all
    qed
    have law: "narrow_kind (vkind v) \<Longrightarrow> canonical v \<Longrightarrow> vkind v = nkind x \<Longrightarrow>
        eval_binary_op op' v e = Some v \<and> op' \<notin> {LAND, LOR} \<and> \<not> is_comparison op'" for v
      using val_identity2_law [of v op' e] id True by auto
    have nl: "op' \<notin> {LAND, LOR} \<and> \<not> is_comparison op'"
      using law [of "mk_val (nkind x) 0"] kx(1) narrow_one(4) [OF kx(1)] by simp
    have val: "ev env x' = Some v" if h: "env_ok env" "mean2 op x y env = Some v" for env v
    proof -
      obtain a b where ab: "ev env x' = Some a" "ev env y' = Some b" "eval_binary_op op' a b = Some v"
        using mean2_strict [OF m [OF h]] nl by blast
      with law [of a] expr_ok_kind [OF ok'(1) h(1) ab(1)] ok'(3) kx(1) cy(3) [of env] ek(2) show ?thesis by simp
    qed
    have "nkind x' = k" using wk' nl ok'(3) by (cases op') (simp_all add: wk_binary_def is_comparison_def)
    with val show ?thesis unfolding r by (intro makes_existing assms(2) ok'(1)) auto
  next
    case False
    with r2 consider "r = (f, bad_node)" | "binary_create f op' x' y' = Some r"
      by (auto split: if_splits)
    then show ?thesis
    proof cases
      case 2
      show ?thesis by (rule makes_binary [OF 2 assms(2) ok'(1,2) _ wk' assms(7) m]) (use ok' in simp_all)
    qed (use assms(2) in auto)
  qed
qed

lemma simplify_comma_pure:
  assumes "ocheck o1 = 0" "expr_ok f x" shows "simplify_comma o1 f [x, y] = Inr (f, y)"
  using deep_pure_wk [OF assms(1)] expr_okD [OF assms(2)] by (simp add: simplify_comma_def)

lemma expr_ok_const:
  assumes "expr_ok f x" "node_valid (as_const x)"
  shows "as_const x = x" "vkind (const_val x) = nkind x" "canonical (const_val x)" "ev env x = Some (const_val x)"
proof -
  have c: "nty x = CONSTN" using assms(2) as_type(5) by blast
  then show "as_const x = x" "ev env x = Some (const_val x)" using as_type(6) ev_eqs(2) by blast+
  show "vkind (const_val x) = nkind x" "canonical (const_val x)"
    using expr_okD [OF assms(1)] c by (auto elim: wk_cases)
qed

lemma simplify_boolean_sound:
  assumes "simplify_boolean o1 f op x y = Inr r" "bounded f" "expr_ok f x" "expr_ok f y" "nkind x = eBool" "nkind y = eBool"
    "op \<in> {LAND, LOR}" "ocheck o1 = 0"
  shows "makes f eBool (mean2 op x y) r"
proof -
  have b: "v = val_bool (vbits v \<noteq> 0)" if "vkind v = eBool" "canonical v" for v using val_bool_cases that .
  have m: "\<exists>p. ev env x = Some (val_bool p) \<and> ((op = LAND \<and> \<not> p \<or> op = LOR \<and> p) \<and> v = val_bool p \<or>
      (\<exists>q. ev env y = Some (val_bool q) \<and> v = val_bool (if op = LAND then p \<and> q else p \<or> q)))"
    if e: "env_ok env" "mean2 op x y env = Some v" for env v
  proof -
    obtain a where a: "ev env x = Some a" "ev_and_or op a (ev env y) = Some v"
      using e(2) by (auto simp: mean2_def bind_eq_Some_conv)
    then have "a = val_bool (vbits a \<noteq> 0)" using b expr_ok_kind [OF assms(3) e(1)] assms(5) by simp
    then obtain p where p: "a = val_bool p" by blast
    show ?thesis
    proof (cases "op = LAND \<and> a = val_bool False \<or> op = LOR \<and> a = val_bool True")
      case True
      with a p show ?thesis by (auto simp: ev_and_or_def)
    next
      case False
      with a obtain c where c: "ev env y = Some c" "eval_binary_op op a c = Some v"
        by (auto simp: ev_and_or_def bind_eq_Some_conv)
      then have "c = val_bool (vbits c \<noteq> 0)" using b expr_ok_kind [OF assms(4) e(1)] assms(6) by simp
      then obtain q where q: "c = val_bool q" by blast
      have "v = val_bool (if op = LAND then p \<and> q else p \<or> q)"
        using c(2) p q assms(7) by (auto simp: eval_binary_op_def val_land_def val_lor_def)
      with c(1) p q a(1) show ?thesis by blast
    qed
  qed
  have c: "ev env z = Some (val_bool (val_truth (const_val z)))" if z: "expr_ok f z" "nkind z = eBool" "node_valid (as_const z)" for z env
  proof -
    have "const_val z = val_bool (vbits (const_val z) \<noteq> 0)" using b expr_ok_const [OF z(1,3)] z(2) by simp
    then obtain p where "const_val z = val_bool p" by blast
    then show ?thesis using expr_ok_const(4) [OF z(1,3), of env] by simp
  qed
  have r: "r = (f, x) \<or> r = (f, y) \<or> r = (f, bad_node)"
    using assms(1,7) simplify_comma_pure [OF assms(8,3)] by (auto simp: simplify_boolean_def Let_def split: if_splits)
  show ?thesis
  proof (cases "node_valid (as_const x)")
    case True
    note cx = expr_ok_const(1) [OF assms(3) True] and ex = c [OF assms(3,5) True]
    have "Inr r = (if (op = LAND) = val_truth (const_val x) then Inr (f, y) else (Inr (f, x) :: new_node))"
      unfolding assms(1) [symmetric] using assms(7) True by (auto simp: simplify_boolean_def Let_def cx)
    then show ?thesis
      using assms m ex by (force split: if_splits intro!: makes_existing)
  next
    case xn: False
    show ?thesis
    proof (cases "node_valid (as_const y)")
      case True
      note cy = expr_ok_const(1) [OF assms(4) True] and ey = c [OF assms(4,6) True]
      have "Inr r = (if (op = LAND) = val_truth (const_val y) then Inr (f, x) else (Inr (f, y) :: new_node))"
        unfolding assms(1) [symmetric]
        using assms(7) True xn simplify_comma_pure [OF assms(8,3)] by (auto simp: simplify_boolean_def Let_def cy)
      then show ?thesis
        using assms m ey by (force split: if_splits intro!: makes_existing)
    next
      case False
      with xn assms(1,7) have "r = (f, bad_node)" by (auto simp: simplify_boolean_def)
      with assms(2) show ?thesis by auto
    qed
  qed
qed

lemma bool_result:
  assumes "bounded f" "\<And>env v. env_ok env \<Longrightarrow> m env = Some v \<Longrightarrow> v = val_bool b"
  shows "makes f eBool m (f, if b then true_const else false_const)"
  using assms bool_consts by (auto intro!: makes_existing)

lemma simplify_comparison_sound:
  assumes "simplify_comparison o1 f op x y = Inr r" "bounded f" "expr_ok f x" "expr_ok f y" "nkind y = nkind x"
    "is_comparison op" "ocheck o1 = 0"
  shows "makes f eBool (mean2 op x y) r"
proof -
  have ops: "op \<notin> {LAND, LOR}" using assms(6) by (auto simp: is_comparison_def)
  have ik: "int_kind (nkind x)" using expr_okD [OF assms(3)] narrow_kind_int by blast
  have m: "\<exists>a b. ev env x = Some a \<and> ev env y = Some b \<and> eval_binary_op op a b = Some v \<and> vkind a = nkind x \<and> vkind b = nkind x \<and>
      canonical a \<and> canonical b" if e: "env_ok env" "mean2 op x y env = Some v" for env v
    using mean2_strict [OF e(2) ops] expr_ok_kind [OF assms(3) e(1)] expr_ok_kind [OF assms(4) e(1)] assms(5) by metis
  show ?thesis
  proof (cases "node_valid (as_const y)")
    case True
    note cy = expr_ok_const [OF assms(4) True]
    show ?thesis
    proof (cases "kind_is_unsigned (nkind y) \<and> val_truth (val_lnot (const_val y))")
      case zero: True
      have u: "kind_is_unsigned (nkind x)" using zero assms(5) by simp
      have "vbits (const_val y) = 0" using zero cy(2) ik assms(5) by (simp add: val_lnot_bool)
      then have z: "val_int (const_val y) = 0" using unsigned_not_int [OF u] cy(2) assms(5) by (simp add: val_int_def)
      have m0: "\<exists>a. ev env x = Some a \<and> eval_binary_op op a (const_val y) = Some v \<and> vkind a = nkind x \<and> 0 \<le> val_int a"
        if e: "env_ok env" "mean2 op x y env = Some v" for env v
        using m [OF e] cy(4) [of env] val_int_unsigned_bound(1) u ik by auto
      note cmp = val_compare_eq [of _ "const_val y"]
      have kb: "wk_binary EQL eBool (nkind x)" "wk_binary NEQ eBool (nkind x)" "narrow_kind eBool"
        by (simp_all add: wk_binary_def narrow_kind_def)
      have ck: "vkind (const_val y) = nkind x" using cy(2) assms(5) by simp
      consider (lss) "op = LSS" "r = (f, false_const)" | (geq) "op = GEQ" "r = (f, true_const)"
        | (leq) "op = LEQ" "binary_create f EQL x y = Some r" | (gtr) "op = GTR" "binary_create f NEQ x y = Some r"
        | (none) "r = (f, bad_node)"
        using assms(1,6) True zero simplify_comma_pure [OF assms(7,3)] cy(1)
        by (auto simp: simplify_comparison_def is_comparison_def)
      then show ?thesis
      proof cases
        case lss
        have "v = val_bool False" if e: "env_ok env" "mean2 op x y env = Some v" for env v
          using m0 [OF e] lss ck ik z cmp by (auto simp: eval_binary_op_def)
        from bool_result [OF assms(2), of "mean2 op x y" False, OF this] lss show ?thesis by simp
      next
        case geq
        have "v = val_bool True" if e: "env_ok env" "mean2 op x y env = Some v" for env v
        proof -
          obtain a where a: "eval_binary_op op a (const_val y) = Some v" "vkind a = nkind x" "0 \<le> val_int a" using m0 [OF e] by blast
          then show ?thesis using geq ik ck z val_compare_eq(2) [of "const_val y" a] by (simp add: eval_binary_op_def)
        qed
        from bool_result [OF assms(2), of "mean2 op x y" True, OF this] geq show ?thesis by simp
      next
        case leq
        show ?thesis
        proof (rule makes_binary [OF leq(2) assms(2-5) kb(1,3)])
          fix env v assume e: "env_ok env" "mean2 op x y env = Some v"
          obtain a where a: "ev env x = Some a" "eval_binary_op op a (const_val y) = Some v" "vkind a = nkind x" "0 \<le> val_int a"
            using m0 [OF e] by blast
          then have "eval_binary_op EQL a (const_val y) = Some v"
            using leq ik ck z cmp [of a] by (auto simp: eval_binary_op_def)
          then show "mean2 EQL x y env = Some v" using mean2_values [OF a(1) cy(4)] by simp
        qed
      next
        case gtr
        show ?thesis
        proof (rule makes_binary [OF gtr(2) assms(2-5) kb(2,3)])
          fix env v assume e: "env_ok env" "mean2 op x y env = Some v"
          obtain a where a: "ev env x = Some a" "eval_binary_op op a (const_val y) = Some v" "vkind a = nkind x" "0 \<le> val_int a"
            using m0 [OF e] by blast
          then have "eval_binary_op NEQ a (const_val y) = Some v"
            using gtr ik ck z cmp [of a] val_compare_eq(1) [of "const_val y" a] by (auto simp: eval_binary_op_def)
          then show "mean2 NEQ x y env = Some v" using mean2_values [OF a(1) cy(4)] by simp
        qed
      qed (use assms(2) in auto)
    next
      case False
      with assms(1) True cy(1) have "r = (f, bad_node)" by (auto simp: simplify_comparison_def)
      with assms(2) show ?thesis by auto
    qed
  next
    case nc: False
    show ?thesis
    proof (cases "deep_equal (allow_mask_pure o1) x y")
      case True
      have "v = val_bool (op \<in> {LEQ, EQL, GEQ})" if e: "env_ok env" "mean2 op x y env = Some v" for env v
      proof -
        obtain a b where ab: "ev env x = Some a" "ev env y = Some b" "eval_binary_op op a b = Some v" "vkind a = nkind x" using m [OF e] by blast
        moreover have "a = b" using ab deep_equal_same [OF assms(2-4) True, of env] by simp
        ultimately show ?thesis
          using assms(6) ik val_compare_eq [of a a] by (auto simp: is_comparison_def eval_binary_op_def)
      qed
      from bool_result [OF assms(2), of "mean2 op x y" "op \<in> {LEQ, EQL, GEQ}", OF this] assms(1,6) nc True show ?thesis
        by (auto simp: simplify_comparison_def is_comparison_def)
    next
      case False
      with assms(1) nc have "r = (f, bad_node)" by (auto simp: simplify_comparison_def)
      with assms(2) show ?thesis by auto
    qed
  qed
qed

lemma simplify_self_sound:
  assumes "bounded f" "expr_ok f x" "expr_ok f y" "nkind y = nkind x" "op \<in> {SUB, QUO, REM}"
  shows "makes f (nkind x) (mean2 op x y)
    (f, if deep_equal allow x y then (if op = QUO then const_small (nkind x) 1 else zero_const (nkind x)) else bad_node)"
proof (cases "deep_equal allow x y")
  case True
  have k: "narrow_kind (nkind x)" using expr_okD [OF assms(2)] by blast
  have "v = mk_val (nkind x) (if op = QUO then 1 else 0)" if e: "env_ok env" "mean2 op x y env = Some v" for env v
  proof -
    obtain a b where ab: "ev env x = Some a" "ev env y = Some b" "eval_binary_op op a b = Some v"
      using mean2_strict [OF e(2)] assms(5) by blast
    have "a = b" using ab deep_equal_same [OF assms(1-3) True, of env] by simp
    moreover have "vkind a = nkind x" "canonical a" using expr_ok_kind [OF assms(2) e(1) ab(1)] by simp_all
    ultimately show ?thesis
      using ab(3) assms(5) val_self_laws [of a] k by (auto simp: eval_binary_op_def)
  qed
  then show ?thesis
    using True assms(1) one_narrow(2-4) [OF k] zero_narrow [OF k] by (auto intro!: makes_existing)
next
  case False
  with assms(1) show ?thesis by auto
qed

lemma simplify_op2_sound:
  assumes "simplify_op2 o1 f op x y = Inr r" "bounded f" "expr_ok f x" "expr_ok f y" "nkind y = nkind x"
    "wk_binary op k (nkind x)" "ocheck o1 = 0"
  shows "makes f k (mean2 op x y) r"
proof -
  have k: "narrow_kind (nkind x)" using expr_okD [OF assms(3)] by blast
  consider (self) "op \<in> {SUB, QUO, REM}" | (shift) "op \<in> {SHL, SHR}" | (bool) "op \<in> {LAND, LOR}" | (cmp) "is_comparison op"
    using assms(6) by (cases op) (auto simp: is_comparison_def wk_binary_def)
  then show ?thesis
  proof cases
    case self
    then have "k = nkind x" using assms(6) by (auto simp: wk_binary_def)
    moreover note simplify_self_sound [OF assms(2-5) self, where allow = "allow_mask_pure o1"]
    ultimately show ?thesis using self assms(1) one_narrow(1) [OF k]
      by (auto simp: simplify_op2_def simplify_sub_def simplify_quo_def simplify_rem_def)
  next
    case shift
    with assms(1) have "r = (f, bad_node)" by (auto simp: simplify_op2_def simplify_shift_def)
    with assms(2) show ?thesis by auto
  next
    case bool
    then have "k = eBool" "nkind x = eBool" "simplify_boolean o1 f op x y = Inr r"
      using assms(1,6) by (auto simp: wk_binary_def simplify_op2_def)
    with simplify_boolean_sound [of o1 f op x y r] assms bool show ?thesis by simp
  next
    case cmp
    then have "k = eBool" "simplify_comparison o1 f op x y = Inr r"
      using assms(1,6) by (auto simp: wk_binary_def simplify_op2_def is_comparison_def)
    with simplify_comparison_sound [of o1 f op x y r] assms cmp show ?thesis by simp
  qed
qed

lemma simplify_binary_sound:
  assumes "simplify_binary o1 f op x y = Inr r" "bounded f" "expr_ok f x" "expr_ok f y" "nkind y = nkind x"
    "wk_binary op k (nkind x)" "narrow_kind k" "ocheck o1 = 0"
  shows "makes f k (mean2 op x y) r"
proof -
  obtain f1 e where p: "partial_eval_binary f op x y = Inr (f1, e)"
    using assms(1) unfolding simplify_binary_def rbind_Inr by auto
  note pe = partial_eval_binary_sound [OF p assms(2-7)]
  then have g: "grows f f1" "bounded f1" by (auto simp: makes_def grows_def)
  have rest: "(let be = as_binary e in if node_valid e \<and> \<not> node_valid be then Inr (f1, e)
      else rbind (if node_valid e then simplify_op2 o1 f1 (node_op2 be) (as_expr (child be 0)) (as_expr (child be 1))
                  else simplify_op2 o1 f1 op x y) (\<lambda>(f2, e2). Inr (f2, if node_valid e2 then e2 else e))) = Inr r"
    using assms(1) unfolding simplify_binary_def p rbind_simps by simp
  show ?thesis
  proof (cases "node_valid e")
    case False
    then obtain f2 e2 where s: "simplify_op2 o1 f1 op x y = Inr (f2, e2)" "r = (f2, if node_valid e2 then e2 else e)"
      using rest by (auto simp: rbind_Inr)
    have "makes f1 k (mean2 op x y) (f2, e2)"
      using simplify_op2_sound [OF s(1) g(2) _ _ assms(5,6,8)] grows_expr_ok [OF g(1)] assms(3,4) by blast
    then have "makes f k (mean2 op x y) (f2, e2)" by (rule makes_after [OF g(1)])
    then show ?thesis using s(2) False by (cases "node_valid e2") (auto simp: makes_def)
  next
    case True
    with pe have e: "expr_ok f1 e" "nkind e = k" "\<And>env v. env_ok env \<Longrightarrow> mean2 op x y env = Some v \<Longrightarrow> ev env e = Some v"
      by (auto simp: makes_def)
    show ?thesis
    proof (cases "nty e = BINARY")
      case False
      then have "r = (f1, e)" using rest True by (simp add: as_type)
      with pe show ?thesis by simp
    next
      case bin: True
      obtain y' z' where yz: "nkids e = [y', z']" "expr_ok f1 y'" "expr_ok f1 z'" "nkind z' = nkind y'"
        "wk_binary (node_op2 e) (nkind e) (nkind y')" "\<And>env. ev env e = mean2 (node_op2 e) y' z' env"
        "as_expr (child e 0) = y'" "as_expr (child e 1) = z'"
        by (rule ev_binary_kids [OF e(1) bin]) blast
      obtain f2 e2 where s: "simplify_op2 o1 f1 (node_op2 e) y' z' = Inr (f2, e2)" "r = (f2, if node_valid e2 then e2 else e)"
        using rest True bin yz(7,8) by (auto simp: rbind_Inr as_type)
      have m: "makes f1 k (mean2 (node_op2 e) y' z') (f2, e2)"
        using simplify_op2_sound [OF s(1) g(2) yz(2-5) assms(8)] e(2) by simp
      then have m': "makes f1 k (mean2 op x y) (f2, e2)"
        using e(3) yz(6) by (intro makes_mono [OF m]) auto
      have "makes f1 k (mean2 op x y) (f2, e)"
      proof -
        have "grows f1 f2" using m by (simp add: makes_def)
        then show ?thesis using e grows_expr_ok by (auto simp: makes_def)
      qed
      with m' have "makes f1 k (mean2 op x y) r" using s(2) by (cases "node_valid e2") simp_all
      then show ?thesis by (rule makes_after [OF g(1)])
    qed
  qed
qed

lemma try_binary_sound:
  assumes "try_binary o1 f n [x, y] = Inr r" "bounded f" "expr_ok f x" "expr_ok f y" "nkind y = nkind x"
    "wk_binary (node_op2 n) (nkind n) (nkind x)" "narrow_kind (nkind n)" "ocheck o1 = 0"
  shows "makes f (nkind n) (mean2 (node_op2 n) x y) r"
proof -
  let ?k = "nkind n" and ?op = "node_op2 n"
  have xy: "as_expr x = x" "node_valid x" "as_expr y = y" "node_valid y" "int_kind (nkind x)"
    using expr_okD [OF assms(3)] expr_okD [OF assms(4)] wk_kind [of x]
    by (simp_all add: expr_ok_as [OF assms(3)] expr_ok_as [OF assms(4)])
  have k: "?k \<noteq> 0" using narrow_kind_int [OF assms(7)] by simp
  show ?thesis
  proof (cases "fold_constant o1 \<and> nty x = CONSTN \<and> nty y = CONSTN \<and> val_is_valid (const_val x) \<and> val_is_valid (const_val y) \<and>
      node_valid n")
    case True
    have c: "node_valid (as_const x)" "node_valid (as_const y)" using True xy by (simp_all add: as_type)
    note cx = expr_ok_const [OF assms(3) c(1)] and cy = expr_ok_const [OF assms(4) c(2)]
    obtain v where v: "eval_binary_op ?op (const_val x) (const_val y) = Some v"
      using assms(1) True xy by (auto simp: try_binary_def view_get_def Let_def rbind_Inr)
    have vk: "vkind v = ?k" "canonical v"
      using eval_binary_kind [of "const_val x" "const_val y" ?op ?k] cx cy assms(5,6) v xy(5) by (auto simp: has_kind_def)
    then have r: "r = const_create f v"
      using assms(1) True xy v k by (simp add: try_binary_def view_get_def val_is_valid_def Let_def)
    show ?thesis
      unfolding r vk(1) [symmetric]
    proof (rule makes_const [OF assms(2)])
      show "w = v" if e: "env_ok env" "mean2 ?op x y env = Some w" for env w
      proof -
        have op: "?op \<in> {LAND, LOR} \<longrightarrow> nkind x = eBool" using assms(6) by (auto simp: wk_binary_def)
        have "ev_and_or ?op (const_val x) (Some (const_val y)) = eval_binary_op ?op (const_val x) (const_val y)"
          using cx cy xy(5) assms(5) op by (intro eval_and_or) simp_all
        with e(2) cx(4) [of env] cy(4) [of env] v show ?thesis by (simp add: mean2_def)
      qed
    qed (use vk assms(7) in simp_all)
  next
    case False
    then have "r = (f, bad_node) \<or> simplify_binary o1 f ?op x y = Inr r"
      using assms(1) xy
      by (auto simp: try_binary_def view_get_def bad_value_def val_is_valid_def Let_def split: if_splits)
    with simplify_binary_sound [OF _ assms(2-8)] makes_none [OF assms(2)] show ?thesis by metis
  qed
qed

end
