(* ===== verification/Optimizer_Sound.thy ===== *)
theory Optimizer_Sound imports Simplify begin

text \<open>
  What the optimizer promises of a whole tree: an expression of kinds of at most 16 bits is replaced by one of the same
  kind with the same value wherever the original has one, and the recursion ends. The other theorems are about what it
  does not keep.
\<close>

subsection \<open>N-ary expressions\<close>

abbreviation opn_reduce :: "kind \<Rightarrow> opn \<Rightarrow> val list \<Rightarrow> val" where
  "opn_reduce k op \<equiv> foldl (opn_fun op) (opn_unit k op)"

definition all_ok :: "func \<Rightarrow> kind \<Rightarrow> node list \<Rightarrow> bool" where
  "all_ok f k xs \<longleftrightarrow> (\<forall>x\<in>set xs. expr_ok f x \<and> nkind x = k)"

lemma all_ok_simps [simp]:
  "all_ok f k []" "all_ok f k (x # xs) \<longleftrightarrow> expr_ok f x \<and> nkind x = k \<and> all_ok f k xs"
  "all_ok f k (xs @ ys) \<longleftrightarrow> all_ok f k xs \<and> all_ok f k ys" "all_ok f k (rev xs) \<longleftrightarrow> all_ok f k xs"
  by (auto simp: all_ok_def)

lemma all_ok_grows: "grows f f' \<Longrightarrow> all_ok f k xs \<Longrightarrow> all_ok f' k xs"
  by (auto simp: all_ok_def grows_expr_ok)

lemma meann_iff:
  assumes "foldable k op" "all_ok f k xs" "env_ok env"
  shows "meann k op xs env = Some v \<longleftrightarrow>
    (\<exists>vs. map (ev env) xs = map Some vs \<and> set vs \<subseteq> opn_carrier k op \<and> v = opn_reduce k op vs)"
proof -
  have c: "set vs \<subseteq> opn_carrier k op" if "those (map (ev env) xs) = Some vs" for vs
    by (rule tuple_args [OF _ assms(1) that]) (use assms(2,3) expr_ok_kind in \<open>auto simp: all_ok_def\<close>)
  then show ?thesis
    using eval_tuple_op_eq [OF assms(1)] by (auto simp: meann_def bind_eq_Some_conv those_Some)
qed

lemma meannI:
  "foldable k op \<Longrightarrow> set vs \<subseteq> opn_carrier k op \<Longrightarrow> map (ev env) xs = map Some vs \<Longrightarrow>
    meann k op xs env = Some (opn_reduce k op vs)"
  using eval_tuple_op_eq [of k op vs] those_Some [of "map (ev env) xs" vs] by (simp add: meann_def)

lemma meann_single:
  assumes "foldable k op" "expr_ok f x" "nkind x = k" "env_ok env" shows "meann k op [x] env = ev env x"
proof (cases "ev env x")
  case (Some v)
  then have "v \<in> opn_carrier k op" using expr_ok_kind [OF assms(2,4)] assms(1,3) by (simp add: opn_carrier_def)
  with Some meannI [OF assms(1), of "[v]" env "[x]"] show ?thesis by (simp add: opn.neutral)
qed (simp add: meann_def)

lemma map_Some_append: "map g xs @ map g ys = map Some vs \<longleftrightarrow>
  (\<exists>us ws. vs = us @ ws \<and> map g xs = map Some us \<and> map g ys = map Some ws)"
  by (auto simp: append_eq_map_conv)

lemma meann_append:
  assumes "foldable k op" "all_ok f k xs" "all_ok f k ys" "env_ok env"
  shows "meann k op (xs @ ys) env = Some v \<longleftrightarrow>
    (\<exists>a b. meann k op xs env = Some a \<and> meann k op ys env = Some b \<and> v = opn_fun op a b)"
    (is "?l \<longleftrightarrow> ?r")
proof
  note u = opn_unit_spec(2) [OF assms(1)] and m = meann_iff [OF assms(1) _ assms(4), of f]
  assume ?l
  then obtain us ws where s: "map (ev env) xs = map Some us" "map (ev env) ys = map Some ws"
    "set us \<subseteq> opn_carrier k op" "set ws \<subseteq> opn_carrier k op" "v = opn_reduce k op (us @ ws)"
    using assms m [of "xs @ ys" v] by (auto simp: map_Some_append)
  then have "v = opn_fun op (opn_reduce k op us) (opn_reduce k op ws)" using opn.fold_append u by metis
  with meannI [OF assms(1)] s show ?r by blast
next
  note u = opn_unit_spec(2) [OF assms(1)] and m = meann_iff [OF assms(1) _ assms(4), of f]
  assume ?r
  then obtain us ws where s: "map (ev env) xs = map Some us" "map (ev env) ys = map Some ws"
    "set us \<subseteq> opn_carrier k op" "set ws \<subseteq> opn_carrier k op" "v = opn_fun op (opn_reduce k op us) (opn_reduce k op ws)"
    using assms m [of xs] m [of ys] by auto
  then have "v = opn_reduce k op (us @ ws)" using opn.fold_append u by metis
  with meannI [OF assms(1), of "us @ ws" env "xs @ ys"] s show ?l by simp
qed

lemma meann_perm:
  assumes "foldable k op" "all_ok f k xs" "env_ok env" "mset ys = mset xs" "meann k op xs env = Some v"
  shows "meann k op ys env = Some v"
proof -
  obtain vs where vs: "map (ev env) xs = map Some vs" "set vs \<subseteq> opn_carrier k op" "v = opn_reduce k op vs"
    using assms(5) meann_iff [OF assms(1-3)] by blast
  have xs: "vs = map (the \<circ> ev env) xs" using arg_cong [OF vs(1), of "map the"] by (simp add: comp_def)
  let ?ws = "map (the \<circ> ev env) ys"
  have m: "mset ?ws = mset vs" using assms(4) xs by simp
  have "ev env x \<noteq> None" if "x \<in> set xs" for x
    using that vs(1) by (metis in_set_conv_nth length_map nth_map option.distinct(1))
  then have "map (ev env) ys = map Some ?ws" using mset_eq_setD [OF assms(4)] by (auto simp: comp_def)
  moreover have "set ?ws \<subseteq> opn_carrier k op" using mset_eq_setD [OF m] vs(2) by simp
  moreover have "opn_reduce k op ?ws = v" using opn.fold_mset [OF m [symmetric] vs(2)] vs(3) by simp
  ultimately show ?thesis using meannI [OF assms(1)] by metis
qed

lemma mset_insert_node: "mset (insert_node x ys) = add_mset x (mset ys)"
  by (induction ys) simp_all

lemma mset_sort_nodes: "mset (sort_nodes xs) = mset xs"
  by (induction xs) (simp_all add: sort_nodes_def mset_insert_node)

lemma all_ok_mset: "mset ys = mset xs \<Longrightarrow> all_ok f k ys = all_ok f k xs"
  by (metis all_ok_def mset_eq_setD)

lemma fold_trailing_spec:
  assumes "foldable k op"
  shows "all_ok f k cs \<Longrightarrow> v \<in> opn_carrier k op \<Longrightarrow> fold_trailing k op cs v = Some (w, rest) \<Longrightarrow>
    w \<in> opn_carrier k op \<and> (\<exists>used. cs = used @ rest \<and> (\<forall>env. map (ev env) used = map (Some \<circ> const_val) used) \<and>
      set (map const_val used) \<subseteq> opn_carrier k op \<and> w = foldl (opn_fun op) v (map const_val used))"
proof (induction cs arbitrary: v)
  case (Cons c cs)
  show ?case
  proof (cases "node_valid (as_const c)")
    case True
    then have c: "nty c = CONSTN" "as_const c = c" by (simp_all add: as_type)
    have ok: "expr_ok f c" "nkind c = k" "all_ok f k cs" using Cons.prems(1) by simp_all
    have cc: "const_val c \<in> opn_carrier k op"
      using expr_okD [OF ok(1)] c(1) ok(2) assms by (auto simp: opn_carrier_def elim: wk_cases)
    note u = opn_unit_spec(2) [OF assms]
    have f: "eval_tuple_op k op [const_val c, v] = Some (opn_fun op v (const_val c))"
      using eval_tuple_op_eq [OF assms, of "[const_val c, v]"] cc Cons.prems(2) opn.neutral [OF cc] opn.comm [OF cc Cons.prems(2)]
      by simp
    have v: "opn_fun op v (const_val c) \<in> opn_carrier k op" using opn.closed [OF Cons.prems(2) cc] .
    have r: "fold_trailing k op cs (opn_fun op v (const_val c)) = Some (w, rest)" using Cons.prems(3) True c f by simp
    from Cons.IH [OF ok(3) v r] obtain used where us: "w \<in> opn_carrier k op" "cs = used @ rest"
      "\<forall>env. map (ev env) used = map (Some \<circ> const_val) used" "set (map const_val used) \<subseteq> opn_carrier k op"
      "w = foldl (opn_fun op) (opn_fun op v (const_val c)) (map const_val used)" by blast
    then show ?thesis using cc ev_eqs(2) [OF c(1)] by (intro conjI exI [of _ "c # used"]) simp_all
  next
    case False
    with Cons.prems show ?thesis by (intro conjI exI [of _ "[]"]) simp_all
  qed
qed simp

lemma carrier_eq:
  assumes "a \<in> opn_carrier k op" "b \<in> opn_carrier k op"
  shows "val_truth (val_eq a b) \<longleftrightarrow> a = b" "val_truth (val_ne a b) \<longleftrightarrow> a \<noteq> b"
  using val_compare_eq(3,4) [of a b] assms val_int_inj [of a b]
  by (auto simp: opn_carrier_def foldable_def)

lemma absorbing_law:
  assumes "a \<in> opn_carrier k op" "w \<in> opn_carrier k op" "val_absorbing k op = Some e" "val_truth (val_eq w e)"
    "k \<noteq> eBad"
  shows "opn_fun op a w = w"
proof -
  have k: "foldable k op" "int_kind k" "vkind a = k" "vkind w = k" "canonical a" "canonical w"
    using assms(1,2) by (auto simp: opn_carrier_def foldable_def)
  have e: "w = e"
  proof (cases "vkind e = k")
    case True
    with val_compare_eq(3) [of w e] k assms(4) val_int_inj [of w e] show ?thesis by simp
  next
    case False
    with assms(4) k have "val_truth bad_value" by (simp add: val_eq_def)
    then show ?thesis by (simp add: val_truth_def val_ne_def val_zero_def bad_value_def)
  qed
  consider (max) "op = MAXN" "kind_is_unsigned k" | (min) "op = MINN" "kind_is_unsigned k" | (mul) "op \<in> {MULN, ANDN, ORN}"
    | (none) "op \<in> {ADDN, XORN}"
    using k(1) by (auto simp: foldable_def)
  then show ?thesis
  proof cases
    case max
    have "e = mk_val k (mask (kind_bitsize k))"
      using val_identity_max_min(2) [OF k(2) max(2)] assms(3) max by (simp add: val_absorbing_def val_identity_def is_bitwise_def)
    with val_int_unsigned_bound(2) [of a] k max opn_fun_spec(7) [OF assms(1,2)] e have "val_int (opn_fun op a w) = val_int w"
      by simp
    with opn_fun_spec(1) [OF assms(1,2)] k show ?thesis by (intro val_int_inj) (simp_all add: opn_carrier_def)
  next
    case min
    have "e = mk_val k 0"
      using val_identity_max_min(1) [OF k(2) min(2)] assms(3) min by (simp add: val_absorbing_def val_identity_def is_bitwise_def)
    then have "val_int w = 0" using e by (simp add: val_int_def)
    with val_int_unsigned_bound(1) [of a] k min opn_fun_spec(8) [OF assms(1,2)] have "val_int (opn_fun op a w) = val_int w"
      by simp
    with opn_fun_spec(1) [OF assms(1,2)] k show ?thesis by (intro val_int_inj) (simp_all add: opn_carrier_def)
  next
    case mul
    with val_absorbing_left [of a op] k e assms(3) opn_fun_some [OF assms(2,1)] have "opn_fun op w a = w" by auto
    then show ?thesis using opn.comm [OF assms(1,2)] by simp
  next
    case none
    with assms(3) have "e = bad_value" by (auto simp: val_absorbing_def split: if_splits)
    with e k(2,4) assms(5) show ?thesis by (simp add: bad_value_def)
  qed
qed

lemma rebuild_tuple_sound:
  assumes "rebuild_tuple f n kids = Inr r" "bounded f" "expr_ok f n" "nty n = TUPLE" "all_ok f (nkind n) kids"
    and "\<And>env v. env_ok env \<Longrightarrow> ev env n = Some v \<Longrightarrow> meann (nkind n) (node_opn n) kids env = Some v"
  shows "makes f (nkind n) (\<lambda>env. ev env n) r"
proof (cases "same_children n kids")
  case True
  with assms(1-3) show ?thesis by (auto simp: rebuild_tuple_def intro: makes_existing)
next
  case False
  then have "tuple_create f (nkind n) (node_opn n) kids = Some r" using assms(1) by (simp add: rebuild_tuple_def)
  moreover have "foldable (nkind n) (node_opn n)" using expr_okD [OF assms(3)] assms(4) by (auto elim: wk_cases)
  ultimately show ?thesis
    using makes_tuple [of f "nkind n" "node_opn n" kids r] assms(2,5,6) expr_okD [OF assms(3)]
    by (auto simp: all_ok_def)
qed

lemma finish_tuple_sound:
  assumes "finish_tuple f n kids v = Inr r" "bounded f" "expr_ok f n" "nty n = TUPLE" "all_ok f (nkind n) kids"
    and "\<And>env v. env_ok env \<Longrightarrow> ev env n = Some v \<Longrightarrow> meann (nkind n) (node_opn n) kids env = Some v"
    and "kids = [] \<Longrightarrow> v = opn_unit (nkind n) (node_opn n)"
  shows "makes f (nkind n) (\<lambda>env. ev env n) r"
proof -
  let ?k = "nkind n" and ?op = "node_opn n"
  have fo: "foldable ?k ?op" using expr_okD [OF assms(3)] assms(4) by (auto elim: wk_cases)
  consider (nil) "kids = []" | (one) x where "kids = [x]" | (more) x y zs where "kids = x # y # zs"
    by (cases kids rule: remdups_adj.cases) auto
  then show ?thesis
  proof cases
    case nil
    have v: "v = opn_unit ?k ?op" "v \<in> opn_carrier ?k ?op" using assms(7) nil opn_unit_spec(2) [OF fo] by simp_all
    then have vk: "vkind v = ?k" "canonical v" by (simp_all add: opn_carrier_def)
    have r: "r = const_create f v" using assms(1) nil by (simp add: finish_tuple_def)
    show ?thesis unfolding r vk(1) [symmetric]
    proof (rule makes_const [OF assms(2)])
      show "w = v" if "env_ok env" "ev env n = Some w" for env w
        using assms(6) [OF that] nil meannI [OF fo, of "[]" env "[]"] v by simp
    qed (use vk expr_okD [OF assms(3)] in simp_all)
  next
    case (one x)
    then have x: "expr_ok f x" "nkind x = ?k" using assms(5) by simp_all
    then have "r = (f, x)" using assms(1) one expr_ok_as [OF x(1)] by (simp add: finish_tuple_def)
    then show ?thesis using assms(2,6) x one meann_single [OF fo x] by (auto intro: makes_existing)
  next
    case more
    then have "rebuild_tuple f n kids = Inr r" using assms(1) by (simp add: finish_tuple_def)
    then show ?thesis using rebuild_tuple_sound assms(2-6) by blast
  qed
qed

lemma fold_rest_sound:
  assumes "foldable k op" "all_ok f k kids" "k \<noteq> eBad" "fold_trailing k op (rev kids) (opn_unit k op) = Some (w, rest)"
  shows "w \<in> opn_carrier k op" "all_ok f k (rev rest)" "length rest = length kids \<Longrightarrow> w = opn_unit k op"
    "length rest \<le> length kids"
    "env_ok env \<Longrightarrow> meann k op kids env = Some v \<Longrightarrow>
      \<exists>a. meann k op (rev rest) env = Some a \<and> a \<in> opn_carrier k op \<and> v = opn_fun op a w"
proof -
  note u = opn_unit_spec(2) [OF assms(1)]
  obtain used where us: "w \<in> opn_carrier k op" "rev kids = used @ rest"
    "\<And>env. map (ev env) used = map (Some \<circ> const_val) used" "set (map const_val used) \<subseteq> opn_carrier k op"
    "w = opn_reduce k op (map const_val used)"
    using fold_trailing_spec [OF assms(1) _ u assms(4)] assms(2) by auto
  from us(1) show "w \<in> opn_carrier k op" .
  have kids: "kids = rev rest @ rev used" using arg_cong [OF us(2), of rev] by simp
  with assms(2) have ok: "all_ok f k (rev rest)" "all_ok f k (rev used)" by simp_all
  then show "all_ok f k (rev rest)" by simp
  show "length rest = length kids \<Longrightarrow> w = opn_unit k op" "length rest \<le> length kids" using kids us(5) by simp_all
  assume e: "env_ok env" "meann k op kids env = Some v"
  then obtain a b where ab: "meann k op (rev rest) env = Some a" "meann k op (rev used) env = Some b" "v = opn_fun op a b"
    using meann_append [OF assms(1) ok e(1)] kids by auto
  have a: "a \<in> opn_carrier k op"
    using ab(1) meann_iff [OF assms(1) ok(1) e(1)] opn.fold_closed [OF _ u] by auto
  have m: "map (ev env) (rev used) = map Some (rev (map const_val used))"
    using us(3) [of env] by (simp add: rev_map [symmetric])
  then have "b = opn_reduce k op (rev (map const_val used))"
    using meannI [OF assms(1), of "rev (map const_val used)" env "rev used"] ab(2) us(4) by simp
  moreover have "\<dots> = w" using opn.fold_mset [of "rev (map const_val used)" "map const_val used"] us(4,5) by simp
  ultimately show "\<exists>a. meann k op (rev rest) env = Some a \<and> a \<in> opn_carrier k op \<and> v = opn_fun op a w"
    using ab a by simp
qed

lemma fold_constants_sound:
  assumes "fold_trailing k op (rev kids) (opn_unit k op) = Some (w, rest)" "k = nkind n" "op = node_opn n"
    and "bounded f" "expr_ok f n" "nty n = TUPLE" "all_ok f k kids"
    and "\<forall>env v. env_ok env \<longrightarrow> ev env n = Some v \<longrightarrow> meann k op kids env = Some v"
  shows "w = opn_unit k op \<Longrightarrow> finish_tuple f n (rev rest) w = Inr r \<Longrightarrow> makes f k (\<lambda>env. ev env n) r"
    "const_create f w = (f1, c) \<Longrightarrow> f1 = f \<and> expr_ok f c \<and> makes f k (\<lambda>env. meann k op [c] env) (f, c)"
    "const_create f w = (f1, c) \<Longrightarrow> finish_tuple f1 n (rev rest @ [c]) w = Inr r \<Longrightarrow> makes f k (\<lambda>env. ev env n) r"
    "const_create f w = (f1, c) \<Longrightarrow> val_absorbing k op = Some e \<Longrightarrow> val_truth (val_eq w e) \<Longrightarrow>
      makes f k (\<lambda>env. ev env n) (f1, c)"
proof -
  have fo: "foldable k op" and nk: "narrow_kind k" and kb: "k \<noteq> eBad"
    using expr_okD [OF assms(5)] assms(2,3,6) narrow_kind_int by (auto elim: wk_cases)
  note fr = fold_rest_sound [OF fo assms(7) kb assms(1)]
  have val: "\<exists>a. meann k op (rev rest) env = Some a \<and> a \<in> opn_carrier k op \<and> v = opn_fun op a w"
    if "env_ok env" "ev env n = Some v" for env v
    using fr(5) [OF that(1)] assms(8) that by blast
  have w: "vkind w = k" "canonical w" using fr(1) by (simp_all add: opn_carrier_def)
  show "makes f k (\<lambda>env. ev env n) r" if "w = opn_unit k op" "finish_tuple f n (rev rest) w = Inr r"
    unfolding assms(2)
  proof (rule finish_tuple_sound [OF that(2) assms(4-6)])
    show "meann (nkind n) (node_opn n) (rev rest) env = Some v" if "env_ok env" "ev env n = Some v" for env v
      using val [OF that] \<open>w = opn_unit k op\<close> opn.neutral_right assms(2,3) by auto
  qed (use fr(2) that(1) assms(2,3) in auto)
  obtain c' where c': "const_create f w = (f, c')" "expr_ok f c'" "nkind c' = k" "const_val c' = w" "nty c' = CONSTN"
    using const_create_narrow [of w f] nk w by metis
  then have c: "f1 = f" "expr_ok f c" "nkind c = k" "ev env c = Some w" if "const_create f w = (f1, c)" for f1 c env
    using that ev_eqs(2) [of c'] by auto
  show "f1 = f \<and> expr_ok f c \<and> makes f k (\<lambda>env. meann k op [c] env) (f, c)" if "const_create f w = (f1, c)" for f1
    using c [OF that] assms(4) meann_single [OF fo] by (auto intro: makes_existing)
  show "makes f k (\<lambda>env. ev env n) r" if t: "const_create f w = (f1, c)" "finish_tuple f1 n (rev rest @ [c]) w = Inr r"
    unfolding assms(2)
  proof (rule finish_tuple_sound [OF _ assms(4-6)])
    note cc = c [OF t(1)]
    show "finish_tuple f n (rev rest @ [c]) w = Inr r" using t(2) cc(1) by simp
    show "all_ok f (nkind n) (rev rest @ [c])" using fr(2) cc(2,3) assms(2) by simp
    show "meann (nkind n) (node_opn n) (rev rest @ [c]) env = Some v" if e: "env_ok env" "ev env n = Some v" for env v
    proof -
      have "meann k op [c] env = Some w" using meann_single [OF fo cc(2,3) e(1)] cc(4) by simp
      with val [OF e] meann_append [OF fo fr(2) _ e(1), of "[c]" v] cc assms(2,3) show ?thesis by auto
    qed
  qed simp
  show "makes f k (\<lambda>env. ev env n) (f1, c)"
    if t: "const_create f w = (f1, c)" "val_absorbing k op = Some e" "val_truth (val_eq w e)"
  proof -
    have "ev env c = Some v" if "env_ok env" "ev env n = Some v" for env v
      using val [OF that] absorbing_law [OF _ fr(1) t(2,3) kb] c(4) [OF t(1)] by auto
    then show ?thesis using c(1-3) [OF t(1)] assms(4) by (auto intro: makes_existing)
  qed
qed

lemma partial_eval_tuple_sound:
  assumes "partial_eval_tuple o1 f n kids = Inr r" "bounded f" "expr_ok f n" "nty n = TUPLE" "all_ok f (nkind n) kids"
    and "\<And>env v. env_ok env \<Longrightarrow> ev env n = Some v \<Longrightarrow> meann (nkind n) (node_opn n) kids env = Some v"
  shows "makes f (nkind n) (\<lambda>env. ev env n) r"
proof (cases "is_associative (node_opn n) \<and> (fast_math o1 \<or> \<not> kind_is_float (nkind n))")
  case False
  then have "rebuild_tuple f n kids = Inr r" using assms(1) unfolding partial_eval_tuple_def Let_def by (simp only: if_False)
  then show ?thesis using rebuild_tuple_sound assms(2-6) by blast
next
  case True
  let ?k = "nkind n" and ?op = "node_opn n"
  have fo: "foldable ?k ?op" using expr_okD [OF assms(3)] assms(4) by (auto elim: wk_cases)
  let ?u = "opn_unit ?k ?op"
  note u = opn_unit_spec [OF fo]
  show ?thesis
  proof (cases "kids = []")
    case nil: True
    then have "finish_tuple f n [] ?u = Inr r"
      using assms(1) True u(1) by (simp add: partial_eval_tuple_def finish_tuple_def)
    then show ?thesis using finish_tuple_sound [OF _ assms(2-4), of "[]" ?u r] assms(6) nil by simp
  next
    case ne: False
    define ks where "ks = (if length kids > 1 \<and> is_commutative ?op then sort_nodes kids else kids)"
    have m: "mset ks = mset kids" by (simp add: ks_def mset_sort_nodes)
    have ok: "all_ok f ?k ks" and len: "length ks = length kids"
      using all_ok_mset [OF m] assms(5) mset_eq_length [OF m] by simp_all
    have ev: "\<forall>env v. env_ok env \<longrightarrow> ev env n = Some v \<longrightarrow> meann ?k ?op ks env = Some v"
      using meann_perm [OF fo assms(5) _ m] assms(6) by blast
    show ?thesis
    proof (cases "fold_constant o1")
      case False
      then have "finish_tuple f n ks ?u = Inr r"
        using assms(1) True u(1) ne by (simp add: partial_eval_tuple_def ks_def Let_def)
      then show ?thesis using finish_tuple_sound [OF _ assms(2-4) ok, of ?u r] ev ne m by auto
    next
      case fc: True
      have body: "rbind (ub (fold_trailing ?k ?op (rev ks) ?u)) (\<lambda>(v, rest).
          if length rest < length ks \<and> val_truth (val_ne v ?u) then
            (let (f1, c) = const_create f v
             in rbind (ub (val_absorbing ?k ?op)) (\<lambda>absorbing.
                  if val_truth (val_eq v absorbing) \<and> list_all (\<lambda>x. node_valid (as_var x)) (rev rest)
                  then Inr (f1, c) else finish_tuple f1 n (rev rest @ [c]) v))
          else finish_tuple f n (rev rest) v) = Inr r"
        using assms(1) True u(1) ne fc by (simp add: partial_eval_tuple_def ks_def Let_def)
      then obtain w rest where ft: "fold_trailing ?k ?op (rev ks) ?u = Some (w, rest)" by (auto simp: rbind_Inr)
      note fs = fold_constants_sound [OF ft refl refl assms(2-4) ok ev]
      have kb: "?k \<noteq> eBad" using expr_okD [OF assms(3)] narrow_kind_int by blast
      note fr = fold_rest_sound [OF fo ok kb ft]
      obtain f1 c where cc: "const_create f w = (f1, c)" by force
      show ?thesis
      proof (cases "length rest < length ks \<and> val_truth (val_ne w ?u)")
        case True
        then obtain e where e: "val_absorbing ?k ?op = Some e"
          "val_truth (val_eq w e) \<and> r = (f1, c) \<or> finish_tuple f1 n (rev rest @ [c]) w = Inr r"
          using body ft cc by (auto simp: rbind_Inr split: if_splits)
        from e(2) fs(3) [OF cc] fs(4) [OF cc e(1)] show ?thesis by blast
      next
        case False
        with fr(4) have "w = ?u" using fr(1,3) carrier_eq(2) [OF fr(1) u(2)] by auto
        moreover have "finish_tuple f n (rev rest) w = Inr r" using body ft False by simp
        ultimately show ?thesis using fs(1) by blast
      qed
    qed
  qed
qed

subsection \<open>Trees\<close>

text \<open>The contract of \<open>optimize\<close> on expressions.\<close>

definition same_meaning :: "node \<Rightarrow> node \<Rightarrow> bool" where
  "same_meaning x y \<longleftrightarrow> nkind y = nkind x \<and> (\<forall>env v. env_ok env \<longrightarrow> ev env x = Some v \<longrightarrow> ev env y = Some v)"

definition improves :: "func \<Rightarrow> node \<Rightarrow> func \<times> node \<Rightarrow> bool" where
  "improves f n r \<longleftrightarrow> grows f (fst r) \<and> expr_ok (fst r) (snd r) \<and> same_meaning n (snd r)"

lemma same_meaning_refl [simp]: "same_meaning n n"
  by (simp add: same_meaning_def)

lemma improves_refl: "bounded f \<Longrightarrow> expr_ok f n \<Longrightarrow> improves f n (f, n)"
  by (simp add: improves_def grows_refl)

lemma makes_improves:
  "makes f (nkind n) (\<lambda>env. ev env n) (f', x) \<Longrightarrow> expr_ok f n \<Longrightarrow> improves f n (f', if node_valid x then x else n)"
  by (auto simp: improves_def makes_def same_meaning_def grows_expr_ok)

lemma mean1_mono: "same_meaning x y \<Longrightarrow> env_ok env \<Longrightarrow> mean1 k op x env = Some v \<Longrightarrow> mean1 k op y env = Some v"
  by (auto simp: mean1_def same_meaning_def bind_eq_Some_conv)

lemma mean2_mono:
  "same_meaning x x' \<Longrightarrow> same_meaning y y' \<Longrightarrow> env_ok env \<Longrightarrow> mean2 op x y env = Some v \<Longrightarrow> mean2 op x' y' env = Some v"
  by (auto simp: mean2_def ev_and_or_def same_meaning_def bind_eq_Some_conv split: if_splits)

lemma new_head:
  "node_op1 (Node (nhead n) off ind d ks) = node_op1 n" "node_op2 (Node (nhead n) off ind d ks) = node_op2 n"
  "node_opn (Node (nhead n) off ind d ks) = node_opn n"
  by (simp_all add: node_op1_def node_op2_def node_opn_def)

lemma new_kids:
  assumes "wk n" "nty n \<notin> {VAR, CONSTN}" "list_all2 (\<lambda>x y. wk y \<and> nkind y = nkind x) (nkids n) ks"
  shows "wk (Node (nhead n) 0 True [] ks)"
  using assms(1)
proof (cases rule: wk_cases)
  case (UNARY x)
  with assms obtain y where "ks = [y]" "wk y" "nkind y = nkind x" by (auto simp: list_all2_Cons1)
  with UNARY wk_kind [OF assms(1)] new_head [of n 0 True "[]" ks] show ?thesis by (simp add: wk.simps Let_def)
next
  case (BINARY x y)
  with assms obtain x' y' where "ks = [x', y']" "wk x'" "wk y'" "nkind x' = nkind x" "nkind y' = nkind y"
    by (auto simp: list_all2_Cons1)
  with BINARY wk_kind [OF assms(1)] new_head [of n 0 True "[]" ks] show ?thesis by (simp add: wk.simps Let_def)
next
  case TUPLE
  have "wk y \<and> nkind y = nkind n" if "y \<in> set ks" for y
    using that assms(3) TUPLE(3) by (fastforce simp: list_all2_conv_all_nth in_set_conv_nth)
  with TUPLE(1,2) wk_kind [OF assms(1)] new_head [of n 0 True "[]" ks] show ?thesis by (simp add: wk.simps Let_def list_all_iff)
qed (use assms(2) in simp_all)

definition improves_all :: "func \<Rightarrow> node list \<Rightarrow> func \<times> node list \<Rightarrow> bool" where
  "improves_all f xs r \<longleftrightarrow> grows f (fst r) \<and> list_all2 (\<lambda>x y. expr_ok (fst r) y \<and> same_meaning x y) xs (snd r)"

lemma optimize_children_sound:
  assumes "\<And>f n r. optimize_node m o1 f n = Inr r \<Longrightarrow> bounded f \<Longrightarrow> expr_ok f n \<Longrightarrow> improves f n r"
  shows "optimize_children m o1 f xs = Inr r \<Longrightarrow> bounded f \<Longrightarrow> list_all (expr_ok f) xs \<Longrightarrow> improves_all f xs r"
proof (induction xs arbitrary: f r)
  case Nil
  then show ?case by (auto simp: optimize_children.simps improves_all_def grows_refl)
next
  case (Cons x xs)
  then obtain f1 y f2 ys where s: "optimize_node m o1 f x = Inr (f1, y)" "optimize_children m o1 f1 xs = Inr (f2, ys)"
    "r = (f2, y # ys)"
    by (auto simp: optimize_children.simps rbind_Inr)
  have i: "grows f f1" "expr_ok f1 y" "same_meaning x y"
    using assms [OF s(1) Cons.prems(2)] Cons.prems(3) by (simp_all add: improves_def)
  then have "improves_all f1 xs (f2, ys)"
    using Cons.prems(3) grows_expr_ok [OF i(1)] by (intro Cons.IH [OF s(2)]) (auto simp: grows_def list_all_iff)
  then show ?case using i s(3) by (auto simp: improves_all_def intro: grows_trans grows_expr_ok)
qed

definition header_opn :: "header \<Rightarrow> opn" where
  "header_opn h = node_opn (Node h 0 True [] [])"

lemma header_opn_eq: "nhead n = h \<Longrightarrow> header_opn h = node_opn n"
  by (simp add: header_opn_def node_opn_def)

text \<open>Flattened children reduce to the same value.\<close>

definition flattens :: "func \<Rightarrow> header \<Rightarrow> node list \<Rightarrow> func \<times> node list \<Rightarrow> bool" where
  "flattens f h xs r \<longleftrightarrow> grows f (fst r) \<and> all_ok (fst r) (hkind h) (snd r) \<and>
     (\<forall>env v. env_ok env \<longrightarrow> meann (hkind h) (header_opn h) xs env = Some v \<longrightarrow>
        meann (hkind h) (header_opn h) (snd r) env = Some v)"

lemma flattens_refl: "bounded f \<Longrightarrow> all_ok f (hkind h) xs \<Longrightarrow> flattens f h xs (f, xs)"
  by (simp add: flattens_def grows_refl)

lemma flattens_single:
  assumes "foldable (hkind h) (header_opn h)" "expr_ok f x" "nkind x = hkind h" "improves f x (f', y)"
  shows "flattens f h [x] (f', [y])"
  using assms meann_single [OF assms(1)] by (auto simp: flattens_def improves_def same_meaning_def)

lemma flattens_append:
  assumes "foldable (hkind h) (header_opn h)" "all_ok f (hkind h) xs" "all_ok f (hkind h) ys"
    and "flattens f h xs (f1, xs')" "flattens f1 h ys (f2, ys')"
  shows "flattens f h (xs @ ys) (f2, xs' @ ys')"
proof -
  have g: "grows f f1" "grows f1 f2" "all_ok f2 (hkind h) xs'" "all_ok f2 (hkind h) ys'"
    using assms(4,5) by (auto simp: flattens_def intro: all_ok_grows)
  have "meann (hkind h) (header_opn h) (xs' @ ys') env = Some v"
    if "env_ok env" "meann (hkind h) (header_opn h) (xs @ ys) env = Some v" for env v
    using that assms(4,5) meann_append [OF assms(1-3) that(1)] meann_append [OF assms(1) g(3,4) that(1)]
    by (fastforce simp: flattens_def)
  with g show ?thesis by (auto simp: flattens_def intro: grows_trans)
qed

lemma flattens_nested:
  assumes "nhead y = h" "htype h = TUPLE" "foldable (hkind h) (header_opn h)" "expr_ok f y"
  shows "all_ok f (hkind h) (nkids y)" "flattens f h (nkids y) r \<Longrightarrow> flattens f h [y] r"
proof -
  have w: "wk y" "nty y = TUPLE" "nkind y = hkind h" using expr_okD [OF assms(4)] assms(1,2) by auto
  from w(1) w(2) have kids: "\<And>x. x \<in> set (nkids y) \<Longrightarrow> nkind x = hkind h" by (auto simp: w(3) elim: wk_cases)
  then show "all_ok f (hkind h) (nkids y)" using expr_ok_kid [OF assms(4)] by (simp add: all_ok_def)
  have "ev env y = meann (hkind h) (header_opn h) (nkids y) env" for env
    using ev_eqs(5) [OF w(2), of env] header_opn_eq [OF assms(1)] w(3) by (simp add: meann_def)
  then show "flattens f h (nkids y) r \<Longrightarrow> flattens f h [y] r"
    using meann_single [OF assms(3,4) w(3)] by (simp add: flattens_def)
qed

lemma flatten_sound:
  assumes node: "\<And>j f n r. m = Suc j \<Longrightarrow> optimize_node j o1 f n = Inr r \<Longrightarrow> bounded f \<Longrightarrow> expr_ok f n \<Longrightarrow> improves f n r"
    and flat: "\<And>j f xs r. m = Suc j \<Longrightarrow> flatten j o1 opt h f xs = Inr r \<Longrightarrow> bounded f \<Longrightarrow> all_ok f (hkind h) xs \<Longrightarrow>
      flattens f h xs r"
    and h: "htype h = TUPLE" "foldable (hkind h) (header_opn h)"
  shows "flatten m o1 opt h f xs = Inr r \<Longrightarrow> bounded f \<Longrightarrow> all_ok f (hkind h) xs \<Longrightarrow> flattens f h xs r"
proof (induction xs arbitrary: f r)
  case Nil
  then show ?case using flattens_refl by (auto simp: flatten.simps)
next
  case (Cons x xs)
  let ?step = "if nhead x = h then (case m of 0 \<Rightarrow> Inl OutOfFuel | Suc j \<Rightarrow> flatten j o1 opt h f (nkids x))
      else rbind (if opt then (case m of 0 \<Rightarrow> Inl OutOfFuel | Suc j \<Rightarrow> optimize_node j o1 f x) else Inr (f, x))
        (\<lambda>(f1, y). if nhead y = h then (case m of 0 \<Rightarrow> Inl OutOfFuel | Suc j \<Rightarrow> flatten j o1 opt h f1 (nkids y))
           else Inr (f1, [y]))"
  obtain f1 ys f2 zs where s: "?step = Inr (f1, ys)" "flatten m o1 opt h f1 xs = Inr (f2, zs)" "r = (f2, ys @ zs)"
    using Cons.prems(1) by (auto simp: flatten.simps rbind_Inr)
  have x: "expr_ok f x" "nkind x = hkind h" "all_ok f (hkind h) xs" using Cons.prems(3) by simp_all
  have "flattens f h [x] (f1, ys)"
  proof (cases "nhead x = h")
    case True
    with s(1) obtain j where j: "m = Suc j" "flatten j o1 opt h f (nkids x) = Inr (f1, ys)" by (auto split: nat.splits)
    note nest = flattens_nested [OF True h x(1)]
    show ?thesis using nest flat [OF j Cons.prems(2)] by blast
  next
    case False
    obtain g y where y: "(if opt then (case m of 0 \<Rightarrow> Inl OutOfFuel | Suc j \<Rightarrow> optimize_node j o1 f x) else Inr (f, x)) = Inr (g, y)"
      "(if nhead y = h then (case m of 0 \<Rightarrow> Inl OutOfFuel | Suc j \<Rightarrow> flatten j o1 opt h g (nkids y)) else Inr (g, [y])) = Inr (f1, ys)"
      using s(1) False by (auto simp: rbind_Inr)
    have i: "improves f x (g, y)"
      using y(1) node [OF _ _ Cons.prems(2) x(1)] improves_refl [OF Cons.prems(2) x(1)] by (auto split: if_splits nat.splits)
    then have g: "bounded g" "expr_ok g y" "nkind y = hkind h" using x(2) by (auto simp: improves_def grows_def same_meaning_def)
    note single = flattens_single [OF h(2) x(1,2) i]
    show ?thesis
    proof (cases "nhead y = h")
      case True
      with y(2) obtain j where j: "m = Suc j" "flatten j o1 opt h g (nkids y) = Inr (f1, ys)" by (auto split: nat.splits)
      note nest = flattens_nested [OF True h g(2)]
      have "flattens g h [y] (f1, ys)" using nest flat [OF j g(1)] by blast
      with single show ?thesis by (auto simp: flattens_def intro: grows_trans)
    next
      case False
      with y(2) single show ?thesis by simp
    qed
  qed
  moreover from this have "bounded f1" "grows f f1" by (auto simp: flattens_def grows_def)
  then have "flattens f1 h xs (f2, zs)" using Cons.IH [OF s(2)] all_ok_grows x(3) by blast
  ultimately show ?case
    using flattens_append [OF h(2), of f "[x]" xs] x s(3) by simp
qed

lemma as_inner: "nty n = UNARY \<Longrightarrow> \<not> node_valid (as_binary n) \<and> \<not> node_valid (as_assign n)"
  "nty n = BINARY \<Longrightarrow> \<not> node_valid (as_unary n) \<and> \<not> node_valid (as_assign n)"
  by (simp_all add: downcast_defs)

lemma rebuilt_sound:
  assumes "rbind (if \<not> node_valid x \<and> \<not> same_children n kids then looping (create_indirect f2 (nhead n) kids) else Inr (f2, x))
      (\<lambda>(f3, r'). Inr (f3, if node_valid r' then r' else n)) = Inr r"
    and "makes f (nkind n) (\<lambda>env. ev env n) (f2, x)" "expr_ok f n" "nty n \<notin> {VAR, CONSTN}" "list_all (expr_ok f) kids"
    and "list_all2 (\<lambda>x y. wk y \<and> nkind y = nkind x) (nkids n) kids"
    and "\<And>env v. env_ok env \<Longrightarrow> ev env n = Some v \<Longrightarrow> ev env (Node (nhead n) 0 True [] kids) = Some v"
  shows "improves f n r"
proof (cases "\<not> node_valid x \<and> \<not> same_children n kids")
  case True
  then obtain f3 y where y: "create_indirect f2 (nhead n) kids = Some (f3, y)" "r = (f3, if node_valid y then y else n)"
    using assms(1) by (auto simp: rbind_Inr)
  have g: "grows f f2" using assms(2) by (simp add: makes_def)
  then have "bounded f2" "\<And>k. k \<in> set kids \<Longrightarrow> expr_ok f2 k"
    using assms(5) grows_expr_ok [OF g] by (auto simp: grows_def list_all_iff)
  moreover have "wk (Node (nhead n) 0 True [] kids)" "narrow_kind (nkind n)"
    using new_kids [OF _ assms(4,6)] expr_okD [OF assms(3)] by simp_all
  ultimately have "makes f2 (nkind n) (\<lambda>env. ev env n) (f3, y)"
    using assms(4,7) by (intro create_expr [OF y(1)]) auto
  then have "makes f (nkind n) (\<lambda>env. ev env n) (f3, y)" by (rule makes_after [OF g])
  then show ?thesis using y(2) makes_improves assms(3) by blast
next
  case False
  then have "r = (f2, if node_valid x then x else n)" using assms(1) by auto
  then show ?thesis using makes_improves assms(2,3) by blast
qed

lemma optimize_inner_sound:
  assumes kids: "optimize_children m o1 f (nkids n) = Inr (f1, kids)" "improves_all f (nkids n) (f1, kids)"
    and tried: "try_node o1 f1 n kids = Inr (f2, x)"
    and rest: "rbind (if \<not> node_valid x \<and> \<not> same_children n kids then looping (create_indirect f2 (nhead n) kids) else Inr (f2, x))
      (\<lambda>(f3, r'). Inr (f3, if node_valid r' then r' else n)) = Inr r"
    and n: "expr_ok f n" "nty n \<in> {UNARY, BINARY}" "ocheck o1 = 0"
  shows "improves f n r"
proof -
  have g: "grows f f1" "bounded f1" and n1: "expr_ok f1 n" "narrow_kind (nkind n)" "node_valid n"
    using kids(2) grows_expr_ok n(1) expr_okD [OF n(1)] by (auto simp: improves_all_def grows_def)
  have l: "list_all2 (\<lambda>x y. expr_ok f1 y \<and> same_meaning x y) (nkids n) kids" using kids(2) by (simp add: improves_all_def)
  have l2: "list_all2 (\<lambda>x y. wk y \<and> nkind y = nkind x) (nkids n) kids"
    by (rule list_all2_mono [OF l]) (auto simp: expr_ok_def same_meaning_def)
  have ok: "list_all (expr_ok f1) kids"
    using l by (auto simp: list_all_iff list_all2_conv_all_nth in_set_conv_nth)
  have "makes f1 (nkind n) (\<lambda>env. ev env n) (f2, x) \<and>
      (\<forall>env v. env_ok env \<longrightarrow> ev env n = Some v \<longrightarrow> ev env (Node (nhead n) 0 True [] kids) = Some v)"
  proof (cases "nty n = UNARY")
    case True
    obtain y where y: "nkids n = [y]" "expr_ok f1 y" "wk_unary (node_op1 n) (nkind n) (nkind y)"
      "\<And>env. ev env n = mean1 (nkind n) (node_op1 n) y env" "as_expr (child n 0) = y"
      by (rule ev_unary_kid [OF n1(1) True]) blast
    then obtain y' where y': "kids = [y']" "expr_ok f1 y'" "same_meaning y y'" using l by (auto simp: list_all2_Cons1)
    have "try_unary o1 f1 n [y'] = Inr (f2, x)" using tried True n1(3) y'(1) as_type by (simp add: try_node_def)
    then have "makes f1 (nkind n) (mean1 (nkind n) (node_op1 n) y') (f2, x)"
      using y' y(3) n1 g(2) by (intro try_unary_sound) (simp_all add: same_meaning_def)
    moreover have "ev env (Node (nhead n) 0 True [] kids) = mean1 (nkind n) (node_op1 n) y' env" for env
      using True y'(1) new_head by (simp add: ev_inner mean1_def)
    ultimately show ?thesis using mean1_mono [OF y'(3)] y(4) makes_mono by simp
  next
    case False
    then have b: "nty n = BINARY" using n(2) by simp
    obtain y z where yz: "nkids n = [y, z]" "expr_ok f1 y" "expr_ok f1 z" "nkind z = nkind y"
      "wk_binary (node_op2 n) (nkind n) (nkind y)" "\<And>env. ev env n = mean2 (node_op2 n) y z env"
      "as_expr (child n 0) = y" "as_expr (child n 1) = z"
      by (rule ev_binary_kids [OF n1(1) b]) blast
    then obtain y' z' where y': "kids = [y', z']" "expr_ok f1 y'" "expr_ok f1 z'" "same_meaning y y'" "same_meaning z z'"
      using l by (auto simp: list_all2_Cons1)
    have "try_binary o1 f1 n [y', z'] = Inr (f2, x)" using tried b n1(3) y'(1) as_type as_inner by (simp add: try_node_def)
    then have "makes f1 (nkind n) (mean2 (node_op2 n) y' z') (f2, x)"
      using y' yz(4,5) n1 g(2) n(3) by (intro try_binary_sound) (simp_all add: same_meaning_def)
    moreover have "ev env (Node (nhead n) 0 True [] kids) = mean2 (node_op2 n) y' z' env" for env
      using b y'(1) new_head by (simp add: ev_inner mean2_def)
    ultimately show ?thesis using mean2_mono [OF y'(4,5)] yz(6) makes_mono by simp
  qed
  then have "improves f1 n r"
    using rebuilt_sound [OF rest _ n1(1) _ ok l2] n(2) by fastforce
  with g(1) show ?thesis by (auto simp: improves_def intro: grows_trans)
qed

lemma optimize_node_step:
  assumes node: "\<And>f n r. optimize_node m o1 f n = Inr r \<Longrightarrow> bounded f \<Longrightarrow> expr_ok f n \<Longrightarrow> improves f n r"
    and flat: "\<And>h f xs r. flatten m o1 True h f xs = Inr r \<Longrightarrow> htype h = TUPLE \<Longrightarrow>
      foldable (hkind h) (header_opn h) \<Longrightarrow> bounded f \<Longrightarrow> all_ok f (hkind h) xs \<Longrightarrow> flattens f h xs r"
    and o: "ocheck o1 = 0"
    and r: "optimize_node (Suc m) o1 f n = Inr r" "bounded f" "expr_ok f n"
  shows "improves f n r"
proof -
  have n: "wk n" "node_valid n" using expr_okD [OF r(3)] by simp_all
  have same: "improves f n (f, n)" using r(2,3) by (rule improves_refl)
  consider (leaf) "children n = 0" "nty n \<noteq> TUPLE" | (inner) "nty n \<in> {UNARY, BINARY}" "children n \<noteq> 0" | (tuple) "nty n = TUPLE"
    using n(1) by (cases rule: wk_cases) (auto simp: children_def)
  then show ?thesis
  proof cases
    case leaf
    then have "r = (f, n)" using r(1) by (auto simp: optimize_node.simps [of "Suc m"] split: if_splits)
    with same show ?thesis by simp
  next
    case inner
    show ?thesis
    proof (cases "good (fcode f)")
      case False
      with r(1) same show ?thesis by (auto simp: optimize_node.simps [of "Suc m"])
    next
      case True
      then obtain f1 kids f2 x where s: "optimize_children m o1 f (nkids n) = Inr (f1, kids)" "try_node o1 f1 n kids = Inr (f2, x)"
        "rbind (if \<not> node_valid x \<and> \<not> same_children n kids then looping (create_indirect f2 (nhead n) kids) else Inr (f2, x))
          (\<lambda>(f3, r'). Inr (f3, if node_valid r' then r' else n)) = Inr r"
        using r(1) inner by (auto simp: optimize_node.simps [of "Suc m"] rbind_Inr)
      have k: "list_all (expr_ok f) (nkids n)" using expr_ok_kid [OF r(3)] by (simp add: list_all_iff)
      from optimize_inner_sound [OF s(1) _ s(2,3) r(3) inner(1) o] optimize_children_sound [OF node s(1) r(2) k]
      show ?thesis by blast
    qed
  next
    case tuple
    show ?thesis
    proof (cases "good (fcode f) \<and> \<not> (ntype_code TUPLE \<ge> ntype_code LABEL \<and> children n = 0) \<and> simplify_expr o1")
      case False
      then have "r = (f, n)" using r(1) tuple by (auto simp: optimize_node.simps [of "Suc m"] split: if_splits)
      with same show ?thesis by simp
    next
      case True
      then obtain f1 kids f2 x where s: "flatten m o1 True (nhead n) f (nkids n) = Inr (f1, kids)"
        "partial_eval_tuple o1 f1 n kids = Inr (f2, x)" "r = (f2, if node_valid x then x else n)"
        using r(1) tuple n(2) by (auto simp: optimize_node.simps [of "Suc m"] rbind_Inr)
      have fo: "foldable (nkind n) (node_opn n)" and kids: "\<And>x. x \<in> set (nkids n) \<Longrightarrow> nkind x = nkind n"
        using n(1) tuple by (auto elim: wk_cases)
      note ho = header_opn_eq [of n "nhead n", OF refl]
      have "flattens f (nhead n) (nkids n) (f1, kids)"
        using flat [OF s(1)] tuple fo ho r(2) kids expr_ok_kid [OF r(3)] by (auto simp: all_ok_def)
      then have g: "grows f f1" "all_ok f1 (nkind n) kids"
        and m: "\<And>env v. env_ok env \<Longrightarrow> meann (nkind n) (node_opn n) (nkids n) env = Some v \<Longrightarrow>
          meann (nkind n) (node_opn n) kids env = Some v"
        by (auto simp: flattens_def ho)
      have n1: "expr_ok f1 n" "bounded f1" using g(1) r(3) grows_expr_ok by (auto simp: grows_def)
      have e: "ev env n = meann (nkind n) (node_opn n) (nkids n) env" for env
        using ev_eqs(5) [OF tuple] by (simp add: meann_def)
      have "makes f1 (nkind n) (\<lambda>env. ev env n) (f2, x)"
        using partial_eval_tuple_sound [OF s(2) n1(2,1) tuple g(2)] m by (simp add: e)
      then have "makes f (nkind n) (\<lambda>env. ev env n) (f2, x)" by (rule makes_after [OF g(1)])
      then show ?thesis using makes_improves r(3) s(3) by blast
    qed
  qed
qed

lemma optimize_sound:
  assumes "ocheck o1 = 0"
  shows "(\<forall>f n r. optimize_node m o1 f n = Inr r \<longrightarrow> bounded f \<longrightarrow> expr_ok f n \<longrightarrow> improves f n r) \<and>
    (\<forall>h f xs r. flatten m o1 True h f xs = Inr r \<longrightarrow> htype h = TUPLE \<longrightarrow> foldable (hkind h) (header_opn h) \<longrightarrow>
       bounded f \<longrightarrow> all_ok f (hkind h) xs \<longrightarrow> flattens f h xs r)"
proof (induction m)
  case 0
  show ?case using flatten_sound [of 0 o1 True] by (auto simp: optimize_node.simps)
next
  case (Suc m)
  have "improves f n r" if "optimize_node (Suc m) o1 f n = Inr r" "bounded f" "expr_ok f n" for f n r
    by (rule optimize_node_step [OF _ _ assms that]) (use Suc.IH in blast)+
  moreover have "flattens f h xs r" if "flatten (Suc m) o1 True h f xs = Inr r" "htype h = TUPLE"
    "foldable (hkind h) (header_opn h)" "bounded f" "all_ok f (hkind h) xs" for f h xs r
    by (rule flatten_sound [OF _ _ that(2,3,1,4,5)]) (use Suc.IH that(2,3) in blast)+
  ultimately show ?case by blast
qed


text \<open>An example: \<open>x - x\<close>.\<close>

definition limited_func :: func where
  "limited_func = example_func\<lparr>alloc_code := \<lambda>n. n < 1000\<rparr>"

definition example_diff :: node where
  "example_diff = Node (mk_header BINARY eInt16 (op2_code SUB)) 8 True [] [example_var, example_var]"

definition diff_func :: func where
  "diff_func = limited_func\<lparr>fcode := \<lparr>bdata = \<lparr>elems = items (fcode example_func) @
     [header_item (mk_header BINARY eInt16 (op2_code SUB)), noff example_var, noff example_var], acap = 64\<rparr>, good = True\<rparr>\<rparr>"

lemma example_var_ok: "held f example_var" "wk example_var" "narrow example_var" "nty example_var = VAR" "nind example_var = False"
  "nkind example_var = eInt16" "nkids example_var = []"
proof -
  show "nty example_var = VAR" "nind example_var = False" "nkind example_var = eInt16" "nkids example_var = []"
    by (simp_all add: example_var_def var_direct_def var_header_def local_make_def local_kind_def)
  then show "wk example_var" "narrow example_var"
    using example_wk(1) by (simp_all add: example_sum_def wk.simps Let_def narrow_unfold narrow_kind_def)
  show "held f example_var"
    by (simp add: held_def stored.simps example_var_def var_direct_def direct_ok_def var_header_def local_make_def local_kind_def
        local_direct_def local_parse_direct_kind_def)
qed

lemma example_diff_ok: "bounded diff_func" "expr_ok diff_func example_diff"
proof -
  show "bounded diff_func"
    by (auto simp: bounded_def diff_func_def limited_func_def arr_ok_def example_func_code)
  note v = example_var_ok
  have w: "wk example_diff" using v by (simp add: example_diff_def wk.simps Let_def wk_binary_def node_op2_def op2_list_def)
  have nr: "narrow example_diff" using v by (simp add: example_diff_def narrow_unfold [of "Node _ _ _ _ _"] narrow_kind_def)
  have img: "node_image example_diff = [header_item (mk_header BINARY eInt16 (op2_code SUB)), noff example_var, noff example_var]"
    using v by (simp add: node_image_def example_diff_def is_list_type_def node_item_def)
  have "\<exists>pre post. items (fcode diff_func) = pre @ node_image example_diff @ post \<and> 8 = 4 * length pre"
    unfolding img by (intro exI [of _ "items (fcode example_func)"] exI [of _ "[]"]) (simp add: example_func_code diff_func_def)
  then have "held diff_func example_diff"
    using v(1) [of diff_func] v(5) by (simp add: held_def example_diff_def stored.simps shape_ok_def data_items_def is_list_type_def to_children_def)
  with w nr show "expr_ok diff_func example_diff" by (simp add: expr_ok_def)
qed

lemma example_diff_optimized:
  "optimize 2 \<lparr>ocheck = 0, oflags = 2\<rparr> diff_func example_diff = Inr (diff_func, zero_const eInt16)"
proof -
  let ?o = "\<lparr>ocheck = 0, oflags = 2\<rparr> :: opts"
  note v = example_var_ok
  have g: "good (fcode diff_func)" by (simp add: diff_func_def)
  have d: "nty example_diff = BINARY" "nkids example_diff = [example_var, example_var]" "node_valid example_diff"
    "node_op2 example_diff = SUB" "node_valid example_var" "as_expr example_var = example_var"
    using v wk_expr [of example_var] by (simp_all add: example_diff_def node_valid_def header_valid_def node_op2_def op2_list_def)
  have e: "deep_equal (allow_mask_pure ?o) example_var example_var"
    using v by (simp add: deep_equal_unfold [of _ example_var] is_allowed_def allow_mask_pure_def)
  have var: "optimize_node (Suc 0) ?o diff_func example_var = Inr (diff_func, example_var)"
    using g v by (simp add: optimize_node.simps [of "Suc 0"] children_def)
  have kids: "optimize_children (Suc 0) ?o diff_func [example_var, example_var] = Inr (diff_func, [example_var, example_var])"
    by (simp add: optimize_children.simps var)
  have z: "node_valid (zero_const eInt16)"
    using expr_okD [OF zero_narrow(1) [of eInt16]] by (simp add: narrow_kind_def)
  have "partial_eval_binary diff_func SUB example_var example_var = Inr (diff_func, bad_node)"
    using v by (simp add: partial_eval_binary_def as_type Let_def)
  then have "try_node ?o diff_func example_diff [example_var, example_var] = Inr (diff_func, zero_const eInt16)"
    using d v e z as_inner by (simp add: try_node_def as_type try_binary_def view_get_def fold_constant_def simplify_expr_def
        simplify_binary_def simplify_op2_def simplify_sub_def Let_def val_is_valid_def bad_value_def)
  then show ?thesis
    using g d kids z by (simp add: optimize_def numeral_2_eq_2 optimize_node.simps [of "Suc (Suc 0)"] children_def)
qed


end
