(* ===== verification/Optimizer_Ends.thy ===== *)
theory Optimizer_Ends imports Optimizer_Sound begin

text \<open>
  The recursion of the optimizer ends on every tree, expressions and statements, well-kinded or not: no simplification
  gives more nodes than it was given, and the fuel spent is at most twice the number of nodes, so that the value
  \<open>OutOfFuel\<close> never comes out of a run with that much fuel.
\<close>

subsection \<open>The number of nodes\<close>

fun nodes_in :: "node \<Rightarrow> nat" where
  "nodes_in (Node h off ind d ks) =
     (if Node h off ind d ks = bad_node then 0 else Suc (sum_list (map nodes_in ks)))"

declare nodes_in.simps [simp del]

lemma nodes_in_unfold: "n \<noteq> bad_node \<Longrightarrow> nodes_in n = Suc (sum_list (map nodes_in (nkids n)))"
  by (cases n) (simp add: nodes_in.simps)

lemma nodes_in_bad [simp]: "nodes_in bad_node = 0"
  by (simp add: bad_node_def nodes_in.simps)

lemma nodes_in_kids: "sum_list (map nodes_in (nkids n)) \<le> nodes_in n"
proof (cases "n = bad_node")
  case True
  then show ?thesis by (simp add: bad_node_def)
qed (simp add: nodes_in_unfold)

lemma nodes_in_valid: "node_valid n \<Longrightarrow> 0 < nodes_in n"
  by (cases "n = bad_node") (simp_all add: nodes_in_unfold)

lemma nodes_in_new: "nodes_in (Node h off ind d ks) \<le> Suc (sum_list (map nodes_in ks))"
  by (simp add: nodes_in.simps)

lemma nodes_in_as [simp]: "nodes_in (as_expr n) \<le> nodes_in n" "nodes_in (as_const n) \<le> nodes_in n"
  "nodes_in (as_unary n) \<le> nodes_in n" "nodes_in (as_binary n) \<le> nodes_in n" "nodes_in (as_tuple n) \<le> nodes_in n"
  by (simp_all add: downcast_defs as_expr_def downcast_def)

lemma sum_list_two: "nodes_in (view_get bad_node ks 0) + nodes_in (view_get bad_node ks 1) \<le> sum_list (map nodes_in ks)"
  by (cases ks rule: remdups_adj.cases) (simp_all add: view_get_def)

lemma child_view: "child n i = view_get bad_node (nkids n) i"
  by (simp add: child_def view_get_def children_def)

lemma nodes_in_children:
  assumes "node_valid n"
  shows "Suc (nodes_in (as_expr (child n 0)) + nodes_in (as_expr (child n 1))) \<le> nodes_in n"
proof -
  have "n \<noteq> bad_node" using assms by auto
  then have "Suc (nodes_in (child n 0) + nodes_in (child n 1)) \<le> nodes_in n"
    using sum_list_two [of "nkids n"] by (simp add: nodes_in_unfold child_view)
  then show ?thesis using nodes_in_as(1) [of "child n 0"] nodes_in_as(1) [of "child n 1"] by linarith
qed

subsection \<open>Bounded results\<close>

definition within :: "nat \<Rightarrow> new_node \<Rightarrow> bool" where
  "within m r \<longleftrightarrow> r \<noteq> Inl OutOfFuel \<and> (\<forall>f n. r = Inr (f, n) \<longrightarrow> nodes_in n \<le> m)"

lemma within_simps [simp]: "within m (Inr (f, n)) \<longleftrightarrow> nodes_in n \<le> m" "within m (Inl e) \<longleftrightarrow> e \<noteq> OutOfFuel"
  by (auto simp: within_def)

lemma within_rbind:
  "r \<noteq> Inl OutOfFuel \<Longrightarrow> (\<And>x. r = Inr x \<Longrightarrow> within m (k x)) \<Longrightarrow> within m (rbind r k)"
  by (cases r) simp_all

lemma from_option_fuel [simp]: "from_option e r = Inl OutOfFuel \<longleftrightarrow> r = None \<and> e = OutOfFuel"
  by (cases r) simp_all

lemma within_create:
  assumes "Suc (sum_list (map nodes_in kids)) \<le> m"
  shows "within m (looping (create_indirect f h kids))"
proof (cases "create_indirect f h kids")
  case (Some r)
  then have "nkids (snd r) = kids \<or> snd r = bad_node"
    by (auto simp: create_indirect_def create_loop_eq Let_def split: if_splits)
  then have "nodes_in (snd r) \<le> m"
    using assms nodes_in_unfold [of "snd r"] by (cases "snd r = bad_node") auto
  with Some show ?thesis by (cases r) simp
qed simp

lemma within_creates:
  "Suc (nodes_in x + nodes_in y) \<le> m \<Longrightarrow> within m (looping (binary_create f op x y))"
  "Suc (sum_list (map nodes_in ks)) \<le> m \<Longrightarrow> within m (looping (tuple_create f k opn ks))"
  "Suc (nodes_in x + nodes_in y) \<le> m \<Longrightarrow> within m (looping (tuple2 f opn x y))"
  "Suc (sum_list (map nodes_in ks)) \<le> m \<Longrightarrow> within m (looping (comma_create f ks))"
  "Suc (nodes_in x) \<le> m \<Longrightarrow> within m (looping (stmt1_create f x opc))"
  "Suc (nodes_in x + nodes_in y) \<le> m \<Longrightarrow> within m (looping (stmt2_create f opc x y))"
  by (simp_all add: binary_create_def tuple_create_def tuple2_def comma_create_def stmt1_create_def stmt2_create_def within_create)

lemma nodes_in_consts [simp]:
  "nodes_in (snd (const_create f v)) \<le> 1" "nodes_in (const_small k w) \<le> 1" "nodes_in (zero_const k) \<le> 1"
  "nodes_in void_const \<le> 1" "nodes_in true_const \<le> 1" "nodes_in false_const \<le> 1"
  "nodes_in (snd (one_const f k)) \<le> 1" "nodes_in (snd (two_const f k)) \<le> 1"
proof -
  have n: "nodes_in (Node h off ind d []) \<le> 1" for h off ind d using nodes_in_new [of h off ind d "[]"] by simp
  show c: "nodes_in (snd (const_create f v)) \<le> 1" for v using n by (simp add: const_create_def Let_def)
  show "nodes_in (const_small k w) \<le> 1" "nodes_in (zero_const k) \<le> 1"
    "nodes_in void_const \<le> 1" "nodes_in true_const \<le> 1" "nodes_in false_const \<le> 1"
    using n by (simp_all add: const_small_def zero_const_def void_const_def true_const_def false_const_def const_bool_def)
  show "nodes_in (snd (one_const f k)) \<le> 1" "nodes_in (snd (two_const f k)) \<le> 1"
    using c n by (simp_all add: one_const_def two_const_def const_small_def)
qed

lemma pair_nodes: "const_create f v = (f1, c) \<Longrightarrow> nodes_in c \<le> 1" "one_const f k = (f1, c) \<Longrightarrow> nodes_in c \<le> 1"
  "two_const f k = (f1, c) \<Longrightarrow> nodes_in c \<le> 1"
  using nodes_in_consts(1) [of f v] nodes_in_consts(7,8) [of f k] by simp_all

lemma looping_fuel [simp]: "looping r \<noteq> Inl OutOfFuel" "ub r \<noteq> Inl OutOfFuel"
  by simp_all

lemma within_mono: "within m r \<Longrightarrow> m \<le> m' \<Longrightarrow> within m' r"
  by (auto simp: within_def)

subsection \<open>The simplifications\<close>

lemma simplify_unary_within: "within (Suc (nodes_in x)) (simplify_unary f k op x)"
proof -
  let ?xx = "as_expr (child (as_unary x) 0)" and ?b = "as_binary x"
  have u: "Suc (nodes_in ?xx) \<le> nodes_in x" if "node_valid (as_unary x)"
    using nodes_in_children [OF that] nodes_in_as(3) [of x] by linarith
  have b: "Suc (nodes_in (as_expr (child ?b 0)) + nodes_in (as_expr (child ?b 1))) \<le> nodes_in x" if "node_valid ?b"
    using nodes_in_children [OF that] nodes_in_as(4) [of x] by linarith
  have cast: "nodes_in (simplify_cast k op x) \<le> Suc (nodes_in x)" by (simp add: simplify_cast_def)
  obtain f1 one where o1: "one_const f (nkind ?xx) = (f1, one)" by force
  show ?thesis
    unfolding simplify_unary_def Let_def o1 prod.case
    using u b cast pair_nodes(2) [OF o1] by (auto intro!: within_creates)
qed

lemma simplify_comma_within:
  "args \<noteq> [] \<Longrightarrow> within (Suc (sum_list (map nodes_in args))) (simplify_comma o1 f args)"
proof (induction args rule: rev_induct)
  case (snoc x xs)
  let ?p = "\<lambda>a. \<not> deep_pure (allow_mask_pure o1) a"
  have "sum_list (map nodes_in (filter ?p xs)) \<le> sum_list (map nodes_in xs)"
    by (rule sum_list_filter_le_nat)
  then show ?case by (auto simp: simplify_comma_def Let_def intro!: within_creates)
qed simp

lemma simplify_boolean_within: "within (Suc (nodes_in x + nodes_in y)) (simplify_boolean o1 f op x y)"
  using simplify_comma_within [of "[x, y]" o1 f] by (auto simp: simplify_boolean_def Let_def)

lemma simplify_comparison_within: "within (Suc (nodes_in x + nodes_in y)) (simplify_comparison o1 f op x y)"
proof (cases "node_valid (as_const y)")
  case True
  then have y: "1 \<le> nodes_in y" using nodes_in_valid [of "as_const y"] nodes_in_as(2) [of y] by linarith
  have c: "within (Suc (nodes_in x + nodes_in y)) (simplify_comma o1 f [x, z])" if "nodes_in z \<le> 1" for z
    by (rule within_mono [OF simplify_comma_within]) (use y that in simp_all)
  show ?thesis
    using True c [OF nodes_in_consts(5)] c [OF nodes_in_consts(6)]
    by (cases op) (auto simp: simplify_comparison_def intro!: within_creates)
next
  case False
  then show ?thesis
    using nodes_in_consts(5,6) by (cases op) (auto simp: simplify_comparison_def intro: le_SucI le_trans)
qed

lemma simplify_op2_within: "within (Suc (nodes_in x + nodes_in y)) (simplify_op2 o1 f op x y)"
proof -
  have z: "nodes_in (zero_const k) \<le> Suc m" for k m using nodes_in_consts(3) [of k] by linarith
  have "within (Suc (nodes_in x + nodes_in y)) (Inr (one_const f k))" for k
    using nodes_in_consts(7) [of f k] by (cases "one_const f k") simp
  then show ?thesis
    using simplify_boolean_within simplify_comparison_within
    by (auto simp: simplify_op2_def simplify_sub_def simplify_quo_def simplify_rem_def simplify_shift_def z)
qed

lemma partial_eval_binary_within: "within (Suc (nodes_in x + nodes_in y)) (partial_eval_binary f op x y)"
  unfolding partial_eval_binary_def Let_def
  by (rule within_rbind) (auto intro!: within_creates)

lemma simplify_binary_rest_within:
  assumes "nodes_in e \<le> Suc (nodes_in x + nodes_in y)"
  shows "within (Suc (nodes_in x + nodes_in y)) (if node_valid e
    then simplify_op2 o1 f1 (node_op2 (as_binary e)) (as_expr (child (as_binary e) 0)) (as_expr (child (as_binary e) 1))
    else simplify_op2 o1 f1 op x y) \<or> node_valid e \<and> \<not> node_valid (as_binary e)"
proof (cases "node_valid (as_binary e)")
  case True
  then have "Suc (nodes_in (as_expr (child (as_binary e) 0)) + nodes_in (as_expr (child (as_binary e) 1))) \<le> Suc (nodes_in x + nodes_in y)"
    using nodes_in_children [of "as_binary e"] nodes_in_as(4) [of e] assms by linarith
  then show ?thesis using within_mono [OF simplify_op2_within] simplify_op2_within by simp
next
  case False
  then show ?thesis using simplify_op2_within by simp
qed

lemma simplify_binary_within: "within (Suc (nodes_in x + nodes_in y)) (simplify_binary o1 f op x y)"
proof (cases "partial_eval_binary f op x y")
  case (Inl e)
  then show ?thesis using partial_eval_binary_within [of x y f op] by (simp add: simplify_binary_def)
next
  case (Inr p)
  obtain f1 e where p: "p = (f1, e)" by force
  then have e: "nodes_in e \<le> Suc (nodes_in x + nodes_in y)" using partial_eval_binary_within [of x y f op] Inr by simp
  from simplify_binary_rest_within [OF e, of o1 f1 op] e show ?thesis
    unfolding simplify_binary_def Inr p Let_def rbind_simps prod.case
    by (auto simp: within_def rbind_Inl rbind_Inr split: if_splits)
qed

lemma view_nodes: "nodes_in (as_expr (view_get bad_node ks 0)) + nodes_in (as_expr (view_get bad_node ks 1)) \<le> sum_list (map nodes_in ks)"
  using sum_list_two [of ks] nodes_in_as(1) [of "view_get bad_node ks 0"] nodes_in_as(1) [of "view_get bad_node ks 1"] by linarith

lemma const_create_within: "1 \<le> m \<Longrightarrow> within m (Inr (const_create f v))"
  using nodes_in_consts(1) [of f v] by (cases "const_create f v") simp

lemma try_unary_within: "within (Suc (sum_list (map nodes_in kids))) (try_unary o1 f n kids)"
proof -
  let ?x = "as_expr (view_get bad_node kids 0)"
  have "nodes_in ?x \<le> sum_list (map nodes_in kids)" using view_nodes [of kids] by linarith
  then have "within (Suc (sum_list (map nodes_in kids))) (simplify_unary f k op ?x)" for k op
    using within_mono [OF simplify_unary_within] by simp
  then show ?thesis
    unfolding try_unary_def Let_def by (auto intro!: within_rbind const_create_within)
qed

lemma try_binary_within: "within (Suc (sum_list (map nodes_in kids))) (try_binary o1 f n kids)"
proof -
  let ?x = "as_expr (view_get bad_node kids 0)" and ?y = "as_expr (view_get bad_node kids 1)"
  have "within (Suc (sum_list (map nodes_in kids))) (simplify_binary o1 f op ?x ?y)" for op
    using within_mono [OF simplify_binary_within] view_nodes [of kids] by simp
  then show ?thesis
    unfolding try_binary_def Let_def by (auto intro!: within_rbind const_create_within)
qed

lemma simplify_assign_within: "within (Suc (Suc (nodes_in dst))) (simplify_assign o1 f op dst v)"
proof -
  have c: "within (Suc (Suc (nodes_in dst))) (case const_create f v of (f1, c) \<Rightarrow> looping (stmt2_create f1 ASSIGN dst c))" for v
    using nodes_in_consts(1) [of f v] by (cases "const_create f v") (auto intro!: within_creates)
  have z: "nodes_in void_const \<le> Suc (Suc m)" for m using nodes_in_consts(4) by linarith
  show ?thesis
    unfolding simplify_assign_def Let_def
    using c by (auto simp: z intro!: within_rbind within_creates)
qed

lemma assign_self_within: "within (Suc (Suc (nodes_in dst))) (assign_self f op dst)"
proof -
  have c: "within (Suc (Suc (nodes_in dst))) (case r of (f1, c) \<Rightarrow> looping (stmt2_create f1 opc dst c))"
    if "nodes_in (snd r) \<le> 1" for r opc
    using that by (cases r) (auto intro!: within_creates)
  have z: "nodes_in void_const \<le> Suc (Suc m)" for m using nodes_in_consts(4) by linarith
  show ?thesis
    unfolding assign_self_def Let_def
    using c [OF nodes_in_consts(7)] c [OF nodes_in_consts(8)] nodes_in_consts(3) [of "nkind dst"]
    by (auto simp: z intro!: within_creates)
qed

text \<open>The operator found in the source of a plain assignment is not a plain assignment: one level of recursion.\<close>

lemma try_assign_within:
  assumes "\<And>op src'. op \<noteq> ASSIGN \<Longrightarrow> nodes_in src' \<le> nodes_in src \<Longrightarrow>
      within (Suc (nodes_in dst + nodes_in src')) (make_assign o1 f op dst src') \<or> aop \<noteq> ASSIGN"
  shows "within (Suc (nodes_in dst + nodes_in src)) (try_assign o1 f aop dst src)"
proof -
  let ?b = "as_binary src" and ?t = "as_tuple src" and ?m = "Suc (nodes_in dst + nodes_in src)"
  have w: "within ?m r" if "node_valid src" "within (Suc (Suc (nodes_in dst))) r" for r
    using within_mono [OF that(2)] nodes_in_valid [OF that(1)] by simp
  have m: "within ?m (make_assign o1 f op dst (as_expr (child y 1)))"
    if "node_valid y" "nodes_in y \<le> nodes_in src" "op \<noteq> ASSIGN" "aop = ASSIGN" for y op
  proof -
    have le: "nodes_in (as_expr (child y 1)) \<le> nodes_in src" using nodes_in_children [OF that(1)] that(2) by linarith
    have "within (Suc (nodes_in dst + nodes_in (as_expr (child y 1)))) (make_assign o1 f op dst (as_expr (child y 1)))"
      using assms [OF that(3) le] that(4) by simp
    then show ?thesis by (rule within_mono) (use le in simp)
  qed
  show ?thesis
    unfolding try_assign.simps [of o1 f aop] Let_def
    using w [OF _ simplify_assign_within] w [OF _ assign_self_within] m [of ?b] m [of ?t] by simp
qed

lemma make_assign_within:
  "op \<noteq> ASSIGN \<Longrightarrow> within (Suc (nodes_in dst + nodes_in src)) (make_assign o1 f op dst src)"
  using try_assign_within [of src dst o1 f op]
  by (cases "try_assign o1 f op dst src") (auto simp: make_assign.simps intro!: within_creates)

lemma try_node_within: "within (Suc (sum_list (map nodes_in kids))) (try_node o1 f n kids)"
  using try_unary_within try_binary_within view_nodes [of kids] within_mono [OF try_assign_within [OF disjI1 [OF make_assign_within]]]
  by (simp add: try_node_def)

lemma fold_trailing_nodes:
  "fold_trailing k op cs v = Some (w, rest) \<Longrightarrow>
    sum_list (map nodes_in rest) + (length cs - length rest) \<le> sum_list (map nodes_in cs) \<and> length rest \<le> length cs"
proof (induction cs arbitrary: v)
  case (Cons c cs)
  show ?case
  proof (cases "node_valid (as_const c)")
    case True
    then have "1 \<le> nodes_in c" using nodes_in_valid [of "as_const c"] nodes_in_as(2) [of c] by linarith
    moreover from True Cons.prems obtain v' where "fold_trailing k op cs v' = Some (w, rest)" by (auto simp: bind_eq_Some_conv)
    from Cons.IH [OF this] have "sum_list (map nodes_in rest) + (length cs - length rest) \<le> sum_list (map nodes_in cs)"
      "length rest \<le> length cs" by blast+
    ultimately show ?thesis by (simp add: Suc_diff_le)
  next
    case False
    with Cons.prems show ?thesis by auto
  qed
qed simp

lemma rebuild_tuple_within: "nodes_in n \<le> m \<Longrightarrow> Suc (sum_list (map nodes_in kids)) \<le> m \<Longrightarrow> within m (rebuild_tuple f n kids)"
  by (simp add: rebuild_tuple_def within_creates)

lemma finish_tuple_within: "nodes_in n \<le> m \<Longrightarrow> Suc (sum_list (map nodes_in kids)) \<le> m \<Longrightarrow> within m (finish_tuple f n kids v)"
  using const_create_within [of m f v] rebuild_tuple_within order_trans [OF nodes_in_as(1)]
  by (auto simp: finish_tuple_def split: list.split)

lemma sum_list_mset_eq: "mset xs = mset ys \<Longrightarrow> sum_list (map g xs) = sum_list (map g ys)" for g :: "'a \<Rightarrow> nat"
  by (metis mset_map sum_mset_sum_list)

lemma partial_eval_tuple_within:
  assumes "nodes_in n \<le> m" "Suc (sum_list (map nodes_in kids)) \<le> m"
  shows "within m (partial_eval_tuple o1 f n kids)"
proof -
  let ?k = "nkind n" and ?op = "node_opn n"
  have one: "1 \<le> m" using assms(2) by simp
  define ks where "ks = (if length kids > 1 \<and> is_commutative ?op then sort_nodes kids else kids)"
  have "mset ks = mset kids" by (simp add: ks_def mset_sort_nodes)
  then have sum: "sum_list (map nodes_in ks) = sum_list (map nodes_in kids)" by (rule sum_list_mset_eq)
  have folded: "within m (if length rest < length ks \<and> val_truth (val_ne v e) then
        (case const_create f v of (f1, c) \<Rightarrow> rbind (ub (val_absorbing ?k ?op)) (\<lambda>a.
           if val_truth (val_eq v a) \<and> list_all (\<lambda>x. node_valid (as_var x)) (rev rest)
           then Inr (f1, c) else finish_tuple f1 n (rev rest @ [c]) v))
      else finish_tuple f n (rev rest) v)"
    if "fold_trailing ?k ?op (rev ks) e = Some (v, rest)" for e v rest
  proof -
    have r: "sum_list (map nodes_in rest) + (length ks - length rest) \<le> sum_list (map nodes_in kids)"
      "length rest \<le> length ks"
      using fold_trailing_nodes [OF that] unfolding rev_map [symmetric] sum_list_rev length_rev sum by blast+
    obtain f1 c where c: "const_create f v = (f1, c)" "nodes_in c \<le> 1" using pair_nodes(1) by force
    show ?thesis
    proof (cases "length rest < length ks \<and> val_truth (val_ne v e)")
      case True
      then have "sum_list (map nodes_in rest) + nodes_in c \<le> sum_list (map nodes_in kids)" using r c(2) by linarith
      then have "Suc (sum_list (map nodes_in (rev rest @ [c]))) \<le> m" using assms(2) by (simp add: rev_map [symmetric])
      with True c one show ?thesis by (auto intro!: within_rbind finish_tuple_within assms(1))
    next
      case False
      have "sum_list (map nodes_in rest) \<le> sum_list (map nodes_in kids)" using r by linarith
      then show ?thesis
        using False assms by (simp only: if_False) (intro finish_tuple_within; simp add: rev_map [symmetric])
    qed
  qed
  show ?thesis
    unfolding partial_eval_tuple_def Let_def ks_def [symmetric]
    using folded one assms sum rebuild_tuple_within finish_tuple_within
    by (auto intro!: within_rbind const_create_within)
qed

subsection \<open>The recursion\<close>

lemma optimize_children_ends:
  assumes "\<And>f n. 2 * nodes_in n < m \<Longrightarrow> within (nodes_in n) (optimize_node m o1 f n)"
  shows "2 * sum_list (map nodes_in xs) < m \<Longrightarrow>
    optimize_children m o1 f xs \<noteq> Inl OutOfFuel \<and>
    (\<forall>f' ys. optimize_children m o1 f xs = Inr (f', ys) \<longrightarrow> sum_list (map nodes_in ys) \<le> sum_list (map nodes_in xs))"
proof (induction xs arbitrary: f)
  case (Cons x xs)
  have x: "within (nodes_in x) (optimize_node m o1 f x)" using assms Cons.prems by simp
  have xs: "optimize_children m o1 g xs \<noteq> Inl OutOfFuel"
    "optimize_children m o1 g xs = Inr (f', ys) \<Longrightarrow> sum_list (map nodes_in ys) \<le> sum_list (map nodes_in xs)" for g f' ys
    using Cons.IH [of g] Cons.prems by auto
  show ?case
    using x xs by (fastforce simp: optimize_children.simps within_def rbind_Inl rbind_Inr)
qed (simp add: optimize_children.simps)

definition shrinks :: "nat \<Rightarrow> (func \<times> node list) res \<Rightarrow> bool" where
  "shrinks m r \<longleftrightarrow> r \<noteq> Inl OutOfFuel \<and> (\<forall>f ys. r = Inr (f, ys) \<longrightarrow> sum_list (map nodes_in ys) \<le> m)"

lemma flatten_ends:
  assumes node: "\<And>j f n. m = Suc j \<Longrightarrow> 2 * nodes_in n < j \<Longrightarrow> within (nodes_in n) (optimize_node j o1 f n)"
    and flat: "\<And>j f xs. m = Suc j \<Longrightarrow> Suc (2 * sum_list (map nodes_in xs)) < j \<Longrightarrow>
      shrinks (sum_list (map nodes_in xs)) (flatten j o1 opt h f xs)"
  shows "Suc (2 * sum_list (map nodes_in xs)) < m \<Longrightarrow> shrinks (sum_list (map nodes_in xs)) (flatten m o1 opt h f xs)"
proof (induction xs arbitrary: f)
  case (Cons x xs)
  then obtain j where j: "m = Suc j" by (cases m) simp_all
  have fuel: "2 * nodes_in x < j" using Cons.prems j by simp
  have nested: "shrinks (nodes_in x) (flatten j o1 opt h g (nkids y))" if "nodes_in y \<le> nodes_in x" for g y
  proof (cases "y = bad_node")
    case True
    then show ?thesis by (simp add: bad_node_def flatten.simps shrinks_def)
  next
    case False
    then have "Suc (2 * sum_list (map nodes_in (nkids y))) < j" using fuel that nodes_in_unfold [of y] by simp
    from flat [OF j this, of g] show ?thesis using nodes_in_kids [of y] that by (force simp: shrinks_def)
  qed
  have x: "within (nodes_in x) (optimize_node j o1 f x)" using node [OF j fuel] .
  define step where "step = (if nhead x = h then (case m of 0 \<Rightarrow> Inl OutOfFuel | Suc j \<Rightarrow> flatten j o1 opt h f (nkids x))
      else rbind (if opt then (case m of 0 \<Rightarrow> Inl OutOfFuel | Suc j \<Rightarrow> optimize_node j o1 f x) else Inr (f, x))
        (\<lambda>(f1, y). if nhead y = h then (case m of 0 \<Rightarrow> Inl OutOfFuel | Suc j \<Rightarrow> flatten j o1 opt h f1 (nkids y))
           else Inr (f1, [y])))"
  have "shrinks (nodes_in x) (rbind r (\<lambda>(f1, y). if nhead y = h then flatten j o1 opt h f1 (nkids y) else Inr (f1, [y])))"
    if "within (nodes_in x) r" for r
    using that nested by (fastforce simp: within_def shrinks_def rbind_Inl rbind_Inr)
  from this [OF x] this [of "Inr (f, x)"] nested [of x f] have s: "shrinks (nodes_in x) step"
    unfolding step_def j nat.case by (auto split: if_splits)
  have xs: "shrinks (sum_list (map nodes_in xs)) (flatten m o1 opt h g xs)" for g
    using Cons.IH [of g] Cons.prems by simp
  show ?case
    unfolding flatten.simps step_def [symmetric]
    using s xs by (fastforce simp: shrinks_def rbind_Inl rbind_Inr)
qed (simp add: flatten.simps shrinks_def)

lemma optimize_node_ends:
  assumes children: "\<And>f xs. 2 * sum_list (map nodes_in xs) < m \<Longrightarrow> optimize_children m o1 f xs \<noteq> Inl OutOfFuel \<and>
      (\<forall>f' ys. optimize_children m o1 f xs = Inr (f', ys) \<longrightarrow> sum_list (map nodes_in ys) \<le> sum_list (map nodes_in xs))"
    and flat: "\<And>h f xs. Suc (2 * sum_list (map nodes_in xs)) < m \<Longrightarrow>
      shrinks (sum_list (map nodes_in xs)) (flatten m o1 True h f xs)"
    and fuel: "2 * nodes_in n < Suc m"
  shows "within (nodes_in n) (optimize_node (Suc m) o1 f n)"
proof (cases "children n = 0 \<or> \<not> good (fcode f)")
  case leaf: True
  show ?thesis
  proof (cases "nty n = TUPLE \<and> good (fcode f) \<and> \<not> ntype_code TUPLE \<ge> ntype_code LABEL \<and> node_valid n \<and> simplify_expr o1")
    case True
    with leaf have k: "nkids n = []" "n \<noteq> bad_node" by (auto simp: children_def)
    have "within (nodes_in n) (partial_eval_tuple o1 f n [])"
      using k nodes_in_unfold [of n] by (intro partial_eval_tuple_within) simp_all
    with True leaf k show ?thesis
      by (auto simp: optimize_node.simps [of "Suc m"] flatten.simps intro!: within_rbind)
  next
    case False
    with leaf show ?thesis by (auto simp: optimize_node.simps [of "Suc m"])
  qed
next
  case False
  then have n: "n \<noteq> bad_node" by (auto simp: children_def bad_node_def)
  let ?s = "sum_list (map nodes_in (nkids n))"
  have sz: "nodes_in n = Suc ?s" using nodes_in_unfold [OF n] .
  show ?thesis
  proof (cases "nty n = TUPLE")
    case True
    have f: "shrinks ?s (flatten m o1 True (nhead n) f (nkids n))" using flat [of "nkids n"] fuel sz by simp
    have p: "within (nodes_in n) (partial_eval_tuple o1 g n kids)" if "sum_list (map nodes_in kids) \<le> ?s" for g kids
      using that sz by (intro partial_eval_tuple_within) simp_all
    have "within (nodes_in n) (rbind (partial_eval_tuple o1 g n kids) (\<lambda>(f2, r). Inr (f2, if node_valid r then r else n)))"
      if "flatten m o1 True (nhead n) f (nkids n) = Inr (g, kids)" for g kids
      using p [of kids g] that f by (auto simp: within_def shrinks_def rbind_Inl rbind_Inr)
    then show ?thesis
      using False True f by (auto simp: optimize_node.simps [of "Suc m"] shrinks_def intro!: within_rbind)
  next
    case other: False
    have c: "optimize_children m o1 f (nkids n) \<noteq> Inl OutOfFuel"
      "optimize_children m o1 f (nkids n) = Inr (f1, kids) \<Longrightarrow> sum_list (map nodes_in kids) \<le> ?s" for f1 kids
      using children [of "nkids n" f] fuel sz by auto
    have t: "within (nodes_in n) (try_node o1 f1 n kids)" "within (nodes_in n) (looping (create_indirect f2 h kids))"
      if "optimize_children m o1 f (nkids n) = Inr (f1, kids)" for f1 kids f2 h
      using c(2) [OF that] sz by (auto intro: within_mono [OF try_node_within] within_create)
    have "within (nodes_in n) (rbind (try_node o1 f1 n kids) (\<lambda>(f2, r).
        rbind (if \<not> node_valid r \<and> \<not> same_children n kids then looping (create_indirect f2 (nhead n) kids) else Inr (f2, r))
          (\<lambda>(f3, r'). Inr (f3, if node_valid r' then r' else n))))"
      if "optimize_children m o1 f (nkids n) = Inr (f1, kids)" for f1 kids
      using t [OF that] by (fastforce simp: within_def rbind_Inl rbind_Inr)
    then show ?thesis
      using False other c(1) by (auto simp: optimize_node.simps [of "Suc m"] intro!: within_rbind)
  qed
qed

lemma optimize_ends:
  "(\<forall>f n. 2 * nodes_in n < m \<longrightarrow> within (nodes_in n) (optimize_node m o1 f n)) \<and>
   (\<forall>h f xs. Suc (2 * sum_list (map nodes_in xs)) < m \<longrightarrow>
      shrinks (sum_list (map nodes_in xs)) (flatten m o1 True h f xs))"
proof (induction m)
  case (Suc m)
  have "within (nodes_in n) (optimize_node (Suc m) o1 f n)" if "2 * nodes_in n < Suc m" for f n
    by (rule optimize_node_ends [OF optimize_children_ends _ that]) (use Suc.IH in auto)
  moreover have "shrinks (sum_list (map nodes_in xs)) (flatten (Suc m) o1 True h f xs)"
    if "Suc (2 * sum_list (map nodes_in xs)) < Suc m" for h f xs
    by (rule flatten_ends [OF _ _ that]) (use Suc.IH in auto)
  ultimately show ?case by blast
qed simp



end
