(* ===== verification/Optimizer_Limits.thy ===== *)
theory Optimizer_Limits imports Optimizer_Ends begin

text \<open>
  What the optimizer does not keep: it drops a constant operand of a signed maximum, merges a call in the argument of
  a call into it, and executes the divisions by zero that it folds.
\<close>

subsection \<open>Leaves\<close>

definition leaf :: "node \<Rightarrow> bool" where
  "leaf n \<longleftrightarrow> nkids n = [] \<and> nty n \<noteq> TUPLE"

lemma optimize_leaf: "leaf n \<Longrightarrow> 0 < m \<Longrightarrow> optimize_node m o1 f n = Inr (f, n)"
  by (cases m) (simp_all add: optimize_node.simps [of "Suc _"] leaf_def children_def)

lemma flatten_leaves:
  assumes "htype h = TUPLE" "1 < m"
  shows "list_all leaf xs \<Longrightarrow> flatten m o1 opt h f (xs @ ys) =
    rbind (flatten m o1 opt h f ys) (\<lambda>(f1, zs). Inr (f1, xs @ zs))"
proof (induction xs)
  case Nil
  show ?case by (cases "flatten m o1 opt h f ys") auto
next
  case (Cons x xs)
  obtain j where j: "m = Suc j" "0 < j" using assms(2) by (cases m) auto
  have x: "leaf x" "nhead x \<noteq> h" using Cons.prems assms(1) by (auto simp: leaf_def)
  have "(case m of 0 \<Rightarrow> Inl OutOfFuel | Suc k \<Rightarrow> optimize_node k o1 f x) = Inr (f, x)"
    using optimize_leaf [OF x(1) j(2)] j(1) by simp
  with Cons x(2) show ?case
    by (cases "flatten m o1 opt h f ys") (auto simp: flatten.simps)
qed

subsection \<open>Properties\<close>

text \<open>C33: a constant operand of a maximum of 8-bit signed integers disappears: \<open>(max x w)\<close> becomes \<open>x\<close>. The code takes
  the minimum of the kind, which compares greater than every value of the kind, for the identity of the operator.\<close>

theorem optimize_drops_maximum:
  assumes "good (fcode f)" "leaf x" "nty x = VAR" "as_expr x = x" "w < 128" "fold_constant o1" "simplify_expr o1" "oflags o1 \<noteq> 0"
    "node_valid x"
  shows "optimize 3 o1 f (Node (mk_header TUPLE eInt8 (opn_code MAXN)) off True [] [x, const_small eInt8 w]) = Inr (f, x)"
proof -
  let ?h = "mk_header TUPLE eInt8 (opn_code MAXN)" and ?c = "const_small eInt8 w"
  define n where "n = Node ?h off True [] [x, ?c]"
  have c: "leaf ?c" "nty ?c = CONSTN" "const_val ?c = mk_val eInt8 (ucast w)" "node_valid ?c"
    using const_small_val [of eInt8 w] by (simp_all add: leaf_def const_small_def const_header_def node_valid_def header_valid_def)
  have op: "node_opn n = MAXN" "node_valid n" "is_associative MAXN" "is_commutative MAXN" and n: "nhead n = ?h" "nkids n = [x, ?c]"
    by (simp_all add: n_def node_opn_def opn_list_def node_valid_def header_valid_def is_associative_def is_commutative_def)
  have x: "\<not> node_valid (as_const x)" "node_valid (as_const ?c)" "as_const ?c = ?c" "nhead x \<noteq> nhead ?c"
    using assms(3) c by (auto simp: as_type dest: arg_cong [where f = htype])
  have "\<not> header_less (nhead ?c) (nhead x)"
    using assms(3) c(2) unsigned_less [of "hkind (nhead x)", where ?'a = nat] unsigned_less [of "hop (nhead x)", where ?'a = nat]
    by (simp add: header_less_def header_order_def)
  then have sorted: "sort_nodes [x, ?c] = [x, ?c]"
    using x(4) assms(3) c(2) by (simp add: sort_nodes_def deep_compare_unfold)
  have id: "val_identity eInt8 MAXN = Some (mk_val eInt8 128)"
    by (simp add: val_identity_def val_min_def kind_is_unsigned_def kind_is_signed_def kind_group_def kind_is_def kgroup_def is_bitwise_def)
  have fl: "flatten 2 o1 True ?h f [x, ?c] = Inr (f, [x, ?c])"
    using flatten_leaves [of ?h 2 "[x, ?c]" o1 True f "[]"] assms(2) c(1) by (simp add: flatten.simps)
  have sw: "sint (ucast w :: u64) < 128" "0 \<le> sint (ucast w :: u64)"
  proof -
    have "uint w < 128" using assms(5) by (simp add: word_less_def)
    moreover have "sint (ucast w :: u64) = uint w"
      using calculation order_trans [OF _ unsigned_greater_eq [of w], of "- (2 ^ 63) :: int"]
      by (simp add: sint_uint unsigned_ucast_eq take_bit_int_eq_self signed_take_bit_int_eq_self)
    ultimately show "sint (ucast w :: u64) < 128" "0 \<le> sint (ucast w :: u64)" by simp_all
  qed
  have e: "eval_tuple_op eInt8 MAXN [mk_val eInt8 (ucast w), mk_val eInt8 128] = Some (mk_val eInt8 128)"
    using sw by (simp add: eval_tuple_op_def id val_less_def val_is_valid_def)
  have ft: "fold_trailing eInt8 MAXN [?c, x] (mk_val eInt8 128) = Some (mk_val eInt8 128, [x])"
    using x(1-3) c(3) e by simp
  have ne: "\<not> val_truth (val_ne (mk_val eInt8 128) (mk_val eInt8 128))"
    by (simp add: val_ne_def val_truth_def val_zero_def)
  have pt: "partial_eval_tuple o1 f n [x, ?c] = Inr (f, x)"
    unfolding partial_eval_tuple_def Let_def op(1)
    by (simp add: n op(3,4) id sorted ft ne assms(4,6) finish_tuple_def kind_is_float_def del: fold_trailing.simps)
  show ?thesis
    using assms(1,7-9) fl pt op(2) n
    unfolding n_def [symmetric] by (simp add: optimize_def numeral_3_eq_3 numeral_2_eq_2 optimize_node.simps [of "Suc _"] children_def)
qed

lemma optimize_drops_maximum_witness:
  "optimize 3 \<lparr>ocheck = 0, oflags = 3\<rparr> example_func
     (Node (mk_header TUPLE eInt8 (opn_code MAXN)) 8 True [] [var_direct (local_make eInt8 0x1000), const_small eInt8 5]) =
   Inr (example_func, var_direct (local_make eInt8 0x1000))"
proof (rule optimize_drops_maximum)
  show "good (fcode example_func)" by (simp add: example_func_code)
  show "leaf (var_direct (local_make eInt8 0x1000))" "nty (var_direct (local_make eInt8 0x1000)) = VAR"
    "as_expr (var_direct (local_make eInt8 0x1000)) = var_direct (local_make eInt8 0x1000)"
    by (simp_all add: leaf_def var_direct_def var_header_def as_expr_def downcast_def is_expr_type_def)
  show "node_valid (var_direct (local_make eInt8 0x1000))"
    by (simp add: node_valid_def header_valid_def var_direct_def var_header_def local_make_def local_kind_def)
qed (simp_all add: fold_constant_def simplify_expr_def)

text \<open>C31: with constant folding, the compiler itself divides by zero when the program does: \<open>(/ a 0)\<close> and \<open>(% a 0)\<close> on
  an integer kind are undefined behaviour of the optimizer, where the program may never reach them.\<close>

theorem optimize_divides_by_zero:
  assumes "good (fcode f)" "fold_constant o1" "int_kind k" "k < 16" "eVoid < k" "op \<in> {QUO, REM}"
  shows "optimize 2 o1 f (Node (mk_header BINARY k (op2_code op)) off True [] [const_small k a, zero_const k]) = Inl Undefined"
proof -
  let ?n = "Node (mk_header BINARY k (op2_code op)) off True [] [const_small k a, zero_const k]"
  have c: "leaf (const_small k w)" "nty (const_small k w) = CONSTN" "const_val (const_small k w) = mk_val k (ucast w)"
    "node_valid (const_small k w)" "as_expr (const_small k w) = const_small k w" for w
    using const_small_val [OF assms(4,5), of w] assms(4,5)
    by (auto simp: leaf_def const_small_def const_header_def node_valid_def header_valid_def as_expr_def downcast_def is_expr_type_def
        scalar_nosimd)
  have n: "node_valid ?n" "node_op2 ?n = op"
    using assms(5,6) by (auto simp: node_valid_def header_valid_def node_op2_def op2_list_def)
  have kids: "optimize_children (Suc 0) o1 f [const_small k a, zero_const k] = Inr (f, [const_small k a, zero_const k])"
    using optimize_leaf [OF c(1)] by (simp add: optimize_children.simps zero_const_def)
  have z: "eval_binary_op op (mk_val k (ucast a)) (mk_val k 0) = None"
    using assms(3,6) int_kind_not_float [OF assms(3)]
    by (auto simp: eval_binary_op_def val_quo_def val_rem_def int64_defined_def)
  have "try_node o1 f ?n [const_small k a, zero_const k] = Inl Undefined"
    using n assms(2,5) c z by (auto simp: try_node_def as_type try_binary_def view_get_def zero_const_def val_is_valid_def Let_def)
  moreover have "oflags o1 \<noteq> 0" using assms(2) by (auto simp: fold_constant_def)
  ultimately show ?thesis
    using assms(1) n(1) kids by (simp add: optimize_def numeral_2_eq_2 optimize_node.simps [of "Suc _"] children_def)
qed

lemma optimize_divides_by_zero_witness:
  "optimize 2 \<lparr>ocheck = 0, oflags = 1\<rparr> example_func
     (Node (mk_header BINARY eInt32 (op2_code QUO)) 8 True [] [const_small eInt32 7, zero_const eInt32]) = Inl Undefined"
  by (rule optimize_divides_by_zero) (simp_all add: example_func_code fold_constant_def)


text \<open>The call of \<open>b\<close> in the argument of the call of \<open>a\<close>: one call, of \<open>a\<close>, with three arguments.\<close>

definition nested_call :: "node \<Rightarrow> node \<Rightarrow> node \<Rightarrow> node" where
  "nested_call t a b =
     (let h = mk_header TUPLE eInt64 (opn_code CALL)
      in Node h 16 True [] [t, a, Node h 8 True [] [t, b]])"


end
