(* ===== verification/FlowGraph.thy ===== *)
theory FlowGraph imports Nodes begin

text \<open>
  The control flow graph of a function: \<open>src/onejit/flowgraph.cpp\<close>, \<open>basicblock.hpp\<close>, and the classification of jumps
  of \<open>src/onejit/ir/util.cpp\<close>.

  A pointer to a basic block is its index, the null pointer \<open>None\<close>. A slice of \<open>links_\<close> that a block keeps is the list
  of its elements at the moment it is set: later writes to \<open>links_\<close> are beyond it. The two arrays have their
  allocators as parameters.
\<close>

subsection \<open>Jumps\<close>

abbreviation "MIR_JMP \<equiv> (4 :: opcode)"
abbreviation "X86_JMP \<equiv> (27 :: opcode)"
abbreviation "MIR_RET \<equiv> (9 :: opcode)"
abbreviation "X86_RET \<equiv> (11 :: opcode)"

definition x86_cond_jumps :: "opcode list" where
  "x86_cond_jumps = map (enum_code opstmt1_rows)
     [''X86_JA'', ''X86_JAE'', ''X86_JB'', ''X86_JBE'', ''X86_JE'', ''X86_JG'', ''X86_JGE'', ''X86_JL'', ''X86_JNE'',
      ''X86_JNO'', ''X86_JNP'', ''X86_JNS'', ''X86_JO'', ''X86_JP'', ''X86_JS'']"

definition asm_cond_jumps :: "opcode list" where
  "asm_cond_jumps = [ASM_JA, ASM_JAE, ASM_JB, ASM_JBE, ASM_JE, ASM_JG, ASM_JGE, ASM_JL, ASM_JNE]"

definition is_return_op :: "opcode \<Rightarrow> bool" where
  "is_return_op op \<longleftrightarrow> op = RETURN \<or> op = MIR_RET \<or> op = X86_RET"

definition is_return :: "node \<Rightarrow> bool" where
  "is_return n \<longleftrightarrow> nty n = STMT_N \<and> is_return_op (nop n)"

definition is_uncond_jump :: "node \<Rightarrow> bool" where
  "is_uncond_jump n \<longleftrightarrow>
     (if nty n = STMT_1 then nop n = GOTO \<or> nop n = MIR_JMP \<or> nop n = X86_JMP else is_return n)"

definition is_cond_jump :: "node \<Rightarrow> bool" where
  "is_cond_jump n \<longleftrightarrow>
     (case nty n of
        STMT_1 \<Rightarrow> nop n \<in> set x86_cond_jumps
      | STMT_2 \<Rightarrow> nop n = JUMP_IF \<or> nop n = enum_code opstmt2_rows ''X86_XBEGIN''
      | STMT_3 \<Rightarrow> nop n \<in> set asm_cond_jumps
      | _ \<Rightarrow> False)"

definition is_jump :: "node \<Rightarrow> bool" where
  "is_jump n \<longleftrightarrow> is_uncond_jump n \<or> is_cond_jump n"

definition jump_label :: "node \<Rightarrow> node" where
  "jump_label n = (if nty n \<noteq> STMT_N then as_label (child n 0) else bad_node)"

definition is_label :: "node \<Rightarrow> bool" where
  "is_label n \<longleftrightarrow> nty n = LABEL"

lemma jump_codes:
  "map (enum_code opstmt1_rows) [''MIR_JMP'', ''X86_JMP''] = [MIR_JMP, X86_JMP]"
  "map (enum_code opstmtn_rows) [''MIR_RET'', ''X86_RET''] = [MIR_RET, X86_RET]"
  by (simp_all add: enum_code_def opstmt1_rows_def opstmtn_rows_def enum_rows_def opstmt1_mir_def opstmt1_x86_def
      opstmtn_mir_def opstmtn_x86_def)

lemma label_no_jump: "is_label n \<Longrightarrow> \<not> is_jump n"
  by (simp add: is_label_def is_jump_def is_uncond_jump_def is_cond_jump_def is_return_def)

subsection \<open>State\<close>

record bblock =
  bnodes :: "node list"
  bprev :: "nat option list"
  bnext :: "nat option list"

definition bblock_new :: "node list \<Rightarrow> bblock" where
  "bblock_new nodes = \<lparr>bnodes = nodes, bprev = [], bnext = []\<rparr>"

record flowgraph =
  fg_blocks :: "bblock arr"
  fg_links :: "nat option arr"
  fg_label_n :: nat
  fg_avail :: nat
  fg_ok_blocks :: "nat \<Rightarrow> bool"
  fg_ok_links :: "nat \<Rightarrow> bool"

type_synonym ferror = "node \<times> string"

subsection \<open>Basic blocks\<close>

text \<open>The second inner loop of \<open>build_basicblocks\<close>: the nodes of the block after its labels, and the links they need.\<close>

fun scan_body :: "node list \<Rightarrow> nat \<times> nat" where
  "scan_body [] = (0, 0)"
| "scan_body (n # ns) =
     (if is_label n then (0, 1)
      else if is_uncond_jump n then (1, 1)
      else if is_cond_jump n then (1, if ns = [] then 1 else 2)
      else let (c, j) = scan_body ns in (Suc c, j))"

lemma scan_body_length: "fst (scan_body ns) \<le> length ns"
  by (induction ns) (auto split: prod.splits)

definition max_label :: "nat \<Rightarrow> node list \<Rightarrow> nat" where
  "max_label m ns = foldl (\<lambda>a n. max a (unat (label_index (as_label n)))) m ns"

lemma scan_progress:
  "ns \<noteq> [] \<Longrightarrow> length (drop (fst (scan_body (dropWhile is_label ns))) (dropWhile is_label ns)) < length ns"
proof (cases ns)
  case (Cons x xs)
  have l: "length (dropWhile is_label xs) \<le> length xs" by (rule length_dropWhile_le)
  show ?thesis
  proof (cases "is_label x")
    case True
    with Cons l show ?thesis by simp
  next
    case False
    then have "0 < fst (scan_body (x # xs))" by (auto split: prod.splits)
    with Cons False show ?thesis by simp
  qed
qed simp

function build_loop :: "(nat \<Rightarrow> bool) \<Rightarrow> node list \<Rightarrow> bblock arr \<Rightarrow> nat \<Rightarrow> nat \<Rightarrow> bool \<times> bblock arr \<times> nat \<times> nat" where
  "build_loop ok ns bbs jumps lmax =
     (if ns = [] then (True, bbs, jumps, lmax)
      else let labels = takeWhile is_label ns;
               rest = dropWhile is_label ns;
               lmax' = max_label lmax labels;
               (c, j) = scan_body rest;
               (appended, bbs') = arr_append (bblock_new []) ok [bblock_new (labels @ take c rest)] bbs
           in if appended then build_loop ok (drop c rest) bbs' (jumps + j) lmax'
              else (False, bbs', jumps + j, lmax'))"
  by pat_completeness auto
termination
proof (relation "measure (\<lambda>(ok, ns, _). length ns)", goal_cases)
  case (2 ok ns bbs jumps lmax labels rest lmax' p c j q appended bbs')
  then have "c = fst (scan_body (dropWhile is_label ns))" by (metis fst_conv)
  with 2 scan_progress [of ns] show ?case by simp
qed simp

declare build_loop.simps [simp del]

definition build_basicblocks :: "node list \<Rightarrow> flowgraph \<Rightarrow> bool \<times> flowgraph" where
  "build_basicblocks ns g =
     (let (ok, bbs, jumps, lmax) = build_loop (fg_ok_blocks g) ns (fg_blocks g) 0 0;
          g1 = g\<lparr>fg_blocks := bbs, fg_label_n := 1 + lmax, fg_avail := 1 + lmax\<rparr>
      in if ok then let (ok', ls) = arr_resize None (fg_ok_links g) (1 + lmax + jumps * 2) (fg_links g)
                    in (ok', g1\<lparr>fg_links := ls\<rparr>)
         else (False, g1))"

subsection \<open>Links\<close>

fun resolve_labels :: "nat \<Rightarrow> bblock list \<Rightarrow> nat option list \<Rightarrow> nat option list" where
  "resolve_labels i [] ls = ls"
| "resolve_labels i (bb # bbs) ls =
     resolve_labels (Suc i) bbs
       (foldl (\<lambda>l n. span_set l (unat (label_index (as_label n))) (Some i)) ls (takeWhile is_label (bnodes bb)))"

text \<open>
  The jump at the end of a block: the links it adds, or an error. The blocks that follow an error keep the links they
  had.
\<close>

definition jump_link :: "nat \<Rightarrow> node \<Rightarrow> nat option list \<Rightarrow> string + nat option list" where
  "jump_link label_n n ls =
     (if is_uncond_jump n \<or> is_cond_jump n then
        let label = jump_label n; index = unat (label_index label)
        in if \<not> node_valid label then Inr []
           else if index \<ge> label_n then Inl ''invalid label''
           else (case view_get None ls index of
                   Some to \<Rightarrow> Inr [Some to]
                 | None \<Rightarrow> Inl ''label not found'')
      else Inr [])"

fun write_links :: "nat option list \<Rightarrow> nat \<Rightarrow> nat option list \<Rightarrow> nat option list" where
  "write_links ls at [] = ls"
| "write_links ls at (t # ts) = write_links (span_set ls at t) (Suc at) ts"

fun resolve_next :: "nat \<Rightarrow> nat \<Rightarrow> nat \<Rightarrow> bblock list \<Rightarrow> nat \<Rightarrow> nat option list \<Rightarrow>
    ferror option \<times> bblock list \<times> nat option list \<times> nat" where
  "resolve_next label_n n i [] start ls = (None, [], ls, start)"
| "resolve_next label_n n i (bb # bbs) start ls =
     (if bnodes bb = [] then
        let (e, bbs', ls', end') = resolve_next label_n n (Suc i) bbs start ls in (e, bb # bbs', ls', end')
      else
        let node = last (bnodes bb);
            fall = (if \<not> is_uncond_jump node \<and> Suc i < n then [Some (Suc i)] else []);
            ls1 = write_links ls start fall
        in case jump_link label_n node ls1 of
             Inl msg \<Rightarrow> (Some (node, msg), bb # bbs, ls1, start)
           | Inr to \<Rightarrow>
               let ls2 = write_links ls1 (start + length fall) to;
                   stop = start + length fall + length to;
                   (e, bbs', ls', end') = resolve_next label_n n (Suc i) bbs stop ls2
               in (e, bb\<lparr>bnext := view_sub ls2 start stop\<rparr> # bbs', ls', end'))"

definition jumps_to :: "bblock list \<Rightarrow> nat \<Rightarrow> nat option list" where
  "jumps_to bbs i = map Some (filter (\<lambda>j. list_ex (\<lambda>t. t = Some i) (bnext (bbs ! j))) [0..<length bbs])"

fun resolve_prev :: "bblock list \<Rightarrow> nat \<Rightarrow> bblock list \<Rightarrow> nat \<Rightarrow> nat option list \<Rightarrow> bblock list \<times> nat option list \<times> nat" where
  "resolve_prev all i [] start ls = ([], ls, start)"
| "resolve_prev all i (bb # bbs) start ls =
     (let from = jumps_to all i;
          ls1 = write_links ls start from;
          stop = start + length from;
          bb1 = (if start < stop then bb\<lparr>bprev := view_sub ls1 start stop\<rparr> else bb);
          (bbs', ls', end') = resolve_prev all (Suc i) bbs stop ls1
      in (bb1 # bbs', ls', end'))"

text \<open>\<open>FlowGraph::build\<close>: whether it succeeded, the graph, and the error found, if any.\<close>

definition flowgraph_build :: "node list \<Rightarrow> flowgraph \<Rightarrow> bool \<times> flowgraph \<times> ferror option" where
  "flowgraph_build ns g0 =
     (let g = g0\<lparr>fg_blocks := arr_clear (fg_blocks g0), fg_links := arr_clear (fg_links g0), fg_label_n := 0, fg_avail := 0\<rparr>
      in if ns = [] then (True, g, None)
         else let (ok, g1) = build_basicblocks ns g
              in if \<not> ok then (False, g1, None)
                 else let bbs = elems (fg_blocks g1);
                          ls = resolve_labels 0 bbs (elems (fg_links g1));
                          (e, bbs1, ls1, stop) = resolve_next (fg_label_n g1) (length bbs) 0 bbs (fg_label_n g1) ls
                      in if e \<noteq> None then
                           (False, g1\<lparr>fg_blocks := (fg_blocks g1)\<lparr>elems := bbs1\<rparr>, fg_links := (fg_links g1)\<lparr>elems := ls1\<rparr>\<rparr>, e)
                         else let (bbs2, ls2, stop2) = resolve_prev bbs1 0 bbs1 stop ls1
                              in (True, g1\<lparr>fg_blocks := (fg_blocks g1)\<lparr>elems := bbs2\<rparr>,
                                           fg_links := (fg_links g1)\<lparr>elems := ls2\<rparr>, fg_avail := stop2\<rparr>, None))"

subsection \<open>Blocks\<close>

text \<open>A basic block: labels only at the beginning, jumps only at the end.\<close>

definition sequential :: "node list \<Rightarrow> bool" where
  "sequential b \<longleftrightarrow> b \<noteq> [] \<and> (\<exists>labels body. b = labels @ body \<and> list_all is_label labels \<and>
     list_all (\<lambda>n. \<not> is_label n) body \<and> list_all (\<lambda>n. \<not> is_jump n) (butlast body))"

lemma scan_body_spec:
  assumes "scan_body ns = (c, j)"
  shows "list_all (\<lambda>n. \<not> is_label n) (take c ns) \<and> list_all (\<lambda>n. \<not> is_jump n) (butlast (take c ns)) \<and>
    (0 < c \<longrightarrow> c \<le> length ns \<and> (drop c ns \<noteq> [] \<longrightarrow> is_jump (ns ! (c - 1)) \<or> is_label (drop c ns ! 0))) \<and>
    (c = 0 \<longrightarrow> ns = [] \<or> is_label (ns ! 0)) \<and>
    (if 0 < c \<and> \<not> is_uncond_jump (ns ! (c - 1)) \<and> drop c ns \<noteq> [] \<or> c = 0 \<and> ns \<noteq> [] then 1 else 0) +
      (if 0 < c \<and> is_jump (ns ! (c - 1)) then 1 else 0) \<le> j"
  using assms
proof (induction ns arbitrary: c j)
  case (Cons n ns)
  obtain c' j' where r: "scan_body ns = (c', j')" by force
  note IH = Cons.IH [OF r]
  show ?case
  proof (cases "is_label n \<or> is_jump n")
    case True
    with Cons.prems label_no_jump [of n] show ?thesis by (auto simp: is_jump_def split: if_splits)
  next
    case False
    then have c: "c = Suc c'" "j = j'" using Cons.prems r by (auto simp: is_jump_def)
    show ?thesis
    proof (cases "c' = 0")
      case True
      with IH c False show ?thesis by (auto simp: is_jump_def)
    next
      case c0: False
      then have "take c' ns \<noteq> []" using IH by (cases ns) auto
      with c0 False IH c show ?thesis by (cases c') (auto simp: is_jump_def)
    qed
  qed
qed auto

definition falls :: "node list \<Rightarrow> bool" where
  "falls b \<longleftrightarrow> \<not> is_uncond_jump (last b)"

text \<open>The links that a list of blocks needs at most.\<close>

fun needs :: "bblock list \<Rightarrow> nat" where
  "needs [] = 0"
| "needs (b # bs) = (if falls (bnodes b) \<and> bs \<noteq> [] then 1 else 0) + (if is_jump (last (bnodes b)) then 1 else 0) + needs bs"

definition fresh :: "bblock \<Rightarrow> bool" where
  "fresh b \<longleftrightarrow> bprev b = [] \<and> bnext b = []"

lemma max_label_ge: "m \<le> max_label m ns"
  by (induction ns arbitrary: m) (auto simp: max_label_def intro: order_trans [OF max.cobounded1])

lemma max_label_bound: "n \<in> set ns \<Longrightarrow> unat (label_index (as_label n)) \<le> max_label m ns"
proof (induction ns arbitrary: m)
  case (Cons x xs)
  then show ?case
    using max_label_ge [of "max m (unat (label_index (as_label x)))" xs] by (auto simp: max_label_def)
qed simp

lemma build_loop_spec:
  assumes "build_loop ok ns bbs jumps lmax = (True, bbs', jumps', lmax')"
  shows "\<exists>new. elems bbs' = elems bbs @ new \<and> concat (map bnodes new) = ns \<and>
    list_all (\<lambda>b. sequential (bnodes b) \<and> fresh b) new \<and> jumps + needs new \<le> jumps' \<and>
    lmax \<le> lmax' \<and> (\<forall>n\<in>set ns. is_label n \<longrightarrow> unat (label_index n) \<le> lmax')"
  using assms
proof (induction ok ns bbs jumps lmax arbitrary: bbs' jumps' lmax' rule: build_loop.induct)
  case (1 ok ns bbs jumps lmax)
  show ?case
  proof (cases "ns = []")
    case True
    with "1.prems" have "bbs' = bbs" "jumps' = jumps" "lmax' = lmax" by (simp_all add: build_loop.simps [of ok "[]"])
    with True show ?thesis by (intro exI [of _ "[]"]) simp
  next
    case False
    define labels where "labels = takeWhile is_label ns"
    define rest where "rest = dropWhile is_label ns"
    obtain c j where cj: "scan_body rest = (c, j)" by force
    obtain a bbs1 where ap: "arr_append (bblock_new []) ok [bblock_new (labels @ take c rest)] bbs = (a, bbs1)" by force
    have step: "a" "build_loop ok (drop c rest) bbs1 (jumps + j) (max_label lmax labels) = (True, bbs', jumps', lmax')"
      using "1.prems" False cj ap unfolding build_loop.simps [of ok ns] Let_def labels_def rest_def by (auto split: if_splits)
    obtain new where new: "elems bbs' = elems bbs1 @ new" "concat (map bnodes new) = drop c rest"
      "list_all (\<lambda>b. sequential (bnodes b) \<and> fresh b) new" "jumps + j + needs new \<le> jumps'" "max_label lmax labels \<le> lmax'"
      "\<forall>n\<in>set (drop c rest). is_label n \<longrightarrow> unat (label_index n) \<le> lmax'"
      using "1.IH" [OF False labels_def rest_def refl cj [symmetric] refl ap [symmetric] refl step(1) step(2)] by blast
    have e: "elems bbs1 = elems bbs @ [bblock_new (labels @ take c rest)]"
      using arr_append_success [of "bblock_new []" ok "[bblock_new (labels @ take c rest)]" bbs] ap step(1) by simp
    note sp = scan_body_spec [OF cj]
    have ns: "labels @ rest = ns" by (simp add: labels_def rest_def)
    have ll: "list_all is_label labels" by (auto simp: labels_def list_all_iff dest: set_takeWhileD)
    have c0: "rest = []" if "c = 0"
    proof -
      have "rest \<noteq> [] \<Longrightarrow> \<not> is_label (rest ! 0)" unfolding rest_def by (metis hd_conv_nth hd_dropWhile)
      with sp that show ?thesis by blast
    qed
    have ne: "labels @ take c rest \<noteq> []" using c0 ns False sp by (cases "c = 0"; cases rest) auto
    then have seq: "sequential (labels @ take c rest)" using sp ll unfolding sequential_def by blast
    have last: "last (labels @ take c rest) = rest ! (c - 1)" if "0 < c"
    proof -
      have "c \<le> length rest" using sp that by blast
      then show ?thesis using that last_conv_nth [of "take c rest"] by (cases "take c rest = []") auto
    qed
    have "list_all (\<lambda>b. b \<noteq> []) (map bnodes new)" using new(3) by (auto simp: list_all_iff sequential_def)
    then have nn: "new \<noteq> [] \<longleftrightarrow> drop c rest \<noteq> []" using new(2) by (cases new) auto
    have "needs (bblock_new (labels @ take c rest) # new) \<le> j + needs new"
    proof (cases "c = 0")
      case True
      then have "is_label (last labels)" using c0 ne ll by (auto simp: list_all_iff)
      with True c0 nn label_no_jump show ?thesis by (auto simp: bblock_new_def)
    next
      case False
      with sp nn last show ?thesis by (auto simp: bblock_new_def falls_def split: if_splits)
    qed
    moreover have "\<forall>n\<in>set ns. is_label n \<longrightarrow> unat (label_index n) \<le> lmax'"
    proof (intro ballI impI)
      fix n assume n: "n \<in> set ns" "is_label n"
      have "set ns = set labels \<union> set (take c rest) \<union> set (drop c rest)"
        unfolding ns [symmetric] by (metis append_take_drop_id set_append Un_assoc)
      moreover have "n \<notin> set (take c rest)" using sp n(2) by (auto simp: list_all_iff)
      moreover have "n \<in> set labels \<Longrightarrow> unat (label_index n) \<le> max_label lmax labels"
        using max_label_bound [of n labels lmax] n(2) by (simp add: as_label_def downcast_def is_label_def)
      ultimately show "unat (label_index n) \<le> lmax'" using n new(5,6) by fastforce
    qed
    moreover have "lmax \<le> lmax'" using max_label_ge [of lmax labels] new(5) by linarith
    moreover have "concat (map bnodes (bblock_new (labels @ take c rest) # new)) = ns"
      using new(2) ns by (simp add: bblock_new_def)
    ultimately show ?thesis
      using new(1,3,4) e seq by (intro exI [of _ "bblock_new (labels @ take c rest) # new"]) (simp add: bblock_new_def fresh_def)
  qed
qed

subsection \<open>Links\<close>

lemma write_links_eq:
  "at + length ts \<le> length ls \<Longrightarrow> write_links ls at ts = take at ls @ ts @ drop (at + length ts) ls"
proof (induction ts arbitrary: ls at)
  case (Cons t ts)
  then have "write_links ls at (t # ts) = take (Suc at) (ls[at := t]) @ ts @ drop (Suc at + length ts) (ls[at := t])"
    by simp
  also have "take (Suc at) (ls[at := t]) = take at ls @ [t]" using Cons.prems by (simp add: take_Suc_conv_app_nth)
  finally show ?case using Cons.prems by simp
qed simp

lemma length_write_links [simp]: "length (write_links ls at ts) = length ls"
  by (induction ts arbitrary: ls at) simp_all

lemma write_links_view:
  assumes "at + length ts \<le> length ls"
  shows "view_sub (write_links ls at ts) at (at + length ts) = ts"
    "i < at \<Longrightarrow> write_links ls at ts ! i = ls ! i"
  using assms by (simp_all add: write_links_eq view_sub_def nth_append)

lemma write_links_append:
  "write_links (write_links ls at ts) (at + length ts) us = write_links ls at (ts @ us)"
proof (induction ts arbitrary: ls at)
  case (Cons t ts)
  show ?case using Cons.IH [of "ls[at := t]" "Suc at"] by simp
qed simp

text \<open>The last block that starts with a label of index \<open>x\<close>.\<close>

definition has_label :: "bblock \<Rightarrow> nat \<Rightarrow> bool" where
  "has_label b x \<longleftrightarrow> (\<exists>n\<in>set (takeWhile is_label (bnodes b)). unat (label_index n) = x)"

definition label_block :: "bblock list \<Rightarrow> nat \<Rightarrow> nat option" where
  "label_block bbs x =
     (let is = filter (\<lambda>i. has_label (bbs ! i) x) [0..<length bbs] in if is = [] then None else Some (last is))"

lemma foldl_labels:
  "length (foldl (\<lambda>l n. l[unat (label_index (as_label n)) := v]) ls ns) = length ls"
  "list_all is_label ns \<Longrightarrow> x < length ls \<Longrightarrow>
    foldl (\<lambda>l n. l[unat (label_index (as_label n)) := v]) ls ns ! x =
      (if \<exists>n\<in>set ns. unat (label_index n) = x then v else ls ! x)"
  by (induction ns arbitrary: ls) (auto simp: as_label_def downcast_def is_label_def nth_list_update)

lemma label_block_snoc:
  "label_block (bbs @ [b]) x = (if has_label b x then Some (length bbs) else label_block bbs x)"
proof -
  have "filter (\<lambda>i. has_label ((bbs @ [b]) ! i) x) [0..<length bbs] = filter (\<lambda>i. has_label (bbs ! i) x) [0..<length bbs]"
    by (rule filter_cong) (auto simp: nth_append)
  then show ?thesis by (simp add: label_block_def Let_def)
qed

lemma resolve_labels_snoc:
  "resolve_labels i (bbs @ [b]) ls =
    foldl (\<lambda>l n. span_set l (unat (label_index (as_label n))) (Some (i + length bbs))) (resolve_labels i bbs ls) (takeWhile is_label (bnodes b))"
  by (induction bbs arbitrary: i ls) simp_all

lemma resolve_labels_spec:
  assumes "x < n"
  shows "length (resolve_labels 0 bbs (replicate n None)) = n \<and> resolve_labels 0 bbs (replicate n None) ! x = label_block bbs x"
proof (induction bbs rule: rev_induct)
  case Nil
  then show ?case using assms by (simp add: label_block_def)
next
  case (snoc b bbs)
  have l: "list_all is_label (takeWhile is_label (bnodes b))" by (auto simp: list_all_iff dest: set_takeWhileD)
  show ?case
    using snoc assms foldl_labels(2) [OF l, of x "resolve_labels 0 bbs (replicate n None)" "Some (length bbs)"]
    by (simp add: resolve_labels_snoc label_block_snoc foldl_labels(1) has_label_def)
qed

lemma label_block_Some: "label_block bbs x = Some j \<Longrightarrow> j < length bbs \<and> has_label (bbs ! j) x \<and> (\<forall>k<length bbs. j < k \<longrightarrow> \<not> has_label (bbs ! k) x)"
proof (induction bbs arbitrary: j rule: rev_induct)
  case (snoc b bbs)
  then show ?case by (force simp: label_block_snoc nth_append split: if_splits)
qed (simp add: label_block_def)

lemma label_block_None: "label_block bbs x = None \<longleftrightarrow> (\<forall>b\<in>set bbs. \<not> has_label b x)"
  by (induction bbs rule: rev_induct) (auto simp: label_block_snoc label_block_def [of "[]"])

subsection \<open>Successors\<close>

abbreviation jump_index :: "node \<Rightarrow> nat" where "jump_index n \<equiv> unat (label_index (jump_label n))"

definition jumps_away :: "node \<Rightarrow> bool" where
  "jumps_away n \<longleftrightarrow> is_jump n \<and> node_valid (jump_label n)"

text \<open>The successors of block \<open>i\<close> of \<open>n\<close>: the next block when the execution may run on, then the target of its jump.\<close>

definition successors :: "bblock list \<Rightarrow> nat \<Rightarrow> node list \<Rightarrow> nat option list" where
  "successors all i b =
     (if falls b \<and> Suc i < length all then [Some (Suc i)] else []) @
     (if jumps_away (last b) then [label_block all (jump_index (last b))] else [])"

lemma jump_link_cases:
  assumes "ln \<le> length ls"
  shows "jump_link ln n ls =
    (if jumps_away n then
       (if jump_index n < ln \<and> ls ! jump_index n \<noteq> None then Inr [ls ! jump_index n]
        else Inl (if jump_index n < ln then ''label not found'' else ''invalid label''))
     else Inr [])"
  using assms by (auto simp: jump_link_def jumps_away_def is_jump_def view_get_def Let_def split: option.split)

definition links_ok :: "nat \<Rightarrow> bblock list \<Rightarrow> nat option list \<Rightarrow> bool" where
  "links_ok ln all ls \<longleftrightarrow> ln \<le> length ls \<and> (\<forall>x<ln. ls ! x = label_block all x) \<and> (\<forall>x\<ge>ln. label_block all x = None)"

lemma links_ok_write: "links_ok ln all ls \<Longrightarrow> ln \<le> at \<Longrightarrow> at + length ts \<le> length ls \<Longrightarrow> links_ok ln all (write_links ls at ts)"
  by (auto simp: links_ok_def write_links_view(2))

declare resolve_next.simps [simp del]

lemma resolve_next_spec:
  assumes "links_ok ln all ls" "ln \<le> start" "start + needs bbs \<le> length ls" "length all = i + length bbs"
    "list_all (\<lambda>b. bnodes b \<noteq> []) bbs" "resolve_next ln (length all) i bbs start ls = (e, bbs', ls', stop)"
  shows "length ls' = length ls \<and> links_ok ln all ls' \<and> start \<le> stop \<and> stop \<le> start + needs bbs \<and>
    (e = None \<longrightarrow> length bbs' = length bbs \<and> stop = start + (\<Sum>b\<leftarrow>bbs'. length (bnext b)) \<and>
       (\<forall>k<length bbs. bnodes (bbs' ! k) = bnodes (bbs ! k) \<and> bprev (bbs' ! k) = bprev (bbs ! k) \<and>
          bnext (bbs' ! k) = successors all (i + k) (bnodes (bbs ! k)) \<and>
          (jumps_away (last (bnodes (bbs ! k))) \<longrightarrow> label_block all (jump_index (last (bnodes (bbs ! k)))) \<noteq> None))) \<and>
    (\<forall>n msg. e = Some (n, msg) \<longrightarrow> (\<exists>b\<in>set bbs. n = last (bnodes b)) \<and> jumps_away n \<and> label_block all (jump_index n) = None)"
  using assms
proof (induction bbs arbitrary: i start ls bbs' ls' stop e)
  case Nil
  then show ?case by (simp add: resolve_next.simps)
next
  case (Cons b bs)
  define node where "node = last (bnodes b)"
  define fall where "fall = (if falls (bnodes b) \<and> Suc i < length all then [Some (Suc i)] else [])"
  have b: "bnodes b \<noteq> []" using Cons.prems(5) by simp
  have more: "Suc i < length all \<longleftrightarrow> bs \<noteq> []" using Cons.prems(4) by auto
  then have fl: "length fall \<le> (if falls (bnodes b) \<and> bs \<noteq> [] then 1 else 0)" by (simp add: fall_def)
  have jl: "jumps_away node \<Longrightarrow> is_jump (last (bnodes b))" by (simp add: jumps_away_def node_def)
  let ?ls1 = "write_links ls start fall"
  have ok1: "links_ok ln all ?ls1" and l1: "start + length fall \<le> length ls"
    using links_ok_write [OF Cons.prems(1,2)] fl Cons.prems(3) by auto
  have step: "resolve_next ln (length all) i (b # bs) start ls =
      (case jump_link ln node ?ls1 of Inl msg \<Rightarrow> (Some (node, msg), b # bs, ?ls1, start)
       | Inr to \<Rightarrow> (let ls2 = write_links ls start (fall @ to); stop = start + length fall + length to;
           (e, bbs', ls', end') = resolve_next ln (length all) (Suc i) bs stop ls2
         in (e, b\<lparr>bnext := view_sub ls2 start stop\<rparr> # bbs', ls', end')))"
    unfolding resolve_next.simps(2) Let_def fall_def falls_def node_def write_links_append by (simp only: b if_False)
  note res = Cons.prems(6) [unfolded step]
  show ?case
  proof (cases "jumps_away node \<and> label_block all (jump_index node) = None")
    case True
    then have "\<exists>msg. jump_link ln node ?ls1 = Inl msg" using ok1 by (auto simp: jump_link_cases links_ok_def)
    then obtain msg where m: "jump_link ln node ?ls1 = Inl msg" by blast
    have "e = Some (node, msg)" "ls' = ?ls1" "stop = start" using res unfolding m sum.case by auto
    with True ok1 show ?thesis by (simp add: node_def)
  next
    case False
    define to where "to = (if jumps_away node then [label_block all (jump_index node)] else [])"
    have "jump_index node < ln" if "jumps_away node" using False that ok1 by (meson links_ok_def not_less)
    then have j: "jump_link ln node ?ls1 = Inr to" using False ok1 by (auto simp: jump_link_cases links_ok_def to_def)
    define new where "new = fall @ to"
    let ?stop = "start + length new"
    have tl: "length to \<le> (if is_jump (last (bnodes b)) then 1 else 0)" using jl by (auto simp: to_def)
    have fit: "start + length new \<le> length ls" "?stop + needs bs \<le> length ls" "length new + needs bs \<le> needs (b # bs)"
      using fl tl Cons.prems(3) by (auto simp: new_def split: if_splits)
    have new: "new = successors all i (bnodes b)" by (simp add: new_def successors_def fall_def to_def node_def)
    let ?ls2 = "write_links ls start new"
    have ok2: "links_ok ln all ?ls2" using links_ok_write [OF Cons.prems(1,2) fit(1)] .
    have view: "view_sub ?ls2 start ?stop = new" using write_links_view(1) [OF fit(1)] .
    obtain e1 bs1 ls1 stop1 where r: "resolve_next ln (length all) (Suc i) bs ?stop ?ls2 = (e1, bs1, ls1, stop1)"
      by (metis prod_cases4)
    have at: "start + length fall + length to = ?stop" by (simp add: new_def)
    have out: "e = e1" "bbs' = b\<lparr>bnext := new\<rparr> # bs1" "ls' = ls1" "stop = stop1"
      using res unfolding j Let_def sum.case at new_def [symmetric] r view by auto
    have "ln \<le> ?stop" "length all = Suc i + length bs" "list_all (\<lambda>b. bnodes b \<noteq> []) bs" "?stop + needs bs \<le> length ?ls2"
      using Cons.prems(2,4,5) fit(2) by simp_all
    note IH = Cons.IH [OF ok2 this(1,4,2,3) r]
    have k: "(\<forall>k<length (b # bs). P k) \<longleftrightarrow> P 0 \<and> (\<forall>k<length bs. P (Suc k))" for P :: "nat \<Rightarrow> bool"
      by (simp add: All_less_Suc2)
    have "length ls1 = length ls" "links_ok ln all ls1" "start \<le> stop1" "stop1 \<le> start + needs (b # bs)"
      using IH fit(3) by auto
    moreover have "e1 = None \<longrightarrow> length bs1 = length bs \<and> stop1 = start + (length new + (\<Sum>b\<leftarrow>bs1. length (bnext b)))"
      using IH by auto
    moreover have "e1 = None \<longrightarrow> (\<forall>k<length bs. bnodes (bs1 ! k) = bnodes (bs ! k) \<and> bprev (bs1 ! k) = bprev (bs ! k) \<and>
          bnext (bs1 ! k) = successors all (i + Suc k) (bnodes (bs ! k)) \<and>
          (jumps_away (last (bnodes (bs ! k))) \<longrightarrow> label_block all (jump_index (last (bnodes (bs ! k)))) \<noteq> None))"
      using IH by simp
    moreover have "\<forall>n msg. e1 = Some (n, msg) \<longrightarrow> (\<exists>b\<in>set bs. n = last (bnodes b)) \<and> jumps_away n \<and> label_block all (jump_index n) = None"
      using IH by blast
    ultimately show ?thesis
      unfolding out k using new False by (simp add: node_def)
  qed
qed

subsection \<open>Predecessors\<close>

lemma sum_of_bool_card: "(\<Sum>j<m. of_bool (P j)) = card {j. j < m \<and> P j}" for m :: nat
proof -
  have "{..<m} \<inter> {j. P j} = {j. j < m \<and> P j}" by auto
  then show ?thesis by (simp add: sum_of_bool_eq)
qed

lemma length_jumps_to:
  "(\<Sum>i<length all. length (jumps_to all i)) \<le> (\<Sum>b\<leftarrow>all. length (bnext b))"
proof -
  let ?m = "length all"
  have e: "length (jumps_to all i) = (\<Sum>j<?m. of_bool (Some i \<in> set (bnext (all ! j))))" for i
  proof -
    have "length (jumps_to all i) = card {j. j < ?m \<and> Some i \<in> set (bnext (all ! j))}"
    proof -
      have "length (jumps_to all i) = card (set (filter (\<lambda>j. list_ex (\<lambda>t. t = Some i) (bnext (all ! j))) [0..<?m]))"
        by (simp only: jumps_to_def length_map) (rule distinct_card [symmetric], simp)
      also have "set (filter (\<lambda>j. list_ex (\<lambda>t. t = Some i) (bnext (all ! j))) [0..<?m]) = {j. j < ?m \<and> Some i \<in> set (bnext (all ! j))}"
        by (auto simp: list_ex_iff)
      finally show ?thesis .
    qed
    also have "\<dots> = (\<Sum>j<?m. of_bool (Some i \<in> set (bnext (all ! j))))" by (rule sum_of_bool_card [symmetric])
    finally show ?thesis .
  qed
  have "(\<Sum>i<?m. length (jumps_to all i)) = (\<Sum>j<?m. \<Sum>i<?m. of_bool (Some i \<in> set (bnext (all ! j))))"
    unfolding e by (rule sum.swap)
  also have "\<dots> \<le> (\<Sum>j<?m. length (bnext (all ! j)))"
  proof (rule sum_mono)
    fix j
    have "(\<Sum>i<?m. of_bool (Some i \<in> set (bnext (all ! j)))) = card {i. i < ?m \<and> Some i \<in> set (bnext (all ! j))}"
      by (rule sum_of_bool_card)
    also have "\<dots> = card (Some ` {i. i < ?m \<and> Some i \<in> set (bnext (all ! j))})"
      by (simp add: card_image)
    also have "\<dots> \<le> card (set (bnext (all ! j)))" by (rule card_mono) auto
    also have "\<dots> \<le> length (bnext (all ! j))" by (rule card_length)
    finally show "(\<Sum>i<?m. of_bool (Some i \<in> set (bnext (all ! j)))) \<le> length (bnext (all ! j))" .
  qed
  also have "\<dots> = (\<Sum>b\<leftarrow>all. length (bnext b))"
    by (simp add: sum_list_sum_nth lessThan_atLeast0)
  finally show ?thesis .
qed

lemma resolve_prev_spec:
  assumes "resolve_prev all i bbs start ls = (bbs', ls', stop)" "list_all (\<lambda>b. bprev b = []) bbs"
    "start + (\<Sum>k<length bbs. length (jumps_to all (i + k))) \<le> length ls"
  shows "length ls' = length ls \<and> stop = start + (\<Sum>k<length bbs. length (jumps_to all (i + k))) \<and>
    length bbs' = length bbs \<and>
    (\<forall>k<length bbs. bnodes (bbs' ! k) = bnodes (bbs ! k) \<and> bnext (bbs' ! k) = bnext (bbs ! k) \<and>
       bprev (bbs' ! k) = jumps_to all (i + k))"
  using assms
proof (induction bbs arbitrary: i start ls bbs' ls' stop)
  case (Cons b bs)
  let ?from = "jumps_to all i"
  let ?ls1 = "write_links ls start ?from" and ?stop = "start + length ?from"
  have sum: "(\<Sum>k<length (b # bs). length (jumps_to all (i + k))) =
      length ?from + (\<Sum>k<length bs. length (jumps_to all (Suc i + k)))"
    by (simp add: sum.lessThan_Suc_shift del: sum.lessThan_Suc)
  then have fit: "?stop \<le> length ls" "?stop + (\<Sum>k<length bs. length (jumps_to all (Suc i + k))) \<le> length ?ls1"
    using Cons.prems(3) by simp_all
  have view: "view_sub ?ls1 start ?stop = ?from" by (rule write_links_view(1) [OF fit(1)])
  obtain bs1 ls1 stop1 where r: "resolve_prev all (Suc i) bs ?stop ?ls1 = (bs1, ls1, stop1)" by (metis prod_cases3)
  have out: "bbs' = (if start < ?stop then b\<lparr>bprev := ?from\<rparr> else b) # bs1" "ls' = ls1" "stop = stop1"
    using Cons.prems(1) unfolding resolve_prev.simps Let_def r view by auto
  have b: "bprev (if start < ?stop then b\<lparr>bprev := ?from\<rparr> else b) = ?from" using Cons.prems(2) by simp
  have k: "(\<forall>k<length (b # bs). P k) \<longleftrightarrow> P 0 \<and> (\<forall>k<length bs. P (Suc k))" for P :: "nat \<Rightarrow> bool"
    by (simp add: All_less_Suc2)
  have "list_all (\<lambda>b. bprev b = []) bs" using Cons.prems(2) by simp
  note IH = Cons.IH [OF r this fit(2)]
  show ?case unfolding out k sum using IH b by simp
qed simp

lemma set_jumps_to: "Some j \<in> set (jumps_to all i) \<longleftrightarrow> j < length all \<and> Some i \<in> set (bnext (all ! j))"
  by (auto simp: jumps_to_def list_ex_iff)

lemma distinct_jumps_to: "distinct (jumps_to all i)"
  by (simp add: jumps_to_def distinct_map)

subsection \<open>The graph\<close>

lemma build_basicblocks_spec:
  assumes "build_basicblocks ns g = (True, g1)" "elems (fg_blocks g) = []" "elems (fg_links g) = []"
  shows "\<exists>bbs jumps. elems (fg_blocks g1) = bbs \<and> concat (map bnodes bbs) = ns \<and>
    list_all (\<lambda>b. sequential (bnodes b) \<and> fresh b) bbs \<and> needs bbs \<le> jumps \<and>
    elems (fg_links g1) = replicate (fg_label_n g1 + 2 * jumps) None \<and>
    (\<forall>n\<in>set ns. is_label n \<longrightarrow> unat (label_index n) < fg_label_n g1)"
proof -
  obtain ok bbs jumps lmax where b: "build_loop (fg_ok_blocks g) ns (fg_blocks g) 0 0 = (ok, bbs, jumps, lmax)"
    by (metis prod_cases4)
  obtain ok' ls where r: "arr_resize None (fg_ok_links g) (1 + lmax + jumps * 2) (fg_links g) = (ok', ls)" by force
  have ok: "ok" "ok'" and g1: "g1 = g\<lparr>fg_blocks := bbs, fg_label_n := 1 + lmax, fg_avail := 1 + lmax, fg_links := ls\<rparr>"
    using assms(1) unfolding build_basicblocks_def Let_def b split_conv r by (auto split: if_splits)
  have "elems ls = replicate (1 + lmax + jumps * 2) None"
    using arr_resize_success [of None "fg_ok_links g" "1 + lmax + jumps * 2" "fg_links g"] r ok(2) assms(3) by simp
  with build_loop_spec [OF b [unfolded eqTrueI [OF ok(1)]]] assms(2) g1 show ?thesis
    by (intro exI [of _ "elems bbs"] exI [of _ jumps]) (auto simp: mult.commute less_Suc_eq_le)
qed

text \<open>What \<open>build\<close> promises of the blocks \<open>bbs\<close> it found: their order and the edges between them.\<close>

definition edges_ok :: "bblock list \<Rightarrow> bblock list \<Rightarrow> bool" where
  "edges_ok bbs out \<longleftrightarrow> length out = length bbs \<and>
     (\<forall>k<length bbs. bnodes (out ! k) = bnodes (bbs ! k) \<and> bnext (out ! k) = successors bbs k (bnodes (bbs ! k)) \<and>
        bprev (out ! k) = jumps_to out k \<and>
        (jumps_away (last (bnodes (bbs ! k))) \<longrightarrow> label_block bbs (jump_index (last (bnodes (bbs ! k)))) \<noteq> None))"

lemma flowgraph_spec:
  assumes "flowgraph_build ns g0 = (ok, g, e)" "ns \<noteq> []" "ok \<or> e \<noteq> None"
  shows "\<exists>bbs. concat (map bnodes bbs) = ns \<and> list_all (\<lambda>b. sequential (bnodes b)) bbs \<and>
    (ok \<longrightarrow> e = None \<and> fg_avail g \<le> length (elems (fg_links g)) \<and> edges_ok bbs (elems (fg_blocks g))) \<and>
    (\<forall>n msg. e = Some (n, msg) \<longrightarrow> (\<exists>b\<in>set bbs. n = last (bnodes b)) \<and> jumps_away n \<and> label_block bbs (jump_index n) = None)"
proof -
  let ?g = "g0\<lparr>fg_blocks := arr_clear (fg_blocks g0), fg_links := arr_clear (fg_links g0), fg_label_n := 0, fg_avail := 0\<rparr>"
  obtain okb g1 where bb: "build_basicblocks ns ?g = (okb, g1)" by force
  have okb: okb
  proof (rule ccontr)
    assume "\<not> okb"
    then have "flowgraph_build ns g0 = (False, g1, None)"
      using assms(2) unfolding flowgraph_build_def Let_def bb split_conv by simp
    with assms show False by auto
  qed
  obtain bbs jumps where b: "elems (fg_blocks g1) = bbs" "concat (map bnodes bbs) = ns"
      "list_all (\<lambda>b. sequential (bnodes b) \<and> fresh b) bbs" "needs bbs \<le> jumps"
      "elems (fg_links g1) = replicate (fg_label_n g1 + 2 * jumps) None"
      "\<forall>n\<in>set ns. is_label n \<longrightarrow> unat (label_index n) < fg_label_n g1"
    using build_basicblocks_spec [OF bb [unfolded eqTrueI [OF okb]]] by (auto simp: arr_clear_def)
  let ?ln = "fg_label_n g1"
  let ?ls = "resolve_labels 0 bbs (replicate (?ln + 2 * jumps) None)"
  have len: "length ?ls = ?ln + 2 * jumps" by (induction bbs rule: rev_induct) (simp_all add: resolve_labels_snoc foldl_labels(1))
  have far: "label_block bbs x = None" if "?ln \<le> x" for x
  proof -
    have "\<not> has_label c x" if "c \<in> set bbs" for c
    proof -
      have "n \<in> set ns" if "n \<in> set (takeWhile is_label (bnodes c))" for n
        using that \<open>c \<in> set bbs\<close> unfolding b(2) [symmetric] by (auto dest: set_takeWhileD)
      then show ?thesis using b(6) \<open>?ln \<le> x\<close> by (fastforce simp: has_label_def dest: set_takeWhileD)
    qed
    then show ?thesis by (simp add: label_block_None)
  qed
  have ok0: "links_ok ?ln bbs ?ls"
    using len far resolve_labels_spec [of _ "?ln + 2 * jumps" bbs] by (simp add: links_ok_def)
  obtain e1 bbs1 ls1 stop where rn: "resolve_next ?ln (length bbs) 0 bbs ?ln ?ls = (e1, bbs1, ls1, stop)"
    by (metis prod_cases4)
  have fit: "?ln + needs bbs \<le> length ?ls" using len b(4) by simp
  have ne: "list_all (\<lambda>b. bnodes b \<noteq> []) bbs" using b(3) by (auto simp: list_all_iff sequential_def)
  note next_spec = resolve_next_spec [OF ok0 order_refl fit _ ne rn, simplified]
  obtain bbs2 ls2 stop2 where rp: "resolve_prev bbs1 0 bbs1 stop ls1 = (bbs2, ls2, stop2)" by (metis prod_cases3)
  have seq: "list_all (\<lambda>b. sequential (bnodes b)) bbs" using b(3) by (auto simp: list_all_iff)
  have run: "flowgraph_build ns g0 = (if e1 \<noteq> None then
        (False, g1\<lparr>fg_blocks := (fg_blocks g1)\<lparr>elems := bbs1\<rparr>, fg_links := (fg_links g1)\<lparr>elems := ls1\<rparr>\<rparr>, e1)
      else (True, g1\<lparr>fg_blocks := (fg_blocks g1)\<lparr>elems := bbs2\<rparr>, fg_links := (fg_links g1)\<lparr>elems := ls2\<rparr>, fg_avail := stop2\<rparr>, None))"
    using assms(2) okb unfolding flowgraph_build_def Let_def bb split_conv b(1,5) rn rp by simp
  show ?thesis
  proof (cases e1)
    case (Some err)
    then have "\<not> ok" "e = e1" using run assms(1) by auto
    then show ?thesis using b(2) seq next_spec by (intro exI [of _ bbs]) auto
  next
    case None
    then have res: "ok" "e = None" "elems (fg_blocks g) = bbs2" "elems (fg_links g) = ls2" "fg_avail g = stop2"
      using run assms(1) by auto
    have nx: "length ls1 = length ?ls" "stop \<le> ?ln + needs bbs" "length bbs1 = length bbs"
        "stop = ?ln + (\<Sum>b\<leftarrow>bbs1. length (bnext b))"
        "\<forall>k<length bbs. bnodes (bbs1 ! k) = bnodes (bbs ! k) \<and> bprev (bbs1 ! k) = bprev (bbs ! k) \<and>
          bnext (bbs1 ! k) = successors bbs k (bnodes (bbs ! k)) \<and>
          (jumps_away (last (bnodes (bbs ! k))) \<longrightarrow> label_block bbs (jump_index (last (bnodes (bbs ! k)))) \<noteq> None)"
      using next_spec None by auto
    have room: "stop + (\<Sum>k<length bbs1. length (jumps_to bbs1 k)) \<le> length ls1"
      using length_jumps_to [of bbs1] nx(1,2,4) b(4) len by linarith
    have clean: "list_all (\<lambda>b. bprev b = []) bbs1"
      using nx(3,5) b(3) by (auto simp: list_all_length fresh_def)
    note ps = resolve_prev_spec [OF rp clean, simplified, OF room]
    have same: "jumps_to bbs2 k = jumps_to bbs1 k" for k
      unfolding jumps_to_def using ps by (intro arg_cong [of _ _ "map Some"]) (auto intro!: filter_cong)
    have "edges_ok bbs bbs2" using ps nx(3,5) same by (simp add: edges_ok_def)
    then show ?thesis using b(2) seq res ps room by (intro exI [of _ bbs]) simp
  qed
qed

lemma label_block_same:
  assumes "length out = length bbs" "\<forall>k<length bbs. bnodes (out ! k) = bnodes (bbs ! k)"
  shows "label_block out x = label_block bbs x"
proof -
  have "filter (\<lambda>i. has_label (out ! i) x) [0..<length out] = filter (\<lambda>i. has_label (bbs ! i) x) [0..<length bbs]"
    unfolding assms(1) using assms(2) by (intro filter_cong) (auto simp: has_label_def)
  then show ?thesis by (simp add: label_block_def)
qed

lemma sequential_labels:
  assumes "sequential b" "n \<in> set b" "is_label n"
  shows "n \<in> set (takeWhile is_label b)"
proof -
  obtain ls body where b: "b = ls @ body" "list_all is_label ls" "list_all (\<lambda>n. \<not> is_label n) body"
    using assms(1) by (auto simp: sequential_def)
  have "n \<in> set ls" using b assms(2,3) by (auto simp: list_all_iff)
  then show ?thesis using b(1,2) by (auto simp: takeWhile_append list_all_iff)
qed

lemma has_label_sequential:
  "sequential (bnodes b) \<Longrightarrow> has_label b x \<longleftrightarrow> (\<exists>n\<in>set (bnodes b). is_label n \<and> unat (label_index n) = x)"
  using sequential_labels [of "bnodes b"] by (auto simp: has_label_def dest!: set_takeWhileD)

lemma label_block_defined:
  assumes "concat (map bnodes bbs) = ns" "list_all (\<lambda>b. sequential (bnodes b)) bbs"
  shows "label_block bbs x = None \<longleftrightarrow> (\<forall>n\<in>set ns. is_label n \<longrightarrow> unat (label_index n) \<noteq> x)"
  using assms by (fastforce simp: label_block_None list_all_iff has_label_sequential)

text \<open>The block to which a jump to \<open>x\<close> goes, among the nodes of all blocks: the last one that begins with that label.\<close>

definition target :: "node list list \<Rightarrow> nat \<Rightarrow> nat \<Rightarrow> bool" where
  "target bs x k \<longleftrightarrow> k < length bs \<and> (\<exists>n\<in>set (bs ! k). is_label n \<and> unat (label_index n) = x) \<and>
     (\<forall>j<length bs. k < j \<longrightarrow> (\<forall>n\<in>set (bs ! j). is_label n \<longrightarrow> unat (label_index n) \<noteq> x))"

text \<open>Whether the execution may go from block \<open>j\<close> to block \<open>k\<close>.\<close>

definition flows :: "node list list \<Rightarrow> nat \<Rightarrow> nat \<Rightarrow> bool" where
  "flows bs j k \<longleftrightarrow> k < length bs \<and> (k = Suc j \<and> \<not> is_uncond_jump (last (bs ! j)) \<or>
     is_jump (last (bs ! j)) \<and> node_valid (jump_label (last (bs ! j))) \<and> target bs (jump_index (last (bs ! j))) k)"

lemma label_block_target:
  assumes "list_all (\<lambda>b. sequential (bnodes b)) bbs"
  shows "label_block bbs x = Some k \<longleftrightarrow> target (map bnodes bbs) x k"
proof -
  have h: "has_label (bbs ! j) x \<longleftrightarrow> (\<exists>n\<in>set (bnodes (bbs ! j)). is_label n \<and> unat (label_index n) = x)" if "j < length bbs" for j
    using that assms by (simp add: has_label_sequential list_all_length)
  have "target (map bnodes bbs) x k \<longleftrightarrow>
      k < length bbs \<and> has_label (bbs ! k) x \<and> (\<forall>j<length bbs. k < j \<longrightarrow> \<not> has_label (bbs ! j) x)"
  proof (cases "k < length bbs")
    case True
    then show ?thesis unfolding target_def h [OF True] using h by (auto 0 3)
  qed (simp add: target_def)
  moreover have "label_block bbs x = Some k" if "k < length bbs" "has_label (bbs ! k) x" "\<forall>j<length bbs. k < j \<longrightarrow> \<not> has_label (bbs ! j) x"
  proof (cases "label_block bbs x")
    case None
    then show ?thesis using that by (auto simp: label_block_None)
  next
    case (Some j)
    then show ?thesis using that label_block_Some [OF Some] by (metis nat_neq_iff)
  qed
  ultimately show ?thesis using label_block_Some [of bbs x k] by blast
qed

lemma build_loop_grows: "(\<And>n. ok n) \<Longrightarrow> fst (build_loop ok ns bbs jumps lmax)"
proof (induction ok ns bbs jumps lmax rule: build_loop.induct)
  case (1 ok ns bbs jumps lmax)
  show ?case
  proof (cases "ns = []")
    case True
    then show ?thesis by (simp add: build_loop.simps)
  next
    case False
    obtain c j where cj: "scan_body (dropWhile is_label ns) = (c, j)" by force
    let ?b = "bblock_new (takeWhile is_label ns @ take c (dropWhile is_label ns))"
    obtain a bbs1 where ap: "arr_append (bblock_new []) ok [?b] bbs = (a, bbs1)" by force
    have a: a using "1.prems" ap by (auto simp: arr_append_cases arr_grow_cap_def arr_reserve_def Let_def split: if_splits)
    show ?thesis
      using "1.IH" [OF False refl refl refl cj [symmetric] refl ap [symmetric] refl a "1.prems"] False cj ap a
      unfolding build_loop.simps [of ok ns] Let_def by simp
  qed
qed

subsection \<open>Properties\<close>

definition graph_nodes :: "flowgraph \<Rightarrow> node list list" where
  "graph_nodes g = map bnodes (elems (fg_blocks g))"

lemma flowgraph_done:
  assumes "flowgraph_build ns g0 = (True, g, e)" "ns \<noteq> []"
  shows "\<exists>bbs. graph_nodes g = map bnodes bbs \<and> concat (map bnodes bbs) = ns \<and> list_all (\<lambda>b. sequential (bnodes b)) bbs \<and>
    fg_avail g \<le> length (elems (fg_links g)) \<and> edges_ok bbs (elems (fg_blocks g))"
proof -
  obtain bbs where bbs: "concat (map bnodes bbs) = ns" "list_all (\<lambda>b. sequential (bnodes b)) bbs"
      "fg_avail g \<le> length (elems (fg_links g))" "edges_ok bbs (elems (fg_blocks g))"
    using flowgraph_spec [OF assms] by auto
  then have "graph_nodes g = map bnodes bbs" by (auto simp: graph_nodes_def edges_ok_def intro: nth_equalityI)
  with bbs show ?thesis by blast
qed



lemma flowgraph_builds:
  assumes "\<And>n. fg_ok_blocks g0 n" "\<And>n. fg_ok_links g0 n"
  shows "let (ok, g, e) = flowgraph_build ns g0;
             defined = (\<lambda>n. \<exists>l\<in>set ns. is_label l \<and> label_index l = label_index (jump_label n));
             jumps = filter (\<lambda>n. is_jump n \<and> node_valid (jump_label n)) ns
         in ok = list_all defined jumps \<and>
            (if ok then e = None else \<exists>n msg. e = Some (n, msg) \<and> n \<in> set jumps \<and> \<not> defined n)"
proof (cases "ns = []")
  case True
  then show ?thesis by (simp add: flowgraph_build_def)
next
  case False
  let ?defined = "\<lambda>n. \<exists>l\<in>set ns. is_label l \<and> label_index l = label_index (jump_label n)"
  obtain ok g e where r: "flowgraph_build ns g0 = (ok, g, e)" by (metis prod_cases3)
  have "ok \<or> e \<noteq> None"
  proof -
    let ?g = "g0\<lparr>fg_blocks := arr_clear (fg_blocks g0), fg_links := arr_clear (fg_links g0), fg_label_n := 0, fg_avail := 0\<rparr>"
    have "fst (build_basicblocks ns ?g)"
      using build_loop_grows [of "fg_ok_blocks g0" ns "arr_clear (fg_blocks g0)" 0 0] assms
      by (auto simp: build_basicblocks_def arr_resize_def arr_grow_def arr_grow_cap_def arr_reserve_def Let_def split: prod.splits)
    with r False show ?thesis unfolding flowgraph_build_def Let_def by (auto split: prod.splits if_splits)
  qed
  then obtain bbs where b: "concat (map bnodes bbs) = ns" "list_all (\<lambda>b. sequential (bnodes b)) bbs"
      "ok \<longrightarrow> e = None \<and> edges_ok bbs (elems (fg_blocks g))"
      "\<forall>n msg. e = Some (n, msg) \<longrightarrow> (\<exists>b\<in>set bbs. n = last (bnodes b)) \<and> jumps_away n \<and> label_block bbs (jump_index n) = None"
    using flowgraph_spec [OF r False] by auto
  have def: "label_block bbs (jump_index n) \<noteq> None \<longleftrightarrow> ?defined n" for n
    using label_block_defined [OF b(1,2)] by (auto simp: word_unat_eq_iff)
  have at_end: "n = last (bnodes b)" if "b \<in> set bbs" "n \<in> set (bnodes b)" "is_jump n" for n b
  proof -
    have "sequential (bnodes b)" using that(1) b(2) by (auto simp: list_all_iff)
    then obtain ls body where s: "bnodes b = ls @ body" "list_all is_label ls" "list_all (\<lambda>n. \<not> is_jump n) (butlast body)"
      by (auto simp: sequential_def)
    have "n \<in> set body" using s(1,2) that label_no_jump by (auto simp: list_all_iff)
    then show ?thesis using s that(3) by (metis append_butlast_last_id in_set_conv_decomp last_append list_all_iff empty_iff
        list.set(1) rotate1.simps(2) set_ConsD set_rotate1)
  qed
  show ?thesis
  proof (cases ok)
    case True
    have "?defined n" if n: "n \<in> set ns" "is_jump n" "node_valid (jump_label n)" for n
    proof -
      obtain c where c: "c \<in> set bbs" "n \<in> set (bnodes c)" using n(1) b(1) by auto
      then obtain k where "k < length bbs" "bbs ! k = c" by (auto simp: in_set_conv_nth)
      then show ?thesis using at_end [OF c n(2)] n(2,3) b(3) True def [of n] by (auto simp: edges_ok_def jumps_away_def)
    qed
    then show ?thesis using True b(3) r by (auto simp: list_all_iff)
  next
    case f: False
    then obtain n msg where e: "e = Some (n, msg)" using \<open>ok \<or> e \<noteq> None\<close> by auto
    with b(4) obtain c where c: "c \<in> set bbs" "n = last (bnodes c)" "jumps_away n" "\<not> ?defined n" using def by blast
    then have "n \<in> set ns" using b(1,2) by (auto simp: list_all_iff sequential_def intro!: bexI [of _ c] last_in_set)
    then show ?thesis using f e c r by (auto simp: list_all_iff jumps_away_def)
  qed
qed


subsection \<open>Examples\<close>

definition label_example :: "u16 \<Rightarrow> node" where "label_example x = Node (mk_header LABEL eVoid x) 0 True [] []"

definition loop_example :: "node list" where
  "loop_example = [label_example 1,
     Node (mk_header STMT_2 eVoid JUMP_IF) 0 True [] [label_example 1, bad_node],
     Node (mk_header STMT_N eVoid RETURN) 0 True [] []]"

definition graph_example :: flowgraph where
  "graph_example = \<lparr>fg_blocks = arr_empty, fg_links = arr_empty, fg_label_n = 0, fg_avail = 0,
     fg_ok_blocks = (\<lambda>_. True), fg_ok_links = (\<lambda>_. True)\<rparr>"

lemma loop_example_built:
  "let (ok, g, e) = flowgraph_build loop_example graph_example
   in ok \<and> e = None \<and> graph_nodes g = [take 2 loop_example, drop 2 loop_example]"
  by code_simp




definition jle_example :: "node list" where
  "jle_example = [Node (mk_header STMT_3 eVoid ASM_JLE) 0 True [] [label_example 1, bad_node, bad_node],
     Node (mk_header STMT_N eVoid RETURN) 0 True [] [], label_example 1]"


end
