(* ===== verification/Funcs.thy ===== *)
theory Funcs imports FlowGraph Optimizer begin

text \<open>
  A function under compilation: \<open>src/onejit/func.hpp\<close>, \<open>func.cpp\<close> and \<open>funcheader.hpp\<close>. The record \<open>func\<close> of
  \<open>Nodes\<close> has the code, the variables and the labels, which creating a node needs; \<open>fn\<close> adds the rest of the class.
  \<open>holder_\<close> is the code of \<open>fn_f\<close>, or null when \<open>fn_holder\<close> is false.
\<close>

record fn =
  fn_f :: func
  fn_holder :: bool
  fn_name :: node
  fn_type :: node
  fn_address :: node
  fn_body :: node
  fn_compiled :: "node list"
  fn_body_vars :: nat
  fn_compiled_vars :: nat

definition NOARCH :: nat where "NOARCH = 0"
definition ARCHID_N :: nat where "ARCHID_N = 6"

definition fn_ok :: "fn \<Rightarrow> bool" where
  "fn_ok g \<longleftrightarrow> fn_holder g \<and> func_ok (fn_f g)"

definition fn_param_n :: "fn \<Rightarrow> nat" where "fn_param_n g = unat (functype_param_n (fn_type g))"
definition fn_result_n :: "fn \<Rightarrow> nat" where "fn_result_n g = unat (functype_result_n (fn_type g))"

definition fn_vars :: "fn \<Rightarrow> node list" where "fn_vars g = elems (fvars (fn_f g))"

definition fn_params :: "fn \<Rightarrow> node list" where
  "fn_params g = view_sub (fn_vars g) 0 (fn_param_n g)"

definition fn_results :: "fn \<Rightarrow> node list" where
  "fn_results g = view_sub (fn_vars g) (fn_param_n g) (fn_param_n g + fn_result_n g)"

text \<open>\<open>Func::address\<close>: the first label.\<close>

definition fn_label0 :: "fn \<Rightarrow> node" where
  "fn_label0 g = view_get bad_node (elems (flabels (fn_f g))) 0"

definition fn_set_body :: "node \<Rightarrow> fn \<Rightarrow> fn" where
  "fn_set_body body g = g\<lparr>fn_body_vars := length (fn_vars g), fn_body := body\<rparr>"

definition fn_get_compiled :: "nat \<Rightarrow> fn \<Rightarrow> node" where
  "fn_get_compiled arch g = (if arch < ARCHID_N then view_get bad_node (fn_compiled g) arch else bad_node)"

definition fn_set_compiled :: "nat \<Rightarrow> node \<Rightarrow> fn \<Rightarrow> fn" where
  "fn_set_compiled arch n g =
     (if arch < ARCHID_N then
        let g1 = g\<lparr>fn_compiled := span_set (fn_compiled g) arch n\<rparr>
        in if arch = NOARCH then g1\<lparr>fn_compiled_vars := length (fn_vars g)\<rparr>
           else g1\<lparr>fn_f := (fn_f g)\<lparr>fvars := arr_truncate (fn_compiled_vars g) (fvars (fn_f g))\<rparr>\<rparr>
      else g)"

text \<open>The loops of \<open>Func::reset\<close>: a new variable for each kind, until one fails.\<close>

fun func_new_vars :: "func \<Rightarrow> kind list \<Rightarrow> bool \<times> func" where
  "func_new_vars f [] = (True, f)"
| "func_new_vars f (k # ks) =
     (let (f1, v) = func_new_var f k in if node_valid v then func_new_vars f1 ks else (False, f1))"

definition fn_reset :: "func \<Rightarrow> bool \<Rightarrow> node \<Rightarrow> node \<Rightarrow> fn" where
  "fn_reset f0 holder name ftype =
     (let f = f0\<lparr>fvars := arr_clear (fvars f0), flabels := arr_clear (flabels f0)\<rparr>;
          params = map (\<lambda>i. functype_param ftype (of_nat i)) [0..<unat (functype_param_n ftype)];
          results = map (\<lambda>i. functype_result ftype (of_nat i)) [0..<unat (functype_result_n ftype)];
          (ok, f1) = (if holder \<and> func_ok f then func_new_vars f (params @ results) else (False, f));
          (f2, l) = (if ok then func_new_label f1 else (f1, bad_node));
          made = ok \<and> node_valid l
      in \<lparr>fn_f = f2, fn_holder = made, fn_name = (if made then name else bad_node),
          fn_type = (if made then ftype else bad_node),
          fn_address = (if made then view_get bad_node (elems (flabels f2)) 0 else bad_node),
          fn_body = bad_node, fn_compiled = replicate ARCHID_N bad_node, fn_body_vars = 0, fn_compiled_vars = 0\<rparr>)"

end
