(* ===== verification/Compiler.thy ===== *)
theory Compiler imports Funcs begin

text \<open>
  The compiler from trees of statements to a flat list of nodes: \<open>src/onejit/compiler.hpp\<close> and \<open>compiler.cpp\<close>.

  A member function takes the \<open>compiler\<close> last and returns its result with the new \<open>compiler\<close>, or an \<open>oerror\<close>. The
  overloads of \<open>compile\<close> are the definitions \<open>compile_*\<close>. They call each other in a cycle through
  \<open>compile(Node)\<close> and \<open>compile(Expr)\<close>, their arguments \<open>cn\<close> and \<open>ce\<close>; \<open>compile_node\<close> and \<open>compile_expr\<close> tie the knot with
  a fuel that bounds the depth of the calls. The loop of \<open>compile(Return)\<close> reads the results of the function through a
  range into \<open>vars_\<close> that a growth of the array invalidates: reading it then is \<open>Undefined\<close>.
\<close>

subsection \<open>State\<close>

record compiler =
  cfn :: fn
  ccheck :: u8
  breaks :: "node arr"
  continues :: "node arr"
  fallthroughs :: "node arr"
  emitted :: "node arr"
  errors :: "ferror arr"
  cgood :: bool
  calloc :: "nat \<Rightarrow> bool"

type_synonym 'a cm = "compiler \<Rightarrow> ('a \<times> compiler) res"

definition cret :: "'a \<Rightarrow> 'a cm" where "cret x c = Inr (x, c)"

definition cbind :: "'a cm \<Rightarrow> ('a \<Rightarrow> 'b cm) \<Rightarrow> 'b cm" where
  "cbind m k c = rbind (m c) (\<lambda>(x, c1). k x c1)"

definition cthen :: "unit cm \<Rightarrow> 'b cm \<Rightarrow> 'b cm" where
  "cthen m k = cbind m (\<lambda>_. k)"

definition cwhen :: "bool \<Rightarrow> unit cm \<Rightarrow> unit cm" where
  "cwhen b m = (if b then m else cret ())"

definition cfail :: "oerror \<Rightarrow> 'a cm" where "cfail e c = Inl e"

text \<open>Reading the state and changing it; running an operation of the function.\<close>

definition cget :: "(compiler \<Rightarrow> 'a) \<Rightarrow> 'a cm" where "cget g c = Inr (g c, c)"
definition cmodify :: "(compiler \<Rightarrow> compiler) \<Rightarrow> unit cm" where "cmodify g c = Inr ((), g c)"

definition set_func :: "func \<Rightarrow> compiler \<Rightarrow> compiler" where
  "set_func f c = c\<lparr>cfn := (cfn c)\<lparr>fn_f := f\<rparr>\<rparr>"

definition infunc :: "(func \<Rightarrow> func \<times> 'a) \<Rightarrow> 'a cm" where
  "infunc g c = (let (f, x) = g (fn_f (cfn c)) in Inr (x, set_func f c))"

definition making :: "(func \<Rightarrow> (func \<times> node) option) \<Rightarrow> node cm" where
  "making g c = rbind (looping (g (fn_f (cfn c)))) (\<lambda>(f, x). Inr (x, set_func f c))"

definition compiler_ok :: "compiler \<Rightarrow> bool" where
  "compiler_ok c \<longleftrightarrow> cgood c \<and> fn_ok (cfn c)"

subsection \<open>Flags\<close>

abbreviation "SimplifyNone \<equiv> (0 :: u8)"
abbreviation "SimplifyCall \<equiv> (1 :: u8)"
abbreviation "SimplifyLandLor \<equiv> (2 :: u8)"
abbreviation "SimplifyAll \<equiv> (3 :: u8)"
abbreviation "SimplifyDefault \<equiv> SimplifyLandLor"

subsection \<open>The lists of the compiler\<close>

definition out_node :: "node \<Rightarrow> unit cm" where
  "out_node n = cmodify (\<lambda>c.
     if node_same n void_const then c
     else if cgood c then let (ok, ns) = arr_append bad_node (calloc c) [n] (emitted c) in c\<lparr>emitted := ns, cgood := ok\<rparr>
     else c)"

definition out_error :: "node \<Rightarrow> string \<Rightarrow> unit cm" where
  "out_error n msg = cmodify (\<lambda>c.
     if cgood c then let (ok, es) = arr_append (bad_node, []) (calloc c) [(n, msg)] (errors c) in c\<lparr>errors := es, cgood := ok\<rparr>
     else c)"

definition out_of_memory :: "node \<Rightarrow> unit cm" where
  "out_of_memory n = cthen (out_error n ''out of memory'') (cmodify (\<lambda>c. c\<lparr>cgood := False\<rparr>))"

definition top_label :: "node arr \<Rightarrow> node" where
  "top_label a = (if elems a = [] then bad_node else last (elems a))"

definition label_break :: "node cm" where "label_break = cget (\<lambda>c. top_label (breaks c))"
definition label_continue :: "node cm" where "label_continue = cget (\<lambda>c. top_label (continues c))"
definition label_fallthrough :: "node cm" where "label_fallthrough = cget (\<lambda>c. top_label (fallthroughs c))"

definition enter_loop :: "node \<Rightarrow> node \<Rightarrow> unit cm" where
  "enter_loop l_break l_continue = cmodify (\<lambda>c.
     if cgood c then
       let (ok1, bs) = arr_append bad_node (calloc c) [l_break] (breaks c)
       in if ok1 then let (ok2, cs) = arr_append bad_node (calloc c) [l_continue] (continues c)
                      in c\<lparr>breaks := bs, continues := cs, cgood := ok2\<rparr>
          else c\<lparr>breaks := bs, cgood := False\<rparr>
     else c)"

definition exit_loop :: "unit cm" where
  "exit_loop = cmodify (\<lambda>c.
     if cgood c \<and> elems (breaks c) \<noteq> [] \<and> elems (continues c) \<noteq> [] then
       c\<lparr>breaks := arr_truncate (length (elems (breaks c)) - 1) (breaks c),
         continues := arr_truncate (length (elems (continues c)) - 1) (continues c)\<rparr>
     else c\<lparr>cgood := False\<rparr>)"

definition enter_case :: "node \<Rightarrow> node \<Rightarrow> unit cm" where
  "enter_case l_break l_fallthrough = cmodify (\<lambda>c.
     if cgood c then
       let (ok1, bs) = arr_append bad_node (calloc c) [l_break] (breaks c)
       in if ok1 then let (ok2, fs) = arr_append bad_node (calloc c) [l_fallthrough] (fallthroughs c)
                      in c\<lparr>breaks := bs, fallthroughs := fs, cgood := ok2\<rparr>
          else c\<lparr>breaks := bs, cgood := False\<rparr>
     else c)"

definition exit_case :: "unit cm" where
  "exit_case = cmodify (\<lambda>c.
     if cgood c \<and> elems (breaks c) \<noteq> [] \<and> elems (fallthroughs c) \<noteq> [] then
       c\<lparr>breaks := arr_truncate (length (elems (breaks c)) - 1) (breaks c),
         fallthroughs := arr_truncate (length (elems (fallthroughs c)) - 1) (fallthroughs c)\<rparr>
     else c\<lparr>cgood := False\<rparr>)"

subsection \<open>Creating nodes\<close>

definition new_label :: "node cm" where "new_label = infunc func_new_label"
definition new_var :: "kind \<Rightarrow> node cm" where "new_var k = infunc (\<lambda>f. func_new_var f k)"

definition goto_node :: "node \<Rightarrow> node cm" where "goto_node l = making (\<lambda>f. stmt1_create f l GOTO)"
definition assign_node :: "opcode \<Rightarrow> node \<Rightarrow> node \<Rightarrow> node cm" where
  "assign_node op dst src = making (\<lambda>f. stmt2_create f op dst src)"
definition jump_if_node :: "node \<Rightarrow> node \<Rightarrow> node cm" where
  "jump_if_node l test = making (\<lambda>f. stmt2_create f JUMP_IF l test)"
definition not_node :: "node \<Rightarrow> node cm" where "not_node x = making (\<lambda>f. unary_create f NOT1 x)"

definition out_goto :: "node \<Rightarrow> unit cm" where "out_goto l = cbind (goto_node l) out_node"

text \<open>\<open>compile_add(JumpIf{l, Unary{NOT1, x}})\<close> and \<open>compile_add(Assign{ASSIGN, dst, src})\<close>.\<close>

type_synonym compile_fun = "node \<Rightarrow> u8 \<Rightarrow> node cm"

definition compile_add :: "compile_fun \<Rightarrow> node \<Rightarrow> u8 \<Rightarrow> unit cm" where
  "compile_add cn n flags = cbind (cn n flags) out_node"

definition add_jump_unless :: "compile_fun \<Rightarrow> node \<Rightarrow> node \<Rightarrow> u8 \<Rightarrow> unit cm" where
  "add_jump_unless cn l x flags =
     cbind (not_node x) (\<lambda>t. cbind (jump_if_node l t) (\<lambda>j. compile_add cn j flags))"

definition add_assign :: "compile_fun \<Rightarrow> node \<Rightarrow> node \<Rightarrow> unit cm" where
  "add_assign cn dst src = cbind (assign_node ASSIGN dst src) (\<lambda>a. compile_add cn a SimplifyDefault)"

definition to_var :: "compile_fun \<Rightarrow> node \<Rightarrow> node cm" where
  "to_var cn n =
     (let e = as_expr n; v = as_var n
      in if node_valid e \<and> \<not> node_valid v then
           cbind (new_var (nkind e)) (\<lambda>v. cthen (add_assign cn v e) (cret v))
         else cret v)"

definition to_var_const :: "compile_fun \<Rightarrow> node \<Rightarrow> node cm" where
  "to_var_const cn n = (if nty n \<in> {VAR, CONSTN, LABEL} then cret (as_expr n) else to_var cn n)"

definition to_var_mem_const :: "compile_fun \<Rightarrow> node \<Rightarrow> node cm" where
  "to_var_mem_const cn n = (if nty n \<in> {VAR, MEM, CONSTN, LABEL} then cret (as_expr n) else to_var cn n)"

definition to_place :: "compile_fun \<Rightarrow> compile_fun \<Rightarrow> node \<Rightarrow> node cm" where
  "to_place cn ce n =
     (let mem = as_mem n
      in if \<not> node_valid mem then cret (as_expr n)
         else cbind (making (\<lambda>f. tuple_create_range f ePtr ADDN (mem, 0, children mem))) (\<lambda>address.
              cbind (ce address SimplifyAll) (\<lambda>address.
              cbind (to_var_const cn address) (\<lambda>address.
                making (\<lambda>f. mem_create f (nkind mem) MEM_OP [address])))))"

fun cmap :: "(node \<Rightarrow> node cm) \<Rightarrow> node list \<Rightarrow> node list cm" where
  "cmap g [] = cret []"
| "cmap g (x # xs) = cbind (g x) (\<lambda>y. cbind (cmap g xs) (\<lambda>ys. cret (y # ys)))"

text \<open>\<open>to_vars\<close> and \<open>to_places\<close>: all of a range of children; nothing when the array cannot be allocated.\<close>

definition map_children :: "(node \<Rightarrow> node cm) \<Rightarrow> node \<Rightarrow> nat \<Rightarrow> nat \<Rightarrow> node list cm" where
  "map_children g n start stop = cbind (cget calloc) (\<lambda>ok.
     if fst (arr_resize bad_node ok (stop - start) arr_empty)
     then cmap g (map (child n) [start..<stop])
     else cthen (out_of_memory n) (cret []))"

definition to_vars :: "compile_fun \<Rightarrow> node \<Rightarrow> nat \<Rightarrow> nat \<Rightarrow> node list cm" where
  "to_vars cn n start stop = map_children (to_var cn) n start stop"

definition to_places :: "compile_fun \<Rightarrow> compile_fun \<Rightarrow> node \<Rightarrow> nat \<Rightarrow> nat \<Rightarrow> node list cm" where
  "to_places cn ce n start stop = map_children (to_place cn ce) n start stop"
subsection \<open>Expressions\<close>

definition compile_unary :: "compile_fun \<Rightarrow> node \<Rightarrow> node cm" where
  "compile_unary ce n =
     (let x = as_expr (child n 0)
      in cbind (ce x SimplifyAll) (\<lambda>comp_x.
           if node_same x comp_x then cret n else making (\<lambda>f. unary_create f (node_op1 n) comp_x)))"

definition is_binary_comparison :: "node \<Rightarrow> bool" where
  "is_binary_comparison x \<longleftrightarrow> nty x = BINARY \<and> is_comparison (node_op2 x)"

text \<open>The end of \<open>simplify_land\<close> and \<open>simplify_lor\<close>: \<open>y\<close> is evaluated only when the jump is not taken.\<close>

definition simplify_land :: "compile_fun \<Rightarrow> node \<Rightarrow> node \<Rightarrow> node cm" where
  "simplify_land cn x y =
     (let cx = as_const x; cy = as_const y
      in if node_valid cx then cret (if val_truth (const_val cx) then y else x)
         else if node_valid cy then
           (if val_truth (const_val cy) then cret x else cthen (out_node x) (cret y))
         else if node_valid (as_var y) then cret bad_node
         else cbind (new_var eBool) (\<lambda>dst. cbind new_label (\<lambda>label.
           cthen (if is_binary_comparison x then
                    cthen (cbind (assign_node ASSIGN dst false_const) out_node)
                      (add_jump_unless cn label x SimplifyDefault)
                  else
                    cthen (cbind (assign_node ASSIGN dst x) out_node)
                      (add_jump_unless cn label dst SimplifyDefault))
             (cthen (add_assign cn dst y) (cthen (out_node label) (cret dst))))))"

definition simplify_lor :: "compile_fun \<Rightarrow> node \<Rightarrow> node \<Rightarrow> node cm" where
  "simplify_lor cn x y =
     (let cx = as_const x; cy = as_const y
      in if node_valid cx then cret (if val_truth (const_val cx) then x else y)
         else if node_valid cy then
           (if val_truth (const_val cy) then cthen (out_node x) (cret y) else cret x)
         else if node_valid (as_var y) then cret bad_node
         else cbind (new_var eBool) (\<lambda>dst. cbind new_label (\<lambda>label.
           cthen (if is_binary_comparison x then
                    cthen (cbind (assign_node ASSIGN dst true_const) out_node)
                      (cbind (jump_if_node label x) (\<lambda>j. compile_add cn j SimplifyDefault))
                  else
                    cthen (cbind (assign_node ASSIGN dst x) out_node)
                      (cbind (jump_if_node label dst) (\<lambda>j. compile_add cn j SimplifyDefault)))
             (cthen (add_assign cn dst y) (cthen (out_node label) (cret dst))))))"

definition compiler_simplify_boolean :: "compile_fun \<Rightarrow> op2 \<Rightarrow> node \<Rightarrow> node \<Rightarrow> node cm" where
  "compiler_simplify_boolean cn op x y =
     (if op = LAND then simplify_land cn x y else if op = LOR then simplify_lor cn x y else cret bad_node)"

definition compile_binary :: "compile_fun \<Rightarrow> compile_fun \<Rightarrow> node \<Rightarrow> u8 \<Rightarrow> node cm" where
  "compile_binary cn ce n flags =
     (let x = as_expr (child n 0); y = as_expr (child n 1); op = node_op2 n
      in cbind (ce x SimplifyAll) (\<lambda>comp_x. cbind (ce y SimplifyAll) (\<lambda>comp_y.
         cbind (if flags AND SimplifyLandLor \<noteq> 0 then compiler_simplify_boolean cn op comp_x comp_y else cret bad_node) (\<lambda>expr2.
           if node_valid expr2 then cret expr2
           else if \<not> node_same x comp_x \<or> \<not> node_same y comp_y
             then making (\<lambda>f. binary_create f op comp_x comp_y)
           else cret n))))"

definition as_functype :: "node \<Rightarrow> node" where "as_functype = downcast (\<lambda>n. nty n = FTYPE)"

definition compile_call :: "compile_fun \<Rightarrow> node \<Rightarrow> u8 \<Rightarrow> node cm" where
  "compile_call cn call flags =
     (let n = children call
      in cbind (if list_all (\<lambda>i. node_valid (as_var (child call i))) [2..<n] then cret call
                else cbind (to_vars cn call 2 n) (\<lambda>vargs.
                  infunc (\<lambda>f. call_create f (as_functype (child call 0)) (as_expr (child call 1)) vargs))) (\<lambda>call.
           if flags AND SimplifyCall = 0 then cret call
           else cbind (new_var (nkind call)) (\<lambda>dst.
                  cthen (cbind (assign_node ASSIGN dst call) out_node) (cret dst))))"

definition is_foldable_op :: "opn \<Rightarrow> bool" where
  "is_foldable_op op \<longleftrightarrow> opn_code ADDN \<le> opn_code op \<and> opn_code op \<le> opn_code COMMA"

definition compile_tuple :: "compile_fun \<Rightarrow> node \<Rightarrow> u8 \<Rightarrow> node cm" where
  "compile_tuple cn n flags =
     (if node_valid (as_call n) then compile_call cn (as_call n) flags
      else cbind (cget calloc) (\<lambda>ok.
        if \<not> fst (arr_resize bad_node ok (children n) arr_empty) then cthen (out_of_memory n) (cret n)
        else cbind (cmap (\<lambda>x. cbind (cn x flags) (to_var_mem_const cn)) (nkids n)) (\<lambda>nodes.
          if is_foldable_op (node_opn n) \<and> children n = 0 then
            cbind (\<lambda>c. rbind (ub (val_identity (nkind n) (node_opn n))) (\<lambda>v. Inr (v, c))) (\<lambda>v. infunc (\<lambda>f. const_create f v))
          else if is_foldable_op (node_opn n) \<and> children n = 1 then cret (as_expr (hd nodes))
          else if list_all2 node_same (nkids n) nodes then cret n
          else making (\<lambda>f. tuple_create f (nkind n) (node_opn n) nodes))))"

text \<open>\<open>compile(Comma)\<close>, which no dispatch reaches.\<close>

definition compile_comma :: "compile_fun \<Rightarrow> node \<Rightarrow> u8 \<Rightarrow> node cm" where
  "compile_comma ce n flags =
     (if children n = 0 then cret bad_node
      else cbind (cmap (\<lambda>x. ce (as_expr x) flags) (butlast (nkids n))) (\<lambda>_. ce (as_expr (last (nkids n))) flags))"

text \<open>\<open>compile(Expr, Flags)\<close> ignores its flags.\<close>

definition dispatch_expr :: "compile_fun \<Rightarrow> compile_fun \<Rightarrow> node \<Rightarrow> u8 \<Rightarrow> node cm" where
  "dispatch_expr cn ce n flags =
     (if nty n = UNARY then compile_unary ce n
      else if nty n = BINARY then compile_binary cn ce n SimplifyAll
      else if nty n = MEM \<or> nty n = TUPLE then compile_tuple cn n SimplifyAll
      else cret n)"

subsection \<open>Simple statements\<close>

definition out_jump_to :: "node cm \<Rightarrow> node \<Rightarrow> string \<Rightarrow> unit cm" where
  "out_jump_to label st msg = cbind label (\<lambda>l. if node_valid l then out_goto l else out_error st msg)"

definition compile_stmt0 :: "node \<Rightarrow> node cm" where
  "compile_stmt0 n = cthen
     (if nop n = BREAK then out_jump_to label_break n ''misplaced Break''
      else if nop n = CONTINUE then out_jump_to label_continue n ''misplaced Continue''
      else if nop n = FALLTHROUGH then out_jump_to label_fallthrough n ''misplaced Fallthrough''
      else out_error n ''bad Stmt0'')
     (cret void_const)"

definition compile_stmt1 :: "compile_fun \<Rightarrow> node \<Rightarrow> node cm" where
  "compile_stmt1 ce n =
     (let expr = as_expr (child n 0)
      in cbind (ce expr SimplifyDefault) (\<lambda>comp_expr.
         cbind (if node_same expr comp_expr then cret n else making (\<lambda>f. stmt1_create f comp_expr (nop n))) (\<lambda>st.
           cthen (out_node st) (cret void_const))))"

definition compile_assign :: "compile_fun \<Rightarrow> compile_fun \<Rightarrow> node \<Rightarrow> node cm" where
  "compile_assign cn ce n =
     (let dst = as_expr (child n 0); src = as_expr (child n 1)
      in cbind (cbind (ce dst SimplifyDefault) (to_place cn ce)) (\<lambda>comp_dst.
         cbind (ce src SimplifyAll) (\<lambda>comp_src.
         cbind (if \<not> node_same src comp_src \<or> \<not> node_same dst comp_src
                then assign_node (nop n) comp_dst comp_src else cret n) (\<lambda>st.
           cthen (out_node st) (cret void_const)))))"

abbreviation "BAD_ST3 \<equiv> (0 :: opcode)"

definition comparison_to_condjump :: "op2 \<Rightarrow> bool \<Rightarrow> opcode" where
  "comparison_to_condjump op is_signed =
     (case op of LSS \<Rightarrow> if is_signed then ASM_JL else ASM_JB
      | LEQ \<Rightarrow> if is_signed then ASM_JLE else ASM_JBE
      | NEQ \<Rightarrow> ASM_JNE
      | EQL \<Rightarrow> ASM_JE
      | GTR \<Rightarrow> if is_signed then ASM_JG else ASM_JA
      | GEQ \<Rightarrow> if is_signed then ASM_JGE else ASM_JAE
      | _ \<Rightarrow> BAD_ST3)"

text \<open>The loop that removes the negations of the test of a jump.\<close>

fun strip_not :: "bool \<Rightarrow> node \<Rightarrow> bool \<times> node" where
  "strip_not negate (Node h off ind d (x # xs)) =
     (if htype h = UNARY \<and> node_op1 (Node h off ind d (x # xs)) = NOT1 then
        (if is_expr_type (nty x) then strip_not (\<not> negate) x else (\<not> negate, bad_node))
      else (negate, Node h off ind d (x # xs)))"
| "strip_not negate (Node h off ind d []) =
     (if htype h = UNARY \<and> node_op1 (Node h off ind d []) = NOT1 then (\<not> negate, bad_node)
      else (negate, Node h off ind d []))"

text \<open>The comparison that a jump tests: its operands and its operator.\<close>

definition jump_operands :: "node \<Rightarrow> node \<times> node \<times> op2" where
  "jump_operands test =
     (let b = as_binary test; op = (if node_valid b then node_op2 b else BAD2)
      in if op = BAD2 then (test, zero_const (nkind test), NEQ) else (as_expr (child b 0), as_expr (child b 1), op))"

definition compile_jump_if :: "compile_fun \<Rightarrow> node \<Rightarrow> node cm" where
  "compile_jump_if ce n =
     (let to = as_label (child n 0)
      in cbind (ce (as_expr (child n 1)) (SimplifyAll AND NOT SimplifyLandLor)) (\<lambda>test0.
         let (negate, test) = strip_not False test0; (x, y, op) = jump_operands test; cx = as_const x; cy = as_const y
         in cbind (if node_valid cx \<and> node_valid cy
                   then (\<lambda>c. rbind (ub (eval_binary_op op (const_val cx) (const_val cy))) (\<lambda>v. Inr (v, c)))
                   else cret bad_value) (\<lambda>v.
              if val_is_valid v then
                cthen (cwhen (val_truth (if negate then val_lnot v else v)) (out_goto to)) (cret void_const)
              else
                let jop = comparison_to_condjump op (kind_is_signed (nkind x));
                    jop = (if negate then negate_condjump jop else jop)
                in cbind (making (\<lambda>f. stmt3_create f jop [to, x, y])) (\<lambda>st. cthen (out_node st) (cret void_const)))))"

definition compile_stmt2 :: "compile_fun \<Rightarrow> compile_fun \<Rightarrow> node \<Rightarrow> node cm" where
  "compile_stmt2 cn ce n =
     (if nop n = JUMP_IF then compile_jump_if ce n
      else if nop n = CASEST then cthen (out_error n ''misplaced Case'') (cthen (out_node n) (cret void_const))
      else if nop n = DEFAULT then cthen (out_error n ''misplaced Default'') (cthen (out_node n) (cret void_const))
      else if is_assign (nop n) then compile_assign cn ce n
      else cthen (out_node n) (cret void_const))"

subsection \<open>Structured statements\<close>

definition compile_if :: "compile_fun \<Rightarrow> compile_fun \<Rightarrow> node \<Rightarrow> node cm" where
  "compile_if cn ce n =
     (let then_part = child n 1; else_part = child n 2
      in cbind (ce (as_expr (child n 0)) SimplifyCall) (\<lambda>test.
         let ctest = as_const test; have_else = nty else_part \<noteq> CONSTN
         in if node_valid ctest then
              cthen (compile_add cn (if val_truth (const_val ctest) then then_part else else_part) SimplifyCall) (cret void_const)
            else
              cbind new_label (\<lambda>else_label.
              cbind (if have_else then new_label else cret else_label) (\<lambda>endif_label.
              cthen (add_jump_unless cn else_label test SimplifyCall)
             (cthen (compile_add cn then_part SimplifyCall)
             (cthen (cwhen have_else
                 (cthen (out_goto endif_label) (cthen (out_node else_label) (compile_add cn else_part SimplifyCall))))
             (cthen (out_node endif_label) (cret void_const))))))))"

definition compile_stmt3 :: "compile_fun \<Rightarrow> compile_fun \<Rightarrow> node \<Rightarrow> node cm" where
  "compile_stmt3 cn ce n =
     (if nop n = IFST then compile_if cn ce n else cthen (out_node n) (cret void_const))"

definition compile_for :: "compile_fun \<Rightarrow> node \<Rightarrow> node cm" where
  "compile_for cn n =
     (let test = as_expr (child n 1); post = child n 2; body = child n 3; ctest = as_const test;
          have_test = (if node_valid ctest then \<not> node_same test void_const \<or> \<not> val_truth (const_val ctest) else True)
      in cthen (compile_add cn (child n 0) SimplifyDefault)
        (if node_valid ctest \<and> have_test then cret void_const
         else
           cbind new_label (\<lambda>l_loop.
           cbind (if have_test then new_label else cret l_loop) (\<lambda>l_continue.
           cbind new_label (\<lambda>l_break.
             cthen (cwhen have_test (out_goto l_continue))
            (cthen (out_node l_loop)
            (cthen (enter_loop l_break l_continue)
            (cthen (compile_add cn body SimplifyDefault)
            (cthen (compile_add cn post SimplifyDefault)
            (cthen exit_loop
            (cthen (if have_test then
                      cthen (out_node l_continue)
                        (cbind (jump_if_node l_loop test) (\<lambda>j. compile_add cn j SimplifyDefault))
                    else cbind (goto_node l_loop) (\<lambda>g. compile_add cn g SimplifyDefault))
            (cthen (out_node l_break) (cret void_const)))))))))))))"

definition compile_stmt4 :: "compile_fun \<Rightarrow> node \<Rightarrow> node cm" where
  "compile_stmt4 cn n =
     (if nop n = FORST then compile_for cn n else cthen (out_node n) (cret void_const))"

text \<open>The clauses of \<open>compile(Cond)\<close>: a test and a body each.\<close>

fun cond_clauses :: "compile_fun \<Rightarrow> node \<Rightarrow> node \<Rightarrow> node list \<Rightarrow> unit cm" where
  "cond_clauses cn l_end goto_end (test # body # rest) =
     cbind (if rest = [] then cret l_end else new_label) (\<lambda>l_next.
       cthen (add_jump_unless cn l_next (as_expr test) SimplifyDefault)
      (cthen (compile_add cn body SimplifyAll)
      (cthen (cwhen (rest \<noteq> [] \<and> node_valid goto_end) (out_node goto_end))
      (cthen (out_node l_next) (cond_clauses cn l_end goto_end rest)))))"
| "cond_clauses cn l_end goto_end _ = cret ()"

definition compile_cond :: "compile_fun \<Rightarrow> node \<Rightarrow> node cm" where
  "compile_cond cn n =
     (if children n = 0 then cret void_const
      else if odd (children n) then
        cthen (out_error n ''unexpected odd number of children in Cond: expecting an even number of them'')
          (cthen (out_node n) (cret void_const))
      else cbind new_label (\<lambda>l_end.
           cbind (if children n \<le> 2 then cret bad_node else goto_node l_end) (\<lambda>goto_end.
             cthen (cond_clauses cn l_end goto_end (nkids n)) (cret void_const))))"

definition compile_block :: "compile_fun \<Rightarrow> node \<Rightarrow> node cm" where
  "compile_block cn n = cbind (cmap (\<lambda>x. cn x SimplifyDefault) (nkids n)) (\<lambda>_. cret void_const)"

definition compile_assign_call :: "compile_fun \<Rightarrow> compile_fun \<Rightarrow> node \<Rightarrow> node cm" where
  "compile_assign_call cn ce n =
     (let k = children n
      in cbind
        (if k = 0 then cret n
         else
           let call = as_call (child n (k - 1))
           in cbind (compile_call cn call SimplifyDefault) (\<lambda>compiled.
              let comp_call = as_call compiled
              in if node_same call comp_call \<and> list_all (\<lambda>i. node_valid (as_var (child n i))) [0..<k - 1] then cret n
                 else cbind (to_places cn ce n 0 (k - 1)) (\<lambda>places.
                   infunc (\<lambda>f. assign_call_create f places comp_call))))
        (\<lambda>st. cthen (out_node st) (cret void_const)))"

text \<open>The second loop of \<open>compile(Return)\<close>; \<open>cap\<close> is the capacity of \<open>vars_\<close> when it began.\<close>

fun return_values :: "compile_fun \<Rightarrow> node \<Rightarrow> nat \<Rightarrow> nat \<Rightarrow> node list \<Rightarrow> node buffer \<Rightarrow> node buffer cm" where
  "return_values ce st cap i [] vars = cret vars"
| "return_values ce st cap i (v # vs) vars =
     (let expr = as_expr (child st i)
      in cbind (cget (\<lambda>c. acap (fvars (fn_f (cfn c))))) (\<lambda>now.
         if now \<noteq> cap then cfail Undefined
         else
           cthen (cwhen (nkind v \<noteq> nkind expr) (out_error st ''return value kind does not match function signature''))
          (cthen (cwhen (\<not> node_same expr v)
             (cbind (ce expr SimplifyAll) (\<lambda>e. cbind (assign_node ASSIGN v e) out_node)))
          (cbind (cget calloc) (\<lambda>ok. return_values ce st cap (Suc i) vs (buf_append bad_node ok [v] vars))))))"

definition compile_return :: "compile_fun \<Rightarrow> node \<Rightarrow> node cm" where
  "compile_return ce n = cbind (cget cfn) (\<lambda>g.
     if children n \<noteq> fn_result_n g then
       cthen (out_error n ''number of return values does not match function signature'')
         (cthen (out_node n) (cret void_const))
     else if list_all (\<lambda>(i, v). node_same (child n i) v) (List.enumerate 0 (fn_results g)) then
       cthen (out_node n) (cret void_const)
     else
       cbind (return_values ce n (acap (fvars (fn_f g))) 0 (fn_results g) buf_new) (\<lambda>vars.
         cthen (cwhen (\<not> good vars) (out_of_memory n))
           (cbind (making (\<lambda>f. stmtn_create f RETURN (elems (bdata vars)))) (\<lambda>st.
              cthen (out_node st) (cret void_const)))))"

text \<open>The first loop of \<open>compile(Switch)\<close>: the error in its children, if any.\<close>

fun switch_error :: "bool \<Rightarrow> node list \<Rightarrow> ferror option" where
  "switch_error have_default [] = None"
| "switch_error have_default (x # xs) =
     (if \<not> node_valid (as_case x) then Some (x, ''unexpected node in Switch, expecting Case or Default'')
      else if nop x = DEFAULT then
        if have_default then Some (x, ''unexpected duplicate Default in Switch, expecting at most one'')
        else switch_error True xs
      else switch_error have_default xs)"

fun switch_cases :: "compile_fun \<Rightarrow> node \<Rightarrow> node \<Rightarrow> node \<Rightarrow> node \<Rightarrow> node \<Rightarrow> node \<Rightarrow> node list \<Rightarrow> unit cm" where
  "switch_cases cn expr l_break goto_break l_default l_this l_this_fallthrough [] = cret ()"
| "switch_cases cn expr l_break goto_break l_default l_this l_this_fallthrough (x # xs) =
     (let case_i = as_case x; is_last = (xs = [])
      in cbind (if is_last then cret (if node_valid l_default then l_default else l_break) else new_label) (\<lambda>l_next.
         cbind (if is_last then cret l_break else new_label) (\<lambda>l_fallthrough.
         cthen (cwhen (node_valid l_this) (out_node l_this))
        (cbind (if nop case_i = DEFAULT then
                  if is_last then cret (l_this_fallthrough, l_default)
                  else cthen (out_goto l_next)
                    (cbind (if node_valid l_this_fallthrough then cret l_this_fallthrough else new_label) (\<lambda>l. cret (l, l)))
                else cthen
                  (cbind (making (\<lambda>f. binary_create f NEQ expr (as_expr (child case_i 0)))) (\<lambda>test.
                   cbind (jump_if_node l_next test) (\<lambda>j. compile_add cn j SimplifyDefault)))
                  (cret (l_this_fallthrough, l_default))) (\<lambda>(l_this_fallthrough, l_default).
           cthen (cwhen (node_valid l_this_fallthrough) (out_node l_this_fallthrough))
          (cthen (enter_case l_break l_fallthrough)
          (cthen (compile_add cn (child case_i 1) SimplifyAll)
          (cthen exit_case
          (cthen (cwhen (\<not> is_last) (out_node goto_break))
             (switch_cases cn expr l_break goto_break l_default l_next l_fallthrough xs))))))))))"

definition compile_switch :: "compile_fun \<Rightarrow> node \<Rightarrow> node cm" where
  "compile_switch cn n =
     (case switch_error False (drop 1 (nkids n)) of
        Some (x, msg) \<Rightarrow> cthen (out_error x msg) (cret void_const)
      | None \<Rightarrow>
          cbind (to_var cn (as_expr (child n 0))) (\<lambda>expr.
          cbind new_label (\<lambda>l_break.
          cbind (goto_node l_break) (\<lambda>goto_break.
            cthen (switch_cases cn expr l_break goto_break bad_node bad_node bad_node (drop 1 (nkids n)))
           (cthen (out_node l_break) (cret void_const))))))"

definition compile_stmtn :: "compile_fun \<Rightarrow> compile_fun \<Rightarrow> node \<Rightarrow> node cm" where
  "compile_stmtn cn ce n =
     (if nop n = ASSIGN_CALL then compile_assign_call cn ce n
      else if nop n = BLOCK then compile_block cn n
      else if nop n = CONDST then compile_cond cn n
      else if nop n = RETURN then compile_return ce n
      else if nop n = SWITCH then compile_switch cn n
      else cthen (out_node n) (cret void_const))"

subsection \<open>The compiler\<close>

definition dispatch_node :: "compile_fun \<Rightarrow> compile_fun \<Rightarrow> node \<Rightarrow> u8 \<Rightarrow> node cm" where
  "dispatch_node cn ce n flags =
     (case nty n of
        STMT_0 \<Rightarrow> compile_stmt0 n
      | STMT_1 \<Rightarrow> compile_stmt1 ce n
      | STMT_2 \<Rightarrow> compile_stmt2 cn ce n
      | STMT_3 \<Rightarrow> compile_stmt3 cn ce n
      | STMT_4 \<Rightarrow> compile_stmt4 cn n
      | STMT_N \<Rightarrow> compile_stmtn cn ce n
      | _ \<Rightarrow> if node_valid (as_expr n) then ce n flags else cret n)"

fun compile_node :: "nat \<Rightarrow> node \<Rightarrow> u8 \<Rightarrow> node cm"
  and compile_expr :: "nat \<Rightarrow> node \<Rightarrow> u8 \<Rightarrow> node cm" where
  "compile_node 0 n flags = cfail OutOfFuel"
| "compile_node (Suc k) n flags = dispatch_node (compile_node k) (compile_expr k) n flags"
| "compile_expr 0 n flags = cfail OutOfFuel"
| "compile_expr (Suc k) n flags = dispatch_expr (compile_node k) (compile_expr k) n flags"

abbreviation "SET_ST \<equiv> (6 :: opcode)"

definition add_prologue :: "unit cm" where
  "add_prologue = cbind (cget cfn) (\<lambda>g.
     cthen (out_node (fn_label0 g))
       (if fn_param_n g = 0 \<or> length (fn_vars g) < fn_param_n g then cret ()
        else cbind (making (\<lambda>f. stmtn_create f SET_ST (take (fn_param_n g) (fn_vars g)))) out_node))"

definition add_epilogue :: "unit cm" where
  "add_epilogue = cbind (cget id) (\<lambda>c.
     if elems (emitted c) = [] \<or> \<not> is_return (last (elems (emitted c)))
     then cbind (making (\<lambda>f. stmtn_create f RETURN (fn_results (cfn c)))) out_node
     else cret ())"

definition compiler_finish :: "unit cm" where
  "compiler_finish = cbind (cget id) (\<lambda>c.
     if compiler_ok c then
       cbind (case elems (emitted c) of [] \<Rightarrow> cret void_const | [n] \<Rightarrow> cret n
              | ns \<Rightarrow> making (\<lambda>f. stmtn_create f BLOCK ns)) (\<lambda>compiled.
         cmodify (\<lambda>c. c\<lparr>cfn := fn_set_compiled NOARCH compiled (cfn c)\<rparr>))
     else cret ())"

definition compile_func :: "nat \<Rightarrow> nat \<Rightarrow> u16 \<Rightarrow> fn \<Rightarrow> unit cm" where
  "compile_func m k flags g = cbind (cget id) (\<lambda>c0.
     if node_valid (fn_get_compiled NOARCH g) then cret ()
     else
       cthen (cmodify (\<lambda>c. c\<lparr>cfn := g, breaks := arr_clear (breaks c), continues := arr_clear (continues c),
           fallthroughs := arr_clear (fallthroughs c), emitted := arr_clear (emitted c), errors := arr_clear (errors c),
           cgood := fn_ok g\<rparr>))
      (cthen add_prologue
      (cbind (\<lambda>c. rbind (optimize m \<lparr>ocheck = ccheck c, oflags = flags\<rparr> (fn_f (cfn c)) (fn_body g))
           (\<lambda>(f, n). Inr (n, set_func f c))) (\<lambda>n.
        cthen (compile_add (compile_node k) n SimplifyDefault)
       (cthen add_epilogue compiler_finish)))))"

end
