(* ===== verification/Compile_Runs.thy ===== *)
theory Compile_Runs imports Compiler begin

text \<open>
  A logic for the compiler: what a computation may add to the emitted nodes.

  \<open>emits L D c c'\<close> relates the states before and after. If no allocation failed, the stacks of labels are unchanged,
  the new nodes are flat unless there is a new error, every jump among them goes to a label of \<open>L\<close>, to a label of the
  stacks or to a label among the new nodes, and the labels \<open>D\<close> are among the new nodes. \<open>runs L D m X\<close> is the
  judgement for a computation \<open>m\<close>: it does not exhaust its fuel, emits in this way and returns a result in \<open>X\<close>.
\<close>

subsection \<open>Flat code, jumps and labels\<close>

definition structured :: "node \<Rightarrow> bool" where
  "structured n \<longleftrightarrow> (case nty n of
      STMT_0 \<Rightarrow> nop n \<noteq> 0
    | STMT_2 \<Rightarrow> nop n = CASEST \<or> nop n = DEFAULT \<or> nop n = JUMP_IF
    | STMT_3 \<Rightarrow> nop n = IFST
    | STMT_4 \<Rightarrow> nop n = FORST
    | STMT_N \<Rightarrow> nop n = BLOCK \<or> nop n = CONDST \<or> nop n = SWITCH
    | _ \<Rightarrow> False)"

definition targets :: "node list \<Rightarrow> u16 set" where
  "targets ns = (\<lambda>n. label_index (jump_label n)) ` {n \<in> set ns. jumps_away n}"

definition defs :: "node list \<Rightarrow> u16 set" where
  "defs ns = label_index ` {n \<in> set ns. is_label n}"

definition lab :: "node \<Rightarrow> u16 set" where
  "lab l = (if is_label l then {label_index l} else {})"

definition slabels :: "compiler \<Rightarrow> u16 set" where
  "slabels c = (\<Union>l\<in>set (elems (breaks c)) \<union> set (elems (continues c)) \<union> set (elems (fallthroughs c)). lab l)"

lemma targets_simps [simp]: "targets [] = {}" "targets (xs @ ys) = targets xs \<union> targets ys"
  by (auto simp: targets_def)

lemma defs_simps [simp]: "defs [] = {}" "defs (xs @ ys) = defs xs \<union> defs ys" "defs [n] = lab n"
  by (auto simp: defs_def lab_def)

definition emits :: "u16 set \<Rightarrow> u16 set \<Rightarrow> compiler \<Rightarrow> compiler \<Rightarrow> bool" where
  "emits L D c c' \<longleftrightarrow> (cgood c' \<longrightarrow>
     cgood c \<and> elems (breaks c') = elems (breaks c) \<and> elems (continues c') = elems (continues c) \<and>
     elems (fallthroughs c') = elems (fallthroughs c) \<and>
     (\<exists>new errs. elems (emitted c') = elems (emitted c) @ new \<and> elems (errors c') = elems (errors c) @ errs \<and>
        (errs = [] \<longrightarrow> list_all (\<lambda>n. \<not> structured n) new) \<and>
        targets new \<subseteq> L \<union> slabels c \<union> defs new \<and> D \<subseteq> defs new))"

lemma slabels_same:
  "elems (breaks c') = elems (breaks c) \<Longrightarrow> elems (continues c') = elems (continues c) \<Longrightarrow>
    elems (fallthroughs c') = elems (fallthroughs c) \<Longrightarrow> slabels c' = slabels c"
  by (simp add: slabels_def)

lemma emits_trans:
  assumes "emits L D1 c c1" "emits L D2 c1 c2"
  shows "emits L (D1 \<union> D2) c c2"
proof (cases "cgood c2")
  case True
  then obtain n2 e2 where 2: "cgood c1" "elems (breaks c2) = elems (breaks c1)" "elems (continues c2) = elems (continues c1)"
      "elems (fallthroughs c2) = elems (fallthroughs c1)"
      "elems (emitted c2) = elems (emitted c1) @ n2" "elems (errors c2) = elems (errors c1) @ e2"
      "e2 = [] \<longrightarrow> list_all (\<lambda>n. \<not> structured n) n2" "targets n2 \<subseteq> L \<union> slabels c1 \<union> defs n2" "D2 \<subseteq> defs n2"
    using assms(2) by (auto simp: emits_def)
  then obtain n1 e1 where 1: "cgood c" "elems (breaks c1) = elems (breaks c)" "elems (continues c1) = elems (continues c)"
      "elems (fallthroughs c1) = elems (fallthroughs c)"
      "elems (emitted c1) = elems (emitted c) @ n1" "elems (errors c1) = elems (errors c) @ e1"
      "e1 = [] \<longrightarrow> list_all (\<lambda>n. \<not> structured n) n1" "targets n1 \<subseteq> L \<union> slabels c \<union> defs n1" "D1 \<subseteq> defs n1"
    using assms(1) by (auto simp: emits_def)
  have "elems (emitted c2) = elems (emitted c) @ (n1 @ n2)" "elems (errors c2) = elems (errors c) @ (e1 @ e2)"
    using 1(5,6) 2(5,6) by simp_all
  moreover have "e1 @ e2 = [] \<longrightarrow> list_all (\<lambda>n. \<not> structured n) (n1 @ n2)" using 1(7) 2(7) by simp
  moreover have "targets (n1 @ n2) \<subseteq> L \<union> slabels c \<union> defs (n1 @ n2)" "D1 \<union> D2 \<subseteq> defs (n1 @ n2)"
    using 1(8,9) 2(8,9) slabels_same [OF 1(2,3,4)] by auto
  ultimately show ?thesis unfolding emits_def using 1(1-4) 2(2-4) by auto
qed (simp add: emits_def)

lemma emits_refl: "emits L {} c c" by (auto simp: emits_def)

lemma emits_mono:
  assumes "emits L D c c'" "L \<subseteq> L' \<union> slabels c \<union> D" "D' \<subseteq> D"
  shows "emits L' D' c c'"
proof -
  have "targets new \<subseteq> L' \<union> slabels c \<union> defs new \<and> D' \<subseteq> defs new"
    if "targets new \<subseteq> L \<union> slabels c \<union> defs new" "D \<subseteq> defs new" for new
    using that assms(2,3) by blast
  then show ?thesis using assms(1) unfolding emits_def by blast
qed

subsection \<open>The judgement\<close>

definition runs_at :: "compiler \<Rightarrow> u16 set \<Rightarrow> u16 set \<Rightarrow> 'a cm \<Rightarrow> ('a \<Rightarrow> bool) \<Rightarrow> bool" where
  "runs_at c L D m X \<longleftrightarrow> (case m c of Inl e \<Rightarrow> e \<noteq> OutOfFuel | Inr (x, c') \<Rightarrow> emits L D c c' \<and> X x)"

definition runs :: "u16 set \<Rightarrow> u16 set \<Rightarrow> 'a cm \<Rightarrow> ('a \<Rightarrow> bool) \<Rightarrow> bool" where
  "runs L D m X \<longleftrightarrow> (\<forall>c. runs_at c L D m X)"

lemma runs_at_mono:
  assumes "runs_at c L D m X" "L \<subseteq> L' \<union> slabels c \<union> D" "D' \<subseteq> D" "\<And>x. X x \<Longrightarrow> X' x"
  shows "runs_at c L' D' m X'"
proof (cases "m c")
  case (Inr r)
  then show ?thesis using assms emits_mono [of L D c "snd r" L' D'] by (auto simp: runs_at_def split: prod.splits)
qed (use assms in \<open>simp add: runs_at_def\<close>)

lemma runs_mono:
  "runs L D m X \<Longrightarrow> L \<subseteq> L' \<union> D \<Longrightarrow> D' \<subseteq> D \<Longrightarrow> (\<And>x. X x \<Longrightarrow> X' x) \<Longrightarrow> runs L' D' m X'"
  unfolding runs_def using runs_at_mono [of _ L D m X L' D' X'] by blast

text \<open>A fresh label that is defined need not be among the labels of the context.\<close>

lemma runs_discharge: "runs (L \<union> D) D m X \<Longrightarrow> runs L {} m X"
  by (rule runs_mono) auto

lemma runs_ret [intro]: "X x \<Longrightarrow> runs L {} (cret x) X"
  by (simp add: runs_def runs_at_def cret_def emits_refl)

lemma runs_at_bind:
  assumes "runs_at c L D1 m Y" "\<And>x. Y x \<Longrightarrow> runs L D2 (k x) X"
  shows "runs_at c L (D1 \<union> D2) (cbind m k) X"
proof (cases "m c")
  case (Inl e)
  then show ?thesis using assms(1) by (simp add: runs_at_def cbind_def)
next
  case (Inr r)
  obtain x c1 where r: "r = (x, c1)" by force
  then have 1: "emits L D1 c c1" "Y x" using assms(1) Inr by (auto simp: runs_at_def)
  then show ?thesis using assms(2) [OF 1(2)] Inr r
    by (auto simp: runs_def runs_at_def cbind_def split: sum.splits dest!: spec [of _ c1] intro: emits_trans)
qed

lemma runs_bind:
  "runs L D1 m Y \<Longrightarrow> (\<And>x. Y x \<Longrightarrow> runs L D2 (k x) X) \<Longrightarrow> runs L (D1 \<union> D2) (cbind m k) X"
  using runs_at_bind [of _ L D1 m Y D2 k X] by (simp add: runs_def)

lemma runs_bind0: "runs L {} m Y \<Longrightarrow> (\<And>x. Y x \<Longrightarrow> runs L D (k x) X) \<Longrightarrow> runs L D (cbind m k) X"
  using runs_bind [of L "{}" m Y D k X] by simp

lemma runs_then: "runs L D1 m (\<lambda>_. True) \<Longrightarrow> runs L D2 k X \<Longrightarrow> runs L (D1 \<union> D2) (cthen m k) X"
  unfolding cthen_def by (rule runs_bind) auto

lemma runs_then0: "runs L {} m (\<lambda>_. True) \<Longrightarrow> runs L D k X \<Longrightarrow> runs L D (cthen m k) X"
  using runs_then [of L "{}" m D k X] by simp

lemma runs_when: "(b \<Longrightarrow> runs L {} m (\<lambda>_. True)) \<Longrightarrow> runs L {} (cwhen b m) (\<lambda>_. True)"
  by (auto simp: cwhen_def)

lemma runs_if: "(b \<Longrightarrow> runs L D m X) \<Longrightarrow> (\<not> b \<Longrightarrow> runs L D m' X) \<Longrightarrow> runs L D (if b then m else m') X"
  by simp

lemma runs_fail: "e \<noteq> OutOfFuel \<Longrightarrow> runs L D (cfail e) X"
  by (simp add: runs_def runs_at_def cfail_def)

lemma runs_get: "(\<And>c. X (g c)) \<Longrightarrow> runs L {} (cget g) X"
  by (simp add: runs_def runs_at_def cget_def emits_refl)

lemma set_func_emits: "emits L {} c (set_func f c)"
  by (auto simp: emits_def set_func_def)

lemma runs_infunc: "(\<And>f f' x. g f = (f', x) \<Longrightarrow> X x) \<Longrightarrow> runs L {} (infunc g) X"
  by (auto simp: runs_def runs_at_def infunc_def set_func_emits split: prod.splits)

lemma runs_making: "(\<And>f f' x. g f = Some (f', x) \<Longrightarrow> X x) \<Longrightarrow> runs L {} (making g) X"
  by (auto simp: runs_def runs_at_def making_def set_func_emits from_option_def rbind_def split: option.splits)

lemma runs_ub: "(\<And>x. X x) \<Longrightarrow> runs L {} (\<lambda>c. rbind (ub r) (\<lambda>v. Inr (v, c))) X"
  by (cases r) (simp_all add: runs_def runs_at_def emits_refl)

lemma runs_map:
  "(\<And>x. x \<in> set xs \<Longrightarrow> runs L {} (g x) (Y x)) \<Longrightarrow> runs L {} (cmap g xs) (\<lambda>ys. list_all2 Y xs ys)"
proof (induction xs)
  case (Cons x xs)
  show ?case
    by (simp, rule runs_bind0 [OF Cons.prems], simp, rule runs_bind0 [OF Cons.IH], use Cons.prems in auto)
qed auto

subsection \<open>Emitting a node\<close>

lemma runs_modify: "(\<And>c. emits L D c (g c)) \<Longrightarrow> runs L D (cmodify g) (\<lambda>_. True)"
  by (simp add: runs_def runs_at_def cmodify_def)

lemma arr_append_eq:
  "arr_append z ok src a = (True, a') \<Longrightarrow> elems a' = elems a @ src"
  using arr_append_success [of z ok src a] by simp

lemma node_same_void: "node_same n void_const \<Longrightarrow> \<not> is_label n \<and> \<not> is_jump n"
  by (auto simp: node_same_def void_const_def const_small_def const_header_def is_label_def is_jump_def is_uncond_jump_def
      is_cond_jump_def is_return_def)

lemma runs_out_node:
  assumes "\<not> structured n" "targets [n] \<subseteq> L"
  shows "runs L (lab n) (out_node n) (\<lambda>_. True)"
  unfolding out_node_def
proof (rule runs_modify)
  fix c :: compiler
  obtain ok ns where a: "arr_append bad_node (calloc c) [n] (emitted c) = (ok, ns)" by force
  show "emits L (lab n) c (if node_same n void_const then c
     else if cgood c then let (ok, ns) = arr_append bad_node (calloc c) [n] (emitted c) in c\<lparr>emitted := ns, cgood := ok\<rparr>
     else c)"
  proof (cases "node_same n void_const")
    case True
    then have "lab n = {}" using node_same_void by (simp add: lab_def)
    with True show ?thesis by (simp add: emits_refl)
  next
    case False
    show ?thesis using False a assms arr_append_eq [of bad_node "calloc c" "[n]" "emitted c" ns]
      by (auto simp: emits_def)
  qed
qed

lemma runs_out_error: "runs L {} (out_error n msg) (\<lambda>_. True)"
  unfolding out_error_def
proof (rule runs_modify)
  fix c :: compiler
  obtain ok es where a: "arr_append (bad_node, []) (calloc c) [(n, msg)] (errors c) = (ok, es)" by force
  show "emits L {} c (if cgood c then let (ok, es) = arr_append (bad_node, []) (calloc c) [(n, msg)] (errors c)
      in c\<lparr>errors := es, cgood := ok\<rparr> else c)"
    using a arr_append_eq [of "(bad_node, [])" "calloc c" "[(n, msg)]" "errors c" es] by (auto simp: emits_def)
qed

text \<open>After an error any node may be emitted.\<close>

lemma runs_error_out:
  assumes "targets [n] \<subseteq> L" "X void_const"
  shows "runs L {} (cthen (out_error n msg) (cthen (out_node n) (cret void_const))) X"
  unfolding runs_def
proof
  fix c :: compiler
  obtain ok es where a: "arr_append (bad_node, []) (calloc c) [(n, msg)] (errors c) = (ok, es)" by force
  obtain ok' ns where b: "arr_append bad_node (calloc c) [n] (emitted c) = (ok', ns)" by force
  show "runs_at c L {} (cthen (out_error n msg) (cthen (out_node n) (cret void_const))) X"
    using a b arr_append_eq [of "(bad_node, [])" "calloc c" "[(n, msg)]" "errors c" es] assms
      arr_append_eq [of bad_node "calloc c" "[n]" "emitted c" ns]
    by (auto simp: runs_at_def cthen_def cbind_def cmodify_def cret_def out_error_def out_node_def emits_def)
qed

lemma runs_oom: "runs L {} (out_of_memory n) (\<lambda>_. True)"
  unfolding out_of_memory_def
  by (rule runs_then0 [OF runs_out_error], rule runs_modify) (simp add: emits_def)

end
