(* ===== verification/Compiler_Sound.thy ===== *)
theory Compiler_Sound imports Compile_Runs begin

text \<open>
  The compiler ends, and its code is flat and jumps only to labels of its own or of the function: every \<open>compile_*\<close> of
  \<open>Compiler\<close> satisfies the judgement \<open>runs\<close>.

  \<open>weight\<close> bounds the depth of the recursion: the statements that the compiler creates and compiles in turn (an
  assignment to a new variable, a jump on a negated test) weigh less than the node they come from.
\<close>

subsection \<open>Nodes\<close>

definition base_weight :: "ntype \<Rightarrow> nat" where
  "base_weight t = (case t of STMT_1 \<Rightarrow> 1 | STMT_2 \<Rightarrow> 1 | STMT_3 \<Rightarrow> 12 | STMT_4 \<Rightarrow> 12 | STMT_N \<Rightarrow> 12
     | UNARY \<Rightarrow> 1 | BINARY \<Rightarrow> 6 | TUPLE \<Rightarrow> 6 | MEM \<Rightarrow> 10 | _ \<Rightarrow> 0)"

fun weight :: "node \<Rightarrow> nat" where
  "weight (Node h off ind d kids) = base_weight (htype h) + foldr max (map weight kids) 2"

definition is_call_node :: "header \<Rightarrow> bool" where
  "is_call_node h \<longleftrightarrow> (htype h = TUPLE \<or> htype h = MEM) \<and> hop h = 9 \<and> header_valid h"

text \<open>
  The labels that a jump may reach from a node; the address of a called function is not one of them.
\<close>

function only_labels :: "u16 set \<Rightarrow> node \<Rightarrow> bool" where
  "only_labels L (Node h off ind d kids) \<longleftrightarrow>
     (htype h = LABEL \<longrightarrow> hop h \<in> L) \<and> (\<forall>k\<in>set (if is_call_node h then drop 2 kids else kids). only_labels L k)"
  by pat_completeness auto
termination
proof (relation "measure (\<lambda>(L, n). size n)", goal_cases)
  case (2 L h off ind d kids k)
  then have "k \<in> set kids" by (auto split: if_splits dest: in_set_dropD)
  then show ?case by (simp add: less_Suc_eq_le size_list_estimation' [of k kids "size k" size])
qed simp

definition plain :: "node \<Rightarrow> bool" where
  "plain n \<longleftrightarrow> n = bad_node \<or> nty n \<notin> {STMT_0, STMT_1, STMT_2, STMT_3, STMT_4, STMT_N}"

definition okx :: "u16 set \<Rightarrow> nat \<Rightarrow> node \<Rightarrow> bool" where
  "okx L b n \<longleftrightarrow> only_labels L n \<and> weight n \<le> b \<and> plain n"

lemma foldr_max: "x \<in> set xs \<Longrightarrow> x \<le> foldr max xs b" "b \<le> foldr max xs b" for b :: nat
  by (induction xs) auto

lemma foldr_max_le: "foldr max xs b \<le> m \<longleftrightarrow> b \<le> m \<and> (\<forall>x\<in>set xs. x \<le> m)" for b :: nat
  by (induction xs) auto

lemma weight_ge2 [simp]: "2 \<le> weight n"
  by (cases n) (simp add: foldr_max(2) trans_le_add2)

lemma weight_kid: "k \<in> set (nkids n) \<Longrightarrow> base_weight (nty n) + weight k \<le> weight n"
  by (cases n) (simp add: foldr_max(1))

lemma weight_bad [simp]: "weight bad_node = 2"
  by (simp add: bad_node_def bad_header_def base_weight_def)

lemma weight_child: "base_weight (nty n) + weight (child n i) \<le> weight n"
  by (cases n) (auto simp: child_def children_def foldr_max(1) foldr_max(2))

lemma weight_downcast [simp]: "weight (downcast p n) \<le> weight n"
  by (simp add: downcast_def)

lemma only_bad [simp]: "only_labels L bad_node"
  by (simp add: bad_node_def bad_header_def is_call_node_def)

lemma only_downcast: "only_labels L n \<Longrightarrow> only_labels L (downcast p n)"
  by (simp add: downcast_def)

lemma only_child: "only_labels L n \<Longrightarrow> \<not> is_call_node (nhead n) \<Longrightarrow> only_labels L (child n i)"
  by (cases n) (auto simp: child_def children_def)

lemma only_arg:
  assumes "only_labels L n" "2 \<le> i"
  shows "only_labels L (child n i)"
proof (cases "i < children n")
  case True
  then have "child n i \<in> set (drop 2 (nkids n))"
    using assms(2) by (auto simp: children_def in_set_conv_nth nth_via_drop intro!: exI [of _ "i - 2"] arg_cong [of _ _ "(!) (nkids n)"])
  with assms(1) show ?thesis by (cases n) (auto split: if_splits dest: in_set_dropD)
qed (simp add: child_def)

lemma only_mono: "only_labels L n \<Longrightarrow> L \<subseteq> L' \<Longrightarrow> only_labels L' n"
  by (induction L n rule: only_labels.induct) auto

lemma plain_bad [simp]: "plain bad_node"
  by (simp add: plain_def)

lemma plain_expr: "is_expr_type (nty n) \<Longrightarrow> plain n"
  by (cases "nty n") (simp_all add: plain_def is_expr_type_def)

lemma plain_as_expr [simp]: "plain (as_expr n)"
  by (simp add: as_expr_def downcast_def plain_expr)

lemma as_expr_weight [simp]: "weight (as_expr n) \<le> weight n"
  by (simp add: as_expr_def)

lemma okx_mono: "okx L b n \<Longrightarrow> L \<subseteq> L' \<Longrightarrow> b \<le> b' \<Longrightarrow> okx L' b' n"
  using only_mono by (auto simp: okx_def)

lemma okx_bad [simp]: "okx L b bad_node \<longleftrightarrow> 2 \<le> b"
  by (simp add: okx_def)

lemma okx_as_expr: "only_labels L n \<Longrightarrow> weight n \<le> b \<Longrightarrow> okx L b (as_expr n)"
  using as_expr_weight [of n] plain_as_expr [of n] only_downcast [of L n "\<lambda>n. is_expr_type (nty n)"]
  by (simp add: okx_def as_expr_def downcast_def del: as_expr_weight)

lemma leaf_okx:
  assumes "nkids n = []" "nty n \<in> {VAR, CONSTN}" "2 \<le> b"
  shows "okx L b n"
  using assms by (cases n) (auto simp: okx_def base_weight_def plain_def)

lemma bad_flat: "\<not> structured bad_node" "\<not> is_jump bad_node"
  by (simp_all add: structured_def is_jump_def is_uncond_jump_def is_cond_jump_def is_return_def bad_node_def bad_header_def)

lemma plain_flat: "plain n \<Longrightarrow> \<not> structured n \<and> targets [n] = {}"
  using bad_flat by (cases "nty n") (auto simp: plain_def structured_def targets_def jumps_away_def is_jump_def is_uncond_jump_def is_cond_jump_def is_return_def)

lemma jump_label_stmt:
  assumes "is_jump n" "only_labels L n" "node_valid (jump_label n)"
  shows "label_index (jump_label n) \<in> L"
proof -
  have t: "nty n \<noteq> STMT_N" using assms(3) by (auto simp: jump_label_def)
  have "nty n \<in> {STMT_1, STMT_2, STMT_3}"
    using assms(1) t by (cases "nty n") (auto simp: is_jump_def is_uncond_jump_def is_cond_jump_def is_return_def)
  then have "only_labels L (child n 0)" by (intro only_child [OF assms(2)]) (auto simp: is_call_node_def)
  moreover have "jump_label n = child n 0" "nty (child n 0) = LABEL"
    using assms(3) t by (auto simp: jump_label_def as_label_def downcast_def split: if_splits)
  ultimately show ?thesis by (cases "child n 0") (auto simp: label_index_def)
qed

lemma targets_only: "only_labels L n \<Longrightarrow> targets [n] \<subseteq> L"
  using jump_label_stmt by (auto simp: targets_def jumps_away_def)

subsection \<open>Creation\<close>

definition made :: "header \<Rightarrow> node list \<Rightarrow> node \<Rightarrow> bool" where
  "made h kids n \<longleftrightarrow> n = bad_node \<or> (\<exists>off. n = Node h off True [] kids)"

lemma create_indirect_made: "create_indirect f h kids = Some (f', n) \<Longrightarrow> made h kids n"
  by (auto simp: create_indirect_def create_loop_eq Let_def made_def split: if_splits)

lemma create_list_made: "create_list f h m kids = (f', n) \<Longrightarrow> made h kids n"
  by (auto simp: create_list_def Let_def made_def split: if_splits)

lemmas create_defs = stmt1_create_def stmt2_create_def stmt3_create_def stmtn_create_def unary_create_def unary_create_kind_def
  binary_create_def tuple_create_def mem_create_def

lemma whole_range: "childrange_nodes (n, 0, children n) = nkids n"
  by (auto simp: childrange_nodes_def childrange_get_def child_def children_def intro: nth_equalityI)

lemma tuple_range_made:
  "tuple_create_range f k op (n, 0, children n) = Some (f', x) \<Longrightarrow> made (mk_header TUPLE k (opn_code op)) (nkids n) x"
  by (auto simp: tuple_create_range_def create_indirect_from_ranges_def whole_range create_loop_eq made_def Let_def split: if_splits)

lemma new_var_made: "func_new_var f k = (f', v) \<Longrightarrow> v = bad_node \<or> (nty v = VAR \<and> nkids v = [])"
  by (auto simp: func_new_var_def var_create_def var_direct_def var_header_def Let_def split: prod.splits if_splits)

lemma new_label_made: "func_new_label f = (f', l) \<Longrightarrow> l = bad_node \<or> (nty l = LABEL \<and> nkids l = [] \<and> node_valid l)"
  by (auto simp: node_valid_def header_valid_def func_new_label_def label_create_def Let_def split: prod.splits if_splits)

lemma const_create_made: "const_create f v = (f', n) \<Longrightarrow> n = bad_node \<or> (nty n = CONSTN \<and> nkids n = [])"
  by (auto simp: const_create_def const_header_def Let_def split: if_splits)

text \<open>What a node made by the compiler allows, by its parts.\<close>

lemma made_only:
  assumes "made h kids n" "htype h \<noteq> LABEL" "\<forall>k\<in>set kids. only_labels L k"
  shows "only_labels L n"
  using assms by (auto simp: made_def split: if_splits dest!: in_set_dropD)

lemma made_weight:
  assumes "made h kids n" "\<forall>k\<in>set kids. weight k \<le> b" "2 \<le> b"
  shows "weight n \<le> base_weight (htype h) + b"
  using assms by (auto simp: made_def foldr_max_le)

lemma made_okx:
  assumes "made h kids n" "is_expr_type (htype h)" "htype h \<noteq> LABEL" "\<forall>k\<in>set kids. only_labels L k \<and> weight k \<le> b" "2 \<le> b"
  shows "okx L (base_weight (htype h) + b) n"
  using made_only [OF assms(1,3)] made_weight [OF assms(1)] assms
  by (auto simp: okx_def made_def intro: plain_expr)

lemma structured_head: "nhead a = nhead b \<Longrightarrow> structured a = structured b"
  by (simp add: structured_def split: ntype.split)

lemma made_flat: "made h kids n \<Longrightarrow> \<not> structured (Node h 0 True [] kids) \<Longrightarrow> \<not> structured n"
  using bad_flat(1) structured_head [of n "Node h 0 True [] kids"] by (auto simp: made_def)

lemma label_only: "l = bad_node \<or> (nty l = LABEL \<and> nkids l = []) \<Longrightarrow> lab l \<subseteq> L \<Longrightarrow> only_labels L l \<and> weight l = 2"
  by (cases "l = bad_node"; cases l) (auto simp: lab_def is_label_def label_index_def is_call_node_def base_weight_def)

subsection \<open>Calls of the compiler\<close>

definition calls :: "nat \<Rightarrow> compile_fun \<Rightarrow> compile_fun \<Rightarrow> bool" where
  "calls k cn ce \<longleftrightarrow> (\<forall>L n fl. only_labels L n \<longrightarrow>
     (weight n < k \<longrightarrow> runs L {} (cn n fl) (okx L (weight n))) \<and>
     (plain n \<and> weight n \<le> k \<longrightarrow> runs L {} (ce n fl) (okx L (weight n))))"

lemma runs_weaken: "runs L D m X \<Longrightarrow> (\<And>x. X x \<Longrightarrow> X' x) \<Longrightarrow> runs L {} m X'"
  by (rule runs_mono [of L D m X]) auto

lemma call_node:
  "calls k cn ce \<Longrightarrow> only_labels L n \<Longrightarrow> weight n < k \<Longrightarrow> weight n \<le> b \<Longrightarrow> runs L {} (cn n fl) (okx L b)"
  unfolding calls_def by (blast intro: runs_weaken okx_mono)

lemma call_expr:
  "calls k cn ce \<Longrightarrow> only_labels L n \<Longrightarrow> plain n \<Longrightarrow> weight n \<le> k \<Longrightarrow> weight n \<le> b \<Longrightarrow> runs L {} (ce n fl) (okx L b)"
  unfolding calls_def by (blast intro: runs_weaken okx_mono)

lemma call_child:
  assumes "calls k cn ce" "only_labels L n" "\<not> is_call_node (nhead n)" "weight n \<le> base_weight (nty n) + b" "b \<le> k"
  shows "runs L {} (ce (as_expr (child n i)) fl) (okx L b)"
proof (rule call_expr [OF assms(1)])
  show "only_labels L (as_expr (child n i))"
    unfolding as_expr_def by (rule only_downcast [OF only_child [OF assms(2,3)]])
  have "weight (child n i) \<le> b" using weight_child [of n i] assms(4) by linarith
  then show "weight (as_expr (child n i)) \<le> b" "weight (as_expr (child n i)) \<le> k"
    using as_expr_weight [of "child n i"] assms(5) by linarith+
qed simp

lemma out_plain: "plain n \<Longrightarrow> runs L {} (out_node n) (\<lambda>_. True)"
  using plain_flat [of n] by (intro runs_weaken [OF runs_out_node]) auto

lemma out_flat: "\<not> structured n \<Longrightarrow> only_labels L n \<Longrightarrow> runs L {} (out_node n) (\<lambda>_. True)"
  using targets_only [of L n] by (intro runs_weaken [OF runs_out_node]) auto

lemma out_label: "l = bad_node \<or> (nty l = LABEL \<and> nkids l = []) \<Longrightarrow> runs L (lab l) (out_node l) (\<lambda>_. True)"
  using plain_flat [of l] by (intro runs_out_node) (auto simp: plain_def)

lemma add_node:
  assumes "calls k cn ce" "only_labels L n" "weight n < k"
  shows "runs L {} (compile_add cn n fl) (\<lambda>_. True)"
  unfolding compile_add_def
  by (rule runs_bind0 [OF call_node [OF assms order_refl]]) (auto simp: okx_def intro: out_plain)

text \<open>Creating a statement or an expression from parts that are known.\<close>

definition parts :: "u16 set \<Rightarrow> nat \<Rightarrow> node \<Rightarrow> bool" where
  "parts L b n \<longleftrightarrow> only_labels L n \<and> weight n \<le> b"

lemma okx_parts: "okx L b n \<Longrightarrow> parts L b n" by (simp add: okx_def parts_def)

lemma making_stmt:
  assumes "\<And>f f' n. g f = Some (f', n) \<Longrightarrow> made h kids n" "htype h \<noteq> LABEL" "\<forall>k\<in>set kids. parts L b k" "2 \<le> b"
  shows "runs L {} (making g) (\<lambda>n. parts L (base_weight (htype h) + b) n \<and> made h kids n)"
  by (rule runs_making)
    (use assms made_only [of h kids _ L] made_weight [of h kids _ b] in \<open>auto simp: parts_def\<close>)

lemma making_expr:
  assumes "\<And>f f' n. g f = Some (f', n) \<Longrightarrow> made h kids n" "is_expr_type (htype h)" "htype h \<noteq> LABEL"
    "\<forall>k\<in>set kids. parts L b k" "2 \<le> b" "base_weight (htype h) + b \<le> b'"
  shows "runs L {} (making g) (okx L b')"
  by (rule runs_making, rule okx_mono [OF made_okx [of h kids _ L b]]) (use assms in \<open>auto simp: parts_def\<close>)

lemma making_assign:
  assumes "parts L b dst" "parts L b src" "2 \<le> b"
  shows "runs L {} (assign_node op dst src) (\<lambda>n. parts L (Suc b) n \<and> made (mk_header STMT_2 eVoid op) [dst, src] n)"
  unfolding assign_node_def
  by (rule runs_weaken [OF making_stmt [of _ "mk_header STMT_2 eVoid op" "[dst, src]" L b]])
    (use assms in \<open>auto simp: stmt2_create_def base_weight_def intro: create_indirect_made\<close>)

lemma out_assign:
  assumes "parts L b dst" "parts L b src" "2 \<le> b" "op \<noteq> CASEST" "op \<noteq> DEFAULT" "op \<noteq> JUMP_IF"
  shows "runs L {} (cbind (assign_node op dst src) out_node) (\<lambda>_. True)"
  by (rule runs_bind0 [OF making_assign [OF assms(1-3)]])
    (use assms(4-6) in \<open>auto simp: structured_def parts_def intro: out_flat dest!: made_flat\<close>)

lemma add_assign_runs:
  assumes "calls k cn ce" "parts L b dst" "parts L b src" "2 \<le> b" "Suc b < k"
  shows "runs L {} (add_assign cn dst src) (\<lambda>_. True)"
  unfolding add_assign_def
  by (rule runs_bind0 [OF making_assign [OF assms(2-4)]])
    (use assms in \<open>auto simp: parts_def intro: add_node [OF assms(1)]\<close>)

lemma add_jump:
  assumes "calls k cn ce" "parts L b l" "parts L b test" "2 \<le> b" "Suc b < k"
  shows "runs L {} (cbind (jump_if_node l test) (\<lambda>j. compile_add cn j fl)) (\<lambda>_. True)"
  unfolding jump_if_node_def
  by (rule runs_bind0 [OF making_stmt [of _ "mk_header STMT_2 eVoid JUMP_IF" "[l, test]" L b]])
    (use assms in \<open>auto simp: stmt2_create_def base_weight_def parts_def intro: create_indirect_made add_node [OF assms(1)]\<close>)

lemma add_jump_unless_runs:
  assumes "calls k cn ce" "parts L b l" "parts L b x" "2 \<le> b" "Suc (Suc b) < k"
  shows "runs L {} (add_jump_unless cn l x fl) (\<lambda>_. True)"
  unfolding add_jump_unless_def not_node_def
  by (rule runs_bind0 [OF making_stmt [of _ "mk_header UNARY eBool (op1_code NOT1)" "[x]" L b]])
    (use assms in \<open>auto simp: unary_create_def unary_create_kind_def base_weight_def parts_def
       intro: create_indirect_made add_jump [OF assms(1), of L "Suc b"]\<close>)

lemma out_goto_runs:
  assumes "parts L b l" "2 \<le> b"
  shows "runs L {} (out_goto l) (\<lambda>_. True)"
  unfolding out_goto_def goto_node_def
  by (rule runs_bind0 [OF making_stmt [of _ "mk_header STMT_1 eVoid GOTO" "[l]" L b]])
    (use assms in \<open>auto simp: stmt1_create_def parts_def structured_def intro: create_indirect_made out_flat dest!: made_flat\<close>)

lemma new_var_runs: "2 \<le> b \<Longrightarrow> runs L {} (new_var k) (okx L b)"
  unfolding new_var_def by (rule runs_infunc) (use leaf_okx [of _ b L] in \<open>auto dest!: new_var_made\<close>)

lemma new_label_runs: "runs L {} new_label (\<lambda>l. l = bad_node \<or> (nty l = LABEL \<and> nkids l = [] \<and> node_valid l))"
  unfolding new_label_def by (rule runs_infunc) (use new_label_made in auto)

lemma label_parts: "l = bad_node \<or> (nty l = LABEL \<and> nkids l = []) \<Longrightarrow> lab l \<subseteq> L \<Longrightarrow> 2 \<le> b \<Longrightarrow> parts L b l"
  using label_only [of l L] by (simp add: parts_def)

lemma parts_mono: "parts L b n \<Longrightarrow> L \<subseteq> L' \<Longrightarrow> b \<le> b' \<Longrightarrow> parts L' b' n"
  using only_mono by (auto simp: parts_def)

lemma okx_expr: "only_labels L n \<Longrightarrow> is_expr_type (nty n) \<Longrightarrow> weight n \<le> b \<Longrightarrow> okx L b n"
  by (simp add: okx_def plain_expr)

definition labelish :: "node \<Rightarrow> bool" where
  "labelish l \<longleftrightarrow> l = bad_node \<or> (nty l = LABEL \<and> nkids l = [] \<and> node_valid l)"

lemma out_label': "labelish l \<Longrightarrow> runs L (lab l) (out_node l) (\<lambda>_. True)"
  by (rule out_label) (auto simp: labelish_def)

lemma label_parts': "labelish l \<Longrightarrow> lab l \<subseteq> L \<Longrightarrow> 2 \<le> b \<Longrightarrow> parts L b l"
  by (rule label_parts) (auto simp: labelish_def)

lemma out_label_then:
  "labelish l \<Longrightarrow> runs L D k X \<Longrightarrow> runs L (lab l \<union> D) (cthen (out_node l) k) X"
  by (rule runs_then [OF out_label'])

text \<open>A label that is created for a part of the code and put in it.\<close>

lemma with_label:
  assumes "\<And>l. labelish l \<Longrightarrow> runs (L \<union> lab l) (lab l) (f l) X"
  shows "runs L {} (cbind new_label f) X"
  by (rule runs_bind0 [OF new_label_runs]) (rule runs_discharge [OF assms], simp add: labelish_def)

subsection \<open>Expressions\<close>

lemma unary_runs:
  assumes "calls k cn ce" "only_labels L n" "nty n = UNARY" "weight n \<le> Suc k"
  shows "runs L {} (compile_unary ce n) (okx L (weight n))"
proof -
  define b where "b = weight n - 1"
  have b: "weight n = Suc b" "2 \<le> b" "b \<le> k"
    using weight_child [of n 0] weight_ge2 [of "child n 0"] assms(3,4) by (auto simp: b_def base_weight_def simp del: weight_ge2)
  have "okx L (Suc b) n" using assms(2,3) b by (intro okx_expr) (simp_all add: is_expr_type_def)
  then show ?thesis
    unfolding compile_unary_def Let_def b(1)
    by (intro runs_bind0 [OF call_child [OF assms(1,2), of b]] runs_if runs_ret
          making_expr [of _ "mk_header UNARY (if node_op1 n = NOT1 then eBool else nkind x) (op1_code (node_op1 n))" "[x]" L b for x])
      (use assms(3) b in \<open>auto simp: is_call_node_def base_weight_def is_expr_type_def unary_create_def unary_create_kind_def
        okx_parts intro: create_indirect_made\<close>)
qed

lemma land_runs:
  assumes "calls k cn ce" "okx L b x" "okx L b y" "2 \<le> b" "Suc (Suc b) < k"
  shows "runs L {} (simplify_land cn x y) (okx L b)"
proof -
  have tail: "runs L {} (cbind (new_var eBool) (\<lambda>dst. cbind new_label (\<lambda>label.
      cthen (if is_binary_comparison x then
          cthen (cbind (assign_node ASSIGN dst false_const) out_node) (add_jump_unless cn label x SimplifyDefault)
        else cthen (cbind (assign_node ASSIGN dst x) out_node) (add_jump_unless cn label dst SimplifyDefault))
      (cthen (add_assign cn dst y) (cthen (out_node label) (cret dst)))))) (okx L b)"
  proof (rule runs_bind0 [OF new_var_runs [OF assms(4)]], rule with_label)
    fix dst l assume d: "okx L b dst" and l: "labelish l"
    have p: "parts (L \<union> lab l) b dst" "parts (L \<union> lab l) b x" "parts (L \<union> lab l) b y" "parts (L \<union> lab l) b false_const" "parts (L \<union> lab l) b l"
      using d assms(2-4) l okx_parts parts_mono [of L b] leaf_okx [of false_const b]
      by (auto simp: false_const_def const_bool_def const_header_def intro: label_parts')
    have out: "runs (L \<union> lab l) (lab l) (cthen (out_node l) (cret dst)) (okx L b)"
      using out_label_then [OF l runs_ret [of "okx L b", OF d]] by simp
    show "runs (L \<union> lab l) (lab l) (cthen (if is_binary_comparison x then
          cthen (cbind (assign_node ASSIGN dst false_const) out_node) (add_jump_unless cn l x SimplifyDefault)
        else cthen (cbind (assign_node ASSIGN dst x) out_node) (add_jump_unless cn l dst SimplifyDefault))
      (cthen (add_assign cn dst y) (cthen (out_node l) (cret dst)))) (okx L b)"
      using p assms(1,4,5)
      by (intro runs_then0 [OF _ runs_then0 [OF _ out]] runs_then0 [OF out_assign [of _ b]] runs_if add_jump_unless_runs [of k cn ce _ b] add_assign_runs [of k cn ce _ b]) auto
  qed
  show ?thesis
    unfolding simplify_land_def Let_def
    by (intro runs_if runs_ret tail runs_then0 [OF out_plain]) (use assms(2-4) in \<open>auto simp: okx_def\<close>)
qed

lemma lor_runs:
  assumes "calls k cn ce" "okx L b x" "okx L b y" "2 \<le> b" "Suc (Suc b) < k"
  shows "runs L {} (simplify_lor cn x y) (okx L b)"
proof -
  have tail: "runs L {} (cbind (new_var eBool) (\<lambda>dst. cbind new_label (\<lambda>label.
      cthen (if is_binary_comparison x then
          cthen (cbind (assign_node ASSIGN dst true_const) out_node) (cbind (jump_if_node label x) (\<lambda>j. compile_add cn j SimplifyDefault))
        else cthen (cbind (assign_node ASSIGN dst x) out_node) (cbind (jump_if_node label dst) (\<lambda>j. compile_add cn j SimplifyDefault)))
      (cthen (add_assign cn dst y) (cthen (out_node label) (cret dst)))))) (okx L b)"
  proof (rule runs_bind0 [OF new_var_runs [OF assms(4)]], rule with_label)
    fix dst l assume d: "okx L b dst" and l: "labelish l"
    have p: "parts (L \<union> lab l) b dst" "parts (L \<union> lab l) b x" "parts (L \<union> lab l) b y" "parts (L \<union> lab l) b true_const" "parts (L \<union> lab l) b l"
      using d assms(2-4) l okx_parts parts_mono [of L b] leaf_okx [of true_const b]
      by (auto simp: true_const_def const_bool_def const_header_def intro: label_parts')
    have out: "runs (L \<union> lab l) (lab l) (cthen (out_node l) (cret dst)) (okx L b)"
      using out_label_then [OF l runs_ret [of "okx L b", OF d]] by simp
    show "runs (L \<union> lab l) (lab l) (cthen (if is_binary_comparison x then
          cthen (cbind (assign_node ASSIGN dst true_const) out_node) (cbind (jump_if_node l x) (\<lambda>j. compile_add cn j SimplifyDefault))
        else cthen (cbind (assign_node ASSIGN dst x) out_node) (cbind (jump_if_node l dst) (\<lambda>j. compile_add cn j SimplifyDefault)))
      (cthen (add_assign cn dst y) (cthen (out_node l) (cret dst)))) (okx L b)"
      using p assms(1,4,5)
      by (intro runs_then0 [OF _ runs_then0 [OF _ out]] runs_then0 [OF out_assign [of _ b]] runs_if add_jump [of k cn ce _ b] add_assign_runs [of k cn ce _ b]) auto
  qed
  show ?thesis
    unfolding simplify_lor_def Let_def
    by (intro runs_if runs_ret tail runs_then0 [OF out_plain]) (use assms(2-4) in \<open>auto simp: okx_def\<close>)
qed

lemma boolean_runs:
  assumes "calls k cn ce" "okx L b x" "okx L b y" "2 \<le> b" "Suc (Suc b) < k"
  shows "runs L {} (compiler_simplify_boolean cn op x y) (okx L b)"
  unfolding compiler_simplify_boolean_def using assms(4)
  by (intro runs_if land_runs [OF assms] lor_runs [OF assms] runs_ret) simp

lemma weight_split:
  assumes "is_expr_type (nty n) \<or> nty n \<in> {STMT_1, STMT_2, STMT_3, STMT_4, STMT_N}"
  obtains b where "weight n = base_weight (nty n) + b" "2 \<le> b" "\<And>i. weight (child n i) \<le> b" "\<And>x. x \<in> set (nkids n) \<Longrightarrow> weight x \<le> b"
proof
  show "weight n = base_weight (nty n) + (weight n - base_weight (nty n))"
    using weight_child [of n 0] by linarith
  show "2 \<le> weight n - base_weight (nty n)"
    using weight_child [of n 0] weight_ge2 [of "child n 0"] by linarith
  show "weight (child n i) \<le> weight n - base_weight (nty n)" for i using weight_child [of n i] by linarith
  show "weight x \<le> weight n - base_weight (nty n)" if "x \<in> set (nkids n)" for x
    using weight_kid [OF that] by linarith
qed

lemma binary_runs:
  assumes "calls k cn ce" "only_labels L n" "nty n = BINARY" "weight n \<le> Suc k"
  shows "runs L {} (compile_binary cn ce n fl) (okx L (weight n))"
proof -
  obtain b where b: "weight n = base_weight (nty n) + b" "2 \<le> b" by (rule weight_split [of n]) (use assms(3) in \<open>simp add: is_expr_type_def\<close>)
  have w: "weight n = 6 + b" using b(1) assms(3) by (simp add: base_weight_def)
  have n: "okx L (6 + b) n" using assms(2,3) w by (intro okx_expr) (simp_all add: is_expr_type_def)
  have kid: "runs L {} (ce (as_expr (child n i)) SimplifyAll) (okx L b)" for i
    using assms w b by (intro call_child) (auto simp: is_call_node_def base_weight_def)
  have mk: "runs L {} (making (\<lambda>f. binary_create f op x y)) (okx L (6 + b))" if "okx L b x" "okx L b y" for op x y
    by (rule making_expr [of _ "mk_header BINARY (binary_kind op x) (op2_code op)" "[x, y]" L b])
      (use that b in \<open>auto simp: binary_create_def is_expr_type_def base_weight_def okx_parts intro: create_indirect_made\<close>)
  show ?thesis
    unfolding compile_binary_def Let_def w
  proof (intro runs_bind0 [OF kid])
    fix x y assume xy: "okx L b x" "okx L b y"
    have bool: "runs L {} (if fl AND SimplifyLandLor \<noteq> 0 then compiler_simplify_boolean cn (node_op2 n) x y else cret bad_node) (okx L b)"
      using assms(4) w b by (intro runs_if boolean_runs [OF assms(1) xy] runs_ret) simp_all
    show "runs L {} (cbind (if fl AND SimplifyLandLor \<noteq> 0 then compiler_simplify_boolean cn (node_op2 n) x y else cret bad_node)
      (\<lambda>expr2. if node_valid expr2 then cret expr2
        else if \<not> node_same (as_expr (child n 0)) x \<or> \<not> node_same (as_expr (child n 1)) y
          then making (\<lambda>f. binary_create f (node_op2 n) x y) else cret n)) (okx L (6 + b))"
      by (intro runs_bind0 [OF bool] runs_if runs_ret mk [OF xy] n) (auto intro: okx_mono)
  qed
qed

lemma to_var_runs:
  assumes "calls k cn ce" "only_labels L n" "weight n \<le> b" "2 \<le> b" "Suc b < k"
  shows "runs L {} (to_var cn n) (okx L b)"
proof -
  have v: "okx L b (as_var n)"
    using assms(2-4) by (auto simp: as_var_def downcast_def plain_def okx_def)
  have e: "parts L b (as_expr n)" using okx_parts [OF okx_as_expr [OF assms(2,3)]] .
  show ?thesis
    unfolding to_var_def Let_def
    by (intro runs_if runs_ret v runs_bind0 [OF new_var_runs [OF assms(4)]] runs_then0 [OF add_assign_runs [OF assms(1) _ e assms(4,5)]])
      (auto simp: okx_parts)
qed

lemma to_var_const_runs:
  assumes "calls k cn ce" "only_labels L n" "weight n \<le> b" "2 \<le> b" "Suc b < k"
  shows "runs L {} (to_var_const cn n) (okx L b)" "runs L {} (to_var_mem_const cn n) (okx L b)"
  unfolding to_var_const_def to_var_mem_const_def
  by (intro runs_if runs_ret okx_as_expr to_var_runs [OF assms] assms)+

lemma to_place_runs:
  assumes "calls k cn ce" "only_labels L n" "weight n \<le> b" "2 \<le> b" "b \<le> k"
  shows "runs L {} (to_place cn ce n) (only_labels L)"
proof (cases "node_valid (as_mem n)")
  case False
  then show ?thesis using okx_as_expr [OF assms(2,3)] by (auto simp: to_place_def okx_def)
next
  case True
  then have m: "as_mem n = n" "nty n = MEM" "\<not> is_call_node (nhead n)"
    by (auto simp: as_mem_def downcast_def is_call_node_def split: if_splits)
  obtain d where d: "weight n = base_weight (nty n) + d" "2 \<le> d" "\<And>x. x \<in> set (nkids n) \<Longrightarrow> weight x \<le> d"
    by (rule weight_split [of n]) (use m in \<open>auto simp: is_expr_type_def\<close>)
  have kids: "\<forall>x\<in>set (nkids n). parts L d x"
    using assms(2) m(3) d(3) by (cases n) (auto simp: parts_def split: if_splits)
  have w: "6 + d + 4 \<le> b" using d(1) m(2) assms(3) by (simp add: base_weight_def)
  have address: "runs L {} (making (\<lambda>f. tuple_create_range f ePtr ADDN (n, 0, children n))) (okx L (6 + d))"
    by (rule making_expr [OF tuple_range_made _ _ kids]) (use d(2) in \<open>auto simp: is_expr_type_def base_weight_def\<close>)
  have mem: "runs L {} (making (\<lambda>f. mem_create f (nkind n) MEM_OP [a])) (only_labels L)" if "okx L (6 + d) a" for a
    by (rule runs_weaken [OF making_stmt [of _ "mk_header MEM (nkind n) (opn_code MEM_OP)" "[a]" L "6 + d"]])
      (use that okx_parts in \<open>auto simp: mem_create_def parts_def intro: create_indirect_made\<close>)
  have eq: "to_place cn ce n = cbind (making (\<lambda>f. tuple_create_range f ePtr ADDN (n, 0, children n))) (\<lambda>address.
      cbind (ce address SimplifyAll) (\<lambda>address. cbind (to_var_const cn address) (\<lambda>address.
        making (\<lambda>f. mem_create f (nkind n) MEM_OP [address]))))"
    using True m(1) by (simp add: to_place_def)
  show ?thesis
    unfolding eq
    by (intro runs_bind0 [OF address] runs_bind0 [OF call_expr [OF assms(1), of L _ "6 + d"]]
        runs_bind0 [OF to_var_const_runs(1) [OF assms(1), of L _ "6 + d"]] mem)
      (use w assms(5) d(2) in \<open>auto simp: okx_def\<close>)
qed

lemma map_children_runs:
  assumes "\<And>i. start \<le> i \<Longrightarrow> i < stop \<Longrightarrow> runs L {} (g (child n i)) Y"
  shows "runs L {} (map_children g n start stop) (list_all Y)"
proof -
  have "runs L {} (cmap g (map (child n) [start..<stop])) (list_all Y)"
    by (rule runs_weaken [OF runs_map [of _ L g "\<lambda>_. Y"]]) (use assms in \<open>auto simp: list_all2_conv_all_nth list_all_length\<close>)
  then show ?thesis
    unfolding map_children_def
    by (intro runs_bind0 [OF runs_get [of "\<lambda>_. True"]] runs_if runs_then0 [OF runs_oom] runs_ret) auto
qed

text \<open>An assignment and a statement with any number of children have no jump, whatever their children are.\<close>

lemma out_no_jump:
  assumes "made h kids n" "\<not> structured (Node h 0 True [] kids)" "\<not> jumps_away (Node h 0 True [] kids)"
  shows "runs L {} (out_node n) (\<lambda>_. True)"
proof (cases "n = bad_node")
  case True
  then show ?thesis by (simp add: out_plain)
next
  case False
  then obtain off where n: "n = Node h off True [] kids" using assms(1) by (auto simp: made_def)
  have "jumps_away n \<longleftrightarrow> jumps_away (Node h 0 True [] kids)"
    unfolding n by (simp add: jumps_away_def is_jump_def is_uncond_jump_def is_cond_jump_def is_return_def jump_label_def
        child_def children_def split: ntype.split)
  then have "targets [n] = {}" using assms(3) by (auto simp: targets_def)
  then show ?thesis
    using made_flat [OF assms(1,2)] by (intro runs_weaken [OF runs_out_node]) auto
qed

lemma xbegin: "enum_code opstmt2_rows ''X86_XBEGIN'' > 14"
  by code_simp

lemma out_any_assign:
  assumes "is_assign op"
  shows "runs L {} (cbind (assign_node op dst src) out_node) (\<lambda>_. True)"
  unfolding assign_node_def
  by (rule runs_bind0 [OF runs_making [of _ "made (mk_header STMT_2 eVoid op) [dst, src]"]])
    (use assms xbegin in \<open>auto simp: stmt2_create_def structured_def jumps_away_def is_jump_def is_uncond_jump_def
        is_cond_jump_def is_return_def is_assign_def word_le_nat_alt word_less_nat_alt
      intro: create_indirect_made intro!: out_no_jump\<close>)

lemma call_runs:
  assumes "calls k cn ce" "only_labels L call" "\<And>i. weight (child call i) \<le> b" "2 \<le> b" "Suc b < k"
  shows "runs L {} (compile_call cn call fl) (\<lambda>x. fl AND SimplifyCall \<noteq> 0 \<longrightarrow> okx L b x)"
proof -
  have args: "runs L {} (to_vars cn call 2 (children call)) (list_all (okx L b))"
    unfolding to_vars_def
  proof (rule map_children_runs)
    fix i assume i: "2 \<le> i" "i < children call"
    show "runs L {} (to_var cn (child call i)) (okx L b)"
      by (rule to_var_runs [OF assms(1) only_arg [OF assms(2) i(1)] assms(3-5)])
  qed
  have any: "runs L {} (infunc g) (\<lambda>_. True)" for g :: "func \<Rightarrow> func \<times> node" by (rule runs_infunc) simp
  show ?thesis
    unfolding compile_call_def Let_def
    by (rule runs_bind0 [of _ _ "\<lambda>_. True"], intro runs_if runs_ret TrueI runs_bind0 [OF args] any,
        intro runs_if runs_ret runs_bind0 [OF new_var_runs [OF assms(4)]] runs_then0 [OF out_any_assign])
      (auto simp: is_assign_def)
qed

lemma tuple_runs:
  assumes "calls k cn ce" "only_labels L n" "nty n = TUPLE \<or> nty n = MEM" "weight n \<le> Suc k" "fl AND SimplifyCall \<noteq> 0"
  shows "runs L {} (compile_tuple cn n fl) (okx L (weight n))"
proof -
  obtain b where b: "weight n = base_weight (nty n) + b" "2 \<le> b" "\<And>x. x \<in> set (nkids n) \<Longrightarrow> weight x \<le> b"
      "\<And>i. weight (child n i) \<le> b"
    by (rule weight_split [of n]) (use assms(3) in \<open>auto simp: is_expr_type_def\<close>)
  have w: "6 + b \<le> weight n" "Suc b < k" "weight n \<le> 6 + (weight n - 6)" "2 \<le> weight n - 6"
    using b(1,2) assms(3,4) by (auto simp: base_weight_def)
  have n: "okx L (weight n) n" using assms(2,3) by (intro okx_expr) (auto simp: is_expr_type_def)
  have small: "okx L (weight n) x" if "okx L b x" for x using okx_mono [OF that order_refl, of "weight n"] w(1) by simp
  show ?thesis
  proof (cases "node_valid (as_call n)")
    case True
    then have c: "as_call n = n" by (auto simp: as_call_def downcast_def split: if_splits)
    have "compile_tuple cn n fl = compile_call cn n fl" using True c by (simp add: compile_tuple_def)
    then show ?thesis
      using runs_weaken [OF call_runs [OF assms(1,2) b(4,2) w(2), where fl = fl], of "okx L (weight n)"] assms(5) small by simp
  next
    case False
    then have nc: "\<not> is_call_node (nhead n)"
      by (auto simp: as_call_def downcast_def is_call_node_def node_valid_def split: if_splits)
    have kid: "runs L {} (cbind (cn x fl) (to_var_mem_const cn)) (okx L b)" if "x \<in> set (nkids n)" for x
    proof (rule runs_bind0 [OF call_node [OF assms(1), of L x b]])
      show "only_labels L x" using assms(2) nc that by (cases n) auto
      show "weight x < k" "weight x \<le> b" using b(3) [OF that] w(2) by simp_all
      show "runs L {} (to_var_mem_const cn y) (okx L b)" if "okx L b y" for y
        using that by (intro to_var_const_runs(2) [OF assms(1) _ _ b(2) w(2)]) (auto simp: okx_def)
    qed
    have kids: "runs L {} (cmap (\<lambda>x. cbind (cn x fl) (to_var_mem_const cn)) (nkids n)) (\<lambda>ys. length ys = length (nkids n) \<and> list_all (okx L b) ys)"
      by (rule runs_weaken [OF runs_map [of _ L _ "\<lambda>_. okx L b"]]) (use kid in \<open>auto simp: list_all2_conv_all_nth list_all_length\<close>)
    have const: "runs L {} (infunc (\<lambda>f. const_create f v)) (okx L (weight n))" for v
      by (rule runs_infunc) (use leaf_okx [of _ "weight n" L] in \<open>auto dest!: const_create_made\<close>)
    have mk: "runs L {} (making (\<lambda>f. tuple_create f (nkind n) op ys)) (okx L (weight n))" if "list_all (okx L b) ys" for op ys
      by (rule making_expr [of _ "mk_header TUPLE (nkind n) (opn_code op)" ys L b])
        (use that w b(2) in \<open>auto simp: tuple_create_def is_expr_type_def base_weight_def list_all_iff okx_parts intro: create_indirect_made\<close>)
    have hd: "okx L (weight n) (as_expr (hd ys))" if "length ys = children n" "list_all (okx L b) ys" "children n = 1" for ys
    proof -
      have "okx L b (hd ys)" using that by (cases ys) auto
      then show ?thesis by (intro small okx_as_expr) (simp_all add: okx_def)
    qed
    show ?thesis
      unfolding compile_tuple_def if_not_P [OF False]
      by (intro runs_bind0 [OF runs_get [of "\<lambda>_. True"]] runs_if runs_then0 [OF runs_oom] runs_ret n runs_bind0 [OF kids]
          runs_bind0 [OF runs_ub [of "\<lambda>_. True"]] const mk hd) (auto simp: children_def)
  qed
qed

lemma dispatch_expr_runs:
  assumes "calls k cn ce" "only_labels L n" "plain n" "weight n \<le> Suc k"
  shows "runs L {} (dispatch_expr cn ce n fl) (okx L (weight n))"
  unfolding dispatch_expr_def
  by (intro runs_if unary_runs [OF assms(1,2) _ assms(4)] binary_runs [OF assms(1,2) _ assms(4)] tuple_runs [OF assms(1,2) _ assms(4)] runs_ret)
    (use assms in \<open>auto simp: okx_def\<close>)

subsection \<open>Simple statements\<close>

lemma runs_void: "runs L D m (\<lambda>_. True) \<Longrightarrow> 2 \<le> b \<Longrightarrow> runs L D (cthen m (cret void_const)) (okx L b)"
  using runs_then [of L D m "{}" "cret void_const" "okx L b"] leaf_okx [of void_const b L]
  by (auto simp: void_const_def const_small_def const_header_def)

lemma out_stmt:
  "\<not> structured n \<Longrightarrow> only_labels L n \<Longrightarrow> 2 \<le> b \<Longrightarrow> runs L {} (cthen (out_node n) (cret void_const)) (okx L b)"
  by (intro runs_void out_flat)

lemma top_label_in: "node_valid (top_label a) \<Longrightarrow> top_label a \<in> set (elems a)"
  by (simp add: top_label_def split: if_splits)

lemma out_jump_to_runs:
  assumes "\<And>c. node_valid (g c) \<Longrightarrow> lab (g c) \<subseteq> slabels c"
  shows "runs L {} (out_jump_to (cget g) n msg) (\<lambda>_. True)"
  unfolding runs_def
proof
  fix c
  have "out_jump_to (cget g) n msg c = (if node_valid (g c) then out_goto (g c) c else out_error n msg c)"
    by (simp add: out_jump_to_def cbind_def cget_def)
  moreover have "runs_at c L {} (out_goto (g c)) (\<lambda>_. True)" if v: "node_valid (g c)"
  proof -
    have any: "runs (lab (g c)) {} (out_goto (g c)) (\<lambda>_. True)"
      unfolding out_goto_def goto_node_def
    proof (rule runs_bind0 [OF runs_making [of _ "made (mk_header STMT_1 eVoid GOTO) [g c]"]])
      fix x assume x: "made (mk_header STMT_1 eVoid GOTO) [g c] x"
      have "targets [x] \<subseteq> lab (g c)"
        using x bad_flat(2) by (auto simp: made_def targets_def jumps_away_def jump_label_def child_def children_def as_label_def
            downcast_def lab_def is_label_def split: if_splits)
      then show "runs (lab (g c)) {} (out_node x) (\<lambda>_. True)"
        using made_flat [OF x] by (intro runs_weaken [OF runs_out_node]) (auto simp: structured_def)
    qed (auto simp: stmt1_create_def intro: create_indirect_made)
    show ?thesis
      by (rule runs_at_mono [OF any [unfolded runs_def, rule_format, of c]]) (use assms [OF v] in auto)
  qed
  ultimately show "runs_at c L {} (out_jump_to (cget g) n msg) (\<lambda>_. True)"
    using runs_out_error [of L n msg] by (simp add: runs_def runs_at_def)
qed

lemma stmt0_runs: "2 \<le> b \<Longrightarrow> runs L {} (compile_stmt0 n) (okx L b)"
  unfolding compile_stmt0_def label_break_def label_continue_def label_fallthrough_def
  by (intro runs_void runs_if out_jump_to_runs runs_out_error) (auto simp: slabels_def dest: top_label_in)

end
