(* ===== verification/Compiler_Statements.thy ===== *)
theory Compiler_Statements imports Compiler_Sound begin

text \<open>
  The judgement \<open>runs\<close> for the statements, and for \<open>compile(Node)\<close> and \<open>compile(Expr)\<close> with fuel for the weight of
  the node.
\<close>

subsection \<open>Computations that emit nothing but a given node\<close>

definition outable :: "u16 set \<Rightarrow> node \<Rightarrow> bool" where
  "outable L n \<longleftrightarrow> runs L {} (out_node n) (\<lambda>_. True)"

lemma out_void: "outable L n \<Longrightarrow> 2 \<le> b \<Longrightarrow> runs L {} (cthen (out_node n) (cret void_const)) (okx L b)"
  unfolding outable_def by (rule runs_void)

lemma outable_flat: "\<not> structured n \<Longrightarrow> only_labels L n \<Longrightarrow> outable L n"
  unfolding outable_def by (rule out_flat)

lemma outable_no_jump:
  "made h kids n \<Longrightarrow> \<not> structured (Node h 0 True [] kids) \<Longrightarrow> \<not> jumps_away (Node h 0 True [] kids) \<Longrightarrow> outable L n"
  unfolding outable_def by (rule out_no_jump)

lemma outable_bad [simp]: "outable L bad_node"
  unfolding outable_def by (simp add: out_plain)

lemma cthen_assoc: "cthen (cthen m k) h = cthen m (cthen k h)"
  by (rule ext) (simp add: cthen_def cbind_def rbind_def split: sum.splits)

lemma cbind_cthen: "cbind (cthen m k) h = cthen m (cbind k h)"
  by (rule ext) (simp add: cthen_def cbind_def rbind_def split: sum.splits)

lemma cbind_assoc: "cbind (cbind m k) h = cbind m (\<lambda>x. cbind (k x) h)"
  by (rule ext) (simp add: cbind_def rbind_def split: sum.splits prod.splits)

lemma cbind_ret [simp]: "cbind (cret x) k = k x"
  by (rule ext) (simp add: cbind_def cret_def)

lemma cwhen_simps [simp]: "cwhen True m = m" "cwhen False m = cret ()" "cthen (cret ()) k = k"
  by (simp_all add: cwhen_def cthen_def)

text \<open>A label that is created while others are still to be put in the code.\<close>

lemma with_label_more:
  assumes "\<And>l. labelish l \<Longrightarrow> runs (L \<union> lab l) (D \<union> lab l) (f l) X"
  shows "runs L D (cbind new_label f) X"
proof (rule runs_bind0 [OF new_label_runs])
  fix l assume "l = bad_node \<or> (nty l = LABEL \<and> nkids l = [] \<and> node_valid l)"
  then have "runs (L \<union> lab l) (D \<union> lab l) (f l) X" using assms by (simp add: labelish_def)
  then show "runs L D (f l) X" by (rule runs_mono) auto
qed

lemma runs_seq: "runs L D1 m (\<lambda>_. True) \<Longrightarrow> runs L D2 k X \<Longrightarrow> D \<subseteq> D1 \<union> D2 \<Longrightarrow> runs L D (cthen m k) X"
  by (rule runs_mono [OF runs_then]) auto

lemma out_label_seq: "labelish l \<Longrightarrow> runs L D' k X \<Longrightarrow> D \<subseteq> lab l \<union> D' \<Longrightarrow> runs L D (cthen (out_node l) k) X"
  by (rule runs_seq [OF out_label'])

subsection \<open>Assignments and jumps\<close>

lemma stmt1_runs:
  assumes "calls k cn ce" "only_labels L n" "nty n = STMT_1" "weight n \<le> k"
  shows "runs L {} (compile_stmt1 ce n) (okx L 2)"
proof -
  obtain b where b: "weight n = base_weight (nty n) + b" "2 \<le> b" by (rule weight_split [of n]) (use assms(3) in simp)
  have w: "b \<le> k" "\<not> is_call_node (nhead n)" using b assms(3,4) by (auto simp: is_call_node_def)
  have mk: "runs L {} (making (\<lambda>f. stmt1_create f x (nop n))) (outable L)" if "okx L b x" for x
    by (rule runs_weaken [OF making_stmt [of _ "mk_header STMT_1 eVoid (nop n)" "[x]" L b]])
      (use that b(2) in \<open>auto simp: stmt1_create_def okx_def parts_def structured_def
        intro: create_indirect_made intro!: outable_flat dest!: made_flat\<close>)
  have n: "outable L n" using assms(2,3) by (intro outable_flat) (auto simp: structured_def)
  show ?thesis
    unfolding compile_stmt1_def Let_def
    by (intro runs_bind0 [OF call_child [OF assms(1,2) w(2), of b]] runs_bind0 [of _ _ "outable L"] runs_if runs_ret mk out_void n)
      (use b w in auto)
qed

lemma assign_runs:
  assumes "calls k cn ce" "only_labels L n" "nty n = STMT_2" "is_assign (nop n)" "weight n \<le> k"
  shows "runs L {} (compile_assign cn ce n) (okx L 2)"
proof -
  obtain b where b: "weight n = base_weight (nty n) + b" "2 \<le> b" by (rule weight_split [of n]) (use assms(3) in simp)
  have w: "b \<le> k" "\<not> is_call_node (nhead n)" using b assms(3,5) by (auto simp: is_call_node_def)
  have expr: "runs L {} (ce (as_expr (child n i)) fl) (okx L b)" for i fl
    using assms(2) b w by (intro call_child [OF assms(1)]) auto
  have mk: "runs L {} (assign_node (nop n) dst src) (outable L)" for dst src
    unfolding assign_node_def
    by (rule runs_making) (use assms(4) xbegin in \<open>auto simp: stmt2_create_def structured_def jumps_away_def is_jump_def is_uncond_jump_def
        is_cond_jump_def is_return_def is_assign_def word_le_nat_alt word_less_nat_alt
        dest!: create_indirect_made intro!: outable_no_jump\<close>)
  have n: "outable L n"
    using assms(2-4) by (intro outable_flat) (auto simp: structured_def is_assign_def word_le_nat_alt)
  show ?thesis
    unfolding compile_assign_def Let_def
    by (intro runs_bind0 [OF runs_bind0 [OF expr to_place_runs [OF assms(1) _ _ b(2) w(1)]]] runs_bind0 [OF expr]
        runs_bind0 [of _ _ "outable L"] runs_if runs_ret mk n out_void) (auto simp: okx_def)
qed

lemma condjump_not_if: "comparison_to_condjump op s \<noteq> IFST" "negate_condjump (comparison_to_condjump op s) \<noteq> IFST"
  by (cases op; simp add: comparison_to_condjump_def negate_condjump_def)+

lemma jump_if_runs:
  assumes "calls k cn ce" "only_labels L n" "nty n = STMT_2" "weight n \<le> k"
  shows "runs L {} (compile_jump_if ce n) (okx L 2)"
proof -
  obtain b where b: "weight n = base_weight (nty n) + b" "2 \<le> b" by (rule weight_split [of n]) (use assms(3) in simp)
  have w: "b \<le> k" "\<not> is_call_node (nhead n)" using b assms(3,4) by (auto simp: is_call_node_def)
  define to where "to = as_label (child n 0)"
  have to: "only_labels L to" unfolding to_def as_label_def by (intro only_downcast only_child assms w)
  then have goto: "runs L {} (out_goto to) (\<lambda>_. True)"
    by (intro out_goto_runs [of _ "weight to"]) (auto simp: parts_def)
  have label: "lab to \<subseteq> L" using to by (cases to) (auto simp: lab_def is_label_def label_index_def)
  have mk: "runs L {} (making (\<lambda>f. stmt3_create f op [to, x, y])) (outable L)" if "op \<noteq> IFST" for op x y
  proof (rule runs_making)
    fix f f' n assume "stmt3_create f op [to, x, y] = Some (f', n)"
    then have m: "made (mk_header STMT_3 eVoid op) [to, x, y] n" by (auto simp: stmt3_create_def dest: create_indirect_made)
    have "targets [n] \<subseteq> L"
      using m label bad_flat(2) by (auto simp: made_def targets_def jumps_away_def jump_label_def child_def children_def
          as_label_def downcast_def lab_def is_label_def split: if_splits)
    then show "outable L n"
      using made_flat [OF m] that unfolding outable_def by (intro runs_weaken [OF runs_out_node]) (auto simp: structured_def)
  qed
  show ?thesis
    unfolding compile_jump_if_def Let_def to_def [symmetric]
    by (intro runs_bind0 [OF call_child [OF assms(1,2) w(2), of b]])
      (use assms(3) b w in \<open>auto split: prod.splits simp: condjump_not_if
        intro!: runs_bind0 [of _ _ "\<lambda>_. True"] runs_ub runs_ret runs_void runs_when goto
          runs_bind0 [OF mk] out_void\<close>)
qed

lemma stmt2_runs:
  assumes "calls k cn ce" "only_labels L n" "nty n = STMT_2" "weight n \<le> k"
  shows "runs L {} (compile_stmt2 cn ce n) (okx L 2)"
proof -
  have void: "okx L 2 void_const" by (rule leaf_okx) (simp_all add: void_const_def const_small_def const_header_def)
  show ?thesis
    unfolding compile_stmt2_def
    by (intro runs_if jump_if_runs [OF assms] assign_runs [OF assms(1-3) _ assms(4)] runs_error_out targets_only out_void outable_flat void)
      (use assms in \<open>auto simp: structured_def\<close>)
qed

subsection \<open>Structured statements\<close>

lemma add_child:
  assumes "calls k cn ce" "only_labels L n" "\<not> is_call_node (nhead n)" "weight (child n i) < k"
  shows "runs L {} (compile_add cn (child n i) fl) (\<lambda>_. True)"
  by (rule add_node [OF assms(1) only_child [OF assms(2,3)] assms(4)])

lemma void_after: "runs L D m (\<lambda>_. True) \<Longrightarrow> runs L D (cthen m (cret void_const)) (okx L' 2)"
  using runs_then [of L D m "{}" "cret void_const" "okx L' 2"] leaf_okx [of void_const 2 L']
  by (auto simp: void_const_def const_small_def const_header_def)

lemma if_runs:
  assumes "calls k cn ce" "only_labels L n" "nty n = STMT_3" "weight n \<le> k"
  shows "runs L {} (compile_if cn ce n) (okx L 2)"
proof -
  obtain b where b: "weight n = base_weight (nty n) + b" "2 \<le> b" "\<And>i. weight (child n i) \<le> b"
    by (rule weight_split [of n]) (use assms(3) in auto)
  have w: "b + 12 \<le> k" "\<not> is_call_node (nhead n)" using b assms(3,4) by (auto simp: is_call_node_def base_weight_def)
  have small: "weight (child n i) < k" for i using b(3) [of i] w(1) by simp
  have part: "runs (L \<union> M) {} (compile_add cn (child n i) fl) (\<lambda>_. True)" for i fl M
    using only_mono [OF assms(2)] by (intro add_child [OF assms(1) _ w(2) small]) auto
  have jump: "runs (L \<union> M) {} (add_jump_unless cn l test fl) (\<lambda>_. True)"
    if "okx L b test" "labelish l" "lab l \<subseteq> M" for test l fl M
    using that w(1) b(2) okx_parts [OF okx_mono [OF that(1)]]
    by (intro add_jump_unless_runs [OF assms(1), of _ b]) (auto intro: label_parts')
  have goto: "runs (L \<union> M) {} (out_goto l) (\<lambda>_. True)" if "labelish l" "lab l \<subseteq> M" for l M
    using that by (intro out_goto_runs [of _ 2] label_parts') auto
  have else_code: "runs L {} (cbind new_label (\<lambda>l1. cbind new_label (\<lambda>l2.
      cthen (add_jump_unless cn l1 test SimplifyCall) (cthen (compile_add cn (child n 1) SimplifyCall)
     (cthen (cthen (out_goto l2) (cthen (out_node l1) (compile_add cn (child n 2) SimplifyCall)))
     (cthen (out_node l2) (cret void_const))))))) (okx L 2)" if t: "okx L b test" for test
  proof (intro with_label with_label_more)
    fix l1 l2 assume l: "labelish l1" "labelish l2"
    let ?L = "L \<union> lab l1 \<union> lab l2"
    have L: "?L = L \<union> (lab l1 \<union> lab l2)" by auto
    have mid: "runs ?L (lab l1) (cthen (out_goto l2) (cthen (out_node l1) (compile_add cn (child n 2) SimplifyCall))) (\<lambda>_. True)"
      using runs_then [OF out_label' [OF l(1)] part [of "lab l1 \<union> lab l2" 2 SimplifyCall]] l
      unfolding L by (intro runs_then0 [OF goto]) auto
    have last: "runs ?L (lab l2) (cthen (out_node l2) (cret void_const)) (okx L 2)"
      by (intro void_after out_label' l)
    show "runs ?L (lab l1 \<union> lab l2) (cthen (add_jump_unless cn l1 test SimplifyCall) (cthen (compile_add cn (child n 1) SimplifyCall)
     (cthen (cthen (out_goto l2) (cthen (out_node l1) (compile_add cn (child n 2) SimplifyCall)))
     (cthen (out_node l2) (cret void_const))))) (okx L 2)"
      unfolding L by (intro runs_then0 [OF jump [OF t l(1)]] runs_then0 [OF part] runs_then [OF mid [unfolded L] last [unfolded L]]) auto
  qed
  have no_else: "runs L {} (cbind new_label (\<lambda>l1.
      cthen (add_jump_unless cn l1 test SimplifyCall) (cthen (compile_add cn (child n 1) SimplifyCall)
     (cthen (out_node l1) (cret void_const))))) (okx L 2)" if t: "okx L b test" for test
    by (intro with_label runs_then0 [OF jump [OF t]] runs_then0 [OF part] void_after out_label') auto
  have const: "runs L {} (cthen (compile_add cn (if q then child n 1 else child n 2) SimplifyCall) (cret void_const)) (okx L 2)" for q
    using part [of "{}"] by (intro void_after) auto
  have expr: "runs L {} (ce (as_expr (child n 0)) SimplifyCall) (okx L b)"
    using assms(2) b w by (intro call_child [OF assms(1)]) auto
  show ?thesis
  proof (cases "nty (child n 2) = CONSTN")
    case True
    show ?thesis
      unfolding compile_if_def Let_def
      by (intro runs_bind0 [OF expr] runs_if const) (use True no_else in simp)
  next
    case False
    show ?thesis
      unfolding compile_if_def Let_def
      by (intro runs_bind0 [OF expr] runs_if const) (use False else_code in simp)
  qed
qed

text \<open>The labels of a loop or a case are on the stacks while its body is compiled.\<close>

lemma stack_emits:
  assumes "runs L D m (\<lambda>_. True)"
    "\<And>c. let c1 = g c in cgood c1 \<longrightarrow> cgood c \<and> slabels c1 \<subseteq> slabels c \<union> L \<and> emitted c1 = emitted c \<and> errors c1 = errors c"
    "\<And>c c2. let c1 = g c; c3 = h c2 in cgood c1 \<and> cgood c3 \<longrightarrow> cgood c2 \<and> emitted c3 = emitted c2 \<and> errors c3 = errors c2 \<and>
      (elems (breaks c2) = elems (breaks c1) \<and> elems (continues c2) = elems (continues c1) \<and>
         elems (fallthroughs c2) = elems (fallthroughs c1) \<longrightarrow>
       elems (breaks c3) = elems (breaks c) \<and> elems (continues c3) = elems (continues c) \<and>
         elems (fallthroughs c3) = elems (fallthroughs c))"
    "\<And>c2. cgood (h c2) \<Longrightarrow> cgood c2"
  shows "runs L D (cthen (cmodify g) (cthen m (cmodify h))) (\<lambda>_. True)"
  unfolding runs_def
proof
  fix c :: compiler
  show "runs_at c L D (cthen (cmodify g) (cthen m (cmodify h))) (\<lambda>_. True)"
  proof (cases "m (g c)")
    case (Inl e)
    then show ?thesis using assms(1) by (auto simp: runs_def runs_at_def cthen_def cbind_def cmodify_def dest: spec [of _ "g c"])
  next
    case (Inr r)
    obtain c2 where r: "r = ((), c2)" by (cases r) auto
    have e: "emits L D (g c) c2" using assms(1) Inr r by (auto simp: runs_def runs_at_def dest: spec [of _ "g c"])
    have "emits L D c (h c2)"
    proof (cases "cgood (h c2)")
      case True
      then have g2: "cgood c2" by (rule assms(4))
      then obtain new errs where n: "cgood (g c)" "elems (breaks c2) = elems (breaks (g c))" "elems (continues c2) = elems (continues (g c))"
          "elems (fallthroughs c2) = elems (fallthroughs (g c))" "elems (emitted c2) = elems (emitted (g c)) @ new"
          "elems (errors c2) = elems (errors (g c)) @ errs" "errs = [] \<longrightarrow> list_all (\<lambda>n. \<not> structured n) new"
          "targets new \<subseteq> L \<union> slabels (g c) \<union> defs new" "D \<subseteq> defs new"
        using e by (auto simp: emits_def)
      note enter = assms(2) [of c, unfolded Let_def, rule_format, OF n(1)]
      note exit = assms(3) [of c c2, unfolded Let_def, rule_format, OF conjI [OF n(1) True]]
      have "targets new \<subseteq> L \<union> slabels c \<union> defs new" using n(8) enter by blast
      with n enter exit show ?thesis by (auto simp: emits_def)
    qed (simp add: emits_def)
    then show ?thesis using Inr r by (simp add: runs_at_def cthen_def cbind_def cmodify_def)
  qed
qed

lemma loop_runs:
  assumes "runs L D m (\<lambda>_. True)" "lab l1 \<subseteq> L" "lab l2 \<subseteq> L"
  shows "runs L D (cthen (enter_loop l1 l2) (cthen m exit_loop)) (\<lambda>_. True)"
  unfolding enter_loop_def exit_loop_def
  by (rule stack_emits [OF assms(1)])
    (auto simp: Let_def slabels_def arr_truncate_def view_truncate_def split: prod.splits if_splits
      dest!: arr_append_eq subsetD [OF assms(2)] subsetD [OF assms(3)])

lemma case_runs:
  assumes "runs L D m (\<lambda>_. True)" "lab l1 \<subseteq> L" "lab l2 \<subseteq> L"
  shows "runs L D (cthen (enter_case l1 l2) (cthen m exit_case)) (\<lambda>_. True)"
  unfolding enter_case_def exit_case_def
  by (rule stack_emits [OF assms(1)])
    (auto simp: Let_def slabels_def arr_truncate_def view_truncate_def split: prod.splits if_splits
      dest!: arr_append_eq subsetD [OF assms(2)] subsetD [OF assms(3)])

lemma for_runs:
  assumes "calls k cn ce" "only_labels L n" "nty n = STMT_4" "weight n \<le> k"
  shows "runs L {} (compile_for cn n) (okx L 2)"
proof -
  obtain b where b: "weight n = base_weight (nty n) + b" "2 \<le> b" "\<And>i. weight (child n i) \<le> b"
    by (rule weight_split [of n]) (use assms(3) in auto)
  have w: "b + 12 \<le> k" "\<not> is_call_node (nhead n)" using b assms(3,4) by (auto simp: is_call_node_def base_weight_def)
  have small: "weight (child n i) < k" for i using b(3) [of i] w(1) by simp
  have part: "runs (L \<union> M) {} (compile_add cn (child n i) fl) (\<lambda>_. True)" for i fl M
    using only_mono [OF assms(2)] by (intro add_child [OF assms(1) _ w(2) small]) auto
  have test: "parts (L \<union> M) b (as_expr (child n 1))" for M
    using okx_as_expr [OF only_mono [OF only_child [OF assms(2) w(2)]] b(3), of "L \<union> M" 1] by (auto intro: okx_parts)
  have goto: "runs (L \<union> M) {} (out_goto l) (\<lambda>_. True)" if "labelish l" "lab l \<subseteq> M" for l M
    using that by (intro out_goto_runs [of _ 2] label_parts') auto
  have body: "runs (L \<union> M) {} (cthen (enter_loop l_break l_continue)
      (cthen (cthen (compile_add cn (child n 3) SimplifyDefault) (compile_add cn (child n 2) SimplifyDefault)) exit_loop)) (\<lambda>_. True)"
    if "lab l_break \<subseteq> M" "lab l_continue \<subseteq> M" for M l_break l_continue
    using that by (intro loop_runs runs_then0 [OF part] part) auto
  have backj: "runs (L \<union> M) {} (cbind (jump_if_node l (as_expr (child n 1))) (\<lambda>j. compile_add cn j SimplifyDefault)) (\<lambda>_. True)"
    if "labelish l" "lab l \<subseteq> M" for l M
    using that w b(2) test by (intro add_jump [OF assms(1), of _ b]) (auto intro: label_parts')
  have jumpback: "runs (L \<union> M) {} (cbind (goto_node l) (\<lambda>g. compile_add cn g SimplifyDefault)) (\<lambda>_. True)"
    if "labelish l" "lab l \<subseteq> M" for l M
    unfolding goto_node_def
    by (rule runs_bind0 [OF making_stmt [of _ "mk_header STMT_1 eVoid GOTO" "[l]" _ 2]])
      (use that w b(2) label_parts' [of l "L \<union> M" 2] in \<open>auto simp: stmt1_create_def parts_def base_weight_def
        intro: create_indirect_made add_node [OF assms(1)]\<close>)
  have tested: "runs L {} (cbind new_label (\<lambda>l1. cbind new_label (\<lambda>l2. cbind new_label (\<lambda>l3.
      cthen (out_goto l2) (cthen (out_node l1) (cthen (cthen (enter_loop l3 l2)
        (cthen (cthen (compile_add cn (child n 3) SimplifyDefault) (compile_add cn (child n 2) SimplifyDefault)) exit_loop))
     (cthen (cthen (out_node l2) (cbind (jump_if_node l1 (as_expr (child n 1))) (\<lambda>j. compile_add cn j SimplifyDefault)))
     (cthen (out_node l3) (cret void_const))))))))) (okx L 2)"
  proof (intro with_label with_label_more)
    fix l1 l2 l3 assume l: "labelish l1" "labelish l2" "labelish l3"
    let ?M = "lab l1 \<union> lab l2 \<union> lab l3" and ?L = "L \<union> lab l1 \<union> lab l2 \<union> lab l3"
    have L: "?L = L \<union> ?M" by auto
    have c: "runs ?L (lab l2) (cthen (out_node l2) (cbind (jump_if_node l1 (as_expr (child n 1))) (\<lambda>j. compile_add cn j SimplifyDefault))) (\<lambda>_. True)"
      using runs_then [OF out_label' [OF l(2)] backj [OF l(1), of ?M]] unfolding L by auto
    have last: "runs ?L (lab l3) (cthen (out_node l3) (cret void_const)) (okx L 2)"
      by (intro void_after out_label' l)
    have d: "lab l1 \<union> lab l2 \<union> lab l3 = lab l1 \<union> ({} \<union> (lab l2 \<union> lab l3))" by auto
    show "runs ?L (lab l1 \<union> lab l2 \<union> lab l3) (cthen (out_goto l2) (cthen (out_node l1) (cthen (cthen (enter_loop l3 l2)
        (cthen (cthen (compile_add cn (child n 3) SimplifyDefault) (compile_add cn (child n 2) SimplifyDefault)) exit_loop))
     (cthen (cthen (out_node l2) (cbind (jump_if_node l1 (as_expr (child n 1))) (\<lambda>j. compile_add cn j SimplifyDefault)))
     (cthen (out_node l3) (cret void_const)))))) (okx L 2)"
      unfolding d using l
      by (intro runs_then0 [OF goto [of l2 ?M, folded L]] runs_then [OF out_label'] runs_then [OF body [of l3 ?M l2, folded L]] runs_then [OF c last]) auto
  qed
  have endless: "runs L {} (cbind new_label (\<lambda>l1. cbind new_label (\<lambda>l3.
      cthen (out_node l1) (cthen (cthen (enter_loop l3 l1)
        (cthen (cthen (compile_add cn (child n 3) SimplifyDefault) (compile_add cn (child n 2) SimplifyDefault)) exit_loop))
     (cthen (cbind (goto_node l1) (\<lambda>g. compile_add cn g SimplifyDefault))
     (cthen (out_node l3) (cret void_const))))))) (okx L 2)"
  proof (intro with_label with_label_more)
    fix l1 l3 assume l: "labelish l1" "labelish l3"
    let ?M = "lab l1 \<union> lab l3" and ?L = "L \<union> lab l1 \<union> lab l3"
    have L: "?L = L \<union> ?M" by auto
    have last: "runs ?L (lab l3) (cthen (out_node l3) (cret void_const)) (okx L 2)"
      by (intro void_after out_label' l)
    show "runs ?L (lab l1 \<union> lab l3) (cthen (out_node l1) (cthen (cthen (enter_loop l3 l1)
        (cthen (cthen (compile_add cn (child n 3) SimplifyDefault) (compile_add cn (child n 2) SimplifyDefault)) exit_loop))
     (cthen (cbind (goto_node l1) (\<lambda>g. compile_add cn g SimplifyDefault))
     (cthen (out_node l3) (cret void_const))))) (okx L 2)"
      using l
      by (intro runs_then [OF out_label'] runs_then0 [OF body [of l3 ?M l1, folded L]] runs_then0 [OF jumpback [of l1 ?M, folded L] last]) auto
  qed
  have void: "okx L 2 void_const" by (rule leaf_okx) (simp_all add: void_const_def const_small_def const_header_def)
  note first = part [of "{}" 0 SimplifyDefault, simplified]
  let ?c = "as_const (as_expr (child n 1))"
  let ?have = "if node_valid ?c then \<not> node_same (as_expr (child n 1)) void_const \<or> \<not> val_truth (const_val ?c) else True"
  show ?thesis
  proof (cases ?have)
    case True
    show ?thesis
      unfolding compile_for_def Let_def eqTrueI [OF True]
      by (intro runs_then0 [OF first] runs_if runs_ret void) (use tested in \<open>simp add: cthen_assoc\<close>)
  next
    case False
    then have "?have = False" by blast
    then show ?thesis
      unfolding compile_for_def Let_def
      by (intro runs_then0 [OF first] runs_if runs_ret void) (use endless False in \<open>simp_all add: cthen_assoc\<close>)
  qed
qed

lemma parts_as_expr: "parts L b n \<Longrightarrow> parts L b (as_expr n)"
  using okx_as_expr [of L n b] by (auto simp: okx_def parts_def)

lemma cond_clauses_runs:
  assumes "calls k cn ce" "Suc (Suc b) < k" "2 \<le> b" "labelish l_end" "lab l_end \<subseteq> L" "\<And>M. outable (L \<union> M) goto_end"
  shows "even (length xs) \<Longrightarrow> \<forall>x\<in>set xs. parts L b x \<Longrightarrow>
    runs (L \<union> M) (if xs = [] then {} else lab l_end) (cond_clauses cn l_end goto_end xs) (\<lambda>_. True)"
proof (induction xs arbitrary: M rule: induct_list012)
  case (3 test body rest)
  have part: "parts (L \<union> N) b test" "parts (L \<union> N) b body" for N using "3.prems"(2) parts_mono [of L b] by auto
  then have e: "parts (L \<union> N) b (as_expr test)" for N by (intro parts_as_expr)
  have jump: "runs (L \<union> N) {} (add_jump_unless cn l (as_expr test) SimplifyDefault) (\<lambda>_. True)" if "labelish l" "lab l \<subseteq> L \<union> N" for l N
    using that e assms(2,3) by (intro add_jump_unless_runs [OF assms(1), of _ b]) (auto intro: label_parts')
  have code: "runs (L \<union> N) {} (compile_add cn body SimplifyAll) (\<lambda>_. True)" for N
    using part(2) [of N] assms(2) by (intro add_node [OF assms(1)]) (auto simp: parts_def)
  have skip: "runs (L \<union> N) {} (cwhen q (out_node goto_end)) (\<lambda>_. True)" for N q
    using assms(6) by (intro runs_when) (simp add: outable_def)
  have rest: "runs (L \<union> N) (if rest = [] then {} else lab l_end) (cond_clauses cn l_end goto_end rest) (\<lambda>_. True)" for N
    using "3.prems" by (intro "3.IH"(1)) auto
  show ?case
  proof (cases "rest = []")
    case True
    have l: "runs (L \<union> M) (lab l_end) (cthen (out_node l_end) (cret ())) (\<lambda>_. True)"
      using runs_then [OF out_label' [OF assms(4)] runs_ret [of "\<lambda>_. True" "()"]] by simp
    show ?thesis
      using True runs_then0 [OF jump [OF assms(4) le_supI1 [OF assms(5)]] runs_then0 [OF code l]] by simp
  next
    case False
    have "runs (L \<union> M \<union> lab l) (lab l_end \<union> lab l) (cthen (add_jump_unless cn l (as_expr test) SimplifyDefault)
        (cthen (compile_add cn body SimplifyAll) (cthen (cwhen q (out_node goto_end))
          (cthen (out_node l) (cond_clauses cn l_end goto_end rest))))) (\<lambda>_. True)" if "labelish l" for l q
    proof -
      have "runs (L \<union> (M \<union> lab l)) (lab l \<union> lab l_end) (cthen (out_node l) (cond_clauses cn l_end goto_end rest)) (\<lambda>_. True)"
        using runs_then [OF out_label' [OF that] rest [of "M \<union> lab l"]] False by simp
      then show ?thesis
        unfolding Un_assoc Un_commute [of "lab l_end"] using that
        by (intro runs_then0 [OF jump] runs_then0 [OF code] runs_then0 [OF skip]) auto
    qed
    then show ?thesis using False by (auto intro: with_label_more)
  qed
qed auto

lemma kid_parts:
  assumes "only_labels L n" "\<not> is_call_node (nhead n)" "\<And>x. x \<in> set (nkids n) \<Longrightarrow> weight x \<le> b"
  shows "\<forall>x\<in>set (nkids n). parts L b x"
  using assms by (cases n) (auto simp: parts_def)

lemma cond_runs:
  assumes "calls k cn ce" "only_labels L n" "nty n = STMT_N" "weight n \<le> k"
  shows "runs L {} (compile_cond cn n) (okx L 2)"
proof -
  obtain b where b: "weight n = base_weight (nty n) + b" "2 \<le> b" "\<And>x. x \<in> set (nkids n) \<Longrightarrow> weight x \<le> b"
    by (rule weight_split [of n]) (use assms(3) in auto)
  have w: "b + 12 \<le> k" "\<not> is_call_node (nhead n)" using b assms(3,4) by (auto simp: is_call_node_def base_weight_def)
  have void: "okx L 2 void_const" for L by (rule leaf_okx) (simp_all add: void_const_def const_small_def const_header_def)
  have end_goto: "runs L' {} (if q then cret bad_node else goto_node l) (\<lambda>g. \<forall>M. outable (L' \<union> M) g)" if "labelish l" "lab l \<subseteq> L'" for L' l q
  proof (intro runs_if runs_ret)
    show "runs L' {} (goto_node l) (\<lambda>g. \<forall>M. outable (L' \<union> M) g)"
      unfolding goto_node_def
    proof (rule runs_making, intro allI)
      fix f f' g M assume "stmt1_create f l GOTO = Some (f', g)"
      then have m: "made (mk_header STMT_1 eVoid GOTO) [l] g" by (auto simp: stmt1_create_def dest: create_indirect_made)
      have "only_labels (L' \<union> M) g"
        using that label_parts' [of l "L' \<union> M" 2] by (intro made_only [OF m]) (auto simp: parts_def)
      then show "outable (L' \<union> M) g" using made_flat [OF m] by (intro outable_flat) (auto simp: structured_def)
    qed
  qed simp
  have clauses: "runs (L \<union> lab l) (if nkids n = [] then {} else lab l) (cond_clauses cn l g (nkids n)) (\<lambda>_. True)"
    if l: "labelish l" and g: "\<forall>M. outable (L \<union> lab l \<union> M) g" and e: "even (length (nkids n))" for l g
  proof -
    have "\<forall>x\<in>set (nkids n). parts (L \<union> lab l) b x"
      using kid_parts [OF assms(2) w(2) b(3)] parts_mono [of L b] by auto
    then show ?thesis
      using cond_clauses_runs [OF assms(1) _ b(2) l, of "L \<union> lab l" g "nkids n" "{}"] g e w(1) by simp
  qed
  show ?thesis
  proof (cases "children n = 0 \<or> odd (children n)")
    case True
    then show ?thesis
      unfolding compile_cond_def by (auto intro!: runs_ret void runs_error_out targets_only assms(2))
  next
    case False
    then have ne: "nkids n \<noteq> []" "even (length (nkids n))" by (auto simp: children_def)
    have "runs L {} (cbind new_label (\<lambda>l_end. cbind (if children n \<le> 2 then cret bad_node else goto_node l_end) (\<lambda>goto_end.
        cthen (cond_clauses cn l_end goto_end (nkids n)) (cret void_const)))) (okx L 2)"
    proof (intro with_label runs_bind0 [OF end_goto] void_after)
      fix l g assume "labelish l" "\<forall>M. outable (L \<union> lab l \<union> M) g"
      then show "runs (L \<union> lab l) (lab l) (cond_clauses cn l g (nkids n)) (\<lambda>_. True)" using clauses ne by simp
    qed auto
    then show ?thesis using False by (simp add: compile_cond_def)
  qed
qed

lemma block_runs:
  assumes "calls k cn ce" "only_labels L n" "nty n = STMT_N" "weight n \<le> k"
  shows "runs L {} (compile_block cn n) (okx L 2)"
proof -
  obtain b where b: "weight n = base_weight (nty n) + b" "2 \<le> b" "\<And>x. x \<in> set (nkids n) \<Longrightarrow> weight x \<le> b"
    by (rule weight_split [of n]) (use assms(3) in auto)
  have w: "b + 12 \<le> k" "\<not> is_call_node (nhead n)" using b assms(3,4) by (auto simp: is_call_node_def base_weight_def)
  have kid: "runs L {} (cn x SimplifyDefault) (okx L b)" if "x \<in> set (nkids n)" for x
    using kid_parts [OF assms(2) w(2) b(3)] that w(1) by (intro call_node [OF assms(1)]) (auto simp: parts_def)
  have kids: "runs L {} (cmap (\<lambda>x. cn x SimplifyDefault) (nkids n)) (\<lambda>_. True)"
    by (rule runs_weaken [OF runs_map [OF kid]]) simp_all
  show ?thesis
    unfolding compile_block_def
    by (intro runs_bind0 [OF kids] runs_ret leaf_okx) (simp_all add: void_const_def const_small_def const_header_def)
qed

lemma assign_call_runs:
  assumes "calls k cn ce" "only_labels L n" "nty n = STMT_N" "nop n = ASSIGN_CALL" "weight n \<le> k"
  shows "runs L {} (compile_assign_call cn ce n) (okx L 2)"
proof -
  obtain b where b: "weight n = base_weight (nty n) + b" "2 \<le> b" "\<And>i. weight (child n i) \<le> b"
    by (rule weight_split [of n]) (use assms(3) in auto)
  have w: "b + 12 \<le> k" "\<not> is_call_node (nhead n)" using b assms(3,5) by (auto simp: is_call_node_def base_weight_def)
  have n: "outable L n" using assms(2-4) by (intro outable_flat) (auto simp: structured_def)
  have kid: "only_labels L (child n i)" for i by (rule only_child [OF assms(2) w(2)])
  have call: "runs L {} (compile_call cn (as_call (child n i)) SimplifyDefault) (\<lambda>_. True)" for i
  proof (rule runs_weaken [OF call_runs [OF assms(1), of L _ b]])
    have "weight (as_call (child n i)) \<le> b"
      using weight_downcast [of _ "child n i"] b(3) [of i] order_trans unfolding as_call_def by blast
    then show "weight (child (as_call (child n i)) j) \<le> b" for j
      using weight_child [of "as_call (child n i)" j] by linarith
  qed (use kid w b(2) in \<open>auto simp: as_call_def intro: only_downcast\<close>)
  have places: "runs L {} (to_places cn ce n i j) (\<lambda>_. True)" for i j
    unfolding to_places_def
    by (rule runs_weaken [OF map_children_runs [of _ _ L _ _ "only_labels L"]])
      (use w in \<open>auto intro: to_place_runs [OF assms(1) kid b(3) b(2)]\<close>)
  have mk: "runs L {} (infunc (\<lambda>f. assign_call_create f ps c)) (outable L)" for ps c
    by (rule runs_infunc) (auto simp: assign_call_create_def structured_def jumps_away_def jump_label_def
      split: if_splits dest!: create_list_made intro!: outable_no_jump)
  show ?thesis
    unfolding compile_assign_call_def Let_def
    by (intro runs_bind0 [of _ _ "outable L"] runs_if runs_ret n runs_bind0 [OF call] runs_bind0 [OF places] mk out_void order_refl)
qed

lemma return_values_runs:
  assumes "calls k cn ce" "only_labels L st" "\<not> is_call_node (nhead st)" "weight st \<le> base_weight (nty st) + b" "b \<le> k"
  shows "runs L {} (return_values ce st cap i vs vars) (\<lambda>_. True)"
proof (induction vs arbitrary: i vars)
  case (Cons v vs)
  show ?case
    unfolding return_values.simps Let_def
    by (intro runs_bind0 [OF runs_get [of "\<lambda>_. True"]] runs_if runs_fail runs_then0 runs_when runs_out_error
        runs_bind0 [OF call_child [OF assms]] out_any_assign Cons.IH) (auto simp: is_assign_def)
qed auto

lemma return_runs:
  assumes "calls k cn ce" "only_labels L n" "nty n = STMT_N" "nop n = RETURN" "weight n \<le> k"
  shows "runs L {} (compile_return ce n) (okx L 2)"
proof -
  obtain b where b: "weight n = base_weight (nty n) + b" "2 \<le> b" by (rule weight_split [of n]) (use assms(3) in auto)
  have w: "b \<le> k" "\<not> is_call_node (nhead n)" using b assms(3,5) by (auto simp: is_call_node_def base_weight_def)
  have n: "outable L n" using assms(2-4) by (intro outable_flat) (auto simp: structured_def)
  have mk: "runs L {} (making (\<lambda>f. stmtn_create f RETURN xs)) (outable L)" for xs
    by (rule runs_making) (auto simp: stmtn_create_def structured_def jumps_away_def jump_label_def
      dest!: create_indirect_made intro!: outable_no_jump)
  have void: "okx L 2 void_const" by (rule leaf_okx) (simp_all add: void_const_def const_small_def const_header_def)
  show ?thesis
    unfolding compile_return_def
    by (intro runs_bind0 [OF runs_get [of "\<lambda>_. True"]] TrueI runs_if runs_error_out targets_only assms void out_void n order_refl
        runs_bind0 [OF return_values_runs [OF assms(1,2) w(2) _ w(1)]] runs_then0 [OF runs_when [OF runs_oom]] runs_bind0 [OF mk])
      (use b in simp_all)
qed

lemma void_okx: "okx L 2 void_const"
  by (rule leaf_okx) (simp_all add: void_const_def const_small_def const_header_def)

subsection \<open>Switch\<close>

text \<open>
  The labels \<open>l_this\<close> and \<open>l_this_fallthrough\<close> are put in the code before the body of the first case; the others, and
  \<open>l_break\<close>, are known to the context.
\<close>

lemma switch_cases_runs:
  assumes "calls k cn ce" "2 \<le> b" "b + 10 < k" "parts L b expr" "labelish l_break" "lab l_break \<subseteq> L" "\<And>M. outable (L \<union> M) goto_break"
  shows "\<forall>x\<in>set xs. only_labels L (as_case x) \<and> (\<forall>i. weight (child (as_case x) i) \<le> b) \<Longrightarrow>
    labelish l_default \<Longrightarrow> labelish l_this \<Longrightarrow> labelish l_ft \<Longrightarrow> lab l_default \<union> lab l_this \<union> lab l_ft \<subseteq> L \<union> M \<Longrightarrow>
    runs (L \<union> M) (if xs = [] then {} else lab l_this \<union> lab l_ft)
      (switch_cases cn expr l_break goto_break l_default l_this l_ft xs) (\<lambda>_. True)"
proof (induction xs arbitrary: M l_default l_this l_ft)
  case (Cons x xs)
  define c where "c = as_case x"
  have c: "only_labels L c" "\<And>i. weight (child c i) \<le> b" "\<not> is_call_node (nhead c)" using Cons.prems(1)
    by (auto simp: c_def as_case_def downcast_def is_call_node_def bad_node_def bad_header_def)
  have out: "runs (L \<union> N) (lab l) (cwhen (node_valid l) (out_node l)) (\<lambda>_. True)" if "labelish l" for l N
  proof (cases "node_valid l")
    case False
    with that have "lab l = {}" by (auto simp: labelish_def lab_def is_label_def bad_node_def bad_header_def)
    with False show ?thesis by auto
  qed (use out_label' [OF that] in simp)
  have body: "runs (L \<union> N) {} (cthen (enter_case l_break l) (cthen (compile_add cn (child c 1) SimplifyAll) exit_case)) (\<lambda>_. True)"
    if "labelish l" "lab l \<subseteq> L \<union> N" for l N
    using that assms(3,6) c(2) [of 1] only_mono [OF only_child [OF c(1,3)], of "L \<union> N" 1]
    by (intro case_runs add_node [OF assms(1)]) auto
  have test: "runs (L \<union> N) {} (cbind (making (\<lambda>f. binary_create f NEQ expr (as_expr (child c 0)))) (\<lambda>test.
      cbind (jump_if_node l test) (\<lambda>j. compile_add cn j SimplifyDefault))) (\<lambda>_. True)"
    if "labelish l" "lab l \<subseteq> L \<union> N" for l N
  proof -
    have "parts (L \<union> N) b (as_expr (child c 0))"
      using only_mono [OF only_child [OF c(1,3)], of "L \<union> N" 0] c(2) [of 0] by (intro parts_as_expr) (auto simp: parts_def)
    moreover have "parts (L \<union> N) b expr" using assms(2,4) by (auto intro: parts_mono)
    ultimately have mk: "runs (L \<union> N) {} (making (\<lambda>f. binary_create f NEQ expr (as_expr (child c 0)))) (okx (L \<union> N) (6 + b))"
      by (intro making_expr [of _ "mk_header BINARY (binary_kind NEQ expr) (op2_code NEQ)" "[expr, as_expr (child c 0)]" _ b])
        (use assms(2) in \<open>auto simp: binary_create_def is_expr_type_def base_weight_def intro: create_indirect_made\<close>)
    show ?thesis
    proof (rule runs_bind0 [OF mk])
      fix t assume t: "okx (L \<union> N) (6 + b) t"
      show "runs (L \<union> N) {} (cbind (jump_if_node l t) (\<lambda>j. compile_add cn j SimplifyDefault)) (\<lambda>_. True)"
        using assms(2,3) by (intro add_jump [OF assms(1) label_parts' [OF that] okx_parts [OF t]]) simp_all
    qed
  qed
  have goto: "runs (L \<union> N) {} (out_goto l) (\<lambda>_. True)" if "labelish l" "lab l \<subseteq> L \<union> N" for l N
    using that by (intro out_goto_runs [of _ 2] label_parts') auto
  have skip: "runs (L \<union> N) {} (cwhen q (out_node goto_break)) (\<lambda>_. True)" for N q
    using assms(7) by (intro runs_when) (simp add: outable_def)
  text \<open>The code from the label of the body on.\<close>
  have block: "runs (L \<union> N) (lab ft \<union> (if xs = [] then {} else lab l_next \<union> lab l_fall))
     (cthen (cwhen (node_valid ft) (out_node ft))
       (cthen (enter_case l_break l_fall) (cthen (compile_add cn (child c 1) SimplifyAll) (cthen exit_case
         (cthen (cwhen q (out_node goto_break)) (switch_cases cn expr l_break goto_break def l_next l_fall xs)))))) (\<lambda>_. True)"
    if "labelish ft" "labelish l_next" "labelish l_fall" "labelish def" "lab ft \<union> lab l_next \<union> lab l_fall \<union> lab def \<subseteq> L \<union> N" for ft l_next l_fall def N q
  proof -
    have rest: "runs (L \<union> N) (if xs = [] then {} else lab l_next \<union> lab l_fall) (switch_cases cn expr l_break goto_break def l_next l_fall xs) (\<lambda>_. True)"
      using that Cons.prems(1) by (intro Cons.IH) auto
    show ?thesis
      using runs_then [OF out [OF that(1), of N] runs_then0 [OF body [OF that(3), of N] runs_then0 [OF skip rest]]] that(5)
      by (auto simp: cthen_assoc)
  qed
  have this_label: "runs (L \<union> N) (lab l_this) (cwhen (node_valid l_this) (out_node l_this)) (\<lambda>_. True)" for N
    by (rule out [OF Cons.prems(3)])
  show ?case
  proof (cases "xs = []")
    case True
    define l_next where "l_next = (if node_valid l_default then l_default else l_break)"
    have l: "labelish l_next" "lab l_next \<subseteq> L \<union> M" "lab l_break \<subseteq> L \<union> M" using Cons.prems(2,5) assms(5,6) by (auto simp: l_next_def)
    note blk = block [OF Cons.prems(4) l(1) assms(5) Cons.prems(2), of M False]
    have blk: "runs (L \<union> M) (lab l_ft) (cthen (cwhen (node_valid l_ft) (out_node l_ft))
       (cthen (enter_case l_break l_break) (cthen (compile_add cn (child c 1) SimplifyAll) (cthen exit_case
         (cthen (cwhen False (out_node goto_break)) (switch_cases cn expr l_break goto_break l_default l_next l_break xs)))))) (\<lambda>_. True)"
      using blk l Cons.prems(5) True by simp
    show ?thesis
    proof (cases "nop c = DEFAULT")
      case d: True
      show ?thesis
        using runs_then [OF this_label blk] True d by (simp add: Let_def c_def [symmetric] l_next_def [symmetric])
    next
      case d: False
      show ?thesis
        using runs_then [OF this_label runs_then0 [OF test [OF l(1,2)] blk]] True d
        by (simp add: Let_def c_def [symmetric] l_next_def [symmetric] cbind_cthen)
    qed
  next
    case False
    have step: "runs (L \<union> M \<union> lab l_next \<union> lab l_fall) (lab l_this \<union> lab l_ft \<union> lab l_next \<union> lab l_fall)
       (cthen (cwhen (node_valid l_this) (out_node l_this))
         (cbind (if nop c = DEFAULT then
             cthen (out_goto l_next) (cbind (if node_valid l_ft then cret l_ft else new_label) (\<lambda>l. cret (l, l)))
           else cthen (cbind (making (\<lambda>f. binary_create f NEQ expr (as_expr (child c 0)))) (\<lambda>test.
                   cbind (jump_if_node l_next test) (\<lambda>j. compile_add cn j SimplifyDefault))) (cret (l_ft, l_default))) (\<lambda>(ft, def).
           cthen (cwhen (node_valid ft) (out_node ft))
             (cthen (enter_case l_break l_fall) (cthen (compile_add cn (child c 1) SimplifyAll) (cthen exit_case
               (cthen (cwhen True (out_node goto_break)) (switch_cases cn expr l_break goto_break def l_next l_fall xs)))))))) (\<lambda>_. True)"
      if l: "labelish l_next" "labelish l_fall" for l_next l_fall
    proof -
      let ?N = "M \<union> lab l_next \<union> lab l_fall"
      have L: "L \<union> M \<union> lab l_next \<union> lab l_fall = L \<union> ?N" by auto
      have D: "lab l_this \<union> lab l_ft \<union> lab l_next \<union> lab l_fall = lab l_this \<union> (lab l_ft \<union> (lab l_next \<union> lab l_fall))" by auto
      have known: "lab l_ft \<union> lab l_next \<union> lab l_fall \<union> lab l_default \<subseteq> L \<union> ?N" "lab l_next \<subseteq> L \<union> ?N" "lab l_ft \<union> lab l_next \<union> lab l_fall \<union> lab l_ft \<subseteq> L \<union> ?N"
        using Cons.prems(5) by auto
      note blk = block [OF Cons.prems(4) l Cons.prems(2) known(1), of True] and blk2 = block [OF Cons.prems(4) l Cons.prems(4) known(3), of True]
      show ?thesis
      proof (cases "nop c = DEFAULT")
        case d: False
        show ?thesis
          unfolding L D using runs_then [OF this_label runs_then0 [OF test [OF l(1) known(2)] blk]] d False by (simp add: cbind_cthen)
      next
        case d: True
        show ?thesis
        proof (cases "node_valid l_ft")
          case True
          show ?thesis
            unfolding L D using runs_then [OF this_label runs_then0 [OF goto [OF l(1) known(2)] blk2]] d True False by (simp add: cbind_cthen)
        next
          case f: False
          then have lf: "lab l_ft = {}" using Cons.prems(4) by (auto simp: labelish_def lab_def is_label_def bad_node_def bad_header_def)
          have new: "runs (L \<union> ?N) (lab l_next \<union> lab l_fall) (cbind new_label (\<lambda>ft. cthen (cwhen (node_valid ft) (out_node ft))
             (cthen (enter_case l_break l_fall) (cthen (compile_add cn (child c 1) SimplifyAll) (cthen exit_case
               (cthen (cwhen True (out_node goto_break)) (switch_cases cn expr l_break goto_break ft l_next l_fall xs))))))) (\<lambda>_. True)"
          proof (rule with_label_more)
            fix ft assume ft: "labelish ft"
            have "lab ft \<union> lab l_next \<union> lab l_fall \<union> lab ft \<subseteq> L \<union> (?N \<union> lab ft)" by auto
            from block [OF ft l ft this, of True] False
            show "runs (L \<union> ?N \<union> lab ft) (lab l_next \<union> lab l_fall \<union> lab ft) (cthen (cwhen (node_valid ft) (out_node ft))
             (cthen (enter_case l_break l_fall) (cthen (compile_add cn (child c 1) SimplifyAll) (cthen exit_case
               (cthen (cwhen True (out_node goto_break)) (switch_cases cn expr l_break goto_break ft l_next l_fall xs)))))) (\<lambda>_. True)"
              by (simp add: Un_assoc Un_commute Un_left_commute)
          qed
          show ?thesis
            unfolding L D using runs_then [OF this_label runs_then0 [OF goto [OF l(1) known(2)] new]] d f lf
            by (simp add: cbind_cthen cbind_assoc)
        qed
      qed
    qed
    have "runs (L \<union> M) (lab l_this \<union> lab l_ft) (cbind new_label (\<lambda>l_next. cbind new_label (\<lambda>l_fall.
       cthen (cwhen (node_valid l_this) (out_node l_this))
         (cbind (if nop c = DEFAULT then
             cthen (out_goto l_next) (cbind (if node_valid l_ft then cret l_ft else new_label) (\<lambda>l. cret (l, l)))
           else cthen (cbind (making (\<lambda>f. binary_create f NEQ expr (as_expr (child c 0)))) (\<lambda>test.
                   cbind (jump_if_node l_next test) (\<lambda>j. compile_add cn j SimplifyDefault))) (cret (l_ft, l_default))) (\<lambda>(ft, def).
           cthen (cwhen (node_valid ft) (out_node ft))
             (cthen (enter_case l_break l_fall) (cthen (compile_add cn (child c 1) SimplifyAll) (cthen exit_case
               (cthen (cwhen True (out_node goto_break)) (switch_cases cn expr l_break goto_break def l_next l_fall xs)))))))))) (\<lambda>_. True)"
      by (intro with_label_more step)
    then show ?thesis using False by (simp add: Let_def c_def [symmetric] cong del: if_weak_cong)
  qed
qed (simp add: runs_ret)

lemma switch_runs:
  assumes "calls k cn ce" "only_labels L n" "nty n = STMT_N" "weight n \<le> k"
  shows "runs L {} (compile_switch cn n) (okx L 2)"
proof -
  obtain b where b: "weight n = base_weight (nty n) + b" "2 \<le> b" "\<And>x. x \<in> set (nkids n) \<Longrightarrow> weight x \<le> b" "\<And>i. weight (child n i) \<le> b"
    by (rule weight_split [of n]) (use assms(3) in auto)
  have w: "b + 12 \<le> k" "\<not> is_call_node (nhead n)" using b assms(3,4) by (auto simp: is_call_node_def base_weight_def)
  have kids: "only_labels L (as_case x) \<and> (\<forall>i. weight (child (as_case x) i) \<le> b)" if "x \<in> set (drop 1 (nkids n))" for x
  proof -
    have "parts L b x" using kid_parts [OF assms(2) w(2) b(3)] that by (auto dest: in_set_dropD)
    then have "only_labels L (as_case x)" "weight (as_case x) \<le> b"
      using weight_downcast [of _ x] order_trans unfolding as_case_def parts_def by (blast intro: only_downcast)+
    then show ?thesis using weight_child [of "as_case x"] by (meson add_leD2 order_trans)
  qed
  have expr: "runs L {} (to_var cn (as_expr (child n 0))) (okx L b)"
    using okx_as_expr [OF only_child [OF assms(2) w(2)] b(4), of 0] w(1) b(2)
    by (intro to_var_runs [OF assms(1)]) (auto simp: okx_def)
  have error: "runs L {} (cthen (out_error x msg) (cret void_const)) (okx L 2)" for x msg
    by (intro runs_then0 [OF runs_out_error] runs_ret void_okx)
  have cases: "runs L {} (cbind new_label (\<lambda>l_break. cbind (goto_node l_break) (\<lambda>goto_break.
      cthen (switch_cases cn e l_break goto_break bad_node bad_node bad_node (drop 1 (nkids n)))
        (cthen (out_node l_break) (cret void_const))))) (okx L 2)" if e: "okx L b e" for e
  proof (rule with_label)
    fix l assume l: "labelish l"
    show "runs (L \<union> lab l) (lab l) (cbind (goto_node l) (\<lambda>g. cthen (switch_cases cn e l g bad_node bad_node bad_node (drop 1 (nkids n)))
        (cthen (out_node l) (cret void_const)))) (okx L 2)"
      unfolding goto_node_def
    proof (rule runs_bind0 [OF runs_making [of _ "made (mk_header STMT_1 eVoid GOTO) [l]"]])
      fix g assume g: "made (mk_header STMT_1 eVoid GOTO) [l] g"
      have "outable (L \<union> lab l \<union> M) g" for M
      proof -
        have "only_labels (L \<union> lab l \<union> M) g" using label_parts' [OF l, of "L \<union> lab l \<union> M" 2] by (intro made_only [OF g]) (auto simp: parts_def)
        then show ?thesis using made_flat [OF g] by (intro outable_flat) (auto simp: structured_def)
      qed
      then have "runs (L \<union> lab l \<union> {}) (if drop 1 (nkids n) = [] then {} else lab bad_node \<union> lab bad_node)
          (switch_cases cn e l g bad_node bad_node bad_node (drop 1 (nkids n))) (\<lambda>_. True)"
        using kids e l w(1) b(2) only_mono [of L _ "L \<union> lab l"]
        by (intro switch_cases_runs [OF assms(1), of b]) (auto simp: labelish_def lab_def is_label_def bad_node_def bad_header_def
          parts_def okx_def)
      then have "runs (L \<union> lab l) {} (switch_cases cn e l g bad_node bad_node bad_node (drop 1 (nkids n))) (\<lambda>_. True)"
        by (rule runs_mono) auto
      then show "runs (L \<union> lab l) (lab l) (cthen (switch_cases cn e l g bad_node bad_node bad_node (drop 1 (nkids n)))
          (cthen (out_node l) (cret void_const))) (okx L 2)"
        by (rule runs_then0) (intro void_after out_label' l)
    qed (auto simp: stmt1_create_def intro: create_indirect_made)
  qed
  show ?thesis
  proof (cases "switch_error False (drop 1 (nkids n))")
    case None
    then have "compile_switch cn n = cbind (to_var cn (as_expr (child n 0))) (\<lambda>e. cbind new_label (\<lambda>l_break.
        cbind (goto_node l_break) (\<lambda>goto_break.
          cthen (switch_cases cn e l_break goto_break bad_node bad_node bad_node (drop 1 (nkids n)))
            (cthen (out_node l_break) (cret void_const)))))"
      by (simp add: compile_switch_def)
    then show ?thesis using runs_bind0 [OF expr cases] by simp
  next
    case (Some r)
    then show ?thesis using error by (cases r) (simp add: compile_switch_def)
  qed
qed

subsection \<open>The compiler\<close>

lemma dispatch_node_runs:
  assumes "calls k cn ce" "only_labels L n" "weight n \<le> k"
  shows "runs L {} (dispatch_node cn ce n fl) (okx L (weight n))"
proof -
  have up: "runs L {} m (okx L (weight n))" if "runs L {} m (okx L 2)" for m
    using that weight_ge2 [of n] by (intro runs_weaken [OF that]) (auto intro: okx_mono)
  show ?thesis
  proof (cases "nty n \<in> {STMT_0, STMT_1, STMT_2, STMT_3, STMT_4, STMT_N}")
    case False
    then have "plain n" by (simp add: plain_def)
    then have "runs L {} (if node_valid (as_expr n) then ce n fl else cret n) (okx L (weight n))"
      using assms by (intro runs_if runs_ret call_expr [OF assms(1,2)]) (auto simp: okx_def)
    with False show ?thesis by (cases "nty n") (simp_all add: dispatch_node_def)
  next
    case True
    have "runs L {} (compile_stmt3 cn ce n) (okx L 2)" if "nty n = STMT_3"
      unfolding compile_stmt3_def using that
      by (intro runs_if if_runs [OF assms(1,2) that assms(3)] out_void outable_flat assms(2)) (auto simp: structured_def)
    moreover have "runs L {} (compile_stmt4 cn n) (okx L 2)" if "nty n = STMT_4"
      unfolding compile_stmt4_def using that
      by (intro runs_if for_runs [OF assms(1,2) that assms(3)] out_void outable_flat assms(2)) (auto simp: structured_def)
    moreover have "runs L {} (compile_stmtn cn ce n) (okx L 2)" if "nty n = STMT_N"
      unfolding compile_stmtn_def using that assms
      by (intro runs_if assign_call_runs block_runs cond_runs return_runs switch_runs out_void outable_flat) (auto simp: structured_def)
    moreover note stmt0_runs [of 2 L n] stmt1_runs [OF assms(1,2) _ assms(3)] stmt2_runs [OF assms(1,2) _ assms(3)]
    ultimately show ?thesis using True by (auto simp: dispatch_node_def intro: up)
  qed
qed

theorem calls_compile: "calls k (compile_node k) (compile_expr k)"
proof (induction k)
  case 0
  have "\<not> weight n \<le> 0" for n
  proof
    assume "weight n \<le> 0"
    moreover have "2 \<le> weight n" by (rule weight_ge2)
    ultimately show False by linarith
  qed
  then show ?case unfolding calls_def by blast
next
  case (Suc k)
  show ?case
    unfolding calls_def
    by (auto simp: less_Suc_eq_le intro: dispatch_node_runs [OF Suc] dispatch_expr_runs [OF Suc])
qed

end
