(* ===== verification/Optimizer_Returns.thy ===== *)
theory Optimizer_Returns imports Optimizer_Ends begin

text \<open>
  What the optimizer keeps. The locale \<open>optimizer_keeps\<close> says when a property \<open>kept\<close> of nodes goes from the nodes given
  to the optimizer to its result, with a condition \<open>room\<close> on the function and a set \<open>fine\<close> of errors: it must hold of constants
  and parts, and of what is created from nodes that have it. Two instances are used for the compiler. With enough
  memory for the code (\<open>can_grow\<close>) and no node with more children than a 32-bit number can count (\<open>slim\<close>, true of every
  node read from a code) the optimizer never runs forever. And it makes up no labels (\<open>all_labels\<close>).
\<close>

subsection \<open>Results\<close>

definition rets :: "(oerror \<Rightarrow> bool) \<Rightarrow> ('a \<Rightarrow> bool) \<Rightarrow> 'a res \<Rightarrow> bool" where
  "rets fine X r \<longleftrightarrow> (case r of Inl e \<Rightarrow> fine e | Inr x \<Rightarrow> X x)"

lemma rets_simps [simp]: "rets fine X (Inr x) = X x" "rets fine X (Inl e) = fine e"
  by (simp_all add: rets_def)

lemma rets_bind: "rets fine Y r \<Longrightarrow> (\<And>x. Y x \<Longrightarrow> rets fine X (k x)) \<Longrightarrow> rets fine X (rbind r k)"
  by (cases r) simp_all

lemma rets_if: "(b \<Longrightarrow> rets fine X r) \<Longrightarrow> (\<not> b \<Longrightarrow> rets fine X s) \<Longrightarrow> rets fine X (if b then r else s)"
  by simp

definition okn :: "(func \<Rightarrow> bool) \<Rightarrow> (node \<Rightarrow> bool) \<Rightarrow> func \<times> node \<Rightarrow> bool" where
  "okn room kept r \<longleftrightarrow> room (fst r) \<and> kept (snd r)"

definition oks :: "(func \<Rightarrow> bool) \<Rightarrow> (node \<Rightarrow> bool) \<Rightarrow> func \<times> node list \<Rightarrow> bool" where
  "oks room kept r \<longleftrightarrow> room (fst r) \<and> (\<forall>k\<in>set (snd r). kept k)"

lemma okn_pair [simp]: "okn room kept (f, n) \<longleftrightarrow> room f \<and> kept n" by (simp add: okn_def)

lemma oks_pair [simp]: "oks room kept (f, ns) \<longleftrightarrow> room f \<and> (\<forall>k\<in>set ns. kept k)" by (simp add: oks_def)

lemma rets_bind_pair: "rets fine (okn room kept) r \<Longrightarrow>
    (\<And>f n. r = Inr (f, n) \<Longrightarrow> room f \<Longrightarrow> kept n \<Longrightarrow> rets fine X (k f n)) \<Longrightarrow> rets fine X (rbind r (\<lambda>(f, n). k f n))"
  by (cases r) auto

lemma rets_bind_list: "rets fine (oks room kept) r \<Longrightarrow>
    (\<And>f ns. r = Inr (f, ns) \<Longrightarrow> room f \<Longrightarrow> \<forall>k\<in>set ns. kept k \<Longrightarrow> rets fine X (k f ns)) \<Longrightarrow> rets fine X (rbind r (\<lambda>(f, ns). k f ns))"
  by (cases r) auto

lemma set_insert_node: "set (insert_node x ys) = insert x (set ys)"
  by (induction ys) auto

lemma set_sort_nodes: "set (sort_nodes xs) = set xs"
  by (induction xs) (simp_all add: sort_nodes_def set_insert_node)

lemma fold_trailing_set: "fold_trailing k op cs v = Some (v', rest) \<Longrightarrow> set rest \<subseteq> set cs"
  by (induction k op cs v rule: fold_trailing.induct) (auto split: if_splits simp: bind_eq_Some_conv)

subsection \<open>What the optimizer keeps\<close>

locale optimizer_keeps =
  fixes kept :: "node \<Rightarrow> bool" and room :: "func \<Rightarrow> bool" and fine :: "oerror \<Rightarrow> bool"
  assumes fine [simp]: "fine Undefined" "fine OutOfFuel"
    and kept_bad [simp]: "kept bad_node"
    and kept_small [simp]: "kept (const_small kd w)" "kept (const_bool b)"
    and kept_kid: "kept n \<Longrightarrow> k \<in> set (nkids n) \<Longrightarrow> kept k"
    and kept_const: "room f \<Longrightarrow> okn room kept (const_create f v)"
    and kept_create: "room f \<Longrightarrow> \<forall>k\<in>set kids. kept k \<Longrightarrow> htype h \<noteq> LABEL \<Longrightarrow> rets fine (okn room kept) (looping (create_indirect f h kids))"
    and kept_again: "room f \<Longrightarrow> kept n \<Longrightarrow> \<forall>k\<in>set kids. kept k \<Longrightarrow> rets fine (okn room kept) (looping (create_indirect f (nhead n) kids))"
begin

lemmas bind_pair = rets_bind_pair [where fine = fine and room = room and kept = kept]
lemmas bind_list = rets_bind_list [where fine = fine and room = room and kept = kept]

lemma kept_child [simp]: "kept n \<Longrightarrow> kept (child n i)"
  using kept_kid [of n] by (cases n) (auto simp: child_def children_def)

lemma kept_downcast [simp]: "kept n \<Longrightarrow> kept (downcast p n)"
  by (simp add: downcast_def)

lemma kept_as [simp]: "kept n \<Longrightarrow> kept (as_expr n)"
  by (simp add: as_expr_def)

lemma kept_consts [simp]: "kept (zero_const k)" "kept void_const" "kept true_const" "kept false_const"
  by (simp_all add: zero_const_def void_const_def true_const_def false_const_def)

lemma kept_one_two: "room f \<Longrightarrow> okn room kept (one_const f k)" "room f \<Longrightarrow> okn room kept (two_const f k)"
  using kept_const [of f] by (auto simp: one_const_def two_const_def)

lemma rets_ub: "(\<And>x. X x) \<Longrightarrow> rets fine X (ub r)"
  using fine by (cases r) simp_all

lemma rets_bind_ub: "(\<And>x. rets fine X (k x)) \<Longrightarrow> rets fine X (rbind (ub r) k)"
  using fine by (cases r) simp_all

lemma rets_creates [simp, intro]:
  "room f \<Longrightarrow> kept x \<Longrightarrow> kept y \<Longrightarrow> rets fine (okn room kept) (looping (binary_create f op x y))"
  "room f \<Longrightarrow> \<forall>k\<in>set ks. kept k \<Longrightarrow> rets fine (okn room kept) (looping (tuple_create f k opn ks))"
  "room f \<Longrightarrow> kept x \<Longrightarrow> kept y \<Longrightarrow> rets fine (okn room kept) (looping (tuple2 f opn x y))"
  "room f \<Longrightarrow> \<forall>k\<in>set ks. kept k \<Longrightarrow> rets fine (okn room kept) (looping (comma_create f ks))"
  "room f \<Longrightarrow> kept x \<Longrightarrow> rets fine (okn room kept) (looping (unary_create f op1 x))"
  "room f \<Longrightarrow> kept x \<Longrightarrow> rets fine (okn room kept) (looping (stmt1_create f x opc))"
  "room f \<Longrightarrow> kept x \<Longrightarrow> kept y \<Longrightarrow> rets fine (okn room kept) (looping (stmt2_create f opc x y))"
  "room f \<Longrightarrow> \<forall>k\<in>set ks. kept k \<Longrightarrow> rets fine (okn room kept) (looping (stmt3_create f opc ks))"
  "room f \<Longrightarrow> \<forall>k\<in>set ks. kept k \<Longrightarrow> rets fine (okn room kept) (looping (stmtn_create f opc ks))"
  "room f \<Longrightarrow> \<forall>k\<in>set ks. kept k \<Longrightarrow> rets fine (okn room kept) (looping (mem_create f k opn ks))"
  by (simp_all add: binary_create_def tuple_create_def tuple2_def comma_create_def unary_create_def unary_create_kind_def
      stmt1_create_def stmt2_create_def stmt3_create_def stmtn_create_def mem_create_def kept_create)

lemma rets_const: "room f \<Longrightarrow> (\<And>f1 c. room f1 \<Longrightarrow> kept c \<Longrightarrow> rets fine X (k f1 c)) \<Longrightarrow>
    rets fine X (case const_create f v of (f1, c) \<Rightarrow> k f1 c)"
  "room f \<Longrightarrow> (\<And>f1 c. room f1 \<Longrightarrow> kept c \<Longrightarrow> rets fine X (k f1 c)) \<Longrightarrow> rets fine X (case one_const f kd of (f1, c) \<Rightarrow> k f1 c)"
  "room f \<Longrightarrow> (\<And>f1 c. room f1 \<Longrightarrow> kept c \<Longrightarrow> rets fine X (k f1 c)) \<Longrightarrow> rets fine X (case two_const f kd of (f1, c) \<Rightarrow> k f1 c)"
  using kept_const [of f v] kept_one_two [of f kd] by (auto split: prod.splits)

lemma simplify_unary_rets: "room f \<Longrightarrow> kept x \<Longrightarrow> rets fine (okn room kept) (simplify_unary f k op x)"
  unfolding simplify_unary_def Let_def
  by (intro rets_if rets_const) (simp_all add: simplify_cast_def downcast_defs)

lemma view_get_kept: "\<forall>k\<in>set kids. kept k \<Longrightarrow> kept (view_get bad_node kids i)"
  by (auto simp: view_get_def)

lemma try_unary_rets: "room f \<Longrightarrow> \<forall>k\<in>set kids. kept k \<Longrightarrow> rets fine (okn room kept) (try_unary o1 f n kids)"
  unfolding try_unary_def Let_def
  by (intro rets_if rets_bind [where Y = "\<lambda>_. True"] rets_ub simplify_unary_rets) (simp_all add: kept_const view_get_kept)

lemma partial_eval_binary_rets:
  "room f \<Longrightarrow> kept x \<Longrightarrow> kept y \<Longrightarrow> rets fine (okn room kept) (partial_eval_binary f op x y)"
  unfolding partial_eval_binary_def Let_def
  by (rule rets_bind [where Y = "\<lambda>_. True"]) (auto intro!: rets_if rets_ub)

lemma simplify_comma_rets:
  assumes "room f" "\<forall>k\<in>set args. kept k"
  shows "rets fine (okn room kept) (simplify_comma o1 f args)"
  using assms unfolding simplify_comma_def Let_def
  by (intro rets_if rets_creates) (auto dest: in_set_butlastD)

lemma simplify_boolean_rets:
  "room f \<Longrightarrow> kept x \<Longrightarrow> kept y \<Longrightarrow> rets fine (okn room kept) (simplify_boolean o1 f op x y)"
  unfolding simplify_boolean_def Let_def
  by (intro rets_if simplify_comma_rets) simp_all

lemma simplify_comparison_rets:
  "room f \<Longrightarrow> kept x \<Longrightarrow> kept y \<Longrightarrow> rets fine (okn room kept) (simplify_comparison o1 f op x y)"
  unfolding simplify_comparison_def Let_def
  by (intro rets_if) (auto split: op2.split intro!: simplify_comma_rets)

lemma simplify_op2_rets: "room f \<Longrightarrow> kept x \<Longrightarrow> kept y \<Longrightarrow> rets fine (okn room kept) (simplify_op2 o1 f op x y)"
  unfolding simplify_op2_def
  by (intro rets_if simplify_boolean_rets simplify_comparison_rets)
    (simp_all add: simplify_sub_def simplify_quo_def simplify_rem_def simplify_shift_def kept_one_two)

lemma simplify_binary_rets: "room f \<Longrightarrow> kept x \<Longrightarrow> kept y \<Longrightarrow> rets fine (okn room kept) (simplify_binary o1 f op x y)"
  unfolding simplify_binary_def Let_def
  by (intro bind_pair partial_eval_binary_rets rets_if simplify_op2_rets) (simp_all add: downcast_defs)

lemma try_binary_rets: "room f \<Longrightarrow> \<forall>k\<in>set kids. kept k \<Longrightarrow> rets fine (okn room kept) (try_binary o1 f n kids)"
  unfolding try_binary_def Let_def
  by (intro rets_if rets_bind [where Y = "\<lambda>_. True"] rets_ub simplify_binary_rets) (simp_all add: kept_const view_get_kept)

lemma simplify_assign_rets: "room f \<Longrightarrow> kept dst \<Longrightarrow> rets fine (okn room kept) (simplify_assign o1 f op dst v)"
  unfolding simplify_assign_def Let_def
  by (intro rets_if rets_bind_ub rets_const) simp_all

lemma assign_self_rets: "room f \<Longrightarrow> kept dst \<Longrightarrow> rets fine (okn room kept) (assign_self f op dst)"
  unfolding assign_self_def Let_def
  by (intro rets_if rets_const) simp_all

lemma try_assign_other_rets:
  assumes "room f" "kept dst" "kept src" "op \<noteq> ASSIGN"
  shows "rets fine (okn room kept) (try_assign o1 f op dst src)" "rets fine (okn room kept) (make_assign o1 f op dst src)"
proof -
  show t: "rets fine (okn room kept) (try_assign o1 f op dst src)"
    by (subst try_assign.simps, unfold Let_def, intro rets_if simplify_assign_rets assign_self_rets) (use assms in simp_all)
  show "rets fine (okn room kept) (make_assign o1 f op dst src)"
    by (subst make_assign.simps) (use assms in \<open>auto intro!: bind_pair [OF t] rets_if\<close>)
qed

lemma try_assign_rets:
  assumes "room f" "kept dst" "kept src"
  shows "rets fine (okn room kept) (try_assign o1 f op dst src)"
  by (subst try_assign.simps, unfold Let_def,
      intro rets_if simplify_assign_rets assign_self_rets try_assign_other_rets(2)) (use assms in \<open>simp_all add: downcast_defs\<close>)

lemma try_node_rets: "room f \<Longrightarrow> \<forall>k\<in>set kids. kept k \<Longrightarrow> rets fine (okn room kept) (try_node o1 f n kids)"
  unfolding try_node_def
  by (intro rets_if try_unary_rets try_binary_rets try_assign_rets) (simp_all add: view_get_kept)

lemma finish_tuple_rets:
  assumes "room f" "kept n" "\<forall>k\<in>set kids. kept k"
  shows "rets fine (okn room kept) (finish_tuple f n kids v)" "rets fine (okn room kept) (rebuild_tuple f n kids)"
proof -
  show r: "rets fine (okn room kept) (rebuild_tuple f n kids)" using assms by (simp add: rebuild_tuple_def)
  show "rets fine (okn room kept) (finish_tuple f n kids v)"
    using assms r kept_const by (auto simp: finish_tuple_def split: list.split)
qed

lemma partial_eval_tuple_rets:
  assumes "room f" "kept n" "\<forall>k\<in>set kids0. kept k"
  shows "rets fine (okn room kept) (partial_eval_tuple o1 f n kids0)"
proof -
  have trail: "rets fine (\<lambda>(v, rest). \<forall>k\<in>set rest. kept k) (ub (fold_trailing k op (rev kids) v))"
    if "\<forall>k\<in>set kids. kept k" for k op kids v
    using that fold_trailing_set [of k op "rev kids" v] by (cases "fold_trailing k op (rev kids) v") auto
  show ?thesis
    unfolding partial_eval_tuple_def Let_def
    by (intro rets_if rets_bind_ub rets_bind [OF trail] finish_tuple_rets assms)
      (use assms set_sort_nodes in \<open>auto simp: kept_const
        intro!: rets_if rets_const rets_bind_ub finish_tuple_rets\<close>)
qed

lemma optimize_rets:
  "room f \<Longrightarrow> kept n \<Longrightarrow> rets fine (okn room kept) (optimize_node m o1 f n)"
  "room f \<Longrightarrow> \<forall>k\<in>set ns. kept k \<Longrightarrow> rets fine (oks room kept) (optimize_children m o1 f ns)"
  "room f \<Longrightarrow> \<forall>k\<in>set ns. kept k \<Longrightarrow> rets fine (oks room kept) (flatten m o1 opt h f ns)"
proof (induction m o1 f n and m o1 f ns and m o1 opt h f ns rule: optimize_node_optimize_children_flatten.induct)
  case (1 fuel o1 f n)
  have kids: "\<forall>k\<in>set (nkids n). kept k" using "1.prems"(2) kept_kid by blast
  show ?case
  proof (cases fuel)
    case (Suc m)
    show ?thesis
      unfolding optimize_node.simps Suc nat.case
      by (intro rets_if bind_list [OF "1.IH"(1) [OF Suc]] bind_list [OF "1.IH"(2) [OF Suc]]
          bind_pair [OF partial_eval_tuple_rets] bind_pair [OF try_node_rets] bind_pair kept_again)
        (use "1.prems" kids in \<open>simp_all\<close>)
  qed (simp add: optimize_node.simps)
next
  case (3 fuel o1 f x xs)
  show ?case
    unfolding optimize_children.simps
    by (rule bind_pair [OF "3.IH"(1)], use "3.prems" in simp_all, rule bind_list [OF "3.IH"(2)])
      auto
next
  case (5 fuel o1 opt h f x xs)
  have x: "kept x" "\<forall>k\<in>set (nkids x). kept k" "\<forall>k\<in>set xs. kept k" using "5.prems"(2) kept_kid [of x] by auto
  let ?y = "if opt then case fuel of 0 \<Rightarrow> Inl OutOfFuel | Suc m \<Rightarrow> optimize_node m o1 f x else Inr (f, x)"
  have y: "rets fine (okn room kept) ?y" if "nhead x \<noteq> h"
    using that x(1) "5.prems"(1) by (auto split: nat.split intro!: "5.IH"(2))
  have step: "rets fine (oks room kept) (rbind ?y (\<lambda>(f1, y). if nhead y = h
      then case fuel of 0 \<Rightarrow> Inl OutOfFuel | Suc m \<Rightarrow> flatten m o1 opt h f1 (nkids y) else Inr (f1, [y])))" if n: "nhead x \<noteq> h"
  proof (rule bind_pair [OF y [OF n]])
    fix f1 y assume r: "?y = Inr (f1, y)" and g: "room f1" "kept y"
    have ys: "\<forall>k\<in>set (nkids y). kept k" using g(2) kept_kid by blast
    show "rets fine (oks room kept) (if nhead y = h then case fuel of 0 \<Rightarrow> Inl OutOfFuel | Suc m \<Rightarrow> flatten m o1 opt h f1 (nkids y)
        else Inr (f1, [y]))"
    proof (cases fuel)
      case (Suc m)
      then show ?thesis using "5.IH"(3) [OF n r refl _ Suc g(1) ys] g by simp
    qed (use g in simp)
  qed
  have head: "rets fine (oks room kept) (if nhead x = h then case fuel of 0 \<Rightarrow> Inl OutOfFuel | Suc m \<Rightarrow> flatten m o1 opt h f (nkids x)
      else rbind ?y (\<lambda>(f1, y). if nhead y = h
        then case fuel of 0 \<Rightarrow> Inl OutOfFuel | Suc m \<Rightarrow> flatten m o1 opt h f1 (nkids y) else Inr (f1, [y])))"
    using x(2) "5.prems"(1) "5.IH"(1) by (intro rets_if step) (cases fuel, simp_all)
  show ?case
    unfolding flatten.simps
    by (rule bind_list [OF head], rule bind_list [OF "5.IH"(4)]) (use x(3) in \<open>auto simp: oks_def\<close>)
qed (simp_all add: optimize_children.simps flatten.simps)

lemma optimize_keeps: "room f \<Longrightarrow> kept n \<Longrightarrow> rets fine (okn room kept) (optimize m o1 f n)"
  by (simp add: optimize_def optimize_rets)

end

subsection \<open>Memory\<close>

definition can_grow :: "func \<Rightarrow> bool" where
  "can_grow f \<longleftrightarrow> (\<forall>n. alloc_code f n) \<and> good (fcode f)"

fun slim :: "node \<Rightarrow> bool" where
  "slim (Node h off ind d kids) \<longleftrightarrow> length kids < 2 ^ 32 \<and> (\<forall>k\<in>set kids. slim k)"

lemma arr_append_grows: "\<forall>n. ok n \<Longrightarrow> fst (arr_append z ok src a)"
  by (auto simp: arr_append_cases arr_grow_cap_def arr_reserve_def Let_def)

lemma code_add_items_grows: "\<forall>n. ok n \<Longrightarrow> good (code_add_items ok data c) = good c"
  using arr_append_grows [of ok 0 data "bdata c"] by (auto simp: code_add_items_def buf_append_def split: prod.splits)

lemma code_add_grows [simp]:
  assumes "\<forall>n. ok n"
  shows "good (code_add_item ok w c) = good c" "good (code_add_header ok h c) = good c"
    "good (code_add_uint64 ok v c) = good c" "good (code_add_items ok data c) = good c"
  using code_add_items_grows [OF assms] by (simp_all add: code_add_item_def code_add_header_def code_add_uint64_def)

lemma code_add_nodes_grows [simp]: "\<forall>n. ok n \<Longrightarrow> good (code_add_nodes ok kids p c) = good c"
  by (induction kids arbitrary: c) (simp_all add: code_add_node_def Let_def)

lemma slim_kids: "slim n \<longleftrightarrow> children n < 2 ^ 32 \<and> (\<forall>k\<in>set (nkids n). slim k)"
  by (cases n) (simp add: children_def)

lemma slim_kid: "slim n \<Longrightarrow> k \<in> set (nkids n) \<Longrightarrow> slim k"
  by (cases n) simp

lemma slim_leaf: "nkids n = [] \<Longrightarrow> slim n"
  by (cases n) simp

lemma slim_bad [simp]: "slim bad_node"
  by (simp add: slim_leaf bad_node_def)

lemma slim_child [simp]: "slim n \<Longrightarrow> slim (child n i)"
  by (cases n) (auto simp: child_def children_def)

lemma slim_downcast [simp]: "slim n \<Longrightarrow> slim (downcast p n)"
  by (simp add: downcast_def)

lemma slim_as [simp]: "slim n \<Longrightarrow> slim (as_expr n)"
  by (simp add: as_expr_def)

lemma slim_consts [simp]: "slim (const_small k w)" "slim (zero_const k)" "slim void_const" "slim true_const"
  "slim false_const"
  by (simp_all add: slim_leaf const_small_def zero_const_def void_const_def true_const_def false_const_def const_bool_def)

lemma create_loop_returns:
  assumes "can_grow f" "\<forall>k\<in>set kids. slim k" "length kids < 2 ^ 32"
  shows "\<exists>r. map_option (\<lambda>(c, n). (f\<lparr>fcode := c\<rparr>, n)) (create_loop (alloc_code f) h kids (fcode f)) = Some r \<and> okn can_grow slim r"
  using assms by (auto simp: create_loop_eq Let_def can_grow_def)

lemma create_indirect_returns:
  "can_grow f \<Longrightarrow> \<forall>k\<in>set kids. slim k \<Longrightarrow> \<exists>r. create_indirect f h kids = Some r \<and> okn can_grow slim r"
  using create_loop_returns [of f kids h] by (auto simp: create_indirect_def)

lemma const_create_grows: "can_grow f \<Longrightarrow> okn can_grow slim (const_create f v)"
  by (auto simp: const_create_def can_grow_def Let_def slim_leaf)

interpretation grow: optimizer_keeps slim can_grow "\<lambda>e. e \<noteq> Forever"
proof (unfold_locales, goal_cases)
  case (8 f kids h)
  then show ?case using create_indirect_returns [of f kids h] by auto
next
  case (9 f n kids)
  then show ?case using create_indirect_returns [of f kids "nhead n"] by auto
qed (auto simp: slim_leaf const_small_def const_bool_def const_create_grows intro: slim_kid)

subsection \<open>Labels\<close>

text \<open>All labels anywhere in the tree are among \<open>L\<close>.\<close>

fun all_labels :: "u16 set \<Rightarrow> node \<Rightarrow> bool" where
  "all_labels L (Node h off ind d kids) \<longleftrightarrow> (htype h = LABEL \<longrightarrow> hop h \<in> L) \<and> (\<forall>k\<in>set kids. all_labels L k)"

lemma all_labels_kids: "k \<in> set (nkids n) \<Longrightarrow> all_labels L n \<Longrightarrow> all_labels L k"
  by (cases n) simp

lemma all_labels_bad [simp]: "all_labels L bad_node"
  by (simp add: bad_node_def bad_header_def)

lemma created_labels:
  assumes "create_indirect f h kids = Some (f', n)" "\<forall>k\<in>set kids. all_labels L k" "htype h = LABEL \<longrightarrow> hop h \<in> L"
  shows "all_labels L n"
  using assms by (auto simp: create_indirect_def create_loop_eq Let_def split: if_splits)

lemma const_create_labels: "all_labels L (snd (const_create f v))"
  by (auto simp: const_create_def const_header_def Let_def)

lemma all_labels_head: "all_labels L n \<Longrightarrow> htype (nhead n) = LABEL \<longrightarrow> hop (nhead n) \<in> L"
  by (cases n) simp

lemma creating_labels:
  "\<forall>k\<in>set kids. all_labels L k \<Longrightarrow> htype h = LABEL \<longrightarrow> hop h \<in> L \<Longrightarrow>
    rets any_error (okn (\<lambda>_. True) (all_labels L)) (looping (create_indirect f h kids))" if "any_error Forever"
  using created_labels [of f h kids _ _ L] that by (cases "create_indirect f h kids") auto

interpretation labels: optimizer_keeps "all_labels L" "\<lambda>_. True" "\<lambda>_. True" for L
  by unfold_locales
    (auto simp: const_small_def const_bool_def const_header_def okn_def const_create_labels
      intro: all_labels_kids intro!: creating_labels dest: all_labels_head)

end
