(* ===== verification/Compile_Returns.thy ===== *)
theory Compile_Returns imports Compiler Optimizer_Returns begin

text \<open>
  With enough memory for the code of the function the compiler never runs forever. \<open>keeps m X\<close> is the judgement for a
  computation \<open>m\<close> of the compiler: started when the code can grow, it does not return \<open>Forever\<close>, its result is in \<open>X\<close>
  and the code can still grow.
\<close>

subsection \<open>The judgement\<close>

abbreviation returns :: "('a \<Rightarrow> bool) \<Rightarrow> 'a res \<Rightarrow> bool" where
  "returns \<equiv> rets (\<lambda>e. e \<noteq> Forever)"

definition growing :: "compiler \<Rightarrow> bool" where
  "growing c \<longleftrightarrow> can_grow (fn_f (cfn c))"

definition keeps :: "'a cm \<Rightarrow> ('a \<Rightarrow> bool) \<Rightarrow> bool" where
  "keeps m X \<longleftrightarrow> (\<forall>c. growing c \<longrightarrow> returns (\<lambda>(x, c'). X x \<and> growing c') (m c))"

abbreviation any :: "'a \<Rightarrow> bool" where "any \<equiv> \<lambda>_. True"

named_theorems keeping

lemma keeps_ret [keeping]: "X x \<Longrightarrow> keeps (cret x) X"
  by (simp add: keeps_def cret_def)

lemma keeps_bind: "keeps m Y \<Longrightarrow> (\<And>x. Y x \<Longrightarrow> keeps (k x) X) \<Longrightarrow> keeps (cbind m k) X"
  unfolding keeps_def cbind_def by (auto intro: rets_bind)

lemma keeps_any: "keeps m X \<Longrightarrow> keeps m any"
  unfolding keeps_def rets_def by (fastforce split: sum.splits)

lemma keeps_then [keeping]: "keeps m any \<Longrightarrow> keeps k X \<Longrightarrow> keeps (cthen m k) X"
  unfolding cthen_def by (rule keeps_bind) auto

lemma keeps_when [keeping]: "(b \<Longrightarrow> keeps m any) \<Longrightarrow> keeps (cwhen b m) any"
  by (simp add: cwhen_def keeps_ret)

lemma keeps_if [keeping]: "(b \<Longrightarrow> keeps m X) \<Longrightarrow> (\<not> b \<Longrightarrow> keeps m' X) \<Longrightarrow> keeps (if b then m else m') X"
  by simp

lemma keeps_undefined [keeping]: "keeps (cfail Undefined) X"
  by (simp add: keeps_def cfail_def)

lemma keeps_get: "(\<And>c. X (g c)) \<Longrightarrow> keeps (cget g) X"
  by (simp add: keeps_def cget_def)

lemma keeps_get_any [keeping]: "keeps (cget g) any"
  by (rule keeps_get) simp

lemma keeps_modify: "(\<And>c. growing c \<Longrightarrow> growing (g c)) \<Longrightarrow> keeps (cmodify g) any"
  by (simp add: keeps_def cmodify_def)

lemma keeps_infunc: "(\<And>f. can_grow f \<Longrightarrow> can_grow (fst (g f)) \<and> X (snd (g f))) \<Longrightarrow> keeps (infunc g) X"
  by (fastforce simp: keeps_def infunc_def growing_def set_func_def split: prod.splits)

lemma keeps_making: "(\<And>f. can_grow f \<Longrightarrow> returns (okn can_grow slim) (looping (g f))) \<Longrightarrow> keeps (making g) slim"
  unfolding keeps_def making_def by (auto simp: growing_def set_func_def intro!: rets_bind_pair)

lemma keeps_ub [keeping]: "keeps (\<lambda>c. rbind (ub r) (\<lambda>v. Inr (v, c))) any"
  by (cases r) (simp_all add: keeps_def)

lemma keeps_map: "(\<And>x. x \<in> set xs \<Longrightarrow> keeps (g x) Y) \<Longrightarrow> keeps (cmap g xs) (\<lambda>ys. length ys = length xs \<and> (\<forall>y\<in>set ys. Y y))"
proof (induction xs)
  case (Cons x xs)
  show ?case
    unfolding cmap.simps
    by (rule keeps_bind [OF Cons.prems], simp, rule keeps_bind [OF Cons.IH], use Cons.prems in \<open>auto intro!: keeps_ret\<close>)
qed (auto intro: keeps_ret)

subsection \<open>Operations\<close>

lemma keeps_modifies [keeping]: "keeps (out_node n) any" "keeps (out_error n msg) any" "keeps (enter_loop l l') any"
  "keeps exit_loop any" "keeps (enter_case l l') any" "keeps exit_case any"
  unfolding out_node_def out_error_def enter_loop_def exit_loop_def enter_case_def exit_case_def
  by (intro keeps_modify; simp add: growing_def Let_def split: prod.split)+

lemma keeps_oom [keeping]: "keeps (out_of_memory n) any"
  unfolding out_of_memory_def by (intro keeping keeps_modify) (simp add: growing_def)

lemma label_create_grows: "can_grow f \<Longrightarrow> okn can_grow slim (label_create f a i)"
  by (auto simp: label_create_def can_grow_def Let_def slim_leaf)

lemma func_new_label_grows: "can_grow f \<Longrightarrow> okn can_grow slim (func_new_label f)"
  using label_create_grows [of f 0 "of_nat (length (elems (flabels f)))"]
  by (auto simp: func_new_label_def can_grow_def Let_def split: prod.splits)

lemma var_create_grows: "can_grow f \<Longrightarrow> okn can_grow slim (var_create f l)"
  by (auto simp: var_create_def var_direct_def can_grow_def Let_def slim_leaf)

lemma can_grow_arrays [simp]: "can_grow (f\<lparr>fvars := vs\<rparr>) = can_grow f" "can_grow (f\<lparr>flabels := ls\<rparr>) = can_grow f"
  by (simp_all add: can_grow_def)

lemma func_new_var_grows:
  assumes "can_grow f" shows "okn can_grow slim (func_new_var f k)"
proof -
  have v: "can_grow f1 \<and> slim v" if "var_create f l = (f1, v)" for f1 v l
    using var_create_grows [OF assms, of l] that by simp
  show ?thesis
    using assms by (auto simp: func_new_var_def Let_def split: prod.splits dest!: v)
qed

lemma create_list_grows: "can_grow f \<Longrightarrow> can_grow (fst (create_list f h m kids))"
  by (auto simp: create_list_def can_grow_def Let_def)

lemma keeps_new [keeping]: "keeps new_label slim" "keeps (new_var k) slim"
  unfolding new_label_def new_var_def using func_new_label_grows func_new_var_grows
  by (auto intro!: keeps_infunc simp: okn_def)

lemma keeps_calls_create [keeping]: "keeps (infunc (\<lambda>f. call_create f t a args)) any"
  "keeps (infunc (\<lambda>f. assign_call_create f places call)) any"
  by (rule keeps_infunc; auto simp: call_create_def assign_call_create_def create_list_grows)+

lemma keeps_const [keeping]: "keeps (infunc (\<lambda>f. const_create f v)) slim"
  using const_create_grows by (auto intro!: keeps_infunc simp: okn_def)

lemma keeps_creates [keeping]:
  "slim l \<Longrightarrow> keeps (goto_node l) slim"
  "slim dst \<Longrightarrow> slim src \<Longrightarrow> keeps (assign_node op dst src) slim"
  "slim l \<Longrightarrow> slim x \<Longrightarrow> keeps (jump_if_node l x) slim"
  "slim x \<Longrightarrow> keeps (not_node x) slim"
  "slim x \<Longrightarrow> keeps (making (\<lambda>f. unary_create f op1 x)) slim"
  "slim x \<Longrightarrow> slim y \<Longrightarrow> keeps (making (\<lambda>f. binary_create f op2 x y)) slim"
  "\<forall>k\<in>set ks. slim k \<Longrightarrow> keeps (making (\<lambda>f. tuple_create f kd opn ks)) slim"
  "\<forall>k\<in>set ks. slim k \<Longrightarrow> keeps (making (\<lambda>f. mem_create f kd opn ks)) slim"
  "slim x \<Longrightarrow> keeps (making (\<lambda>f. stmt1_create f x op)) slim"
  "\<forall>k\<in>set ks. slim k \<Longrightarrow> keeps (making (\<lambda>f. stmt3_create f op ks)) slim"
  "\<forall>k\<in>set ks. slim k \<Longrightarrow> keeps (making (\<lambda>f. stmtn_create f op ks)) slim"
  unfolding goto_node_def assign_node_def jump_if_node_def not_node_def by (auto intro!: keeps_making grow.rets_creates)

lemma whole_range_kids: "childrange_nodes (n, 0, children n) = nkids n"
  by (auto simp: childrange_nodes_def childrange_get_def child_def children_def intro: nth_equalityI)

lemma keeps_range [keeping]:
  assumes "slim n"
  shows "keeps (making (\<lambda>f. tuple_create_range f k op (n, 0, children n))) slim"
proof (rule keeps_making)
  fix f assume f: "can_grow f"
  have n: "\<forall>k\<in>set (nkids n). slim k" "length (nkids n) < 2 ^ 32" using assms slim_kids [of n] by (auto simp: children_def)
  obtain r where r: "map_option (\<lambda>(c, n). (f\<lparr>fcode := c\<rparr>, n))
      (create_loop (alloc_code f) (mk_header TUPLE k (opn_code op)) (nkids n) (fcode f)) = Some r" "okn can_grow slim r"
    using create_loop_returns [OF f n] by blast
  then have "tuple_create_range f k op (n, 0, children n) = Some r"
    using n(2) by (simp add: tuple_create_range_def create_indirect_from_ranges_def whole_range_kids)
  with r(2) show "returns (okn can_grow slim) (looping (tuple_create_range f k op (n, 0, children n)))" by simp
qed

text \<open>The same for nodes of any kind that are only put in the code.\<close>

lemma keeps_making_any: "(\<And>f. can_grow f \<Longrightarrow> \<exists>f' x. g f = Some (f', x) \<and> can_grow f') \<Longrightarrow> keeps (making g) any"
  unfolding keeps_def making_def by (fastforce simp: growing_def set_func_def)

lemma create_indirect_grows: "can_grow f \<Longrightarrow> \<exists>f' x. create_indirect f h kids = Some (f', x) \<and> can_grow f'"
  by (auto simp: create_indirect_def create_loop_eq Let_def can_grow_def)

lemma keeps_creates_any [keeping]:
  "keeps (goto_node l) any" "keeps (assign_node op dst src) any"
  "keeps (making (\<lambda>f. stmt1_create f x op)) any" "keeps (making (\<lambda>f. stmt3_create f op ks)) any" "keeps (making (\<lambda>f. stmtn_create f op ks)) any"
  unfolding goto_node_def assign_node_def stmt1_create_def stmt2_create_def stmt3_create_def stmtn_create_def
  by (auto intro!: keeps_making_any create_indirect_grows)

subsection \<open>Calls of the compiler\<close>

definition steady :: "compile_fun \<Rightarrow> bool" where
  "steady cn \<longleftrightarrow> (\<forall>n fl. slim n \<longrightarrow> keeps (cn n fl) slim)"

lemma steady_call: "steady cn \<Longrightarrow> slim n \<Longrightarrow> keeps (cn n fl) slim"
  by (simp add: steady_def)

lemma keeps_add [keeping]: "steady cn \<Longrightarrow> slim n \<Longrightarrow> keeps (compile_add cn n fl) any"
  unfolding compile_add_def by (rule keeps_bind [OF steady_call]) (auto intro: keeping)

lemma keeps_goto [keeping]: "keeps (out_goto l) any"
  unfolding out_goto_def by (rule keeps_bind [OF keeps_creates_any(1)]) (rule keeping)

lemma keeps_out_assign [keeping]: "keeps (cbind (assign_node op dst src) out_node) any"
  by (rule keeps_bind [OF keeps_creates_any(2)]) (rule keeping)

lemma keeps_jump [keeping]: "steady cn \<Longrightarrow> slim l \<Longrightarrow> slim x \<Longrightarrow> keeps (cbind (jump_if_node l x) (\<lambda>j. compile_add cn j fl)) any"
  by (rule keeps_bind [OF keeps_creates(3)]) (auto intro: keeping)

lemma keeps_jump_unless [keeping]: "steady cn \<Longrightarrow> slim l \<Longrightarrow> slim x \<Longrightarrow> keeps (add_jump_unless cn l x fl) any"
  unfolding add_jump_unless_def by (rule keeps_bind [OF keeps_creates(4)]) (auto intro: keeping)

lemma keeps_add_assign [keeping]: "steady cn \<Longrightarrow> slim dst \<Longrightarrow> slim src \<Longrightarrow> keeps (add_assign cn dst src) any"
  unfolding add_assign_def by (rule keeps_bind [OF keeps_creates(2)]) (auto intro: keeping)

lemma keeps_to_var [keeping]:
  assumes "steady cn" "slim n"
  shows "keeps (to_var cn n) slim" "keeps (to_var_const cn n) slim" "keeps (to_var_mem_const cn n) slim"
proof -
  show v: "keeps (to_var cn n) slim"
    unfolding to_var_def Let_def
    by (intro keeping keeps_bind [OF keeps_new(2)] assms) (use assms in \<open>simp_all add: as_var_def\<close>)
  show "keeps (to_var_const cn n) slim" "keeps (to_var_mem_const cn n) slim"
    unfolding to_var_const_def to_var_mem_const_def by (intro keeping v; use assms in simp)+
qed

lemma keeps_to_place [keeping]:
  assumes "steady cn" "steady ce" "slim n"
  shows "keeps (to_place cn ce n) slim"
proof -
  have m: "slim (as_mem n)" using assms(3) by (simp add: as_mem_def)
  show ?thesis
    unfolding to_place_def Let_def
    by (intro keeps_if keeps_bind [OF keeps_range [OF m]] keeps_bind [OF steady_call [OF assms(2)]]
        keeps_bind [OF keeps_to_var(2) [OF assms(1)]] keeps_creates(8) keeps_ret) (use assms in simp_all)
qed

lemma keeps_children [keeping]:
  assumes "\<And>i. keeps (g (child n i)) slim"
  shows "keeps (map_children g n start stop) (\<lambda>ys. \<forall>y\<in>set ys. slim y)"
proof -
  have "keeps (cmap g (map (child n) [start..<stop])) (\<lambda>ys. length ys = length (map (child n) [start..<stop]) \<and> (\<forall>y\<in>set ys. slim y))"
    using assms by (intro keeps_map) auto
  then have "keeps (cmap g (map (child n) [start..<stop])) (\<lambda>ys. \<forall>y\<in>set ys. slim y)"
    unfolding keeps_def rets_def by (fastforce split: sum.splits)
  then show ?thesis
    unfolding map_children_def by (intro keeps_bind [OF keeps_get_any] keeps_if keeps_then keeps_oom keeps_ret) auto
qed

subsection \<open>Expressions\<close>

lemma keeps_unary: "steady ce \<Longrightarrow> slim n \<Longrightarrow> keeps (compile_unary ce n) slim"
  unfolding compile_unary_def Let_def by (intro keeps_bind [OF steady_call] keeping) simp_all

lemma keeps_land_lor:
  assumes "steady cn" "slim x" "slim y"
  shows "keeps (simplify_land cn x y) slim" "keeps (simplify_lor cn x y) slim"
  unfolding simplify_land_def simplify_lor_def Let_def
  by (intro keeping keeps_bind [OF keeps_new(1)] keeps_bind [OF keeps_new(2)] assms; use assms in simp)+

lemma keeps_boolean: "steady cn \<Longrightarrow> slim x \<Longrightarrow> slim y \<Longrightarrow> keeps (compiler_simplify_boolean cn op x y) slim"
  unfolding compiler_simplify_boolean_def by (auto intro: keeps_land_lor keeping)

lemma keeps_binary: "steady cn \<Longrightarrow> steady ce \<Longrightarrow> slim n \<Longrightarrow> keeps (compile_binary cn ce n fl) slim"
  unfolding compile_binary_def Let_def
  by (intro keeps_bind [OF steady_call] keeps_bind [OF keeps_if [OF keeps_boolean keeps_ret]] keeping) simp_all

lemma keeps_call:
  assumes "steady cn" "slim call"
  shows "keeps (compile_call cn call fl) (\<lambda>x. fl AND SimplifyCall \<noteq> 0 \<longrightarrow> slim x)"
proof -
  have args: "keeps (to_vars cn call 2 m) any" for m
    unfolding to_vars_def by (rule keeps_any [OF keeps_children]) (intro keeps_to_var(1) assms grow.kept_child)
  have call: "keeps (if q then cret call else cbind (to_vars cn call 2 m) (\<lambda>vargs. infunc (\<lambda>f. call_create f t a vargs))) any" for q m t a
    by (intro keeping keeps_bind [OF args]) simp
  show ?thesis
    unfolding compile_call_def Let_def
    by (intro keeps_bind [OF call] keeps_if keeps_bind [OF keeps_new(2)] keeps_then keeps_out_assign keeps_ret) simp_all
qed

lemma keeps_tuple:
  assumes "steady cn" "slim n" "fl AND SimplifyCall \<noteq> 0"
  shows "keeps (compile_tuple cn n fl) slim"
proof -
  have call: "keeps (compile_call cn (as_call n) fl) slim"
    using keeps_call [OF assms(1), of "as_call n" fl] assms(2,3) by (simp add: as_call_def)
  have kids: "keeps (cmap (\<lambda>x. cbind (cn x fl) (to_var_mem_const cn)) (nkids n))
      (\<lambda>ys. length ys = length (nkids n) \<and> (\<forall>y\<in>set ys. slim y))"
    using assms(1,2) slim_kids [of n] by (intro keeps_map keeps_bind [OF steady_call [OF assms(1)]] keeps_to_var(3)) simp_all
  have hd: "slim (as_expr (hd ys))" if "length ys = length (nkids n) \<and> (\<forall>y\<in>set ys. slim y)" "is_foldable_op op \<and> children n = 1" for ys op
    using that by (cases ys) (simp_all add: children_def)
  show ?thesis
    unfolding compile_tuple_def
    by (intro keeps_if call keeps_bind [OF keeps_get_any] keeps_bind [OF kids] keeps_bind [OF keeps_ub] keeps_const keeps_then keeps_oom
        keeps_ret keeps_creates(7) assms(2) hd) auto
qed

lemma keeps_dispatch_expr: "steady cn \<Longrightarrow> steady ce \<Longrightarrow> slim n \<Longrightarrow> keeps (dispatch_expr cn ce n fl) slim"
  unfolding dispatch_expr_def by (auto intro: keeps_unary keeps_binary keeps_tuple keeps_ret)

subsection \<open>Statements\<close>

lemma keeps_void: "keeps m any \<Longrightarrow> keeps (cthen m (cret void_const)) slim"
  by (intro keeping) simp_all

lemma keeps_goto_to [keeping]: "keeps (out_jump_to label st msg) any" if "keeps label any"
  unfolding out_jump_to_def using that by (rule keeps_bind) (intro keeping)

lemma keeps_stmt0: "keeps (compile_stmt0 n) slim"
  unfolding compile_stmt0_def label_break_def label_continue_def label_fallthrough_def
  by (intro keeps_void keeps_if keeps_goto_to keeps_get_any keeping)

lemma keeps_stmt1:
  assumes "steady ce" "slim n"
  shows "keeps (compile_stmt1 ce n) slim"
  unfolding compile_stmt1_def Let_def
  by (intro keeps_bind [OF steady_call [OF assms(1)]] keeps_bind [OF keeps_if [OF keeps_ret keeps_creates_any(3)]] keeps_void keeping)
    (use assms(2) in simp_all)

lemma keeps_assign:
  assumes "steady cn" "steady ce" "slim n"
  shows "keeps (compile_assign cn ce n) slim"
  unfolding compile_assign_def Let_def
  by (intro keeps_bind [OF keeps_bind [OF steady_call [OF assms(2)] keeps_to_place [OF assms(1,2)]]]
      keeps_bind [OF steady_call [OF assms(2)]] keeps_bind [OF keeps_if [OF keeps_creates_any(2) keeps_ret]] keeps_void keeping)
    (use assms(3) in simp_all)

lemma keeps_jump_if:
  assumes "steady ce" "slim n"
  shows "keeps (compile_jump_if ce n) slim"
proof -
  have st: "keeps (cbind (making (\<lambda>f. stmt3_create f op xs)) (\<lambda>st. cthen (out_node st) (cret void_const))) slim" for op xs
    by (intro keeps_bind [OF keeps_creates_any(4)] keeps_void keeps_modifies)
  have val: "keeps (if q then (\<lambda>c. rbind (ub r) (\<lambda>v. Inr (v, c))) else cret bad_value) any" for q r
    by (intro keeps_if keeps_ub keeps_ret TrueI)
  show ?thesis
    unfolding compile_jump_if_def Let_def
    by (rule keeps_bind [OF steady_call [OF assms(1)]])
      (use assms(2) in \<open>auto simp only: split: prod.split intro!: keeps_bind [OF val] keeps_if keeps_void keeps_when keeps_goto st grow.kept_as grow.kept_child\<close>)
qed

lemma keeps_error_out: "slim n \<Longrightarrow> keeps (cthen (out_error n msg) (cthen (out_node m) (cret void_const))) slim"
  by (intro keeping) simp

lemma keeps_stmt2: "steady cn \<Longrightarrow> steady ce \<Longrightarrow> slim n \<Longrightarrow> keeps (compile_stmt2 cn ce n) slim"
  unfolding compile_stmt2_def by (intro keeps_if keeps_jump_if keeps_assign keeps_error_out keeps_void keeping)

lemma keeps_stmt3:
  assumes "steady cn" "steady ce" "slim n"
  shows "keeps (compile_stmt3 cn ce n) slim"
  unfolding compile_stmt3_def compile_if_def Let_def
  by (intro keeps_bind [OF steady_call [OF assms(2)]] keeps_bind [OF keeps_new(1)] keeps_bind [OF keeps_if [OF keeps_new(1) keeps_ret]]
      keeps_if keeps_void keeps_then keeps_add [OF assms(1)] keeps_jump_unless [OF assms(1)] keeps_goto keeps_when keeps_modifies)
    (use assms(3) in simp_all)

lemma keeps_stmt4:
  assumes "steady cn" "slim n"
  shows "keeps (compile_stmt4 cn n) slim"
  unfolding compile_stmt4_def compile_for_def Let_def
  by (intro keeps_bind [OF keeps_new(1)] keeps_bind [OF keeps_if [OF keeps_new(1) keeps_ret]] keeps_bind [OF keeps_creates(1)]
      keeps_if keeps_void keeps_then keeps_add [OF assms(1)] keeps_jump [OF assms(1)] keeps_goto keeps_when keeps_modifies keeps_ret)
    (use assms(2) in simp_all)

lemma keeps_cond_clauses:
  assumes "steady cn" "slim l_end"
  shows "\<forall>x\<in>set xs. slim x \<Longrightarrow> keeps (cond_clauses cn l_end goto_end xs) any"
proof (induction xs rule: induct_list012)
  case (3 test body rest)
  show ?case
    unfolding cond_clauses.simps
    by (intro keeps_bind [OF keeps_if [OF keeps_ret keeps_new(1)]] keeps_then keeps_add [OF assms(1)] keeps_jump_unless [OF assms(1)]
        keeps_when keeps_modifies "3.IH"(1)) (use "3.prems" assms(2) in simp_all)
qed (auto intro: keeps_ret)

lemma keeps_cond:
  assumes "steady cn" "slim n"
  shows "keeps (compile_cond cn n) slim"
  unfolding compile_cond_def
  by (intro keeps_if keeps_ret keeps_error_out keeps_bind [OF keeps_new(1)] keeps_bind [OF keeps_if [OF keeps_ret keeps_creates_any(1)]]
      keeps_void keeps_cond_clauses [OF assms(1)]) (use assms(2) slim_kids [of n] in simp_all)

lemma keeps_block:
  assumes "steady cn" "slim n"
  shows "keeps (compile_block cn n) slim"
  unfolding compile_block_def
  by (intro keeps_bind [OF keeps_map [OF steady_call [OF assms(1)]]] keeps_ret) (use assms(2) slim_kids [of n] in simp_all)

lemma keeps_assign_call:
  assumes "steady cn" "steady ce" "slim n"
  shows "keeps (compile_assign_call cn ce n) slim"
proof -
  have call: "keeps (compile_call cn (as_call (child n i)) fl) any" for i fl
    by (rule keeps_any [OF keeps_call [OF assms(1)]]) (use assms(3) in \<open>simp add: as_call_def\<close>)
  have places: "keeps (to_places cn ce n i j) any" for i j
    unfolding to_places_def by (rule keeps_any [OF keeps_children]) (intro keeps_to_place assms grow.kept_child)
  show ?thesis
    unfolding compile_assign_call_def Let_def
    by (intro keeps_bind [of _ any] keeps_if keeps_ret keeps_bind [OF call] keeps_bind [OF places] keeps_calls_create keeps_void keeps_modifies
        TrueI)
qed

lemma keeps_return_values:
  assumes "steady ce" "slim st"
  shows "keeps (return_values ce st cap i vs vars) any"
proof (induction vs arbitrary: i vars)
  case (Cons v vs)
  show ?case
    unfolding return_values.simps Let_def
    by (intro keeps_bind [OF keeps_get_any] keeps_if keeps_undefined keeps_then keeps_when keeps_modifies
        keeps_bind [OF steady_call [OF assms(1)]] keeps_out_assign Cons.IH) (use assms(2) in simp_all)
qed (simp add: keeps_ret)

lemma keeps_return:
  assumes "steady ce" "slim n"
  shows "keeps (compile_return ce n) slim"
  unfolding compile_return_def
  by (intro keeps_bind [OF keeps_get_any] keeps_if keeps_error_out keeps_void keeps_modifies keeps_bind [OF keeps_return_values [OF assms]]
      keeps_then keeps_when keeps_oom keeps_bind [OF keeps_creates_any(5)] keeps_ret assms(2)) simp_all

lemma keeps_switch_cases:
  assumes "steady cn" "slim expr" "slim l_break"
  shows "\<forall>x\<in>set xs. slim x \<Longrightarrow> slim l_default \<Longrightarrow> slim l_this \<Longrightarrow> slim l_ft \<Longrightarrow>
    keeps (switch_cases cn expr l_break goto_break l_default l_this l_ft xs) any"
proof (induction xs arbitrary: l_default l_this l_ft)
  case (Cons x xs)
  have c: "slim (child (as_case x) i)" for i using Cons.prems(1) by (simp add: as_case_def)
  show ?case
    unfolding switch_cases.simps Let_def
  proof (intro keeps_bind [OF keeps_if [OF keeps_ret keeps_new(1)]])
    fix l_next l_fall assume l: "slim l_next" "slim l_fall"
    have label: "keeps (cwhen q (out_node l)) any" for q l by (intro keeps_when keeps_modifies)
    have def: "keeps (cbind (if q then cret l_ft else new_label) (\<lambda>l. cret (l, l))) (\<lambda>(l, l'). slim l \<and> slim l')" for q
      by (intro keeps_bind [OF keeps_if [OF keeps_ret keeps_new(1)]] keeps_ret) (use Cons.prems(4) in simp_all)
    have test: "keeps (cbind (making (\<lambda>f. binary_create f NEQ expr (as_expr (child (as_case x) 0)))) (\<lambda>test.
        cbind (jump_if_node l_next test) (\<lambda>j. compile_add cn j SimplifyDefault))) any"
      by (intro keeps_bind [OF keeps_creates(6)] keeps_jump [OF assms(1)]) (use assms(2) c l in simp_all)
    have rest: "keeps (switch_cases cn expr l_break goto_break d l_next l_fall xs) any" if "slim d" for d
      using Cons.prems(1) that l by (intro Cons.IH) auto
    show "keeps (cthen (cwhen (node_valid l_this) (out_node l_this))
        (cbind (if nop (as_case x) = DEFAULT then
                  if xs = [] then cret (l_ft, l_default)
                  else cthen (out_goto l_next) (cbind (if node_valid l_ft then cret l_ft else new_label) (\<lambda>l. cret (l, l)))
                else cthen
                  (cbind (making (\<lambda>f. binary_create f NEQ expr (as_expr (child (as_case x) 0)))) (\<lambda>test.
                   cbind (jump_if_node l_next test) (\<lambda>j. compile_add cn j SimplifyDefault)))
                  (cret (l_ft, l_default))) (\<lambda>(l_this_fallthrough, l_default).
           cthen (cwhen (node_valid l_this_fallthrough) (out_node l_this_fallthrough))
          (cthen (enter_case l_break l_fall)
          (cthen (compile_add cn (child (as_case x) 1) SimplifyAll)
          (cthen exit_case
          (cthen (cwhen (xs \<noteq> []) (out_node goto_break))
             (switch_cases cn expr l_break goto_break l_default l_next l_fall xs)))))))) any"
      by (intro keeps_then label keeps_bind [of _ "\<lambda>(l, l'). slim l \<and> slim l'"] keeps_if keeps_ret def test keeps_goto)
        (use Cons.prems c rest in \<open>auto intro!: keeps_then label keeps_modifies keeps_add [OF assms(1)]\<close>)
  qed (use assms(3) Cons.prems(2) in \<open>simp_all split: if_splits\<close>)
qed (simp add: keeps_ret)

lemma keeps_switch:
  assumes "steady cn" "slim n"
  shows "keeps (compile_switch cn n) slim"
proof -
  have xs: "\<forall>x\<in>set (drop 1 (nkids n)). slim x" using assms(2) slim_kids [of n] by (auto dest: in_set_dropD)
  have "keeps (cbind (to_var cn (as_expr (child n 0))) (\<lambda>expr. cbind new_label (\<lambda>l_break. cbind (goto_node l_break) (\<lambda>goto_break.
            cthen (switch_cases cn expr l_break goto_break bad_node bad_node bad_node (drop 1 (nkids n)))
           (cthen (out_node l_break) (cret void_const)))))) slim"
    by (intro keeps_bind [OF keeps_to_var(1) [OF assms(1)]] keeps_bind [OF keeps_new(1)] keeps_bind [OF keeps_creates_any(1)]
        keeps_then keeps_switch_cases [OF assms(1)] keeps_modifies keeps_ret) (use assms(2) xs in simp_all)
  then show ?thesis
    unfolding compile_switch_def by (auto split: option.split intro!: keeps_void keeps_modifies)
qed

lemma keeps_stmtn: "steady cn \<Longrightarrow> steady ce \<Longrightarrow> slim n \<Longrightarrow> keeps (compile_stmtn cn ce n) slim"
  unfolding compile_stmtn_def
  by (intro keeps_if keeps_assign_call keeps_block keeps_cond keeps_return keeps_switch keeps_void keeps_modifies)

lemma keeps_dispatch_node: "steady cn \<Longrightarrow> steady ce \<Longrightarrow> slim n \<Longrightarrow> keeps (dispatch_node cn ce n fl) slim"
  unfolding dispatch_node_def
  by (auto split: ntype.split intro: keeps_stmt0 keeps_stmt1 keeps_stmt2 keeps_stmt3 keeps_stmt4 keeps_stmtn steady_call keeps_ret)

lemma keeps_fuel: "keeps (cfail OutOfFuel) X"
  by (simp add: keeps_def cfail_def)

lemma steady_compile: "steady (compile_node k) \<and> steady (compile_expr k)"
proof (induction k)
  case (Suc k)
  then show ?case
    unfolding steady_def [of "compile_node (Suc k)"] steady_def [of "compile_expr (Suc k)"]
    by (simp add: keeps_dispatch_node keeps_dispatch_expr)
qed (simp add: steady_def keeps_fuel)

end
