(* ===== verification/Compile_Steps.thy ===== *)
theory Compile_Steps imports Compile_Returns begin

text \<open>
  Running the compiler step by step when all of its memory can grow (\<open>ready\<close>): the result of each operation as an
  equation. The new nodes and the new states have names of their own (\<open>new_at\<close>, \<open>put\<close>, \<open>emit\<close>), so that the simplifier runs
  whole compilations without looking at the items of the code.
\<close>

named_theorems running

subsection \<open>Functions\<close>

lemma append_room:
  assumes "\<forall>n. ok n"
  obtains a' where "arr_append z ok src a = (True, a')" "elems a' = elems a @ src"
proof
  show "arr_append z ok src a = (True, snd (arr_append z ok src a))" using arr_append_grows [OF assms] by (metis prod.collapse)
  show "elems (snd (arr_append z ok src a)) = elems a @ src"
    by (intro arr_append_success arr_append_grows assms)
qed

definition roomy :: "func \<Rightarrow> bool" where
  "roomy f \<longleftrightarrow> can_grow f \<and> (\<forall>n. alloc_vars f n) \<and> (\<forall>n. alloc_labels f n)"

definition put :: "header \<Rightarrow> node list \<Rightarrow> func \<Rightarrow> func" where
  "put h kids f = fst (the (create_indirect f h kids))"

definition new_at :: "func \<Rightarrow> header \<Rightarrow> node list \<Rightarrow> node" where
  "new_at f h kids = Node h (code_length (fcode f)) True [] kids"

lemma create_put:
  assumes "roomy f" "length kids < 2 ^ 32"
  shows "create_indirect f h kids = Some (put h kids f, new_at f h kids)"
  using assms by (simp add: put_def new_at_def create_indirect_def create_loop_eq Let_def roomy_def can_grow_def)

lemma put_fields [simp]:
  assumes "roomy f" "length kids < 2 ^ 32"
  shows "roomy (put h kids f)" "fvars (put h kids f) = fvars f" "flabels (put h kids f) = flabels f"
  using assms by (auto simp: put_def create_indirect_def create_loop_eq Let_def roomy_def can_grow_def)

lemma new_at_fields [simp]: "nhead (new_at f h kids) = h" "nkids (new_at f h kids) = kids" "nind (new_at f h kids)"
  by (simp_all add: new_at_def)

definition put_label :: "func \<Rightarrow> func" where "put_label f = fst (func_new_label f)"

definition label_at :: "func \<Rightarrow> node" where
  "label_at f = Node (mk_header LABEL eVoid (of_nat (length (elems (flabels f))))) (code_length (fcode f)) True [0, 0] []"

lemma label_at_fields [simp]:
  "nhead (label_at f) = mk_header LABEL eVoid (of_nat (length (elems (flabels f))))" "nkids (label_at f) = []"
  by (simp_all add: label_at_def)

lemma new_label_put:
  assumes "roomy f" "length (elems (flabels f)) \<le> 0xFFFF"
  shows "func_new_label f = (put_label f, label_at f)" "roomy (put_label f)" "fvars (put_label f) = fvars f"
    "elems (flabels (put_label f)) = elems (flabels f) @ [label_at f]"
proof -
  obtain ls where ls: "arr_append bad_node (alloc_labels f) [label_at f] (flabels f) = (True, ls)" "elems ls = elems (flabels f) @ [label_at f]"
    using assms(1) by (auto simp: roomy_def intro: append_room)
  obtain f1 where c: "label_create f 0 (of_nat (length (elems (flabels f)))) = (f1, label_at f)" "can_grow f1"
     "alloc_labels f1 = alloc_labels f" "alloc_vars f1 = alloc_vars f" "fvars f1 = fvars f" "flabels f1 = flabels f"
    using assms(1) by (auto simp: label_create_def label_at_def Let_def roomy_def can_grow_def)
  have "func_new_label f = (f1\<lparr>flabels := ls\<rparr>, label_at f)"
    using assms(2) ls(1) c by (simp add: func_new_label_def Let_def node_valid_def header_valid_def label_at_def)
  then show "func_new_label f = (put_label f, label_at f)" "roomy (put_label f)" "fvars (put_label f) = fvars f"
      "elems (flabels (put_label f)) = elems (flabels f) @ [label_at f]"
    using assms(1) c ls(2) by (simp_all add: put_label_def roomy_def)
qed

lemmas put_label_fields [simp] = new_label_put(2,3,4)

subsection \<open>The state of the compiler\<close>

definition ready :: "compiler \<Rightarrow> bool" where
  "ready c \<longleftrightarrow> cgood c \<and> (\<forall>n. calloc c n) \<and> roomy (fn_f (cfn c))"

definition emit :: "node \<Rightarrow> compiler \<Rightarrow> compiler" where
  "emit n c = c\<lparr>emitted := snd (arr_append bad_node (calloc c) [n] (emitted c))\<rparr>"

definition report :: "node \<Rightarrow> string \<Rightarrow> compiler \<Rightarrow> compiler" where
  "report n msg c = c\<lparr>errors := snd (arr_append (bad_node, []) (calloc c) [(n, msg)] (errors c))\<rparr>"

lemma emit_fields [simp]:
  "cfn (emit n c) = cfn c" "ccheck (emit n c) = ccheck c" "breaks (emit n c) = breaks c" "continues (emit n c) = continues c"
  "fallthroughs (emit n c) = fallthroughs c" "errors (emit n c) = errors c" "calloc (emit n c) = calloc c" "cgood (emit n c) = cgood c"
  "\<forall>n. calloc c n \<Longrightarrow> elems (emitted (emit n c)) = elems (emitted c) @ [n]" "ready (emit n c) = ready c"
  by (simp_all add: emit_def ready_def) (metis append_room snd_conv)

lemma report_fields [simp]:
  "cfn (report n msg c) = cfn c" "ccheck (report n msg c) = ccheck c" "breaks (report n msg c) = breaks c"
  "continues (report n msg c) = continues c" "fallthroughs (report n msg c) = fallthroughs c" "emitted (report n msg c) = emitted c"
  "calloc (report n msg c) = calloc c" "cgood (report n msg c) = cgood c"
  "\<forall>n. calloc c n \<Longrightarrow> elems (errors (report n msg c)) = elems (errors c) @ [(n, msg)]" "ready (report n msg c) = ready c"
  by (simp_all add: report_def ready_def) (metis append_room snd_conv)

lemma set_func_fields [simp]:
  "cfn (set_func f c) = (cfn c)\<lparr>fn_f := f\<rparr>" "ccheck (set_func f c) = ccheck c" "breaks (set_func f c) = breaks c"
  "continues (set_func f c) = continues c" "fallthroughs (set_func f c) = fallthroughs c" "emitted (set_func f c) = emitted c"
  "errors (set_func f c) = errors c" "calloc (set_func f c) = calloc c" "cgood (set_func f c) = cgood c"
  by (simp_all add: set_func_def)

lemma ready_changes [simp]: "ready c \<Longrightarrow> ready (set_func f c) = roomy f" "ready (c\<lparr>breaks := a\<rparr>) = ready c"
  "ready (c\<lparr>continues := a\<rparr>) = ready c" "ready (c\<lparr>fallthroughs := a\<rparr>) = ready c"
  by (simp_all add: ready_def)

definition pushed :: "compiler \<Rightarrow> node \<Rightarrow> node arr \<Rightarrow> node arr" where
  "pushed c l a = snd (arr_append bad_node (calloc c) [l] a)"

lemma pushed_elems [simp]: "\<forall>n. calloc c n \<Longrightarrow> elems (pushed c l a) = elems a @ [l]"
  unfolding pushed_def by (metis append_room snd_conv)

definition popped :: "node arr \<Rightarrow> node arr" where
  "popped a = arr_truncate (length (elems a) - 1) a"

lemma popped_elems [simp]: "elems (popped a) = butlast (elems a)"
  by (cases "elems a = []") (simp_all add: popped_def arr_truncate_def view_truncate_def butlast_conv_take)

subsection \<open>The operations\<close>

lemma out_emit [running]: "ready c \<Longrightarrow> out_node n c = Inr ((), if node_same n void_const then c else emit n c)"
  by (rule append_room [of "calloc c" bad_node "[n]" "emitted c"]) (simp_all add: out_node_def cmodify_def emit_def ready_def)

lemma out_report [running]: "ready c \<Longrightarrow> out_error n msg c = Inr ((), report n msg c)"
  by (rule append_room [of "calloc c" "(bad_node, [])" "[(n, msg)]" "errors c"]) (simp_all add: out_error_def cmodify_def report_def ready_def)

lemma new_label_at [running]:
  "ready c \<Longrightarrow> length (elems (flabels (fn_f (cfn c)))) \<le> 0xFFFF \<Longrightarrow>
    new_label c = Inr (label_at (fn_f (cfn c)), set_func (put_label (fn_f (cfn c))) c)"
  by (simp add: new_label_def infunc_def new_label_put(1) ready_def)

lemma making_at:
  "ready c \<Longrightarrow> length kids < 2 ^ 32 \<Longrightarrow>
    making (\<lambda>f. create_indirect f h kids) c = Inr (new_at (fn_f (cfn c)) h kids, set_func (put h kids (fn_f (cfn c))) c)"
  by (simp add: making_def create_put ready_def)

lemma make_at [running]:
  assumes "ready c"
  shows "goto_node l c = Inr (new_at (fn_f (cfn c)) (mk_header STMT_1 eVoid GOTO) [l], set_func (put (mk_header STMT_1 eVoid GOTO) [l] (fn_f (cfn c))) c)"
    "jump_if_node l x c = Inr (new_at (fn_f (cfn c)) (mk_header STMT_2 eVoid JUMP_IF) [l, x], set_func (put (mk_header STMT_2 eVoid JUMP_IF) [l, x] (fn_f (cfn c))) c)"
    "not_node x c = Inr (new_at (fn_f (cfn c)) (mk_header UNARY eBool (op1_code NOT1)) [x], set_func (put (mk_header UNARY eBool (op1_code NOT1)) [x] (fn_f (cfn c))) c)"
    "length xs < 2 ^ 32 \<Longrightarrow> making (\<lambda>f. stmt3_create f op xs) c =
       Inr (new_at (fn_f (cfn c)) (mk_header STMT_3 eVoid op) xs, set_func (put (mk_header STMT_3 eVoid op) xs (fn_f (cfn c))) c)"
    "length xs < 2 ^ 32 \<Longrightarrow> making (\<lambda>f. stmtn_create f op xs) c =
       Inr (new_at (fn_f (cfn c)) (mk_header STMT_N eVoid op) xs, set_func (put (mk_header STMT_N eVoid op) xs (fn_f (cfn c))) c)"
  using assms by (simp_all add: goto_node_def jump_if_node_def not_node_def stmt1_create_def stmt2_create_def stmt3_create_def
      stmtn_create_def unary_create_def unary_create_kind_def making_at)

lemma enter_loop_at [running]:
  "ready c \<Longrightarrow> enter_loop lb lc c = Inr ((), c\<lparr>breaks := pushed c lb (breaks c), continues := pushed c lc (continues c)\<rparr>)"
  by (rule append_room [of "calloc c" bad_node "[lb]" "breaks c"], simp add: ready_def,
      rule append_room [of "calloc c" bad_node "[lc]" "continues c"], simp add: ready_def)
    (simp add: enter_loop_def cmodify_def pushed_def ready_def)

lemma exit_loop_at [running]: "ready c \<Longrightarrow> elems (breaks c) \<noteq> [] \<Longrightarrow> elems (continues c) \<noteq> [] \<Longrightarrow>
   exit_loop c = Inr ((), c\<lparr>breaks := popped (breaks c), continues := popped (continues c)\<rparr>)"
  by (simp add: exit_loop_def cmodify_def popped_def ready_def)

lemma ready_roomy [simp]: "ready c \<Longrightarrow> roomy (fn_f (cfn c))" "ready c \<Longrightarrow> cgood c" "ready c \<Longrightarrow> \<forall>n. calloc c n"
  by (simp_all add: ready_def)

subsection \<open>Dispatch\<close>

lemma compile_num [running]:
  "compile_node (numeral v) n fl = dispatch_node (compile_node (pred_numeral v)) (compile_expr (pred_numeral v)) n fl"
  "compile_expr (numeral v) n fl = dispatch_expr (compile_node (pred_numeral v)) (compile_expr (pred_numeral v)) n fl"
  by (simp_all add: numeral_eq_Suc)

lemma dispatch_types [running]:
  "nty n = STMT_0 \<Longrightarrow> dispatch_node cn ce n fl = compile_stmt0 n"
  "nty n = STMT_1 \<Longrightarrow> dispatch_node cn ce n fl = compile_stmt1 ce n"
  "nty n = STMT_2 \<Longrightarrow> dispatch_node cn ce n fl = compile_stmt2 cn ce n"
  "nty n = STMT_3 \<Longrightarrow> dispatch_node cn ce n fl = compile_stmt3 cn ce n"
  "nty n = STMT_4 \<Longrightarrow> dispatch_node cn ce n fl = compile_stmt4 cn n"
  "nty n = STMT_N \<Longrightarrow> dispatch_node cn ce n fl = compile_stmtn cn ce n"
  "is_expr_type (nty n) \<Longrightarrow> node_valid n \<Longrightarrow> dispatch_node cn ce n fl = ce n fl"
  "is_expr_type (nty n) \<Longrightarrow> \<not> node_valid n \<Longrightarrow> dispatch_node cn ce n fl = cret n"
  by (auto simp: dispatch_node_def as_expr_def downcast_def is_expr_type_def split: ntype.split)

lemma node_same_refl [simp]: "node_same n n"
  by (simp add: node_same_def)

lemma same_void [simp]: "nty n \<noteq> CONSTN \<Longrightarrow> \<not> node_same n void_const"
  by (auto simp: node_same_def void_const_def const_small_def const_header_def)

lemma strip_not_other: "nty n \<noteq> UNARY \<Longrightarrow> strip_not b n = (b, n)"
  by (cases n; cases "nkids n") auto

lemma if_app [running]: "(if b then f else g) c = (if b then f c else g c)" by simp

lemma case_app [running]: "(case p of (x, y) \<Rightarrow> f x y) c = (case p of (x, y) \<Rightarrow> f x y c)" by (simp split: prod.split)

lemmas monad_defs = cbind_def cthen_def cwhen_def cret_def cget_def

end
