(* ===== verification/Compile_Func.thy ===== *)
theory Compile_Func imports Compiler_Statements Compile_Steps begin

text \<open>
  The compilation of a function: with fuel for the size of its body it ends, its code is flat, and the flow graph of
  the code can be built. Then what the compiler does to single constructs, and where it goes wrong.
\<close>

subsection \<open>Fuel\<close>

lemma foldr_max_sum:
  "(\<And>x. x \<in> set xs \<Longrightarrow> f x \<le> c * g x + b) \<Longrightarrow> foldr max (map f xs) b \<le> c * sum_list (map g xs) + b" for b c :: nat
proof (induction xs)
  case (Cons x xs)
  then have "foldr max (map f xs) b \<le> c * sum_list (map g xs) + b" "f x \<le> c * g x + b" by auto
  then show ?case by (simp add: algebra_simps)
qed simp

lemma weight_nodes: "weight n \<le> 12 * nodes_in n + 2"
proof (induction n)
  case (Node h off ind d kids)
  show ?case
  proof (cases "Node h off ind d kids = bad_node")
    case True
    then show ?thesis by simp
  next
    case False
    have "base_weight (htype h) \<le> 12" by (cases "htype h") (simp_all add: base_weight_def)
    moreover have "foldr max (map weight kids) 2 \<le> 12 * sum_list (map nodes_in kids) + 2"
      by (rule foldr_max_sum) (rule Node)
    ultimately show ?thesis using nodes_in_unfold [OF False] by simp
  qed
qed

text \<open>The fuel for the optimizer and for the compiler.\<close>

definition enough_fuel :: "nat \<Rightarrow> nat \<Rightarrow> node \<Rightarrow> bool" where
  "enough_fuel m k body \<longleftrightarrow> 2 * nodes_in body < m \<and> 12 * nodes_in body + 2 < k"

subsection \<open>The whole function\<close>

text \<open>The address of the function is its first label.\<close>

definition fn_wf :: "fn \<Rightarrow> bool" where
  "fn_wf g \<longleftrightarrow> plain (fn_label0 g)"

lemma prologue_runs:
  assumes "fn_wf (cfn c)"
  shows "runs_at c L {} add_prologue (\<lambda>_. True)"
proof -
  have set: "runs L {} (cbind (making (\<lambda>f. stmtn_create f SET_ST xs)) out_node) (\<lambda>_. True)" for xs
    by (rule runs_bind0 [OF runs_making [of _ "made (mk_header STMT_N eVoid SET_ST) xs"]])
      (auto simp: stmtn_create_def structured_def jumps_away_def jump_label_def intro: create_indirect_made intro!: out_no_jump)
  have "runs L {} (cthen (out_node (fn_label0 (cfn c)))
      (if fn_param_n (cfn c) = 0 \<or> length (fn_vars (cfn c)) < fn_param_n (cfn c) then cret ()
       else cbind (making (\<lambda>f. stmtn_create f SET_ST (take (fn_param_n (cfn c)) (fn_vars (cfn c))))) out_node)) (\<lambda>_. True)"
    using assms unfolding fn_wf_def by (intro runs_then0 [OF out_plain] runs_if set runs_ret TrueI)
  then show ?thesis by (simp add: add_prologue_def cbind_def cget_def runs_def runs_at_def)
qed

lemma epilogue_runs: "runs L {} add_epilogue (\<lambda>_. True)"
proof -
  have ret: "runs L {} (cbind (making (\<lambda>f. stmtn_create f RETURN xs)) out_node) (\<lambda>_. True)" for xs
    by (rule runs_bind0 [OF runs_making [of _ "made (mk_header STMT_N eVoid RETURN) xs"]])
      (auto simp: stmtn_create_def structured_def jumps_away_def jump_label_def intro: create_indirect_made intro!: out_no_jump)
  show ?thesis
    unfolding add_epilogue_def
    by (intro runs_bind0 [OF runs_get [of "\<lambda>_. True"]] TrueI runs_if ret runs_ret)
qed

lemma finish_runs: "runs L {} compiler_finish (\<lambda>_. True)"
proof -
  have made: "runs L {} (case xs of [] \<Rightarrow> cret void_const | [n] \<Rightarrow> cret n | ns \<Rightarrow> making (\<lambda>f. stmtn_create f BLOCK ns)) (\<lambda>_. True)" for xs
    by (auto split: list.split intro: runs_ret runs_making)
  have set: "runs L {} (cmodify (\<lambda>c. c\<lparr>cfn := g (cfn c)\<rparr>)) (\<lambda>_. True)" for g
    by (rule runs_modify) (auto simp: emits_def)
  show ?thesis
    unfolding compiler_finish_def
    by (intro runs_bind0 [OF runs_get [of "\<lambda>_. True"]] TrueI runs_if runs_bind0 [OF made] set runs_ret)
qed

definition cleared :: "fn \<Rightarrow> compiler \<Rightarrow> compiler" where
  "cleared g c = c\<lparr>cfn := g, breaks := arr_clear (breaks c), continues := arr_clear (continues c),
     fallthroughs := arr_clear (fallthroughs c), emitted := arr_clear (emitted c), errors := arr_clear (errors c), cgood := fn_ok g\<rparr>"

definition compile_body :: "nat \<Rightarrow> nat \<Rightarrow> u16 \<Rightarrow> fn \<Rightarrow> unit cm" where
  "compile_body m k flags g =
     cthen add_prologue
      (cbind (\<lambda>c. rbind (optimize m \<lparr>ocheck = ccheck c, oflags = flags\<rparr> (fn_f (cfn c)) (fn_body g))
           (\<lambda>(f, n). Inr (n, set_func f c))) (\<lambda>n.
        cthen (compile_add (compile_node k) n SimplifyDefault)
       (cthen add_epilogue compiler_finish)))"

lemma compile_func_body:
  "compile_func m k flags g c =
    (if node_valid (fn_get_compiled NOARCH g) then Inr ((), c) else compile_body m k flags g (cleared g c))"
  by (simp add: compile_func_def compile_body_def cleared_def cbind_def cthen_def cget_def cmodify_def cret_def)

text \<open>The labels of the function that its optimized body may jump to.\<close>

definition body_labels :: "u16 set \<Rightarrow> nat \<Rightarrow> u16 \<Rightarrow> fn \<Rightarrow> bool" where
  "body_labels L m flags g \<longleftrightarrow> (\<forall>check f f' n.
     optimize m \<lparr>ocheck = check, oflags = flags\<rparr> f (fn_body g) = Inr (f', n) \<longrightarrow> only_labels L n)"

lemma compile_body_runs:
  assumes "enough_fuel m k (fn_body g)" "body_labels L m flags g" "fn_wf (cfn c)"
  shows "runs_at c L {} (compile_body m k flags g) (\<lambda>_. True)"
proof -
  have opt: "runs L {} (\<lambda>c. rbind (optimize m \<lparr>ocheck = ccheck c, oflags = flags\<rparr> (fn_f (cfn c)) (fn_body g))
      (\<lambda>(f, n). Inr (n, set_func f c))) (\<lambda>n. only_labels L n \<and> weight n < k)"
    unfolding runs_def
  proof
    fix c :: compiler
    let ?r = "optimize m \<lparr>ocheck = ccheck c, oflags = flags\<rparr> (fn_f (cfn c)) (fn_body g)"
    have e: "within (nodes_in (fn_body g)) ?r"
      using optimize_ends [of m] assms(1) by (auto simp: optimize_def enough_fuel_def)
    show "runs_at c L {} (\<lambda>c. rbind (optimize m \<lparr>ocheck = ccheck c, oflags = flags\<rparr> (fn_f (cfn c)) (fn_body g))
      (\<lambda>(f, n). Inr (n, set_func f c))) (\<lambda>n. only_labels L n \<and> weight n < k)"
    proof (cases ?r)
      case (Inl err)
      then show ?thesis using e by (simp add: runs_at_def within_def)
    next
      case (Inr r)
      obtain f n where r: "r = (f, n)" by force
      have "weight n < k"
        using e Inr r weight_nodes [of n] assms(1) by (simp add: within_def enough_fuel_def)
      then show ?thesis using Inr r assms(2) by (auto simp: runs_at_def set_func_emits body_labels_def)
    qed
  qed
  have next_step: "runs_at c L {} (cbind m k) X" if "runs_at c L {} m Y" "\<And>x. Y x \<Longrightarrow> runs L {} (k x) X"
    for m :: "unit cm" and k :: "unit \<Rightarrow> unit cm" and X Y
    using runs_at_bind [OF that] by simp
  show ?thesis
    unfolding compile_body_def cthen_def [of add_prologue]
    by (rule next_step [OF prologue_runs [OF assms(3)]], intro runs_bind0 [OF opt] runs_then0 [OF add_node [OF calls_compile]]
        runs_then0 [OF epilogue_runs] finish_runs) auto
qed

lemma compile_func_runs:
  assumes "enough_fuel m k (fn_body g)" "body_labels L m flags g" "\<not> node_valid (fn_get_compiled NOARCH g)" "fn_wf g"
  shows "case compile_func m k flags g c of Inl e \<Rightarrow> e \<noteq> OutOfFuel
    | Inr (_, c') \<Rightarrow> compiler_ok c' \<longrightarrow> (elems (errors c') = [] \<longrightarrow> list_all (\<lambda>n. \<not> structured n) (elems (emitted c'))) \<and>
        targets (elems (emitted c')) \<subseteq> L \<union> defs (elems (emitted c')) \<and>
        elems (breaks c') = [] \<and> elems (continues c') = [] \<and> elems (fallthroughs c') = []"
proof -
  have s: "slabels (cleared g c) = {}" by (simp add: slabels_def cleared_def arr_clear_def)
  have e: "elems (emitted (cleared g c)) = []" "elems (errors (cleared g c)) = []" "elems (breaks (cleared g c)) = []"
      "elems (continues (cleared g c)) = []" "elems (fallthroughs (cleared g c)) = []"
    by (simp_all add: cleared_def arr_clear_def)
  have "runs_at (cleared g c) L {} (compile_body m k flags g) (\<lambda>_. True)"
    using assms(4) by (intro compile_body_runs assms(1,2)) (simp add: cleared_def)
  then show ?thesis
    using assms(3) s e by (auto simp: runs_at_def compile_func_body emits_def compiler_ok_def split: sum.splits)
qed

subsection \<open>The labels of the body\<close>

lemma all_only: "all_labels L n \<Longrightarrow> only_labels L n"
  by (induction L n rule: only_labels.induct) (auto split: if_splits, (metis in_set_dropD)+)

lemma all_UNIV: "all_labels UNIV n"
  by (induction n) auto

text \<open>The labels of the body, those of called functions included, or when it is not optimized only the others.\<close>

definition labels_within :: "u16 set \<Rightarrow> u16 \<Rightarrow> node \<Rightarrow> bool" where
  "labels_within L flags body \<longleftrightarrow> all_labels L body \<or> (flags = 0 \<and> only_labels L body)"

lemma labels_within_body:
  assumes "labels_within L flags (fn_body g)"
  shows "body_labels L m flags g"
  unfolding body_labels_def
proof (intro allI impI)
  fix check f f' n assume r: "optimize m \<lparr>ocheck = check, oflags = flags\<rparr> f (fn_body g) = Inr (f', n)"
  show "only_labels L n"
  proof (cases "all_labels L (fn_body g)")
    case True
    have "rets any (okn any (all_labels L)) (Inr (f', n) :: new_node)"
      unfolding r [symmetric] by (rule labels.optimize_keeps) (simp_all add: True)
    then show ?thesis by (simp add: all_only)
  next
    case False
    then show ?thesis using assms r by (simp add: labels_within_def optimize_def)
  qed
qed

subsection \<open>The compiler returns\<close>

lemma keeps_whole: "slim (fn_body g) \<Longrightarrow> keeps (compile_body m k flags g) any"
proof -
  assume body: "slim (fn_body g)"
  have prologue: "keeps add_prologue any"
    unfolding add_prologue_def
    by (intro keeps_bind [OF keeps_get_any] keeps_bind [OF keeps_creates_any(5)] keeps_then keeps_if keeps_modifies keeps_ret TrueI)
  have epilogue: "keeps add_epilogue any"
    unfolding add_epilogue_def
    by (intro keeps_bind [OF keeps_get_any] keeps_bind [OF keeps_creates_any(5)] keeps_if keeps_modifies keeps_ret TrueI)
  have whole: "keeps (case xs of [] \<Rightarrow> cret void_const | [n] \<Rightarrow> cret n | ns \<Rightarrow> making (\<lambda>f. stmtn_create f BLOCK ns)) any" for xs
    by (auto split: list.split intro: keeps_ret keeps_creates_any)
  have set: "growing (c\<lparr>cfn := fn_set_compiled arch n (cfn c)\<rparr>) = growing c" for c arch n
    by (simp add: growing_def fn_set_compiled_def Let_def can_grow_def)
  have finish: "keeps compiler_finish any"
    unfolding compiler_finish_def
    by (intro keeps_bind [OF keeps_get_any] keeps_if keeps_bind [OF whole] keeps_modify keeps_ret TrueI) (simp add: set)
  have opt: "keeps (\<lambda>c. rbind (optimize m \<lparr>ocheck = ccheck c, oflags = flags\<rparr> (fn_f (cfn c)) (fn_body g))
      (\<lambda>(f, n). Inr (n, set_func f c))) slim"
    unfolding keeps_def
    by (auto simp: growing_def set_func_def intro!: rets_bind_pair [OF grow.optimize_keeps] body)
  show ?thesis
    unfolding compile_body_def
    by (intro keeps_then prologue epilogue finish keeps_bind [OF opt] keeps_add) (simp_all add: steady_compile)
qed

lemma compile_func_returns:
  assumes "enough_fuel m k (fn_body g)" "slim (fn_body g)" "can_grow (fn_f g)" "fn_wf g"
  shows "compile_func m k flags g c = Inl Undefined \<or> (\<exists>c'. compile_func m k flags g c = Inr ((), c'))"
proof (cases "node_valid (fn_get_compiled NOARCH g)")
  case False
  have "body_labels UNIV m flags g" by (rule labels_within_body) (simp add: labels_within_def all_UNIV)
  then have "compile_func m k flags g c \<noteq> Inl OutOfFuel"
    using compile_func_runs [OF assms(1) _ False assms(4), of UNIV flags c] by auto
  moreover have "growing (cleared g c)" using assms(3) by (simp add: growing_def cleared_def)
  then have "compile_func m k flags g c \<noteq> Inl Forever"
    using keeps_whole [OF assms(2), of m k flags] False by (auto simp: compile_func_body keeps_def)
  ultimately show ?thesis by (cases "compile_func m k flags g c") (auto intro: oerror.exhaust)
qed (simp add: compile_func_body)


subsection \<open>The code is flat\<close>

lemma compiled_flat:
  assumes "compile_func m k flags g c = Inr ((), c')" "compiler_ok c'" "\<not> node_valid (fn_get_compiled NOARCH g)"
    and "enough_fuel m k (fn_body g)" "fn_wf g" "labels_within L flags (fn_body g)"
  shows "elems (errors c') = [] \<longrightarrow> list_all (\<lambda>n. \<not> structured n) (elems (emitted c'))"
    "targets (elems (emitted c')) \<subseteq> L \<union> defs (elems (emitted c'))"
    "elems (breaks c') = [] \<and> elems (continues c') = [] \<and> elems (fallthroughs c') = []"
  using compile_func_runs [OF assms(4) labels_within_body [OF assms(6)] assms(3,5), of c] assms(1,2) by auto



subsection \<open>An example\<close>

text \<open>\<open>for (; x; ) break\<close> in a function without parameters and results.\<close>

definition loop_var :: node where "loop_var = var_direct (local_make eBool (id_make 0x1000))"

definition loop_body :: node where
  "loop_body = Node (mk_header STMT_4 eVoid FORST) 8 True [] [void_const, loop_var, void_const, stmt0 BREAK]"

definition loop_func :: func where
  "loop_func = example_func\<lparr>flabels := \<lparr>elems = [label_example 0], acap = 1\<rparr>, fvars := \<lparr>elems = [loop_var], acap = 1\<rparr>\<rparr>"

definition loop_fn :: fn where
  "loop_fn = \<lparr>fn_f = loop_func, fn_holder = True, fn_name = bad_node, fn_type = Node (mk_header FTYPE eVoid 0) 8 True [] [],
     fn_address = label_example 0, fn_body = loop_body, fn_compiled = replicate ARCHID_N bad_node, fn_body_vars = 1, fn_compiled_vars = 0\<rparr>"

definition new_compiler :: "fn \<Rightarrow> compiler" where
  "new_compiler g = \<lparr>cfn = g, ccheck = 0, breaks = arr_empty, continues = arr_empty, fallthroughs = arr_empty,
     emitted = arr_empty, errors = arr_empty, cgood = True, calloc = (\<lambda>_. True)\<rparr>"

lemma loop_fields [simp]:
  "nhead loop_var = mk_header VAR eBool 0" "nkids loop_var = []"
  "nhead void_const = mk_header CONSTN eVoid 0" "nkids void_const = []" "nhead (stmt0 op) = mk_header STMT_0 eVoid op" "nkids (stmt0 op) = []"
  "nhead (label_example i) = mk_header LABEL eVoid i" "nhead bad_node = mk_header STMT_0 eBad 0" "htype (nhead (zero_const k)) = CONSTN"
  "nhead loop_body = mk_header STMT_4 eVoid FORST" "nkids loop_body = [void_const, loop_var, void_const, stmt0 BREAK]"
  by (simp_all add: loop_var_def var_direct_def var_header_def void_const_def zero_const_def const_small_def const_header_def stmt0_def label_example_def
      bad_node_def bad_header_def loop_body_def, code_simp+)

lemma loop_func_facts [simp]: "roomy loop_func" "elems (flabels loop_func) = [label_example 0]" "elems (fvars loop_func) = [loop_var]"
  "good (fcode loop_func)"
  by (simp_all add: loop_func_def example_func_code roomy_def can_grow_def) (simp_all add: example_func_def)

lemma loop_fn_fields [simp]: "fn_f loop_fn = loop_func" "fn_holder loop_fn" "fn_type loop_fn = Node (mk_header FTYPE eVoid 0) 8 True [] []"
  "fn_body loop_fn = loop_body" "fn_compiled loop_fn = replicate ARCHID_N bad_node"
  by (simp_all add: loop_fn_def)

lemma cleared_fields [simp]: "cfn (cleared g c) = g" "ccheck (cleared g c) = ccheck c" "elems (breaks (cleared g c)) = []"
   "elems (continues (cleared g c)) = []" "elems (fallthroughs (cleared g c)) = []" "elems (emitted (cleared g c)) = []"
   "elems (errors (cleared g c)) = []" "cgood (cleared g c) = fn_ok g" "calloc (cleared g c) = calloc c"
  by (simp_all add: cleared_def arr_clear_def)

lemma new_compiler_fields [simp]: "calloc (new_compiler g) n" "ccheck (new_compiler g) = 0"
  by (simp_all add: new_compiler_def)

lemma roomy_good [simp]: "roomy f \<Longrightarrow> good (fcode f)"
  by (simp add: roomy_def can_grow_def)

lemma cleared_ready: "ready (cleared loop_fn (new_compiler loop_fn))"
  by (simp add: ready_def fn_ok_def func_ok_def)

lemma loop_compiled:
  "\<exists>c'. compile_func 11 63 0 loop_fn (new_compiler loop_fn) = Inr ((), c') \<and> compiler_ok c' \<and> elems (errors c') = [] \<and>
     length (elems (emitted c')) = 8"
  using cleared_ready
  by (simp add: compile_func_body compile_body_def fn_get_compiled_def monad_defs add_prologue_def fn_label0_def view_get_def
    fn_param_n_def functype_param_n_def functype_result_n_def children_def sub_uint16_def saturate_uint16_def optimize_def compile_add_def
    compile_stmt4_def compile_for_def Let_def as_const_def child_def as_expr_def downcast_def is_expr_type_def node_valid_def
    header_valid_def out_goto_def compile_stmt0_def out_jump_to_def label_break_def label_continue_def top_label_def
    dispatch_expr_def compile_stmt2_def compile_jump_if_def strip_not_other jump_operands_def as_label_def as_binary_def
    comparison_to_condjump_def add_epilogue_def compiler_finish_def fn_results_def fn_vars_def fn_result_n_def
    is_return_def compiler_ok_def fn_ok_def func_ok_def val_is_valid_def bad_value_def cmodify_def fn_set_compiled_def view_sub_def Let_def running)

lemma loop_input: "enough_fuel 11 63 (fn_body loop_fn)" "slim (fn_body loop_fn)" "can_grow (fn_f loop_fn)" "fn_wf loop_fn"
  "labels_within {} 0 (fn_body loop_fn)" "\<not> node_valid (fn_get_compiled NOARCH loop_fn)"
proof -
  have new: "loop_body \<noteq> bad_node" "loop_var \<noteq> bad_node" "void_const \<noteq> bad_node" "stmt0 BREAK \<noteq> bad_node"
    by (auto dest!: arg_cong [of _ bad_node "\<lambda>n. (htype (nhead n), hkind (nhead n))"])
  have leaf: "nodes_in n = 1" if "n \<noteq> bad_node" "nkids n = []" for n using nodes_in_unfold [OF that(1)] that(2) by simp
  have "nodes_in loop_body = 5" using new by (simp add: nodes_in_unfold [OF new(1)] leaf)
  then show "enough_fuel 11 63 (fn_body loop_fn)" by (simp add: enough_fuel_def)
  have labels: "all_labels {} n" if "nkids n = []" "nty n \<noteq> LABEL" for n using that by (cases n) simp
  show "labels_within {} 0 (fn_body loop_fn)" by (simp add: labels_within_def loop_body_def labels)
  show "slim (fn_body loop_fn)" by (simp add: loop_body_def slim_leaf)
  show "can_grow (fn_f loop_fn)" using loop_func_facts(1) by (simp add: roomy_def)
  show "fn_wf loop_fn" by (simp add: fn_wf_def fn_label0_def view_get_def plain_def)
  show "\<not> node_valid (fn_get_compiled NOARCH loop_fn)"
    by (simp add: fn_get_compiled_def view_get_def node_valid_def header_valid_def)
qed




end
