(* ===== verification/X64.thy ===== *)
theory X64 imports FlowGraph begin

text \<open>
  The operands of x86_64 instructions, \<open>src/onejit/x64/\<close>: registers (\<open>regid.hpp\<close>, \<open>reg.hpp\<close>), scales
  (\<open>scale.hpp\<close>), memory operands (\<open>mem.cpp\<close>, \<open>address.hpp\<close>), the classes of arguments (\<open>arg.hpp\<close>, \<open>arg.cpp\<close>), the REX
  prefix (\<open>rex_byte.cpp\<close>) and the bytes of an address (\<open>util.cpp\<close>); and the \<open>Assembler\<close> the bytes go to
  (\<open>src/onejit/assembler.hpp\<close>, \<open>assembler.cpp\<close>).

  A register is a \<open>Local\<close> whose identifier is a \<open>RegId\<close>. A local array \<open>uint8_t buf[n]\<close> is a list of \<open>n\<close> bytes,
  passed and returned with the number of bytes in use.
\<close>

subsection \<open>Registers\<close>

text \<open>\<open>RAX = uint32_t(ArchId::X64) << 8\<close>; \<open>R8\<close> and the \<open>XMM\<close> registers follow in order.\<close>

abbreviation "ARCH_X64 \<equiv> (2 :: nat)"
abbreviation "RAX \<equiv> (512 :: u32)"
abbreviation "RCX \<equiv> (513 :: u32)"
abbreviation "RDX \<equiv> (514 :: u32)"
abbreviation "RBX \<equiv> (515 :: u32)"
abbreviation "RSP \<equiv> (516 :: u32)"
abbreviation "RBP \<equiv> (517 :: u32)"
abbreviation "RSI \<equiv> (518 :: u32)"
abbreviation "R12 \<equiv> (524 :: u32)"
abbreviation "R13 \<equiv> (525 :: u32)"
abbreviation "R15 \<equiv> (527 :: u32)"
abbreviation "RIP \<equiv> (533 :: u32)"
abbreviation "XMM0 \<equiv> (544 :: u32)"
abbreviation "XMM31 \<equiv> (575 :: u32)"

lemma reg_ids: "push_bit 8 (of_nat ARCH_X64) = RAX" "RBP + 16 = RIP" "RAX + 32 = XMM0" "RAX + 15 = R15" "XMM0 + 31 = XMM31"
  by simp_all

definition rlo :: "u32 \<Rightarrow> u8" where
  "rlo i = ucast (i AND 7)"

definition rhi :: "u32 \<Rightarrow> u8" where
  "rhi i = ucast (drop_bit 3 i AND 1)"

definition local_valid :: "u32 \<Rightarrow> bool" where
  "local_valid l \<longleftrightarrow> local_kind l \<noteq> eBad"

definition no_reg :: u32 where "no_reg = 0"

definition reg_make :: "kind \<Rightarrow> u32 \<Rightarrow> u32" where
  "reg_make k i = local_make k (id_make i)"

definition reg_id :: "u32 \<Rightarrow> u32" where "reg_id r = local_id r"
definition reg_lo :: "u32 \<Rightarrow> u8" where "reg_lo r = rlo (reg_id r)"
definition reg_hi :: "u32 \<Rightarrow> u8" where "reg_hi r = rhi (reg_id r)"

definition rex_byte :: "bits \<Rightarrow> bits \<Rightarrow> u32 \<Rightarrow> u32 \<Rightarrow> u8" where
  "rex_byte default_size sz base index =
     (let byte = reg_hi base OR push_bit 1 (reg_hi index)
      in if bits_less default_size eBits64 \<and> \<not> bits_less sz eBits64 then byte OR 0x48
         else if byte \<noteq> 0 \<or> (local_valid base \<and> \<not> local_valid index \<and> kind_bits (local_kind base) = eBits8 \<and> reg_id base \<ge> RSP)
         then byte OR 0x40
         else byte)"

subsection \<open>Scales\<close>

text \<open>\<open>eScale0\<close> is 0, otherwise a scale is the logarithm of the factor plus one.\<close>

type_synonym scale = u8

abbreviation "eScale0 \<equiv> (0 :: scale)"
abbreviation "eScale1 \<equiv> (1 :: scale)"
abbreviation "eScale2 \<equiv> (2 :: scale)"
abbreviation "eScale4 \<equiv> (3 :: scale)"
abbreviation "eScale8 \<equiv> (4 :: scale)"

definition scale_of :: "u8 \<Rightarrow> scale" where
  "scale_of v = (if v \<le> 2 then v else if v = 4 then eScale4 else if v = 8 then eScale8 else eScale0)"

definition scale_val :: "scale \<Rightarrow> u8" where
  "scale_val s = (if s \<noteq> 0 then push_bit (unat (s - 1)) 1 else 0)"

definition scale_bits :: "scale \<Rightarrow> u8" where
  "scale_bits s = (if s = eScale0 then 0 else s - 1)"

definition scale_shr :: "scale \<Rightarrow> u8 \<Rightarrow> scale" where "scale_shr s n = s - n"
definition scale_shl :: "scale \<Rightarrow> u8 \<Rightarrow> scale" where "scale_shl s n = s + n"

definition scale_string :: "scale \<Rightarrow> string" where
  "scale_string s = (let sstring = ''01248?''; i = unat s in [sstring ! (if i \<ge> 6 then 5 else i)])"

text \<open>The five scales the assembler accepts, and that a factor is read back from its constant.\<close>

definition scale_ok :: "scale \<Rightarrow> bool" where
  "scale_ok s \<longleftrightarrow> s \<le> eScale8"

lemma scale_cases: "scale_ok s \<longleftrightarrow> s \<in> {eScale0, eScale1, eScale2, eScale4, eScale8}"
proof -
  have "s \<le> 4 \<longleftrightarrow> unat s \<in> {0, 1, 2, 3, 4}" by (auto simp: word_le_nat_alt)
  then show ?thesis by (auto simp: scale_ok_def word_unat_eq_iff)
qed

lemma scale_of_val: "scale_ok s \<Longrightarrow> scale_of (scale_val s) = s"
  by (auto simp: scale_cases scale_of_def scale_val_def)

lemma scale_of_ok: "scale_ok (scale_of v)"
proof -
  have "v \<le> 2 \<Longrightarrow> v \<le> (4 :: u8)" by (auto simp: word_le_nat_alt)
  then show ?thesis by (auto simp: scale_of_def scale_ok_def)
qed

subsection \<open>Memory operands\<close>

text \<open>
  An \<open>x64::Mem\<close> is a \<open>MEM\<close> node whose operator is \<open>X86_MEM\<close>, with up to five children: label, offset, base register,
  index register and scale. A child that is missing reads as an invalid node, whose value, local or scale is 0.
\<close>

definition as_x64_mem :: "node \<Rightarrow> node" where
  "as_x64_mem = downcast (\<lambda>n. nty n = MEM \<and> nop n = opn_code X86_MEM)"

definition mem_label :: "node \<Rightarrow> node" where "mem_label m = as_label (child m 0)"
definition mem_offset :: "node \<Rightarrow> 32 word" where "mem_offset m = ucast (vbits (const_val (as_const (child m 1))))"
definition mem_base :: "node \<Rightarrow> u32" where "mem_base m = node_local (as_var (child m 2))"
definition mem_index :: "node \<Rightarrow> u32" where "mem_index m = node_local (as_var (child m 3))"
definition mem_scale :: "node \<Rightarrow> scale" where "mem_scale m = scale_of (ucast (vbits (const_val (as_const (child m 4)))))"

text \<open>The address representable by a single instruction, with its two constructors.\<close>

record address =
  ad_label :: node
  ad_base :: node
  ad_index :: node
  ad_scale :: scale
  ad_offset :: u32
  ad_fail :: bool

definition address_make :: "node \<Rightarrow> u32 \<Rightarrow> node \<Rightarrow> node \<Rightarrow> scale \<Rightarrow> address" where
  "address_make label offset base index scale =
     \<lparr>ad_label = label, ad_base = base, ad_index = index, ad_scale = scale, ad_offset = offset, ad_fail = False\<rparr>"

definition address_new :: address where
  "address_new = address_make bad_node 0 bad_node bad_node eScale1"

text \<open>\<open>Mem::create(Func, Kind, Address)\<close>; \<open>Expr args[5]\<close> is a list of five nodes, of which the first \<open>len\<close> are used.\<close>

definition mem_args :: "node \<Rightarrow> address \<Rightarrow> node list \<times> nat" where
  "mem_args offset_const a =
     (let args = replicate 5 bad_node;
          (args, len) = (if node_valid (ad_label a) then (args[0 := ad_label a], 1) else (args, 0));
          (args, len) = (if ad_offset a \<noteq> 0 then (args[1 := offset_const], 2) else (args, len));
          (args, len) = (if node_valid (ad_base a) then (args[2 := ad_base a], 3) else (args, len))
      in if node_valid (ad_index a) \<and> ad_scale a \<noteq> eScale0
         then (args[3 := ad_index a, 4 := const_small eUint8 (ucast (scale_val (ad_scale a)))], 5)
         else (args, len))"

definition x64_mem_create :: "func \<Rightarrow> kind \<Rightarrow> address \<Rightarrow> (func \<times> node) option" where
  "x64_mem_create f k a =
     (let (f1, c) = (if ad_offset a \<noteq> 0 then const_create f (mk_val eInt32 (scast (ad_offset a))) else (f, bad_node))
      in if ad_offset a \<noteq> 0 \<and> \<not> node_valid c then Some (f1, bad_node)
         else let (args, len) = mem_args c a in mem_create f1 k X86_MEM (take len args))"

subsection \<open>Classes of arguments\<close>

abbreviation "B0 \<equiv> (0 :: u8)"
abbreviation "B8 \<equiv> (1 :: u8)"
abbreviation "B16 \<equiv> (2 :: u8)"
abbreviation "B32 \<equiv> (4 :: u8)"
abbreviation "B64 \<equiv> (8 :: u8)"
abbreviation "B128 \<equiv> (16 :: u8)"

definition to_bitsize :: "bits \<Rightarrow> u8" where
  "to_bitsize b = (if b \<ge> eBits8 \<and> b \<le> eBits64 then push_bit (unat (b - eBits8)) B8 else B0)"

definition bits_compatible :: "bits \<Rightarrow> u8 \<Rightarrow> bool" where
  "bits_compatible b sizes \<longleftrightarrow> to_bitsize b AND sizes \<noteq> 0"

text \<open>\<open>Arg1\<close>, \<open>Arg2\<close> and \<open>Arg3\<close> are sets of bits; the bits of \<open>Reg\<close>, any general register, contain those of \<open>Rax\<close> and of
  \<open>Rcx\<close>, the bits of \<open>Reg_Reg\<close> those of \<open>Rax_Reg\<close> and of \<open>Reg_Rcx\<close>.\<close>

abbreviation "Arg1_None \<equiv> (0 :: u8)"
abbreviation "Arg1_Rax \<equiv> (1 :: u8)"
abbreviation "Arg1_Rcx \<equiv> (2 :: u8)"
abbreviation "Arg1_Reg \<equiv> (7 :: u8)"
abbreviation "Arg1_Xmm \<equiv> (8 :: u8)"
abbreviation "Arg1_Mem \<equiv> (16 :: u8)"
abbreviation "Arg1_Val \<equiv> (32 :: u8)"

definition to_arg1 :: "node \<Rightarrow> u8" where
  "to_arg1 n =
     (case nty n of
        VAR \<Rightarrow> (let r = node_local n; i = reg_id r
                in if local_valid r then
                     if i = RAX then Arg1_Rax else if i = RCX then Arg1_Rcx
                     else if (i \<ge> RAX \<and> i \<le> R15) \<or> i = RIP then Arg1_Reg
                     else if i \<ge> XMM0 \<and> i \<le> XMM31 then Arg1_Xmm else Arg1_None
                   else Arg1_None)
      | MEM \<Rightarrow> Arg1_Mem
      | LABEL \<Rightarrow> Arg1_Val
      | CONSTN \<Rightarrow> Arg1_Val
      | _ \<Rightarrow> Arg1_None)"

definition arg1_compatible :: "node \<Rightarrow> u8 \<Rightarrow> bool" where
  "arg1_compatible n arg \<longleftrightarrow> to_arg1 n AND arg \<noteq> Arg1_None"

abbreviation "Arg2_None \<equiv> (0 :: u16)"
abbreviation "Rax_Reg \<equiv> (0x1 :: u16)"
abbreviation "Rax_Mem \<equiv> (0x2 :: u16)"
abbreviation "Rax_Val \<equiv> (0x4 :: u16)"
abbreviation "Reg_Rcx \<equiv> (0x8 :: u16)"
abbreviation "Reg_Reg \<equiv> (0x19 :: u16)"
abbreviation "Reg_Xmm \<equiv> (0x20 :: u16)"
abbreviation "Reg_Mem \<equiv> (0x42 :: u16)"
abbreviation "Reg_Val \<equiv> (0x84 :: u16)"
abbreviation "Xmm_Reg \<equiv> (0x100 :: u16)"
abbreviation "Xmm_Xmm \<equiv> (0x200 :: u16)"
abbreviation "Xmm_Mem \<equiv> (0x400 :: u16)"
abbreviation "Mem_Rax \<equiv> (0x800 :: u16)"
abbreviation "Mem_Reg \<equiv> (0x1800 :: u16)"
abbreviation "Mem_Xmm \<equiv> (0x2000 :: u16)"
abbreviation "Mem_Val \<equiv> (0x4000 :: u16)"

definition to_arg2 :: "node \<Rightarrow> node \<Rightarrow> u16" where
  "to_arg2 n1 n2 =
     (let arg1 = to_arg1 n1; arg2 = to_arg1 n2;
          is1 = (\<lambda>a. arg1 AND a \<noteq> Arg1_None); is2 = (\<lambda>a. arg2 AND a \<noteq> Arg1_None)
      in if is1 Arg1_Rax \<and> is2 Arg1_Rcx then Rax_Reg OR Reg_Rcx
         else if is1 Arg1_Rax \<and> is2 Arg1_Reg then Rax_Reg
         else if is1 Arg1_Rax \<and> is2 Arg1_Mem then Rax_Mem
         else if is1 Arg1_Rax \<and> is2 Arg1_Val then Rax_Val
         else if is1 Arg1_Reg \<and> is2 Arg1_Rcx then Reg_Rcx
         else if is1 Arg1_Reg \<and> is2 Arg1_Reg then Reg_Reg
         else if is1 Arg1_Reg \<and> is2 Arg1_Xmm then Reg_Xmm
         else if is1 Arg1_Reg \<and> is2 Arg1_Mem then Reg_Mem
         else if is1 Arg1_Reg \<and> is2 Arg1_Val then Reg_Val
         else if is1 Arg1_Xmm \<and> is2 Arg1_Reg then Xmm_Reg
         else if is1 Arg1_Xmm \<and> is2 Arg1_Xmm then Xmm_Xmm
         else if is1 Arg1_Xmm \<and> is2 Arg1_Mem then Xmm_Mem
         else if is1 Arg1_Mem \<and> is2 Arg1_Rax then Mem_Rax
         else if is1 Arg1_Mem \<and> is2 Arg1_Reg then Mem_Reg
         else if is1 Arg1_Mem \<and> is2 Arg1_Xmm then Mem_Xmm
         else if is1 Arg1_Mem \<and> is2 Arg1_Val then Mem_Val
         else Arg2_None)"

definition arg2_compatible :: "node \<Rightarrow> node \<Rightarrow> u16 \<Rightarrow> bool" where
  "arg2_compatible n1 n2 arg \<longleftrightarrow> to_arg2 n1 n2 AND arg \<noteq> Arg2_None"

abbreviation "Arg3_None \<equiv> (0 :: u8)"
abbreviation "Reg_Reg_Val \<equiv> (1 :: u8)"
abbreviation "Reg_Mem_Val \<equiv> (2 :: u8)"

definition to_arg3 :: "node \<Rightarrow> node \<Rightarrow> node \<Rightarrow> u8" where
  "to_arg3 n1 n2 n3 =
     (let arg1 = to_arg1 n1; arg2 = to_arg1 n2; arg3 = to_arg1 n3
      in if arg1 AND Arg1_Reg \<noteq> Arg1_None \<and> arg3 AND Arg1_Val \<noteq> Arg1_None then
           if arg2 AND Arg1_Reg \<noteq> Arg1_None then Reg_Reg_Val
           else if arg2 AND Arg1_Mem \<noteq> Arg1_None then Reg_Mem_Val else Arg3_None
         else Arg3_None)"

definition arg3_compatible :: "node \<Rightarrow> node \<Rightarrow> node \<Rightarrow> u8 \<Rightarrow> bool" where
  "arg3_compatible n1 n2 n3 arg \<longleftrightarrow> to_arg3 n1 n2 n3 AND arg \<noteq> Arg3_None"

subsection \<open>The assembler\<close>

text \<open>
  A \<open>Buffer\<close> of bytes, whose flag \<open>good_\<close> also records the failures of the two other arrays; the number in a relocation is
  the number of bytes that precede the end of the field to fill. Each array has its allocator as a parameter.
\<close>

record assembler =
  abuf :: "u8 buffer"
  arelocs :: "(nat \<times> node) arr"
  aerrors :: "ferror arr"
  alloc_bytes :: "nat \<Rightarrow> bool"
  alloc_relocs :: "nat \<Rightarrow> bool"
  alloc_errors :: "nat \<Rightarrow> bool"

abbreviation asm_bytes :: "assembler \<Rightarrow> u8 list" where
  "asm_bytes d \<equiv> elems (bdata (abuf d))"

definition asm_add :: "u8 list \<Rightarrow> assembler \<Rightarrow> assembler" where
  "asm_add bytes d = d\<lparr>abuf := buf_append 0 (alloc_bytes d) bytes (abuf d)\<rparr>"

definition asm_set_good :: "bool \<Rightarrow> assembler \<Rightarrow> assembler" where
  "asm_set_good g d = d\<lparr>abuf := (abuf d)\<lparr>good := g\<rparr>\<rparr>"

definition asm_add_relocation :: "node \<Rightarrow> assembler \<Rightarrow> assembler" where
  "asm_add_relocation l d =
     (if node_valid l then
        let (ok, rs) = arr_append (0, bad_node) (alloc_relocs d) [(length (asm_bytes d), l)] (arelocs d);
            d1 = d\<lparr>arelocs := rs\<rparr>
        in if ok then d1 else asm_set_good False d1
      else d)"

definition asm_error :: "node \<Rightarrow> string \<Rightarrow> assembler \<Rightarrow> assembler" where
  "asm_error n msg d =
     (if good (abuf d) then
        let (ok, es) = arr_append (bad_node, []) (alloc_errors d) [(n, msg)] (aerrors d)
        in asm_set_good ok (d\<lparr>aerrors := es\<rparr>)
      else d)"

definition asm_out_of_memory :: "node \<Rightarrow> assembler \<Rightarrow> assembler" where
  "asm_out_of_memory n d = asm_set_good False (asm_error n ''out of memory'' d)"

subsection \<open>The bytes of an address\<close>

text \<open>\<open>int32_t(int8_t(x))\<close> and \<open>int32_t(int16_t(x))\<close>.\<close>

definition fits8 :: "u32 \<Rightarrow> bool" where "fits8 x \<longleftrightarrow> x = scast (ucast x :: u8)"
definition fits16 :: "u32 \<Rightarrow> bool" where "fits16 x \<longleftrightarrow> x = scast (ucast x :: u16)"

definition get_offset_minbytes :: "node \<Rightarrow> u32 \<Rightarrow> u32 \<Rightarrow> nat" where
  "get_offset_minbytes mem base index =
     (let offset = mem_offset mem
      in if \<not> fits8 offset \<or> node_valid (mem_label mem) \<or> reg_id base = RIP \<or> (local_valid index \<and> \<not> local_valid base) then 4
         else if offset \<noteq> 0 \<or> reg_lo base = 5 then 1 else 0)"

definition is_quirk24 :: "u32 \<Rightarrow> u32 \<Rightarrow> bool" where
  "is_quirk24 base index \<longleftrightarrow> \<not> local_valid index \<and> reg_lo base = 4"

definition buf_or :: "u8 list \<Rightarrow> nat \<Rightarrow> u8 \<Rightarrow> u8 list" where
  "buf_or buf i b = buf[i := buf ! i OR b]"

definition insert_modrm_sib :: "u8 list \<Rightarrow> nat \<Rightarrow> nat \<Rightarrow> u32 \<Rightarrow> u32 \<Rightarrow> scale \<Rightarrow> u8 list \<times> nat" where
  "insert_modrm_sib buf len immediate_bytes base index scale =
     (let buf = (if \<not> local_valid base \<and> local_valid index then buf
                 else if immediate_bytes = 1 then buf_or buf len 0x40
                 else if immediate_bytes = 4 \<and> reg_id base \<noteq> RIP then buf_or buf len 0x80
                 else buf);
          (buf, len) =
            (if local_valid index then
               ((buf_or buf len 4)[len + 1 :=
                  (if local_valid base then reg_lo base else 5) OR push_bit 3 (reg_lo index) OR push_bit 6 (scale_bits scale)],
                len + 2)
             else if local_valid base then (buf_or buf len (reg_lo base), len + 1)
             else (buf, len))
      in if is_quirk24 base index then (buf[len := 0x24], len + 1) else (buf, len))"

definition insert_offset_or_imm :: "u8 list \<Rightarrow> nat \<Rightarrow> nat \<Rightarrow> u32 \<Rightarrow> u8 list \<times> nat" where
  "insert_offset_or_imm buf len immediate_bytes offset =
     (if immediate_bytes = 1 then (buf[len := ucast offset], len + 1)
      else if immediate_bytes = 2 then (buf[len := ucast offset, len + 1 := ucast (drop_bit 8 offset)], len + 2)
      else if immediate_bytes = 4 then
        (buf[len := ucast offset, len + 1 := ucast (drop_bit 8 offset), len + 2 := ucast (drop_bit 16 offset),
             len + 3 := ucast (drop_bit 24 offset)], len + 4)
      else (buf, len))"

definition general_id :: "u32 \<Rightarrow> bool" where
  "general_id i \<longleftrightarrow> (RAX \<le> i \<and> i \<le> R15) \<or> i = RIP"

definition validate_mem :: "node \<Rightarrow> assembler \<Rightarrow> bool \<times> assembler" where
  "validate_mem mem d =
     (let base = mem_base mem; index = mem_index mem; scale = mem_scale mem; id = reg_id index;
          (ok, d) = (if local_valid base \<and> \<not> general_id (reg_id base)
                     then (False, asm_error mem ''x64::Asm memory reference: invalid base register'' d) else (True, d))
      in if local_valid index \<and> scale \<noteq> eScale0 then
           if \<not> general_id id then (False, asm_error mem ''x64::Asm memory reference: invalid index register'' d)
           else if id = RSP then (False, asm_error mem ''x64::Asm memory reference: cannot use %rsp as index register'' d)
           else if id = RIP then (False, asm_error mem ''x64::Asm memory reference: cannot use %rip as index register'' d)
           else if reg_id base = RIP then
             (False, asm_error mem ''x64::Asm memory reference: %rip-relative addressing does not allow index register'' d)
           else (ok, d)
         else (ok, d))"

end
