(* ===== verification/X64_Asm.thy ===== *)
theory X64_Asm imports X64 begin

text \<open>
  The x86_64 instructions as bytes: the tables of \<open>src/onejit/x64/inst.hpp\<close>, \<open>asm0.cpp\<close>, \<open>asm1.cpp\<close>, \<open>asmn.cpp\<close> and
  the functions that write an instruction, up to \<open>Assembler::x64\<close> of \<open>assembler.cpp\<close>. Instructions with two and three
  arguments are tables of a single bad instruction in the code (\<open>asm2.cpp\<close>, \<open>asm3.cpp\<close>).
\<close>

subsection \<open>Descriptions of instructions\<close>

abbreviation "EFnone \<equiv> (0 :: u8)"
abbreviation "EFread \<equiv> (1 :: u8)"
abbreviation "EFwrite \<equiv> (2 :: u8)"
abbreviation "EFrw \<equiv> (3 :: u8)"

text \<open>A character of a string literal, whose terminating 0 is the last.\<close>

definition char_at :: "u8 list \<Rightarrow> nat \<Rightarrow> u8" where
  "char_at chars i = (if i < length chars then chars ! i else 0)"

text \<open>\<open>Inst0\<close>, also used for \<open>InstN\<close>, which has the same fields and constructor.\<close>

record inst0 =
  i0_len :: nat
  i0_bytes :: "u8 list"
  i0_eflags :: u8

definition mk_inst0 :: "u8 list \<Rightarrow> u8 \<Rightarrow> inst0" where
  "mk_inst0 chars eflags =
     \<lparr>i0_len = length chars, i0_bytes = [char_at chars 0, char_at chars 1, char_at chars 2], i0_eflags = eflags\<rparr>"

definition inst0_bytes :: "inst0 \<Rightarrow> u8 list" where
  "inst0_bytes i = take (i0_len i) (i0_bytes i)"

record inst1 =
  i1_len :: nat
  i1_bytes :: "u8 list"
  i1_imm8 :: "u8 list"
  i1_imm32 :: "u8 list"
  i1_arg :: u8
  i1_arg_size :: u8
  i1_imm_size :: u8
  i1_eflags :: u8

definition mk_inst1 :: "u8 list \<Rightarrow> u8 list \<Rightarrow> u8 list \<Rightarrow> u8 \<Rightarrow> u8 \<Rightarrow> u8 \<Rightarrow> u8 \<Rightarrow> inst1" where
  "mk_inst1 chars imm8 imm32 arg arg_size imm_size eflags =
     \<lparr>i1_len = length chars, i1_bytes = [char_at chars 0, char_at chars 1, char_at chars 2],
      i1_imm8 = [char_at imm8 0, if char_at imm8 0 \<noteq> 0 then char_at imm8 1 else 0],
      i1_imm32 = [char_at imm32 0, if char_at imm32 0 \<noteq> 0 then char_at imm32 1 else 0],
      i1_arg = arg, i1_arg_size = arg_size, i1_imm_size = imm_size, i1_eflags = eflags\<rparr>"

definition inst1_bytes :: "inst1 \<Rightarrow> u8 list" where
  "inst1_bytes i = take (i1_len i) (i1_bytes i)"

definition inst1_imm8_bytes :: "inst1 \<Rightarrow> u8 list" where
  "inst1_imm8_bytes i = take (of_bool (i1_imm8 i ! 0 \<noteq> 0) + of_bool (i1_imm8 i ! 1 \<noteq> 0)) (i1_imm8 i)"

definition inst1_imm32_bytes :: "inst1 \<Rightarrow> u8 list" where
  "inst1_imm32_bytes i = take (of_bool (i1_imm32 i ! 0 \<noteq> 0) + of_bool (i1_imm32 i ! 1 \<noteq> 0)) (i1_imm32 i)"

subsection \<open>No argument\<close>

abbreviation "X86_CLC \<equiv> (4 :: opcode)"
abbreviation "X86_UD2 \<equiv> (21 :: opcode)"
abbreviation "X86_XTEST \<equiv> (28 :: opcode)"

definition inst0_vec :: "inst0 list" where
  "inst0_vec =
    [mk_inst0 [0xf8] EFwrite, mk_inst0 [0xfc] EFwrite, mk_inst0 [0xf5] EFrw,
     mk_inst0 [0xcc] EFnone, mk_inst0 [0xf0] EFnone, mk_inst0 [0x90] EFnone,
     mk_inst0 [0xf3, 0x90] EFnone, mk_inst0 [0x9d] EFwrite, mk_inst0 [0x9c] EFread,
     mk_inst0 [0xf3] EFnone, mk_inst0 [0xf2] EFnone, mk_inst0 [0xf9] EFwrite,
     mk_inst0 [0xfd] EFwrite, mk_inst0 [0x0f, 0x05] EFnone, mk_inst0 [0x0f, 0x34] EFnone,
     mk_inst0 [0x0f, 0x35] EFnone, mk_inst0 [0x0f, 0x07] EFnone, mk_inst0 [0x0f, 0x0b] EFnone,
     mk_inst0 [0xf2] EFnone, mk_inst0 [0xf3] EFnone, mk_inst0 [0x0f, 0xae, 0xe8] EFnone,
     mk_inst0 [0x0f, 0xae, 0xf0] EFnone, mk_inst0 [0x0f, 0xae, 0xf8] EFnone, mk_inst0 [0x0f, 0x01, 0xd5] EFnone,
     mk_inst0 [0x0f, 0x01, 0xd6] EFwrite]"

definition asm0_find :: "opcode \<Rightarrow> inst0" where
  "asm0_find op =
     (let i = X86_UD2 - X86_CLC;
          i = (if op \<ge> X86_CLC \<and> op \<le> X86_XTEST then op - X86_CLC else i)
      in inst0_vec ! unat i)"

definition asm0_emit :: "node \<Rightarrow> assembler \<Rightarrow> assembler" where
  "asm0_emit st d = asm_add (inst0_bytes (asm0_find (nop st))) d"

subsection \<open>One argument\<close>

abbreviation "X86_BSWAP \<equiv> (5 :: opcode)"
abbreviation "X86_CALL \<equiv> (6 :: opcode)"
abbreviation "X86_CBW \<equiv> (7 :: opcode)"
abbreviation "X86_DEC \<equiv> (8 :: opcode)"
abbreviation "X86_INC \<equiv> (9 :: opcode)"
abbreviation "X86_INT \<equiv> (10 :: opcode)"
abbreviation "X86_JA \<equiv> (11 :: opcode)"
abbreviation "X86_JAE \<equiv> (12 :: opcode)"
abbreviation "X86_JB \<equiv> (13 :: opcode)"
abbreviation "X86_JBE \<equiv> (14 :: opcode)"
abbreviation "X86_JE \<equiv> (15 :: opcode)"
abbreviation "X86_JG \<equiv> (16 :: opcode)"
abbreviation "X86_JGE \<equiv> (17 :: opcode)"
abbreviation "X86_JL \<equiv> (18 :: opcode)"
abbreviation "X86_JLE \<equiv> (19 :: opcode)"
abbreviation "X86_JNE \<equiv> (20 :: opcode)"
abbreviation "X86_JS \<equiv> (26 :: opcode)"
abbreviation "X86_NEG \<equiv> (28 :: opcode)"
abbreviation "X86_NOT \<equiv> (29 :: opcode)"
abbreviation "X86_POP \<equiv> (30 :: opcode)"
abbreviation "X86_PUSH \<equiv> (31 :: opcode)"
abbreviation "X86_RDTSC \<equiv> (32 :: opcode)"
abbreviation "X86_SETA \<equiv> (33 :: opcode)"
abbreviation "X86_SETS \<equiv> (48 :: opcode)"
abbreviation "X86_CLFLUSH \<equiv> (49 :: opcode)"
abbreviation "X86_CLFLUSHOPT \<equiv> (50 :: opcode)"
abbreviation "X86_CLWB \<equiv> (51 :: opcode)"
abbreviation "X86_XABORT \<equiv> (52 :: opcode)"

text \<open>The codes above are the positions of the enumerators in the tables of operations.\<close>

lemma x64_codes:
  "map (\<lambda>i. fst (opstmt0_rows ! unat i)) [X86_CLC, X86_UD2, X86_XTEST] = [''X86_CLC'', ''X86_UD2'', ''X86_XTEST'']"
  "map (\<lambda>i. fst (opstmt1_rows ! unat i)) [X86_BSWAP, X86_CALL, X86_CBW, X86_DEC, X86_INC, X86_INT, X86_JA, X86_JAE, X86_JB,
     X86_JBE, X86_JE, X86_JG, X86_JGE, X86_JL, X86_JLE, X86_JNE, X86_JS, X86_NEG, X86_NOT, X86_POP, X86_PUSH, X86_RDTSC,
     X86_SETA, X86_SETS, X86_CLFLUSH, X86_CLFLUSHOPT, X86_CLWB, X86_XABORT] =
   [''X86_BSWAP'', ''X86_CALL'', ''X86_CBW'', ''X86_DEC'', ''X86_INC'', ''X86_INT'', ''X86_JA'', ''X86_JAE'', ''X86_JB'',
     ''X86_JBE'', ''X86_JE'', ''X86_JG'', ''X86_JGE'', ''X86_JL'', ''X86_JLE'', ''X86_JNE'', ''X86_JS'', ''X86_NEG'',
     ''X86_NOT'', ''X86_POP'', ''X86_PUSH'', ''X86_RDTSC'', ''X86_SETA'', ''X86_SETS'', ''X86_CLFLUSH'', ''X86_CLFLUSHOPT'',
     ''X86_CLWB'', ''X86_XABORT'']"
  by (simp_all add: opstmt0_rows_def opstmt1_rows_def enum_rows_def opstmt0_x86_def opstmt1_mir_def opstmt1_x86_def)

definition inst1_vec :: "inst1 list" where
  "inst1_vec =
    [mk_inst1 [0x0f, 0x0b] [0x0f, 0x0b] [0x0f, 0x0b] Arg1_None B0 B0 EFnone,
     mk_inst1 [0x0f, 0xc8] [] [] Arg1_Reg (B32 OR B64) B0 EFnone,
     mk_inst1 [0xff, 0x10] [] [0xe8] (Arg1_Reg OR Arg1_Mem OR Arg1_Val) B64 B32 EFnone,
     mk_inst1 [] [] [] Arg1_Rax (B16 OR B32 OR B64) B0 EFnone,
     mk_inst1 [0xfe, 0x08] [] [] (Arg1_Reg OR Arg1_Mem) (B8 OR B16 OR B32 OR B64) B0 EFwrite,
     mk_inst1 [0xfe, 0x00] [] [] (Arg1_Reg OR Arg1_Mem) (B8 OR B16 OR B32 OR B64) B0 EFwrite,
     mk_inst1 [] [0xcd] [] Arg1_Val B0 B8 EFnone,
     mk_inst1 [] [0x77] [0x0f, 0x87] Arg1_Val B0 (B8 OR B32) EFread,
     mk_inst1 [] [0x73] [0x0f, 0x83] Arg1_Val B0 (B8 OR B32) EFread,
     mk_inst1 [] [0x72] [0x0f, 0x82] Arg1_Val B0 (B8 OR B32) EFread,
     mk_inst1 [] [0x76] [0x0f, 0x86] Arg1_Val B0 (B8 OR B32) EFread,
     mk_inst1 [] [0x74] [0x0f, 0x84] Arg1_Val B0 (B8 OR B32) EFread,
     mk_inst1 [] [0x7f] [0x0f, 0x8f] Arg1_Val B0 (B8 OR B32) EFread,
     mk_inst1 [] [0x7d] [0x0f, 0x8d] Arg1_Val B0 (B8 OR B32) EFread,
     mk_inst1 [] [0x7c] [0x0f, 0x8c] Arg1_Val B0 (B8 OR B32) EFread,
     mk_inst1 [] [0x7e] [0x0f, 0x8e] Arg1_Val B0 (B8 OR B32) EFread,
     mk_inst1 [] [0x75] [0x0f, 0x85] Arg1_Val B0 (B8 OR B32) EFread,
     mk_inst1 [] [0x71] [0x0f, 0x81] Arg1_Val B0 (B8 OR B32) EFread,
     mk_inst1 [] [0x7b] [0x0f, 0x8b] Arg1_Val B0 (B8 OR B32) EFread,
     mk_inst1 [] [0x79] [0x0f, 0x89] Arg1_Val B0 (B8 OR B32) EFread,
     mk_inst1 [] [0x70] [0x0f, 0x80] Arg1_Val B0 (B8 OR B32) EFread,
     mk_inst1 [] [0x7a] [0x0f, 0x8a] Arg1_Val B0 (B8 OR B32) EFread,
     mk_inst1 [] [0x78] [0x0f, 0x88] Arg1_Val B0 (B8 OR B32) EFread,
     mk_inst1 [0xff, 0x20] [0xeb] [0xe9] (Arg1_Reg OR Arg1_Mem OR Arg1_Val) B64 (B8 OR B32) EFnone,
     mk_inst1 [0xf6, 0x18] [] [] (Arg1_Reg OR Arg1_Mem) (B8 OR B16 OR B32 OR B64) B0 EFwrite,
     mk_inst1 [0xf6, 0x10] [] [] (Arg1_Reg OR Arg1_Mem) (B8 OR B16 OR B32 OR B64) B0 EFwrite,
     mk_inst1 [0x8f, 0x00] [] [] (Arg1_Reg OR Arg1_Mem) (B16 OR B64) B0 EFnone,
     mk_inst1 [0xff, 0x30] [0x6a] [0x68] (Arg1_Reg OR Arg1_Mem OR Arg1_Val) (B16 OR B64) (B8 OR B32) EFnone,
     mk_inst1 [0x0f, 0x31] [] [] Arg1_Rax B128 B0 EFnone,
     mk_inst1 [0x0f, 0x97, 0x00] [] [] (Arg1_Reg OR Arg1_Mem) B8 B0 EFread,
     mk_inst1 [0x0f, 0x93, 0x00] [] [] (Arg1_Reg OR Arg1_Mem) B8 B0 EFread,
     mk_inst1 [0x0f, 0x92, 0x00] [] [] (Arg1_Reg OR Arg1_Mem) B8 B0 EFread,
     mk_inst1 [0x0f, 0x96, 0x00] [] [] (Arg1_Reg OR Arg1_Mem) B8 B0 EFread,
     mk_inst1 [0x0f, 0x94, 0x00] [] [] (Arg1_Reg OR Arg1_Mem) B8 B0 EFread,
     mk_inst1 [0x0f, 0x9f, 0x00] [] [] (Arg1_Reg OR Arg1_Mem) B8 B0 EFread,
     mk_inst1 [0x0f, 0x9d, 0x00] [] [] (Arg1_Reg OR Arg1_Mem) B8 B0 EFread,
     mk_inst1 [0x0f, 0x9c, 0x00] [] [] (Arg1_Reg OR Arg1_Mem) B8 B0 EFread,
     mk_inst1 [0x0f, 0x9e, 0x00] [] [] (Arg1_Reg OR Arg1_Mem) B8 B0 EFread,
     mk_inst1 [0x0f, 0x95, 0x00] [] [] (Arg1_Reg OR Arg1_Mem) B8 B0 EFread,
     mk_inst1 [0x0f, 0x91, 0x00] [] [] (Arg1_Reg OR Arg1_Mem) B8 B0 EFread,
     mk_inst1 [0x0f, 0x9b, 0x00] [] [] (Arg1_Reg OR Arg1_Mem) B8 B0 EFread,
     mk_inst1 [0x0f, 0x99, 0x00] [] [] (Arg1_Reg OR Arg1_Mem) B8 B0 EFread,
     mk_inst1 [0x0f, 0x90, 0x00] [] [] (Arg1_Reg OR Arg1_Mem) B8 B0 EFread,
     mk_inst1 [0x0f, 0x9a, 0x00] [] [] (Arg1_Reg OR Arg1_Mem) B8 B0 EFread,
     mk_inst1 [0x0f, 0x98, 0x00] [] [] (Arg1_Reg OR Arg1_Mem) B8 B0 EFread,
     mk_inst1 [] [] [] Arg1_Mem B8 B0 EFnone,
     mk_inst1 [] [] [] Arg1_Mem B8 B0 EFnone,
     mk_inst1 [] [] [] Arg1_Mem B8 B0 EFnone,
     mk_inst1 [] [] [] Arg1_Val B0 B8 EFnone]"

definition asm1_find :: "opcode \<Rightarrow> inst1" where
  "asm1_find op =
     (let i = 0; i = (if op \<ge> X86_BSWAP \<and> op \<le> X86_XABORT then unat op - unat X86_BSWAP + 1 else i)
      in inst1_vec ! i)"

definition asm1_insert_prefixes :: "u8 list \<Rightarrow> nat \<Rightarrow> kind \<Rightarrow> bits \<Rightarrow> u32 \<Rightarrow> u32 \<Rightarrow> u8 list \<times> nat" where
  "asm1_insert_prefixes buf len k default_size base index =
     (let (buf, len) = (if kind_bits k = eBits16 then (buf[len := 0x66], len + 1) else (buf, len));
          rex = rex_byte default_size (kind_bits k) base index;
          buf = buf[len := rex]
      in if rex \<noteq> 0 then (buf, len + 1) else (buf, len))"

text \<open>\<open>memcpy\<close> of a view into the local array.\<close>

definition buf_copy :: "u8 list \<Rightarrow> nat \<Rightarrow> u8 list \<Rightarrow> u8 list" where
  "buf_copy buf len src = take len buf @ src @ drop (len + length src) buf"

definition asm1_emit_addr :: "opcode \<Rightarrow> u8 list \<Rightarrow> bits \<Rightarrow> node \<Rightarrow> assembler \<Rightarrow> assembler" where
  "asm1_emit_addr op prefix default_size mem d =
     (let base = mem_base mem; index = mem_index mem; scale = mem_scale mem;
          (index, scale) = (if scale = eScale0 \<or> \<not> local_valid index then (no_reg, eScale0) else (index, scale));
          (index, scale) = (if \<not> local_valid base \<and> \<not> local_valid index then (reg_make eUint64 RSP, eScale1)
                            else (index, scale));
          k = (if op = X86_CLFLUSHOPT then eUint16 else nkind mem);
          (buf, len) = asm1_insert_prefixes (replicate 16 0) 0 k default_size base index;
          buf = buf_copy buf len prefix;
          len = len + (length prefix - 1);
          offset_bytes = get_offset_minbytes mem base index;
          (buf, len) = insert_modrm_sib buf len offset_bytes base index scale;
          (buf, len) = (if offset_bytes \<noteq> 0 then insert_offset_or_imm buf len offset_bytes (mem_offset mem) else (buf, len));
          d = asm_add (take len buf) d
      in if node_valid (mem_label mem) then asm_add_relocation (mem_label mem) d else d)"

definition asm1_default_size :: "opcode \<Rightarrow> bits" where
  "asm1_default_size op =
     (if op = X86_CALL \<or> op = X86_JMP \<or> op = X86_POP \<or> op = X86_PUSH then eBits64 else eBits32)"

definition asm1_emit_mem :: "inst1 \<Rightarrow> opcode \<Rightarrow> node \<Rightarrow> assembler \<Rightarrow> assembler" where
  "asm1_emit_mem inst op mem d =
     (let (ok, d) = validate_mem mem d
      in if \<not> ok then d
         else let bytes = inst1_bytes inst;
                  prefix = [view_get 0 bytes 0, view_get 0 bytes 1, view_get 0 bytes 2];
                  prefix = (if i1_arg_size inst AND B8 \<noteq> 0 \<and> kind_bits (nkind mem) \<noteq> eBits8 then buf_or prefix 0 1 else prefix)
              in asm1_emit_addr op (take (length bytes) prefix) (asm1_default_size op) mem d)"

definition asm1_emit_const :: "inst1 \<Rightarrow> val \<Rightarrow> assembler \<Rightarrow> assembler" where
  "asm1_emit_const inst v d =
     (let val32 = ucast (vbits v) :: u32;
          val_len = (if fits8 val32 \<and> i1_imm_size inst AND B8 \<noteq> 0 then 1
                     else if fits16 val32 \<and> i1_imm_size inst AND B16 \<noteq> 0 then 2 else 4);
          buf = replicate 6 0;
          bytes = (if val_len = 1 then inst1_imm8_bytes inst else inst1_imm32_bytes inst);
          (buf, len) = (if val_len = 2 then (buf[0 := 0x66], 1) else (buf, 0));
          buf = buf_copy buf len bytes;
          (buf, len) = insert_offset_or_imm buf (len + length bytes) val_len val32
      in asm_add (take len buf) d)"

definition asm1_emit_label :: "inst1 \<Rightarrow> node \<Rightarrow> assembler \<Rightarrow> assembler" where
  "asm1_emit_label inst l d =
     (let bytes = inst1_imm32_bytes inst; buf = buf_copy (replicate 6 0) 0 bytes
      in asm_add_relocation l (asm_add (take (length bytes + 4) buf) d))"

definition asm1_emit_pop_or_push_reg :: "opcode \<Rightarrow> u32 \<Rightarrow> assembler \<Rightarrow> assembler" where
  "asm1_emit_pop_or_push_reg op reg d =
     (let (buf, len) = asm1_insert_prefixes (replicate 4 0) 0 (local_kind reg) (asm1_default_size op) reg no_reg;
          buf = buf[len := 0x50 OR reg_lo reg OR (if op = X86_POP then 8 else 0)]
      in asm_add (take (len + 1) buf) d)"

definition asm1_emit_rdtsc :: "inst1 \<Rightarrow> assembler \<Rightarrow> assembler" where
  "asm1_emit_rdtsc inst d = asm_add (inst1_bytes inst) d"

definition asm1_emit_reg :: "inst1 \<Rightarrow> opcode \<Rightarrow> u32 \<Rightarrow> assembler \<Rightarrow> assembler" where
  "asm1_emit_reg inst op reg d =
     (if op = X86_POP \<or> op = X86_PUSH then asm1_emit_pop_or_push_reg op reg d
      else if op = X86_RDTSC then asm1_emit_rdtsc inst d
      else
        let (buf, len) = asm1_insert_prefixes (replicate 8 0) 0 (local_kind reg) (asm1_default_size op) reg no_reg;
            bytes = inst1_bytes inst;
            lsb_bit = of_bool (i1_arg_size inst AND B8 \<noteq> 0 \<and> kind_bits (local_kind reg) \<noteq> eBits8);
            (buf, len) = (buf[len := lsb_bit OR view_get 0 bytes 0], len + 1);
            (buf, len) = (if length bytes > 1 then (buf[len := bytes ! 1], len + 1) else (buf, len));
            (buf, len) = (if length bytes > 2 then (buf[len := bytes ! 2], len + 1) else (buf, len));
            buf = buf_or buf (len - 1) (0xc0 OR reg_lo reg)
        in asm_add (take len buf) d)"

definition asm1_unexpected :: "node \<Rightarrow> assembler \<Rightarrow> assembler" where
  "asm1_unexpected st = asm_error st
     ''x64::Asm1::emit: unexpected argument type, expecting Const, Label, Var or x64::Mem''"

definition asm1_emit_inst :: "node \<Rightarrow> inst1 \<Rightarrow> assembler \<Rightarrow> assembler" where
  "asm1_emit_inst st inst d =
     (let arg = child st 0; op = nop st
      in if \<not> arg1_compatible arg (i1_arg inst)
         then asm_error st ''x64::Asm1::emit: instruction does not support specified argument type'' d
         else case nty arg of
           VAR \<Rightarrow>
             if node_valid (as_var arg) then
               let reg = node_local arg
               in if \<not> bits_compatible (kind_bits (local_kind reg)) (i1_arg_size inst)
                  then asm_error st ''x64::Asm1::emit: instruction does not support specified register width'' d
                  else asm1_emit_reg inst op reg d
             else asm1_unexpected st d
         | MEM \<Rightarrow>
             let mem = as_x64_mem arg
             in if node_valid mem then
                  if \<not> bits_compatible (kind_bits (nkind mem)) (i1_arg_size inst)
                  then asm_error st ''x64::Asm1::emit: instruction does not support specified memory width'' d
                  else if inst1_bytes inst = [] then asm_error st ''x64::Asm1::emit: unimplemented instruction'' d
                  else asm1_emit_mem inst op mem d
                else asm1_unexpected st d
         | LABEL \<Rightarrow>
             if node_valid (as_label arg) then
               if \<not> bits_compatible eBits32 (i1_imm_size inst)
               then asm_error arg ''x64::Asm1::emit: instruction does not support labels'' d
               else asm1_emit_label inst arg d
             else asm1_unexpected st d
         | CONSTN \<Rightarrow>
             if node_valid (as_const arg) then
               if \<not> bits_compatible (kind_bits (nkind arg)) (i1_imm_size inst)
               then asm_error st ''x64::Asm1::emit: instruction does not support specified immediate width'' d
               else asm1_emit_const inst (const_val arg) d
             else asm1_unexpected st d
         | _ \<Rightarrow> asm1_unexpected st d)"

definition asm1_emit :: "node \<Rightarrow> assembler \<Rightarrow> assembler" where
  "asm1_emit st d = asm1_emit_inst st (asm1_find (nop st)) d"

subsection \<open>Two, three and any number of arguments\<close>

text \<open>The only instruction of both tables takes no argument: \<open>Arg2::None\<close> and \<open>Arg3::None\<close>.\<close>

definition asm2_find :: "opcode \<Rightarrow> u16" where "asm2_find op = Arg2_None"
definition asm3_find :: "opcode \<Rightarrow> u8" where "asm3_find op = Arg3_None"

definition asm2_emit :: "node \<Rightarrow> assembler \<Rightarrow> assembler" where
  "asm2_emit st d =
     (if \<not> arg2_compatible (child st 0) (child st 1) (asm2_find (nop st))
      then asm_error st ''x64::Asm2::emit: instruction does not support specified argument types'' d
      else asm_error st ''unimplemented x64::Asm2::emit'' d)"

definition asm3_emit :: "node \<Rightarrow> assembler \<Rightarrow> assembler" where
  "asm3_emit st d =
     (if \<not> arg3_compatible (child st 0) (child st 1) (child st 2) (asm3_find (nop st))
      then asm_error st ''x64::Asm3::emit: instruction does not support specified argument types'' d
      else asm_error st ''unimplemented x64::Asm3::emit'' d)"

definition instn_vec :: "inst0 list" where
  "instn_vec = [mk_inst0 [0x0f, 0x0b] EFnone, mk_inst0 [0xc3] EFnone]"

definition asmn_find :: "opcode \<Rightarrow> inst0" where
  "asmn_find op = (let i = 0; i = (if op \<ge> X86_RET \<and> op \<le> X86_RET then unat op - unat X86_RET + 1 else i) in instn_vec ! i)"

definition asmn_emit :: "node \<Rightarrow> assembler \<Rightarrow> assembler" where
  "asmn_emit st d = asm_add (inst0_bytes (asmn_find (nop st))) d"

definition x64_assemble :: "node \<Rightarrow> assembler \<Rightarrow> assembler" where
  "x64_assemble n d =
     (case nty n of
        STMT_0 \<Rightarrow> asm0_emit n d
      | STMT_1 \<Rightarrow> asm1_emit n d
      | STMT_2 \<Rightarrow> asm2_emit n d
      | STMT_3 \<Rightarrow> asm3_emit n d
      | STMT_N \<Rightarrow> asmn_emit n d
      | _ \<Rightarrow> asm_error n ''unexpected node type in Assembler::x64, expecting Stmt[0123N]'' d)"

end
