(* ===== verification/X64_Decode.thy ===== *)
theory X64_Decode imports X64_Asm begin

text \<open>
  What the bytes mean to the processor: a decoder of the x86_64 instructions the assembler can write, after the
  instruction format of the Intel 64 architecture (prefixes, REX, opcode, ModRM, SIB, displacement, immediate). It
  shares nothing with the assembler's tables, and is the reference the assembler is compared with.
\<close>

subsection \<open>Instructions\<close>

text \<open>
  A register is its number, 0 to 15. Without a REX prefix the numbers 4 to 7 of an 8-bit register mean the second byte
  of the first four registers. A displacement and an immediate are sign-extended to 32 bits.
\<close>

datatype ebase = NoBase | Base nat | Rip

record eaddress =
  ea_base :: ebase
  ea_index :: "(nat \<times> nat) option"
  ea_disp :: u32

datatype operand = NoOperand | RegOp nat | HighByte nat | MemOp eaddress | ImmOp u32 | RelOp u32

record instr =
  mnemonic :: string
  opsize :: nat
  arg :: operand

definition instr :: "string \<Rightarrow> nat \<Rightarrow> operand \<Rightarrow> instr" where
  "instr m n a = \<lparr>mnemonic = m, opsize = n, arg = a\<rparr>"

subsection \<open>Bytes\<close>

fun get_imm :: "nat \<Rightarrow> u8 list \<Rightarrow> (u32 \<times> u8 list) option" where
  "get_imm n bs =
     (if n = 0 then Some (0, bs)
      else if n = 1 then (case bs of b # rest \<Rightarrow> Some (scast b, rest) | _ \<Rightarrow> None)
      else if n = 4 then
        (case bs of
           b0 # b1 # b2 # b3 # rest \<Rightarrow>
             Some (ucast b0 OR push_bit 8 (ucast b1) OR push_bit 16 (ucast b2) OR push_bit 24 (ucast b3), rest)
         | _ \<Rightarrow> None)
      else None)"

text \<open>The prefix of the operand size, and the REX prefix, 0 when there is none.\<close>

definition get_opsize :: "u8 list \<Rightarrow> bool \<times> u8 list" where
  "get_opsize bs = (case bs of b # rest \<Rightarrow> if b = 0x66 then (True, rest) else (False, bs) | [] \<Rightarrow> (False, bs))"

definition get_rex :: "u8 list \<Rightarrow> u8 \<times> u8 list" where
  "get_rex bs = (case bs of b # rest \<Rightarrow> if b AND 0xF0 = 0x40 then (b, rest) else (0, bs) | [] \<Rightarrow> (0, bs))"

definition ext_b :: "u8 \<Rightarrow> u8 \<Rightarrow> nat" where "ext_b rex n = unat n + (if bit rex 0 then 8 else 0)"
definition ext_x :: "u8 \<Rightarrow> u8 \<Rightarrow> nat" where "ext_x rex n = unat n + (if bit rex 1 then 8 else 0)"

subsection \<open>ModRM\<close>

definition modrm_mod :: "u8 \<Rightarrow> u8" where "modrm_mod m = drop_bit 6 m"
definition modrm_reg :: "u8 \<Rightarrow> u8" where "modrm_reg m = drop_bit 3 m AND 7"
definition modrm_rm :: "u8 \<Rightarrow> u8" where "modrm_rm m = m AND 7"

definition disp_size :: "u8 \<Rightarrow> nat" where
  "disp_size md = (if md = 1 then 1 else if md = 2 then 4 else 0)"

definition reg_operand :: "u8 \<Rightarrow> bool \<Rightarrow> u8 \<Rightarrow> operand" where
  "reg_operand rex byte n =
     (if byte \<and> rex = 0 \<and> 4 \<le> n then HighByte (unat n - 4) else RegOp (ext_b rex n))"

definition decode_sib :: "u8 \<Rightarrow> u8 \<Rightarrow> u8 list \<Rightarrow> (ebase \<times> (nat \<times> nat) option \<times> nat \<times> u8 list) option" where
  "decode_sib rex md bs =
     (case bs of
        [] \<Rightarrow> None
      | s # rest \<Rightarrow>
          let i = ext_x rex (modrm_reg s);
              index = (if i = 4 then None else Some (i, 2 ^ unat (modrm_mod s)))
          in Some (if modrm_rm s = 5 \<and> md = 0 then (NoBase, index, 4, rest)
                   else (Base (ext_b rex (modrm_rm s)), index, disp_size md, rest)))"

definition decode_rm :: "u8 \<Rightarrow> bool \<Rightarrow> u8 list \<Rightarrow> (u8 \<times> operand \<times> u8 list) option" where
  "decode_rm rex byte bs =
     (case bs of
        [] \<Rightarrow> None
      | m # rest \<Rightarrow>
          let md = modrm_mod m; rm = modrm_rm m
          in if md = 3 then Some (modrm_reg m, reg_operand rex byte rm, rest)
             else case (if rm = 4 then decode_sib rex md rest
                        else if rm = 5 \<and> md = 0 then Some (Rip, None, 4, rest)
                        else Some (Base (ext_b rex rm), None, disp_size md, rest)) of
                    None \<Rightarrow> None
                  | Some (base, index, n, rest1) \<Rightarrow>
                      (case get_imm n rest1 of
                         None \<Rightarrow> None
                       | Some (disp, rest2) \<Rightarrow>
                           Some (modrm_reg m, MemOp \<lparr>ea_base = base, ea_index = index, ea_disp = disp\<rparr>, rest2)))"

subsection \<open>Opcodes\<close>

definition conditions :: "string list" where
  "conditions = [''o'', ''no'', ''b'', ''ae'', ''e'', ''ne'', ''be'', ''a'', ''s'', ''ns'', ''p'', ''np'', ''l'', ''ge'', ''le'', ''g'']"

definition condition :: "u8 \<Rightarrow> string" where
  "condition b = conditions ! unat (b AND 15)"

text \<open>The size of the operand: 32 by default, or 64 for the operations on the stack and the instruction pointer.\<close>

definition size32 :: "bool \<Rightarrow> u8 \<Rightarrow> nat" where
  "size32 p66 rex = (if bit rex 3 then 64 else if p66 then 16 else 32)"

definition size64 :: "bool \<Rightarrow> nat" where
  "size64 p66 = (if p66 then 16 else 64)"

definition with_imm :: "nat \<Rightarrow> (u32 \<Rightarrow> operand) \<Rightarrow> string \<Rightarrow> u8 list \<Rightarrow> (instr \<times> u8 list) option" where
  "with_imm n f m bs = (case get_imm n bs of None \<Rightarrow> None | Some (i, rest) \<Rightarrow> Some (instr m 0 (f i), rest))"

text \<open>An opcode whose operation is the \<open>reg\<close> field of ModRM: the operations by that field, with their operand size.\<close>

definition with_rm :: "u8 \<Rightarrow> bool \<Rightarrow> (u8 \<Rightarrow> (string \<times> nat) option) \<Rightarrow> u8 list \<Rightarrow> (instr \<times> u8 list) option" where
  "with_rm rex byte f bs =
     (case decode_rm rex byte bs of
        None \<Rightarrow> None
      | Some (digit, a, rest) \<Rightarrow> (case f digit of None \<Rightarrow> None | Some (m, n) \<Rightarrow> Some (instr m n a, rest)))"

definition decode_two :: "bool \<Rightarrow> u8 \<Rightarrow> u8 \<Rightarrow> u8 list \<Rightarrow> (instr \<times> u8 list) option" where
  "decode_two p66 rex b bs =
     (if b AND 0xF0 = 0x80 then with_imm 4 RelOp (CHR ''j'' # condition b) bs
      else if b AND 0xF0 = 0x90 then with_rm rex True (\<lambda>_. Some (''set'' @ condition b, 8)) bs
      else if b AND 0xF8 = 0xC8 then Some (instr ''bswap'' (size32 p66 rex) (RegOp (ext_b rex (b AND 7))), bs)
      else if b = 0x31 then Some (instr ''rdtsc'' 0 NoOperand, bs)
      else if b = 0x05 then Some (instr ''syscall'' 0 NoOperand, bs)
      else if b = 0x34 then Some (instr ''sysenter'' 0 NoOperand, bs)
      else if b = 0x35 then Some (instr ''sysexit'' 0 NoOperand, bs)
      else if b = 0x07 then Some (instr ''sysret'' 0 NoOperand, bs)
      else if b = 0x0B then Some (instr ''ud2'' 0 NoOperand, bs)
      else if b = 0xAE then
        (case bs of
           c # rest \<Rightarrow> if c = 0xE8 then Some (instr ''lfence'' 0 NoOperand, rest)
             else if c = 0xF0 then Some (instr ''mfence'' 0 NoOperand, rest)
             else if c = 0xF8 then Some (instr ''sfence'' 0 NoOperand, rest) else None
         | [] \<Rightarrow> None)
      else if b = 0x01 then
        (case bs of
           c # rest \<Rightarrow> if c = 0xD5 then Some (instr ''xend'' 0 NoOperand, rest)
             else if c = 0xD6 then Some (instr ''xtest'' 0 NoOperand, rest) else None
         | [] \<Rightarrow> None)
      else None)"

definition simple_opcodes :: "(u8 \<times> string) list" where
  "simple_opcodes = [(0xF8, ''clc''), (0xFC, ''cld''), (0xF5, ''cmc''), (0xCC, ''int3''), (0x90, ''nop''), (0x9D, ''popf''),
     (0x9C, ''pushf''), (0xF9, ''stc''), (0xFD, ''std''), (0xC3, ''ret'')]"

definition decode_one :: "bool \<Rightarrow> u8 \<Rightarrow> u8 \<Rightarrow> u8 list \<Rightarrow> (instr \<times> u8 list) option" where
  "decode_one p66 rex b bs =
     (if b AND 0xF8 = 0x50 then Some (instr ''push'' (size64 p66) (RegOp (ext_b rex (b AND 7))), bs)
      else if b AND 0xF8 = 0x58 then Some (instr ''pop'' (size64 p66) (RegOp (ext_b rex (b AND 7))), bs)
      else if b = 0x68 then (if p66 then None else with_imm 4 ImmOp ''push'' bs)
      else if b = 0x6A then with_imm 1 ImmOp ''push'' bs
      else if b AND 0xF0 = 0x70 then with_imm 1 RelOp (CHR ''j'' # condition b) bs
      else if b = 0x8F then with_rm rex False (\<lambda>d. if d = 0 then Some (''pop'', size64 p66) else None) bs
      else if b = 0xCD then with_imm 1 ImmOp ''int'' bs
      else if b = 0xE8 then with_imm 4 RelOp ''call'' bs
      else if b = 0xE9 then with_imm 4 RelOp ''jmp'' bs
      else if b = 0xEB then with_imm 1 RelOp ''jmp'' bs
      else if b = 0xF6 then with_rm rex True (\<lambda>d. if d = 2 then Some (''not'', 8) else if d = 3 then Some (''neg'', 8) else None) bs
      else if b = 0xF7 then with_rm rex False (\<lambda>d. if d = 2 then Some (''not'', size32 p66 rex)
        else if d = 3 then Some (''neg'', size32 p66 rex) else None) bs
      else if b = 0xFE then with_rm rex True (\<lambda>d. if d = 0 then Some (''inc'', 8) else if d = 1 then Some (''dec'', 8) else None) bs
      else if b = 0xFF then with_rm rex False (\<lambda>d. if d = 0 then Some (''inc'', size32 p66 rex)
        else if d = 1 then Some (''dec'', size32 p66 rex) else if d = 2 then Some (''call'', 64)
        else if d = 4 then Some (''jmp'', 64) else if d = 6 then Some (''push'', size64 p66) else None) bs
      else case map_of simple_opcodes b of Some m \<Rightarrow> Some (instr m 0 NoOperand, bs) | None \<Rightarrow> None)"

text \<open>\<open>F3 90\<close> is an instruction of its own; the other prefixes \<open>F0\<close>, \<open>F2\<close> and \<open>F3\<close> are no instructions.\<close>

definition decode :: "u8 list \<Rightarrow> (instr \<times> u8 list) option" where
  "decode bs =
     (if take 2 bs = [0xF3, 0x90] then Some (instr ''pause'' 0 NoOperand, drop 2 bs)
      else let (p66, bs1) = get_opsize bs; (rex, bs2) = get_rex bs1
      in case bs2 of
           [] \<Rightarrow> None
         | b # rest \<Rightarrow>
             if b = 0x0F then (case rest of c # rest2 \<Rightarrow> decode_two p66 rex c rest2 | [] \<Rightarrow> None)
             else decode_one p66 rex b rest)"

text \<open>\<open>inc %sil\<close>, \<open>call *0x3039(%rax,%rcx,8)\<close>, \<open>sete 0x10(%rip)\<close>, and \<open>dec %ah\<close>, which has no REX prefix.\<close>

lemma decode_examples:
  "decode [0x40, 0xFE, 0xC6] = Some (instr ''inc'' 8 (RegOp 6), [])"
  "decode [0xFF, 0x94, 0xC8, 0x39, 0x30, 0, 0] =
     Some (instr ''call'' 64 (MemOp \<lparr>ea_base = Base 0, ea_index = Some (1, 8), ea_disp = 0x3039\<rparr>), [])"
  "decode [0x0F, 0x94, 0x05, 0x10, 0, 0, 0] =
     Some (instr ''sete'' 8 (MemOp \<lparr>ea_base = Rip, ea_index = None, ea_disp = 0x10\<rparr>), [])"
  "decode [0xFE, 0xCC] = Some (instr ''dec'' 8 (HighByte 0), [])"
  by (simp_all add: decode_def get_opsize_def get_rex_def decode_one_def decode_two_def with_rm_def decode_rm_def decode_sib_def
      modrm_mod_def modrm_reg_def modrm_rm_def ext_b_def ext_x_def disp_size_def reg_operand_def size32_def condition_def
      conditions_def bit_numeral_rec instr_def)

end
