(* ===== verification/X64_Sound.thy ===== *)
theory X64_Sound imports X64_Decode begin

text \<open>
  The bytes the assembler writes against the decoder: fields of the ModRM and SIB bytes, the numbers of the registers,
  displacements, prefixes, the local arrays the code fills, and the instructions of one argument.
\<close>

subsection \<open>Fields of a byte\<close>

definition u3s :: "u8 list" where "u3s = [0, 1, 2, 3, 4, 5, 6, 7]"

lemma u3_cases: "(x :: u8) < 8 \<Longrightarrow> x \<in> set u3s"
proof -
  assume "x < 8"
  then have "unat x < 8" by (simp add: word_less_nat_alt)
  then have "unat x \<in> set [0..<8]" by simp
  then have "word_of_nat (unat x) \<in> (word_of_nat ` set [0..<8] :: u8 set)" by (rule imageI)
  then show ?thesis by (simp add: u3s_def upt_rec)
qed

lemma modrm_fields_all:
  "\<forall>d\<in>set u3s. \<forall>r\<in>set u3s. \<forall>m\<in>set [0, 0x40, 0x80, 0xC0].
     modrm_mod (push_bit 3 d OR m OR r) = drop_bit 6 m \<and> modrm_reg (push_bit 3 d OR m OR r) = d \<and>
     modrm_rm (push_bit 3 d OR m OR r) = r"
  by (simp add: u3s_def modrm_mod_def modrm_reg_def modrm_rm_def)

lemma sib_fields_all:
  "\<forall>b\<in>set u3s. \<forall>i\<in>set u3s. \<forall>s\<in>set [0, 1, 2, 3].
     modrm_mod (b OR push_bit 3 i OR push_bit 6 s) = s \<and> modrm_reg (b OR push_bit 3 i OR push_bit 6 s) = i \<and>
     modrm_rm (b OR push_bit 3 i OR push_bit 6 s) = b"
  by (simp add: u3s_def modrm_mod_def modrm_reg_def modrm_rm_def)

lemmas modrm_fields = modrm_fields_all [rule_format, THEN conjunct1] modrm_fields_all [rule_format, THEN conjunct2, THEN conjunct1]
  modrm_fields_all [rule_format, THEN conjunct2, THEN conjunct2]
lemmas sib_fields = sib_fields_all [rule_format, THEN conjunct1] sib_fields_all [rule_format, THEN conjunct2, THEN conjunct1]
  sib_fields_all [rule_format, THEN conjunct2, THEN conjunct2]

subsection \<open>Registers\<close>

definition reg_number :: "u32 \<Rightarrow> nat" where
  "reg_number r = unat (reg_id r - RAX)"

lemma general_cases: "general_id i \<Longrightarrow> i \<in> set (map of_nat [512..<528]) \<or> i = RIP"
proof -
  assume g: "general_id i"
  { assume "RAX \<le> i" "i \<le> R15"
    then have "unat i \<in> set [512..<528]" by (simp only: word_le_nat_alt set_upt atLeastLessThan_iff) simp
    moreover have "i = of_nat (unat i)" by simp
    ultimately have "i \<in> set (map of_nat [512..<528])" unfolding set_map by (rule rev_image_eqI) }
  with g show ?thesis by (auto simp: general_id_def)
qed

lemma general_fields:
  assumes "general_id i"
  shows "rlo i \<in> set u3s" "rhi i \<in> {0, 1}"
    "i \<noteq> RIP \<Longrightarrow> unat (i - RAX) = unat (rlo i) + 8 * unat (rhi i)" "i = RIP \<Longrightarrow> rlo i = 5 \<and> rhi i = 0"
    "i \<noteq> RSP \<Longrightarrow> i \<noteq> RIP \<Longrightarrow> \<not> (rlo i = 4 \<and> rhi i = 0)"
    "i < RSP \<Longrightarrow> rlo i < 4"
proof -
  have c: "i \<in> set (map of_nat [512..<528]) \<or> i = RIP" using assms by (rule general_cases)
  have "rlo i \<in> set u3s \<and> rhi i \<in> {0, 1} \<and> (i \<noteq> RIP \<longrightarrow> unat (i - RAX) = unat (rlo i) + 8 * unat (rhi i)) \<and>
      (i = RIP \<longrightarrow> rlo i = 5 \<and> rhi i = 0) \<and> (i \<noteq> RSP \<and> i \<noteq> RIP \<longrightarrow> \<not> (rlo i = 4 \<and> rhi i = 0)) \<and> (i < RSP \<longrightarrow> rlo i < 4)"
    using c by (auto simp: upt_rec rlo_def rhi_def u3s_def)
  then show "rlo i \<in> set u3s" "rhi i \<in> {0, 1}"
    "i \<noteq> RIP \<Longrightarrow> unat (i - RAX) = unat (rlo i) + 8 * unat (rhi i)" "i = RIP \<Longrightarrow> rlo i = 5 \<and> rhi i = 0"
    "i \<noteq> RSP \<Longrightarrow> i \<noteq> RIP \<Longrightarrow> \<not> (rlo i = 4 \<and> rhi i = 0)" "i < RSP \<Longrightarrow> rlo i < 4"
    by blast+
qed


subsection \<open>Immediates and displacements\<close>

definition imm_bytes :: "nat \<Rightarrow> u32 \<Rightarrow> u8 list" where
  "imm_bytes n x =
     (if n = 1 then [ucast x] else if n = 2 then [ucast x, ucast (drop_bit 8 x)]
      else if n = 4 then [ucast x, ucast (drop_bit 8 x), ucast (drop_bit 16 x), ucast (drop_bit 24 x)] else [])"

lemma bytes_of_word:
  "ucast (ucast x :: u8) OR push_bit 8 (ucast (ucast (drop_bit 8 x) :: u8)) OR push_bit 16 (ucast (ucast (drop_bit 16 x) :: u8)) OR
     push_bit 24 (ucast (ucast (drop_bit 24 x) :: u8)) = (x :: u32)"
proof (rule bit_word_eqI)
  fix n assume "n < LENGTH(32)"
  then consider "n < 8" | "8 \<le> n" "n < 16" | "16 \<le> n" "n < 24" | "24 \<le> n" "n < 32" by fastforce
  then show "bit ((ucast (ucast x :: u8) :: u32) OR push_bit 8 (ucast (ucast (drop_bit 8 x) :: u8)) OR
      push_bit 16 (ucast (ucast (drop_bit 16 x) :: u8)) OR push_bit 24 (ucast (ucast (drop_bit 24 x) :: u8))) n = bit x n"
    by cases (auto simp: bit_or_iff bit_push_bit_iff bit_unsigned_iff bit_drop_bit_eq)
qed

lemma get_imm_bytes [simp]:
  "fits8 x \<Longrightarrow> get_imm (Suc 0) (imm_bytes (Suc 0) x @ rest) = Some (x, rest)"
  "get_imm 4 (imm_bytes 4 x @ rest) = Some (x, rest)"
  "get_imm 0 rest = Some (0, rest)"
  by (simp_all add: imm_bytes_def fits8_def bytes_of_word)

lemma imm_bytes_0 [simp]: "imm_bytes 0 x = []"
  by (simp add: imm_bytes_def)

lemma length_imm_bytes: "n \<in> {0, 1, 2, 4} \<Longrightarrow> length (imm_bytes n x) = n"
  by (auto simp: imm_bytes_def)

subsection \<open>Writing into a local array\<close>

text \<open>An array in use: what has been written, followed by zeros.\<close>

lemma replicate_more: "replicate (n + k) x = replicate n x @ replicate k x"
  by (rule replicate_add)

lemma update_end: "(ys @ x # zs)[length ys := v] = ys @ v # zs"
  by simp

lemma update_later: "(ys @ zs)[length ys + k := v] = ys @ zs[k := v]"
  by (simp add: list_update_append)

lemma insert_imm:
  assumes "n = 1 \<or> n = 2 \<or> n = 4"
  shows "insert_offset_or_imm (ys @ replicate (n + k) 0) (length ys) n x = (ys @ imm_bytes n x @ replicate k 0, length ys + n)"
  using assms
  by (auto simp: insert_offset_or_imm_def imm_bytes_def update_later numeral_eq_Suc list_update_append)

definition modrm_bytes :: "u8 \<Rightarrow> nat \<Rightarrow> u32 \<Rightarrow> u32 \<Rightarrow> scale \<Rightarrow> u8 list" where
  "modrm_bytes p ob base index scale =
     (let md = (if \<not> local_valid base \<and> local_valid index then 0 else if ob = 1 then 0x40
                else if ob = 4 \<and> reg_id base \<noteq> RIP then 0x80 else 0)
      in if local_valid index then
           [p OR md OR 4, (if local_valid base then reg_lo base else 5) OR push_bit 3 (reg_lo index) OR push_bit 6 (scale_bits scale)]
         else (p OR md OR reg_lo base) # (if reg_lo base = 4 then [0x24] else []))"

lemma insert_modrm:
  assumes "local_valid base \<or> local_valid index"
  shows "insert_modrm_sib (ys @ p # replicate (Suc (Suc k)) 0) (length ys) ob base index scale =
     (ys @ modrm_bytes p ob base index scale @ replicate (Suc (Suc (Suc k)) - length (modrm_bytes p ob base index scale)) 0,
      length ys + length (modrm_bytes p ob base index scale))"
  using assms
  by (auto simp: insert_modrm_sib_def modrm_bytes_def buf_or_def is_quirk24_def Let_def list_update_append or.assoc
      nth_append)


subsection \<open>Reading a memory operand back\<close>

definition addressable :: "u32 \<Rightarrow> u32 \<Rightarrow> scale \<Rightarrow> bool" where
  "addressable base index scale \<longleftrightarrow>
     (if local_valid base then general_id (reg_id base) else base = no_reg) \<and>
     (local_valid index \<longrightarrow> general_id (reg_id index) \<and> reg_id index \<noteq> RIP \<and> scale \<in> {eScale1, eScale2, eScale4, eScale8} \<and>
        (local_valid base \<longrightarrow> reg_id base \<noteq> RIP \<and> reg_id index \<noteq> RSP)) \<and>
     (local_valid base \<or> local_valid index)"

definition enough_bytes :: "nat \<Rightarrow> u32 \<Rightarrow> u32 \<Rightarrow> u32 \<Rightarrow> bool" where
  "enough_bytes ob off base index \<longleftrightarrow>
     ob = 4 \<or> ((local_valid index \<longrightarrow> local_valid base) \<and> reg_id base \<noteq> RIP \<and>
       (ob = 1 \<and> fits8 off \<or> ob = 0 \<and> off = 0 \<and> reg_lo base \<noteq> 5))"

lemma reg_id_none [simp]: "reg_id no_reg = 0" "reg_lo no_reg = 0" "reg_hi no_reg = 0" "\<not> local_valid no_reg"
  by (simp_all add: reg_id_def reg_lo_def reg_hi_def rlo_def rhi_def no_reg_def local_id_def id_make_def local_valid_def local_kind_def)

lemma reg_fields:
  assumes "general_id (reg_id r)"
  shows "reg_lo r \<in> set u3s" "reg_hi r \<in> {0, 1}"
    "reg_id r \<noteq> RIP \<Longrightarrow> reg_number r = unat (reg_lo r) + 8 * unat (reg_hi r)"
    "reg_id r = RIP \<Longrightarrow> reg_lo r = 5" "reg_id r = RIP \<Longrightarrow> reg_hi r = 0"
    "reg_id r = RSP \<Longrightarrow> reg_lo r = 4" "reg_id r = RSP \<Longrightarrow> reg_hi r = 0"
    "reg_id r \<noteq> RSP \<Longrightarrow> reg_id r \<noteq> RIP \<Longrightarrow> reg_lo r = 4 \<Longrightarrow> reg_hi r = 1"
  using general_fields [OF assms] by (auto simp: reg_lo_def reg_hi_def reg_number_def rlo_def rhi_def)

lemma scale_bits_u2: "scale \<in> {eScale1, eScale2, eScale4, eScale8} \<Longrightarrow> scale_bits scale \<in> set [0, 1, 2, 3]"
  by (auto simp: scale_bits_def)

definition mod_bits :: "nat \<Rightarrow> u8" where
  "mod_bits ob = (if ob = 1 then 0x40 else if ob = 4 then 0x80 else 0)"

lemma mod_bits_fields:
  assumes "d \<in> set u3s" "r \<in> set u3s"
  shows "modrm_mod (push_bit 3 d OR mod_bits ob OR r) = (if ob = 1 then 1 else if ob = 4 then 2 else 0)"
    "modrm_reg (push_bit 3 d OR mod_bits ob OR r) = d" "modrm_rm (push_bit 3 d OR mod_bits ob OR r) = r"
  using assms by (auto simp: modrm_fields mod_bits_def)

lemma get_disp: "ob = 4 \<or> ob = 1 \<and> fits8 off \<or> ob = 0 \<and> off = 0 \<Longrightarrow> get_imm ob (imm_bytes ob off @ rest) = Some (off, rest)"
  by (auto simp del: get_imm.simps)

text \<open>The second byte of an address, when there is one.\<close>

lemma decode_sib_byte:
  assumes "b \<in> set u3s" "i \<in> set u3s" "s \<in> {0, 1, 2, 3}"
  shows "decode_sib rex md ((b OR push_bit 3 i OR push_bit 6 s) # rest) =
     Some (if b = 5 \<and> md = 0 then (NoBase, if ext_x rex i = 4 then None else Some (ext_x rex i, 2 ^ unat s), 4, rest)
           else (Base (ext_b rex b), if ext_x rex i = 4 then None else Some (ext_x rex i, 2 ^ unat s), disp_size md, rest))"
proof -
  have "s \<in> set [0, 1, 2, 3]" using assms(3) by simp
  note f = sib_fields [OF assms(1,2) this]
  show ?thesis unfolding decode_sib_def list.case f Let_def by simp
qed

lemma decode_rm_address:
  assumes "modrm_mod m = md" "md \<noteq> 3" "modrm_reg m = d" "modrm_rm m = r"
    "(if r = 4 then decode_sib rex md bs else if r = 5 \<and> md = 0 then Some (Rip, None, 4, bs)
      else Some (Base (ext_b rex r), None, disp_size md, bs)) = Some (base, index, n, rest1)"
    "get_imm n rest1 = Some (disp, rest2)"
  shows "decode_rm rex byte (m # bs) = Some (d, MemOp \<lparr>ea_base = base, ea_index = index, ea_disp = disp\<rparr>, rest2)"
  unfolding decode_rm_def list.case Let_def assms(1,3,4) using assms(2,5,6) by (simp del: get_imm.simps)

lemma decode_index:
  assumes a: "addressable base index scale" and e: "enough_bytes ob off base index" and d: "d \<in> set u3s"
    and rex: "bit rex 0 = (reg_hi base = 1)" "bit rex 1 = (reg_hi index = 1)" and index: "local_valid index"
  shows "decode_rm rex byte (modrm_bytes (push_bit 3 d) ob base index scale @ imm_bytes ob off @ rest) =
     Some (d, MemOp \<lparr>ea_base = (if \<not> local_valid base then NoBase else Base (reg_number base)),
         ea_index = (if reg_id index \<noteq> RSP then Some (reg_number index, 2 ^ unat (scale_bits scale)) else None),
         ea_disp = off\<rparr>, rest)"
proof -
  have g: "general_id (reg_id index)" "reg_id index \<noteq> RIP" using a index by (simp_all add: addressable_def)
  note i = reg_fields [OF g(1)]
  have s: "scale_bits scale \<in> {0, 1, 2, 3}" using a index by (auto simp: addressable_def scale_bits_def)
  have x: "ext_x rex (reg_lo index) = reg_number index"
    using i(2,3) g(2) rex(2) by (auto simp: ext_x_def)
  have n4: "reg_number index = 4 \<longleftrightarrow> reg_id index = RSP"
  proof (cases "reg_id index = RSP")
    case True
    with i(3,6,7) g(2) show ?thesis by simp
  next
    case False
    then have "reg_lo index = 4 \<Longrightarrow> reg_hi index = 1" using i(8) g(2) by blast
    then have "reg_number index \<noteq> 4" using i(1,2,3) g(2) by (auto simp: u3s_def)
    with False show ?thesis by simp
  qed
  have four: "(4 :: u8) \<in> set u3s" "(5 :: u8) \<in> set u3s" by (simp_all add: u3s_def)
  show ?thesis
  proof (cases "local_valid base")
    case True
    have b: "general_id (reg_id base)" "reg_id base \<noteq> RIP" using a index True by (simp_all add: addressable_def)
    note bf = reg_fields [OF b(1)]
    have eb: "ext_b rex (reg_lo base) = reg_number base" using bf(2,3) b(2) rex(1) by (auto simp: ext_b_def)
    have ob: "ob \<in> {0, 1, 4}" "ob = 0 \<Longrightarrow> reg_lo base \<noteq> 5" "ob = 4 \<or> ob = 1 \<and> fits8 off \<or> ob = 0 \<and> off = 0"
      using e b(2) unfolding enough_bytes_def by auto
    have m: "modrm_bytes (push_bit 3 d) ob base index scale =
        [push_bit 3 d OR mod_bits ob OR 4, reg_lo base OR push_bit 3 (reg_lo index) OR push_bit 6 (scale_bits scale)]"
      using index True b(2) by (simp add: modrm_bytes_def mod_bits_def)
    show ?thesis
      unfolding m append_Cons append_Nil
      by (rule decode_rm_address [OF mod_bits_fields(1) [OF d four(1)] _ mod_bits_fields(2) [OF d four(1)]
            mod_bits_fields(3) [OF d four(1)] _ get_disp [OF ob(3)]])
        (use ob(1,2) True in \<open>auto simp: decode_sib_byte [OF bf(1) i(1) s] x n4 eb disp_size_def\<close>)
  next
    case False
    have ob: "ob = 4" using e index False by (simp add: enough_bytes_def)
    have m: "modrm_bytes (push_bit 3 d) ob base index scale =
        [push_bit 3 d OR mod_bits 0 OR 4, 5 OR push_bit 3 (reg_lo index) OR push_bit 6 (scale_bits scale)]"
      using index False by (simp add: modrm_bytes_def mod_bits_def)
    show ?thesis
      unfolding m append_Cons append_Nil
      by (rule decode_rm_address [OF mod_bits_fields(1) [OF d four(1)] _ mod_bits_fields(2) [OF d four(1)]
            mod_bits_fields(3) [OF d four(1)] _ get_disp [of ob off]])
        (use ob False in \<open>simp_all add: decode_sib_byte [OF four(2) i(1) s] x n4\<close>)
  qed
qed

lemma decode_base:
  assumes a: "addressable base index scale" and e: "enough_bytes ob off base index" and d: "d \<in> set u3s"
    and rex: "bit rex 0 = (reg_hi base = 1)" "bit rex 1 = (reg_hi index = 1)" and index: "\<not> local_valid index" "reg_hi index = 0"
  shows "decode_rm rex byte (modrm_bytes (push_bit 3 d) ob base index scale @ imm_bytes ob off @ rest) =
     Some (d, MemOp \<lparr>ea_base = (if reg_id base = RIP then Rip else Base (reg_number base)), ea_index = None, ea_disp = off\<rparr>, rest)"
proof -
  have b: "local_valid base" "general_id (reg_id base)" using a index by (auto simp: addressable_def split: if_splits)
  note bf = reg_fields [OF b(2)]
  show ?thesis
  proof (cases "reg_id base = RIP")
    case True
    then have ob: "ob = 4" using e by (simp add: enough_bytes_def)
    have m: "modrm_bytes (push_bit 3 d) ob base index scale = [push_bit 3 d OR mod_bits 0 OR reg_lo base]"
      using index b True bf(4) ob by (simp add: modrm_bytes_def mod_bits_def)
    show ?thesis
      unfolding m append_Cons append_Nil
      by (rule decode_rm_address [OF mod_bits_fields(1) [OF d bf(1)] _ mod_bits_fields(2) [OF d bf(1)]
            mod_bits_fields(3) [OF d bf(1)] _ get_disp [of ob off]])
        (use ob True bf(4) in simp_all)
  next
    case False
    have eb: "ext_b rex (reg_lo base) = reg_number base" using bf(2,3) False rex(1) by (auto simp: ext_b_def)
    have ob: "ob \<in> {0, 1, 4}" "ob = 0 \<Longrightarrow> reg_lo base \<noteq> 5" "ob = 4 \<or> ob = 1 \<and> fits8 off \<or> ob = 0 \<and> off = 0"
      using e False unfolding enough_bytes_def by auto
    have m: "modrm_bytes (push_bit 3 d) ob base index scale =
        (push_bit 3 d OR mod_bits ob OR reg_lo base) # (if reg_lo base = 4 then [0x24] else [])"
      using index b(1) False by (simp add: modrm_bytes_def mod_bits_def)
    have f: "(4 :: u8) \<in> set u3s" "(0 :: u8) \<in> {0, 1, 2, 3}" by (simp_all add: u3s_def)
    have s: "decode_sib rex md (0x24 # r) = Some (Base (ext_b rex 4), None, disp_size md, r)" for md r
      using decode_sib_byte [OF f(1) f(1) f(2), of rex md r] rex(2) index(2) by (simp add: ext_x_def)
    show ?thesis
      unfolding m append_Cons append_Nil
      by (rule decode_rm_address [OF mod_bits_fields(1) [OF d bf(1)] _ mod_bits_fields(2) [OF d bf(1)]
            mod_bits_fields(3) [OF d bf(1)] _ get_disp [OF ob(3)]])
        (use ob(1,2) False eb in \<open>auto simp: s disp_size_def\<close>)
  qed
qed


subsection \<open>Prefixes\<close>

lemma rex_fields:
  fixes ds sz :: bits and base index :: u32
  assumes "reg_hi base \<in> {0, 1}" "reg_hi index \<in> {0, 1}"
  defines "rex \<equiv> rex_byte ds sz base index"
  shows "bit rex 0 = (reg_hi base = 1)" "bit rex 1 = (reg_hi index = 1)"
    "bit rex 3 = (bits_less ds eBits64 \<and> \<not> bits_less sz eBits64)"
    "rex \<noteq> 0 \<Longrightarrow> rex AND 0xF0 = 0x40" "rex \<noteq> 0x66" "rex \<noteq> 0xF3"
proof -
  have "rex \<in> {0, 0x40, 0x41, 0x42, 0x43, 0x48, 0x49, 0x4A, 0x4B} \<and> bit rex 0 = (reg_hi base = 1) \<and> bit rex 1 = (reg_hi index = 1) \<and>
     bit rex 3 = (bits_less ds eBits64 \<and> \<not> bits_less sz eBits64)"
    using assms(1,2) unfolding rex_def rex_byte_def Let_def
    by (auto simp: bit_numeral_rec)
  then show "bit rex 0 = (reg_hi base = 1)" "bit rex 1 = (reg_hi index = 1)"
    "bit rex 3 = (bits_less ds eBits64 \<and> \<not> bits_less sz eBits64)"
    "rex \<noteq> 0 \<Longrightarrow> rex AND 0xF0 = 0x40" "rex \<noteq> 0x66" "rex \<noteq> 0xF3"
    by auto
qed

definition prefix_bytes :: "kind \<Rightarrow> bits \<Rightarrow> u32 \<Rightarrow> u32 \<Rightarrow> u8 list" where
  "prefix_bytes k ds base index =
     (if kind_bits k = eBits16 then [0x66] else []) @
     (let rex = rex_byte ds (kind_bits k) base index in if rex \<noteq> 0 then [rex] else [])"

lemma length_prefix_bytes: "length (prefix_bytes k ds base index) \<le> 2"
  by (simp add: prefix_bytes_def Let_def)

lemma insert_prefixes:
  "asm1_insert_prefixes (replicate (Suc (Suc n)) 0) 0 k ds base index =
     (prefix_bytes k ds base index @ replicate (Suc (Suc n) - length (prefix_bytes k ds base index)) 0,
      length (prefix_bytes k ds base index))"
  by (auto simp: asm1_insert_prefixes_def prefix_bytes_def Let_def)

lemma decode_after_prefixes:
  assumes "rex \<noteq> 0 \<Longrightarrow> rex AND 0xF0 = 0x40" "rex \<noteq> 0x66" "rex \<noteq> 0xF3" "b \<noteq> 0x66" "b AND 0xF0 \<noteq> 0x40" "b \<noteq> 0xF3"
  shows "decode ((if p66 then [0x66] else []) @ (if rex \<noteq> 0 then [rex] else []) @ b # rest) =
     (if b = 0x0F then (case rest of c # rest2 \<Rightarrow> decode_two p66 rex c rest2 | [] \<Rightarrow> None) else decode_one p66 rex b rest)"
  using assms by (cases "rex = 0"; cases p66; cases rest) (simp_all add: decode_def get_opsize_def get_rex_def)

lemma decode_prefixes:
  assumes "reg_hi base \<in> {0, 1}" "reg_hi index \<in> {0, 1}" "b \<noteq> 0x66" "b AND 0xF0 \<noteq> 0x40" "b \<noteq> 0xF3"
  shows "decode (prefix_bytes k ds base index @ b # rest) =
     (if b = 0x0F then (case rest of c # rest2 \<Rightarrow> decode_two (kind_bits k = eBits16) (rex_byte ds (kind_bits k) base index) c rest2
        | [] \<Rightarrow> None)
      else decode_one (kind_bits k = eBits16) (rex_byte ds (kind_bits k) base index) b rest)"
  unfolding prefix_bytes_def Let_def append_assoc
  by (rule decode_after_prefixes) (use rex_fields [OF assms(1,2)] assms(3-5) in simp_all)

subsection \<open>Instructions with a ModRM byte\<close>

text \<open>
  The operations on a register or in memory: their name, the opcode of their 8-bit form or of the only one, the digit in
  ModRM and the sizes of operands.
\<close>

definition rm_table :: "(opcode \<times> string \<times> u8 list \<times> u8 \<times> u8) list" where
  "rm_table =
     [(X86_CALL, ''call'', [0xFF], 2, B64), (X86_DEC, ''dec'', [0xFE], 1, 15),
      (X86_INC, ''inc'', [0xFE], 0, 15), (X86_JMP, ''jmp'', [0xFF], 4, B64),
      (X86_NEG, ''neg'', [0xF6], 3, 15), (X86_NOT, ''not'', [0xF6], 2, 15),
      (X86_POP, ''pop'', [0x8F], 0, 10), (X86_PUSH, ''push'', [0xFF], 6, 10),
      (33, ''seta'', [0x0F, 0x97], 0, B8), (34, ''setae'', [0x0F, 0x93], 0, B8),
      (35, ''setb'', [0x0F, 0x92], 0, B8), (36, ''setbe'', [0x0F, 0x96], 0, B8),
      (37, ''sete'', [0x0F, 0x94], 0, B8), (38, ''setg'', [0x0F, 0x9F], 0, B8),
      (39, ''setge'', [0x0F, 0x9D], 0, B8), (40, ''setl'', [0x0F, 0x9C], 0, B8),
      (41, ''setle'', [0x0F, 0x9E], 0, B8), (42, ''setne'', [0x0F, 0x95], 0, B8),
      (43, ''setno'', [0x0F, 0x91], 0, B8), (44, ''setnp'', [0x0F, 0x9B], 0, B8),
      (45, ''setns'', [0x0F, 0x99], 0, B8), (46, ''seto'', [0x0F, 0x90], 0, B8),
      (47, ''setp'', [0x0F, 0x9A], 0, B8), (48, ''sets'', [0x0F, 0x98], 0, B8)]"

definition op1_name :: "opcode \<Rightarrow> string" where
  "op1_name op = drop 4 (print_op1 op)"

lemmas inst1_eval = asm1_find_def inst1_vec_def mk_inst1_def inst1_bytes_def inst1_imm8_bytes_def inst1_imm32_bytes_def char_at_def

lemma rm_bytes_all:
  "\<forall>(op, name, opc, d, sizes)\<in>set rm_table. inst1_bytes (asm1_find op) = opc @ [push_bit 3 d] \<and> d \<in> set u3s \<and>
     i1_arg (asm1_find op) AND 23 = 23 \<and> i1_arg_size (asm1_find op) = sizes"
  by (simp add: rm_table_def inst1_eval u3s_def)

lemma rm_names_all: "\<forall>(op, name, opc, d, sizes)\<in>set rm_table. op1_name op = name"
  by (simp add: rm_table_def op1_name_def print_op1_def print_row_def opstmt1_rows_def enum_rows_def opstmt1_mir_def opstmt1_x86_def)

lemma bits_compatible_cases: "bits_compatible b sizes \<Longrightarrow> b \<in> {eBits8, eBits16, eBits32, eBits64}"
proof -
  assume "bits_compatible b sizes"
  then have "3 \<le> b \<and> b \<le> 6" by (auto simp: bits_compatible_def to_bitsize_def split: if_splits)
  then have "unat b \<in> {3, 4, 5, 6}" by (auto simp: word_le_nat_alt)
  then show ?thesis by (auto simp: word_unat_eq_iff)
qed

text \<open>The opcode for an operand: an operation that has an 8-bit form takes the next opcode for a wider one.\<close>

definition widen :: "u8 \<Rightarrow> bits \<Rightarrow> u8 list \<Rightarrow> u8 list" where
  "widen sizes b opc = (if sizes AND B8 \<noteq> 0 \<and> b \<noteq> eBits8 then (hd opc OR 1) # tl opc else opc)"

definition decode_opcode :: "bool \<Rightarrow> u8 \<Rightarrow> u8 list \<Rightarrow> (instr \<times> u8 list) option" where
  "decode_opcode p66 rex bs =
     (case bs of
        [] \<Rightarrow> None
      | b # rest \<Rightarrow> if b = 0x0F then (case rest of c # rest2 \<Rightarrow> decode_two p66 rex c rest2 | [] \<Rightarrow> None)
          else decode_one p66 rex b rest)"

lemma with_rm_intro:
  "decode_rm rex byte bs = Some (d, a, rest) \<Longrightarrow> f d = Some (m, n) \<Longrightarrow> with_rm rex byte f bs = Some (instr m n a, rest)"
  by (simp add: with_rm_def)

lemma decode_set:
  assumes "c < 16" "decode_rm rex True ms = Some (d, a, rest)"
  shows "decode_two p66 rex (0x90 OR c) ms = Some (instr (''set'' @ condition c) 8 a, rest)"
proof -
  have "c \<in> set scalar_kinds" using assms(1) by (rule kind_scalar)
  then have "(0x90 OR c) AND 0xF0 = 0x90 \<and> (0x90 OR c) AND 15 = c AND 15" by (auto simp: scalar_kinds_def)
  then show ?thesis using assms(2) by (simp add: decode_two_def with_rm_def condition_def)
qed

lemma decode_rm_opcodes:
  assumes "bits_compatible b sizes" "decode_rm rex (b = eBits8) ms = Some (d, a, rest)"
    "bit rex 3 = (bits_less (asm1_default_size op) eBits64 \<and> \<not> bits_less b eBits64)"
    "(op, name, opc, d, sizes) \<in> set (take 8 rm_table)"
  shows "decode_opcode (b = eBits16) rex (widen sizes b opc @ ms) = Some (instr name (bits_val b) a, rest)"
proof -
  have b: "b = eBits8 \<or> b = eBits16 \<or> b = eBits32 \<or> b = eBits64" using bits_compatible_cases [OF assms(1)] by simp
  show ?thesis
    using assms(4) b assms(1,2,3)
    by (simp add: rm_table_def)
      (elim disjE; simp add: bits_compatible_def to_bitsize_def asm1_default_size_def bits_less_def
         decode_opcode_def widen_def decode_one_def with_rm_def size32_def size64_def bits_val_def bits_is_zero_def)
qed


lemma set_rows:
  "\<forall>(op, name, opc, d, sizes)\<in>set (drop 8 rm_table). let c = opc ! 1 AND 15 in
     c < 16 \<and> opc = [0x0F, 0x90 OR c] \<and> name = ''set'' @ condition c \<and> d = 0 \<and> sizes = B8"
  by (simp add: rm_table_def condition_def conditions_def)

lemma decode_set_opcodes:
  assumes "bits_compatible b sizes" "decode_rm rex (b = eBits8) ms = Some (d, a, rest)"
    "(op, name, opc, d, sizes) \<in> set (drop 8 rm_table)"
  shows "decode_opcode (b = eBits16) rex (widen sizes b opc @ ms) = Some (instr name (bits_val b) a, rest)"
proof -
  define c where "c = opc ! 1 AND 15"
  have r: "c < 16" "opc = [0x0F, 0x90 OR c]" "name = ''set'' @ condition c" "sizes = B8"
    using bspec [OF set_rows assms(3)] by (simp_all add: Let_def c_def)
  have b: "b = eBits8" using assms(1) r(4) bits_compatible_cases [OF assms(1)] by (auto simp: bits_compatible_def to_bitsize_def)
  have m: "ms \<noteq> []" using assms(2) by (auto simp: decode_rm_def)
  show ?thesis
    using decode_set [OF r(1), of rex ms d a rest False] assms(2)
    by (simp add: b r decode_opcode_def widen_def bits_val_def bits_is_zero_def)
qed

lemma decode_rm_table:
  assumes "bits_compatible b sizes" "decode_rm rex (b = eBits8) ms = Some (d, a, rest)"
    "bit rex 3 = (bits_less (asm1_default_size op) eBits64 \<and> \<not> bits_less b eBits64)"
    "(op, name, opc, d, sizes) \<in> set rm_table"
  shows "decode_opcode (b = eBits16) rex (widen sizes b opc @ ms) = Some (instr name (bits_val b) a, rest)"
proof -
  have "set rm_table = set (take 8 rm_table) \<union> set (drop 8 rm_table)" by (metis append_take_drop_id set_append)
  then show ?thesis using assms decode_rm_opcodes [OF assms(1-3)] decode_set_opcodes [OF assms(1,2)] by blast
qed

lemma widen_head_all:
  "\<forall>(op, name, opc, d, sizes)\<in>set rm_table. opc \<noteq> [] \<and> length opc \<le> 2 \<and> d \<in> set u3s \<and>
     (\<forall>b. hd (widen sizes b opc) \<notin> {0x66, 0xF3} \<and> hd (widen sizes b opc) AND 0xF0 \<noteq> 0x40)"
  by (simp add: rm_table_def widen_def u3s_def)

lemma decode_prefixed:
  assumes "reg_hi base \<in> {0, 1}" "reg_hi index \<in> {0, 1}"
    "bits_compatible (kind_bits k) sizes" "(op, name, opc, d, sizes) \<in> set rm_table"
    "decode_rm (rex_byte (asm1_default_size op) (kind_bits k) base index) (kind_bits k = eBits8) ms = Some (d, a, rest)"
  shows "decode (prefix_bytes k (asm1_default_size op) base index @ widen sizes (kind_bits k) opc @ ms) =
     Some (instr name (bits_val (kind_bits k)) a, rest)"
proof -
  let ?rex = "rex_byte (asm1_default_size op) (kind_bits k) base index"
  have h: "opc \<noteq> []" "hd (widen sizes (kind_bits k) opc) \<noteq> 0x66" "hd (widen sizes (kind_bits k) opc) \<noteq> 0xF3"
    "hd (widen sizes (kind_bits k) opc) AND 0xF0 \<noteq> 0x40"
    using bspec [OF widen_head_all assms(4)] by auto
  have w: "widen sizes (kind_bits k) opc = hd (widen sizes (kind_bits k) opc) # tl (widen sizes (kind_bits k) opc)"
    using h(1) by (auto simp: widen_def)
  have "decode (prefix_bytes k (asm1_default_size op) base index @ widen sizes (kind_bits k) opc @ ms) =
      decode_opcode (kind_bits k = eBits16) ?rex (widen sizes (kind_bits k) opc @ ms)"
    using decode_prefixes [OF assms(1,2) h(2,4,3)] by (subst (1 2) w) (simp add: decode_opcode_def)
  then show ?thesis
    using decode_rm_table [OF assms(3,5) _ assms(4)] rex_fields(3) [OF assms(1,2)] by simp
qed

subsection \<open>Instructions on memory\<close>

lemma take_from: "take (length ys) (ys @ zs) = ys"
  by simp

lemma emit_addr_bytes:
  assumes regs: "(index, scale) = (if mem_scale mem = eScale0 \<or> \<not> local_valid (mem_index mem) then (no_reg, eScale0)
        else (mem_index mem, mem_scale mem))"
      "(index', scale') = (if \<not> local_valid (mem_base mem) \<and> \<not> local_valid index then (reg_make eUint64 RSP, eScale1) else (index, scale))"
    and k: "k = (if op = X86_CLFLUSHOPT then eUint16 else nkind mem)" and opc: "length opc \<le> 2"
    and ob: "ob = get_offset_minbytes mem (mem_base mem) index'"
  shows "asm1_emit_addr op (opc @ [p]) ds mem d =
     (let d1 = asm_add (prefix_bytes k ds (mem_base mem) index' @ opc @ modrm_bytes p ob (mem_base mem) index' scale' @
            imm_bytes ob (mem_offset mem)) d
      in if node_valid (mem_label mem) then asm_add_relocation (mem_label mem) d1 else d1)"
proof -
  let ?pb = "prefix_bytes k ds (mem_base mem) index'"
  let ?mb = "modrm_bytes p ob (mem_base mem) index' scale'"
  have v: "local_valid (mem_base mem) \<or> local_valid index'"
    using regs by (auto simp: local_valid_def reg_make_def local_make_def local_kind_def id_make_def split: if_splits)
  have lp: "length ?pb \<le> 2" by (rule length_prefix_bytes)
  have lm: "length ?mb \<le> 2" by (simp add: modrm_bytes_def Let_def)
  define n where "n = 16 - length ?pb - length opc - 3"
  have n: "16 - length ?pb = length opc + 1 + Suc (Suc n)" "n \<ge> 9" using lp opc by (simp_all add: n_def)
  have ob': "ob = 0 \<or> ob = 1 \<or> ob = 4" by (simp add: ob get_offset_minbytes_def Let_def)
  define n' where "n' = Suc (Suc (Suc n)) - length ?mb - ob"
  have n': "Suc (Suc (Suc n)) - length ?mb = ob + n'" using n(2) lm ob' unfolding n'_def by linarith
  have 16: "(16 :: nat) = Suc (Suc 14)" by simp
  have i1: "asm1_insert_prefixes (replicate 16 0) 0 k ds (mem_base mem) index' = (?pb @ replicate (16 - length ?pb) 0, length ?pb)"
    unfolding 16 by (rule insert_prefixes)
  have i2: "buf_copy (?pb @ replicate (16 - length ?pb) 0) (length ?pb) (opc @ [p]) = (?pb @ opc) @ p # replicate (Suc (Suc n)) 0"
    using n(1) by (simp add: buf_copy_def del: replicate_Suc)
  have i3: "insert_modrm_sib ((?pb @ opc) @ p # replicate (Suc (Suc n)) 0) (length (?pb @ opc)) ob (mem_base mem) index' scale' =
      ((?pb @ opc) @ ?mb @ replicate (ob + n') 0, length (?pb @ opc) + length ?mb)"
    unfolding insert_modrm [OF v] n' ..
  have i4: "(if ob \<noteq> 0 then insert_offset_or_imm ((?pb @ opc) @ ?mb @ replicate (ob + n') 0) (length (?pb @ opc) + length ?mb) ob (mem_offset mem)
       else ((?pb @ opc) @ ?mb @ replicate (ob + n') 0, length (?pb @ opc) + length ?mb)) =
      ((?pb @ opc @ ?mb @ imm_bytes ob (mem_offset mem)) @ replicate n' 0, length (?pb @ opc @ ?mb @ imm_bytes ob (mem_offset mem)))"
    using ob' insert_imm [of ob "?pb @ opc @ ?mb" n' "mem_offset mem"] by (auto simp: length_imm_bytes add.assoc)
  have len: "length ?pb + (length (opc @ [p]) - 1) = length (?pb @ opc)" by simp
  show ?thesis
    unfolding asm1_emit_addr_def Let_def regs(1) [symmetric] prod.case regs(2) [symmetric] k [symmetric] i1 i2 ob [symmetric] len i3 i4
    by (simp only: take_from)
qed


end
