(* ===== verification/X64_Emit.thy ===== *)
theory X64_Emit imports X64_Sound begin

text \<open>
  What each function of \<open>src/onejit/x64/asm1.cpp\<close> appends to the assembler, and the theorem that the bytes decode to the
  instruction that was asked for.
\<close>

subsection \<open>Errors\<close>

lemma asm_good_simps [simp]:
  "good (abuf (asm_set_good g d)) = g" "aerrors (asm_set_good g d) = aerrors d" "asm_bytes (asm_set_good g d) = asm_bytes d"
  "arelocs (asm_set_good g d) = arelocs d"
  by (simp_all add: asm_set_good_def)

lemma asm_error_fails: "good (abuf (asm_error n msg d)) \<Longrightarrow> elems (aerrors (asm_error n msg d)) \<noteq> elems (aerrors d)"
  using arr_append_success [of "(bad_node, [])" "alloc_errors d" "[(n, msg)]" "aerrors d"]
  by (auto simp: asm_error_def split: prod.splits if_splits)

lemma asm_error_bytes [simp]: "asm_bytes (asm_error n msg d) = asm_bytes d" "arelocs (asm_error n msg d) = arelocs d"
  by (simp_all add: asm_error_def split: prod.splits)

lemma asm_add_bytes:
  "good (abuf (asm_add bs d)) \<Longrightarrow> asm_bytes (asm_add bs d) = asm_bytes d @ bs \<and> good (abuf d)"
  "aerrors (asm_add bs d) = aerrors d" "arelocs (asm_add bs d) = arelocs d"
  using buf_append_prefix [of 0 "alloc_bytes d" bs "abuf d"]
  by (auto simp: asm_add_def buf_append_def split: if_splits)

lemma asm_add_relocation_bytes:
  "asm_bytes (asm_add_relocation l d) = asm_bytes d" "aerrors (asm_add_relocation l d) = aerrors d"
  "good (abuf (asm_add_relocation l d)) \<Longrightarrow> good (abuf d)"
  by (auto simp: asm_add_relocation_def Let_def split: prod.splits if_splits)

lemma asm_add_relocation_fills:
  assumes "good (abuf (asm_add_relocation l d))" "node_valid l"
  shows "elems (arelocs (asm_add_relocation l d)) = elems (arelocs d) @ [(length (asm_bytes d), l)]"
  using assms arr_append_success [of "(0, bad_node)" "alloc_relocs d" "[(length (asm_bytes d), l)]" "arelocs d"]
  by (auto simp: asm_add_relocation_def Let_def split: prod.splits if_splits)

text \<open>What a call wrote: the bytes, and the relocations whose field ends there.\<close>

definition wrote :: "u8 list \<Rightarrow> node \<Rightarrow> assembler \<Rightarrow> assembler \<Rightarrow> bool" where
  "wrote bs l d d' \<longleftrightarrow> asm_bytes d' = asm_bytes d @ bs \<and>
     elems (arelocs d') = elems (arelocs d) @ (if node_valid l then [(length (asm_bytes d'), l)] else [])"

lemma wrote_add: "good (abuf (asm_add bs d)) \<Longrightarrow> wrote bs bad_node d (asm_add bs d)"
  using asm_add_bytes [of bs d] by (simp add: wrote_def)

lemma wrote_reloc:
  assumes "good (abuf (if node_valid l then asm_add_relocation l (asm_add bs d) else asm_add bs d))"
  shows "wrote bs l d (if node_valid l then asm_add_relocation l (asm_add bs d) else asm_add bs d)"
  using assms asm_add_bytes [of bs d] asm_add_relocation_bytes [of l "asm_add bs d"] asm_add_relocation_fills [of l "asm_add bs d"]
  by (auto simp: wrote_def)

subsection \<open>Memory\<close>

definition mem_address :: "node \<Rightarrow> eaddress" where
  "mem_address m =
     \<lparr>ea_base = (if \<not> local_valid (mem_base m) then NoBase else if reg_id (mem_base m) = RIP then Rip else Base (reg_number (mem_base m))),
      ea_index = (if local_valid (mem_index m) \<and> mem_scale m \<noteq> eScale0
                  then Some (reg_number (mem_index m), unat (scale_val (mem_scale m))) else None),
      ea_disp = mem_offset m\<rparr>"

lemma validate_mem_cases:
  "validate_mem m d = (True, d) \<and> (local_valid (mem_base m) \<longrightarrow> general_id (reg_id (mem_base m))) \<and>
     (local_valid (mem_index m) \<and> mem_scale m \<noteq> eScale0 \<longrightarrow> general_id (reg_id (mem_index m)) \<and> reg_id (mem_index m) \<noteq> RSP \<and>
        reg_id (mem_index m) \<noteq> RIP \<and> reg_id (mem_base m) \<noteq> RIP)
   \<or> (\<exists>msg. validate_mem m d = (False, asm_error m msg d))
   \<or> (\<exists>msg1 msg2. validate_mem m d = (False, asm_error m msg2 (asm_error m msg1 d)))"
  by (simp add: validate_mem_def Let_def) blast

lemma mem_scale_ok: "mem_scale m \<noteq> eScale0 \<Longrightarrow> mem_scale m \<in> {eScale1, eScale2, eScale4, eScale8}"
  using scale_of_ok [of "ucast (vbits (const_val (as_const (child m 4))))"]
  by (auto simp: mem_scale_def scale_cases)

lemma scale_val_bits: "s \<in> {eScale1, eScale2, eScale4, eScale8} \<Longrightarrow> unat (scale_val s) = 2 ^ unat (scale_bits s)"
  by (auto simp: scale_val_def scale_bits_def)

lemma rsp_reg [simp]: "reg_id (reg_make eUint64 RSP) = RSP" "local_valid (reg_make eUint64 RSP)" "reg_hi (reg_make eUint64 RSP) = 0"
  by (simp_all add: reg_make_def local_make_def id_make_def reg_id_def local_id_def local_valid_def local_kind_def reg_hi_def rhi_def)

lemma hi_u1: "reg_hi r \<in> {0, 1}"
proof -
  have "drop_bit 3 (reg_id r) AND 1 = 0 \<or> drop_bit 3 (reg_id r) AND 1 = 1" by (simp add: and_one_eq mod_2_eq_odd)
  then show ?thesis unfolding reg_hi_def rhi_def by (elim disjE; simp only:; simp)
qed

lemma decode_memory:
  assumes base: "local_valid (mem_base m) \<or> mem_base m = no_reg"
    and ok: "local_valid (mem_base m) \<longrightarrow> general_id (reg_id (mem_base m))"
      "local_valid (mem_index m) \<and> mem_scale m \<noteq> eScale0 \<longrightarrow> general_id (reg_id (mem_index m)) \<and> reg_id (mem_index m) \<noteq> RSP \<and>
        reg_id (mem_index m) \<noteq> RIP \<and> reg_id (mem_base m) \<noteq> RIP"
    and regs: "(index, scale) = (if mem_scale m = eScale0 \<or> \<not> local_valid (mem_index m) then (no_reg, eScale0)
        else (mem_index m, mem_scale m))"
      "(index', scale') = (if \<not> local_valid (mem_base m) \<and> \<not> local_valid index then (reg_make eUint64 RSP, eScale1) else (index, scale))"
    and ob: "ob = get_offset_minbytes m (mem_base m) index'" and d: "dd \<in> set u3s"
    and rex: "rex = rex_byte ds sz (mem_base m) index'"
  shows "decode_rm rex byte (modrm_bytes (push_bit 3 dd) ob (mem_base m) index' scale' @ imm_bytes ob (mem_offset m)) =
     Some (dd, MemOp (mem_address m), [])"
proof -
  have a: "addressable (mem_base m) index' scale'"
    using base ok regs mem_scale_ok [of m] by (auto simp: addressable_def general_id_def split: if_splits)
  have e: "enough_bytes ob (mem_offset m) (mem_base m) index'"
    using base by (auto simp: enough_bytes_def ob get_offset_minbytes_def Let_def)
  note rx = rex_fields(1,2) [OF hi_u1 hi_u1, of ds sz "mem_base m" index', folded rex]
  show ?thesis
  proof (cases "local_valid index'")
    case True
    then show ?thesis
      using decode_index [OF a e d rx True, of byte "[]"] ok regs mem_scale_ok [of m] scale_val_bits [of "mem_scale m"]
      by (auto simp: mem_address_def split: if_splits)
  next
    case False
    then have "index' = no_reg" "local_valid (mem_base m)" using regs a by (auto simp: addressable_def split: if_splits)
    then show ?thesis
      using decode_base [OF a e d rx False, of byte "[]"] regs
      by (auto simp: mem_address_def split: if_splits)
  qed
qed


subsection \<open>Registers\<close>

text \<open>The registers an instruction can name: not \<open>RIP\<close>, which the code counts among them too.\<close>

definition encodable_reg :: "u32 \<Rightarrow> bool" where
  "encodable_reg r \<longleftrightarrow> RAX \<le> reg_id r \<and> reg_id r \<le> R15"

lemma encodable_general: "encodable_reg r \<Longrightarrow> general_id (reg_id r) \<and> reg_id r \<noteq> RIP"
proof -
  assume e: "encodable_reg r"
  have "\<not> RIP \<le> R15" by simp
  then have "reg_id r \<noteq> RIP" using e unfolding encodable_reg_def by metis
  with e show ?thesis by (simp add: encodable_reg_def general_id_def)
qed

lemma encodable_number:
  assumes "encodable_reg r"
  shows "ext_b rex (reg_lo r) = reg_number r \<longleftrightarrow> (bit rex 0 \<longleftrightarrow> reg_hi r = 1)"
    "reg_number r < 16"
proof -
  note e = encodable_general [OF assms]
  note f = reg_fields(1-3) [OF e [THEN conjunct1]]
  have l: "unat (reg_lo r) < 8" using f(1) by (auto simp: u3s_def)
  show "ext_b rex (reg_lo r) = reg_number r \<longleftrightarrow> (bit rex 0 \<longleftrightarrow> reg_hi r = 1)"
    using f(2,3) e by (auto simp: ext_b_def)
  show "reg_number r < 16" using f(2,3) e l by auto
qed

text \<open>An 8-bit register from \<open>%spl\<close> on gets a REX prefix, so that it is not read as \<open>%ah\<close> to \<open>%bh\<close>.\<close>

lemma reg_operand_number:
  assumes "encodable_reg r" "local_valid r" "rex = rex_byte ds (kind_bits (local_kind r)) r no_reg"
  shows "reg_operand rex (kind_bits (local_kind r) = eBits8) (reg_lo r) = RegOp (reg_number r)"
proof -
  note e = encodable_general [OF assms(1)]
  have rex0: "rex \<noteq> 0" if "kind_bits (local_kind r) = eBits8" "reg_id r \<ge> RSP"
    using that assms(2) hi_u1 [of r] unfolding assms(3) rex_byte_def Let_def by (auto simp: bits_less_def)
  have "reg_lo r < 4" if "reg_id r < RSP" using general_fields(6) [OF e [THEN conjunct1] that] by (simp add: reg_lo_def)
  then have "\<not> (kind_bits (local_kind r) = eBits8 \<and> rex = 0 \<and> 4 \<le> reg_lo r)"
    using rex0 by (metis not_le)
  moreover have "ext_b rex (reg_lo r) = reg_number r"
    using encodable_number(1) [OF assms(1)] rex_fields(1) [OF hi_u1 hi_u1] assms(3) by simp
  ultimately show ?thesis by (auto simp: reg_operand_def)
qed

lemma decode_register:
  assumes "encodable_reg r" "local_valid r" "rex = rex_byte ds (kind_bits (local_kind r)) r no_reg" "d \<in> set u3s"
  shows "decode_rm rex (kind_bits (local_kind r) = eBits8) [push_bit 3 d OR (0xC0 OR reg_lo r)] = Some (d, RegOp (reg_number r), [])"
proof -
  have l: "reg_lo r \<in> set u3s" using reg_fields(1) encodable_general [OF assms(1)] by blast
  have m: "(0xC0 :: u8) \<in> set [0, 0x40, 0x80, 0xC0]" by simp
  note f = modrm_fields [OF assms(4) l m, unfolded or.assoc]
  show ?thesis unfolding decode_rm_def list.case Let_def f reg_operand_number [OF assms(1-3)] by simp
qed

lemma emit_reg_bytes:
  assumes "inst1_bytes inst = opc @ [p]" "opc \<noteq> []" "length opc \<le> 2" "op \<noteq> X86_POP" "op \<noteq> X86_PUSH" "op \<noteq> X86_RDTSC"
  shows "asm1_emit_reg inst op r d =
     asm_add (prefix_bytes (local_kind r) (asm1_default_size op) r no_reg @ widen (i1_arg_size inst) (kind_bits (local_kind r)) opc @
       [p OR (0xC0 OR reg_lo r)]) d"
proof -
  let ?pb = "prefix_bytes (local_kind r) (asm1_default_size op) r no_reg"
  have i1: "asm1_insert_prefixes (replicate 8 0) 0 (local_kind r) (asm1_default_size op) r no_reg =
      (?pb @ replicate (8 - length ?pb) 0, length ?pb)"
    using insert_prefixes [of 6] by (simp add: numeral_eq_Suc del: replicate_Suc)
  have lp: "length ?pb \<le> 2" by (rule length_prefix_bytes)
  define n where "n = 5 - length ?pb"
  have n: "8 - length ?pb = Suc (Suc (Suc n))" using lp by (simp add: n_def)
  from assms(2,3) consider o1 where "opc = [o1]" | o1 o2 where "opc = [o1, o2]"
    by (cases opc; cases "tl opc"; cases "tl (tl opc)") auto
  then show ?thesis
  proof cases
    case 1
    then show ?thesis using assms unfolding asm1_emit_reg_def i1 n
      by (simp add: Let_def widen_def buf_or_def list_update_append nth_append or.commute [of 1 o1])
  next
    case 2
    then show ?thesis using assms unfolding asm1_emit_reg_def i1 n
      by (simp add: Let_def widen_def buf_or_def list_update_append nth_append numeral_eq_Suc or.commute [of 1 o1])
  qed
qed

lemma emit_push_pop_bytes:
  "asm1_emit_pop_or_push_reg op r d =
     asm_add (prefix_bytes (local_kind r) (asm1_default_size op) r no_reg @ [0x50 OR reg_lo r OR (if op = X86_POP then 8 else 0)]) d"
proof -
  let ?pb = "prefix_bytes (local_kind r) (asm1_default_size op) r no_reg"
  have i1: "asm1_insert_prefixes (replicate 4 0) 0 (local_kind r) (asm1_default_size op) r no_reg =
      (?pb @ replicate (4 - length ?pb) 0, length ?pb)"
    using insert_prefixes [of 2] by (simp add: numeral_eq_Suc del: replicate_Suc)
  have lp: "length ?pb \<le> 2" by (rule length_prefix_bytes)
  define n where "n = 3 - length ?pb"
  have n: "4 - length ?pb = Suc n" using lp by (simp add: n_def)
  show ?thesis unfolding asm1_emit_pop_or_push_reg_def i1 n by (simp add: Let_def list_update_append)
qed


subsection \<open>Immediates and labels\<close>

text \<open>The table of instructions with its constructors evaluated.\<close>

type_synonym inst_info = "u8 list \<times> u8 list \<times> u8 list \<times> u8 \<times> u8 \<times> u8"

definition inst1_info :: "inst1 \<Rightarrow> inst_info" where
  "inst1_info i = (inst1_bytes i, inst1_imm8_bytes i, inst1_imm32_bytes i, i1_arg i, i1_arg_size i, i1_imm_size i)"

definition info_list :: "inst_info list" where
  "info_list =
     [([0x0f, 0x0b], [0x0f, 0x0b], [0x0f, 0x0b], 0, 0, 0), ([0x0f, 0xc8], [], [], 7, 12, 0), ([0xff, 0x10], [], [0xe8], 55, 8, 4),
      ([], [], [], 1, 14, 0), ([0xfe, 0x08], [], [], 23, 15, 0), ([0xfe, 0x00], [], [], 23, 15, 0),
      ([], [0xcd], [], 32, 0, 1), ([], [0x77], [0x0f, 0x87], 32, 0, 5), ([], [0x73], [0x0f, 0x83], 32, 0, 5),
      ([], [0x72], [0x0f, 0x82], 32, 0, 5), ([], [0x76], [0x0f, 0x86], 32, 0, 5), ([], [0x74], [0x0f, 0x84], 32, 0, 5),
      ([], [0x7f], [0x0f, 0x8f], 32, 0, 5), ([], [0x7d], [0x0f, 0x8d], 32, 0, 5), ([], [0x7c], [0x0f, 0x8c], 32, 0, 5),
      ([], [0x7e], [0x0f, 0x8e], 32, 0, 5), ([], [0x75], [0x0f, 0x85], 32, 0, 5), ([], [0x71], [0x0f, 0x81], 32, 0, 5),
      ([], [0x7b], [0x0f, 0x8b], 32, 0, 5), ([], [0x79], [0x0f, 0x89], 32, 0, 5), ([], [0x70], [0x0f, 0x80], 32, 0, 5),
      ([], [0x7a], [0x0f, 0x8a], 32, 0, 5), ([], [0x78], [0x0f, 0x88], 32, 0, 5), ([0xff, 0x20], [0xeb], [0xe9], 55, 8, 5),
      ([0xf6, 0x18], [], [], 23, 15, 0), ([0xf6, 0x10], [], [], 23, 15, 0), ([0x8f, 0x00], [], [], 23, 10, 0),
      ([0xff, 0x30], [0x6a], [0x68], 55, 10, 5), ([0x0f, 0x31], [], [], 1, 16, 0), ([0x0f, 0x97, 0x00], [], [], 23, 1, 0),
      ([0x0f, 0x93, 0x00], [], [], 23, 1, 0), ([0x0f, 0x92, 0x00], [], [], 23, 1, 0), ([0x0f, 0x96, 0x00], [], [], 23, 1, 0),
      ([0x0f, 0x94, 0x00], [], [], 23, 1, 0), ([0x0f, 0x9f, 0x00], [], [], 23, 1, 0), ([0x0f, 0x9d, 0x00], [], [], 23, 1, 0),
      ([0x0f, 0x9c, 0x00], [], [], 23, 1, 0), ([0x0f, 0x9e, 0x00], [], [], 23, 1, 0), ([0x0f, 0x95, 0x00], [], [], 23, 1, 0),
      ([0x0f, 0x91, 0x00], [], [], 23, 1, 0), ([0x0f, 0x9b, 0x00], [], [], 23, 1, 0), ([0x0f, 0x99, 0x00], [], [], 23, 1, 0),
      ([0x0f, 0x90, 0x00], [], [], 23, 1, 0), ([0x0f, 0x9a, 0x00], [], [], 23, 1, 0), ([0x0f, 0x98, 0x00], [], [], 23, 1, 0),
      ([], [], [], 16, 1, 0), ([], [], [], 16, 1, 0), ([], [], [], 16, 1, 0),
      ([], [], [], 32, 0, 1)]"

lemma info_list: "map inst1_info inst1_vec = info_list"
  by (simp add: inst1_info_def info_list_def inst1_eval)

lemma asm1_info:
  assumes "5 \<le> n" "n \<le> 52"
  shows "inst1_info (asm1_find (of_nat n)) = info_list ! (n - 4)"
proof -
  have u: "unat (of_nat n :: opcode) = n" using assms by (simp add: unat_of_nat)
  have f: "asm1_find (of_nat n) = inst1_vec ! (n - 4)" "length inst1_vec = 49"
    using assms by (simp_all add: asm1_find_def word_le_nat_alt u Let_def inst1_vec_def Suc_diff_le)
  show ?thesis unfolding f(1) info_list [symmetric] using assms f(2) by simp
qed

lemmas asm1_fields = asm1_info [unfolded inst1_info_def]

text \<open>
  The operations on an immediate or a label: their name, the opcodes of the 8-bit and of the 32-bit form, and the sizes
  of immediates.
\<close>

definition imm_table :: "(opcode \<times> string \<times> u8 list \<times> u8 list \<times> u8) list" where
  "imm_table =
     [(X86_CALL, ''call'', [], [0xE8], 4), (X86_INT, ''int'', [0xCD], [], 1),
      (X86_JMP, ''jmp'', [0xEB], [0xE9], 5), (X86_PUSH, ''push'', [0x6A], [0x68], 5),
      (11, ''ja'', [0x77], [0x0F, 0x87], 5), (12, ''jae'', [0x73], [0x0F, 0x83], 5),
      (13, ''jb'', [0x72], [0x0F, 0x82], 5), (14, ''jbe'', [0x76], [0x0F, 0x86], 5),
      (15, ''je'', [0x74], [0x0F, 0x84], 5), (16, ''jg'', [0x7F], [0x0F, 0x8F], 5),
      (17, ''jge'', [0x7D], [0x0F, 0x8D], 5), (18, ''jl'', [0x7C], [0x0F, 0x8C], 5),
      (19, ''jle'', [0x7E], [0x0F, 0x8E], 5), (20, ''jne'', [0x75], [0x0F, 0x85], 5),
      (21, ''jno'', [0x71], [0x0F, 0x81], 5), (22, ''jnp'', [0x7B], [0x0F, 0x8B], 5),
      (23, ''jns'', [0x79], [0x0F, 0x89], 5), (24, ''jo'', [0x70], [0x0F, 0x80], 5),
      (25, ''jp'', [0x7A], [0x0F, 0x8A], 5), (26, ''js'', [0x78], [0x0F, 0x88], 5)]"

definition imm_operand :: "opcode \<Rightarrow> u32 \<Rightarrow> operand" where
  "imm_operand op = (if op = X86_PUSH \<or> op = X86_INT then ImmOp else RelOp)"

lemma imm_bytes_all:
  "\<forall>(op, name, o8, o32, sizes)\<in>set imm_table. (\<exists>bs a as. inst1_info (asm1_find op) = (bs, o8, o32, a, as, sizes)) \<and>
     length o8 \<le> 2 \<and> length o32 \<le> 2 \<and> sizes AND 2 = 0 \<and> (sizes AND 4 \<noteq> 0 \<longrightarrow> o32 \<noteq> [])"
  using asm1_info [of 6] asm1_info [of 10] asm1_info [of 11] asm1_info [of 12] asm1_info [of 13] asm1_info [of 14] asm1_info [of 15]
    asm1_info [of 16] asm1_info [of 17] asm1_info [of 18] asm1_info [of 19] asm1_info [of 20] asm1_info [of 21] asm1_info [of 22]
    asm1_info [of 23] asm1_info [of 24] asm1_info [of 25] asm1_info [of 26] asm1_info [of 27] asm1_info [of 31]
  by (simp add: imm_table_def info_list_def)

lemma imm_names_all: "\<forall>(op, name, o8, o32, sizes)\<in>set imm_table. op1_name op = name"
  by (simp add: imm_table_def op1_name_def print_op1_def print_row_def opstmt1_rows_def enum_rows_def opstmt1_mir_def opstmt1_x86_def)

lemma get_imm_all [simp]:
  "fits8 x \<Longrightarrow> get_imm (Suc 0) (imm_bytes (Suc 0) x) = Some (x, [])" "get_imm 4 (imm_bytes 4 x) = Some (x, [])"
  using get_imm_bytes(1,2) [of x "[]"] by simp_all

lemma jump_bytes:
  assumes "c < 16"
  shows "0x70 OR c \<noteq> 0x66" "0x70 OR c \<noteq> 0x0F" "0x70 OR c \<noteq> 0xF3" "(0x70 OR c) AND 0xF0 = 0x70"
    "(0x70 OR c) AND 0xF8 \<noteq> 0x50" "(0x70 OR c) AND 0xF8 \<noteq> 0x58" "0x70 OR c \<noteq> 0x68" "0x70 OR c \<noteq> 0x6A"
    "(0x70 OR c) AND 15 = c AND 15" "(0x80 OR c) AND 0xF0 = 0x80" "(0x80 OR c) AND 15 = c AND (15 :: u8)"
  using kind_scalar [OF assms] by (auto simp: scalar_kinds_def)

lemma decode_jcc:
  assumes "c < 16"
  shows "fits8 x \<Longrightarrow> decode ([0x70 OR c] @ imm_bytes 1 x) = Some (instr (CHR ''j'' # condition c) 0 (RelOp x), [])"
    "decode ([0x0F, 0x80 OR c] @ imm_bytes 4 x) = Some (instr (CHR ''j'' # condition c) 0 (RelOp x), [])"
  using jump_bytes [OF assms]
  by (simp_all add: decode_def get_opsize_def get_rex_def decode_one_def decode_two_def with_imm_def condition_def del: get_imm.simps)

lemma jcc_rows:
  "\<forall>(op, name, o8, o32, sizes)\<in>set (drop 4 imm_table). let c = o8 ! 0 AND 15 in
     c < 16 \<and> o8 = [0x70 OR c] \<and> o32 = [0x0F, 0x80 OR c] \<and> name = CHR ''j'' # condition c \<and> imm_operand op = RelOp"
  by (simp add: imm_table_def condition_def conditions_def imm_operand_def)

lemma decode_other_imm:
  "decode ([0xE8] @ imm_bytes 4 x) = Some (instr ''call'' 0 (RelOp x), [])"
  "decode ([0xE9] @ imm_bytes 4 x) = Some (instr ''jmp'' 0 (RelOp x), [])"
  "decode ([0x68] @ imm_bytes 4 x) = Some (instr ''push'' 0 (ImmOp x), [])"
  "fits8 x \<Longrightarrow> decode ([0xCD] @ imm_bytes 1 x) = Some (instr ''int'' 0 (ImmOp x), [])"
  "fits8 x \<Longrightarrow> decode ([0xEB] @ imm_bytes 1 x) = Some (instr ''jmp'' 0 (RelOp x), [])"
  "fits8 x \<Longrightarrow> decode ([0x6A] @ imm_bytes 1 x) = Some (instr ''push'' 0 (ImmOp x), [])"
  by (simp_all add: decode_def get_opsize_def get_rex_def decode_one_def with_imm_def del: get_imm.simps)

lemma decode_imm:
  assumes "(op, name, o8, o32, sizes) \<in> set imm_table"
  shows "sizes AND B8 \<noteq> 0 \<Longrightarrow> fits8 x \<Longrightarrow> decode (o8 @ imm_bytes 1 x) = Some (instr name 0 (imm_operand op x), [])"
    "sizes AND B32 \<noteq> 0 \<Longrightarrow> decode (o32 @ imm_bytes 4 x) = Some (instr name 0 (imm_operand op x), [])"
proof -
  have "set imm_table = set (take 4 imm_table) \<union> set (drop 4 imm_table)" by (metis append_take_drop_id set_append)
  with assms consider "(op, name, o8, o32, sizes) \<in> set (take 4 imm_table)" | "(op, name, o8, o32, sizes) \<in> set (drop 4 imm_table)"
    by blast
  then have "(sizes AND B8 \<noteq> 0 \<longrightarrow> fits8 x \<longrightarrow> decode (o8 @ imm_bytes 1 x) = Some (instr name 0 (imm_operand op x), [])) \<and>
      (sizes AND B32 \<noteq> 0 \<longrightarrow> decode (o32 @ imm_bytes 4 x) = Some (instr name 0 (imm_operand op x), []))"
  proof cases
    case 1
    then show ?thesis
      by (simp add: imm_table_def) (elim disjE; use decode_other_imm [of x] in \<open>simp add: imm_operand_def\<close>)
  next
    case 2
    define c where "c = o8 ! 0 AND 15"
    from bspec [OF jcc_rows 2] have "c < 16" "o8 = [0x70 OR c]" "o32 = [0x0F, 0x80 OR c]" "name = CHR ''j'' # condition c"
      "imm_operand op = RelOp" by (simp_all add: Let_def c_def)
    with decode_jcc [of c x] show ?thesis by simp
  qed
  then show "sizes AND B8 \<noteq> 0 \<Longrightarrow> fits8 x \<Longrightarrow> decode (o8 @ imm_bytes 1 x) = Some (instr name 0 (imm_operand op x), [])"
    "sizes AND B32 \<noteq> 0 \<Longrightarrow> decode (o32 @ imm_bytes 4 x) = Some (instr name 0 (imm_operand op x), [])"
    by blast+
qed

lemma copy_to_6:
  assumes "length bs \<le> 2"
  shows "buf_copy (replicate 6 0) 0 bs = bs @ replicate (4 + (2 - length bs)) 0"
    "buf_copy (replicate 6 0) 0 bs = bs @ replicate (1 + (5 - length bs)) 0"
  using assms by (simp_all add: buf_copy_def del: replicate_Suc)

lemma emit_const_bytes:
  assumes "i1_imm_size inst AND B16 = 0" "length (inst1_imm8_bytes inst) \<le> 2" "length (inst1_imm32_bytes inst) \<le> 2"
    "x = ucast (vbits v)"
  shows "asm1_emit_const inst v d =
     asm_add (if fits8 x \<and> i1_imm_size inst AND B8 \<noteq> 0 then inst1_imm8_bytes inst @ imm_bytes 1 x
              else inst1_imm32_bytes inst @ imm_bytes 4 x) d"
proof -
  show ?thesis
  proof (cases "fits8 x \<and> i1_imm_size inst AND B8 \<noteq> 0")
    case True
    then show ?thesis
      using assms insert_imm [of 1 "inst1_imm8_bytes inst" "5 - length (inst1_imm8_bytes inst)" x] copy_to_6(2) [OF assms(2)]
      by (simp add: asm1_emit_const_def Let_def length_imm_bytes del: replicate_Suc)
  next
    case False
    then show ?thesis
      using assms insert_imm [of 4 "inst1_imm32_bytes inst" "2 - length (inst1_imm32_bytes inst)" x] copy_to_6(1) [OF assms(3)]
      by (auto simp: asm1_emit_const_def Let_def length_imm_bytes simp del: replicate_Suc)
  qed
qed

lemma emit_label_bytes:
  assumes "length (inst1_imm32_bytes inst) \<le> 2"
  shows "asm1_emit_label inst l d = asm_add_relocation l (asm_add (inst1_imm32_bytes inst @ imm_bytes 4 0) d)"
proof -
  have "imm_bytes 4 0 = replicate 4 0" by (simp add: imm_bytes_def numeral_eq_Suc)
  then show ?thesis
    by (simp add: asm1_emit_label_def copy_to_6(1) [OF assms] replicate_more Let_def del: replicate_Suc)
qed

subsection \<open>Which operations take which arguments\<close>

definition reg_ops :: "opcode list" where "reg_ops = [X86_BSWAP, X86_CBW, X86_RDTSC] @ map fst rm_table"
definition mem_ops :: "opcode list" where "mem_ops = [X86_CLFLUSH, X86_CLFLUSHOPT, X86_CLWB] @ map fst rm_table"
definition imm_ops :: "opcode list" where "imm_ops = [X86_XABORT] @ map fst imm_table"

lemma rm_imm_ops:
  "map fst rm_table = [6, 8, 9, 27, 28, 29, 30, 31, 33, 34, 35, 36, 37, 38, 39, 40, 41, 42, 43, 44, 45, 46, 47, 48]"
  "map fst imm_table = [6, 10, 27, 31, 11, 12, 13, 14, 15, 16, 17, 18, 19, 20, 21, 22, 23, 24, 25, 26]"
  by (simp_all add: rm_table_def imm_table_def)

definition classified :: "opcode \<Rightarrow> u8 \<Rightarrow> bool" where
  "classified op a \<longleftrightarrow> a AND 8 = 0 \<and> (a AND 7 \<noteq> 0 \<longrightarrow> op \<in> set reg_ops) \<and> (a AND 16 \<noteq> 0 \<longrightarrow> op \<in> set mem_ops) \<and>
     (a AND 32 \<noteq> 0 \<longrightarrow> op \<in> set imm_ops)"

lemma info_args:
  "map (\<lambda>(_, _, _, a, _, _). a) info_list =
     [0, 7, 55, 1, 23, 23, 32] @ replicate 16 32 @ [55, 23, 23, 23, 55, 1] @ replicate 16 23 @ [16, 16, 16, 32]"
  by (simp add: info_list_def numeral_eq_Suc)

lemma classified_all:
  "list_all2 classified (map of_nat [5..<53])
     ([7, 55, 1, 23, 23, 32] @ replicate 16 32 @ [55, 23, 23, 23, 55, 1] @ replicate 16 23 @ [16, 16, 16, 32])"
  unfolding classified_def reg_ops_def mem_ops_def imm_ops_def rm_imm_ops by (simp add: upt_rec numeral_eq_Suc)

lemma asm_error_logs:
  "good (abuf (asm_error n msg d)) \<Longrightarrow> elems (aerrors (asm_error n msg d)) = elems (aerrors d) @ [(n, msg)] \<and> good (abuf d)"
  using arr_append_success [of "(bad_node, [])" "alloc_errors d" "[(n, msg)]" "aerrors d"]
  by (auto simp: asm_error_def split: prod.splits if_splits)

lemma asm_errors_twice:
  assumes "good (abuf (asm_error n msg2 (asm_error n msg1 d)))"
  shows "elems (aerrors (asm_error n msg2 (asm_error n msg1 d))) \<noteq> elems (aerrors d)"
proof
  assume "elems (aerrors (asm_error n msg2 (asm_error n msg1 d))) = elems (aerrors d)"
  with asm_error_logs [OF assms] asm_error_logs [of n msg1 d] show False by auto
qed

lemma asm1_classified: "classified op (i1_arg (asm1_find op))"
proof (cases "5 \<le> unat op \<and> unat op \<le> 52")
  case True
  define n where "n = unat op"
  have op: "op = of_nat n" "5 \<le> n" "n \<le> 52" using True by (simp_all add: n_def)
  let ?L = "[7, 55, 1, 23, 23, 32] @ replicate 16 32 @ [55, 23, 23, 23, 55, 1] @ replicate 16 23 @ [16, 16, 16, 32] :: u8 list"
  have l: "length info_list = 49" by (simp add: info_list_def)
  have "i1_arg (asm1_find op) = (\<lambda>(_, _, _, a, _, _). a) (info_list ! (n - 4))"
    unfolding asm1_info [OF op(2,3), symmetric] by (simp add: op(1) inst1_info_def)
  also have "\<dots> = map (\<lambda>(_, _, _, a, _, _). a) info_list ! (n - 4)" using op(2,3) l by simp
  also have "\<dots> = (0 # ?L) ! (n - 4)" unfolding info_args by simp
  also have "\<dots> = ?L ! (n - 5)" using op(2) by (simp add: nth_Cons')
  finally have a: "i1_arg (asm1_find op) = ?L ! (n - 5)" .
  have "classified (map of_nat [5..<53] ! (n - 5)) (?L ! (n - 5))"
    using op(2,3) by (intro list_all2_nthD [OF classified_all]) simp
  moreover have "[5..<53] ! (n - 5) = n" by (rule trans [OF nth_upt]) (use op in simp_all)
  moreover have "map of_nat [5..<53] ! (n - 5) = (of_nat ([5..<53] ! (n - 5)) :: opcode)"
    by (rule nth_map) (use op in simp)
  ultimately have "map of_nat [5..<53] ! (n - 5) = op" by (simp only: op(1))
  with \<open>classified (map of_nat [5..<53] ! (n - 5)) (?L ! (n - 5))\<close> show ?thesis unfolding a by (simp only:)
next
  case False
  then have "\<not> (op \<ge> X86_BSWAP \<and> op \<le> X86_XABORT)" by (simp add: word_le_nat_alt)
  then have f: "asm1_find op = inst1_vec ! 0" unfolding asm1_find_def Let_def by (simp only: if_False)
  have "i1_arg (inst1_vec ! 0) = 0" by (simp add: inst1_vec_def mk_inst1_def)
  then show ?thesis unfolding f classified_def by simp
qed

lemma rm_row:
  assumes "op \<in> set (map fst rm_table)"
  obtains opc d sizes where "(op, op1_name op, opc, d, sizes) \<in> set rm_table" "inst1_bytes (asm1_find op) = opc @ [push_bit 3 d]"
    "i1_arg_size (asm1_find op) = sizes" "d \<in> set u3s" "opc \<noteq> []" "length opc \<le> 2"
proof -
  obtain name opc d sizes where r: "(op, name, opc, d, sizes) \<in> set rm_table" using assms by force
  have n: "op1_name op = name" using bspec [OF rm_names_all r] by simp
  show thesis
    using that [of opc d sizes] r n bspec [OF rm_bytes_all r] bspec [OF widen_head_all r] by simp
qed

lemma imm_row:
  assumes "op \<in> set (map fst imm_table)"
  obtains o8 o32 sizes where "(op, op1_name op, o8, o32, sizes) \<in> set imm_table" "inst1_imm8_bytes (asm1_find op) = o8"
    "inst1_imm32_bytes (asm1_find op) = o32" "i1_imm_size (asm1_find op) = sizes" "length o8 \<le> 2" "length o32 \<le> 2" "sizes AND 2 = 0"
proof -
  obtain name o8 o32 sizes where r: "(op, name, o8, o32, sizes) \<in> set imm_table" using assms by force
  have n: "op1_name op = name" using bspec [OF imm_names_all r] by simp
  show thesis
    using that [of o8 o32 sizes] r n bspec [OF imm_bytes_all r] by (auto simp: inst1_info_def)
qed

subsection \<open>The instruction a statement asks for\<close>

definition arg_value :: "node \<Rightarrow> u32" where
  "arg_value a = (if nty a = CONSTN then ucast (vbits (const_val a)) else 0)"

definition x64_instr1 :: "node \<Rightarrow> instr" where
  "x64_instr1 st =
     (let a = child st 0; op = nop st
      in case nty a of
           VAR \<Rightarrow> instr (op1_name op) (kind_bitsize (local_kind (node_local a))) (RegOp (reg_number (node_local a)))
         | MEM \<Rightarrow> instr (op1_name op) (kind_bitsize (nkind a)) (MemOp (mem_address a))
         | _ \<Rightarrow> instr (op1_name op) 0 (imm_operand op (arg_value a)))"

definition reloc_label :: "node \<Rightarrow> node" where
  "reloc_label a = (if nty a = MEM then mem_label a else as_label a)"

text \<open>
  The statements the assembler gets wrong: \<open>CBW\<close> and \<open>XABORT\<close>, whose opcodes are not implemented; \<open>INT\<close> with a number that
  does not fit a signed byte; a register operand \<open>RIP\<close>. In a memory operand the base is a register or missing.
\<close>

definition supported1 :: "node \<Rightarrow> bool" where
  "supported1 st \<longleftrightarrow>
     (let a = child st 0; op = nop st
      in op \<noteq> X86_CBW \<and> op \<noteq> X86_XABORT \<and> (op = X86_INT \<longrightarrow> fits8 (arg_value a)) \<and>
         (nty a = VAR \<longrightarrow> reg_id (node_local a) \<noteq> RIP) \<and>
         (nty a = MEM \<longrightarrow> local_valid (mem_base a) \<or> mem_base a = no_reg))"

lemma emit_memory:
  assumes "op \<in> set (map fst rm_table)" "bits_compatible (kind_bits (nkind m)) (i1_arg_size (asm1_find op))"
    "local_valid (mem_base m) \<or> mem_base m = no_reg"
    "d' = asm1_emit_mem (asm1_find op) op m d" "good (abuf d')" "elems (aerrors d') = elems (aerrors d)"
  shows "\<exists>bs. wrote bs (mem_label m) d d' \<and> decode bs = Some (instr (op1_name op) (kind_bitsize (nkind m)) (MemOp (mem_address m)), [])"
proof -
  obtain opc dd sizes where r: "(op, op1_name op, opc, dd, sizes) \<in> set rm_table" "inst1_bytes (asm1_find op) = opc @ [push_bit 3 dd]"
    "i1_arg_size (asm1_find op) = sizes" "dd \<in> set u3s" "opc \<noteq> []" "length opc \<le> 2"
    using assms(1) by (rule rm_row)
  have v: "validate_mem m d = (True, d) \<and> (local_valid (mem_base m) \<longrightarrow> general_id (reg_id (mem_base m))) \<and>
     (local_valid (mem_index m) \<and> mem_scale m \<noteq> eScale0 \<longrightarrow> general_id (reg_id (mem_index m)) \<and> reg_id (mem_index m) \<noteq> RSP \<and>
        reg_id (mem_index m) \<noteq> RIP \<and> reg_id (mem_base m) \<noteq> RIP)"
  proof -
    have "\<not> (\<exists>msg. validate_mem m d = (False, asm_error m msg d))"
      using assms(4-6) asm_error_fails by (auto simp: asm1_emit_mem_def)
    moreover have "\<not> (\<exists>msg1 msg2. validate_mem m d = (False, asm_error m msg2 (asm_error m msg1 d)))"
    proof
      assume "\<exists>msg1 msg2. validate_mem m d = (False, asm_error m msg2 (asm_error m msg1 d))"
      then obtain msg1 msg2 where "d' = asm_error m msg2 (asm_error m msg1 d)" using assms(4) by (auto simp: asm1_emit_mem_def)
      with assms(5,6) show False
        using asm_errors_twice by blast
    qed
    ultimately show ?thesis using validate_mem_cases [of m d] by blast
  qed
  define index scale where "index = (if mem_scale m = eScale0 \<or> \<not> local_valid (mem_index m) then no_reg else mem_index m)"
    and "scale = (if mem_scale m = eScale0 \<or> \<not> local_valid (mem_index m) then eScale0 else mem_scale m)"
  have s1: "(index, scale) = (if mem_scale m = eScale0 \<or> \<not> local_valid (mem_index m) then (no_reg, eScale0)
      else (mem_index m, mem_scale m))" by (simp add: index_def scale_def)
  define index' scale' where "index' = (if \<not> local_valid (mem_base m) \<and> \<not> local_valid index then reg_make eUint64 RSP else index)"
    and "scale' = (if \<not> local_valid (mem_base m) \<and> \<not> local_valid index then eScale1 else scale)"
  have s2: "(index', scale') = (if \<not> local_valid (mem_base m) \<and> \<not> local_valid index then (reg_make eUint64 RSP, eScale1) else (index, scale))"
    by (simp add: index'_def scale'_def)
  let ?ob = "get_offset_minbytes m (mem_base m) index'"
  let ?w = "widen sizes (kind_bits (nkind m)) opc"
  have op: "op \<noteq> X86_CLFLUSHOPT" using assms(1) by (auto simp: rm_imm_ops)
  have lw: "length ?w \<le> 2" using r(5,6) by (cases opc) (auto simp: widen_def)
  have pre: "take (length (inst1_bytes (asm1_find op)))
       (if i1_arg_size (asm1_find op) AND B8 \<noteq> 0 \<and> kind_bits (nkind m) \<noteq> eBits8
        then buf_or [view_get 0 (inst1_bytes (asm1_find op)) 0, view_get 0 (inst1_bytes (asm1_find op)) 1, view_get 0 (inst1_bytes (asm1_find op)) 2] 0 1
        else [view_get 0 (inst1_bytes (asm1_find op)) 0, view_get 0 (inst1_bytes (asm1_find op)) 1, view_get 0 (inst1_bytes (asm1_find op)) 2]) =
      ?w @ [push_bit 3 dd]"
  proof -
    from r(5,6) consider o1 where "opc = [o1]" | o1 o2 where "opc = [o1, o2]"
      by (cases opc; cases "tl opc"; cases "tl (tl opc)") auto
    then show ?thesis by cases (simp_all add: r(2,3) widen_def buf_or_def view_get_def numeral_eq_Suc)
  qed
  let ?bs = "prefix_bytes (nkind m) (asm1_default_size op) (mem_base m) index' @ ?w @
     modrm_bytes (push_bit 3 dd) ?ob (mem_base m) index' scale' @ imm_bytes ?ob (mem_offset m)"
  have d': "d' = (if node_valid (mem_label m) then asm_add_relocation (mem_label m) (asm_add ?bs d) else asm_add ?bs d)"
    unfolding assms(4) asm1_emit_mem_def v [THEN conjunct1] prod.case Let_def pre
    using emit_addr_bytes [OF s1 s2 _ lw refl, of "nkind m" op "push_bit 3 dd" "asm1_default_size op" d] op
    by (simp add: Let_def)
  have "wrote ?bs (mem_label m) d d'" using assms(5) unfolding d' by (rule wrote_reloc)
  moreover have "decode ?bs = Some (instr (op1_name op) (kind_bitsize (nkind m)) (MemOp (mem_address m)), [])"
    unfolding kind_bitsize_def
    by (rule decode_prefixed [OF hi_u1 hi_u1 assms(2) [unfolded r(3)] r(1)])
      (use v in \<open>auto intro!: decode_memory [OF assms(3) _ _ s1 s2 refl r(4) refl]\<close>)
  ultimately show ?thesis by blast
qed


lemma emit_push_pop:
  assumes "op = X86_PUSH \<or> op = X86_POP" "bits_compatible (kind_bits (local_kind r)) 10" "encodable_reg r"
  shows "decode (prefix_bytes (local_kind r) (asm1_default_size op) r no_reg @ [0x50 OR reg_lo r OR (if op = X86_POP then 8 else 0)]) =
     Some (instr (if op = X86_POP then ''pop'' else ''push'') (kind_bitsize (local_kind r)) (RegOp (reg_number r)), [])"
proof -
  have l: "reg_lo r \<in> set u3s" using reg_fields(1) encodable_general [OF assms(3)] by blast
  let ?rex = "rex_byte (asm1_default_size op) (kind_bits (local_kind r)) r no_reg"
  let ?b = "0x50 OR reg_lo r OR (if op = X86_POP then 8 else 0)"
  have n: "ext_b ?rex (reg_lo r) = reg_number r"
    using encodable_number(1) [OF assms(3)] rex_fields(1) [OF hi_u1 hi_u1] by simp
  have k: "kind_bits (local_kind r) = eBits16 \<or> kind_bits (local_kind r) = eBits64"
    using assms(2) bits_compatible_cases [OF assms(2)] by (auto simp: bits_compatible_def to_bitsize_def)
  have b: "?b \<noteq> 0x66" "?b AND 0xF0 \<noteq> 0x40" "?b \<noteq> 0xF3" "?b \<noteq> 0x0F" "?b AND 7 = reg_lo r"
    "?b AND 0xF8 = (if op = X86_POP then 0x58 else 0x50)"
    using l by (auto simp: u3s_def)
  show ?thesis
    unfolding decode_prefixes [OF hi_u1 hi_u1 b(1-3)] decode_one_def b(5,6)
    using b(4) n k assms(1) by (auto simp: size64_def kind_bitsize_def bits_val_def bits_is_zero_def)
qed

lemma emit_bswap:
  assumes "bits_compatible (kind_bits (local_kind r)) 12" "encodable_reg r"
  shows "decode (prefix_bytes (local_kind r) eBits32 r no_reg @ [0x0F, 0xC8 OR (0xC0 OR reg_lo r)]) =
     Some (instr ''bswap'' (kind_bitsize (local_kind r)) (RegOp (reg_number r)), [])"
proof -
  have l: "reg_lo r \<in> set u3s" using reg_fields(1) encodable_general [OF assms(2)] by blast
  let ?rex = "rex_byte eBits32 (kind_bits (local_kind r)) r no_reg"
  let ?b = "0xC8 OR (0xC0 OR reg_lo r)"
  have n: "ext_b ?rex (reg_lo r) = reg_number r"
    using encodable_number(1) [OF assms(2)] rex_fields(1) [OF hi_u1 hi_u1] by simp
  have k: "kind_bits (local_kind r) = eBits32 \<or> kind_bits (local_kind r) = eBits64"
    using assms(1) bits_compatible_cases [OF assms(1)] by (auto simp: bits_compatible_def to_bitsize_def)
  have b: "?b AND 0xF0 \<noteq> 0x80" "?b AND 0xF0 \<noteq> 0x90" "?b AND 0xF8 = 0xC8" "?b AND 7 = reg_lo r"
    using l by (auto simp: u3s_def)
  have o: "(0x0F :: u8) \<noteq> 0x66" "(0x0F :: u8) AND 0xF0 \<noteq> 0x40" "(0x0F :: u8) \<noteq> 0xF3" by simp_all
  show ?thesis
    unfolding decode_prefixes [OF hi_u1 hi_u1 o] list.case decode_two_def b(3,4)
    using b(1,2) n k rex_fields(3) [OF hi_u1 hi_u1, of eBits32 "kind_bits (local_kind r)" r no_reg]
    by (auto simp: size32_def bits_less_def kind_bitsize_def bits_val_def bits_is_zero_def)
qed

lemma bswap_info: "inst1_bytes (asm1_find X86_BSWAP) = [0x0F, 0xC8]" "i1_arg_size (asm1_find X86_BSWAP) = 12"
    "i1_arg_size (asm1_find X86_RDTSC) = B128" "i1_arg_size (asm1_find X86_PUSH) = 10" "i1_arg_size (asm1_find X86_POP) = 10"
  using asm1_info [of 5] asm1_info [of 32] asm1_info [of 31] asm1_info [of 30] by (simp_all add: inst1_info_def info_list_def)

lemma names: "op1_name X86_BSWAP = ''bswap''" "op1_name X86_PUSH = ''push''" "op1_name X86_POP = ''pop''"
  by (simp_all add: op1_name_def print_op1_def print_row_def opstmt1_rows_def enum_rows_def opstmt1_mir_def opstmt1_x86_def)

lemma emit_register:
  assumes "op \<in> set reg_ops" "op \<noteq> X86_CBW" "bits_compatible (kind_bits (local_kind r)) (i1_arg_size (asm1_find op))"
    "local_valid r" "encodable_reg r" "d' = asm1_emit_reg (asm1_find op) op r d" "good (abuf d')"
  shows "\<exists>bs. wrote bs bad_node d d' \<and> decode bs = Some (instr (op1_name op) (kind_bitsize (local_kind r)) (RegOp (reg_number r)), [])"
proof -
  have "op \<noteq> X86_RDTSC"
    using assms(3) bswap_info(3) bits_compatible_cases [OF assms(3)] by (auto simp: bits_compatible_def to_bitsize_def)
  then consider "op = X86_PUSH \<or> op = X86_POP" | "op = X86_BSWAP" |
      "op \<in> set (map fst rm_table)" "op \<noteq> X86_PUSH" "op \<noteq> X86_POP" "op \<noteq> X86_RDTSC"
    using assms(1,2) unfolding reg_ops_def by auto
  then show ?thesis
  proof cases
    case 1
    let ?bs = "prefix_bytes (local_kind r) (asm1_default_size op) r no_reg @ [0x50 OR reg_lo r OR (if op = X86_POP then 8 else 0)]"
    have d': "d' = asm_add ?bs d" using 1 assms(6) by (auto simp: asm1_emit_reg_def emit_push_pop_bytes)
    moreover have "bits_compatible (kind_bits (local_kind r)) 10" using assms(3) 1 bswap_info(4,5) by auto
    then have "decode ?bs = Some (instr (op1_name op) (kind_bitsize (local_kind r)) (RegOp (reg_number r)), [])"
      using emit_push_pop [OF 1 _ assms(5)] 1 names(2,3) by auto
    ultimately show ?thesis using wrote_add assms(7) by blast
  next
    case 2
    let ?bs = "prefix_bytes (local_kind r) eBits32 r no_reg @ [0x0F, 0xC8 OR (0xC0 OR reg_lo r)]"
    have "d' = asm_add ?bs d"
      unfolding assms(6) using emit_reg_bytes [of "asm1_find X86_BSWAP" "[0x0F]" "0xC8" X86_BSWAP r d] bswap_info(1,2)
      by (simp add: 2 widen_def asm1_default_size_def)
    moreover have "decode ?bs = Some (instr (op1_name op) (kind_bitsize (local_kind r)) (RegOp (reg_number r)), [])"
      using emit_bswap [OF _ assms(5)] assms(3) bswap_info(2) names(1) by (simp add: 2)
    ultimately show ?thesis using wrote_add assms(7) by blast
  next
    case 3
    obtain opc dd sizes where t: "(op, op1_name op, opc, dd, sizes) \<in> set rm_table" "inst1_bytes (asm1_find op) = opc @ [push_bit 3 dd]"
      "i1_arg_size (asm1_find op) = sizes" "dd \<in> set u3s" "opc \<noteq> []" "length opc \<le> 2"
      using 3(1) by (rule rm_row)
    let ?bs = "prefix_bytes (local_kind r) (asm1_default_size op) r no_reg @ widen sizes (kind_bits (local_kind r)) opc @
       [push_bit 3 dd OR (0xC0 OR reg_lo r)]"
    have "d' = asm_add ?bs d"
      using emit_reg_bytes [OF t(2,5,6) 3(3,2,4), of r d] by (simp add: assms(6) t(3))
    moreover have "decode ?bs = Some (instr (op1_name op) (kind_bitsize (local_kind r)) (RegOp (reg_number r)), [])"
      unfolding kind_bitsize_def
      by (rule decode_prefixed [OF hi_u1 hi_u1 assms(3) [unfolded t(3)] t(1)])
        (rule decode_register [OF assms(5,4) refl t(4)])
    ultimately show ?thesis using wrote_add assms(7) by blast
  qed
qed

lemma emit_constant:
  assumes "op \<in> set (map fst imm_table)" "x = ucast (vbits v)" "op = X86_INT \<longrightarrow> fits8 x" "i1_imm_size (asm1_find op) \<noteq> 0"
    "d' = asm1_emit_const (asm1_find op) v d" "good (abuf d')"
  shows "\<exists>bs. wrote bs bad_node d d' \<and> decode bs = Some (instr (op1_name op) 0 (imm_operand op x), [])"
proof -
  obtain o8 o32 sizes where t: "(op, op1_name op, o8, o32, sizes) \<in> set imm_table" "inst1_imm8_bytes (asm1_find op) = o8"
    "inst1_imm32_bytes (asm1_find op) = o32" "i1_imm_size (asm1_find op) = sizes" "length o8 \<le> 2" "length o32 \<le> 2" "sizes AND 2 = 0"
    using assms(1) by (rule imm_row)
  have s: "sizes AND B32 \<noteq> 0 \<or> (op = X86_INT \<and> sizes AND B8 \<noteq> 0)"
    using t(1) by (auto simp: imm_table_def)
  let ?bs = "if fits8 x \<and> sizes AND B8 \<noteq> 0 then o8 @ imm_bytes 1 x else o32 @ imm_bytes 4 x"
  have "d' = asm_add ?bs d"
    unfolding assms(5) using t emit_const_bytes [of "asm1_find op" x v d] assms(2) by simp
  moreover have "decode ?bs = Some (instr (op1_name op) 0 (imm_operand op x), [])"
    using decode_imm [OF t(1), of x] s assms(3) by auto
  ultimately show ?thesis using wrote_add assms(6) by metis
qed

lemma emit_label:
  assumes "op \<in> set (map fst imm_table)" "bits_compatible eBits32 (i1_imm_size (asm1_find op))" "node_valid l"
    "d' = asm1_emit_label (asm1_find op) l d" "good (abuf d')"
  shows "\<exists>bs. wrote bs l d d' \<and> decode bs = Some (instr (op1_name op) 0 (imm_operand op 0), [])"
proof -
  obtain o8 o32 sizes where t: "(op, op1_name op, o8, o32, sizes) \<in> set imm_table" "inst1_imm8_bytes (asm1_find op) = o8"
    "inst1_imm32_bytes (asm1_find op) = o32" "i1_imm_size (asm1_find op) = sizes" "length o8 \<le> 2" "length o32 \<le> 2" "sizes AND 2 = 0"
    using assms(1) by (rule imm_row)
  have "sizes AND B32 \<noteq> 0" using assms(2) t(4) by (auto simp: bits_compatible_def to_bitsize_def and.commute)
  then have "decode (o32 @ imm_bytes 4 0) = Some (instr (op1_name op) 0 (imm_operand op 0), [])"
    using decode_imm(2) [OF t(1)] by blast
  moreover have "d' = asm_add_relocation l (asm_add (o32 @ imm_bytes 4 0) d)"
    unfolding assms(4) using emit_label_bytes [of "asm1_find op" l d] t by simp
  ultimately show ?thesis using wrote_reloc [of l "o32 @ imm_bytes 4 0" d] assms(3,5) by auto
qed


lemma arg_of_var:
  assumes "nty a = VAR" "arg1_compatible a (i1_arg (asm1_find op))" "reg_id (node_local a) \<noteq> RIP"
  shows "op \<in> set reg_ops \<and> local_valid (node_local a) \<and> encodable_reg (node_local a)"
proof -
  let ?r = "node_local a" and ?a = "i1_arg (asm1_find op)"
  have c: "?a AND 8 = 0" "?a AND 7 \<noteq> 0 \<longrightarrow> op \<in> set reg_ops" using asm1_classified [of op] by (simp_all add: classified_def)
  have e: "to_arg1 a AND ?a \<noteq> 0" using assms(2) by (simp add: arg1_compatible_def)
  have v: "local_valid ?r" using e assms(1) by (simp add: to_arg1_def Let_def split: if_splits)
  have n8: "to_arg1 a \<noteq> 8" using e c(1) by (auto simp: and.commute)
  have t: "to_arg1 a \<in> {1, 2, 7} \<and> encodable_reg ?r"
  proof -
    have eq: "to_arg1 a = (if reg_id ?r = RAX then 1 else if reg_id ?r = RCX then 2
        else if RAX \<le> reg_id ?r \<and> reg_id ?r \<le> R15 then 7 else if XMM0 \<le> reg_id ?r \<and> reg_id ?r \<le> XMM31 then 8 else 0)"
      using assms(1,3) v by (simp add: to_arg1_def Let_def)
    have "to_arg1 a \<noteq> 0" using e by auto
    with n8 show ?thesis unfolding eq encodable_reg_def
      by (cases "reg_id ?r = RAX"; cases "reg_id ?r = RCX"; cases "RAX \<le> reg_id ?r \<and> reg_id ?r \<le> R15";
          cases "XMM0 \<le> reg_id ?r \<and> reg_id ?r \<le> XMM31"; simp)
  qed
  then have "to_arg1 a AND 7 = to_arg1 a" by auto
  then have "to_arg1 a AND (?a AND 7) \<noteq> 0" using e by (metis and.assoc and.commute)
  then have "?a AND 7 \<noteq> 0" by auto
  with c(2) v t show ?thesis by blast
qed

lemma no_bytes: "inst1_bytes (asm1_find X86_CLFLUSH) = []" "inst1_bytes (asm1_find X86_CLFLUSHOPT) = []"
    "inst1_bytes (asm1_find X86_CLWB) = []"
  using asm1_info [of 49] asm1_info [of 50] asm1_info [of 51] by (simp_all add: inst1_info_def info_list_def)

text \<open>Either an error, or a writer of the kind of the argument.\<close>

definition erred :: "assembler \<Rightarrow> assembler \<Rightarrow> bool" where
  "erred d d' \<longleftrightarrow> (\<exists>n msg. d' = asm_error n msg d)"

lemma erred_error [simp]: "erred d (asm_error n msg d)" "erred d (asm1_unexpected st d)"
  by (auto simp: erred_def asm1_unexpected_def)

lemma emit_inst_cases:
  fixes st inst d
  defines "a \<equiv> child st 0" and "d' \<equiv> asm1_emit_inst st inst d"
  assumes "\<not> erred d d'"
  shows "arg1_compatible a (i1_arg inst)" and "nty a \<in> {VAR, MEM, LABEL, CONSTN}"
    "nty a = VAR \<Longrightarrow> bits_compatible (kind_bits (local_kind (node_local a))) (i1_arg_size inst) \<and>
       d' = asm1_emit_reg inst (nop st) (node_local a) d"
    "nty a = MEM \<Longrightarrow> as_x64_mem a = a \<and> bits_compatible (kind_bits (nkind a)) (i1_arg_size inst) \<and> inst1_bytes inst \<noteq> [] \<and>
       d' = asm1_emit_mem inst (nop st) a d"
    "nty a = LABEL \<Longrightarrow> node_valid a \<and> bits_compatible eBits32 (i1_imm_size inst) \<and> d' = asm1_emit_label inst a d"
    "nty a = CONSTN \<Longrightarrow> bits_compatible (kind_bits (nkind a)) (i1_imm_size inst) \<and> d' = asm1_emit_const inst (const_val a) d"
proof -
  have e: "d' = asm1_emit_inst st inst d" by (simp add: d'_def)
  show c: "arg1_compatible a (i1_arg inst)"
    by (rule ccontr) (use assms(3) in \<open>simp add: e asm1_emit_inst_def a_def [symmetric]\<close>)
  show "nty a \<in> {VAR, MEM, LABEL, CONSTN}"
    by (rule ccontr) (use assms(3) c in \<open>cases "nty a"; simp add: e asm1_emit_inst_def a_def [symmetric] Let_def\<close>)
  show "bits_compatible (kind_bits (local_kind (node_local a))) (i1_arg_size inst) \<and>
       d' = asm1_emit_reg inst (nop st) (node_local a) d" if "nty a = VAR"
    using assms(3) c that by (simp add: e asm1_emit_inst_def a_def [symmetric] Let_def split: if_splits)
  show "as_x64_mem a = a \<and> bits_compatible (kind_bits (nkind a)) (i1_arg_size inst) \<and> inst1_bytes inst \<noteq> [] \<and>
       d' = asm1_emit_mem inst (nop st) a d" if "nty a = MEM"
    using assms(3) c that
    by (simp add: e asm1_emit_inst_def a_def [symmetric] Let_def as_x64_mem_def downcast_def split: if_splits)
  show "node_valid a \<and> bits_compatible eBits32 (i1_imm_size inst) \<and> d' = asm1_emit_label inst a d" if "nty a = LABEL"
    using assms(3) c that
    by (simp add: e asm1_emit_inst_def a_def [symmetric] Let_def as_label_def downcast_def split: if_splits)
  show "bits_compatible (kind_bits (nkind a)) (i1_imm_size inst) \<and> d' = asm1_emit_const inst (const_val a) d" if "nty a = CONSTN"
    using assms(3) c that
    by (simp add: e asm1_emit_inst_def a_def [symmetric] Let_def as_const_def downcast_def split: if_splits)
qed

lemma to_arg1_simps:
  "nty a = MEM \<Longrightarrow> to_arg1 a = 16" "nty a = LABEL \<Longrightarrow> to_arg1 a = 32" "nty a = CONSTN \<Longrightarrow> to_arg1 a = 32"
  by (simp_all add: to_arg1_def)

lemma asm1_decodes:
  assumes "nty st = STMT_1" "supported1 st" "d' = x64_assemble st d" "good (abuf d')" "elems (aerrors d') = elems (aerrors d)"
  shows "\<exists>bs. wrote bs (reloc_label (child st 0)) d d' \<and> decode bs = Some (x64_instr1 st, [])"
proof -
  let ?a = "child st 0" and ?op = "nop st"
  let ?i = "asm1_find ?op"
  have e: "d' = asm1_emit_inst st ?i d" using assms(1,3) by (simp add: x64_assemble_def asm1_emit_def)
  have no: "\<not> erred d (asm1_emit_inst st ?i d)" using asm_error_fails assms(4,5) unfolding e erred_def by metis
  note c = emit_inst_cases [OF no, folded e]
  note cl = asm1_classified [of ?op, unfolded classified_def]
  have sup: "?op \<noteq> X86_CBW" "?op \<noteq> X86_XABORT" "?op = X86_INT \<longrightarrow> fits8 (arg_value ?a)"
    "nty ?a = VAR \<longrightarrow> reg_id (node_local ?a) \<noteq> RIP" "nty ?a = MEM \<longrightarrow> local_valid (mem_base ?a) \<or> mem_base ?a = no_reg"
    using assms(2) unfolding supported1_def Let_def by blast+
  have val: "?op \<in> set (map fst imm_table)" if "nty ?a = LABEL \<or> nty ?a = CONSTN"
  proof -
    have "i1_arg ?i AND 32 \<noteq> 0" using c(1) that to_arg1_simps(2,3) [of ?a] by (auto simp: arg1_compatible_def and.commute)
    then show ?thesis using cl sup(2) by (auto simp: imm_ops_def)
  qed
  from c(2) consider "nty ?a = VAR" | "nty ?a = MEM" | "nty ?a = LABEL" | "nty ?a = CONSTN" by blast
  then show ?thesis
  proof cases
    case 1
    have v: "?op \<in> set reg_ops \<and> local_valid (node_local ?a) \<and> encodable_reg (node_local ?a)"
      using arg_of_var [OF 1 c(1)] sup(4) 1 by blast
    note b = c(3) [OF 1]
    show ?thesis
      using emit_register [OF _ sup(1) b [THEN conjunct1] _ _ b [THEN conjunct2] assms(4)] v 1
      by (simp add: reloc_label_def x64_instr1_def as_label_def downcast_def Let_def)
  next
    case 2
    have "i1_arg ?i AND 16 \<noteq> 0" using c(1) to_arg1_simps(1) [OF 2] by (auto simp: arg1_compatible_def and.commute)
    then have m: "?op \<in> set mem_ops" using cl by blast
    note b = c(4) [OF 2]
    have "?op \<in> set (map fst rm_table)"
      using m b no_bytes unfolding mem_ops_def by auto
    then show ?thesis
      using emit_memory [of ?op ?a d' d] b 2 sup(5) assms(4,5) by (simp add: reloc_label_def x64_instr1_def Let_def)
  next
    case 3
    have l: "as_label ?a = ?a" using 3 by (simp add: as_label_def downcast_def)
    show ?thesis
      using emit_label [OF val] c(5) [OF 3] 3 l assms(4) by (simp add: reloc_label_def x64_instr1_def arg_value_def Let_def)
  next
    case 4
    note b = c(6) [OF 4]
    have "i1_imm_size ?i \<noteq> 0" using b by (auto simp: bits_compatible_def)
    then show ?thesis
      using emit_constant [OF val, of "arg_value ?a" "const_val ?a" d' d] b assms(4) 4 sup(3)
      by (simp add: reloc_label_def x64_instr1_def arg_value_def as_label_def downcast_def Let_def)
  qed
qed


end
