(* ===== verification/X64_Programs.thy ===== *)
theory X64_Programs imports X64_Emit begin

text \<open>
  Every kind of statement \<open>Assembler::x64\<close> accepts, memory operands made from an \<open>Address\<close>, and programs: the bytes of a
  sequence of statements decode to that sequence. Also the statements the assembler gets wrong.
\<close>

subsection \<open>The decoder reads one instruction and leaves the rest\<close>

lemma get_imm_append: "get_imm n bs = Some (x, r) \<Longrightarrow> get_imm n (bs @ s) = Some (x, r @ s)"
  by (auto split: if_splits list.splits)

lemma decode_sib_append: "decode_sib rex md bs = Some (b, i, n, r) \<Longrightarrow> decode_sib rex md (bs @ s) = Some (b, i, n, r @ s)"
  by (auto simp: decode_sib_def Let_def split: list.splits if_splits)

lemma decode_rm_append:
  assumes "decode_rm rex byte bs = Some (d, a, r)"
  shows "decode_rm rex byte (bs @ s) = Some (d, a, r @ s)"
proof -
  obtain m rest where bs: "bs = m # rest" using assms by (auto simp: decode_rm_def split: list.splits)
  let ?ea = "\<lambda>rest. if modrm_rm m = 4 then decode_sib rex (modrm_mod m) rest
     else if modrm_rm m = 5 \<and> modrm_mod m = 0 then Some (Rip, None, 4, rest)
     else Some (Base (ext_b rex (modrm_rm m)), None, disp_size (modrm_mod m), rest)"
  have ea: "?ea rest = Some (b, i, n, r1) \<Longrightarrow> ?ea (rest @ s) = Some (b, i, n, r1 @ s)" for b i n r1
    using decode_sib_append by (auto split: if_splits)
  show ?thesis
  proof (cases "modrm_mod m = 3")
    case True
    then show ?thesis using assms by (auto simp: bs decode_rm_def Let_def)
  next
    case False
    from assms False obtain b i n r1 x where e: "?ea rest = Some (b, i, n, r1)" "get_imm n r1 = Some (x, r)" "d = modrm_reg m"
      "a = MemOp \<lparr>ea_base = b, ea_index = i, ea_disp = x\<rparr>"
      unfolding bs decode_rm_def Let_def list.case by (auto simp del: get_imm.simps split: option.splits prod.splits)
    show ?thesis
      unfolding bs append_Cons decode_rm_def Let_def list.case ea [OF e(1)] using False get_imm_append [OF e(2), of s] e(3,4)
      by (simp del: get_imm.simps)
  qed
qed

text \<open>A parser that reads the same whatever follows.\<close>

definition local_parser :: "(u8 list \<Rightarrow> ('a \<times> u8 list) option) \<Rightarrow> bool" where
  "local_parser p \<longleftrightarrow> (\<forall>bs i r s. p bs = Some (i, r) \<longrightarrow> p (bs @ s) = Some (i, r @ s))"

lemma local_parserD: "local_parser p \<Longrightarrow> p bs = Some (i, r) \<Longrightarrow> p (bs @ s) = Some (i, r @ s)"
  by (simp add: local_parser_def)

named_theorems local_parsers

lemma local_if [local_parsers]: "local_parser p \<Longrightarrow> local_parser q \<Longrightarrow> local_parser (\<lambda>bs. if c then p bs else q bs)"
  by (simp add: local_parser_def)

lemma local_none [local_parsers]: "local_parser (\<lambda>bs. None)"
  by (simp add: local_parser_def)

lemma local_some [local_parsers]: "local_parser (\<lambda>bs. Some (x, bs))"
  by (simp add: local_parser_def)

lemma local_option [local_parsers]: "local_parser (\<lambda>bs. case x of Some m \<Rightarrow> Some (f m, bs) | None \<Rightarrow> None)"
  by (simp add: local_parser_def split: option.splits)

lemma local_byte [local_parsers]:
  "(\<And>c. local_parser (f c)) \<Longrightarrow> local_parser (\<lambda>bs. case bs of c # rest \<Rightarrow> f c rest | [] \<Rightarrow> None)"
  unfolding local_parser_def by (auto split: list.splits)

lemma local_imm [local_parsers]: "local_parser (with_imm n f m)"
  unfolding local_parser_def with_imm_def
proof (intro allI impI)
  fix bs i r s
  assume "(case get_imm n bs of None \<Rightarrow> None | Some (i, rest) \<Rightarrow> Some (instr m 0 (f i), rest)) = Some (i, r)"
  then obtain x where "get_imm n bs = Some (x, r)" "i = instr m 0 (f x)" by (auto simp del: get_imm.simps split: option.splits)
  with get_imm_append [of n bs x r s]
  show "(case get_imm n (bs @ s) of None \<Rightarrow> None | Some (i, rest) \<Rightarrow> Some (instr m 0 (f i), rest)) = Some (i, r @ s)"
    by (simp del: get_imm.simps)
qed

lemma local_rm [local_parsers]: "local_parser (with_rm rex byte g)"
  unfolding local_parser_def with_rm_def
proof (intro allI impI)
  fix bs i r s
  assume "(case decode_rm rex byte bs of None \<Rightarrow> None
     | Some (digit, a, rest) \<Rightarrow> (case g digit of None \<Rightarrow> None | Some (m, n) \<Rightarrow> Some (instr m n a, rest))) = Some (i, r)"
  then obtain d a m n where "decode_rm rex byte bs = Some (d, a, r)" "g d = Some (m, n)" "i = instr m n a"
    by (auto split: option.splits)
  with decode_rm_append [of rex byte bs d a r s]
  show "(case decode_rm rex byte (bs @ s) of None \<Rightarrow> None
     | Some (digit, a, rest) \<Rightarrow> (case g digit of None \<Rightarrow> None | Some (m, n) \<Rightarrow> Some (instr m n a, rest))) = Some (i, r @ s)"
    by simp
qed

lemma local_decode_one: "local_parser (decode_one p66 rex b)"
  unfolding decode_one_def by (intro local_parsers)

lemma local_decode_two: "local_parser (decode_two p66 rex b)"
  unfolding decode_two_def by (intro local_parsers)

definition decode_plain :: "u8 list \<Rightarrow> (instr \<times> u8 list) option" where
  "decode_plain bs =
     (let (p66, bs1) = get_opsize bs; (rex, bs2) = get_rex bs1
      in case bs2 of
           [] \<Rightarrow> None
         | b # rest \<Rightarrow>
             if b = 0x0F then (case rest of c # rest2 \<Rightarrow> decode_two p66 rex c rest2 | [] \<Rightarrow> None)
             else decode_one p66 rex b rest)"

lemma decode_plain_append:
  assumes "decode_plain bs = Some (i, r)"
  shows "decode_plain (bs @ s) = Some (i, r @ s)"
proof -
  obtain p bs1 where o: "get_opsize bs = (p, bs1)" by force
  obtain rex bs2 where x: "get_rex bs1 = (rex, bs2)" by force
  have ne: "bs2 \<noteq> []" using assms by (auto simp: decode_plain_def o x)
  have ne1: "bs1 \<noteq> []" using ne x by (auto simp: get_rex_def)
  have o': "get_opsize (bs @ s) = (p, bs1 @ s)" using o ne1 by (auto simp: get_opsize_def split: list.splits if_splits)
  have x': "get_rex (bs1 @ s) = (rex, bs2 @ s)" using x ne1 by (auto simp: get_rex_def split: list.splits if_splits)
  obtain b rest where b: "bs2 = b # rest" using ne by (cases bs2) auto
  show ?thesis
    using assms local_parserD [OF local_decode_one [of p rex b], of rest i r s] local_parserD [OF local_decode_two [of p rex], where i = i and r = r and s = s]
    unfolding decode_plain_def o prod.case Let_def x o' x' b by (auto split: list.splits if_splits)
qed

lemma decode_append:
  assumes "decode bs = Some (i, r)"
  shows "decode (bs @ s) = Some (i, r @ s)"
proof (cases "take 2 bs = [0xF3, 0x90]")
  case True
  then have "take 2 (bs @ s) = [0xF3, 0x90]" "drop 2 (bs @ s) = drop 2 bs @ s"
    by (cases bs; cases "tl bs"; simp)+
  with True assms show ?thesis by (auto simp: decode_def)
next
  case False
  have p: "decode_plain bs = Some (i, r)" using assms False by (simp add: decode_def decode_plain_def)
  have n: "take 2 (bs @ s) \<noteq> [0xF3, 0x90]"
  proof
    assume t: "take 2 (bs @ s) = [0xF3, 0x90]"
    with False have "bs = [] \<or> bs = [0xF3]" by (cases bs; cases "tl bs") (auto simp: numeral_eq_Suc)
    with p show False
      by (auto simp: decode_plain_def get_opsize_def get_rex_def decode_one_def simple_opcodes_def)
  qed
  show ?thesis using decode_plain_append [OF p, of s] n by (simp add: decode_def decode_plain_def)
qed


subsection \<open>Statements without arguments\<close>

definition op0_name :: "opcode \<Rightarrow> string" where
  "op0_name op = drop 4 (print_op0 op)"

text \<open>\<open>LOCK\<close>, \<open>REP\<close>, \<open>REPNE\<close>, \<open>XACQUIRE\<close> and \<open>XRELEASE\<close> are prefixes of the next instruction.\<close>

definition op0_prefixes :: "opcode list" where
  "op0_prefixes = [8, 13, 14, 22, 23]"

definition op0_plain :: "opcode list" where
  "op0_plain = [4, 5, 6, 7, 9, 10, 11, 12, 15, 16, 17, 18, 19, 20, 21, 24, 25, 26, 27, 28]"

lemma op0_cases: "X86_CLC \<le> op \<Longrightarrow> op \<le> X86_XTEST \<Longrightarrow> op \<notin> set op0_prefixes \<Longrightarrow> op \<in> set op0_plain"
proof -
  assume a: "X86_CLC \<le> op" "op \<le> X86_XTEST" "op \<notin> set op0_prefixes"
  then have "unat op \<in> set [4..<29]" by (simp only: word_le_nat_alt set_upt atLeastLessThan_iff) simp
  moreover have "op = of_nat (unat op)" by simp
  ultimately have "op \<in> set (map of_nat [4..<29])" unfolding set_map by (rule rev_image_eqI)
  then show ?thesis using a(3) by (auto simp: upt_rec op0_prefixes_def op0_plain_def)
qed

lemma op0_names:
  "map op0_name op0_plain = [''clc'', ''cld'', ''cmc'', ''int3'', ''nop'', ''pause'', ''popf'', ''pushf'', ''stc'', ''std'', ''syscall'',
     ''sysenter'', ''sysexit'', ''sysret'', ''ud2'', ''lfence'', ''mfence'', ''sfence'', ''xend'', ''xtest'']"
  by (simp add: op0_plain_def op0_name_def print_op0_def opstmt0_rows_def enum_rows_def opstmt0_x86_def)

lemma op0_bytes:
  "map (\<lambda>op. inst0_bytes (asm0_find op)) op0_plain =
     [[0xF8], [0xFC], [0xF5], [0xCC], [0x90], [0xF3, 0x90], [0x9D], [0x9C], [0xF9], [0xFD], [0x0F, 0x05], [0x0F, 0x34], [0x0F, 0x35],
      [0x0F, 0x07], [0x0F, 0x0B], [0x0F, 0xAE, 0xE8], [0x0F, 0xAE, 0xF0], [0x0F, 0xAE, 0xF8], [0x0F, 0x01, 0xD5], [0x0F, 0x01, 0xD6]]"
  by (simp add: op0_plain_def asm0_find_def inst0_vec_def mk_inst0_def inst0_bytes_def char_at_def)

lemma op0_decodes:
  "map decode [[0xF8], [0xFC], [0xF5], [0xCC], [0x90], [0xF3, 0x90], [0x9D], [0x9C], [0xF9], [0xFD], [0x0F, 0x05], [0x0F, 0x34], [0x0F, 0x35],
      [0x0F, 0x07], [0x0F, 0x0B], [0x0F, 0xAE, 0xE8], [0x0F, 0xAE, 0xF0], [0x0F, 0xAE, 0xF8], [0x0F, 0x01, 0xD5], [0x0F, 0x01, 0xD6]] =
   map (\<lambda>m. Some (instr m 0 NoOperand, [])) [''clc'', ''cld'', ''cmc'', ''int3'', ''nop'', ''pause'', ''popf'', ''pushf'', ''stc'', ''std'', ''syscall'',
     ''sysenter'', ''sysexit'', ''sysret'', ''ud2'', ''lfence'', ''mfence'', ''sfence'', ''xend'', ''xtest'']"
  by (simp add: decode_def get_opsize_def get_rex_def decode_one_def decode_two_def simple_opcodes_def)

lemma asm0_decodes:
  assumes "op \<in> set op0_plain"
  shows "decode (inst0_bytes (asm0_find op)) = Some (instr (op0_name op) 0 NoOperand, [])"
proof -
  have "map (\<lambda>op. decode (inst0_bytes (asm0_find op))) op0_plain = map (\<lambda>op. Some (instr (op0_name op) 0 NoOperand, [])) op0_plain"
    using op0_decodes [folded op0_names op0_bytes] by (simp only: map_map comp_def)
  then show ?thesis using assms by (simp only: map_eq_conv)
qed

lemma ret_decodes: "decode (inst0_bytes (asmn_find X86_RET)) = Some (instr ''ret'' 0 NoOperand, [])"
  by (simp add: asmn_find_def instn_vec_def mk_inst0_def inst0_bytes_def char_at_def decode_def get_opsize_def get_rex_def
      decode_one_def simple_opcodes_def)


subsection \<open>Every statement\<close>

text \<open>What a statement only adds to the assembler: bytes and errors, while memory lasts.\<close>

definition asm_grows :: "assembler \<Rightarrow> assembler \<Rightarrow> bool" where
  "asm_grows d d' \<longleftrightarrow> (good (abuf d') \<longrightarrow> good (abuf d) \<and> (\<exists>bs. asm_bytes d' = asm_bytes d @ bs) \<and>
     (\<exists>es. elems (aerrors d') = elems (aerrors d) @ es))"

lemma asm_grows_refl [simp]: "asm_grows d d"
  by (simp add: asm_grows_def)

lemma asm_grows_trans [trans]: "asm_grows d d1 \<Longrightarrow> asm_grows d1 d2 \<Longrightarrow> asm_grows d d2"
  by (auto simp: asm_grows_def)

lemma grows_add [simp]: "asm_grows d (asm_add bs d)"
  using asm_add_bytes [of bs d] by (auto simp: asm_grows_def)

lemma grows_error [simp]: "asm_grows d (asm_error n msg d)"
  using asm_error_logs [of n msg d] by (auto simp: asm_grows_def)

lemma grows_relocation [simp]: "asm_grows d (asm_add_relocation l d)"
  using asm_add_relocation_bytes [of l d] by (auto simp: asm_grows_def)

lemma grows_relocation_after: "asm_grows d d1 \<Longrightarrow> asm_grows d (asm_add_relocation l d1)"
  by (rule asm_grows_trans [OF _ grows_relocation])

lemma grows_addr: "asm_grows d (asm1_emit_addr op prefix ds mem d)"
  unfolding asm1_emit_addr_def Let_def case_prod_beta by (simp add: grows_relocation_after)

lemma grows_mem: "asm_grows d (asm1_emit_mem inst op mem d)"
proof -
  consider "validate_mem mem d = (True, d)" | msg where "validate_mem mem d = (False, asm_error mem msg d)"
    | msg1 msg2 where "validate_mem mem d = (False, asm_error mem msg2 (asm_error mem msg1 d))"
    using validate_mem_cases [of mem d] by blast
  then show ?thesis
  proof cases
    case 3
    then show ?thesis using asm_grows_trans [OF grows_error grows_error] by (simp add: asm1_emit_mem_def)
  qed (simp_all add: asm1_emit_mem_def grows_addr Let_def)
qed

lemma grows_inst: "asm_grows d (asm1_emit_inst st inst d)"
proof -
  have "asm_grows d (asm1_emit_label inst l d)" for l
    by (simp add: asm1_emit_label_def Let_def grows_relocation_after)
  moreover have "asm_grows d (asm1_emit_const inst v d)" for v
    unfolding asm1_emit_const_def Let_def case_prod_beta by (rule grows_add)
  moreover have "asm_grows d (asm1_emit_reg inst op r d)" for op r
    unfolding asm1_emit_reg_def asm1_emit_pop_or_push_reg_def asm1_emit_rdtsc_def Let_def case_prod_beta by simp
  ultimately show ?thesis
    using grows_mem by (simp add: asm1_emit_inst_def asm1_unexpected_def Let_def split: ntype.splits)
qed

lemma grows_assemble: "asm_grows d (x64_assemble st d)"
  using grows_inst by (simp add: x64_assemble_def asm0_emit_def asm1_emit_def asm2_emit_def asm3_emit_def asmn_emit_def split: ntype.splits)

lemma assemble_erred: "nty st \<notin> {STMT_0, STMT_1, STMT_N} \<Longrightarrow> erred d (x64_assemble st d)"
  by (simp add: x64_assemble_def asm2_emit_def asm3_emit_def split: ntype.splits)

definition supported :: "node \<Rightarrow> bool" where
  "supported st \<longleftrightarrow>
     (case nty st of
        STMT_0 \<Rightarrow> X86_CLC \<le> nop st \<and> nop st \<le> X86_XTEST \<and> nop st \<notin> set op0_prefixes
      | STMT_1 \<Rightarrow> supported1 st
      | STMT_N \<Rightarrow> nop st = X86_RET
      | _ \<Rightarrow> True)"

definition x64_instr :: "node \<Rightarrow> instr" where
  "x64_instr st =
     (case nty st of
        STMT_0 \<Rightarrow> instr (op0_name (nop st)) 0 NoOperand
      | STMT_N \<Rightarrow> instr ''ret'' 0 NoOperand
      | _ \<Rightarrow> x64_instr1 st)"

definition stmt_label :: "node \<Rightarrow> node" where
  "stmt_label st = (if nty st = STMT_1 then reloc_label (child st 0) else bad_node)"

lemma assembles_one:
  assumes "supported st" "d' = x64_assemble st d" "good (abuf d')" "elems (aerrors d') = elems (aerrors d)"
  shows "\<exists>bs. wrote bs (stmt_label st) d d' \<and> decode bs = Some (x64_instr st, [])"
proof -
  have no: "\<not> erred d d'"
    using assms(3,4) asm_error_logs unfolding erred_def by fastforce
  then have "nty st \<in> {STMT_0, STMT_1, STMT_N}" using assemble_erred assms(2) by blast
  then consider "nty st = STMT_0" | "nty st = STMT_1" | "nty st = STMT_N" by blast
  then show ?thesis
  proof cases
    case 1
    then have "nop st \<in> set op0_plain" using assms(1) op0_cases by (simp add: supported_def)
    moreover have "d' = asm_add (inst0_bytes (asm0_find (nop st))) d" using 1 assms(2) by (simp add: x64_assemble_def asm0_emit_def)
    ultimately show ?thesis
      using asm0_decodes wrote_add assms(3) 1 unfolding stmt_label_def x64_instr_def by auto
  next
    case 2
    then show ?thesis
      using asm1_decodes [OF 2 _ assms(2,3)] assms(1,4) by (simp add: supported_def stmt_label_def x64_instr_def)
  next
    case 3
    then have "nop st = X86_RET" using assms(1) by (simp add: supported_def)
    moreover have "d' = asm_add (inst0_bytes (asmn_find (nop st))) d" using 3 assms(2) by (simp add: x64_assemble_def asmn_emit_def)
    ultimately show ?thesis
      using ret_decodes wrote_add assms(3) 3 unfolding stmt_label_def x64_instr_def by auto
  qed
qed



subsection \<open>Rejected statements\<close>

text \<open>An error is reported before anything is written.\<close>

definition asm_clean :: "assembler \<Rightarrow> assembler \<Rightarrow> bool" where
  "asm_clean d d' \<longleftrightarrow> (asm_bytes d' = asm_bytes d \<and> arelocs d' = arelocs d) \<or> aerrors d' = aerrors d"

lemma clean_writers [simp]:
  "asm_clean d (asm_error n msg d)" "asm_clean d (asm_add bs d)" "asm_clean d (asm_add_relocation l (asm_add bs d))"
  "asm_clean d (asm_error n msg (asm_error n' msg' d))" "asm_clean d d"
  using asm_add_bytes(2) [of bs d] asm_add_relocation_bytes(2) [of l "asm_add bs d"] by (simp_all add: asm_clean_def)

lemma clean_addr: "asm_clean d (asm1_emit_addr op prefix ds mem d)"
  unfolding asm1_emit_addr_def Let_def case_prod_beta by simp

lemma clean_mem: "asm_clean d (asm1_emit_mem inst op mem d)"
proof -
  consider "validate_mem mem d = (True, d)" | msg where "validate_mem mem d = (False, asm_error mem msg d)"
    | msg1 msg2 where "validate_mem mem d = (False, asm_error mem msg2 (asm_error mem msg1 d))"
    using validate_mem_cases [of mem d] by blast
  then show ?thesis by cases (simp_all add: asm1_emit_mem_def clean_addr Let_def)
qed

lemma clean_inst: "asm_clean d (asm1_emit_inst st inst d)"
proof -
  have "asm_clean d (asm1_emit_label inst l d)" for l
    by (simp add: asm1_emit_label_def Let_def)
  moreover have "asm_clean d (asm1_emit_const inst v d)" for v
    unfolding asm1_emit_const_def Let_def case_prod_beta by simp
  moreover have "asm_clean d (asm1_emit_reg inst op r d)" for op r
    unfolding asm1_emit_reg_def asm1_emit_pop_or_push_reg_def asm1_emit_rdtsc_def Let_def case_prod_beta by simp
  ultimately show ?thesis
    using clean_mem by (simp add: asm1_emit_inst_def asm1_unexpected_def Let_def split: ntype.splits)
qed

text \<open>C39: a statement the assembler rejects leaves no trace in the code: whenever an error is recorded, neither a byte nor a
  relocation is added, whatever the statement and whether or not memory lasts.\<close>

theorem rejected_statement_writes_nothing:
  assumes "aerrors (x64_assemble st d) \<noteq> aerrors d"
  shows "asm_bytes (x64_assemble st d) = asm_bytes d \<and> arelocs (x64_assemble st d) = arelocs d"
proof -
  have "asm_clean d (x64_assemble st d)"
    using clean_inst
    by (simp add: x64_assemble_def asm0_emit_def asm1_emit_def asm2_emit_def asm3_emit_def asmn_emit_def split: ntype.splits)
  with assms show ?thesis by (simp add: asm_clean_def)
qed

subsection \<open>Memory operands from addresses\<close>

definition address_wf :: "address \<Rightarrow> bool" where
  "address_wf a \<longleftrightarrow> (ad_label a = bad_node \<or> nty (ad_label a) = LABEL \<and> node_valid (ad_label a)) \<and>
     (ad_base a = bad_node \<or> nty (ad_base a) = VAR \<and> node_valid (ad_base a)) \<and>
     (ad_index a = bad_node \<or> nty (ad_index a) = VAR \<and> node_valid (ad_index a)) \<and> scale_ok (ad_scale a)"

definition address_of :: "address \<Rightarrow> eaddress" where
  "address_of a =
     (let base = node_local (ad_base a); index = node_local (ad_index a)
      in \<lparr>ea_base = (if \<not> local_valid base then NoBase else if reg_id base = RIP then Rip else Base (reg_number base)),
          ea_index = (if local_valid index \<and> ad_scale a \<noteq> eScale0 then Some (reg_number index, unat (scale_val (ad_scale a))) else None),
          ea_disp = ad_offset a\<rparr>)"

lemma bad_node_reads: "const_val bad_node = mk_val 0 0" "node_local bad_node = 0" "\<not> local_valid 0" "as_label bad_node = bad_node"
    "as_var bad_node = bad_node" "as_const bad_node = bad_node"
  by (simp_all add: const_val_def bad_node_def imm_parse_direct_def imm_parse_direct_kind_def imm_lrot_def node_local_def
      local_parse_direct_def local_valid_def local_kind_def downcast_defs)

lemma child_list: "child (Node h off i ds kids) j = (if j < length kids then kids ! j else bad_node)"
  by (simp add: child_def children_def)

lemma scale_const_reads:
  assumes "scale_ok s" "s \<noteq> eScale0"
  shows "scale_of (ucast (vbits (const_val (as_const (const_small eUint8 (ucast (scale_val s))))))) = s"
  using assms
  by (auto simp: scale_cases scale_val_def scale_of_def const_small_def const_header_def const_val_def imm_make_direct_def imm_rrot_def
      imm_parse_direct_def imm_parse_direct_kind_def imm_lrot_def kind_nosimd_def as_const_def downcast_def word_le_nat_alt)

text \<open>Reading back the children that \<open>Mem::create\<close> stores, five or fewer.\<close>

lemma mem_args_eq:
  "mem_args c a =
     (let l = (if node_valid (ad_label a) then ad_label a else bad_node); o' = (if ad_offset a \<noteq> 0 then c else bad_node);
          b = (if node_valid (ad_base a) then ad_base a else bad_node); i = node_valid (ad_index a) \<and> ad_scale a \<noteq> eScale0
      in ([l, o', b, if i then ad_index a else bad_node, if i then const_small eUint8 (ucast (scale_val (ad_scale a))) else bad_node],
          if i then 5 else if node_valid (ad_base a) then 3 else if ad_offset a \<noteq> 0 then 2 else if node_valid (ad_label a) then 1 else 0))"
  by (simp add: mem_args_def Let_def numeral_eq_Suc)

lemma mem_args_children:
  assumes "mem_args c a = (args, len)" "j < 5"
  shows "child (Node h off ind ds (take len args)) j = args ! j"
proof -
  have "j = 0 \<or> j = 1 \<or> j = 2 \<or> j = 3 \<or> j = 4" using assms(2) by auto
  then show ?thesis using assms(1) unfolding mem_args_eq Let_def child_list
    by (elim disjE) (auto simp: numeral_eq_Suc split: if_splits)
qed

lemma mem_args_read:
  assumes "address_wf a" "mem_args c a = (args, len)" "ad_offset a \<noteq> 0 \<Longrightarrow> nty c = CONSTN \<and> ucast (vbits (const_val c)) = ad_offset a"
    "m = Node (mk_header MEM k (opn_code X86_MEM)) off True [] (take len args)"
  shows "mem_label m = ad_label a" "mem_offset m = ad_offset a" "mem_base m = node_local (ad_base a)"
    "if node_valid (ad_index a) \<and> ad_scale a \<noteq> eScale0 then mem_index m = node_local (ad_index a) \<and> mem_scale m = ad_scale a
     else mem_index m = 0 \<and> mem_scale m = eScale0"
proof -
  have ch: "child m j = args ! j" if "j < 5" for j unfolding assms(4) by (rule mem_args_children [OF assms(2) that])
  have args: "args = [if node_valid (ad_label a) then ad_label a else bad_node, if ad_offset a \<noteq> 0 then c else bad_node,
     if node_valid (ad_base a) then ad_base a else bad_node,
     if node_valid (ad_index a) \<and> ad_scale a \<noteq> eScale0 then ad_index a else bad_node,
     if node_valid (ad_index a) \<and> ad_scale a \<noteq> eScale0 then const_small eUint8 (ucast (scale_val (ad_scale a))) else bad_node]"
    using assms(2) by (simp add: mem_args_eq Let_def)
  note w = assms(1) [unfolded address_wf_def]
  show "mem_label m = ad_label a"
    using w by (auto simp: mem_label_def ch args bad_node_reads as_label_def downcast_def)
  show "mem_offset m = ad_offset a"
    using assms(3) by (auto simp: mem_offset_def ch args bad_node_reads as_const_def downcast_def)
  show "mem_base m = node_local (ad_base a)"
    using w by (auto simp: mem_base_def ch args bad_node_reads as_var_def downcast_def)
  show "if node_valid (ad_index a) \<and> ad_scale a \<noteq> eScale0 then mem_index m = node_local (ad_index a) \<and> mem_scale m = ad_scale a
     else mem_index m = 0 \<and> mem_scale m = eScale0"
    using w scale_const_reads [of "ad_scale a"]
    by (auto simp: mem_index_def mem_scale_def ch args bad_node_reads as_var_def downcast_def scale_of_def)
qed

lemma offset_const_reads:
  assumes "const_create f (mk_val eInt32 (scast x)) = (f', c)" "node_valid c" "small (fcode f)"
  shows "nty c = CONSTN" "ucast (vbits (const_val c)) = (x :: u32)"
proof -
  have z: "vkind (mk_val eInt32 (scast x)) \<le> eVoid \<Longrightarrow> vbits (mk_val eInt32 (scast x)) = 0" by (simp add: word_le_nat_alt)
  note s = const_create_stored [OF assms z]
  show "nty c = CONSTN"
    using assms(1,2) by (auto simp: const_create_def const_header_def bad_node_def node_valid_def header_valid_def bad_header_def
        Let_def split: if_splits)
  have k: "kind_bitsize eInt32 = 32" by (simp add: kind_defs)
  have "(ucast (scast x :: u64) :: u32) = x"
    by (rule bit_word_eqI) (auto simp: bit_simps)
  moreover have "(ucast (take_bit 32 (scast x :: u64)) :: u32) = ucast (scast x :: u64)"
    by (rule bit_word_eqI) (auto simp: bit_simps)
  ultimately show "ucast (vbits (const_val c)) = x"
    using s imm_load_store [OF z] k by auto
qed

text \<open>C38: the address a memory operand is made from is the address the assembler encodes: whatever \<open>Address\<close> a label, an offset
  of 32 bits, registers and a scale make up, the children of the \<open>x64::Mem\<close> node made from it read back as that label, and as
  the base, index, factor and displacement of that address.\<close>

theorem mem_operand_round_trip:
  assumes "x64_mem_create f k a = Some (f', m)" "node_valid m" "small (fcode f)" "address_wf a"
  shows "as_x64_mem m = m \<and> nkind m = k \<and> mem_label m = ad_label a \<and> mem_address m = address_of a"
proof -
  define f1 c where "f1 = fst (if ad_offset a \<noteq> 0 then const_create f (mk_val eInt32 (scast (ad_offset a))) else (f, bad_node))"
    and "c = snd (if ad_offset a \<noteq> 0 then const_create f (mk_val eInt32 (scast (ad_offset a))) else (f, bad_node))"
  obtain args len where al: "mem_args c a = (args, len)" by force
  have c: "ad_offset a \<noteq> 0 \<Longrightarrow> node_valid c" "mem_create f1 k X86_MEM (take len args) = Some (f', m)"
    using assms(1,2) al unfolding x64_mem_create_def Let_def f1_def c_def by (auto split: prod.splits if_splits)
  have v: "ad_offset a \<noteq> 0 \<Longrightarrow> nty c = CONSTN \<and> ucast (vbits (const_val c)) = ad_offset a"
    using offset_const_reads [of f "ad_offset a" f1 c] c(1) assms(3) by (simp add: f1_def c_def)
  obtain off where m: "m = Node (mk_header MEM k (opn_code X86_MEM)) off True [] (take len args)"
    using c(2) assms(2)
    by (auto simp: mem_create_def create_indirect_def create_loop_eq Let_def bad_node_def bad_header_def node_valid_def header_valid_def
        split: if_splits)
  note r = mem_args_read [OF assms(4) al v m]
  have i: "node_valid (ad_index a) \<longleftrightarrow> ad_index a \<noteq> bad_node" using assms(4) by (auto simp: address_wf_def)
  have "mem_address m = address_of a"
    using r(2-4) i unfolding mem_address_def address_of_def Let_def by (auto simp: bad_node_reads split: if_splits)
  then show ?thesis using r(1) m by (simp add: as_x64_mem_def downcast_def)
qed

subsection \<open>Programs\<close>

fun decode_n :: "nat \<Rightarrow> u8 list \<Rightarrow> (instr list \<times> u8 list) option" where
  "decode_n 0 bs = Some ([], bs)"
| "decode_n (Suc n) bs =
     (case decode bs of
        None \<Rightarrow> None
      | Some (i, rest) \<Rightarrow> (case decode_n n rest of None \<Rightarrow> None | Some (is, rest2) \<Rightarrow> Some (i # is, rest2)))"

lemma grows_program: "asm_grows d (fold x64_assemble sts d)"
proof (induction sts arbitrary: d)
  case (Cons st sts)
  then show ?case using asm_grows_trans [OF grows_assemble Cons.IH] by simp
qed simp

lemma grows_no_errors:
  assumes "asm_grows d d1" "asm_grows d1 d2" "good (abuf d2)" "elems (aerrors d2) = elems (aerrors d)"
  shows "good (abuf d1)" "elems (aerrors d1) = elems (aerrors d)" "elems (aerrors d2) = elems (aerrors d1)"
proof -
  obtain es2 where 2: "good (abuf d1)" "elems (aerrors d2) = elems (aerrors d1) @ es2" using assms(2,3) unfolding asm_grows_def by blast
  obtain es1 where 1: "elems (aerrors d1) = elems (aerrors d) @ es1" using assms(1) 2(1) unfolding asm_grows_def by blast
  from 1 2 assms(4) have "es1 = [] \<and> es2 = []" by (metis append_assoc append_is_Nil_conv append_self_conv)
  with 1 2 show "good (abuf d1)" "elems (aerrors d1) = elems (aerrors d)" "elems (aerrors d2) = elems (aerrors d1)" by simp_all
qed

lemma program_decodes_aux:
  assumes "\<forall>st\<in>set sts. supported st" "good (abuf (fold x64_assemble sts d))"
    "elems (aerrors (fold x64_assemble sts d)) = elems (aerrors d)"
  shows "\<exists>bs. asm_bytes (fold x64_assemble sts d) = asm_bytes d @ bs \<and>
     (\<forall>rest. decode_n (length sts) (bs @ rest) = Some (map x64_instr sts, rest))"
  using assms
proof (induction sts arbitrary: d)
  case (Cons st sts)
  let ?d1 = "x64_assemble st d"
  note g = grows_no_errors [OF grows_assemble [of d st] grows_program [of ?d1 sts]]
  have g': "good (abuf ?d1)" "elems (aerrors ?d1) = elems (aerrors d)"
    "elems (aerrors (fold x64_assemble sts ?d1)) = elems (aerrors ?d1)"
    using g Cons.prems(2,3) by simp_all
  obtain b where b: "asm_bytes ?d1 = asm_bytes d @ b" "decode b = Some (x64_instr st, [])"
    using assembles_one [OF _ refl g'(1,2)] Cons.prems(1) by (auto simp: wrote_def)
  obtain bs where bs: "asm_bytes (fold x64_assemble sts ?d1) = asm_bytes ?d1 @ bs"
    "\<forall>rest. decode_n (length sts) (bs @ rest) = Some (map x64_instr sts, rest)"
    using Cons.IH [of ?d1] Cons.prems(1,2) g'(3) by auto
  have "decode_n (length (st # sts)) ((b @ bs) @ rest) = Some (map x64_instr (st # sts), rest)" for rest
    using decode_append [OF b(2), of "bs @ rest"] bs(2) by simp
  then show ?case using b(1) bs(1) by (intro exI [of _ "b @ bs"]) simp
qed simp


subsection \<open>An example\<close>

definition asm_new :: assembler where
  "asm_new = \<lparr>abuf = buf_new, arelocs = arr_empty, aerrors = arr_empty, alloc_bytes = (\<lambda>_. True), alloc_relocs = (\<lambda>_. True),
     alloc_errors = (\<lambda>_. True)\<rparr>"

definition ex_reg :: "kind \<Rightarrow> u32 \<Rightarrow> node" where "ex_reg k i = var_direct (reg_make k i)"
definition ex_label :: node where "ex_label = Node (mk_header LABEL ePtr 1) 0 True [0, 0] []"

definition ex_mem :: node where
  "ex_mem = Node (mk_header MEM ePtr (opn_code X86_MEM)) 0 True []
     [ex_label, const_small eInt32 12345, ex_reg eUint64 RAX, ex_reg eUint64 RCX, const_small eUint8 8]"

definition ex_stmt :: "opcode \<Rightarrow> node \<Rightarrow> node" where
  "ex_stmt op a = Node (mk_header STMT_1 eVoid op) 0 True [] [a]"

definition ex_program :: "node list" where
  "ex_program = [ex_stmt X86_CALL ex_mem, ex_stmt X86_INC (ex_reg eUint8 RSI), ex_stmt X86_JE ex_label,
     ex_stmt X86_PUSH (const_small eUint8 5), stmt0 9, Node (mk_header STMT_N eVoid X86_RET) 0 True [0] []]"

lemmas ex_defs = ex_program_def ex_stmt_def ex_mem_def ex_label_def ex_reg_def stmt0_def var_direct_def const_small_def const_header_def
  var_header_def reg_make_def local_make_def id_make_def local_kind_def local_direct_def kind_nosimd_def imm_make_direct_def imm_rrot_def

lemma ex_const: "const_val (const_small eInt32 12345) = mk_val eInt32 12345" "const_val (const_small eUint8 8) = mk_val eUint8 8"
  "const_val (const_small eUint8 5) = mk_val eUint8 5" "nty (const_small k w) = CONSTN" "nkind (const_small k w) = kind_nosimd k"
  "nind (const_small k w) = False"
  by (simp_all add: const_small_def const_header_def const_val_def imm_make_direct_def imm_rrot_def imm_parse_direct_def
      imm_parse_direct_kind_def imm_lrot_def kind_nosimd_def word_le_nat_alt)

lemma ex_regs: "node_local (ex_reg eUint64 RAX) = reg_make eUint64 RAX" "node_local (ex_reg eUint64 RCX) = reg_make eUint64 RCX"
  "node_local (ex_reg eUint8 RSI) = reg_make eUint8 RSI" "nty (ex_reg k i) = VAR"
  by (simp_all add: ex_reg_def var_direct_def var_header_def node_local_def local_direct_def local_parse_direct_def reg_make_def
      local_make_def id_make_def)

lemma ex_children: "child ex_mem 0 = ex_label" "child ex_mem (Suc 0) = const_small eInt32 12345" "child ex_mem 2 = ex_reg eUint64 RAX"
    "child ex_mem 3 = ex_reg eUint64 RCX" "child ex_mem 4 = const_small eUint8 8" "nty ex_mem = MEM" "nkind ex_mem = ePtr"
    "nop ex_mem = opn_code X86_MEM" "nty ex_label = LABEL" "node_valid ex_label" "node_valid ex_mem"
  by (simp_all add: ex_mem_def child_def children_def ex_label_def node_valid_def header_valid_def)

lemma ex_mem_parts: "mem_label ex_mem = ex_label" "mem_offset ex_mem = 12345" "mem_base ex_mem = reg_make eUint64 RAX"
    "mem_index ex_mem = reg_make eUint64 RCX" "mem_scale ex_mem = eScale8"
  by (simp_all add: mem_label_def mem_offset_def mem_base_def mem_index_def mem_scale_def ex_children ex_const ex_regs
      downcast_defs scale_of_def)

lemma ex_stmts: "nty (ex_stmt op a) = STMT_1" "nop (ex_stmt op a) = op" "child (ex_stmt op a) 0 = a"
  by (simp_all add: ex_stmt_def child_def children_def)

lemma ex_fields:
  "reg_id (reg_make eUint64 RAX) = RAX" "reg_id (reg_make eUint64 RCX) = RCX" "reg_id (reg_make eUint8 RSI) = RSI"
  "local_kind (reg_make eUint64 RAX) = eUint64" "local_kind (reg_make eUint64 RCX) = eUint64" "local_kind (reg_make eUint8 RSI) = eUint8"
  by (simp_all add: reg_make_def local_make_def id_make_def reg_id_def local_id_def local_kind_def)

lemma ex_hilo:
  "local_valid (reg_make eUint64 RAX)" "local_valid (reg_make eUint64 RCX)" "local_valid (reg_make eUint8 RSI)"
  "reg_hi (reg_make eUint64 RAX) = 0" "reg_hi (reg_make eUint64 RCX) = 0" "reg_hi (reg_make eUint8 RSI) = 0"
  "reg_lo (reg_make eUint64 RAX) = 0" "reg_lo (reg_make eUint64 RCX) = 1" "reg_lo (reg_make eUint8 RSI) = 6"
  by (simp_all add: local_valid_def reg_hi_def reg_lo_def rhi_def rlo_def ex_fields)

lemma ex_kinds: "kind_bits ePtr = eBits64" "kind_bits eUint8 = eBits8" "kind_bits eUint64 = eBits64"
  by (simp_all add: kind_defs)

lemma ex_call_addr:
  "asm1_emit_addr X86_CALL ([0xFF] @ [0x10]) eBits64 ex_mem d = asm_add_relocation ex_label (asm_add [0xFF, 0x94, 0xC8, 0x39, 0x30, 0, 0] d)"
proof -
  have s1: "(reg_make eUint64 RCX, eScale8) = (if mem_scale ex_mem = eScale0 \<or> \<not> local_valid (mem_index ex_mem) then (no_reg, eScale0)
        else (mem_index ex_mem, mem_scale ex_mem))" by (simp add: ex_mem_parts ex_hilo)
  have s2: "(reg_make eUint64 RCX, eScale8) = (if \<not> local_valid (mem_base ex_mem) \<and> \<not> local_valid (reg_make eUint64 RCX)
        then (reg_make eUint64 RSP, eScale1) else (reg_make eUint64 RCX, eScale8))" by (simp add: ex_hilo)
  have k: "ePtr = (if X86_CALL = X86_CLFLUSHOPT then eUint16 else nkind ex_mem)" by (simp add: ex_children)
  have ob: "4 = get_offset_minbytes ex_mem (mem_base ex_mem) (reg_make eUint64 RCX)"
    by (simp add: get_offset_minbytes_def ex_mem_parts ex_children fits8_def)
  have p: "prefix_bytes ePtr eBits64 (reg_make eUint64 RAX) (reg_make eUint64 RCX) = []"
    by (simp add: prefix_bytes_def ex_kinds rex_byte_def ex_mem_parts ex_hilo bits_less_def Let_def)
  have m: "modrm_bytes 0x10 4 (reg_make eUint64 RAX) (reg_make eUint64 RCX) eScale8 = [0x94, 0xC8]"
    by (simp add: modrm_bytes_def ex_mem_parts ex_hilo ex_fields scale_bits_def)
  have i: "imm_bytes 4 12345 = [0x39, 0x30, 0, 0]" by (simp add: imm_bytes_def ex_mem_parts)
  show ?thesis
    using emit_addr_bytes [OF s1 s2 k _ ob, of "[0xFF]" "0x10" eBits64 d]
    by (simp only: p m i Let_def ex_mem_parts ex_children) simp
qed

lemma ex_insts:
  "inst1_info (asm1_find X86_CALL) = ([0xFF, 0x10], [], [0xE8], 55, 8, 4)"
  "inst1_info (asm1_find X86_INC) = ([0xFE, 0], [], [], 23, 15, 0)"
  "inst1_info (asm1_find X86_JE) = ([], [0x74], [0x0F, 0x84], 32, 0, 5)"
  "inst1_info (asm1_find X86_PUSH) = ([0xFF, 0x30], [0x6A], [0x68], 55, 10, 5)"
  using asm1_info [of 6] asm1_info [of 9] asm1_info [of 15] asm1_info [of 31] by (simp_all add: info_list_def)

lemmas ex_inst_fields = ex_insts [unfolded inst1_info_def, simplified prod.inject]

lemma ex_stmt_emit: "x64_assemble (ex_stmt op a) d = asm1_emit_inst (ex_stmt op a) (asm1_find op) d"
  by (simp add: x64_assemble_def ex_stmts asm1_emit_def)

lemma ex_validate: "validate_mem ex_mem d = (True, d)"
  by (simp add: validate_mem_def ex_mem_parts ex_fields general_id_def ex_hilo)

lemma ex_call: "x64_assemble (ex_stmt X86_CALL ex_mem) d =
    asm_add_relocation ex_label (asm_add [0xFF, 0x94, 0xC8, 0x39, 0x30, 0, 0] d)"
proof -
  note i = ex_inst_fields(1)
  have m: "asm1_emit_mem (asm1_find X86_CALL) X86_CALL ex_mem d = asm1_emit_addr X86_CALL ([0xFF] @ [0x10]) eBits64 ex_mem d"
    unfolding asm1_emit_mem_def ex_validate prod.case using i
    by (simp add: view_get_def asm1_default_size_def numeral_eq_Suc)
  have "asm1_emit_inst (ex_stmt X86_CALL ex_mem) (asm1_find X86_CALL) d = asm1_emit_mem (asm1_find X86_CALL) X86_CALL ex_mem d"
    unfolding asm1_emit_inst_def Let_def ex_stmts ex_children ntype.case using i
    by (simp add: arg1_compatible_def to_arg1_def ex_children as_x64_mem_def downcast_def ex_kinds bits_compatible_def to_bitsize_def)
  then show ?thesis unfolding ex_stmt_emit m ex_call_addr .
qed

lemma ex_reg_valid: "node_valid (ex_reg eUint8 RSI)"
  by (simp add: ex_reg_def var_direct_def var_header_def node_valid_def header_valid_def ex_fields)

lemma ex_inc: "x64_assemble (ex_stmt X86_INC (ex_reg eUint8 RSI)) d = asm_add [0x40, 0xFE, 0xC6] d"
  using ex_inst_fields(2) emit_reg_bytes [of "asm1_find X86_INC" "[0xFE]" 0 X86_INC "reg_make eUint8 RSI" d]
  by (simp add: ex_stmt_emit ex_stmts asm1_emit_inst_def arg1_compatible_def to_arg1_def ex_regs as_var_def ex_fields
      downcast_def ex_kinds bits_compatible_def to_bitsize_def ex_hilo asm1_default_size_def Let_def widen_def prefix_bytes_def rex_byte_def
      bits_less_def ex_reg_valid)

lemma ex_je: "x64_assemble (ex_stmt X86_JE ex_label) d = asm_add_relocation ex_label (asm_add [0x0F, 0x84, 0, 0, 0, 0] d)"
  using ex_inst_fields(3) emit_label_bytes [of "asm1_find X86_JE" ex_label d]
  by (simp add: ex_stmt_emit ex_stmts asm1_emit_inst_def arg1_compatible_def to_arg1_def ex_children as_label_def
      downcast_def bits_compatible_def to_bitsize_def Let_def imm_bytes_def)

lemma ex_push: "x64_assemble (ex_stmt X86_PUSH (const_small eUint8 5)) d = asm_add [0x6A, 5] d"
  using ex_inst_fields(4) emit_const_bytes [of "asm1_find X86_PUSH" 5 "mk_val eUint8 5" d]
  by (simp add: ex_stmt_emit ex_stmts asm1_emit_inst_def arg1_compatible_def to_arg1_def ex_const as_const_def
      downcast_def bits_compatible_def to_bitsize_def Let_def imm_bytes_def fits8_def ex_kinds kind_nosimd_def node_valid_def header_valid_def)

lemma ex_nop: "x64_assemble (stmt0 9) d = asm_add [0x90] d"
  by (simp add: x64_assemble_def stmt0_def asm0_emit_def asm0_find_def inst0_vec_def mk_inst0_def inst0_bytes_def char_at_def)

lemma ex_ret: "x64_assemble (Node (mk_header STMT_N eVoid X86_RET) 0 True [0] []) d = asm_add [0xC3] d"
  by (simp add: x64_assemble_def asmn_emit_def asmn_find_def instn_vec_def mk_inst0_def inst0_bytes_def char_at_def)


text \<open>An assembler whose memory never runs out.\<close>

definition roomy_asm :: "u8 list \<Rightarrow> assembler \<Rightarrow> bool" where
  "roomy_asm bs d \<longleftrightarrow> good (abuf d) \<and> asm_bytes d = bs \<and> elems (aerrors d) = [] \<and> alloc_bytes d = (\<lambda>_. True) \<and>
     alloc_relocs d = (\<lambda>_. True) \<and> alloc_errors d = (\<lambda>_. True)"

lemma room_to_append: "fst (arr_append z (\<lambda>_. True) xs a)"
  by (simp add: arr_defs)

lemma roomy_add: "roomy_asm bs d \<Longrightarrow> roomy_asm (bs @ b) (asm_add b d)"
  using room_to_append [of 0 b "bdata (abuf d)"] arr_append_success [of 0 "\<lambda>_. True" b "bdata (abuf d)"]
  by (auto simp: roomy_asm_def asm_add_def buf_append_def split: prod.splits)

lemma roomy_relocation: "roomy_asm bs d \<Longrightarrow> roomy_asm bs (asm_add_relocation l d)"
  using room_to_append [of "(0, bad_node)" "[(length (asm_bytes d), l)]" "arelocs d"]
  by (auto simp: roomy_asm_def asm_add_relocation_def Let_def split: prod.splits)

lemma roomy_new: "roomy_asm [] asm_new"
  by (simp add: roomy_asm_def asm_new_def buf_new_def arr_empty_def)

lemma ex_assembles:
  "roomy_asm [0xFF, 0x94, 0xC8, 0x39, 0x30, 0, 0, 0x40, 0xFE, 0xC6, 0x0F, 0x84, 0, 0, 0, 0, 0x6A, 5, 0x90, 0xC3]
     (fold x64_assemble ex_program asm_new)"
proof -
  have "roomy_asm ((((((([] @ [0xFF, 0x94, 0xC8, 0x39, 0x30, 0, 0]) @ [0x40, 0xFE, 0xC6]) @ [0x0F, 0x84, 0, 0, 0, 0]) @ [0x6A, 5]) @ [0x90]) @ [0xC3]))
     (fold x64_assemble ex_program asm_new)"
    unfolding ex_program_def fold.simps comp_def id_def ex_call ex_inc ex_je ex_push ex_nop ex_ret
    by (intro roomy_add roomy_relocation roomy_new)
  then show ?thesis by simp
qed

lemma ex_supported: "\<forall>st\<in>set ex_program. supported st"
  by (simp add: ex_program_def supported_def supported1_def ex_stmts ex_children ex_regs ex_const Let_def ex_mem_parts ex_hilo ex_fields
      stmt0_def op0_prefixes_def)



text \<open>No instruction with two arguments is implemented.\<close>

lemma rejected_statement_writes_nothing_witness:
  "elems (aerrors (x64_assemble (Node (mk_header STMT_2 eVoid 9) 0 True [] []) asm_new)) \<noteq> [] \<and>
   asm_bytes (x64_assemble (Node (mk_header STMT_2 eVoid 9) 0 True [] []) asm_new) = []"
proof -
  let ?st = "Node (mk_header STMT_2 eVoid 9) 0 True [] []"
  have "erred asm_new (x64_assemble ?st asm_new)" by (rule assemble_erred) simp
  then obtain n msg where e: "x64_assemble ?st asm_new = asm_error n msg asm_new"
    unfolding erred_def by blast
  have "elems (aerrors (asm_error n msg asm_new)) = [(n, msg)]"
    using arr_append_success [of "(bad_node, [])" "\<lambda>_. True" "[(n, msg)]" "arr_empty :: ferror arr"]
      room_to_append [of "(bad_node, [])" "[(n, msg)]" arr_empty]
    by (auto simp: asm_error_def asm_new_def buf_new_def asm_set_good_def arr_empty_def split: prod.splits)
  then have l: "elems (aerrors (x64_assemble ?st asm_new)) \<noteq> []" by (simp add: e)
  then have "aerrors (x64_assemble ?st asm_new) \<noteq> aerrors asm_new" by (auto simp: asm_new_def arr_empty_def)
  from rejected_statement_writes_nothing [OF this] l show ?thesis
    using roomy_new by (simp add: roomy_asm_def)
qed

lemma ex_rbp: "nty (ex_reg k i) = VAR" "node_valid (ex_reg eUint64 RBP)" "node_valid (ex_reg eUint64 RCX)"
    "node_local (ex_reg eUint64 RBP) = reg_make eUint64 RBP" "reg_id (reg_make eUint64 RBP) = RBP"
    "local_kind (reg_make eUint64 RBP) = eUint64"
  by (simp_all add: ex_regs(4) ex_reg_def var_direct_def var_header_def node_valid_def header_valid_def node_local_def local_direct_def
      local_parse_direct_def reg_make_def local_make_def id_make_def reg_id_def local_id_def local_kind_def)

lemma mem_operand_round_trip_witness:
  "\<exists>f' m. x64_mem_create example_func eUint64 (address_make bad_node 0x10 (ex_reg eUint64 RBP) (ex_reg eUint64 RCX) eScale4) = Some (f', m) \<and>
     mem_address m = \<lparr>ea_base = Base 5, ea_index = Some (1, 4), ea_disp = 16\<rparr>"
proof -
  let ?a = "address_make bad_node 0x10 (ex_reg eUint64 RBP) (ex_reg eUint64 RCX) eScale4"
  have d: "imm_direct (mk_val eInt32 0x10) \<noteq> 0"
    by (simp add: imm_direct_def imm_recurse.simps imm_can_direct_def imm_rrot_def imm_make_direct_def word_le_nat_alt)
  obtain c where c: "const_create example_func (mk_val eInt32 0x10) = (example_func, c)" "node_valid c"
    using d by (auto simp: const_create_def val_is_valid_def node_valid_def header_valid_def const_header_def)
  obtain args len where a: "mem_args c ?a = (args, len)" by force
  have b: "\<not> node_valid bad_node" by (simp add: node_valid_def bad_node_def header_valid_def bad_header_def)
  have w: "address_wf ?a" by (simp add: address_wf_def address_make_def ex_rbp scale_ok_def)
  have five: "\<exists>f' m. mem_create example_func eUint64 X86_MEM [x0, x1, x2, x3, x4] = Some (f', m) \<and> node_valid m" for x0 x1 x2 x3 x4
    unfolding mem_create_def create_indirect_def create_loop_eq example_func_code
    by (simp add: example_func_def code_length_def is_list_type_def code_add_node_def code_add_defs node_item_def buf_append_def
        arr_defs node_valid_def header_valid_def Let_def)
  have "\<exists>x0 x1 x2 x3 x4. take len args = [x0, x1, x2, x3, x4]"
    using a by (auto simp: mem_args_eq address_make_def ex_rbp Let_def)
  with five obtain f' m where cr: "mem_create example_func eUint64 X86_MEM (take len args) = Some (f', m)" "node_valid m" by metis
  have x: "x64_mem_create example_func eUint64 ?a = Some (f', m)"
    using c cr a by (simp add: x64_mem_create_def address_make_def)
  have sm: "small (fcode example_func)" by (simp add: small_def example_func_code)
  have "reg_number (reg_make eUint64 RBP) = 5" "reg_number (reg_make eUint64 RCX) = 1"
    by (simp_all add: reg_number_def ex_rbp ex_fields)
  with mem_operand_round_trip [OF x cr(2) sm w] x show ?thesis
    by (auto simp: address_of_def address_make_def ex_rbp ex_regs ex_fields local_valid_def scale_val_def Let_def)
qed

end
