(* ===== verification/X64_Limits.thy ===== *)
theory X64_Limits imports X64_Programs begin

text \<open>
  The instructions the assembler gets wrong, which the theorems on what it decodes to exclude, and the classes of
  argument pairs of \<open>src/onejit/x64/arg.cpp\<close>.
\<close>

lemma limit_infos:
  "inst1_info (asm1_find X86_CBW) = ([], [], [], 1, 14, 0)"
  "inst1_info (asm1_find X86_INT) = ([], [0xCD], [], 32, 0, 1)"
  "inst1_info (asm1_find X86_RDTSC) = ([0x0F, 0x31], [], [], 1, 16, 0)"
  "inst1_info (asm1_find X86_XABORT) = ([], [], [], 32, 0, 1)"
  using asm1_info [of 7] asm1_info [of 10] asm1_info [of 32] asm1_info [of 52] by (simp_all add: info_list_def)

lemmas limit_fields = limit_infos [unfolded inst1_info_def, simplified prod.inject]

lemma limit_consts:
  "const_val (const_small eUint8 0x80) = mk_val eUint8 0x80" "const_val (const_small eUint8 7) = mk_val eUint8 7"
  by (simp_all add: const_small_def const_header_def const_val_def imm_make_direct_def imm_rrot_def imm_parse_direct_def
      imm_parse_direct_kind_def imm_lrot_def kind_nosimd_def word_le_nat_alt)

lemma limit_regs:
  "node_local (ex_reg eUint64 RIP) = reg_make eUint64 RIP" "node_local (ex_reg eUint32 RAX) = reg_make eUint32 RAX"
  "node_local (ex_reg eUint64 RBX) = reg_make eUint64 RBX" "node_local (ex_reg eUint64 RDX) = reg_make eUint64 RDX"
  "local_kind (reg_make eUint64 RIP) = eUint64" "local_kind (reg_make eUint32 RAX) = eUint32"
  "local_kind (reg_make eUint64 RBX) = eUint64" "local_kind (reg_make eUint64 RDX) = eUint64"
  "reg_id (reg_make eUint64 RIP) = RIP" "reg_id (reg_make eUint32 RAX) = RAX"
  "reg_id (reg_make eUint64 RBX) = RBX" "reg_id (reg_make eUint64 RDX) = RDX"
  by (simp_all add: ex_reg_def var_direct_def var_header_def node_local_def local_direct_def local_parse_direct_def reg_make_def
      local_make_def id_make_def reg_id_def local_id_def local_kind_def)

lemma limit_valid: "node_valid (ex_reg eUint64 RIP)" "node_valid (ex_reg eUint32 RAX)"
    "local_valid (reg_make eUint64 RIP)" "local_valid (reg_make eUint32 RAX)" "local_valid (reg_make eUint64 RBX)"
    "local_valid (reg_make eUint64 RDX)"
  by (simp_all add: ex_reg_def var_direct_def var_header_def node_valid_def header_valid_def limit_regs local_valid_def)

lemma limit_nkind: "nkind (ex_reg eUint64 RIP) = eUint64" "nkind (ex_reg eUint32 RAX) = eUint32"
  by (simp_all add: ex_reg_def var_direct_def var_header_def limit_regs)

lemmas limit_emit = limit_nkind ex_stmt_emit ex_stmts asm1_emit_inst_def arg1_compatible_def to_arg1_def ex_regs(4) limit_regs limit_valid
  limit_consts ex_const(4-6) as_const_def as_var_def downcast_def ex_kinds bits_compatible_def to_bitsize_def Let_def kind_nosimd_def
  node_valid_def header_valid_def

lemma int_128: "x64_assemble (ex_stmt X86_INT (const_small eUint8 0x80)) d = asm_add [0x80, 0, 0, 0] d"
  using limit_fields(2) emit_const_bytes [of "asm1_find X86_INT" "0x80" "mk_val eUint8 0x80" d]
  by (simp add: limit_emit imm_bytes_def fits8_def)

lemma xabort_7: "x64_assemble (ex_stmt X86_XABORT (const_small eUint8 7)) d = asm_add [7] d"
  using limit_fields(4) emit_const_bytes [of "asm1_find X86_XABORT" 7 "mk_val eUint8 7" d]
  by (simp add: limit_emit imm_bytes_def fits8_def)

lemma limit_kinds: "kind_bits eUint32 = eBits32"
  by (simp add: kind_defs)

lemma zeros8: "replicate 8 (0 :: u8) = [0, 0, 0, 0, 0, 0, 0, 0]"
  by (simp add: numeral_eq_Suc)

lemma rax_rex: "rex_byte eBits32 eBits32 (reg_make eUint32 RAX) no_reg = 0" "reg_lo (reg_make eUint32 RAX) = 0"
  by (simp_all add: rex_byte_def bits_less_def limit_regs reg_hi_def rhi_def reg_lo_def rlo_def limit_kinds)

lemma cbw_eax: "x64_assemble (ex_stmt X86_CBW (ex_reg eUint32 RAX)) d = asm_add [0xC0] d"
proof -
  have p: "asm1_insert_prefixes [0, 0, 0, 0, 0, 0, 0, 0] 0 eUint32 eBits32 (reg_make eUint32 RAX) no_reg = ([0, 0, 0, 0, 0, 0, 0, 0], 0)"
    by (simp add: asm1_insert_prefixes_def limit_kinds rax_rex Let_def)
  have "asm1_emit_reg (asm1_find X86_CBW) X86_CBW (reg_make eUint32 RAX) d = asm_add [0xC0] d"
    unfolding asm1_emit_reg_def zeros8 using limit_fields(1)
    by (simp add: limit_regs p limit_kinds asm1_default_size_def Let_def view_get_def buf_or_def rax_rex)
  then show ?thesis using limit_fields(1) by (simp add: limit_emit limit_kinds)
qed

lemma inc_rip: "x64_assemble (ex_stmt X86_INC (ex_reg eUint64 RIP)) d = asm_add [0x48, 0xFF, 0xC5] d"
proof -
  have r: "prefix_bytes eUint64 eBits32 (reg_make eUint64 RIP) no_reg = [0x48]" "reg_lo (reg_make eUint64 RIP) = 5"
    by (simp_all add: prefix_bytes_def rex_byte_def bits_less_def limit_regs reg_hi_def rhi_def reg_lo_def rlo_def ex_kinds Let_def)
  have e: "asm1_emit_reg (asm1_find X86_INC) X86_INC (reg_make eUint64 RIP) d = asm_add [0x48, 0xFF, 0xC5] d"
    using emit_reg_bytes [of "asm1_find X86_INC" "[0xFE]" 0 X86_INC "reg_make eUint64 RIP" d] ex_inst_fields(2)
    by (simp add: limit_regs r asm1_default_size_def widen_def ex_kinds)
  then show ?thesis using ex_inst_fields(2) by (simp add: limit_emit)
qed

lemma rdtsc_erred: "erred d (x64_assemble (ex_stmt X86_RDTSC a) d)"
proof (rule ccontr)
  assume n: "\<not> erred d (x64_assemble (ex_stmt X86_RDTSC a) d)"
  then have "\<not> erred d (asm1_emit_inst (ex_stmt X86_RDTSC a) (asm1_find X86_RDTSC) d)" by (simp add: ex_stmt_emit)
  note c = emit_inst_cases [OF this, unfolded ex_stmts]
  have f: "i1_arg (asm1_find X86_RDTSC) = 1" "i1_arg_size (asm1_find X86_RDTSC) = B128" using limit_fields(3) by simp_all
  have "\<not> bits_compatible b B128" for b
  proof
    assume b: "bits_compatible b B128"
    from bits_compatible_cases [OF b] b show False by (auto simp: bits_compatible_def to_bitsize_def)
  qed
  then have "nty a \<noteq> VAR" "nty a \<noteq> MEM" using c(3,4) f by auto
  then have "nty a = LABEL \<or> nty a = CONSTN" using c(2) by blast
  then show False using c(1) f to_arg1_simps(2,3) [of a] by (auto simp: arg1_compatible_def)
qed


text \<open>A pair of general registers other than the first two is classified as \<open>%rax OP= register\<close> and \<open>register OP= %rcx\<close> together:
  the bits of \<open>Reg\<close> contain those of \<open>Rax\<close> and \<open>Rcx\<close>, and the most specific classes are tested first. An instruction that only
  shifts by \<open>%cl\<close> accepts any register as the count.\<close>

theorem any_register_counts_as_rcx:
  "to_arg2 (ex_reg eUint64 RBX) (ex_reg eUint64 RDX) = Rax_Reg OR Reg_Rcx \<and>
   arg2_compatible (ex_reg eUint64 RBX) (ex_reg eUint64 RDX) Reg_Rcx \<and>
   arg1_compatible (ex_reg eUint64 RBX) Arg1_Rax"
  by (simp add: to_arg2_def arg2_compatible_def arg1_compatible_def to_arg1_def ex_regs(4) limit_regs limit_valid)

end
