(* ===== verification/X64_Compiler.thy ===== *)
theory X64_Compiler imports X64_Asm Compiler Allocator begin

text \<open>
  The compiler from flat code to x86_64 instructions on variables: \<open>src/onejit/x64/compiler.hpp\<close>, \<open>compiler.cpp\<close> and
  \<open>address.cpp\<close>, with the functions of \<open>mem.cpp\<close> that need a compiler.

  \<open>x64::Compiler\<close> has pointers to the function and to the lists \<open>node_\<close> and \<open>error_\<close> of the \<open>onejit::Compiler\<close> that runs
  it, and a flag of its own. Its state is the record \<open>compiler\<close>, of which it uses \<open>cfn\<close>, \<open>emitted\<close>, \<open>errors\<close>, \<open>cgood\<close> and
  the oracle of allocations; the flow graph and the register allocator are arguments of the functions that use them.
\<close>

subsection \<open>Operations\<close>

text \<open>Positions in the tables of operations; \<open>X86_CALL1\<close> is \<open>X86_CALL_\<close>.\<close>

abbreviation "X86_ADD \<equiv> (46 :: opcode)"
abbreviation "X86_AND \<equiv> (48 :: opcode)"
abbreviation "X86_CMP \<equiv> (71 :: opcode)"
abbreviation "X86_DIV \<equiv> (75 :: opcode)"
abbreviation "X86_LEA \<equiv> (78 :: opcode)"
abbreviation "X86_MOV \<equiv> (80 :: opcode)"
abbreviation "X86_MUL \<equiv> (85 :: opcode)"
abbreviation "X86_OR \<equiv> (86 :: opcode)"
abbreviation "X86_SHL \<equiv> (92 :: opcode)"
abbreviation "X86_SHR \<equiv> (93 :: opcode)"
abbreviation "X86_SUB \<equiv> (95 :: opcode)"
abbreviation "X86_XOR \<equiv> (99 :: opcode)"
abbreviation "X86_CALL1 \<equiv> (10 :: opcode)"

lemma x64_compiler_codes:
  "map (\<lambda>i. fst (opstmt2_rows ! unat i)) [X86_ADD, X86_AND, X86_CMP, X86_DIV, X86_LEA, X86_MOV, X86_MUL, X86_OR, X86_SHL, X86_SHR,
     X86_SUB, X86_XOR] = [''X86_ADD'', ''X86_AND'', ''X86_CMP'', ''X86_DIV'', ''X86_LEA'', ''X86_MOV'', ''X86_MUL'', ''X86_OR'', ''X86_SHL'',
     ''X86_SHR'', ''X86_SUB'', ''X86_XOR'']"
  "fst (opstmtn_rows ! unat X86_CALL1) = ''X86_CALL_''"
  by (simp_all add: opstmt2_rows_def opstmtn_rows_def enum_rows_def opstmt2_mir_def opstmt2_x86_def opstmtn_mir_def opstmtn_x86_def)

subsection \<open>Lists and variables\<close>

text \<open>These three have the bodies of the functions of \<open>onejit::Compiler\<close> of the same names.\<close>

definition x64_add :: "node \<Rightarrow> unit cm" where "x64_add n = out_node n"
definition x64_error :: "node \<Rightarrow> string \<Rightarrow> unit cm" where "x64_error n msg = out_error n msg"
definition x64_out_of_memory :: "node \<Rightarrow> unit cm" where "x64_out_of_memory n = out_of_memory n"

definition x64_to_var :: "node \<Rightarrow> node cm" where
  "x64_to_var e =
     (let v = as_var e
      in if node_valid e \<and> \<not> node_valid v then
           cbind (new_var (nkind e)) (\<lambda>v. cthen (cbind (assign_node ASSIGN v e) x64_add) (cret v))
         else cret v)"

definition x64_to_var_const :: "node \<Rightarrow> node cm" where
  "x64_to_var_const e = (if nty e \<in> {VAR, CONSTN, LABEL} then cret e else x64_to_var e)"

definition x64_to_var_mem_const :: "node \<Rightarrow> node cm" where
  "x64_to_var_mem_const e = (if nty e \<in> {VAR, MEM, CONSTN, LABEL} then cret e else x64_to_var e)"

subsection \<open>Addresses\<close>

text \<open>The end of \<open>Address::insert\<close>: the base, or else the index, is a variable that holds the expression.\<close>

definition address_fallback :: "address \<Rightarrow> node \<Rightarrow> (bool \<times> address) cm" where
  "address_fallback a e =
     (if \<not> node_valid (ad_base a) then cbind (x64_to_var e) (\<lambda>v. cret (True, a\<lparr>ad_base := v\<rparr>))
      else if \<not> node_valid (ad_index a) then cbind (x64_to_var e) (\<lambda>v. cret (True, a\<lparr>ad_index := v, ad_scale := eScale1\<rparr>))
      else cret (False, a))"

text \<open>The case of a product of an expression and a constant.\<close>

definition address_insert_product :: "address \<Rightarrow> node \<Rightarrow> (bool \<times> address) cm" where
  "address_insert_product a e =
     (if node_valid (ad_index a) \<or> node_opn e \<noteq> MULN \<or> children e \<noteq> 2 then address_fallback a e
      else
        let x = as_expr (child e 0); y = const_val (as_const (child e 1))
        in if \<not> node_valid x \<or> \<not> val_is_valid y \<or> kind_is_float (vkind y) then address_fallback a e
           else cbind (x64_to_var x) (\<lambda>my_index.
             let int_scale = sint (vbits y); my_scale = scale_of (ucast (vbits y))
             in if node_valid my_index \<and> int_scale \<ge> 0 \<and> int_scale \<le> 0xff \<and> my_scale \<noteq> eScale0
                then cret (True, a\<lparr>ad_index := my_index, ad_scale := my_scale\<rparr>)
                else address_fallback a e))"

text \<open>\<open>int64_t(int32_t(x))\<close>.\<close>

definition fits32 :: "u64 \<Rightarrow> bool" where "fits32 x \<longleftrightarrow> x = scast (ucast x :: u32)"

definition address_insert :: "address \<Rightarrow> node \<Rightarrow> (bool \<times> address) cm" where
  "address_insert a n =
     (let e = as_expr n
      in if node_valid e then
           case nty e of
             VAR \<Rightarrow> address_fallback a e
           | TUPLE \<Rightarrow> address_insert_product a e
           | LABEL \<Rightarrow> if \<not> node_valid (ad_label a) then cret (True, a\<lparr>ad_label := as_label e\<rparr>) else address_fallback a e
           | CONSTN \<Rightarrow>
               (let delta = vbits (const_val (as_const e))
                in if ad_offset a = 0 \<and> \<not> kind_is_float (nkind e) \<and> fits32 delta
                   then cret (True, a\<lparr>ad_offset := ucast delta\<rparr>) else address_fallback a e)
           | _ \<Rightarrow> address_fallback a e
         else cret (False, a))"

text \<open>Both overloads for several nodes stop at the first that fails.\<close>

fun address_inserts :: "address \<Rightarrow> node list \<Rightarrow> (bool \<times> address) cm" where
  "address_inserts a [] = cret (True, a)"
| "address_inserts a (n # ns) =
     cbind (address_insert a n) (\<lambda>(ok, a). if ok then address_inserts a ns else cret (False, a))"

text \<open>The overloads of \<open>Mem::create\<close> with a compiler.\<close>

definition x64_mem_of :: "kind \<Rightarrow> node list \<Rightarrow> node cm" where
  "x64_mem_of k ns =
     cbind (address_inserts address_new ns) (\<lambda>(ok, a). if ok then making (\<lambda>f. x64_mem_create f k a) else cret bad_node)"

subsection \<open>Expressions\<close>

definition x64_simplify_tuple :: "node \<Rightarrow> node cm" where "x64_simplify_tuple e = cret e"

text \<open>
  The second loop of \<open>simplify(Mem)\<close>: the children from the \<open>i\<close>-th on. When one fits in the address in no way, the sum of
  all children goes to a variable. Simplifying that sum, a new tuple or an invalid node, gives it back.
\<close>

definition x64_sum_node :: "node list \<Rightarrow> node cm" where
  "x64_sum_node cs =
     cbind (making (\<lambda>f. tuple_create f ePtr ADDN cs)) (\<lambda>t.
       cbind (if nty t = TUPLE then x64_simplify_tuple t else cthen (x64_error t ''unexpected Expr'') (cret t)) x64_to_var_const)"

function x64_mem_loop :: "node \<Rightarrow> nat \<Rightarrow> address \<Rightarrow> node list \<Rightarrow> node cm" where
  "x64_mem_loop expr i a cs =
     (if i < length cs then
        cbind (address_insert a (cs ! i)) (\<lambda>(ok, a).
          if ok then x64_mem_loop expr (Suc i) a cs
          else cbind (x64_to_var_const (cs ! i)) (\<lambda>arg. cbind (address_insert a arg) (\<lambda>(ok, a).
            if ok then x64_mem_loop expr (Suc i) a cs
            else cbind (x64_sum_node (cs[i := arg])) (\<lambda>args. cbind (x64_mem_of (nkind expr) [args]) (\<lambda>mem.
                   if node_valid mem then cret mem
                   else cthen (x64_error expr ''internal error: failed to compile onejit::x64::Mem'') (cret bad_node))))))
      else making (\<lambda>f. x64_mem_create f (nkind expr) a))"
  by pat_completeness auto
termination by (relation "measure (\<lambda>(expr, i, a, cs). length cs - i)") auto

declare x64_mem_loop.simps [simp del]

definition x64_simplify_unary :: "node \<Rightarrow> node \<Rightarrow> node cm" where
  "x64_simplify_unary e simpl =
     cbind (x64_to_var_mem_const simpl) (\<lambda>simpl_x.
       if \<not> node_same simpl_x (as_expr (child e 0)) then making (\<lambda>f. unary_create_kind f (nkind e) (node_op1 e) simpl_x)
       else cret e)"

text \<open>The end of \<open>simplify_binary\<close>: x86_64 has no instruction with two operands in memory.\<close>

definition x64_one_memory :: "node \<Rightarrow> node \<Rightarrow> (node \<times> node) cm" where
  "x64_one_memory x y =
     (if nty x = MEM \<and> nty y = MEM then cbind (x64_to_var y) (\<lambda>v. cret (x, v)) else cret (x, y))"

definition x64_simplify_binary :: "node cm \<Rightarrow> node cm \<Rightarrow> (node \<times> node) cm" where
  "x64_simplify_binary sx sy =
     cbind (cbind sx x64_to_var_mem_const) (\<lambda>x. cbind (cbind sy x64_to_var_mem_const) (\<lambda>y. x64_one_memory x y))"

lemma cmap_cong [fundef_cong]: "xs = ys \<Longrightarrow> (\<And>x. x \<in> set ys \<Longrightarrow> g x = h x) \<Longrightarrow> cmap g xs = cmap h ys"
proof (induction ys arbitrary: xs)
  case (Cons y ys)
  from Cons.IH [OF refl] Cons.prems have "cmap g ys = cmap h ys" "g y = h y" by simp_all
  then show ?case using Cons.prems(1) by simp
qed simp

text \<open>\<open>simplify(Expr)\<close> with its overloads; a child that is no expression is an invalid one.\<close>

fun x64_simplify :: "node \<Rightarrow> node cm" where
  "x64_simplify (Node h off ind ds kids) =
     (let e = Node h off ind ds kids; bad = cthen (x64_error bad_node ''unexpected Expr'') (cret bad_node)
      in case htype h of
           VAR \<Rightarrow> cret e
         | LABEL \<Rightarrow> cret e
         | CONSTN \<Rightarrow> cret e
         | MEM \<Rightarrow> cbind (cget calloc) (\<lambda>ok.
             if fst (arr_resize bad_node ok (length kids) arr_empty) then
               cbind (cmap (\<lambda>x. if is_expr_type (nty x) then x64_simplify x else bad) kids) (x64_mem_loop e 0 address_new)
             else cthen (x64_out_of_memory e) (cret bad_node))
         | UNARY \<Rightarrow>
             cbind (case kids of x # _ \<Rightarrow> if is_expr_type (nty x) then x64_simplify x else bad | [] \<Rightarrow> bad) (x64_simplify_unary e)
         | BINARY \<Rightarrow>
             cbind (x64_simplify_binary
                 (case kids of x # _ \<Rightarrow> if is_expr_type (nty x) then x64_simplify x else bad | [] \<Rightarrow> bad)
                 (case kids of _ # y # _ \<Rightarrow> if is_expr_type (nty y) then x64_simplify y else bad | _ \<Rightarrow> bad)) (\<lambda>(x, y).
               if \<not> node_same x (as_expr (child e 0)) \<or> \<not> node_same y (as_expr (child e 1))
               then making (\<lambda>f. binary_create f (node_op2 e) x y) else cret e)
         | TUPLE \<Rightarrow> x64_simplify_tuple e
         | _ \<Rightarrow> cthen (x64_error e ''unexpected Expr'') (cret e))"

declare x64_simplify.simps [simp del]

subsection \<open>Statements\<close>

definition x64_compile_expr :: "node \<Rightarrow> unit cm" where
  "x64_compile_expr e = cbind (x64_simplify e) x64_add"

definition x64_compile_stmt1 :: "node \<Rightarrow> unit cm" where
  "x64_compile_stmt1 st =
     (let op = nop st
      in if op \<ge> GOTO \<and> op \<le> DEC then
           let op = [X86_JMP, X86_INC, X86_DEC] ! unat (op - GOTO)
           in cbind (x64_simplify (as_expr (child st 0))) (\<lambda>e. cbind (making (\<lambda>f. stmt1_create f e op)) x64_add)
         else x64_error st ''unexpected Stmt1 operation'')"

text \<open>\<open>simplify_assign\<close> for a sum, a call and any other tuple; the overloads for unary and binary operators give back the
  statement they are given.\<close>

definition x64_simplify_assign_tuple :: "node \<Rightarrow> node \<Rightarrow> node \<Rightarrow> node cm" where
  "x64_simplify_assign_tuple st dst src =
     (case node_opn src of
        ADDN \<Rightarrow>
          if nty dst = VAR \<and> kind_is_integer_or_ptr (nkind dst) \<and> kind_bits (nkind dst) = eBits64 then
            cbind (x64_mem_of ePtr (childrange_nodes (src, 0, children src))) (\<lambda>mem.
              if node_valid mem then making (\<lambda>f. stmt2_create f X86_LEA dst mem) else cret st)
          else cret st
      | CALL \<Rightarrow>
          cbind (making (\<lambda>f. stmtn_create f SET_ST [dst])) (\<lambda>set. cbind (making (\<lambda>f. stmtn_create f BLOCK [set])) (\<lambda>block.
            making (\<lambda>f. stmtn_create_ranges f X86_CALL1 [(src, 0, 2), (block, 0, children block), (src, 2, children src - 2)])))
      | _ \<Rightarrow> cret st)"

definition x64_assign_ops :: "opcode list" where
  "x64_assign_ops = [X86_ADD, X86_SUB, X86_MUL, X86_DIV, REM_ASSIGN, X86_AND, X86_OR, X86_XOR, X86_SHL, X86_SHR]"

definition x64_simplify_assign :: "node \<Rightarrow> node \<Rightarrow> node \<Rightarrow> node cm" where
  "x64_simplify_assign st dst src =
     (let op = nop st
      in if op \<ge> ADD_ASSIGN \<and> op \<le> SHR_ASSIGN then
           let op = x64_assign_ops ! unat (op - ADD_ASSIGN)
           in cbind (x64_to_var_mem_const src) (\<lambda>src. making (\<lambda>f. stmt2_create f op dst src))
         else if op = ASSIGN then
           (if nty src \<in> {VAR, MEM, CONSTN, LABEL} then making (\<lambda>f. stmt2_create f X86_MOV dst src)
            else if nty src = UNARY then cret st
            else if nty src = BINARY then cret st
            else if nty src = TUPLE then x64_simplify_assign_tuple st dst src
            else cthen (x64_error st ''unexpected Assign right argument'') (making (\<lambda>f. stmt2_create f op dst src)))
         else cthen (x64_error st ''unexpected Assign operation'') (making (\<lambda>f. stmt2_create f op dst src)))"

definition x64_compile_assign :: "node \<Rightarrow> unit cm" where
  "x64_compile_assign st =
     cbind (x64_simplify (as_expr (child st 1))) (\<lambda>src.
     cbind (cbind (x64_simplify (as_expr (child st 0))) x64_to_var_mem_const) (\<lambda>dst.
     cbind (if nty src = MEM \<and> nty dst = MEM then x64_to_var src else cret src) (\<lambda>src.
       cbind (x64_simplify_assign st dst src) x64_add)))"

definition x64_compile_stmt2 :: "node \<Rightarrow> unit cm" where
  "x64_compile_stmt2 st =
     (if node_valid (as_assign st) then x64_compile_assign st else x64_error st ''unexpected Stmt2'')"

definition x64_cond_jumps :: "opcode list" where
  "x64_cond_jumps = [X86_JA, X86_JAE, X86_JB, X86_JBE, X86_JE, X86_JG, X86_JGE, X86_JL, X86_JLE, X86_JNE]"

definition x64_compile_stmt3 :: "node \<Rightarrow> unit cm" where
  "x64_compile_stmt3 st =
     (let op3 = nop st
      in if op3 \<ge> ASM_JA \<and> op3 \<le> ASM_JNE then
           let op1 = x64_cond_jumps ! unat (op3 - ASM_JA); to = as_label (child st 0)
           in cbind (x64_simplify_binary (x64_simplify (as_expr (child st 1))) (x64_simplify (as_expr (child st 2)))) (\<lambda>(x, y).
                cthen (cbind (making (\<lambda>f. stmt2_create f X86_CMP x y)) x64_add)
                      (cbind (making (\<lambda>f. stmt1_create f to op1)) x64_add))
         else x64_error st ''unexpected Stmt3'')"

definition x64_compile_return :: "node \<Rightarrow> unit cm" where
  "x64_compile_return st =
     cbind (making (\<lambda>f. stmtn_create_ranges f X86_RET [(st, 0, children st)])) x64_add"

definition x64_compile_assign_call :: "node \<Rightarrow> unit cm" where
  "x64_compile_assign_call st = x64_add st"

fun ceach :: "('a \<Rightarrow> unit cm) \<Rightarrow> 'a list \<Rightarrow> unit cm" where
  "ceach g [] = cret ()"
| "ceach g (x # xs) = cthen (g x) (ceach g xs)"

lemma ceach_cong [fundef_cong]: "xs = ys \<Longrightarrow> (\<And>x. x \<in> set ys \<Longrightarrow> g x = h x) \<Longrightarrow> ceach g xs = ceach h ys"
proof (induction ys arbitrary: xs)
  case (Cons y ys)
  from Cons.IH [OF refl] Cons.prems have "ceach g ys = ceach h ys" "g y = h y" by simp_all
  then show ?case using Cons.prems(1) by simp
qed simp

text \<open>\<open>compile(Block)\<close> compiles its children in order, and \<open>compile(Node)\<close> dispatches.\<close>

fun x64_compile_node :: "node \<Rightarrow> unit cm" where
  "x64_compile_node (Node h off ind ds kids) =
     (let n = Node h off ind ds kids
      in case htype h of
           STMT_0 \<Rightarrow> x64_error n ''unexpected Stmt0''
         | STMT_1 \<Rightarrow> x64_compile_stmt1 n
         | STMT_2 \<Rightarrow> x64_compile_stmt2 n
         | STMT_3 \<Rightarrow> x64_compile_stmt3 n
         | STMT_4 \<Rightarrow> x64_error n ''unexpected Stmt4''
         | STMT_N \<Rightarrow>
             if hop h = ASSIGN_CALL then x64_compile_assign_call n
             else if hop h = BLOCK then ceach x64_compile_node kids
             else if hop h = RETURN then x64_compile_return n
             else if hop h = SET_ST then x64_add n
             else x64_error n ''unexpected StmtN''
         | _ \<Rightarrow> if node_valid (as_expr n) then x64_compile_expr (as_expr n) else x64_error n ''unexpected Node'')"

declare x64_compile_node.simps [simp del]

subsection \<open>Registers\<close>

text \<open>
  \<open>fill_interference_graph\<close> builds the flow graph, whose error goes to the errors of the compiler, and clears the bits that
  are to be the live variables; the loop over the nodes updates nothing.
\<close>

definition x64_update_live_regs :: "bitset \<Rightarrow> node \<Rightarrow> bitset" where
  "x64_update_live_regs live n = live"

definition x64_fill_interference_graph :: "flowgraph \<Rightarrow> allocator \<Rightarrow> compiler \<Rightarrow> flowgraph \<times> allocator \<times> compiler" where
  "x64_fill_interference_graph fg al c =
     (let (ok, fg1, e) = flowgraph_build (elems (emitted c)) fg;
          c1 = (case e of None \<Rightarrow> c | Some e \<Rightarrow> c\<lparr>errors := snd (arr_append (bad_node, []) (calloc c) [e] (errors c))\<rparr>)
      in if \<not> ok then (fg1, al, c1\<lparr>cgood := False\<rparr>)
         else let live = bs_fill (al_avail al) False 0 NoPos64;
                  live = foldr (\<lambda>n live. x64_update_live_regs live n) (elems (emitted c)) live
              in (fg1, al\<lparr>al_avail := live\<rparr>, c1))"

definition x64_allocate_regs ::
    "ffs_config \<Rightarrow> alloc_oracle \<Rightarrow> alloc_oracle \<Rightarrow> flowgraph \<Rightarrow> allocator \<Rightarrow> compiler \<Rightarrow> (flowgraph \<times> allocator \<times> compiler) res" where
  "x64_allocate_regs cfg ok1 ok2 fg al c =
     (let (reset, al1) = al_reset ok1 (length (fn_vars (cfn c))) al
      in if \<not> reset then Inr (fg, al1, c)
         else let (fg1, al2, c1) = x64_fill_interference_graph fg al1 c
              in rbind (looping (al_allocate_regs cfg ok2 14 al2)) (\<lambda>al3. Inr (fg1, al3, c1)))"

subsection \<open>The compiler\<close>

definition x64_finish :: "unit cm" where
  "x64_finish = cbind (cget id) (\<lambda>c.
     if compiler_ok c then
       cbind (case elems (emitted c) of [] \<Rightarrow> cret void_const | [n] \<Rightarrow> cret n
              | ns \<Rightarrow> making (\<lambda>f. stmtn_create f BLOCK ns)) (\<lambda>compiled.
         cmodify (\<lambda>c. c\<lparr>cfn := fn_set_compiled ARCH_X64 compiled (cfn c)\<rparr>))
     else cret ())"

text \<open>\<open>x64::Compiler::compile(Func)\<close>: \<open>c\<close> has the lists of the compiler, and becomes its own state.\<close>

definition x64_compile_func ::
    "ffs_config \<Rightarrow> alloc_oracle \<Rightarrow> alloc_oracle \<Rightarrow> flowgraph \<Rightarrow> allocator \<Rightarrow> fn \<Rightarrow> compiler \<Rightarrow> (flowgraph \<times> allocator \<times> compiler) res" where
  "x64_compile_func cfg ok1 ok2 fg al g c =
     (let n = fn_get_compiled NOARCH g; c0 = c\<lparr>cfn := g, emitted := arr_clear (emitted c), cgood := fn_ok g\<rparr>
      in if node_valid (fn_get_compiled ARCH_X64 g) then Inr (fg, al, c\<lparr>cfn := g\<rparr>)
         else if \<not> node_valid n then
           Inr (fg, al, c\<lparr>cfn := g, errors := snd (arr_append (bad_node, []) (calloc c)
             [(n, ''function not compiled yet, cannot materialize it for x64 arch'')] (errors c))\<rparr>)
         else rbind (x64_compile_node n c0) (\<lambda>(_, c1).
              rbind (x64_allocate_regs cfg ok1 ok2 fg al c1) (\<lambda>(fg2, al2, c2).
              rbind (x64_finish c2) (\<lambda>(_, c3). Inr (fg2, al2, c3)))))"

text \<open>
  \<open>onejit::Compiler::compile_x64\<close> gives the function too: when it is compiled already, \<open>func_\<close> stays what it was. The flag of
  \<open>x64::Compiler\<close> is lost with it.
\<close>

definition compile_x64 ::
    "ffs_config \<Rightarrow> alloc_oracle \<Rightarrow> alloc_oracle \<Rightarrow> nat \<Rightarrow> nat \<Rightarrow> u16 \<Rightarrow> flowgraph \<Rightarrow> allocator \<Rightarrow> fn \<Rightarrow> compiler \<Rightarrow>
     (fn \<times> flowgraph \<times> allocator \<times> compiler) res" where
  "compile_x64 cfg ok1 ok2 m k flags fg al g c =
     rbind (compile_func m k flags g c) (\<lambda>(_, c1).
       let again = node_valid (fn_get_compiled NOARCH g); g1 = (if again then g else cfn c1)
       in if compiler_ok c1 \<and> elems (errors c1) = [] then
            rbind (x64_compile_func cfg ok1 ok2 fg al g1 c1) (\<lambda>(fg2, al2, c2).
              Inr (cfn c2, fg2, al2, c2\<lparr>cfn := if again then cfn c1 else cfn c2, cgood := cgood c1\<rparr>))
          else Inr (g1, fg, al, c1))"

end
