(* ===== verification/X64_Steps.thy ===== *)
theory X64_Steps imports X64_Compiler Optimizer_Returns begin

text \<open>
  A logic for the compiler to x86_64. \<open>step c c'\<close> is what every computation does to the state; \<open>gives c m Q\<close> says that when a
  computation returns, memory and identifiers lasted and no error was reported, its result and state satisfy \<open>Q\<close>.
\<close>

subsection \<open>States\<close>

abbreviation cf :: "compiler \<Rightarrow> func" where "cf c \<equiv> fn_f (cfn c)"

definition nvars :: "compiler \<Rightarrow> nat" where "nvars c = length (elems (fvars (cf c)))"
definition nerrs :: "compiler \<Rightarrow> nat" where "nerrs c = length (elems (errors c))"

text \<open>The code has less than \<open>2 ^ 32\<close> bytes and the list of variables can grow.\<close>

definition inv :: "compiler \<Rightarrow> bool" where
  "inv c \<longleftrightarrow> bounded (cf c) \<and> (\<forall>n. alloc_vars (cf c) n)"

definition qok :: "compiler \<Rightarrow> bool" where
  "qok c \<longleftrightarrow> cgood c \<and> good (fcode (cf c)) \<and> nvars c + id_first < 2 ^ 24"

definition step :: "compiler \<Rightarrow> compiler \<Rightarrow> bool" where
  "step c c' \<longleftrightarrow> inv c' \<and> grows (cf c) (cf c') \<and> nvars c \<le> nvars c' \<and> nerrs c \<le> nerrs c' \<and>
     (\<exists>new. elems (emitted c') = elems (emitted c) @ new) \<and> (qok c' \<longrightarrow> qok c)"

lemma step_refl: "inv c \<Longrightarrow> step c c"
  by (simp add: step_def inv_def grows_refl)

lemma step_trans: "step c d \<Longrightarrow> step d e \<Longrightarrow> step c e"
  using grows_trans [of "cf c" "cf d" "cf e"] by (auto simp: step_def)

definition steps :: "'a cm \<Rightarrow> bool" where
  "steps m \<longleftrightarrow> (\<forall>c x c'. inv c \<longrightarrow> m c = Inr (x, c') \<longrightarrow> step c c')"

lemma stepsD: "steps m \<Longrightarrow> inv c \<Longrightarrow> m c = Inr (x, c') \<Longrightarrow> step c c'"
  by (simp add: steps_def)

lemma step_inv: "step c c' \<Longrightarrow> inv c'"
  by (simp add: step_def)

named_theorems stepping

lemma steps_ret [stepping]: "steps (cret x)"
  by (simp add: steps_def cret_def step_refl)

lemma cbind_Inr: "cbind m k c = Inr (y, c2) \<longleftrightarrow> (\<exists>x c1. m c = Inr (x, c1) \<and> k x c1 = Inr (y, c2))"
  by (auto simp: cbind_def rbind_def split: sum.splits)

lemma cthen_Inr: "cthen m k c = Inr (y, c2) \<longleftrightarrow> (\<exists>c1. m c = Inr ((), c1) \<and> k c1 = Inr (y, c2))"
  by (auto simp: cthen_def cbind_Inr)

lemma steps_bind [stepping]:
  assumes "steps m" "\<And>x. steps (k x)"
  shows "steps (cbind m k)"
  unfolding steps_def cbind_Inr
proof (intro allI impI, elim exE conjE)
  fix c y c2 x c1
  assume "inv c" "m c = Inr (x, c1)" "k x c1 = Inr (y, c2)"
  with stepsD [OF assms(1)] stepsD [OF assms(2)] step_inv show "step c c2" by (meson step_trans)
qed

lemma steps_then [stepping]: "steps m \<Longrightarrow> steps k \<Longrightarrow> steps (cthen m k)"
  unfolding cthen_def by (rule steps_bind)

lemma steps_if [stepping]: "steps m \<Longrightarrow> steps k \<Longrightarrow> steps (if b then m else k)"
  by simp

lemma steps_prod [stepping]: "(\<And>x y. steps (f x y)) \<Longrightarrow> steps (case p of (x, y) \<Rightarrow> f x y)"
  by (cases p) simp

lemma steps_get [stepping]: "steps (cget g)"
  by (simp add: steps_def cget_def step_refl)

lemma steps_cmap [stepping]: "(\<And>x. x \<in> set xs \<Longrightarrow> steps (g x)) \<Longrightarrow> steps (cmap g xs)"
  by (induction xs) (auto intro!: stepping)

lemma steps_ceach [stepping]: "(\<And>x. x \<in> set xs \<Longrightarrow> steps (g x)) \<Longrightarrow> steps (ceach g xs)"
  by (induction xs) (auto intro!: stepping)

subsection \<open>Nodes, variables and errors\<close>

lemma steps_add [stepping]: "steps (x64_add n)"
  unfolding steps_def x64_add_def out_node_def cmodify_def
proof (intro allI impI)
  fix c x c'
  assume i: "inv c" and c': "Inr ((), if node_same n void_const then c
     else if cgood c then let (ok, ns) = arr_append bad_node (calloc c) [n] (emitted c) in c\<lparr>emitted := ns, cgood := ok\<rparr> else c) = Inr (x, c')"
  obtain ok ns where a: "arr_append bad_node (calloc c) [n] (emitted c) = (ok, ns)" by force
  have e: "elems ns = elems (emitted c) @ (if ok then [n] else [])"
    using a arr_append_cases [of bad_node "calloc c" "[n]" "emitted c"] by (auto split: if_splits)
  show "step c c'"
    using c' i e by (auto simp: a step_refl step_def inv_def grows_refl nvars_def nerrs_def qok_def split: if_splits)
qed

lemma error_state:
  "x64_error n msg c = Inr ((), c') \<Longrightarrow> inv c \<Longrightarrow> step c c' \<and> (qok c' \<longrightarrow> nerrs c' > nerrs c)"
proof -
  assume i: "inv c" and c': "x64_error n msg c = Inr ((), c')"
  obtain ok ns where a: "arr_append (bad_node, []) (calloc c) [(n, msg)] (errors c) = (ok, ns)" by force
  have e: "elems ns = elems (errors c) @ (if ok then [(n, msg)] else [])"
    using a arr_append_cases [of "(bad_node, [])" "calloc c" "[(n, msg)]" "errors c"] by (auto split: if_splits)
  show ?thesis
    using c' i e by (auto simp: x64_error_def out_error_def cmodify_def a step_refl step_def inv_def grows_refl nvars_def nerrs_def qok_def
        split: if_splits)
qed

lemma steps_error [stepping]: "steps (x64_error n msg)"
  using error_state by (simp add: steps_def)

lemma steps_oom [stepping]: "steps (x64_out_of_memory n)"
proof -
  have "steps (cmodify (\<lambda>c. c\<lparr>cgood := False\<rparr>))"
    by (auto simp: steps_def cmodify_def step_def inv_def grows_refl nvars_def nerrs_def qok_def)
  then show ?thesis
    using steps_error unfolding x64_out_of_memory_def out_of_memory_def x64_error_def by (intro stepping)
qed

text \<open>Creating nodes.\<close>

definition creates :: "(func \<Rightarrow> (func \<times> node) option) \<Rightarrow> bool" where
  "creates g \<longleftrightarrow> (\<forall>f f' n. bounded f \<longrightarrow> g f = Some (f', n) \<longrightarrow> grows f f' \<and> fvars f' = fvars f \<and> alloc_vars f' = alloc_vars f \<and>
     (good (fcode f') \<longrightarrow> good (fcode f)))"

lemma set_func_simps [simp]:
  "cf (set_func f c) = f" "emitted (set_func f c) = emitted c" "errors (set_func f c) = errors c" "cgood (set_func f c) = cgood c"
  "calloc (set_func f c) = calloc c"
  by (simp_all add: set_func_def)

lemma making_Inr: "making g c = Inr (x, c') \<longleftrightarrow> (\<exists>f'. g (cf c) = Some (f', x) \<and> c' = set_func f' c)"
  by (auto simp: making_def rbind_Inr from_option_def split: option.splits)

lemma step_set_func:
  assumes "inv c" "grows (cf c) f" "fvars f = fvars (cf c)" "alloc_vars f = alloc_vars (cf c)" "good (fcode f) \<longrightarrow> good (fcode (cf c))"
  shows "step c (set_func f c)"
  using assms by (simp add: step_def inv_def nvars_def nerrs_def qok_def) (simp add: grows_def)

lemma steps_making [stepping]: "creates g \<Longrightarrow> steps (making g)"
  unfolding steps_def making_Inr
proof (intro allI impI, elim exE conjE)
  fix c x c' f'
  assume "creates g" "inv c" "g (cf c) = Some (f', x)" "c' = set_func f' c"
  then show "step c c'" unfolding creates_def inv_def by (metis step_set_func inv_def)
qed

lemma create_facts:
  assumes "create_indirect f h kids = Some (f', n)" "bounded f"
  shows "grows f f'" "fvars f' = fvars f" "alloc_vars f' = alloc_vars f" "good (fcode f') \<longrightarrow> good (fcode f)"
    "length kids < 2 ^ 32 \<Longrightarrow> good (fcode f') \<Longrightarrow> n = Node h (code_length (fcode f)) True [] kids"
proof -
  note c = create_indirect_cases [OF assms(1) bounded_small [OF assms(2)]] and b = create_indirect_bounded [OF assms]
  from c b show "grows f f'" by (auto simp: grows_def)
  from c have f: "f' = f\<lparr>fcode := fcode f'\<rparr>" by blast
  show "fvars f' = fvars f" "alloc_vars f' = alloc_vars f" by (subst f, simp)+
  from c show "length kids < 2 ^ 32 \<Longrightarrow> good (fcode f') \<Longrightarrow> n = Node h (code_length (fcode f)) True [] kids" by blast
  show "good (fcode f') \<longrightarrow> good (fcode f)"
  proof (cases "length kids < 2 ^ 32")
    case True
    with c show ?thesis by blast
  next
    case False
    with assms(1) show ?thesis by (simp add: create_indirect_def)
  qed
qed

lemma creates_indirect [stepping]: "creates (\<lambda>f. create_indirect f h kids)"
  using create_facts unfolding creates_def by blast

lemma creates_nodes [stepping]:
  "creates (\<lambda>f. stmt1_create f x op)" "creates (\<lambda>f. stmt2_create f op x y)" "creates (\<lambda>f. stmtn_create f op ns)"
  "creates (\<lambda>f. unary_create_kind f k o1 x)" "creates (\<lambda>f. binary_create f o2 x y)" "creates (\<lambda>f. tuple_create f k on ns)"
  "creates (\<lambda>f. mem_create f k on ns)"
  unfolding stmt1_create_def stmt2_create_def stmtn_create_def unary_create_kind_def binary_create_def tuple_create_def mem_create_def
  by (rule creates_indirect)+

text \<open>A leaf with its data.\<close>

lemma leaf_facts:
  fixes f :: func and h :: header and data :: "u32 list"
  assumes "bounded f"
  defines "c2 \<equiv> (if good (code_add_header (alloc_code f) h (fcode f)) then code_add_items (alloc_code f) data (code_add_header (alloc_code f) h (fcode f))
      else code_add_header (alloc_code f) h (fcode f))"
  shows "good c2 \<Longrightarrow> grows f (f\<lparr>fcode := c2\<rparr>) \<and> good (fcode f)"
    "\<not> good c2 \<Longrightarrow> grows f (f\<lparr>fcode := code_truncate (code_length (fcode f)) c2\<rparr>) \<and>
       \<not> good (code_truncate (code_length (fcode f)) c2)"
proof -
  have a: "adds (header_item h # data) (fcode f) c2" unfolding c2_def by (rule adds_leaf)
  have b: "code_bounded (alloc_code f) c2"
    using assms(1) unfolding c2_def bounded_code
    by (simp add: code_add_header_def code_add_item_def code_bounded_add)
  show "good c2 \<Longrightarrow> grows f (f\<lparr>fcode := c2\<rparr>) \<and> good (fcode f)"
    using a b by (auto simp: grows_def bounded_code adds_def)
  show "\<not> good c2 \<Longrightarrow> grows f (f\<lparr>fcode := code_truncate (code_length (fcode f)) c2\<rparr>) \<and>
       \<not> good (code_truncate (code_length (fcode f)) c2)"
    using code_truncate_restores [OF a bounded_small [OF assms(1)]] code_bounded_truncate [OF b]
    by (auto simp: grows_def bounded_code)
qed

lemma const_facts:
  assumes "const_create f v = (f', n)" "bounded f"
  shows "grows f f'" "fvars f' = fvars f" "alloc_vars f' = alloc_vars f" "good (fcode f') \<longrightarrow> good (fcode f)"
    "val_is_valid v \<Longrightarrow> good (fcode f') \<Longrightarrow> node_valid n"
proof -
  note l = leaf_facts [OF assms(2), of "const_header (vkind v)" "imm_write_indirect v"]
  show "grows f f'" "fvars f' = fvars f" "alloc_vars f' = alloc_vars f" "good (fcode f') \<longrightarrow> good (fcode f)"
    "val_is_valid v \<Longrightarrow> good (fcode f') \<Longrightarrow> node_valid n"
    using assms l grows_refl [OF assms(2)]
    by (auto simp: const_create_def Let_def node_valid_def header_valid_def const_header_def val_is_valid_def split: if_splits)
qed

definition var_at :: "func \<Rightarrow> u32 \<Rightarrow> node" where
  "var_at f l = (if local_is_direct l then var_direct l else Node (var_header (local_kind l)) (code_length (fcode f)) True [local_indirect l] [])"

lemma var_facts:
  assumes "var_create f l = (f', n)" "bounded f"
  shows "grows f f'" "fvars f' = fvars f" "alloc_vars f' = alloc_vars f" "good (fcode f') \<longrightarrow> good (fcode f)"
    "good (fcode f') \<Longrightarrow> n = var_at f l"
proof -
  note l = leaf_facts [OF assms(2), of "var_header (local_kind l)" "[local_indirect l]"]
  show "grows f f'" "fvars f' = fvars f" "alloc_vars f' = alloc_vars f" "good (fcode f') \<longrightarrow> good (fcode f)"
    "good (fcode f') \<Longrightarrow> n = var_at f l"
    using assms l grows_refl [OF assms(2)] unfolding var_at_def
    by (auto simp: var_create_def Let_def code_add_item_def split: if_splits)
qed

lemma var_at_fields [simp]:
  "nty (var_at f l) = VAR" "nkind (var_at f l) = local_kind l" "nkids (var_at f l) = []" "node_local (var_at f l) = l"
  using local_direct_round_trip [of l] local_indirect_round_trip [of l]
  by (auto simp: var_at_def var_direct_def var_header_def node_local_def)

text \<open>The local of the next variable.\<close>

definition next_local :: "nat \<Rightarrow> kind \<Rightarrow> u32" where
  "next_local n k = local_make k (id_make (of_nat (n + id_first)))"

lemma id_make_small:
  assumes "n < 2 ^ 24" shows "unat (id_make (of_nat n)) = n" "id_make (of_nat n) < 2 ^ 24"
proof -
  have "id_make (of_nat n) = take_bit 24 (of_nat n)"
    by (simp add: id_make_def take_bit_eq_mask mask_eq_exp_minus_1)
  moreover have "unat (take_bit 24 (of_nat n :: u32)) = n"
    using assms by (simp add: unsigned_take_bit_eq unat_of_nat take_bit_nat_eq_self)
  ultimately show "unat (id_make (of_nat n)) = n" "id_make (of_nat n) < 2 ^ 24"
    using assms by (simp_all add: word_less_nat_alt)
qed

lemma next_local_fields:
  assumes "n + id_first < 2 ^ 24"
  shows "local_kind (next_local n k) = k" "unat (local_id (next_local n k)) = n + id_first"
  using local_make_fields [OF id_make_small(2) [OF assms], of k] id_make_small(1) [OF assms] by (simp_all add: next_local_def)

lemma new_var_facts:
  assumes "func_new_var f k = (f', v)" "bounded f" "\<forall>n. alloc_vars f n"
  shows "grows f f'" "length (elems (fvars f)) \<le> length (elems (fvars f'))" "alloc_vars f' = alloc_vars f"
    "good (fcode f') \<longrightarrow> good (fcode f)"
    "\<lbrakk>good (fcode f'); length (elems (fvars f')) + id_first < 2 ^ 24; eVoid < k\<rbrakk> \<Longrightarrow>
       v = var_at f (next_local (length (elems (fvars f))) k) \<and> length (elems (fvars f')) = Suc (length (elems (fvars f)))"
proof -
  let ?n = "length (elems (fvars f)) + id_first" and ?l = "local_make k (if k = eVoid then 0 else id_make (of_nat (length (elems (fvars f)) + id_first)))"
  have k: "eVoid < k \<Longrightarrow> k \<noteq> eBad \<and> k \<noteq> eVoid" by auto
  obtain f1 w where w: "var_create f ?l = (f1, w)" by force
  note vf = var_facts [OF w assms(2)]
  obtain vs where vs: "arr_append bad_node (alloc_vars f1) [w] (fvars f1) = (True, vs)" "elems vs = elems (fvars f) @ [w]"
    using arr_append_grows [of "alloc_vars f1"] arr_append_success [of bad_node "alloc_vars f1" "[w]" "fvars f1"] assms(3) vf(2,3)
    by (metis prod.collapse)
  have f': "(f', v) = (if k \<noteq> eBad \<and> (k = eVoid \<or> unat (id_make (of_nat ?n)) = ?n)
      then if node_valid w then (f1\<lparr>fvars := vs\<rparr>, w) else (f1, bad_node) else (f, bad_node))"
    using assms(1) w vs unfolding func_new_var_def Let_def by (auto split: if_splits)
  have g: "grows f (f1\<lparr>fvars := vs\<rparr>)" using vf(1) by (auto simp: grows_def bounded_def)
  show "grows f f'" "length (elems (fvars f)) \<le> length (elems (fvars f'))" "alloc_vars f' = alloc_vars f"
    "good (fcode f') \<longrightarrow> good (fcode f)"
    using f' g vf(1-4) vs(2) grows_refl [OF assms(2)] by (auto split: if_splits)
  show "v = var_at f (next_local (length (elems (fvars f))) k) \<and> length (elems (fvars f')) = Suc (length (elems (fvars f)))"
    if q: "good (fcode f')" "length (elems (fvars f')) + id_first < 2 ^ 24" "eVoid < k"
  proof -
    have "?n < 2 ^ 24" using q(2) \<open>length (elems (fvars f)) \<le> length (elems (fvars f'))\<close> by linarith
    note id = id_make_small [OF this] and nl = next_local_fields(1) [OF this, of k]
    have gf: "good (fcode f1)" using f' q id k by (auto split: if_splits)
    have w': "w = var_at f (next_local (length (elems (fvars f))) k)" using vf(5) [OF gf] k [OF q(3)] by (simp add: next_local_def)
    have "node_valid w" unfolding w' using k [OF q(3)] by (simp add: node_valid_def header_valid_def nl)
    then show ?thesis using f' id k [OF q(3)] w' vs(2) by auto
  qed
qed

subsection \<open>The functions of the compiler are steps\<close>

lemma steps_new_var [stepping]: "steps (new_var k)"
  unfolding steps_def
proof (intro allI impI)
  fix c x c'
  assume i: "inv c" and m: "new_var k c = Inr (x, c')"
  obtain f' v where v: "func_new_var (cf c) k = (f', v)" by force
  then have c': "c' = set_func f' c" using m by (auto simp: new_var_def infunc_def)
  show "step c c'"
    using new_var_facts [OF v] i unfolding c' by (auto simp: step_def inv_def nvars_def nerrs_def qok_def grows_def)
qed

lemma creates_const: "creates (\<lambda>f. Some (const_create f v))"
  using const_facts unfolding creates_def by blast

lemma creates_mem [stepping]: "creates (\<lambda>f. x64_mem_create f k a)"
  unfolding creates_def
proof (intro allI impI)
  fix f f' n
  assume b: "bounded f" and m: "x64_mem_create f k a = Some (f', n)"
  define r where "r = (if ad_offset a \<noteq> 0 then const_create f (mk_val eInt32 (scast (ad_offset a))) else (f, bad_node))"
  obtain f1 c where r1: "r = (f1, c)" by force
  have 1: "grows f f1 \<and> fvars f1 = fvars f \<and> alloc_vars f1 = alloc_vars f \<and> (good (fcode f1) \<longrightarrow> good (fcode f))"
    using r1 b const_facts [of f "mk_val eInt32 (scast (ad_offset a))" f1 c] by (auto simp: r_def grows_refl split: if_splits)
  then have b1: "bounded f1" by (simp add: grows_def)
  obtain args len where al: "mem_args c a = (args, len)" by force
  have cr: "(f', n) = (f1, bad_node) \<or> create_indirect f1 (mk_header MEM k (opn_code X86_MEM)) (take len args) = Some (f', n)"
    using m r1 al by (auto simp: x64_mem_create_def mem_create_def r_def Let_def split: if_splits)
  have "grows f1 f' \<and> fvars f' = fvars f1 \<and> alloc_vars f' = alloc_vars f1 \<and> (good (fcode f') \<longrightarrow> good (fcode f1))"
    using cr create_facts(1-4) [OF _ b1, of "mk_header MEM k (opn_code X86_MEM)" "take len args" f' n] grows_refl [OF b1] by blast
  then show "grows f f' \<and> fvars f' = fvars f \<and> alloc_vars f' = alloc_vars f \<and> (good (fcode f') \<longrightarrow> good (fcode f))"
    using 1 grows_trans [of f f1 f'] by simp
qed

lemma creates_ranges [stepping]: "creates (\<lambda>f. stmtn_create_ranges f op rs)"
proof -
  have e: "stmtn_create_ranges f op rs = (if length (concat (map childrange_nodes rs)) < 2 ^ 32
      then create_indirect f (mk_header STMT_N eVoid op) (concat (map childrange_nodes rs)) else None)" for f
    by (simp add: stmtn_create_ranges_def create_indirect_from_ranges_def create_indirect_def is_list_type_def Let_def)
  show ?thesis using creates_indirect unfolding creates_def e by (auto split: if_splits)
qed

lemma steps_to_var [stepping]: "steps (x64_to_var e)"
  unfolding x64_to_var_def assign_node_def Let_def by (intro stepping)

lemma steps_to_var_const [stepping]: "steps (x64_to_var_const e)" "steps (x64_to_var_mem_const e)"
  unfolding x64_to_var_const_def x64_to_var_mem_const_def by (intro stepping)+

lemma steps_insert [stepping]: "steps (address_insert a n)"
proof -
  have "steps (address_fallback a e)" for e unfolding address_fallback_def by (intro stepping)
  moreover from this have "steps (address_insert_product a e)" for e
    unfolding address_insert_product_def Let_def by (intro stepping)
  ultimately show ?thesis
    by (auto simp: address_insert_def Let_def intro!: stepping split: ntype.splits)
qed

lemma steps_inserts [stepping]: "steps (address_inserts a ns)"
  by (induction ns arbitrary: a) (auto intro!: stepping)

lemma steps_mem_of [stepping]: "steps (x64_mem_of k ns)"
  unfolding x64_mem_of_def by (intro stepping)

lemma steps_sum [stepping]: "steps (x64_sum_node ns)"
  unfolding x64_sum_node_def x64_simplify_tuple_def by (intro stepping)

lemma steps_mem_loop [stepping]: "steps (x64_mem_loop e i a ns)"
proof (induction e i a ns rule: x64_mem_loop.induct)
  case (1 e i a ns)
  show ?case
    by (subst x64_mem_loop.simps) (auto intro!: stepping dest: 1)
qed

lemma steps_unary [stepping]: "steps (x64_simplify_unary e x)"
  unfolding x64_simplify_unary_def by (intro stepping)

lemma steps_binary [stepping]: "steps sx \<Longrightarrow> steps sy \<Longrightarrow> steps (x64_simplify_binary sx sy)"
  unfolding x64_simplify_binary_def x64_one_memory_def by (intro stepping)

lemma steps_kid: "(\<And>x. x \<in> set xs \<Longrightarrow> steps (g x)) \<Longrightarrow> steps b \<Longrightarrow> steps (case xs of x # _ \<Rightarrow> g x | [] \<Rightarrow> b)"
  "(\<And>x. x \<in> set xs \<Longrightarrow> steps (g x)) \<Longrightarrow> steps b \<Longrightarrow> steps (case xs of _ # y # _ \<Rightarrow> g y | _ \<Rightarrow> b)"
  by (auto split: list.splits)

lemma steps_simplify [stepping]: "steps (x64_simplify e)"
proof (induction e)
  case (Node h off ind ds kids)
  let ?bad = "cthen (x64_error bad_node ''unexpected Expr'') (cret bad_node)"
  let ?g = "\<lambda>x. if is_expr_type (nty x) then x64_simplify x else ?bad"
  have bad: "steps ?bad" by (intro stepping)
  have g: "steps (?g x)" if "x \<in> set kids" for x using Node.IH [OF that] bad by simp
  note k = steps_kid(1) [of kids ?g, OF g bad] steps_kid(2) [of kids ?g, OF g bad]
  show ?case
    unfolding x64_simplify.simps Let_def x64_simplify_tuple_def
    by (cases "htype h") (auto intro!: stepping k g)
qed

lemma steps_assign [stepping]: "steps (x64_compile_assign st)"
  unfolding x64_compile_assign_def x64_simplify_assign_def x64_simplify_assign_tuple_def Let_def
  by (auto intro!: stepping split: opn.splits)

lemma steps_stmt3 [stepping]: "steps (x64_compile_stmt3 st)"
  unfolding x64_compile_stmt3_def Let_def by (auto intro!: stepping)

end
