(* ===== verification/X64_Values.thy ===== *)
theory X64_Values imports X64_Steps begin

text \<open>
  The meaning of expressions, of memory operands and of the assignments the compiler to x86_64 emits, and the judgement
  that a computation of the compiler gives an expression of the same value.
\<close>

subsection \<open>Meaning\<close>

text \<open>
  \<open>ld k a\<close> is the value of kind \<open>k\<close> in memory at \<open>a\<close>, \<open>la\<close> the address of a label. A variable of 64 bits is a register, a
  narrower value is extended to 64 bits in it. A memory operand of the code before is at the sum of its arguments, one of
  x86_64 at label + base + index * factor + offset.
\<close>

type_synonym memory = "kind \<Rightarrow> u64 \<Rightarrow> val"
type_synonym labels = "node \<Rightarrow> u64"

definition mem_value :: "labels \<Rightarrow> env \<Rightarrow> node \<Rightarrow> u64" where
  "mem_value la env m =
     (if node_valid (mem_label m) then la (mem_label m) else 0) +
     (if local_valid (mem_base m) then vbits (env (mem_base m)) else 0) +
     (if local_valid (mem_index m) then vbits (env (mem_index m)) * ucast (scale_val (mem_scale m)) else 0) + scast (mem_offset m)"

fun xev :: "memory \<Rightarrow> labels \<Rightarrow> env \<Rightarrow> node \<Rightarrow> val option" where
  "xev ld la env (Node h off ind d ks) =
     (let n = Node h off ind d ks; rs = map (xev ld la env) ks
      in case htype h of
           VAR \<Rightarrow> Some (env (node_local n))
         | CONSTN \<Rightarrow> Some (const_val n)
         | LABEL \<Rightarrow> Some (mk_val ePtr (la n))
         | UNARY \<Rightarrow> Option.bind (arg1 rs) (eval_unary_op (hkind h) (node_op1 n))
         | BINARY \<Rightarrow> Option.bind (arg1 rs) (\<lambda>x. Option.bind (arg2 rs) (eval_binary_op (node_op2 n) x))
         | TUPLE \<Rightarrow> Option.bind (those rs) (\<lambda>vs.
             if hkind h = ePtr \<and> node_opn n = ADDN then Some (mk_val ePtr (sum_list (map vbits vs)))
             else eval_tuple_op (hkind h) (node_opn n) vs)
         | MEM \<Rightarrow>
             if hop h = opn_code X86_MEM then Some (ld (hkind h) (mem_value la env n))
             else map_option (\<lambda>vs. ld (hkind h) (sum_list (map vbits vs))) (those rs)
         | _ \<Rightarrow> None)"

declare xev.simps [simp del]

text \<open>A source expression: as \<open>wk\<close>, without the operators \<open>&&\<close> and \<open>||\<close>, which are jumps already, and with memory operands
  whose arguments have 64 bits, or are a label.\<close>

fun xwk :: "node \<Rightarrow> bool" where
  "xwk (Node h off ind d ks) \<longleftrightarrow>
     (let n = Node h off ind d ks
      in int_kind (hkind h) \<and> eVoid < hkind h \<and>
         (case htype h of
            VAR \<Rightarrow> ks = [] \<and> local_kind (node_local n) = hkind h
          | CONSTN \<Rightarrow> ks = [] \<and> vkind (const_val n) = hkind h \<and> canonical (const_val n)
          | UNARY \<Rightarrow> length ks = 1 \<and> list_all xwk ks \<and> wk_unary (node_op1 n) (hkind h) (nkind (ks ! 0))
          | BINARY \<Rightarrow> length ks = 2 \<and> list_all xwk ks \<and> nkind (ks ! 1) = nkind (ks ! 0) \<and>
              wk_binary (node_op2 n) (hkind h) (nkind (ks ! 0)) \<and> node_op2 n \<noteq> LAND \<and> node_op2 n \<noteq> LOR
          | TUPLE \<Rightarrow> foldable (hkind h) (node_opn n) \<and> list_all (\<lambda>c. xwk c \<and> nkind c = hkind h) ks
          | MEM \<Rightarrow> hop h \<noteq> opn_code X86_MEM \<and> length (filter (\<lambda>c. nty c = LABEL) ks) \<le> 1 \<and>
              list_all (\<lambda>c. if nty c = LABEL then node_valid c \<and> nkids c = [] else xwk c \<and> kind_bitsize (nkind c) = 64) ks
          | _ \<Rightarrow> False))"

declare xwk.simps [simp del]

text \<open>Executing the statements the compiler emits for expressions and assignments to variables.\<close>

definition x86_op :: "opcode \<Rightarrow> val \<Rightarrow> val \<Rightarrow> val option" where
  "x86_op op = (if op = X86_ADD then val_add else if op = X86_SUB then val_sub else if op = X86_AND then val_and
     else if op = X86_OR then val_or else if op = X86_XOR then val_xor else (\<lambda>_ _. None))"

definition xexec :: "memory \<Rightarrow> labels \<Rightarrow> env \<Rightarrow> node \<Rightarrow> env option" where
  "xexec ld la env st =
     (let dst = child st 0; src = child st 1; l = node_local dst
      in if nty st \<noteq> STMT_2 \<or> children st \<noteq> 2 \<or> nty dst \<noteq> VAR then None
         else if nop st = ASSIGN \<or> nop st = X86_MOV then map_option (\<lambda>v. env(l := v)) (xev ld la env src)
         else if nop st = X86_LEA then Some (env(l := mk_val (nkind dst) (mem_value la env src)))
         else Option.bind (xev ld la env src) (\<lambda>v. map_option (\<lambda>w. env(l := w)) (x86_op (nop st) (env l) v)))"

fun xrun :: "memory \<Rightarrow> labels \<Rightarrow> env \<Rightarrow> node list \<Rightarrow> env option" where
  "xrun ld la env [] = Some env"
| "xrun ld la env (st # sts) = Option.bind (xexec ld la env st) (\<lambda>env. xrun ld la env sts)"

lemma xrun_append: "xrun ld la env (xs @ ys) = Option.bind (xrun ld la env xs) (\<lambda>env. xrun ld la env ys)"
proof (induction xs arbitrary: env)
  case (Cons x xs)
  then show ?case by (cases "xexec ld la env x") simp_all
qed simp

definition memory_ok :: "memory \<Rightarrow> bool" where
  "memory_ok ld \<longleftrightarrow> (\<forall>k a. vkind (ld k a) = k \<and> (int_kind k \<longrightarrow> canonical (ld k a)))"

lemma xev_eq:
  "xev ld la env n =
     (let rs = map (xev ld la env) (nkids n)
      in case nty n of
           VAR \<Rightarrow> Some (env (node_local n))
         | CONSTN \<Rightarrow> Some (const_val n)
         | LABEL \<Rightarrow> Some (mk_val ePtr (la n))
         | UNARY \<Rightarrow> Option.bind (arg1 rs) (eval_unary_op (nkind n) (node_op1 n))
         | BINARY \<Rightarrow> Option.bind (arg1 rs) (\<lambda>x. Option.bind (arg2 rs) (eval_binary_op (node_op2 n) x))
         | TUPLE \<Rightarrow> Option.bind (those rs) (\<lambda>vs.
             if nkind n = ePtr \<and> node_opn n = ADDN then Some (mk_val ePtr (sum_list (map vbits vs)))
             else eval_tuple_op (nkind n) (node_opn n) vs)
         | MEM \<Rightarrow>
             if nop n = opn_code X86_MEM then Some (ld (nkind n) (mem_value la env n))
             else map_option (\<lambda>vs. ld (nkind n) (sum_list (map vbits vs))) (those rs)
         | _ \<Rightarrow> None)"
  by (cases n) (simp only: xev.simps Let_def node.sel)

lemma xev_eqs:
  "nty n = VAR \<Longrightarrow> xev ld la env n = Some (env (node_local n))"
  "nty n = CONSTN \<Longrightarrow> xev ld la env n = Some (const_val n)"
  "nty n = LABEL \<Longrightarrow> xev ld la env n = Some (mk_val ePtr (la n))"
  "nty n = UNARY \<Longrightarrow> nkids n = [x] \<Longrightarrow> xev ld la env n = Option.bind (xev ld la env x) (eval_unary_op (nkind n) (node_op1 n))"
  "nty n = BINARY \<Longrightarrow> nkids n = [x, y] \<Longrightarrow>
    xev ld la env n = Option.bind (xev ld la env x) (\<lambda>v. Option.bind (xev ld la env y) (eval_binary_op (node_op2 n) v))"
  "nty n = TUPLE \<Longrightarrow> xev ld la env n = Option.bind (those (map (xev ld la env) (nkids n))) (\<lambda>vs.
     if nkind n = ePtr \<and> node_opn n = ADDN then Some (mk_val ePtr (sum_list (map vbits vs))) else eval_tuple_op (nkind n) (node_opn n) vs)"
  "nty n = MEM \<Longrightarrow> nop n = opn_code X86_MEM \<Longrightarrow> xev ld la env n = Some (ld (nkind n) (mem_value la env n))"
  "nty n = MEM \<Longrightarrow> nop n \<noteq> opn_code X86_MEM \<Longrightarrow>
     xev ld la env n = map_option (\<lambda>vs. ld (nkind n) (sum_list (map vbits vs))) (those (map (xev ld la env) (nkids n)))"
  by (subst xev_eq; simp)+

lemma xwk_eq:
  "xwk n \<longleftrightarrow> int_kind (nkind n) \<and> eVoid < nkind n \<and>
     (case nty n of
        VAR \<Rightarrow> nkids n = [] \<and> local_kind (node_local n) = nkind n
      | CONSTN \<Rightarrow> nkids n = [] \<and> vkind (const_val n) = nkind n \<and> canonical (const_val n)
      | UNARY \<Rightarrow> length (nkids n) = 1 \<and> list_all xwk (nkids n) \<and> wk_unary (node_op1 n) (nkind n) (nkind (nkids n ! 0))
      | BINARY \<Rightarrow> length (nkids n) = 2 \<and> list_all xwk (nkids n) \<and> nkind (nkids n ! 1) = nkind (nkids n ! 0) \<and>
          wk_binary (node_op2 n) (nkind n) (nkind (nkids n ! 0)) \<and> node_op2 n \<noteq> LAND \<and> node_op2 n \<noteq> LOR
      | TUPLE \<Rightarrow> foldable (nkind n) (node_opn n) \<and> list_all (\<lambda>c. xwk c \<and> nkind c = nkind n) (nkids n)
      | MEM \<Rightarrow> nop n \<noteq> opn_code X86_MEM \<and> length (filter (\<lambda>c. nty c = LABEL) (nkids n)) \<le> 1 \<and>
          list_all (\<lambda>c. if nty c = LABEL then node_valid c \<and> nkids c = [] else xwk c \<and> kind_bitsize (nkind c) = 64) (nkids n)
      | _ \<Rightarrow> False)"
  by (cases n) (simp only: xwk.simps Let_def node.sel)

lemma xwk_cases [consumes 1, case_names VAR CONST UNARY BINARY TUPLE MEM]:
  assumes "xwk n"
  obtains "nty n = VAR" "nkids n = []" "local_kind (node_local n) = nkind n"
  | "nty n = CONSTN" "nkids n = []" "vkind (const_val n) = nkind n" "canonical (const_val n)"
  | x where "nty n = UNARY" "nkids n = [x]" "xwk x" "wk_unary (node_op1 n) (nkind n) (nkind x)"
  | x y where "nty n = BINARY" "nkids n = [x, y]" "xwk x" "xwk y" "nkind y = nkind x"
      "wk_binary (node_op2 n) (nkind n) (nkind x)" "node_op2 n \<noteq> LAND" "node_op2 n \<noteq> LOR"
  | "nty n = TUPLE" "foldable (nkind n) (node_opn n)" "\<And>x. x \<in> set (nkids n) \<Longrightarrow> xwk x \<and> nkind x = nkind n"
  | "nty n = MEM" "nop n \<noteq> opn_code X86_MEM" "length (filter (\<lambda>c. nty c = LABEL) (nkids n)) \<le> 1"
      "\<And>x. x \<in> set (nkids n) \<Longrightarrow> if nty x = LABEL then node_valid x \<and> nkids x = [] else xwk x \<and> kind_bitsize (nkind x) = 64"
proof -
  have w: "xwk n" by (rule assms)
  note w = w [THEN iffD1 [OF xwk_eq]]
  show ?thesis
  proof (cases "nty n")
    case VAR
    then show ?thesis using w that(1) by simp
  next
    case CONSTN
    then show ?thesis using w that(2) by simp
  next
    case UNARY
    then obtain x where "nkids n = [x]" using w by (auto simp: length_Suc_conv)
    then show ?thesis using UNARY w that(3) [of x] by simp
  next
    case BINARY
    then obtain x y where "nkids n = [x, y]" using w by (auto simp: length_Suc_conv numeral_2_eq_2)
    then show ?thesis using BINARY w that(4) [of x y] by simp
  next
    case TUPLE
    then show ?thesis using w that(5) by (simp add: list_all_iff)
  next
    case MEM
    then show ?thesis using w by (intro that(6)) (simp_all add: list_all_iff)
  qed (use w in simp_all)
qed

lemma xwk_kind: "xwk n \<Longrightarrow> int_kind (nkind n) \<and> eVoid < nkind n"
  by (simp add: xwk_eq)

lemma xwk_type: "xwk n \<Longrightarrow> nty n \<in> {VAR, CONSTN, UNARY, BINARY, TUPLE, MEM}"
  by (simp add: xwk_eq split: ntype.splits)

lemma xwk_expr:
  assumes "xwk n" shows "as_expr n = n" "is_expr_type (nty n)" "node_valid n"
  using xwk_type [OF assms] xwk_kind [OF assms] by (auto simp: as_expr_def downcast_def is_expr_type_def node_valid_def header_valid_def)

subsection \<open>Old variables and new nodes\<close>

text \<open>A variable among the first \<open>n\<close>; the variables of an expression.\<close>

definition old :: "nat \<Rightarrow> u32 \<Rightarrow> bool" where
  "old n l \<longleftrightarrow> unat (local_id l) < n + id_first"

fun olds :: "nat \<Rightarrow> node \<Rightarrow> bool" where
  "olds n (Node h off ind d ks) \<longleftrightarrow>
     (let e = Node h off ind d ks
      in list_all (olds n) ks \<and> (htype h = VAR \<longrightarrow> old n (node_local e)) \<and>
         (htype h = MEM \<and> hop h = opn_code X86_MEM \<longrightarrow>
            (local_valid (mem_base e) \<longrightarrow> old n (mem_base e)) \<and> (local_valid (mem_index e) \<longrightarrow> old n (mem_index e))))"

declare olds.simps [simp del]

lemma olds_eq:
  "olds n e \<longleftrightarrow> list_all (olds n) (nkids e) \<and> (nty e = VAR \<longrightarrow> old n (node_local e)) \<and>
     (nty e = MEM \<and> nop e = opn_code X86_MEM \<longrightarrow>
        (local_valid (mem_base e) \<longrightarrow> old n (mem_base e)) \<and> (local_valid (mem_index e) \<longrightarrow> old n (mem_index e)))"
  by (cases e) (simp only: olds.simps Let_def node.sel)

lemma old_mono: "old n l \<Longrightarrow> n \<le> m \<Longrightarrow> old m l"
  by (simp add: old_def)

lemma olds_mono: "olds n e \<Longrightarrow> n \<le> m \<Longrightarrow> olds m e"
proof (induction e)
  case (Node h off ind d ks)
  have "list_all (olds m) ks"
    using Node unfolding olds.simps Let_def by (auto simp: list_all_iff)
  then show ?case using Node.prems old_mono unfolding olds.simps Let_def by blast
qed

definition agree :: "nat \<Rightarrow> env \<Rightarrow> env \<Rightarrow> bool" where
  "agree n env env' \<longleftrightarrow> (\<forall>l. old n l \<longrightarrow> env' l = env l)"

lemma agree_refl: "agree n env env"
  by (simp add: agree_def)

lemma agree_trans: "agree n env env1 \<Longrightarrow> agree m env1 env2 \<Longrightarrow> n \<le> m \<Longrightarrow> agree n env env2"
  using old_mono by (auto simp: agree_def)

lemma mem_value_stable:
  "agree n env env' \<Longrightarrow> (local_valid (mem_base e) \<Longrightarrow> old n (mem_base e)) \<Longrightarrow> (local_valid (mem_index e) \<Longrightarrow> old n (mem_index e)) \<Longrightarrow>
     mem_value la env' e = mem_value la env e"
  by (simp add: mem_value_def agree_def)

lemma xev_stable: "agree n env env' \<Longrightarrow> olds n e \<Longrightarrow> xev ld la env' e = xev ld la env e"
proof (induction e)
  case (Node h off ind d ks)
  let ?e = "Node h off ind d ks"
  have o: "list_all (olds n) ks" "htype h = VAR \<Longrightarrow> old n (node_local ?e)"
    "htype h = MEM \<Longrightarrow> hop h = opn_code X86_MEM \<Longrightarrow> mem_value la env' ?e = mem_value la env ?e"
    using Node.prems mem_value_stable unfolding olds.simps Let_def by blast+
  have "map (xev ld la env') ks = map (xev ld la env) ks"
    using Node o(1) by (auto simp: list_all_iff)
  moreover have "htype h = VAR \<Longrightarrow> env' (node_local ?e) = env (node_local ?e)"
    using o(2) Node.prems(1) by (simp add: agree_def)
  ultimately show ?case using o(3)
    by (cases "htype h") (simp_all add: xev.simps Let_def del: map_eq_conv)
qed

text \<open>An expression with a value of its own kind.\<close>

definition typed :: "memory \<Rightarrow> labels \<Rightarrow> node \<Rightarrow> bool" where
  "typed ld la e \<longleftrightarrow> int_kind (nkind e) \<and> eVoid < nkind e \<and>
     (\<forall>env v. env_ok env \<longrightarrow> xev ld la env e = Some v \<longrightarrow> vkind v = nkind e \<and> canonical v)"

lemma mk_ptr: "vkind (mk_val ePtr w) = ePtr" "canonical (mk_val ePtr w)"
  using take_bit_length_eq [of w]
  by (simp_all add: canonical_iff ext_word_def kind_is_def kind_group_def kgroup_def kind_bitsize_eqs)

lemma xev_kind: "xwk n \<Longrightarrow> memory_ok ld \<Longrightarrow> env_ok env \<Longrightarrow> xev ld la env n = Some v \<Longrightarrow> vkind v = nkind n \<and> canonical v"
proof (induction n arbitrary: v)
  case (Node h off ind d ks)
  let ?n = "Node h off ind d ks"
  have IH: "xwk x \<Longrightarrow> xev ld la env x = Some v \<Longrightarrow> vkind v = nkind x \<and> canonical v" if "x \<in> set (nkids ?n)" for x v
    using Node.IH [of x v] Node.prems(2,3) that by simp
  note k = xwk_kind [OF Node.prems(1)] and prems = Node.prems
  show ?case
    using prems(1)
  proof (cases rule: xwk_cases)
    case VAR
    then show ?thesis using xev_eqs(1) [OF VAR(1)] prems(3,4) k env_okD by auto
  next
    case CONST
    then show ?thesis using xev_eqs(2) [OF CONST(1)] prems(4) by simp
  next
    case (UNARY x)
    then obtain vx where "xev ld la env x = Some vx" "eval_unary_op (nkind ?n) (node_op1 ?n) vx = Some v"
      using xev_eqs(4) [OF UNARY(1,2)] prems(4) by (auto simp: bind_eq_Some_conv)
    moreover from this have "vkind vx = nkind x" "canonical vx" using IH [of x vx] UNARY by simp_all
    then have "has_kind (nkind ?n) (eval_unary_op (nkind ?n) (node_op1 ?n) vx)"
      using UNARY k xwk_kind [OF UNARY(3)] by (intro eval_unary_kind) simp_all
    ultimately show ?thesis by (metis has_kindD option.inject)
  next
    case (BINARY x y)
    then obtain vx vy where v: "xev ld la env x = Some vx" "xev ld la env y = Some vy" "eval_binary_op (node_op2 ?n) vx vy = Some v"
      using xev_eqs(5) [OF BINARY(1,2)] prems(4) by (auto simp: bind_eq_Some_conv)
    have x: "vkind vx = nkind x" "canonical vx" "vkind vy = nkind x" "canonical vy"
      using IH [of x vx] IH [of y vy] v(1,2) BINARY by simp_all
    show ?thesis
      using ev_and_or_kind(1) [of vx "node_op2 ?n" "nkind ?n" "Some vy" v] v(3) x BINARY xwk_kind [OF BINARY(3)]
      by (simp add: ev_and_or_def)
  next
    case TUPLE
    then obtain vs where vs: "those (map (xev ld la env) (nkids ?n)) = Some vs"
      "(if nkind ?n = ePtr \<and> node_opn ?n = ADDN then Some (mk_val ePtr (sum_list (map vbits vs)))
        else eval_tuple_op (nkind ?n) (node_opn ?n) vs) = Some v"
      using xev_eqs(6) [OF TUPLE(1)] prems(4) by (auto simp: bind_eq_Some_conv)
    have c: "set vs \<subseteq> opn_carrier (nkind ?n) (node_opn ?n)"
    proof
      fix w assume "w \<in> set vs"
      then have "Some w \<in> set (map (xev ld la env) (nkids ?n))" using vs(1) by (simp add: those_Some)
      then show "w \<in> opn_carrier (nkind ?n) (node_opn ?n)" using IH TUPLE by (fastforce simp: opn_carrier_def)
    qed
    from eval_tuple_op_eq [OF TUPLE(2) c] opn.fold_closed [OF c opn_unit_spec(2) [OF TUPLE(2)]] vs(2) mk_ptr
    show ?thesis by (auto simp: opn_carrier_def split: if_splits)
  next
    case MEM
    then show ?thesis using xev_eqs(8) [OF MEM(1,2)] prems(2,4) k by (auto simp: memory_ok_def)
  qed
qed

lemma xwk_typed: "xwk e \<Longrightarrow> memory_ok ld \<Longrightarrow> typed ld la e"
  using xev_kind xwk_kind by (simp add: typed_def)

end
