(* ===== verification/Spec2Isabelle.thy ===== *)
theory Spec2Isabelle imports Allocator Optimizer_Limits Compile_Func X64_Limits X64_Values begin

text \<open>
  Verification of onejit, a just-in-time compiler library in C++ (\<open>src/onejit\<close>, with its containers in \<open>src/onestl\<close>).

  A client builds the tree of a function out of nodes (\<open>ir/\<close>), which live in a buffer of 32-bit items (\<open>Code\<close>). The compiler
  (\<open>compiler.cpp\<close>) optimizes the tree (\<open>optimizer*.cpp\<close>, with the constant arithmetic of \<open>eval.cpp\<close> and \<open>value.cpp\<close>) and
  flattens it to a list of expressions, assignments, labels and jumps. The x86_64 compiler (\<open>x64/compiler.cpp\<close>) turns that
  list into instructions on variables; it builds the control flow graph (\<open>flowgraph.cpp\<close>) and runs the register allocator
  (\<open>reg/allocator.cpp\<close>) on an interference graph (\<open>onestl/graph.cpp\<close>, on \<open>bitset.cpp\<close>). The assembler (\<open>x64/asm*.cpp\<close>) writes
  instructions on registers as bytes.

  \<^bold>\<open>Conventions.\<close> Machine integers are words of their width, with the wrap-around of the code; strings are lists of characters;
  classes are records, and a member function takes the object and returns it with its result. What the code reads from
  outside is an argument: \<open>alloc_oracle\<close>s say which allocations succeed, \<open>ffs_config\<close> which search primitive the C library
  has. An allocation that fails, a full table or a rejected instruction is a value of the result. \<open>None\<close> of an operation on
  values is undefined behaviour of C++. The functions that create nodes return \<open>None\<close>, and those built on them the error
  \<open>Forever\<close>, when the loop of \<open>create_indirect\<close> does not end, and the error \<open>Undefined\<close> for undefined behaviour.

  \<^bold>\<open>Containers and graphs.\<close>
  \<^item> \<open>Prelude\<close>: names of the machine integers, collections of rules, facts on lists, bits and words that several parts share.
  \<^item> \<open>Containers\<close>: \<open>View\<close>, \<open>Span\<close>, \<open>Array\<close>, \<open>Buffer\<close> and the ranges of \<open>src/onestl\<close>; locale \<open>checked_vector\<close>.
  \<^item> \<open>Bitset\<close>: \<open>onestl/bitset.cpp\<close>, with its three ways to find the first bit; locale \<open>bit_vector\<close>. Lemmas: what each operation
    does to every bit; \<open>find\<close> returns the first one (and where it does not).
  \<^item> \<open>Graph\<close>: \<open>onestl/graph.cpp\<close>, a bit matrix with the degree of every node, refined to a symmetric relation; locale
    \<open>interference_graph\<close>.
  \<^item> \<open>Allocator\<close>: \<open>reg/allocator.cpp\<close>, Chaitin's algorithm: simplify, spill, restore and color, with hints. Lemmas: the
    coloring is proper, nothing is spilled when the graph is k-degenerate, hints are honoured, edges are put back.

  \<^bold>\<open>Kinds, operators and values.\<close>
  \<^item> \<open>Kinds\<close>: \<open>bits.hpp\<close>, \<open>group.hpp\<close>, \<open>kind.hpp\<close>, \<open>math.hpp\<close>. \<open>Ops\<close>: the operators of \<open>op.hpp\<close>.
  \<^item> \<open>OpStmts\<close>: the operations of statements, tables of more than three hundred names, and \<open>opstmt.cpp\<close>.
  \<^item> \<open>Floats\<close>, \<open>Values\<close>: class \<open>Value\<close> of \<open>value.cpp\<close>. Integer arithmetic is exact up to the wrap-around of its kind. Floating
    point numbers are dyadic rationals, rounded to nearest even.
  \<^item> \<open>Encodings\<close>: the bit fields of \<open>type.hpp\<close>, \<open>ir/header.hpp\<close>, \<open>id.hpp\<close>, \<open>local.hpp\<close> and \<open>imm.hpp\<close>.
  \<^item> \<open>Eval\<close>: \<open>eval.cpp\<close> against the meaning \<open>ev\<close> of expressions; the n-ary operators are commutative monoids (locale
    \<open>monoid_on\<close>).

  \<^bold>\<open>Nodes.\<close>
  \<^item> \<open>Codes\<close>: \<open>code.cpp\<close>. \<open>Nodes\<close>: \<open>ir/*.cpp\<close>, \<open>func.cpp\<close>, \<open>codeparser.cpp\<close>. A node is the tree of what its offset stands for,
    predicate \<open>stored\<close>; creating a node stores it and keeps what was stored. \<open>Deep\<close>: the comparisons of trees in
    \<open>ir/node.cpp\<close>.
  \<^item> \<open>Funcs\<close>: a function under compilation, \<open>func.hpp\<close> and \<open>funcheader.hpp\<close>.
  \<^item> \<open>FlowGraph\<close>: \<open>flowgraph.cpp\<close> and \<open>ir/util.cpp\<close>: the blocks partition the code, and the edges are those of execution.

  \<^bold>\<open>Optimizer.\<close>
  \<^item> \<open>Optimizer\<close>: \<open>optimizer.cpp\<close>, \<open>optimizer_binary.cpp\<close>, \<open>optimizer_tuple.cpp\<close>. Its recursion has fuel: one more than twice the
    number of nodes is enough (\<open>Optimizer_Ends\<close>).
  \<^item> \<open>Simplify\<close> and \<open>Optimizer_Sound\<close>: each simplification, and the whole, keeps kind and value. \<open>Optimizer_Returns\<close>: what
    a run keeps of its nodes (locale \<open>optimizer_keeps\<close>). \<open>Optimizer_Limits\<close>: where the meaning is lost.

  \<^bold>\<open>Compiler to flat code.\<close>
  \<^item> \<open>Compiler\<close>: \<open>compiler.cpp\<close>, a state monad with errors; the overloads of \<open>compile\<close> are the definitions \<open>compile_*\<close>, with fuel
    for the depth of their recursion; twelve times the number of nodes, plus two, is enough.
  \<^item> \<open>Compile_Runs\<close>, \<open>Compiler_Sound\<close>, \<open>Compiler_Statements\<close>: the judgement \<open>runs\<close>: flat code, whose jumps go to labels of the
    code or of the function, and balanced stacks of labels. \<open>Compile_Returns\<close>: the judgement \<open>keeps\<close>: no endless loop.
    \<open>Compile_Steps\<close>, \<open>Compile_Func\<close>: running the compiler on an example, and the theorems on functions.

  \<^bold>\<open>x86_64.\<close>
  \<^item> \<open>X64\<close>: registers, scales, addresses and memory operands. \<open>X64_Asm\<close>: the tables of instructions and the functions that
    write bytes, up to \<open>Assembler::x64\<close>.
  \<^item> \<open>X64_Decode\<close>: a decoder after the manual of the processor, which shares no table with the assembler. \<open>X64_Sound\<close>,
    \<open>X64_Emit\<close>, \<open>X64_Programs\<close>: the bytes of an instruction, and of a program, decode to what was asked for. \<open>X64_Limits\<close>: the
    instructions for which they do not.
  \<^item> \<open>X64_Compiler\<close>: \<open>x64/compiler.cpp\<close>, \<open>address.cpp\<close> and the rest of \<open>mem.cpp\<close>, in the monad of \<open>Compiler\<close>. \<open>X64_Steps\<close>: what
    every computation does to the state. \<open>X64_Values\<close>: the meaning of expressions and of the emitted assignments.

  \<^bold>\<open>Not modelled.\<close> The back end for the external library libmir (\<open>src/onejit/mir\<close>), printing, scanning and input and output,
  the names of architectures, the tests, and the Go programs under \<open>src/go\<close>. Pointers to the code and the function are the
  objects themselves: the theorems are about one function at a time.
\<close>

end
